(* ===== verification/Prelude.thy ===== *)
theory Prelude
  imports Complex_Main "HOL-Library.Word"
begin

text \<open>
  Shared vocabulary of the development: the types of the model's values (octets, byte
  strings, results of code that may throw), the collections of rewrite rules the component
  theories add to, and generic lemmas on lists, options and words.

  C++ exceptions are values of the type \<open>exn\<close>, one constructor per exception class of the
  standard library the sources throw; the message text of an exception is not modelled.
  \<open>Undefined_behaviour\<close> marks a step the language gives no meaning to (a read through a null
  pointer), so that no theorem can rest on it silently.
\<close>

unbundle bit_operations_syntax

section \<open>Types\<close>

type_synonym byte = "8 word"
type_synonym bytes = "8 word list"

text \<open>A string literal of the sources, as octets.\<close>

definition ascii :: "string \<Rightarrow> bytes" where
  "ascii s = map (word_of_nat \<circ> of_char) s"

datatype exn =
    Out_of_range | Length_error | Invalid_argument | Runtime_error | Logic_error
  | Undefined_behaviour

type_synonym 'a result = "exn + 'a"

section \<open>Collections\<close>

named_theorems bytes_simps \<open>length and content rules of the byte-string operations\<close>
named_theorems inv_intros \<open>preservation rules of the component invariants\<close>
named_theorems frame_simps \<open>fields an operation leaves alone\<close>

section \<open>Lists\<close>

lemma take_drop_split:
  "i \<le> length xs \<Longrightarrow> take i xs @ drop i xs = xs"
  by simp

lemma drop_append_exact [simp]: "length xs = n \<Longrightarrow> drop n (xs @ ys) = ys"
  by simp

lemma take_append_exact [simp]: "length xs = n \<Longrightarrow> take n (xs @ ys) = xs"
  by simp

lemma nth_append_exact: "length xs = n \<Longrightarrow> (xs @ y # ys) ! n = y"
  by (auto simp: nth_append)

lemma sum_list_replicate_nat: "sum_list (replicate n (k::nat)) = n * k"
  by (simp add: sum_list_replicate)

section \<open>Results\<close>

definition res_bind :: "'a result \<Rightarrow> ('a \<Rightarrow> 'b result) \<Rightarrow> 'b result" where
  "res_bind r f = (case r of Inl e \<Rightarrow> Inl e | Inr x \<Rightarrow> f x)"

lemma res_bind_simps [simp]:
  "res_bind (Inl e) f = Inl e"
  "res_bind (Inr x) f = f x"
  by (simp_all add: res_bind_def)

lemma res_bind_eq_Inr:
  "res_bind r f = Inr y \<longleftrightarrow> (\<exists>x. r = Inr x \<and> f x = Inr y)"
  by (cases r) simp_all

lemma res_bind_eq_Inl:
  "res_bind r f = Inl e \<longleftrightarrow> r = Inl e \<or> (\<exists>x. r = Inr x \<and> f x = Inl e)"
  by (cases r) simp_all

text \<open>
  \<open>try { ... } catch (const std::exception&) { ... }\<close>: the handler runs on every exception; undefined
  behaviour is not an exception and stays what it is.
\<close>

definition try_catch :: "'a result \<Rightarrow> (exn \<Rightarrow> 'a result) \<Rightarrow> 'a result" where
  "try_catch r h =
     (case r of
        Inr x \<Rightarrow> Inr x
      | Inl e \<Rightarrow> if e = Undefined_behaviour then Inl e else h e)"

lemma try_catch_simps [simp]:
  "try_catch (Inr x) h = Inr x"
  "e \<noteq> Undefined_behaviour \<Longrightarrow> try_catch (Inl e) h = h e"
  "try_catch (Inl Undefined_behaviour) h = Inl Undefined_behaviour"
  by (simp_all add: try_catch_def)

section \<open>Octets\<close>

lemma unat_byte_lt [simp]: "unat (b :: byte) < 256"
  using unsigned_less [of b] by simp

lemma unat_byte_of_nat [simp]: "n < 256 \<Longrightarrow> unat (word_of_nat n :: byte) = n"
  by (simp add: unat_of_nat)

lemma byte_exhaust_nat:
  fixes b :: byte
  obtains n where "n < 256" and "b = word_of_nat n"
proof
  show "unat b < 256" by simp
  show "b = word_of_nat (unat b)" by simp
qed

lemma all_byte_iff: "(\<forall>b :: byte. P b) \<longleftrightarrow> (\<forall>n \<in> {..<256}. P (word_of_nat n))"
  by (metis UNIV_I byte_exhaust_nat lessThan_iff)

section \<open>Machines, invariants and simulations\<close>

text \<open>
  The two contracts the components of the development are proved against.  A machine runs a
  list of commands; an invariant is kept by every command; a simulation says that the
  abstraction of the concrete step is the abstract step, under the invariant.  The lemmas are
  proved once here and used through the interpretations in the component theories.
\<close>

locale invariant_machine =
  fixes step :: "'c \<Rightarrow> 's \<Rightarrow> 's"
    and inv :: "'s \<Rightarrow> bool"
  assumes step_inv: "inv s \<Longrightarrow> inv (step c s)"
begin

lemma run_inv: "inv s \<Longrightarrow> inv (fold step cs s)"
  by (induction cs arbitrary: s) (simp_all add: step_inv)

lemma run_inv_prefix: "inv s \<Longrightarrow> inv (fold step (take n cs) s)"
  by (rule run_inv)

end

locale simulation = invariant_machine step inv
  for step :: "'c \<Rightarrow> 's \<Rightarrow> 's" and inv :: "'s \<Rightarrow> bool" +
  fixes abs :: "'s \<Rightarrow> 'a"
    and spec :: "'c \<Rightarrow> 'a \<Rightarrow> 'a"
  assumes step_sim: "inv s \<Longrightarrow> abs (step c s) = spec c (abs s)"
begin

lemma run_sim: "inv s \<Longrightarrow> abs (fold step cs s) = fold spec cs (abs s)"
  by (induction cs arbitrary: s) (simp_all add: step_inv step_sim)

lemma run_observational:
  assumes "inv s" and "inv t" and "abs s = abs t"
  shows "abs (fold step cs s) = abs (fold step cs t)"
  using assms by (simp add: run_sim)

end

end
