(* ===== verification/Byte_String.thy ===== *)
theory Byte_String
  imports Prelude
begin

text \<open>
  The value-level operations of \<open>Bytes\<close>: slices (\<open>left\<close>, \<open>right\<close>, \<open>mid\<close>), substring search
  (\<open>memmem\<close>, \<open>find\<close>) and hexadecimal text (\<open>toHex\<close>, \<open>hexFromByte\<close>, \<open>assignHex\<close>,
  \<open>appendHex\<close>).  By the refinement of theory \<open>Cow_Bytes\<close> an object may be read as the list of
  its octets, so these operations are functions on lists; a null object reads as the empty
  list.  C strings and \<open>std::string\<close> are lists of octets as well.
\<close>

section \<open>Slices\<close>

definition left :: "bytes \<Rightarrow> nat \<Rightarrow> bytes" where
  "left bs len = (let len' = (if len > length bs then length bs else len) in take len' bs)"

definition right :: "bytes \<Rightarrow> nat \<Rightarrow> bytes" where
  "right bs len =
     (let len' = (if len > length bs then length bs else len) in drop (length bs - len') bs)"

definition mid :: "bytes \<Rightarrow> nat \<Rightarrow> nat \<Rightarrow> bytes" where
  "mid bs beginpos len =
     (if beginpos \<ge> length bs then []
      else let remaining = length bs - beginpos;
               len' = (if len > remaining then remaining else len)
           in take len' (drop beginpos bs))"

definition mid_end :: "bytes \<Rightarrow> nat \<Rightarrow> bytes" where
  "mid_end bs beginpos =
     (if beginpos \<ge> length bs then []
      else take (length bs - beginpos) (drop beginpos bs))"

text \<open>\<open>std::vector::resize\<close>: cut, or extend with zero octets.\<close>

definition resize_vec :: "nat \<Rightarrow> bytes \<Rightarrow> bytes" where
  "resize_vec n bs = (if n \<le> length bs then take n bs else bs @ replicate (n - length bs) 0)"

section \<open>Search\<close>

function memmem_loop :: "bytes \<Rightarrow> bytes \<Rightarrow> nat \<Rightarrow> nat option" where
  "memmem_loop h n i =
     (if i \<le> length h - length n then
        (if h ! i = n ! 0 \<and> take (length n) (drop i h) = n then Some i
         else memmem_loop h n (Suc i))
      else None)"
  by pat_completeness auto
termination
  by (relation "measure (\<lambda>(h, n, i). Suc (length h - length n) - i)") auto

declare memmem_loop.simps [simp del]

definition memmem :: "bytes \<Rightarrow> bytes \<Rightarrow> nat option" where
  "memmem h n =
     (if length n = 0 then Some 0
      else if length h < length n then None
      else memmem_loop h n 0)"

definition find_str :: "bytes \<Rightarrow> int \<Rightarrow> bytes option \<Rightarrow> int" where
  "find_str bs pos str =
     (case str of
        None \<Rightarrow> -1
      | Some n \<Rightarrow>
          if bs = [] \<or> pos < 0 \<or> nat pos \<ge> length bs then -1
          else case memmem (drop (nat pos) bs) n of
            None \<Rightarrow> -1
          | Some i \<Rightarrow> int (nat pos + i))"

section \<open>Hexadecimal text\<close>

definition hex_upper_chars :: bytes where
  "hex_upper_chars = [0x30, 0x31, 0x32, 0x33, 0x34, 0x35, 0x36, 0x37, 0x38, 0x39,
                      0x41, 0x42, 0x43, 0x44, 0x45, 0x46]"

definition hex_lower_chars :: bytes where
  "hex_lower_chars = [0x30, 0x31, 0x32, 0x33, 0x34, 0x35, 0x36, 0x37, 0x38, 0x39,
                      0x61, 0x62, 0x63, 0x64, 0x65, 0x66]"

definition hexFromByte :: "byte \<Rightarrow> bool \<Rightarrow> bytes" where
  "hexFromByte b upper =
     (if upper then
        [hex_upper_chars ! unat (drop_bit 4 (b AND 0xF0)), hex_upper_chars ! unat (b AND 0x0F)]
      else
        [hex_lower_chars ! unat (drop_bit 4 (b AND 0xF0)), hex_lower_chars ! unat (b AND 0x0F)])"

fun toHex :: "bytes \<Rightarrow> bool \<Rightarrow> bytes" where
  "toHex [] upper = []"
| "toHex (b # bs) upper = hexFromByte b upper @ toHex bs upper"

definition hex_digit :: "byte \<Rightarrow> nat" where
  "hex_digit c = (unat c mod 32 + 9) mod 25"

definition hex_pair :: "byte \<Rightarrow> byte \<Rightarrow> byte" where
  "hex_pair h l = word_of_nat (hex_digit h * 16 + hex_digit l)"

text \<open>The decoding loop: pairs of characters, a single trailing character is dropped.\<close>

fun hex_loop :: "bytes \<Rightarrow> bytes \<Rightarrow> bytes" where
  "hex_loop acc (h # l # rest) = hex_loop (acc @ [hex_pair h l]) rest"
| "hex_loop acc _ = acc"

definition assignHex :: "bytes option \<Rightarrow> bytes" where
  "assignHex hex =
     (case hex of
        None \<Rightarrow> []
      | Some cs \<Rightarrow>
          (let hex_size = 2 * (length cs div 2)
           in if hex_size = 0 then [] else hex_loop [] (take hex_size cs)))"

definition appendHex :: "bytes \<Rightarrow> bytes option \<Rightarrow> bytes" where
  "appendHex bs hex =
     (case hex of
        None \<Rightarrow> bs
      | Some cs \<Rightarrow>
          (let hex_size = 2 * (length cs div 2)
           in if hex_size = 0 then bs else hex_loop bs (take hex_size cs)))"

section \<open>Lemmas\<close>

subsection \<open>Slices\<close>

lemma left_eq [bytes_simps]: "left bs n = take n bs"
  by (simp add: left_def Let_def)

lemma right_eq [bytes_simps]: "right bs n = drop (length bs - n) bs"
  by (simp add: right_def Let_def)

lemma mid_eq [bytes_simps]: "mid bs b n = take n (drop b bs)"
  by (simp add: mid_def Let_def)

lemma mid_end_eq [bytes_simps]: "mid_end bs b = drop b bs"
  by (simp add: mid_end_def)

lemma length_resize_vec [simp]: "length (resize_vec n bs) = n"
  by (simp add: resize_vec_def)

lemma resize_vec_same [simp]: "resize_vec (length bs) bs = bs"
  by (simp add: resize_vec_def)

subsection \<open>Search\<close>

definition occurs_at :: "bytes \<Rightarrow> bytes \<Rightarrow> nat \<Rightarrow> bool" where
  "occurs_at n h i \<longleftrightarrow> i + length n \<le> length h \<and> take (length n) (drop i h) = n"

lemma occurs_at_head:
  assumes "n \<noteq> []" and "occurs_at n h i"
  shows "h ! i = n ! 0"
proof -
  from assms(2) have eq: "take (length n) (drop i h) = n" and le: "i + length n \<le> length h"
    unfolding occurs_at_def by blast+
  have "n ! 0 = take (length n) (drop i h) ! 0" by (simp only: eq)
  also have "\<dots> = h ! i" using assms(1) le by simp
  finally show ?thesis by (rule sym)
qed

lemma memmem_loop_correct:
  assumes "n \<noteq> []" and "length n \<le> length h"
  shows "case memmem_loop h n i of
           None \<Rightarrow> \<forall>j \<ge> i. \<not> occurs_at n h j
         | Some r \<Rightarrow> i \<le> r \<and> occurs_at n h r \<and> (\<forall>j. i \<le> j \<and> j < r \<longrightarrow> \<not> occurs_at n h j)"
  using assms
proof (induction h n i rule: memmem_loop.induct)
  case (1 h n i)
  note unfold = memmem_loop.simps [of h n i]
  show ?case
  proof (cases "i \<le> length h - length n")
    case False
    then have "\<forall>j \<ge> i. \<not> occurs_at n h j" by (auto simp: occurs_at_def)
    with False show ?thesis by (simp add: unfold)
  next
    case True
    with 1(3) have "i + length n \<le> length h" by simp
    then have iff: "(h ! i = n ! 0 \<and> take (length n) (drop i h) = n) \<longleftrightarrow> occurs_at n h i"
      using occurs_at_head [OF 1(2), of h i] unfolding occurs_at_def by blast
    show ?thesis
    proof (cases "occurs_at n h i")
      case occ: True
      then have "memmem_loop h n i = Some i" using True iff by (simp only: unfold if_True simp_thms)
      then show ?thesis using occ by (auto simp del: not_less)
    next
      case nocc: False
      then have "memmem_loop h n i = memmem_loop h n (Suc i)"
        using True iff by (simp only: unfold if_True if_False simp_thms)
      moreover have "case memmem_loop h n (Suc i) of
           None \<Rightarrow> \<forall>j \<ge> Suc i. \<not> occurs_at n h j
         | Some r \<Rightarrow> Suc i \<le> r \<and> occurs_at n h r \<and> (\<forall>j. Suc i \<le> j \<and> j < r \<longrightarrow> \<not> occurs_at n h j)"
        using 1(1) True nocc iff 1(2,3) by blast
      ultimately show ?thesis
        using nocc by (auto split: option.splits simp: Suc_le_eq) (metis le_eq_less_or_eq)+
    qed
  qed
qed

lemma memmem_None: "memmem h n = None \<Longrightarrow> \<not> occurs_at n h j"
  using memmem_loop_correct [of n h 0]
  by (auto simp: memmem_def occurs_at_def split: if_splits)

lemma memmem_Some:
  assumes "memmem h n = Some r"
  shows "occurs_at n h r" and "j < r \<Longrightarrow> \<not> occurs_at n h j"
proof -
  have "occurs_at n h r \<and> (\<forall>j < r. \<not> occurs_at n h j)"
  proof (cases "n = []")
    case True
    with assms show ?thesis by (simp add: memmem_def occurs_at_def)
  next
    case False
    with assms have "length n \<le> length h" and "memmem_loop h n 0 = Some r"
      by (auto simp: memmem_def split: if_splits)
    with memmem_loop_correct [OF False, of h 0] show ?thesis by simp
  qed
  then show "occurs_at n h r" and "j < r \<Longrightarrow> \<not> occurs_at n h j" by auto
qed

lemma occurs_at_drop:
  "p \<le> length h \<Longrightarrow> occurs_at n (drop p h) j \<longleftrightarrow> occurs_at n h (p + j)"
  by (auto simp: occurs_at_def add.commute add.left_commute)

subsection \<open>Hexadecimal text\<close>

lemma hex_loop_append: "hex_loop (acc @ ys) cs = acc @ hex_loop ys cs"
  by (induction ys cs rule: hex_loop.induct) simp_all

lemma hex_loop_acc: "hex_loop acc cs = acc @ hex_loop [] cs"
  using hex_loop_append [of acc "[]" cs] by simp

lemma hex_digit_chars:
  assumes "k < 16"
  shows "hex_digit (hex_upper_chars ! k) = k" and "hex_digit (hex_lower_chars ! k) = k"
proof -
  from assms have k: "k \<in> set [0..<16]" by simp
  have "\<forall>k \<in> set [0..<16]. hex_digit (hex_upper_chars ! k) = k" by code_simp
  with k show "hex_digit (hex_upper_chars ! k) = k" by blast
  have "\<forall>k \<in> set [0..<16]. hex_digit (hex_lower_chars ! k) = k" by code_simp
  with k show "hex_digit (hex_lower_chars ! k) = k" by blast
qed

lemma high_nibble: "unat (drop_bit 4 (b AND 0xF0 :: byte)) = unat b div 16"
proof -
  have "(0xF0 :: byte) = NOT (mask 4)" by code_simp
  moreover have "drop_bit 4 (b AND NOT (mask 4)) = drop_bit 4 b"
    by (rule bit_word_eqI) (auto simp: bit_simps dest: bit_imp_le_length)
  ultimately have "drop_bit 4 (b AND 0xF0) = b div 16" by (simp add: drop_bit_eq_div)
  then show ?thesis by (simp add: unat_div_distrib)
qed

lemma low_nibble: "unat (b AND 0x0F :: byte) = unat b mod 16"
proof -
  have "b AND 0x0F = take_bit 4 b" by (simp add: take_bit_eq_mask mask_eq_exp_minus_1)
  then have "b AND 0x0F = b mod 16" by (simp add: take_bit_eq_mod)
  then show ?thesis by (simp add: unat_mod_distrib)
qed

lemma hex_pair_digits: "hex_digit h = unat b div 16 \<Longrightarrow> hex_digit l = unat b mod 16 \<Longrightarrow> hex_pair h l = b"
  by (simp only: hex_pair_def div_mult_mod_eq) simp

lemma hex_pair_hexFromByte:
  "\<exists>h l. hexFromByte b upper = [h, l] \<and> hex_pair h l = b"
proof -
  have hi: "unat b div 16 < 16" and lo: "unat b mod 16 < 16"
    using unat_byte_lt [of b] by linarith+
  show ?thesis
    unfolding hexFromByte_def high_nibble low_nibble
    using hex_pair_digits [OF hex_digit_chars(1) [OF hi] hex_digit_chars(1) [OF lo]]
      hex_pair_digits [OF hex_digit_chars(2) [OF hi] hex_digit_chars(2) [OF lo]]
    by (cases upper) (simp_all only: if_True if_False list.inject simp_thms, blast+)
qed

lemma length_toHex [simp]: "length (toHex bs u) = 2 * length bs"
  by (induction bs) (simp_all add: hexFromByte_def)

lemma hex_loop_toHex: "hex_loop acc (toHex bs u) = acc @ bs"
proof (induction bs arbitrary: acc)
  case (Cons b bs)
  obtain h l where "hexFromByte b u = [h, l]" and "hex_pair h l = b"
    using hex_pair_hexFromByte by blast
  with Cons show ?case by simp
qed simp

lemma assignHex_even: "even (length cs) \<Longrightarrow> assignHex (Some cs) = hex_loop [] cs"
  by (auto simp: assignHex_def Let_def even_two_times_div_two)

lemma appendHex_even: "even (length cs) \<Longrightarrow> appendHex bs (Some cs) = hex_loop bs cs"
  by (auto simp: appendHex_def Let_def even_two_times_div_two)

section \<open>Properties\<close>

text \<open>
  Hexadecimal text round-trips: reading back the upper-case or lower-case text of a byte
  string gives the byte string, and appending it appends the byte string.
\<close>

lemma hex_roundtrip:
  "assignHex (Some (toHex bs upper)) = bs \<and> appendHex pre (Some (toHex bs upper)) = pre @ bs"
  by (simp add: assignHex_even appendHex_even hex_loop_toHex)

text \<open>
  \<open>find\<close> returns the first occurrence of the string at or after the start position, and -1
  exactly when there is none or the start position is outside the buffer.
\<close>

lemma find_first_occurrence:
  "(find_str bs pos (Some n) = -1 \<longleftrightarrow>
      pos < 0 \<or> nat pos \<ge> length bs \<or> (\<forall>j \<ge> nat pos. \<not> occurs_at n bs j))
   \<and> (find_str bs pos (Some n) \<noteq> -1 \<longrightarrow>
      pos \<le> find_str bs pos (Some n) \<and> occurs_at n bs (nat (find_str bs pos (Some n))) \<and>
      (\<forall>j. nat pos \<le> j \<and> j < nat (find_str bs pos (Some n)) \<longrightarrow> \<not> occurs_at n bs j))"
proof (cases "pos < 0 \<or> nat pos \<ge> length bs")
  case True
  then show ?thesis by (auto simp: find_str_def)
next
  case False
  then have p: "nat pos \<le> length bs" and bs: "bs \<noteq> []" by auto
  have shift: "occurs_at n bs j \<longleftrightarrow> occurs_at n (drop (nat pos) bs) (j - nat pos)" if "nat pos \<le> j" for j
    using occurs_at_drop [OF p, of n "j - nat pos"] that by simp
  show ?thesis
  proof (cases "memmem (drop (nat pos) bs) n")
    case None
    then have "find_str bs pos (Some n) = -1" using False bs by (simp add: find_str_def)
    moreover have "\<not> occurs_at n bs j" if "nat pos \<le> j" for j
      using memmem_None [OF None] shift [OF that] by simp
    ultimately show ?thesis by auto
  next
    case (Some i)
    then have r: "find_str bs pos (Some n) = int (nat pos + i)"
      using False bs by (simp add: find_str_def)
    have occ: "occurs_at n bs (nat pos + i)"
      using memmem_Some(1) [OF Some] by (simp add: occurs_at_drop [OF p])
    moreover have "\<not> occurs_at n bs j" if "nat pos \<le> j" "j < nat pos + i" for j
      using memmem_Some(2) [OF Some, of "j - nat pos"] shift [OF that(1)] that by simp
    moreover have "nat (find_str bs pos (Some n)) = nat pos + i" and "pos \<le> find_str bs pos (Some n)"
      and "find_str bs pos (Some n) \<noteq> -1"
      using r by linarith+
    ultimately show ?thesis using False by (metis le_add1)
  qed
qed

end
