(* ===== verification/Cow_Bytes.thy ===== *)
theory Cow_Bytes
  imports Byte_String
begin

text \<open>
  The copy-on-write byte buffer of \<open>Bytes.h\<close> and \<open>Bytes.cpp\<close>.

  A \<open>Bytes\<close> object holds a shared pointer \<open>_data\<close> to a \<open>std::vector<uint8_t>\<close> and a flag
  \<open>_exclusive\<close>; copying an object shares the vector.  The model keeps the vectors in a store
  (\<open>cells\<close>, by address) and the objects in a table (\<open>objs\<close>, by object id), so that two objects
  may hold the same address.  Capacity reservations change no content and are left out; the
  reference count of the shared pointer is not modelled (an unreachable cell stays in the
  store), nor is a failing allocation.  An object appended to itself inserts a range of its own
  vector into it, which the language leaves undefined; \<open>append\<close> has reserved the capacity before, and
  the model gives the contents that follow when nothing is reallocated.

  The main result is a refinement: as long as the code goes through \<open>exclusiveData\<close> before it
  mutates, a program over \<open>Bytes\<close> objects behaves as if every object held its own value.
\<close>

section \<open>State\<close>

record bytes_obj =
  data_ptr :: "nat option"
  exclusive :: bool

record store =
  objs :: "nat \<Rightarrow> bytes_obj"
  cells :: "nat \<Rightarrow> bytes"
  fresh :: nat

definition none_obj :: bytes_obj where
  "none_obj = \<lparr>data_ptr = None, exclusive = True\<rparr>"

definition init_store :: store where
  "init_store = \<lparr>objs = (\<lambda>_. none_obj), cells = (\<lambda>_. []), fresh = 0\<rparr>"

definition view :: "store \<Rightarrow> nat \<Rightarrow> bytes" where
  "view s x = (case data_ptr (objs s x) of None \<Rightarrow> [] | Some p \<Rightarrow> cells s p)"

definition set_obj :: "nat \<Rightarrow> nat option \<Rightarrow> bool \<Rightarrow> store \<Rightarrow> store" where
  "set_obj x p e s = s\<lparr>objs := (objs s)(x := \<lparr>data_ptr = p, exclusive = e\<rparr>)\<rparr>"

definition set_cell :: "nat \<Rightarrow> bytes \<Rightarrow> store \<Rightarrow> store" where
  "set_cell p bs s = s\<lparr>cells := (cells s)(p := bs)\<rparr>"

text \<open>\<open>SharedData(new Data())\<close> with the given content, owned by \<open>x\<close>.\<close>

definition alloc_for :: "nat \<Rightarrow> bytes \<Rightarrow> store \<Rightarrow> store" where
  "alloc_for x bs s =
     set_obj x (Some (fresh s)) True (set_cell (fresh s) bs (s\<lparr>fresh := Suc (fresh s)\<rparr>))"

section \<open>Operations\<close>

definition newData :: "nat \<Rightarrow> store \<Rightarrow> store" where
  "newData x s = alloc_for x [] s"

definition exclusiveData :: "nat \<Rightarrow> bool \<Rightarrow> store \<Rightarrow> store" where
  "exclusiveData x copy s =
     (case data_ptr (objs s x) of
        None \<Rightarrow> newData x s
      | Some p \<Rightarrow>
          if \<not> exclusive (objs s x) then
            (if copy \<and> cells s p \<noteq> [] then alloc_for x (cells s p) s else newData x s)
          else s)"

definition shareData :: "nat \<Rightarrow> store \<Rightarrow> nat option \<times> store" where
  "shareData y s =
     (data_ptr (objs s y), set_obj y (data_ptr (objs s y)) False s)"

definition clear :: "nat \<Rightarrow> store \<Rightarrow> store" where
  "clear x s = set_obj x None True s"

text \<open>The statement \<open>f(*_data)\<close> on the vector \<open>x\<close> points to, after \<open>exclusiveData\<close>.\<close>

definition modify :: "nat \<Rightarrow> (bytes \<Rightarrow> bytes) \<Rightarrow> store \<Rightarrow> store" where
  "modify x f s =
     (case data_ptr (objs s x) of None \<Rightarrow> s | Some p \<Rightarrow> set_cell p (f (cells s p)) s)"

definition assign_bytes :: "nat \<Rightarrow> nat \<Rightarrow> store \<Rightarrow> store" where
  "assign_bytes x y s = (let (p, s') = shareData y s in set_obj x p False s')"

text \<open>
  \<open>assign(const uint8_t* chunk, size_t)\<close>, \<open>assign(const Data&)\<close>, \<open>assign(const char* )\<close>: the
  chunk is \<open>None\<close> for a null pointer.
\<close>

definition assign_chunk :: "nat \<Rightarrow> bytes option \<Rightarrow> store \<Rightarrow> store" where
  "assign_chunk x chunk s =
     (case chunk of
        None \<Rightarrow> set_obj x None True s
      | Some bs \<Rightarrow>
          if bs = [] then set_obj x None True s
          else modify x (\<lambda>_. bs) (exclusiveData x False s))"

definition append_bytes :: "nat \<Rightarrow> nat \<Rightarrow> store \<Rightarrow> store" where
  "append_bytes x y s =
     (if view s y = [] then s
      else let s' = exclusiveData x True s in modify x (\<lambda>bs. bs @ view s' y) s')"

definition append_chunk :: "nat \<Rightarrow> bytes option \<Rightarrow> store \<Rightarrow> store" where
  "append_chunk x chunk s =
     (case chunk of
        None \<Rightarrow> s
      | Some cs \<Rightarrow>
          if cs = [] then s else modify x (\<lambda>bs. bs @ cs) (exclusiveData x True s))"

definition append_byte :: "nat \<Rightarrow> byte \<Rightarrow> store \<Rightarrow> store" where
  "append_byte x b s = modify x (\<lambda>bs. bs @ [b]) (exclusiveData x True s)"

definition resize :: "nat \<Rightarrow> nat \<Rightarrow> store \<Rightarrow> store" where
  "resize x n s =
     (if n = length (view s x) then s else modify x (resize_vec n) (exclusiveData x True s))"

text \<open>\<open>writable\<close> returns the address it hands out (\<open>_data->data()\<close>), \<open>None\<close> for \<open>nullptr\<close>.\<close>

definition writable :: "nat \<Rightarrow> nat \<Rightarrow> store \<Rightarrow> nat option \<times> store" where
  "writable x n s =
     (if n > 0 then
        (let s' = resize x n (exclusiveData x False s) in (data_ptr (objs s' x), s'))
      else
        (case data_ptr (objs s x) of
           Some p \<Rightarrow>
             (let cur = length (cells s p);
                  s' = resize x cur (exclusiveData x False s)
              in (data_ptr (objs s' x), s'))
         | None \<Rightarrow> (None, s)))"

text \<open>
  The callers' idiom \<open>f(b.writable(n), n)\<close>: \<open>f\<close> writes \<open>n\<close> octets through the pointer.
\<close>

definition write_through :: "nat \<Rightarrow> bytes \<Rightarrow> store \<Rightarrow> store" where
  "write_through x out s =
     (let (p, s') = writable x (length out) s
      in (case p of
            None \<Rightarrow> s'
          | Some a \<Rightarrow> set_cell a (out @ drop (length out) (cells s' a)) s'))"

definition plus_bytes :: "nat \<Rightarrow> nat \<Rightarrow> nat \<Rightarrow> store \<Rightarrow> store" where
  "plus_bytes new x y s = append_bytes new y (assign_bytes new x s)"

text \<open>\<open>operator[]\<close>: the non-const version hands out a reference into the vector, without
  \<open>exclusiveData\<close>; \<open>index_write\<close> is an assignment through that reference.\<close>

definition index_read :: "nat \<Rightarrow> nat \<Rightarrow> store \<Rightarrow> byte result" where
  "index_read x i s =
     (case data_ptr (objs s x) of
        None \<Rightarrow> Inl Out_of_range
      | Some p \<Rightarrow> if i \<ge> length (cells s p) then Inl Out_of_range else Inr (cells s p ! i))"

definition index_write :: "nat \<Rightarrow> nat \<Rightarrow> byte \<Rightarrow> store \<Rightarrow> store result" where
  "index_write x i b s =
     (case data_ptr (objs s x) of
        None \<Rightarrow> Inl Out_of_range
      | Some p \<Rightarrow>
          if i \<ge> length (cells s p) then Inl Out_of_range
          else Inr (set_cell p ((cells s p)[i := b]) s))"

definition bytes_size :: "store \<Rightarrow> nat \<Rightarrow> nat" where
  "bytes_size s x = (case data_ptr (objs s x) of None \<Rightarrow> 0 | Some p \<Rightarrow> length (cells s p))"

definition bytes_empty :: "store \<Rightarrow> nat \<Rightarrow> bool" where
  "bytes_empty s x = (case data_ptr (objs s x) of None \<Rightarrow> True | Some p \<Rightarrow> cells s p = [])"

definition bytes_bool :: "store \<Rightarrow> nat \<Rightarrow> bool" where
  "bytes_bool s x = (case data_ptr (objs s x) of None \<Rightarrow> False | Some p \<Rightarrow> cells s p \<noteq> [])"

text \<open>\<open>std::vector<uint8_t>\<close> comparison: lexicographic, a proper prefix is smaller.\<close>

fun vec_less :: "bytes \<Rightarrow> bytes \<Rightarrow> bool" where
  "vec_less _ [] = False"
| "vec_less [] (_ # _) = True"
| "vec_less (a # as) (b # bs) = (a < b \<or> (a = b \<and> vec_less as bs))"

definition compare :: "store \<Rightarrow> nat \<Rightarrow> nat \<Rightarrow> int" where
  "compare s x y =
     (if data_ptr (objs s x) = data_ptr (objs s y) then 0
      else case data_ptr (objs s x) of
        None \<Rightarrow> -1
      | Some p \<Rightarrow>
          (case data_ptr (objs s y) of
             None \<Rightarrow> 1
           | Some q \<Rightarrow>
               if vec_less (cells s p) (cells s q) then -1
               else if vec_less (cells s q) (cells s p) then 1
               else 0))"

text \<open>\<open>memcmp\<close> over the common length: the sign of the first difference.\<close>

fun memcmp :: "bytes \<Rightarrow> bytes \<Rightarrow> int" where
  "memcmp (a # as) (b # bs) = (if a < b then -1 else if b < a then 1 else memcmp as bs)"
| "memcmp _ _ = 0"

definition compare_buf :: "store \<Rightarrow> nat \<Rightarrow> bytes \<Rightarrow> int" where
  "compare_buf s x buf =
     (case data_ptr (objs s x) of
        None \<Rightarrow> if length buf = 0 then 0 else -1
      | Some p \<Rightarrow>
          (let d = cells s p;
               n = (if length d < length buf then length d else length buf);
               cmp = memcmp (take n d) (take n buf)
           in if cmp = 0 \<and> length d < length buf then -1
              else if cmp = 0 \<and> length d > length buf then 1
              else cmp))"

section \<open>Invariant\<close>

definition cow_inv :: "store \<Rightarrow> bool" where
  "cow_inv s \<longleftrightarrow>
     (\<forall>x p. data_ptr (objs s x) = Some p \<longrightarrow> p < fresh s) \<and>
     (\<forall>x y p. x \<noteq> y \<longrightarrow> data_ptr (objs s x) = Some p \<longrightarrow> data_ptr (objs s y) = Some p \<longrightarrow>
        \<not> exclusive (objs s x))"

definition owns :: "store \<Rightarrow> nat \<Rightarrow> bool" where
  "owns s x \<longleftrightarrow> data_ptr (objs s x) \<noteq> None \<and> exclusive (objs s x)"

lemmas store_defs = set_obj_def set_cell_def alloc_for_def view_def

lemma cow_inv_init [inv_intros]: "cow_inv init_store"
  by (simp add: cow_inv_def init_store_def none_obj_def)

lemma cow_inv_fresh: "cow_inv s \<Longrightarrow> data_ptr (objs s x) = Some p \<Longrightarrow> p < fresh s"
  by (simp add: cow_inv_def)

lemma owns_unshared:
  "cow_inv s \<Longrightarrow> owns s x \<Longrightarrow> data_ptr (objs s x) = Some p \<Longrightarrow> data_ptr (objs s y) = Some p
   \<Longrightarrow> y = x"
  unfolding cow_inv_def owns_def by metis

lemma view_null: "data_ptr (objs s x) = None \<Longrightarrow> view s x = []"
  by (simp add: view_def)

lemma view_ptr: "data_ptr (objs s x) = Some p \<Longrightarrow> view s x = cells s p"
  by (simp add: view_def)

subsection \<open>The building blocks\<close>

lemma cow_inv_release [inv_intros]: "cow_inv s \<Longrightarrow> cow_inv (set_obj x None True s)"
  by (auto simp: cow_inv_def set_obj_def)

lemma view_release [simp]: "view (set_obj x None True s) = (view s)(x := [])"
  by (auto simp: fun_eq_iff view_def set_obj_def split: option.split)

lemma cow_inv_alloc [inv_intros]: "cow_inv s \<Longrightarrow> cow_inv (alloc_for x bs s)"
  by (fastforce simp: cow_inv_def store_defs)

lemma owns_alloc [simp]: "owns (alloc_for x bs s) x"
  by (simp add: owns_def store_defs)

lemma view_alloc: "cow_inv s \<Longrightarrow> view (alloc_for x bs s) = (view s)(x := bs)"
  by (auto simp: fun_eq_iff store_defs dest: cow_inv_fresh split: option.splits)

lemma cow_inv_newData [inv_intros]: "cow_inv s \<Longrightarrow> cow_inv (newData x s)"
  by (simp add: newData_def inv_intros)

lemma owns_newData [simp]: "owns (newData x s) x"
  by (simp add: newData_def)

lemma view_newData: "cow_inv s \<Longrightarrow> view (newData x s) = (view s)(x := [])"
  by (simp add: newData_def view_alloc)

lemma cow_inv_exclusiveData [inv_intros]: "cow_inv s \<Longrightarrow> cow_inv (exclusiveData x c s)"
  by (auto simp: exclusiveData_def inv_intros split: option.split)

lemma owns_exclusiveData [simp]: "owns (exclusiveData x c s) x"
  by (auto simp: exclusiveData_def owns_def newData_def store_defs split: option.split)

lemma view_exclusiveData_copy:
  "cow_inv s \<Longrightarrow> view (exclusiveData x True s) = view s"
  by (auto simp: exclusiveData_def view_newData view_alloc fun_upd_idem_iff view_null view_ptr
      split: option.split)

lemma view_exclusiveData_nocopy:
  "cow_inv s \<Longrightarrow> view (exclusiveData x False s) = (view s)(x := if owns s x then view s x else [])"
  by (auto simp: exclusiveData_def owns_def view_newData fun_upd_idem_iff view_null view_ptr
      split: option.split)

lemma cow_inv_modify [inv_intros]: "cow_inv s \<Longrightarrow> cow_inv (modify x f s)"
  by (auto simp: cow_inv_def modify_def set_cell_def split: option.split)

lemma view_modify:
  assumes "cow_inv s" and "owns s x"
  shows "view (modify x f s) = (view s)(x := f (view s x))"
proof -
  from assms(2) obtain p where p: "data_ptr (objs s x) = Some p"
    by (auto simp: owns_def)
  have "view (modify x f s) y = ((view s)(x := f (view s x))) y" for y
  proof (cases "y = x")
    case True
    with p show ?thesis by (simp add: modify_def set_cell_def view_def)
  next
    case False
    then have "data_ptr (objs s y) \<noteq> Some p"
      using owns_unshared [OF assms p] by blast
    with False p show ?thesis by (auto simp: modify_def set_cell_def view_def split: option.split)
  qed
  then show ?thesis by (simp add: fun_eq_iff)
qed

lemma owns_modify [simp]: "owns (modify x f s) y = owns s y"
  by (simp add: owns_def modify_def set_cell_def split: option.split)

lemmas cow_view_simps =
  view_alloc view_newData view_exclusiveData_copy view_exclusiveData_nocopy view_modify

subsection \<open>The operations keep the invariant and act on one object only\<close>

lemma cow_inv_clear [inv_intros]: "cow_inv s \<Longrightarrow> cow_inv (clear x s)"
  by (simp add: clear_def inv_intros)

lemma view_clear: "view (clear x s) = (view s)(x := [])"
  by (simp add: clear_def)

lemma cow_inv_assign_bytes [inv_intros]: "cow_inv s \<Longrightarrow> cow_inv (assign_bytes x y s)"
  by (auto simp: cow_inv_def assign_bytes_def shareData_def set_obj_def)

lemma view_assign_bytes: "view (assign_bytes x y s) = (view s)(x := view s y)"
  by (auto simp: fun_eq_iff assign_bytes_def shareData_def set_obj_def view_def split: option.split)

lemma cow_inv_assign_chunk [inv_intros]: "cow_inv s \<Longrightarrow> cow_inv (assign_chunk x c s)"
  by (auto simp: assign_chunk_def inv_intros split: option.split)

lemma view_assign_chunk:
  "cow_inv s \<Longrightarrow> view (assign_chunk x c s) = (view s)(x := case c of None \<Rightarrow> [] | Some bs \<Rightarrow> bs)"
  by (auto simp: assign_chunk_def cow_view_simps inv_intros split: option.split)

lemma cow_inv_append_bytes [inv_intros]: "cow_inv s \<Longrightarrow> cow_inv (append_bytes x y s)"
  by (simp add: append_bytes_def Let_def inv_intros)

lemma view_append_bytes:
  "cow_inv s \<Longrightarrow> view (append_bytes x y s) = (view s)(x := view s x @ view s y)"
  by (simp add: append_bytes_def Let_def cow_view_simps inv_intros)

lemma cow_inv_append_chunk [inv_intros]: "cow_inv s \<Longrightarrow> cow_inv (append_chunk x c s)"
  by (auto simp: append_chunk_def inv_intros split: option.split)

lemma view_append_chunk:
  "cow_inv s \<Longrightarrow>
   view (append_chunk x c s) = (view s)(x := view s x @ (case c of None \<Rightarrow> [] | Some cs \<Rightarrow> cs))"
  by (auto simp: append_chunk_def cow_view_simps inv_intros split: option.split)

lemma cow_inv_append_byte [inv_intros]: "cow_inv s \<Longrightarrow> cow_inv (append_byte x b s)"
  by (simp add: append_byte_def inv_intros)

lemma view_append_byte: "cow_inv s \<Longrightarrow> view (append_byte x b s) = (view s)(x := view s x @ [b])"
  by (simp add: append_byte_def cow_view_simps inv_intros)

lemma cow_inv_resize [inv_intros]: "cow_inv s \<Longrightarrow> cow_inv (resize x n s)"
  by (simp add: resize_def inv_intros)

lemma view_resize: "cow_inv s \<Longrightarrow> view (resize x n s) = (view s)(x := resize_vec n (view s x))"
  by (auto simp: resize_def cow_view_simps inv_intros)

lemma owns_resize: "owns s x \<Longrightarrow> owns (resize x n s) x"
  by (auto simp: resize_def)

lemma view_writable:
  assumes "cow_inv s" and "writable x n s = (p, s')"
  shows "cow_inv s'"
    and "n > 0 \<Longrightarrow> view s' = (view s)(x := resize_vec n (if owns s x then view s x else []))"
    and "p \<noteq> None \<Longrightarrow> p = data_ptr (objs s' x) \<and> owns s' x"
    and "n > 0 \<Longrightarrow> p \<noteq> None"
proof -
  have own: "owns (resize x m (exclusiveData x False s)) x" for m
    by (simp add: owns_resize)
  then have ptr: "data_ptr (objs (resize x m (exclusiveData x False s)) x) \<noteq> None" for m
    by (auto simp: owns_def)
  show "cow_inv s'"
    using assms by (auto simp: writable_def Let_def inv_intros split: if_splits option.splits)
  show "view s' = (view s)(x := resize_vec n (if owns s x then view s x else []))" if "n > 0"
    using assms that by (auto simp: writable_def Let_def view_resize inv_intros cow_view_simps)
  show "p = data_ptr (objs s' x) \<and> owns s' x" if "p \<noteq> None"
    using assms that own by (auto simp: writable_def Let_def split: if_splits option.splits)
  show "p \<noteq> None" if "n > 0"
    using assms that ptr by (auto simp: writable_def Let_def)
qed

lemma write_through_cases:
  assumes "cow_inv s"
  obtains s' where "writable x (length out) s = (None, s')" "write_through x out s = s'"
  | p s' where "writable x (length out) s = (Some p, s')"
      "write_through x out s = modify x (\<lambda>bs. out @ drop (length out) bs) s'" "owns s' x"
proof (cases "writable x (length out) s")
  case (Pair p s')
  show thesis
  proof (cases p)
    case None
    with Pair show thesis by (auto simp: write_through_def intro: that(1))
  next
    case (Some a)
    then have "data_ptr (objs s' x) = Some a" and "owns s' x"
      using view_writable(3) [OF assms Pair] by auto
    with Pair Some show thesis
      by (auto simp: write_through_def modify_def intro!: that(2))
  qed
qed

lemma cow_inv_write_through [inv_intros]: "cow_inv s \<Longrightarrow> cow_inv (write_through x out s)"
  by (rule write_through_cases [of s x out]) (auto simp: inv_intros dest: view_writable(1))

lemma view_write_through:
  assumes "cow_inv s" and "out \<noteq> []"
  shows "view (write_through x out s) = (view s)(x := out)"
  using assms(1)
proof (cases rule: write_through_cases [of s x out])
  case (1 s')
  with view_writable(4) [OF assms(1) 1(1)] assms(2) show ?thesis by simp
next
  case (2 p s')
  have inv: "cow_inv s'" by (rule view_writable(1) [OF assms(1) 2(1)])
  have "view s' = (view s)(x := resize_vec (length out) (if owns s x then view s x else []))"
    using view_writable(2) [OF assms(1) 2(1)] assms(2) by simp
  with 2 view_modify [OF inv] show ?thesis by simp
qed

lemma cow_inv_plus_bytes [inv_intros]: "cow_inv s \<Longrightarrow> cow_inv (plus_bytes z x y s)"
  by (simp add: plus_bytes_def inv_intros)

lemma view_plus_bytes:
  "cow_inv s \<Longrightarrow> z \<noteq> y \<Longrightarrow> view (plus_bytes z x y s) = (view s)(z := view s x @ view s y)"
  by (simp add: plus_bytes_def view_append_bytes view_assign_bytes inv_intros)

section \<open>Programs over buffers refine programs over values\<close>

datatype bcmd =
    Clear nat
  | Assign nat nat
  | Assign_chunk nat "bytes option"
  | Append nat nat
  | Append_chunk nat "bytes option"
  | Append_byte nat byte
  | Resize nat nat

fun exec_cmd :: "bcmd \<Rightarrow> store \<Rightarrow> store" where
  "exec_cmd (Clear x) s = clear x s"
| "exec_cmd (Assign x y) s = assign_bytes x y s"
| "exec_cmd (Assign_chunk x c) s = assign_chunk x c s"
| "exec_cmd (Append x y) s = append_bytes x y s"
| "exec_cmd (Append_chunk x c) s = append_chunk x c s"
| "exec_cmd (Append_byte x b) s = append_byte x b s"
| "exec_cmd (Resize x n) s = resize x n s"

definition chunk_val :: "bytes option \<Rightarrow> bytes" where
  "chunk_val c = (case c of None \<Rightarrow> [] | Some bs \<Rightarrow> bs)"

text \<open>The specification: every object is a value of its own.\<close>

fun spec_cmd :: "bcmd \<Rightarrow> (nat \<Rightarrow> bytes) \<Rightarrow> (nat \<Rightarrow> bytes)" where
  "spec_cmd (Clear x) v = v(x := [])"
| "spec_cmd (Assign x y) v = v(x := v y)"
| "spec_cmd (Assign_chunk x c) v = v(x := chunk_val c)"
| "spec_cmd (Append x y) v = v(x := v x @ v y)"
| "spec_cmd (Append_chunk x c) v = v(x := v x @ chunk_val c)"
| "spec_cmd (Append_byte x b) v = v(x := v x @ [b])"
| "spec_cmd (Resize x n) v = v(x := resize_vec n (v x))"

interpretation cow: simulation exec_cmd cow_inv view spec_cmd
proof unfold_locales
  fix s c assume inv: "cow_inv s"
  then show "cow_inv (exec_cmd c s)" by (cases c) (simp_all add: inv_intros)
  from inv show "view (exec_cmd c s) = spec_cmd c (view s)"
    by (cases c) (simp_all add: view_clear view_assign_bytes view_assign_chunk view_append_bytes
        view_append_chunk view_append_byte view_resize chunk_val_def)
qed

lemma view_init: "view init_store = (\<lambda>_. [])"
  by (simp add: fun_eq_iff view_def init_store_def none_obj_def)

section \<open>Comparison\<close>

lemma vec_less_irrefl [simp]: "\<not> vec_less xs xs"
  by (induction xs) auto

lemma vec_less_trans: "vec_less xs ys \<Longrightarrow> vec_less ys zs \<Longrightarrow> vec_less xs zs"
proof (induction xs ys arbitrary: zs rule: vec_less.induct)
  case (3 a as b bs)
  then show ?case by (cases zs) auto
qed (auto elim: vec_less.elims)

lemma vec_less_total: "vec_less xs ys \<or> xs = ys \<or> vec_less ys xs"
  by (induction xs ys rule: vec_less.induct) (auto simp: neq_Nil_conv, metis list.exhaust vec_less.simps(2))

lemma vec_less_asym: "vec_less xs ys \<Longrightarrow> \<not> vec_less ys xs"
  using vec_less_trans vec_less_irrefl by blast

lemma memcmp_take:
  "length xs = length ys \<Longrightarrow> memcmp xs ys = 0 \<longleftrightarrow> xs = ys"
  by (induction xs ys rule: list_induct2) auto

lemma compare_zero:
  "compare s x y = 0 \<longleftrightarrow>
     view s x = view s y \<and> (data_ptr (objs s x) = None \<longleftrightarrow> data_ptr (objs s y) = None)"
  using vec_less_total
  by (auto simp: compare_def view_def split: option.splits)

lemma compare_swap: "compare s y x = - compare s x y"
  by (auto simp: compare_def dest: vec_less_asym split: option.splits)

lemma compare_neg:
  "compare s x y < 0 \<longleftrightarrow>
     (data_ptr (objs s x) = None \<and> data_ptr (objs s y) \<noteq> None) \<or>
     (data_ptr (objs s x) \<noteq> None \<and> data_ptr (objs s y) \<noteq> None \<and> vec_less (view s x) (view s y))"
  by (auto simp: compare_def view_def split: option.splits)

section \<open>Properties\<close>

text \<open>
  C14. Copy-on-write is invisible: running any sequence of clear, assign, append, resize
  operations on shared buffers from the initial store gives every object exactly the value it
  would have if each object owned its bytes.
\<close>

theorem cow_refines_values:
  "view (fold exec_cmd cs init_store) = fold spec_cmd cs (\<lambda>_. [])"
  using cow.run_sim [OF cow_inv_init, of cs] by (simp add: view_init)

text \<open>
  The sharing invariant (two objects on one vector are both marked non-exclusive, and every
  pointer is allocated) holds after every sequence of operations, including \<open>writable\<close> followed
  by a write through the returned pointer, which sets the object to the written octets and
  leaves every other object unchanged.
\<close>

lemma cow_write_through_local:
  assumes "out \<noteq> []"
  shows "cow_inv (write_through x out (fold exec_cmd cs init_store)) \<and>
         view (write_through x out (fold exec_cmd cs init_store)) =
         (view (fold exec_cmd cs init_store))(x := out)"
  using assms cow.run_inv [OF cow_inv_init] by (simp add: inv_intros view_write_through)

text \<open>
  Element assignment through the non-const \<open>operator[]\<close> does not detach the vector: after
  \<open>b = a; b[0] = 9\<close> the object \<open>a\<close> has changed too.  On an object that holds its vector
  exclusively the same assignment changes that object only.
\<close>

lemma index_write_aliasing:
  "(\<exists>s'. index_write 1 0 9
           (fold exec_cmd [Assign_chunk 0 (Some [1, 2]), Assign 1 0] init_store) = Inr s' \<and>
         view s' 0 = [9, 2])
   \<and> (\<forall>s x i b s'. cow_inv s \<longrightarrow> owns s x \<longrightarrow> index_write x i b s = Inr s' \<longrightarrow>
         view s' = (view s)(x := (view s x)[i := b]) \<and> cow_inv s')"
proof (intro conjI allI impI)
  show "\<exists>s'. index_write 1 0 9
           (fold exec_cmd [Assign_chunk 0 (Some [1, 2]), Assign 1 0] init_store) = Inr s' \<and>
         view s' 0 = [9, 2]"
    by (simp add: index_write_def assign_bytes_def shareData_def assign_chunk_def exclusiveData_def
        newData_def modify_def store_defs init_store_def none_obj_def)
next
  fix s x i b s'
  assume a: "cow_inv s" "owns s x" "index_write x i b s = Inr s'"
  then have "s' = modify x (\<lambda>bs. bs[i := b]) s"
    by (auto simp: index_write_def modify_def split: option.splits if_splits)
  with a show "view s' = (view s)(x := (view s x)[i := b])" and "cow_inv s'"
    by (simp_all add: view_modify inv_intros)
qed

text \<open>
  \<open>compare\<close> is the comparison of a strict total order on (null or not, content): it is
  antisymmetric and transitive, and it returns 0 exactly for equal content, except that a null
  buffer and an allocated empty one compare as different.
\<close>

lemma compare_total_order:
  "(compare s x y = 0 \<longleftrightarrow>
      view s x = view s y \<and> (data_ptr (objs s x) = None \<longleftrightarrow> data_ptr (objs s y) = None))
   \<and> compare s y x = - compare s x y
   \<and> (compare s x y < 0 \<and> compare s y z < 0 \<longrightarrow> compare s x z < 0)"
  using vec_less_trans by (auto simp: compare_zero compare_swap [of s y x] compare_neg)

end
