(* ===== verification/Block_Cipher.thy ===== *)
theory Block_Cipher
  imports Byte_String
begin

text \<open>
  Padding (\<open>Cryptography/PKCS7.h\<close>), the CBC mode of \<open>Cryptography/CBC.h\<close> and \<open>CBC.cpp\<close>, and the
  AES front ends of \<open>Cryptography/AES.h\<close>.

  The AES block transforms and the hash functions come from the Arduino \<open>Crypto\<close> library, which
  is not part of the repository.  They are the fields of the record \<open>crypto_lib\<close>, an argument of
  every definition that uses them; \<open>crypto_ok\<close> states what the code relies on.  The 128-bit and
  256-bit transforms are told apart by the key.
\<close>

section \<open>The cryptographic library\<close>

datatype digest_type = DIGEST_NONE | DIGEST_SHA256 | DIGEST_SHA512

record crypto_lib =
  encryptBlock :: "bytes \<Rightarrow> bytes \<Rightarrow> bytes"
  decryptBlock :: "bytes \<Rightarrow> bytes \<Rightarrow> bytes"
  lib_hmac :: "digest_type \<Rightarrow> bytes \<Rightarrow> bytes \<Rightarrow> bytes"
  lib_hash :: "digest_type \<Rightarrow> bytes \<Rightarrow> bytes"
  lib_hkdf :: "nat \<Rightarrow> bytes \<Rightarrow> bytes option \<Rightarrow> bytes"
  x25519_eval :: "bytes \<Rightarrow> bytes option \<Rightarrow> bytes \<times> bool"
  ed25519_derive :: "bytes \<Rightarrow> bytes"
  ed25519_sign :: "bytes \<Rightarrow> bytes \<Rightarrow> bytes \<Rightarrow> bytes"
  ed25519_verify :: "bytes \<Rightarrow> bytes \<Rightarrow> bytes \<Rightarrow> bool"
  uninit_iv :: bytes

definition crypto_ok :: "crypto_lib \<Rightarrow> bool" where
  "crypto_ok lib \<longleftrightarrow>
     (\<forall>k b. length b = 16 \<longrightarrow>
        length (encryptBlock lib k b) = 16 \<and> decryptBlock lib k (encryptBlock lib k b) = b) \<and>
     (\<forall>k m. length (lib_hmac lib DIGEST_SHA256 k m) = 32) \<and>
     (\<forall>m. length (lib_hash lib DIGEST_SHA256 m) = 32) \<and>
     (\<forall>m. length (lib_hash lib DIGEST_SHA512 m) = 64) \<and>
     (\<forall>n k s. length (lib_hkdf lib n k s) = n) \<and>
     (\<forall>k u. length (fst (x25519_eval lib k u)) = 32) \<and>
     (\<forall>a b. x25519_eval lib a (Some (fst (x25519_eval lib b None))) =
            x25519_eval lib b (Some (fst (x25519_eval lib a None)))) \<and>
     (\<forall>k. length (ed25519_derive lib k) = 32) \<and>
     (\<forall>k p m. length (ed25519_sign lib k p m) = 64) \<and>
     (\<forall>k m. ed25519_verify lib (ed25519_sign lib k (ed25519_derive lib k) m) (ed25519_derive lib k) m)"

text \<open>An instance, for the closed examples: a fixed mask as the block transform.\<close>

definition demo_tag :: "nat \<Rightarrow> bytes \<Rightarrow> bytes" where
  "demo_tag n m = replicate n (word_of_nat (length m) XOR (case m of [] \<Rightarrow> 0x31 | b # _ \<Rightarrow> b))"

definition demo_lib :: crypto_lib where
  "demo_lib = \<lparr>encryptBlock = (\<lambda>k. map (\<lambda>b. b XOR 0x5A)), decryptBlock = (\<lambda>k. map (\<lambda>b. b XOR 0x5A)),
     lib_hmac = (\<lambda>d k m. demo_tag (if d = DIGEST_SHA512 then 64 else 32) (k @ m)),
     lib_hash = (\<lambda>d. demo_tag (if d = DIGEST_SHA512 then 64 else 32)),
     lib_hkdf = (\<lambda>n k s. demo_tag n k),
     x25519_eval = (\<lambda>k u. (case u of None \<Rightarrow> demo_tag 32 [hd (k @ [0])] | Some p \<Rightarrow> demo_tag 32 [hd (k @ [0]) XOR hd (p @ [0])], True)),
     ed25519_derive = demo_tag 32, ed25519_sign = (\<lambda>k p m. demo_tag 64 (p @ m)),
     ed25519_verify = (\<lambda>s p m. s = demo_tag 64 (p @ m)), uninit_iv = replicate 16 0\<rparr>"

lemma demo_lib_ok: "crypto_ok demo_lib"
  by (simp add: crypto_ok_def demo_lib_def demo_tag_def o_def xor.assoc xor.left_commute xor.commute
      split: option.split)

section \<open>PKCS7\<close>

definition inplace_pad :: "bytes \<Rightarrow> nat \<Rightarrow> bytes" where
  "inplace_pad dat bs =
     (let len = length dat;
          padlen = bs - (len mod bs);
          pad = (replicate padlen 0)[padlen - 1 := word_of_nat padlen]
      in dat @ pad)"

definition pad :: "bytes \<Rightarrow> nat \<Rightarrow> bytes" where
  "pad dat bs = inplace_pad dat bs"

definition inplace_unpad :: "bytes \<Rightarrow> nat \<Rightarrow> bytes result" where
  "inplace_unpad dat bs =
     (if dat = [] then Inl Undefined_behaviour
      else let len = length dat; padlen = unat (dat ! (length dat - 1))
           in if padlen > bs then Inl Runtime_error
              else if padlen > len then Inl Length_error
              else Inr (take (len - padlen) dat))"

definition unpad :: "bytes \<Rightarrow> nat \<Rightarrow> bytes result" where
  "unpad dat bs = inplace_unpad dat bs"

section \<open>CBC\<close>

record cbc =
  cbc_key :: bytes
  cbc_iv :: bytes

definition new_cbc :: "crypto_lib \<Rightarrow> cbc" where
  "new_cbc lib = \<lparr>cbc_key = [], cbc_iv = uninit_iv lib\<rparr>"

definition setKey :: "bytes \<Rightarrow> cbc \<Rightarrow> cbc" where
  "setKey key c = c\<lparr>cbc_key := key\<rparr>"

definition setIV :: "bytes \<Rightarrow> cbc \<Rightarrow> cbc \<times> bool" where
  "setIV iv c = (if length iv \<noteq> 16 then (c, False) else (c\<lparr>cbc_iv := iv\<rparr>, True))"

definition xor_block :: "bytes \<Rightarrow> bytes \<Rightarrow> bytes" where
  "xor_block a b = map2 (XOR) a b"

fun cbc_encrypt :: "crypto_lib \<Rightarrow> cbc \<Rightarrow> bytes \<Rightarrow> bytes" where
  "cbc_encrypt lib c input =
     (if length input \<ge> 16 then
        (let iv' = encryptBlock lib (cbc_key c) (xor_block (cbc_iv c) (take 16 input))
         in iv' @ cbc_encrypt lib (c\<lparr>cbc_iv := iv'\<rparr>) (drop 16 input))
      else [])"

fun cbc_decrypt :: "crypto_lib \<Rightarrow> cbc \<Rightarrow> bytes \<Rightarrow> bytes" where
  "cbc_decrypt lib c input =
     (if length input \<ge> 16 then
        (let temp = decryptBlock lib (cbc_key c) (take 16 input)
         in xor_block temp (cbc_iv c)
            @ cbc_decrypt lib (c\<lparr>cbc_iv := take 16 input\<rparr>) (drop 16 input))
      else [])"

declare cbc_encrypt.simps [simp del] and cbc_decrypt.simps [simp del]

text \<open>
  The output goes into the zero-filled buffer \<open>writable(size)\<close> of a new object; octets the loop
  does not reach stay zero.
\<close>

definition fill_buffer :: "nat \<Rightarrow> bytes \<Rightarrow> bytes" where
  "fill_buffer n out = out @ replicate (n - length out) 0"

definition aes_encrypt :: "crypto_lib \<Rightarrow> bytes \<Rightarrow> bytes \<Rightarrow> bytes \<Rightarrow> bytes" where
  "aes_encrypt lib plaintext key iv =
     (let c = fst (setIV iv (setKey key (new_cbc lib)))
      in fill_buffer (length plaintext) (cbc_encrypt lib c plaintext))"

definition aes_decrypt :: "crypto_lib \<Rightarrow> bytes \<Rightarrow> bytes \<Rightarrow> bytes \<Rightarrow> bytes" where
  "aes_decrypt lib ciphertext key iv =
     (let c = fst (setIV iv (setKey key (new_cbc lib)))
      in fill_buffer (length ciphertext) (cbc_decrypt lib c ciphertext))"

section \<open>Lemmas\<close>

lemma crypto_okD:
  assumes "crypto_ok lib"
  shows "length b = 16 \<Longrightarrow> length (encryptBlock lib k b) = 16"
    and "length b = 16 \<Longrightarrow> decryptBlock lib k (encryptBlock lib k b) = b"
    and "length (lib_hmac lib DIGEST_SHA256 k m) = 32"
    and "length (lib_hash lib DIGEST_SHA256 m) = 32"
    and "length (lib_hkdf lib n k s) = n"
    and "length (fst (x25519_eval lib k u)) = 32"
    and "x25519_eval lib k (Some (fst (x25519_eval lib b None))) =
         x25519_eval lib b (Some (fst (x25519_eval lib k None)))"
    and "length (ed25519_derive lib k) = 32"
    and "length (ed25519_sign lib k p m) = 64"
    and "ed25519_verify lib (ed25519_sign lib k (ed25519_derive lib k) m) (ed25519_derive lib k) m"
  using assms by (simp_all add: crypto_ok_def)

lemma pad_eq:
  assumes "bs > 0" and "p = bs - length dat mod bs"
  shows "pad dat bs = dat @ replicate (p - 1) 0 @ [word_of_nat p]" and "p > 0" and "p \<le> bs"
proof -
  from assms show p: "p > 0" and "p \<le> bs" by simp_all
  then obtain q where "p = Suc q" by (cases p) auto
  then have "(replicate p (0::byte))[p - 1 := word_of_nat p] = replicate (p - 1) 0 @ [word_of_nat p]"
    by (simp add: replicate_append_same [symmetric] list_update_append)
  then show "pad dat bs = dat @ replicate (p - 1) 0 @ [word_of_nat p]"
    using assms by (simp add: pad_def inplace_pad_def Let_def)
qed

lemma length_pad [bytes_simps]:
  assumes "bs > 0"
  shows "length (pad dat bs) = bs * (length dat div bs + 1)"
proof -
  from assms have "length dat mod bs < bs" by simp
  moreover have "length (pad dat bs) = length dat + (bs - length dat mod bs)"
    using pad_eq [OF assms refl, of dat] by simp
  moreover have "bs * (length dat div bs) + length dat mod bs = length dat"
    by (rule mult_div_mod_eq)
  moreover have "bs * (length dat div bs + 1) = bs * (length dat div bs) + bs"
    by (simp only: distrib_left mult_1_right)
  ultimately show ?thesis by linarith
qed

lemma unpad_pad:
  assumes "0 < bs" and "bs < 256"
  shows "unpad (pad dat bs) bs = Inr dat"
proof -
  define p where "p = bs - length dat mod bs"
  note e = pad_eq [OF assms(1) p_def]
  have "unat (word_of_nat p :: byte) = p" using e(3) assms(2) by simp
  then have "unat (pad dat bs ! (length (pad dat bs) - 1)) = p"
    unfolding e(1) by (simp add: nth_append)
  moreover have "length (pad dat bs) = length dat + p" using e(1,2) by simp
  ultimately show ?thesis
    using e by (auto simp: unpad_def inplace_unpad_def Let_def)
qed

lemma length_xor_block [simp]: "length (xor_block a b) = min (length a) (length b)"
  by (simp add: xor_block_def)

lemma xor_block_cancel: "length a = length b \<Longrightarrow> xor_block (xor_block a b) a = b"
  by (auto simp: xor_block_def list_eq_iff_nth_eq xor.assoc xor.commute xor.left_commute)

lemma cbc_encrypt_short [simp]: "length input < 16 \<Longrightarrow> cbc_encrypt lib c input = []"
  by (subst cbc_encrypt.simps) simp

lemma cbc_decrypt_short [simp]: "length input < 16 \<Longrightarrow> cbc_decrypt lib c input = []"
  by (subst cbc_decrypt.simps) simp

lemma cbc_encrypt_block:
  "length input \<ge> 16 \<Longrightarrow>
   cbc_encrypt lib c input =
     (let iv' = encryptBlock lib (cbc_key c) (xor_block (cbc_iv c) (take 16 input))
      in iv' @ cbc_encrypt lib (c\<lparr>cbc_iv := iv'\<rparr>) (drop 16 input))"
  by (subst cbc_encrypt.simps) simp

lemma cbc_decrypt_block:
  "length b = 16 \<Longrightarrow>
   cbc_decrypt lib c (b @ rest) =
     xor_block (decryptBlock lib (cbc_key c) b) (cbc_iv c)
       @ cbc_decrypt lib (c\<lparr>cbc_iv := b\<rparr>) rest"
  by (subst cbc_decrypt.simps) (simp add: Let_def)

lemma length_cbc_encrypt:
  assumes "crypto_ok lib" and "length (cbc_iv c) = 16"
  shows "length (cbc_encrypt lib c input) = 16 * (length input div 16)"
  using assms
proof (induction lib c input rule: cbc_encrypt.induct)
  case (1 lib c input)
  show ?case
  proof (cases "length input \<ge> 16")
    case True
    with 1 show ?thesis
      by (simp add: cbc_encrypt_block Let_def crypto_okD le_div_geq)
  qed simp
qed

lemma cbc_decrypt_encrypt:
  assumes "crypto_ok lib" and "length (cbc_iv c) = 16"
  shows "cbc_decrypt lib c (cbc_encrypt lib c input) = take (16 * (length input div 16)) input"
  using assms
proof (induction lib c input rule: cbc_encrypt.induct)
  case (1 lib c input)
  show ?case
  proof (cases "length input \<ge> 16")
    case True
    let ?b = "take 16 input" and ?x = "xor_block (cbc_iv c) (take 16 input)"
    let ?iv = "encryptBlock lib (cbc_key c) ?x"
    have len: "length ?x = 16" "length ?iv = 16" using True 1(2,3) by (simp_all add: crypto_okD)
    have "cbc_decrypt lib c (cbc_encrypt lib c input)
        = xor_block ?x (cbc_iv c)
          @ cbc_decrypt lib (c\<lparr>cbc_iv := ?iv\<rparr>) (cbc_encrypt lib (c\<lparr>cbc_iv := ?iv\<rparr>) (drop 16 input))"
      using True len 1(2)
      by (simp add: cbc_encrypt_block Let_def cbc_decrypt_block crypto_okD)
    also have "\<dots> = ?b @ take (16 * (length (drop 16 input) div 16)) (drop 16 input)"
      using 1 True len by (simp add: xor_block_cancel)
    also have "\<dots> = take (16 * (length input div 16)) input"
      using True by (simp add: le_div_geq take_add [symmetric])
    finally show ?thesis .
  qed simp
qed

lemma length_cbc_decrypt:
  assumes "\<And>k b. length b = 16 \<Longrightarrow> length (decryptBlock lib k b) = 16" and "length (cbc_iv c) = 16"
  shows "length (cbc_decrypt lib c input) = 16 * (length input div 16)"
  using assms
proof (induction lib c input rule: cbc_decrypt.induct)
  case (1 lib c input)
  show ?case
  proof (cases "length input \<ge> 16")
    case True
    with 1 show ?thesis by (subst cbc_decrypt.simps) (simp add: Let_def le_div_geq)
  qed simp
qed

lemma aes_roundtrip:
  assumes "crypto_ok lib" and "length iv = 16" and "16 dvd length pt"
  shows "length (aes_encrypt lib pt key iv) = length pt"
    and "aes_decrypt lib (aes_encrypt lib pt key iv) key iv = pt"
proof -
  define c where "c = fst (setIV iv (setKey key (new_cbc lib)))"
  have iv: "length (cbc_iv c) = 16" using assms(2) by (simp add: c_def setIV_def)
  have m: "16 * (length pt div 16) = length pt" using assms(3) by simp
  have ct: "aes_encrypt lib pt key iv = cbc_encrypt lib c pt"
    using length_cbc_encrypt [OF assms(1) iv, of pt] m
    by (simp add: aes_encrypt_def c_def Let_def fill_buffer_def)
  then show len: "length (aes_encrypt lib pt key iv) = length pt"
    using length_cbc_encrypt [OF assms(1) iv, of pt] m by simp
  have "cbc_decrypt lib c (cbc_encrypt lib c pt) = pt"
    using cbc_decrypt_encrypt [OF assms(1) iv, of pt] m by simp
  then show "aes_decrypt lib (aes_encrypt lib pt key iv) key iv = pt"
    using len ct by (simp add: aes_decrypt_def Let_def fill_buffer_def flip: c_def)
qed

end
