(* ===== verification/Token.thy ===== *)
theory Token
  imports Block_Cipher
begin

text \<open>
  Message authentication, key derivation, hashes and the encrypted tokens of
  \<open>Cryptography/HMAC.h\<close>, \<open>HKDF.cpp\<close>, \<open>Hashes.cpp\<close>, \<open>Random.h\<close>, \<open>Token.cpp\<close> and \<open>Fernet.cpp\<close>.

  A hash object of the library is the list of octets fed to it since its reset, so \<open>update\<close>
  appends.  Random octets are an argument of the definitions that draw them.
\<close>

section \<open>Hashes, HMAC, HKDF, random numbers\<close>

definition sha256 :: "crypto_lib \<Rightarrow> bytes \<Rightarrow> bytes" where
  "sha256 lib dat = lib_hash lib DIGEST_SHA256 dat"

definition sha512 :: "crypto_lib \<Rightarrow> bytes \<Rightarrow> bytes" where
  "sha512 lib dat = lib_hash lib DIGEST_SHA512 dat"

record hmac =
  hmac_key :: bytes
  hmac_alg :: digest_type
  hmac_fed :: bytes

definition hmac_update :: "bytes \<Rightarrow> hmac \<Rightarrow> hmac" where
  "hmac_update msg h = h\<lparr>hmac_fed := hmac_fed h @ msg\<rparr>"

definition hmac_new :: "bytes \<Rightarrow> bytes \<Rightarrow> digest_type \<Rightarrow> hmac result" where
  "hmac_new key msg alg =
     (if alg = DIGEST_NONE then Inl Invalid_argument
      else let h = \<lparr>hmac_key = key, hmac_alg = alg, hmac_fed = []\<rparr>
           in Inr (if msg \<noteq> [] then hmac_update msg h else h))"

definition hmac_digest :: "crypto_lib \<Rightarrow> hmac \<Rightarrow> bytes" where
  "hmac_digest lib h = lib_hmac lib (hmac_alg h) (hmac_key h) (hmac_fed h)"

text \<open>The free function \<open>digest\<close>, described as a fast inline HMAC.\<close>

definition fast_digest :: "crypto_lib \<Rightarrow> bytes \<Rightarrow> bytes \<Rightarrow> digest_type \<Rightarrow> bytes result" where
  "fast_digest lib key msg alg =
     res_bind (hmac_new key msg alg) (\<lambda>h. Inr (hmac_digest lib (hmac_update msg h)))"

definition hkdf :: "crypto_lib \<Rightarrow> nat \<Rightarrow> bytes \<Rightarrow> bytes \<Rightarrow> bytes \<Rightarrow> bytes result" where
  "hkdf lib len derive_from salt ctx =
     (if len \<le> 0 then Inl Invalid_argument
      else if derive_from = [] then Inl Invalid_argument
      else if salt \<noteq> [] then Inr (lib_hkdf lib len derive_from (Some salt))
      else Inr (lib_hkdf lib len derive_from None))"

text \<open>\<open>randomnum()\<close>: the four octets drawn are the argument; the code reads the first one only.\<close>

definition randomnum :: "bytes \<Rightarrow> 32 word" where
  "randomnum r =
     push_bit 24 (ucast (r ! 0)) OR push_bit 16 (ucast (r ! 0)) OR push_bit 8 (ucast (r ! 0))
       OR ucast (r ! 0)"

section \<open>Token\<close>

datatype token_mode = MODE_AES | MODE_AES_128_CBC | MODE_AES_256_CBC

record token =
  tok_mode :: token_mode
  signing_key :: bytes
  encryption_key :: bytes

definition generate_key :: "(nat \<Rightarrow> bytes) \<Rightarrow> token_mode \<Rightarrow> bytes result" where
  "generate_key random mode =
     (if mode = MODE_AES_128_CBC then Inr (random 32)
      else if mode = MODE_AES_256_CBC then Inr (random 64)
      else Inl Invalid_argument)"

definition new_token :: "bytes \<Rightarrow> token_mode \<Rightarrow> token result" where
  "new_token key mode =
     (if key = [] then Inl Invalid_argument
      else if mode = MODE_AES then
        (if length key = 32 then
           Inr \<lparr>tok_mode = MODE_AES_128_CBC, signing_key = left key 16, encryption_key = mid_end key 16\<rparr>
         else if length key = 64 then
           Inr \<lparr>tok_mode = MODE_AES_256_CBC, signing_key = left key 32, encryption_key = mid_end key 32\<rparr>
         else Inl Invalid_argument)
      else Inl Invalid_argument)"

definition generate_hmac :: "crypto_lib \<Rightarrow> bytes \<Rightarrow> bytes \<Rightarrow> bytes result" where
  "generate_hmac lib key msg =
     res_bind (hmac_new key msg DIGEST_SHA256) (\<lambda>h. Inr (hmac_digest lib h))"

definition verify_hmac :: "crypto_lib \<Rightarrow> token \<Rightarrow> bytes \<Rightarrow> bool result" where
  "verify_hmac lib t tok =
     (if length tok \<le> 32 then Inl Invalid_argument
      else res_bind (generate_hmac lib (signing_key t) (left tok (length tok - 32)))
             (\<lambda>expected. Inr (right tok 32 = expected)))"

definition token_encrypt :: "crypto_lib \<Rightarrow> bytes \<Rightarrow> token \<Rightarrow> bytes \<Rightarrow> bytes result" where
  "token_encrypt lib iv t dat =
     res_bind
       (if tok_mode t = MODE_AES_128_CBC then Inr (aes_encrypt lib (pad dat 16) (encryption_key t) iv)
        else if tok_mode t = MODE_AES_256_CBC then
          Inr (aes_encrypt lib (pad dat 16) (encryption_key t) iv)
        else Inl Invalid_argument)
       (\<lambda>ciphertext.
          let signed_parts = iv @ ciphertext
          in res_bind (generate_hmac lib (signing_key t) signed_parts)
               (\<lambda>sig. Inr (signed_parts @ sig)))"

definition token_decrypt :: "crypto_lib \<Rightarrow> token \<Rightarrow> bytes \<Rightarrow> bytes result" where
  "token_decrypt lib t tok =
     (if length tok < 48 then Inl Invalid_argument
      else res_bind (verify_hmac lib t tok) (\<lambda>ok.
        if \<not> ok then Inl Invalid_argument
        else
          let iv = left tok 16; ciphertext = mid tok 16 (length tok - 48);
              r = (if tok_mode t = MODE_AES_128_CBC then
                     unpad (aes_decrypt lib ciphertext (encryption_key t) iv) 16
                   else if tok_mode t = MODE_AES_256_CBC then
                     unpad (aes_decrypt lib ciphertext (encryption_key t) iv) 16
                   else Inl Invalid_argument)
          in (case r of
                Inr plaintext \<Rightarrow> Inr plaintext
              | Inl Undefined_behaviour \<Rightarrow> Inl Undefined_behaviour
              | Inl _ \<Rightarrow> Inl Runtime_error)))"

section \<open>Fernet\<close>

record fernet =
  fernet_signing_key :: bytes
  fernet_encryption_key :: bytes

definition new_fernet :: "bytes \<Rightarrow> fernet result" where
  "new_fernet key =
     (if key = [] then Inl Invalid_argument
      else if length key \<noteq> 32 then Inl Invalid_argument
      else Inr \<lparr>fernet_signing_key = left key 16, fernet_encryption_key = mid_end key 16\<rparr>)"

definition fernet_verify_hmac :: "crypto_lib \<Rightarrow> fernet \<Rightarrow> bytes \<Rightarrow> bool result" where
  "fernet_verify_hmac lib f tok =
     (if length tok \<le> 32 then Inl Invalid_argument
      else res_bind (generate_hmac lib (fernet_signing_key f) (left tok (length tok - 32)))
             (\<lambda>expected. Inr (right tok 32 = expected)))"

definition fernet_encrypt :: "crypto_lib \<Rightarrow> bytes \<Rightarrow> fernet \<Rightarrow> bytes \<Rightarrow> bytes result" where
  "fernet_encrypt lib iv f dat =
     (let ciphertext = aes_encrypt lib (pad dat 16) (fernet_encryption_key f) iv;
          signed_parts = iv @ ciphertext
      in res_bind (generate_hmac lib (fernet_signing_key f) signed_parts)
           (\<lambda>sig. Inr (signed_parts @ sig)))"

definition fernet_decrypt :: "crypto_lib \<Rightarrow> fernet \<Rightarrow> bytes \<Rightarrow> bytes result" where
  "fernet_decrypt lib f tok =
     (if length tok < 48 then Inl Invalid_argument
      else res_bind (fernet_verify_hmac lib f tok) (\<lambda>ok.
        if \<not> ok then Inl Invalid_argument
        else
          let iv = left tok 16; ciphertext = mid tok 16 (length tok - 48)
          in (case unpad (aes_decrypt lib ciphertext (fernet_encryption_key f) iv) 16 of
                Inr plaintext \<Rightarrow> Inr plaintext
              | Inl Undefined_behaviour \<Rightarrow> Inl Undefined_behaviour
              | Inl _ \<Rightarrow> Inl Runtime_error)))"

section \<open>Lemmas\<close>

lemma generate_hmac_eq [simp]: "generate_hmac lib k m = Inr (lib_hmac lib DIGEST_SHA256 k m)"
  by (simp add: generate_hmac_def hmac_new_def hmac_digest_def hmac_update_def Let_def)

lemma verify_hmac_eq:
  "length tok > 32 \<Longrightarrow>
   verify_hmac lib t tok =
     Inr (drop (length tok - 32) tok =
          lib_hmac lib DIGEST_SHA256 (signing_key t) (take (length tok - 32) tok))"
  by (simp add: verify_hmac_def bytes_simps)

lemma new_token_mode:
  "new_token key mode = Inr t \<Longrightarrow>
   (tok_mode t = MODE_AES_128_CBC \<and> length key = 32) \<or> (tok_mode t = MODE_AES_256_CBC \<and> length key = 64)"
  by (auto simp: new_token_def split: if_splits)

lemma token_encrypt_eq:
  assumes "tok_mode t \<noteq> MODE_AES"
  shows "token_encrypt lib iv t dat =
     Inr (iv @ aes_encrypt lib (pad dat 16) (encryption_key t) iv
          @ lib_hmac lib DIGEST_SHA256 (signing_key t)
              (iv @ aes_encrypt lib (pad dat 16) (encryption_key t) iv))"
  using assms by (cases "tok_mode t") (simp_all add: token_encrypt_def Let_def)

lemma token_decrypt_authentic:
  assumes "token_decrypt lib t tok = Inr pt"
  shows "length tok \<ge> 48"
    and "drop (length tok - 32) tok = lib_hmac lib DIGEST_SHA256 (signing_key t) (take (length tok - 32) tok)"
proof -
  show len: "length tok \<ge> 48" using assms by (simp add: token_decrypt_def split: if_splits)
  then have "verify_hmac lib t tok = Inr (drop (length tok - 32) tok =
      lib_hmac lib DIGEST_SHA256 (signing_key t) (take (length tok - 32) tok))"
    by (simp add: verify_hmac_eq)
  with assms len show "drop (length tok - 32) tok = lib_hmac lib DIGEST_SHA256 (signing_key t) (take (length tok - 32) tok)"
    by (simp add: token_decrypt_def split: if_splits)
qed

lemma token_decrypt_forged:
  assumes "drop (length tok - 32) tok \<noteq>
           lib_hmac lib DIGEST_SHA256 (signing_key t) (take (length tok - 32) tok)"
  shows "token_decrypt lib t tok = Inl Invalid_argument"
proof (cases "length tok < 48")
  case False
  then have "verify_hmac lib t tok = Inr False" using assms by (simp add: verify_hmac_eq)
  with False show ?thesis by (simp add: token_decrypt_def)
qed (simp add: token_decrypt_def)

lemma token_decrypt_open:
  assumes mode: "tok_mode t \<noteq> MODE_AES" and iv: "length iv = 16" and sig: "length sig = 32"
    and mac: "sig = lib_hmac lib DIGEST_SHA256 (signing_key t) (iv @ ct)"
  shows "token_decrypt lib t (iv @ ct @ sig) =
    (case unpad (aes_decrypt lib ct (encryption_key t) iv) 16 of
       Inr plaintext \<Rightarrow> Inr plaintext
     | Inl Undefined_behaviour \<Rightarrow> Inl Undefined_behaviour
     | Inl _ \<Rightarrow> Inl Runtime_error)"
proof -
  let ?tok = "iv @ ct @ sig"
  have len: "length ?tok = 48 + length ct" using iv sig by simp
  then have "verify_hmac lib t ?tok = Inr True"
    using iv sig mac by (subst verify_hmac_eq) simp_all
  with len mode iv sig show ?thesis
    by (cases "tok_mode t") (simp_all add: token_decrypt_def bytes_simps Let_def)
qed

lemma fernet_as_token:
  assumes "new_fernet key = Inr f" and "new_token key MODE_AES = Inr t"
  shows "fernet_encrypt lib iv f dat = token_encrypt lib iv t dat"
    and "fernet_decrypt lib f tok = token_decrypt lib t tok"
proof -
  from assms have "tok_mode t = MODE_AES_128_CBC" and "signing_key t = fernet_signing_key f"
    and "encryption_key t = fernet_encryption_key f"
    by (auto simp: new_fernet_def new_token_def split: if_splits)
  then show "fernet_encrypt lib iv f dat = token_encrypt lib iv t dat"
    and "fernet_decrypt lib f tok = token_decrypt lib t tok"
    by (simp_all add: fernet_encrypt_def token_encrypt_def fernet_decrypt_def token_decrypt_def
        fernet_verify_hmac_def verify_hmac_def Let_def)
qed

lemma repeat_octet:
  fixes w :: "32 word"
  assumes "\<And>n. n \<ge> 8 \<Longrightarrow> \<not> bit w n"
  shows "push_bit 24 w OR push_bit 16 w OR push_bit 8 w OR w = 0x01010101 * w"
proof -
  have "push_bit 8 w OR w = push_bit 8 w + w"
    by (rule disjunctive_add [symmetric]) (auto simp: bit_simps dest: assms)
  moreover have "push_bit 16 w OR (push_bit 8 w OR w) = push_bit 16 w + (push_bit 8 w OR w)"
    by (rule disjunctive_add [symmetric]) (use assms in \<open>force simp: bit_simps\<close>)
  moreover have "push_bit 24 w OR (push_bit 16 w OR (push_bit 8 w OR w))
      = push_bit 24 w + (push_bit 16 w OR (push_bit 8 w OR w))"
    by (rule disjunctive_add [symmetric]) (use assms in \<open>force simp: bit_simps\<close>)
  ultimately show ?thesis by (simp add: push_bit_eq_mult)
qed

lemma token_encrypt_decrypt:
  assumes "crypto_ok lib" and "length iv = 16" and "new_token key MODE_AES = Inr t"
  shows "\<exists>tok. token_encrypt lib iv t dat = Inr tok \<and> token_decrypt lib t tok = Inr dat \<and>
           length tok = 16 * (length dat div 16 + 1) + 48"
proof -
  have mode: "tok_mode t \<noteq> MODE_AES" using new_token_mode [OF assms(3)] by auto
  let ?ct = "aes_encrypt lib (pad dat 16) (encryption_key t) iv"
  let ?sig = "lib_hmac lib DIGEST_SHA256 (signing_key t) (iv @ ?ct)"
  have padlen: "length (pad dat 16) = 16 * (length dat div 16 + 1)" by (simp add: length_pad)
  then have dvd: "16 dvd length (pad dat 16)" by simp
  note aes = aes_roundtrip [OF assms(1,2) dvd, of "encryption_key t"]
  have "token_decrypt lib t (iv @ ?ct @ ?sig) = Inr dat"
    using aes(2) assms by (subst token_decrypt_open) (simp_all add: mode crypto_okD unpad_pad)
  moreover have "length (iv @ ?ct @ ?sig) = 16 * (length dat div 16 + 1) + 48"
    using aes(1) padlen assms(1,2) by (simp add: crypto_okD)
  ultimately show ?thesis using token_encrypt_eq [OF mode] by blast
qed

section \<open>Properties\<close>

text \<open>
  C7. Encrypting and decrypting with the same token object gives the data back, for any data,
  any 16-octet initialisation vector and either key size; the token is the padded data plus
  exactly the 48 octets of \<open>TOKEN_OVERHEAD\<close>.
\<close>

theorem token_roundtrip:
  assumes "crypto_ok lib" and "length iv = 16" and "new_token key MODE_AES = Inr t"
  shows "\<exists>tok. token_encrypt lib iv t dat = Inr tok \<and> token_decrypt lib t tok = Inr dat \<and>
           length tok = 16 * (length dat div 16 + 1) + 48"
  using assms by (rule token_encrypt_decrypt)

theorem token_roundtrip_witness:
  "\<exists>tok. token_encrypt demo_lib (replicate 16 3) (\<lparr>tok_mode = MODE_AES_128_CBC,
      signing_key = replicate 16 1, encryption_key = replicate 16 1\<rparr>) [1, 2, 3] = Inr tok \<and>
    length tok = 64"
proof -
  have "new_token (replicate 32 1) MODE_AES = Inr (\<lparr>tok_mode = MODE_AES_128_CBC,
      signing_key = replicate 16 1, encryption_key = replicate 16 1\<rparr>)"
    by (simp add: new_token_def bytes_simps)
  with token_roundtrip [OF demo_lib_ok, of "replicate 16 3" "replicate 32 1" _ "[1, 2, 3]"]
  show ?thesis by auto
qed

text \<open>
  Nothing is decrypted before it is authenticated: a token that \<open>decrypt\<close> accepts has at
  least 48 octets and ends in the HMAC of everything before it under the signing key; with a
  wrong HMAC the result is the invalid-argument error.
\<close>

lemma token_authenticated:
  "(token_decrypt lib t tok = Inr pt \<longrightarrow>
      length tok \<ge> 48 \<and>
      right tok 32 = lib_hmac lib DIGEST_SHA256 (signing_key t) (left tok (length tok - 32)))
   \<and> (right tok 32 \<noteq> lib_hmac lib DIGEST_SHA256 (signing_key t) (left tok (length tok - 32)) \<longrightarrow>
      token_decrypt lib t tok = Inl Invalid_argument)"
  unfolding right_eq left_eq
  using token_decrypt_authentic [of lib t tok pt] token_decrypt_forged [of tok lib t] by blast

text \<open>
  A correctly authenticated token of exactly 48 octets (empty ciphertext) passes every
  check of \<open>decrypt\<close> and makes \<open>unpad\<close> read the last octet of a null buffer.
\<close>

lemma token_empty_ciphertext:
  assumes "crypto_ok lib" and "length iv = 16" and "new_token key MODE_AES = Inr t"
  shows "token_decrypt lib t (iv @ lib_hmac lib DIGEST_SHA256 (signing_key t) iv) = Inl Undefined_behaviour"
proof -
  have mode: "tok_mode t \<noteq> MODE_AES" using new_token_mode [OF assms(3)] by auto
  have "aes_decrypt lib [] (encryption_key t) iv = []"
    by (simp add: aes_decrypt_def Let_def fill_buffer_def)
  moreover have "token_decrypt lib t (iv @ [] @ lib_hmac lib DIGEST_SHA256 (signing_key t) iv) =
    (case unpad (aes_decrypt lib [] (encryption_key t) iv) 16 of
       Inr plaintext \<Rightarrow> Inr plaintext
     | Inl Undefined_behaviour \<Rightarrow> Inl Undefined_behaviour
     | Inl _ \<Rightarrow> Inl Runtime_error)"
    by (rule token_decrypt_open [OF mode assms(2)]) (simp_all add: crypto_okD(3) [OF assms(1)])
  ultimately show ?thesis by (simp add: unpad_def inplace_unpad_def)
qed

text \<open>
  The free function \<open>digest(key, msg)\<close> feeds a non-empty message twice, so it is the HMAC of
  the doubled message, not the HMAC that \<open>HMAC::generate(key, msg)->digest()\<close> computes.
\<close>

lemma fast_digest_doubles:
  "fast_digest lib key msg DIGEST_SHA256 = Inr (lib_hmac lib DIGEST_SHA256 key (msg @ msg)) \<and>
   generate_hmac lib key msg = Inr (lib_hmac lib DIGEST_SHA256 key msg)"
  by (simp add: fast_digest_def hmac_new_def hmac_update_def hmac_digest_def Let_def)

text \<open>
  \<open>randomnum\<close> returns one octet repeated four times: every result is a multiple of
  \<open>0x01010101\<close>, whatever octets the generator delivers, so only 256 values can occur.
\<close>

lemma randomnum_range:
  "randomnum r = 0x01010101 * ucast (r ! 0)"
  unfolding randomnum_def by (rule repeat_octet) (auto simp: bit_simps dest: bit_imp_le_length)

end
