(* ===== verification/Packet.thy ===== *)
theory Packet
  imports Token
begin

text \<open>
  Packets: the wire format of \<open>Packet.cpp\<close> (\<open>get_packed_flags\<close>, \<open>unpack_flags\<close>, \<open>pack\<close>, \<open>unpack\<close>,
  the packet hash), the minimal constructors and the setters of \<open>Packet.h\<close>.

  The objects a packet refers to enter as views: \<open>dest_view\<close> and \<open>link_view\<close> hold what the packet
  code reads of a \<open>Destination\<close> and a \<open>Link\<close> (the address, the type, the encryption method).
  Interfaces and the statistics stamped on a received packet do not take part in packing and
  are left out.  The enumerations keep the numeric codes of \<open>Type.h\<close>; the context of a received
  packet may be any octet, so contexts are octets.
\<close>

section \<open>Enumerations and constants (Type.h)\<close>

datatype packet_type = DATA | ANNOUNCE | LINKREQUEST | PROOF
datatype header_type = HEADER_1 | HEADER_2
datatype context_flag = FLAG_UNSET | FLAG_SET
datatype transport_type = BROADCAST | TRANSPORT | RELAY | TUNNEL | TRANSPORT_NONE
datatype dest_type = SINGLE | GROUP | PLAIN | LINK

fun packet_type_code :: "packet_type \<Rightarrow> nat" where
  "packet_type_code DATA = 0"
| "packet_type_code ANNOUNCE = 1"
| "packet_type_code LINKREQUEST = 2"
| "packet_type_code PROOF = 3"

fun header_type_code :: "header_type \<Rightarrow> nat" where
  "header_type_code HEADER_1 = 0"
| "header_type_code HEADER_2 = 1"

fun context_flag_code :: "context_flag \<Rightarrow> nat" where
  "context_flag_code FLAG_UNSET = 0"
| "context_flag_code FLAG_SET = 1"

fun transport_type_code :: "transport_type \<Rightarrow> nat" where
  "transport_type_code BROADCAST = 0"
| "transport_type_code TRANSPORT = 1"
| "transport_type_code RELAY = 2"
| "transport_type_code TUNNEL = 3"
| "transport_type_code TRANSPORT_NONE = 0xFF"

fun dest_type_code :: "dest_type \<Rightarrow> nat" where
  "dest_type_code SINGLE = 0"
| "dest_type_code GROUP = 1"
| "dest_type_code PLAIN = 2"
| "dest_type_code LINK = 3"

abbreviation CONTEXT_NONE :: byte where "CONTEXT_NONE \<equiv> 0x00"
abbreviation RESOURCE :: byte where "RESOURCE \<equiv> 0x01"
abbreviation RESOURCE_ADV :: byte where "RESOURCE_ADV \<equiv> 0x02"
abbreviation RESOURCE_REQ :: byte where "RESOURCE_REQ \<equiv> 0x03"
abbreviation RESOURCE_HMU :: byte where "RESOURCE_HMU \<equiv> 0x04"
abbreviation RESOURCE_PRF :: byte where "RESOURCE_PRF \<equiv> 0x05"
abbreviation RESOURCE_ICL :: byte where "RESOURCE_ICL \<equiv> 0x06"
abbreviation RESOURCE_RCL :: byte where "RESOURCE_RCL \<equiv> 0x07"
abbreviation CACHE_REQUEST :: byte where "CACHE_REQUEST \<equiv> 0x08"
abbreviation REQUEST :: byte where "REQUEST \<equiv> 0x09"
abbreviation RESPONSE :: byte where "RESPONSE \<equiv> 0x0A"
abbreviation PATH_RESPONSE :: byte where "PATH_RESPONSE \<equiv> 0x0B"
abbreviation CHANNEL :: byte where "CHANNEL \<equiv> 0x0E"
abbreviation KEEPALIVE :: byte where "KEEPALIVE \<equiv> 0xFA"
abbreviation LINKIDENTIFY :: byte where "LINKIDENTIFY \<equiv> 0xFB"
abbreviation LINKCLOSE :: byte where "LINKCLOSE \<equiv> 0xFC"
abbreviation LINKPROOF :: byte where "LINKPROOF \<equiv> 0xFD"
abbreviation LRRTT :: byte where "LRRTT \<equiv> 0xFE"
abbreviation LRPROOF :: byte where "LRPROOF \<equiv> 0xFF"

definition MTU :: nat where "MTU = 500"
definition DESTINATION_LENGTH :: nat where "DESTINATION_LENGTH = 128 div 8"
definition HEADER_MINSIZE :: nat where "HEADER_MINSIZE = 2 + 1 + (128 div 8) * 1"
definition HEADER_MAXSIZE :: nat where "HEADER_MAXSIZE = 2 + 1 + (128 div 8) * 2"
definition IFAC_MIN_SIZE :: nat where "IFAC_MIN_SIZE = 1"
definition MDU :: nat where "MDU = MTU - HEADER_MAXSIZE - IFAC_MIN_SIZE"
definition FERNET_OVERHEAD :: nat where "FERNET_OVERHEAD = 48"
definition ENCRYPTED_MDU :: nat where
  "ENCRYPTED_MDU = ((MDU - FERNET_OVERHEAD - 512 div 16) div 16) * 16 - 1"

lemmas wire_sizes = MTU_def DESTINATION_LENGTH_def HEADER_MINSIZE_def HEADER_MAXSIZE_def
  IFAC_MIN_SIZE_def MDU_def FERNET_OVERHEAD_def ENCRYPTED_MDU_def

section \<open>Packets\<close>

record dest_view =
  dv_hash :: bytes
  dv_type :: dest_type
  dv_encrypt :: "bytes \<Rightarrow> bytes result"

record link_view =
  lv_id :: bytes
  lv_mtu :: nat
  lv_encrypt :: "bytes \<Rightarrow> bytes result"

record packet =
  p_destination :: "dest_view option"
  p_destination_link :: "link_view option"
  p_header_type :: header_type
  p_transport_type :: transport_type
  p_destination_type :: dest_type
  p_packet_type :: packet_type
  p_context :: byte
  p_context_flag :: context_flag
  p_flags :: byte
  p_hops :: byte
  p_packed :: bool
  p_sent :: bool
  p_create_receipt :: bool
  p_fromPacked :: bool
  p_truncated :: bool
  p_encrypted :: bool
  p_MTU :: nat
  p_packet_hash :: bytes
  p_destination_hash :: bytes
  p_transport_id :: bytes
  p_raw :: bytes
  p_data :: bytes
  p_header :: bytes
  p_ciphertext :: bytes

text \<open>The in-class member initialisers of \<open>Packet::Object\<close>.\<close>

definition new_object :: packet where
  "new_object =
     \<lparr>p_destination = None, p_destination_link = None, p_header_type = HEADER_1,
      p_transport_type = BROADCAST, p_destination_type = SINGLE, p_packet_type = DATA,
      p_context = CONTEXT_NONE, p_context_flag = FLAG_UNSET, p_flags = 0, p_hops = 0,
      p_packed = False, p_sent = False, p_create_receipt = False, p_fromPacked = False,
      p_truncated = False, p_encrypted = False, p_MTU = MTU, p_packet_hash = [],
      p_destination_hash = [], p_transport_id = [], p_raw = [], p_data = [], p_header = [],
      p_ciphertext = []\<rparr>"

definition packet_from_raw :: "bytes \<Rightarrow> packet" where
  "packet_from_raw raw = new_object\<lparr>p_raw := raw\<rparr>"

definition packed_octet :: "header_type \<Rightarrow> context_flag \<Rightarrow> transport_type \<Rightarrow> dest_type \<Rightarrow> packet_type \<Rightarrow> byte" where
  "packed_octet ht cf tt dt pt =
     push_bit 6 (word_of_nat (header_type_code ht)) OR push_bit 5 (word_of_nat (context_flag_code cf))
       OR push_bit 4 (word_of_nat (transport_type_code tt)) OR push_bit 2 (word_of_nat (dest_type_code dt))
       OR word_of_nat (packet_type_code pt)"

definition get_packed_flags :: "packet \<Rightarrow> byte result" where
  "get_packed_flags p =
     (if p_context p = LRPROOF then
        Inr (packed_octet (p_header_type p) (p_context_flag p) (p_transport_type p) LINK (p_packet_type p))
      else
        (case p_destination p of
           None \<Rightarrow> Inl Logic_error
         | Some d \<Rightarrow>
             Inr (packed_octet (p_header_type p) (p_context_flag p) (p_transport_type p) (dv_type d)
                    (p_packet_type p))))"

definition header_type_of :: "byte \<Rightarrow> header_type" where
  "header_type_of n = (if n = 0 then HEADER_1 else HEADER_2)"

definition context_flag_of :: "byte \<Rightarrow> context_flag" where
  "context_flag_of n = (if n = 0 then FLAG_UNSET else FLAG_SET)"

definition transport_type_of :: "byte \<Rightarrow> transport_type" where
  "transport_type_of n = (if n = 0 then BROADCAST else TRANSPORT)"

definition dest_type_of :: "byte \<Rightarrow> dest_type" where
  "dest_type_of n = (if n = 0 then SINGLE else if n = 1 then GROUP else if n = 2 then PLAIN else LINK)"

definition packet_type_of :: "byte \<Rightarrow> packet_type" where
  "packet_type_of n = (if n = 0 then DATA else if n = 1 then ANNOUNCE else if n = 2 then LINKREQUEST else PROOF)"

definition unpack_flags :: "byte \<Rightarrow> packet \<Rightarrow> packet" where
  "unpack_flags flags p =
     p\<lparr>p_header_type := header_type_of (drop_bit 6 (flags AND 0x40)),
       p_context_flag := context_flag_of (drop_bit 5 (flags AND 0x20)),
       p_transport_type := transport_type_of (drop_bit 4 (flags AND 0x10)),
       p_destination_type := dest_type_of (drop_bit 2 (flags AND 0x0C)),
       p_packet_type := packet_type_of (flags AND 0x03)\<rparr>"

definition full_hash :: "crypto_lib \<Rightarrow> bytes \<Rightarrow> bytes" where
  "full_hash lib dat = sha256 lib dat"

definition truncated_hash :: "crypto_lib \<Rightarrow> bytes \<Rightarrow> bytes" where
  "truncated_hash lib dat = left (full_hash lib dat) (128 div 8)"

definition get_hashable_part :: "packet \<Rightarrow> bytes result" where
  "get_hashable_part p =
     (if p_raw p = [] then Inl Undefined_behaviour
      else
        let b = (p_raw p ! 0) AND 0x0F
        in Inr (if p_header_type p = HEADER_2 then b # mid_end (p_raw p) (128 div 8 + 2)
                else b # mid_end (p_raw p) 2))"

definition get_hash :: "crypto_lib \<Rightarrow> packet \<Rightarrow> bytes result" where
  "get_hash lib p = res_bind (get_hashable_part p) (\<lambda>h. Inr (full_hash lib h))"

definition getTruncatedHash :: "crypto_lib \<Rightarrow> packet \<Rightarrow> bytes result" where
  "getTruncatedHash lib p = res_bind (get_hashable_part p) (\<lambda>h. Inr (truncated_hash lib h))"

definition update_hash :: "crypto_lib \<Rightarrow> packet \<Rightarrow> packet result" where
  "update_hash lib p = res_bind (get_hash lib p) (\<lambda>h. Inr (p\<lparr>p_packet_hash := h\<rparr>))"

subsection \<open>Constructors and setters\<close>

definition with_flags :: "packet \<Rightarrow> packet result" where
  "with_flags p = res_bind (get_packed_flags p) (\<lambda>f. Inr (p\<lparr>p_flags := f\<rparr>))"

definition packet_to_destination :: "dest_view option \<Rightarrow> bytes \<Rightarrow> packet result" where
  "packet_to_destination dest dat =
     (case dest of
        Some d \<Rightarrow>
          (let p = new_object\<lparr>p_destination := Some d, p_data := dat\<rparr>;
               p1 = (if length dat > MDU then p\<lparr>p_truncated := True, p_data := resize_vec MDU dat\<rparr> else p)
           in res_bind (with_flags p1) (\<lambda>p2. Inr (p2\<lparr>p_create_receipt := True\<rparr>)))
      | None \<Rightarrow>
          Inr (new_object\<lparr>p_raw := dat, p_packed := True, p_fromPacked := True,
                 p_create_receipt := False\<rparr>))"

text \<open>\<open>Packet(const Link&, const Bytes&)\<close>: the destination is the link itself.  A \<open>Destination\<close>
  of type LINK has no encryption of its own; its method hands the octets back.\<close>

definition link_destination :: "link_view \<Rightarrow> dest_view" where
  "link_destination l = \<lparr>dv_hash = lv_id l, dv_type = LINK, dv_encrypt = Inr\<rparr>"

definition packet_to_link :: "link_view \<Rightarrow> bytes \<Rightarrow> packet result" where
  "packet_to_link l dat =
     res_bind (packet_to_destination (Some (link_destination l)) dat)
       (\<lambda>p. with_flags (p\<lparr>p_destination_link := Some l, p_MTU := lv_mtu l\<rparr>))"

definition set_packet_type :: "packet_type \<Rightarrow> packet \<Rightarrow> packet result" where
  "set_packet_type v p = with_flags (p\<lparr>p_packet_type := v\<rparr>)"

definition set_context :: "byte \<Rightarrow> packet \<Rightarrow> packet result" where
  "set_context v p = with_flags (p\<lparr>p_context := v\<rparr>)"

definition set_context_flag :: "context_flag \<Rightarrow> packet \<Rightarrow> packet result" where
  "set_context_flag v p = with_flags (p\<lparr>p_context_flag := v\<rparr>)"

definition set_transport_type :: "transport_type \<Rightarrow> packet \<Rightarrow> packet result" where
  "set_transport_type v p = with_flags (p\<lparr>p_transport_type := v\<rparr>)"

definition set_header_type :: "header_type \<Rightarrow> packet \<Rightarrow> packet result" where
  "set_header_type v p = with_flags (p\<lparr>p_header_type := v\<rparr>)"

definition set_transport_id :: "bytes \<Rightarrow> packet \<Rightarrow> packet" where
  "set_transport_id v p = p\<lparr>p_transport_id := v\<rparr>"

definition set_hops :: "byte \<Rightarrow> packet \<Rightarrow> packet" where
  "set_hops v p = p\<lparr>p_hops := v\<rparr>"

subsection \<open>Packing\<close>

text \<open>Which payloads travel in the clear, in the order of the tests of \<open>pack\<close>.\<close>

definition sent_in_clear :: "packet \<Rightarrow> dest_view \<Rightarrow> bool" where
  "sent_in_clear p d \<longleftrightarrow>
     p_packet_type p = ANNOUNCE \<or> p_packet_type p = LINKREQUEST
     \<or> (p_packet_type p = PROOF \<and> p_context p = RESOURCE_PRF)
     \<or> (p_packet_type p = PROOF \<and> dv_type d = LINK)
     \<or> p_context p = RESOURCE \<or> p_context p = KEEPALIVE \<or> p_context p = CACHE_REQUEST"

definition pack_body :: "packet \<Rightarrow> dest_view \<Rightarrow> packet result" where
  "pack_body p d =
     (if p_context p = LRPROOF then
        (case p_destination_link p of
           None \<Rightarrow> Inl Invalid_argument
         | Some l \<Rightarrow> Inr (p\<lparr>p_header := p_header p @ lv_id l, p_ciphertext := p_data p\<rparr>))
      else if p_header_type p = HEADER_1 then
        (let p1 = p\<lparr>p_header := p_header p @ dv_hash d\<rparr>
         in if sent_in_clear p d then Inr (p1\<lparr>p_ciphertext := p_data p\<rparr>)
            else
              res_bind (case p_destination_link p of
                          Some l \<Rightarrow> lv_encrypt l (p_data p)
                        | None \<Rightarrow> dv_encrypt d (p_data p))
                (\<lambda>ct. Inr (p1\<lparr>p_ciphertext := ct, p_encrypted := True\<rparr>)))
      else
        (if p_transport_id p = [] then Inl Invalid_argument
         else
           let p1 = p\<lparr>p_header := p_header p @ p_transport_id p @ dv_hash d\<rparr>
           in Inr (if p_packet_type p = ANNOUNCE then p1\<lparr>p_ciphertext := p_data p\<rparr> else p1)))"

definition pack :: "crypto_lib \<Rightarrow> packet \<Rightarrow> packet result" where
  "pack lib p =
     (case p_destination p of
        None \<Rightarrow> Inl Logic_error
      | Some d \<Rightarrow>
          res_bind
            (pack_body (p\<lparr>p_destination_hash := dv_hash d, p_encrypted := False,
                          p_header := [p_flags p, p_hops p]\<rparr>) d)
            (\<lambda>q.
               let hdr = p_header q @ [p_context q]; raw = hdr @ p_ciphertext q
               in if length raw > p_MTU q then Inl Length_error
                  else update_hash lib (q\<lparr>p_header := hdr, p_raw := raw, p_packed := True\<rparr>)))"

text \<open>\<open>unpack\<close> catches its own exceptions; the packet keeps what was assigned before one.\<close>

definition unpack :: "crypto_lib \<Rightarrow> packet \<Rightarrow> bool \<times> packet" where
  "unpack lib p =
     (let raw = p_raw p; n = DESTINATION_LENGTH
      in if length raw < HEADER_MINSIZE then (False, p)
         else
           let p1 = unpack_flags (raw ! 0) (p\<lparr>p_flags := raw ! 0, p_hops := raw ! 1\<rparr>)
           in if p_header_type p1 = HEADER_2 \<and> length raw < HEADER_MAXSIZE then (False, p1)
              else
                let p2 =
                  (if p_header_type p1 = HEADER_2 then
                     p1\<lparr>p_transport_id := take n (drop 2 raw),
                        p_destination_hash := take n (drop (n + 2) raw),
                        p_context := raw ! (2 * n + 2),
                        p_data := take (length raw - (2 * n + 3)) (drop (2 * n + 3) raw),
                        p_encrypted := False\<rparr>
                   else
                     p1\<lparr>p_transport_id := [],
                        p_destination_hash := take n (drop 2 raw),
                        p_context := raw ! (n + 2),
                        p_data := take (length raw - (n + 3)) (drop (n + 3) raw),
                        p_encrypted := False\<rparr>)
                in (case update_hash lib (p2\<lparr>p_packed := False\<rparr>) of
                      Inl _ \<Rightarrow> (False, p2\<lparr>p_packed := False\<rparr>)
                    | Inr p3 \<Rightarrow> (True, p3)))"

section \<open>Lemmas\<close>

lemma packed_octet_fields:
  assumes "tt = BROADCAST \<or> tt = TRANSPORT"
  shows "unpack_flags (packed_octet ht cf tt dt pt) p =
     p\<lparr>p_header_type := ht, p_context_flag := cf, p_transport_type := tt,
       p_destination_type := dt, p_packet_type := pt\<rparr>"
proof -
  note defs = packed_octet_def unpack_flags_def header_type_of_def context_flag_of_def
    transport_type_of_def dest_type_of_def packet_type_of_def
  from assms show ?thesis
    by (elim disjE; cases ht; cases cf; cases dt; cases pt; simp only: simp_thms; simp add: defs)
qed

text \<open>The address field \<open>pack\<close> writes, and when it has the size \<open>unpack\<close> expects.\<close>

definition wire_address :: "packet \<Rightarrow> dest_view \<Rightarrow> bytes" where
  "wire_address p d =
     (if p_context p = LRPROOF then (case p_destination_link p of None \<Rightarrow> [] | Some l \<Rightarrow> lv_id l)
      else if p_header_type p = HEADER_1 then dv_hash d
      else p_transport_id p @ dv_hash d)"

definition wire_destination :: "packet \<Rightarrow> dest_view \<Rightarrow> bytes" where
  "wire_destination p d =
     (if p_context p = LRPROOF then (case p_destination_link p of None \<Rightarrow> [] | Some l \<Rightarrow> lv_id l)
      else dv_hash d)"

definition well_addressed :: "packet \<Rightarrow> dest_view \<Rightarrow> bool" where
  "well_addressed p d \<longleftrightarrow>
     p_destination p = Some d \<and> length (wire_destination p d) = DESTINATION_LENGTH \<and>
     (p_header_type p = HEADER_2 \<longrightarrow>
        length (p_transport_id p) = DESTINATION_LENGTH \<and> p_context p \<noteq> LRPROOF) \<and>
     (p_transport_type p = BROADCAST \<or> p_transport_type p = TRANSPORT) \<and>
     get_packed_flags p = Inr (p_flags p)"

lemma pack_body_fields:
  assumes "pack_body p d = Inr q"
  shows "p_header q = p_header p @ wire_address p d"
    and "p_context q = p_context p" and "p_MTU q = p_MTU p" and "p_header_type q = p_header_type p"
    and "p_flags q = p_flags p" and "p_hops q = p_hops p"
  using assms
  by (auto simp: pack_body_def wire_address_def Let_def res_bind_eq_Inr
      split: if_splits option.splits)

lemma update_hash_fields:
  assumes "update_hash lib p = Inr q"
  shows "q = p\<lparr>p_packet_hash := full_hash lib (projr (get_hashable_part p))\<rparr>" and "p_raw p \<noteq> []"
  using assms
  by (auto simp: update_hash_def get_hash_def get_hashable_part_def Let_def split: if_splits)

lemma pack_wire:
  assumes "pack lib p = Inr q" and "p_destination p = Some d"
  shows "p_raw q = [p_flags p, p_hops p] @ wire_address p d @ [p_context p] @ p_ciphertext q"
    and "length (p_raw q) \<le> p_MTU p" and "p_header_type q = p_header_type p"
    and "p_packet_hash q = full_hash lib (projr (get_hashable_part q))"
proof -
  let ?p = "p\<lparr>p_destination_hash := dv_hash d, p_encrypted := False, p_header := [p_flags p, p_hops p]\<rparr>"
  obtain b where b: "pack_body ?p d = Inr b"
    and len: "length (p_header b @ [p_context b] @ p_ciphertext b) \<le> p_MTU b"
    and upd: "update_hash lib (b\<lparr>p_header := p_header b @ [p_context b],
        p_raw := (p_header b @ [p_context b]) @ p_ciphertext b, p_packed := True\<rparr>) = Inr q"
    using assms by (auto simp: pack_def res_bind_eq_Inr Let_def split: if_splits)
  note f = pack_body_fields [OF b]
  have addr: "wire_address ?p d = wire_address p d" by (simp add: wire_address_def)
  note q = update_hash_fields(1) [OF upd]
  show "p_raw q = [p_flags p, p_hops p] @ wire_address p d @ [p_context p] @ p_ciphertext q"
    using f addr q by simp
  show "length (p_raw q) \<le> p_MTU p" using f q len by simp
  show "p_header_type q = p_header_type p" using f q by simp
  show "p_packet_hash q = full_hash lib (projr (get_hashable_part q))"
    using q by (simp add: get_hashable_part_def Let_def)
qed

lemma packed_flags_fields:
  assumes "get_packed_flags p = Inr f" and "p_transport_type p = BROADCAST \<or> p_transport_type p = TRANSPORT"
  shows "\<exists>dt. (\<forall>r. unpack_flags f r = r\<lparr>p_header_type := p_header_type p,
           p_context_flag := p_context_flag p, p_transport_type := p_transport_type p,
           p_destination_type := dt, p_packet_type := p_packet_type p\<rparr>) \<and>
         (p_context p = LRPROOF \<and> dt = LINK \<or>
          p_context p \<noteq> LRPROOF \<and> (\<exists>d. p_destination p = Some d \<and> dt = dv_type d))"
proof (cases "p_context p = LRPROOF")
  case True
  with assms have "f = packed_octet (p_header_type p) (p_context_flag p) (p_transport_type p) LINK (p_packet_type p)"
    by (simp add: get_packed_flags_def)
  with True packed_octet_fields [OF assms(2)] show ?thesis by auto
next
  case False
  with assms obtain d where d: "p_destination p = Some d"
    and "f = packed_octet (p_header_type p) (p_context_flag p) (p_transport_type p) (dv_type d) (p_packet_type p)"
    by (auto simp: get_packed_flags_def split: option.splits)
  with False packed_octet_fields [OF assms(2)] show ?thesis by auto
qed

lemma unpack_header_1:
  assumes "length dest = DESTINATION_LENGTH" and "p_raw p = [f, h] @ dest @ [c] @ dat"
    and "p_header_type (unpack_flags f p) = HEADER_1"
  shows "unpack lib p = (let r = (unpack_flags f (p\<lparr>p_flags := f, p_hops := h\<rparr>))
            \<lparr>p_transport_id := [], p_destination_hash := dest, p_context := c, p_data := dat,
             p_encrypted := False, p_packed := False\<rparr>
          in (True, r\<lparr>p_packet_hash := full_hash lib ((f AND 0x0F) # dest @ [c] @ dat)\<rparr>))"
  using assms
  by (simp add: unpack_def Let_def wire_sizes unpack_flags_def update_hash_def get_hash_def
      get_hashable_part_def bytes_simps nth_append)

lemma unpack_header_2:
  assumes "length tid = DESTINATION_LENGTH" and "length dest = DESTINATION_LENGTH"
    and "p_raw p = [f, h] @ (tid @ dest) @ [c] @ dat"
    and "p_header_type (unpack_flags f p) = HEADER_2"
  shows "unpack lib p = (let r = (unpack_flags f (p\<lparr>p_flags := f, p_hops := h\<rparr>))
            \<lparr>p_transport_id := tid, p_destination_hash := dest, p_context := c, p_data := dat,
             p_encrypted := False, p_packed := False\<rparr>
          in (True, r\<lparr>p_packet_hash := full_hash lib ((f AND 0x0F) # dest @ [c] @ dat)\<rparr>))"
  using assms
  by (simp add: unpack_def Let_def wire_sizes unpack_flags_def update_hash_def get_hash_def
      get_hashable_part_def bytes_simps nth_append)

lemma pack_unpack:
  assumes "pack lib p = Inr q" and "well_addressed p d"
  shows "\<exists>r. unpack lib (packet_from_raw (p_raw q)) = (True, r) \<and>
     p_hops r = p_hops p \<and> p_header_type r = p_header_type p \<and> p_context_flag r = p_context_flag p \<and>
     p_transport_type r = p_transport_type p \<and> p_packet_type r = p_packet_type p \<and>
     p_destination_hash r = wire_destination p d \<and>
     p_transport_id r = (if p_header_type p = HEADER_2 then p_transport_id p else []) \<and>
     p_context r = p_context p \<and> p_data r = p_ciphertext q \<and> p_packet_hash r = p_packet_hash q \<and> p_raw r = p_raw q \<and>
     p_destination_type r = (if p_context p = LRPROOF then LINK else dv_type d)"
proof -
  from assms(2) have d: "p_destination p = Some d"
    and wd: "length (wire_destination p d) = DESTINATION_LENGTH"
    and h2: "p_header_type p = HEADER_2 \<Longrightarrow>
        length (p_transport_id p) = DESTINATION_LENGTH \<and> p_context p \<noteq> LRPROOF"
    and tt: "p_transport_type p = BROADCAST \<or> p_transport_type p = TRANSPORT"
    and fl: "get_packed_flags p = Inr (p_flags p)"
    by (auto simp: well_addressed_def)
  note w = pack_wire [OF assms(1) d]
  obtain dt where f: "\<And>r. unpack_flags (p_flags p) r = r\<lparr>p_header_type := p_header_type p,
      p_context_flag := p_context_flag p, p_transport_type := p_transport_type p,
      p_destination_type := dt, p_packet_type := p_packet_type p\<rparr>"
    and dt: "dt = (if p_context p = LRPROOF then LINK else dv_type d)"
    using packed_flags_fields [OF fl tt] d by auto
  show ?thesis
  proof (cases "p_header_type p")
    case HEADER_1
    then have wa: "wire_address p d = wire_destination p d"
      by (simp add: wire_address_def wire_destination_def)
    then have "p_raw (packet_from_raw (p_raw q))
        = [p_flags p, p_hops p] @ wire_destination p d @ [p_context p] @ p_ciphertext q"
      using w(1) by (simp add: packet_from_raw_def)
    from unpack_header_1 [OF wd this] HEADER_1 f dt w show ?thesis
      by (simp add: wa get_hashable_part_def Let_def bytes_simps packet_from_raw_def)
  next
    case HEADER_2
    then have wa: "wire_address p d = p_transport_id p @ wire_destination p d"
      using h2 by (simp add: wire_address_def wire_destination_def)
    then have "p_raw (packet_from_raw (p_raw q))
        = [p_flags p, p_hops p] @ (p_transport_id p @ wire_destination p d) @ [p_context p] @ p_ciphertext q"
      using w(1) by (simp add: packet_from_raw_def)
    from unpack_header_2 [OF _ wd this] h2 HEADER_2 f dt w show ?thesis
      by (simp add: wa get_hashable_part_def Let_def bytes_simps wire_sizes packet_from_raw_def)
  qed
qed

section \<open>Properties\<close>

text \<open>
  C1. The wire format round-trips: unpacking the octets \<open>pack\<close> produced succeeds and recovers
  hop count, header type, context flag, propagation type, destination type, packet type, the
  address, the transport id, the context, the (encrypted) payload and the same packet hash.  The
  destination type is that of the destination, except that a link request proof always travels
  as addressed to a link.
\<close>

theorem pack_unpack_roundtrip:
  assumes "pack lib p = Inr q" and "well_addressed p d"
  shows "\<exists>r. unpack lib (packet_from_raw (p_raw q)) = (True, r) \<and>
     p_hops r = p_hops p \<and> p_header_type r = p_header_type p \<and> p_context_flag r = p_context_flag p \<and>
     p_transport_type r = p_transport_type p \<and> p_packet_type r = p_packet_type p \<and>
     p_destination_hash r = wire_destination p d \<and>
     p_transport_id r = (if p_header_type p = HEADER_2 then p_transport_id p else []) \<and>
     p_context r = p_context p \<and> p_data r = p_ciphertext q \<and> p_packet_hash r = p_packet_hash q \<and>
     p_destination_type r = (if p_context p = LRPROOF then LINK else dv_type d)"
  using pack_unpack [OF assms] by blast

definition demo_dest :: dest_view where
  "demo_dest = \<lparr>dv_hash = replicate 16 7, dv_type = PLAIN, dv_encrypt = (\<lambda>b. Inr b)\<rparr>"

definition demo_packet :: packet where
  "demo_packet = new_object\<lparr>p_destination := Some demo_dest, p_data := [1, 2, 3], p_flags := 0x08\<rparr>"

theorem pack_unpack_roundtrip_witness:
  "\<exists>r. unpack demo_lib (packet_from_raw ([0x08, 0] @ replicate 16 7 @ [0] @ [1, 2, 3])) = (True, r) \<and>
     p_data r = [1, 2, 3] \<and> p_destination_hash r = replicate 16 7 \<and> p_destination_type r = PLAIN"
proof -
  have wa: "well_addressed demo_packet demo_dest"
    by (simp add: well_addressed_def demo_packet_def demo_dest_def new_object_def wire_destination_def
        wire_sizes get_packed_flags_def packed_octet_def)
  obtain q where q: "pack demo_lib demo_packet = Inr q" and ct: "p_ciphertext q = [1, 2, 3]"
    by (simp add: pack_def demo_packet_def demo_dest_def new_object_def pack_body_def sent_in_clear_def
        Let_def wire_sizes update_hash_def get_hash_def get_hashable_part_def)
  have "p_raw q = [0x08, 0] @ replicate 16 7 @ [0] @ [1, 2, 3]"
    using pack_wire(1) [OF q] ct
    by (simp add: demo_packet_def demo_dest_def wire_address_def new_object_def)
  with pack_unpack_roundtrip [OF q wa] ct show ?thesis
    by (auto simp: demo_packet_def demo_dest_def wire_destination_def new_object_def)
qed

text \<open>
  A packed packet fits the MTU of its path: \<open>pack\<close> returns only packets whose octets are at
  most the packet's MTU, and refuses the others with a length error.
\<close>

lemma pack_respects_mtu:
  "case pack lib p of
     Inr q \<Rightarrow> length (p_raw q) \<le> p_MTU p \<and> p_packed q
   | Inl e \<Rightarrow> e = Length_error \<or> e = Logic_error \<or> e = Invalid_argument \<or>
       (\<exists>d. p_destination p = Some d \<and>
          (dv_encrypt d (p_data p) = Inl e \<or>
           (\<exists>l. p_destination_link p = Some l \<and> lv_encrypt l (p_data p) = Inl e)))"
proof (cases "pack lib p")
  case (Inr q)
  then obtain d where d: "p_destination p = Some d" by (auto simp: pack_def split: option.splits)
  have "p_packed q"
    using Inr by (auto simp: pack_def res_bind_eq_Inr Let_def dest!: update_hash_fields(1)
        split: option.splits if_splits)
  with pack_wire(2) [OF Inr d] Inr show ?thesis by simp
next
  case (Inl e)
  then show ?thesis
    by (auto simp: pack_def pack_body_def res_bind_eq_Inl Let_def update_hash_def get_hash_def
        get_hashable_part_def split: option.splits if_splits)
qed

text \<open>
  The packet hash identifies a packet across hops: it does not depend on the hop count, on
  the upper half of the flags octet, nor on the transport address that a transport node
  inserts between the header and the destination.
\<close>

lemma packet_hash_hop_invariant:
  assumes "p_raw p = [f, h] @ rest" and "p_header_type p = HEADER_1"
    and "p_raw p' = [f', h'] @ tid @ rest" and "p_header_type p' = HEADER_2"
    and "length tid = DESTINATION_LENGTH" and "f AND 0x0F = f' AND 0x0F"
  shows "get_hash lib p' = get_hash lib p \<and> get_hash lib p = Inr (full_hash lib ((f AND 0x0F) # rest))"
  using assms by (simp add: get_hash_def get_hashable_part_def Let_def bytes_simps wire_sizes)

text \<open>
  \<open>unpack\<close> accepts exactly the octet strings that are long enough for the header their first
  octet announces, and never reads outside them: 19 octets, or 35 when the header-type bit is set.
\<close>

lemma unpack_accepts:
  "fst (unpack lib (packet_from_raw raw)) \<longleftrightarrow>
     length raw \<ge> HEADER_MINSIZE \<and>
     (header_type_of (drop_bit 6 (raw ! 0 AND 0x40)) = HEADER_2 \<longrightarrow> length raw \<ge> HEADER_MAXSIZE)"
  by (auto simp: unpack_def packet_from_raw_def Let_def unpack_flags_def update_hash_def get_hash_def
      get_hashable_part_def wire_sizes new_object_def)

datatype packet_setter =
    Set_packet_type packet_type
  | Set_context byte
  | Set_context_flag context_flag
  | Set_transport_type transport_type
  | Set_header_type header_type
  | Set_transport_id bytes
  | Set_hops byte

fun apply_setter :: "packet_setter \<Rightarrow> packet \<Rightarrow> packet result" where
  "apply_setter (Set_packet_type v) p = set_packet_type v p"
| "apply_setter (Set_context v) p = set_context v p"
| "apply_setter (Set_context_flag v) p = set_context_flag v p"
| "apply_setter (Set_transport_type v) p = set_transport_type v p"
| "apply_setter (Set_header_type v) p = set_header_type v p"
| "apply_setter (Set_transport_id v) p = Inr (set_transport_id v p)"
| "apply_setter (Set_hops v) p = Inr (set_hops v p)"

fun apply_setters :: "packet_setter list \<Rightarrow> packet \<Rightarrow> packet result" where
  "apply_setters [] p = Inr p"
| "apply_setters (x # xs) p = res_bind (apply_setter x p) (apply_setters xs)"

definition flags_synced :: "packet \<Rightarrow> bool" where
  "flags_synced p \<longleftrightarrow> get_packed_flags p = Inr (p_flags p)"

lemma with_flags_synced: "with_flags p = Inr q \<Longrightarrow> flags_synced q"
  by (auto simp: with_flags_def res_bind_eq_Inr flags_synced_def get_packed_flags_def split: if_splits option.splits)

lemma synced_frame:
  "flags_synced (p\<lparr>p_transport_id := v\<rparr>) = flags_synced p"
  "flags_synced (p\<lparr>p_hops := h\<rparr>) = flags_synced p"
  "flags_synced (p\<lparr>p_create_receipt := c\<rparr>) = flags_synced p"
  by (simp_all add: flags_synced_def get_packed_flags_def split: option.split)

lemma apply_setter_synced:
  "flags_synced p \<Longrightarrow> apply_setter x p = Inr q \<Longrightarrow> flags_synced q"
  by (cases x)
     (auto simp: set_packet_type_def set_context_def set_context_flag_def set_transport_type_def
       set_header_type_def set_transport_id_def set_hops_def synced_frame dest: with_flags_synced)

lemma apply_setters_synced:
  "flags_synced p \<Longrightarrow> apply_setters xs p = Inr q \<Longrightarrow> flags_synced q"
  by (induction xs arbitrary: p) (auto simp: res_bind_eq_Inr dest: apply_setter_synced)

lemma apply_setter_data: "apply_setter x p = Inr q \<Longrightarrow> p_data q = p_data p"
  by (cases x)
     (auto simp: set_packet_type_def set_context_def set_context_flag_def set_transport_type_def
       set_header_type_def set_transport_id_def set_hops_def with_flags_def res_bind_eq_Inr)

lemma apply_setters_data: "apply_setters xs p = Inr q \<Longrightarrow> p_data q = p_data p"
  by (induction xs arbitrary: p) (auto simp: res_bind_eq_Inr dest: apply_setter_data)

lemma constructor_synced:
  "packet_to_destination (Some d) dat = Inr p \<Longrightarrow> flags_synced p"
  by (auto simp: packet_to_destination_def res_bind_eq_Inr Let_def synced_frame dest!: with_flags_synced)

text \<open>
  The flags octet stays in step with the fields it encodes: it is the packed octet after
  the minimal constructor and after every setter of an encoded field, whatever the order.
\<close>

lemma setters_keep_flags:
  assumes "packet_to_destination (Some d) dat = Inr p" and "apply_setters xs p = Inr q"
  shows "get_packed_flags q = Inr (p_flags q) \<and> length (p_data q) \<le> MDU"
proof -
  have "length (p_data p) \<le> MDU"
    using assms(1) by (auto simp: packet_to_destination_def res_bind_eq_Inr Let_def with_flags_def
        split: if_splits)
  moreover have "p_data q = p_data p"
    using assms(2) by (rule apply_setters_data)
  ultimately show ?thesis
    using apply_setters_synced [OF constructor_synced [OF assms(1)] assms(2)]
    by (simp add: flags_synced_def)
qed

end
