(* ===== verification/Typed_Store.thy ===== *)
theory Typed_Store
  imports Prelude
begin

text \<open>
  The key-value stores of the program (\<open>microStore::TypedStore\<close>, \<open>microStore::TypedKeyStore\<close>)
  come from a library that is not part of the repository.  Their operations are the fields of
  \<open>typed_store\<close>, over any state, and an argument of every definition that uses a store; \<open>store_ok\<close>
  states the documented behaviour the code relies on.  The stores are bounded: a \<open>put\<close> may evict
  other keys.  A time to live of 0 means none; expired records are absent for \<open>get\<close>.
\<close>

record ('s, 'v) typed_store =
  ts_get :: "'s \<Rightarrow> bytes \<Rightarrow> 'v option"
  ts_put :: "'s \<Rightarrow> bytes \<Rightarrow> 'v \<Rightarrow> nat \<Rightarrow> bool \<times> 's"
  ts_remove :: "'s \<Rightarrow> bytes \<Rightarrow> bool \<times> 's"

text \<open>
  A successful \<open>put\<close> is read back, no operation changes the value of another key (it may drop
  it), and a removed key is absent.
\<close>

definition store_ok :: "('s, 'v) typed_store \<Rightarrow> bool" where
  "store_ok ops \<longleftrightarrow>
     (\<forall>s k e ttl s'. ts_put ops s k e ttl = (True, s') \<longrightarrow> ts_get ops s' k = Some e) \<and>
     (\<forall>s k e ttl b s' k'. ts_put ops s k e ttl = (b, s') \<longrightarrow> k' \<noteq> k \<or> \<not> b \<longrightarrow>
        ts_get ops s' k' = None \<or> ts_get ops s' k' = ts_get ops s k') \<and>
     (\<forall>s k b s'. ts_remove ops s k = (b, s') \<longrightarrow> ts_get ops s' k = None) \<and>
     (\<forall>s k b s' k'. ts_remove ops s k = (b, s') \<longrightarrow> k' \<noteq> k \<longrightarrow> ts_get ops s' k' = ts_get ops s k')"

lemma store_ok_put:
  assumes "store_ok ops" and "ts_put ops s k e ttl = (b, s')"
  shows "ts_get ops s' k' = None \<or> ts_get ops s' k' = ts_get ops s k' \<or> (k' = k \<and> ts_get ops s' k' = Some e)"
proof (cases "k' \<noteq> k \<or> \<not> b")
  case True
  with assms show ?thesis unfolding store_ok_def by metis
next
  case False
  with assms show ?thesis unfolding store_ok_def by simp
qed

lemma store_ok_get:
  assumes "store_ok ops" and "ts_put ops s k e ttl = (True, s')"
  shows "ts_get ops s' k = Some e"
  using assms unfolding store_ok_def by simp

lemma store_ok_remove:
  assumes "store_ok ops" and "ts_remove ops s k = (b, s')"
  shows "ts_get ops s' k' = (if k' = k then None else ts_get ops s k')"
  using assms unfolding store_ok_def by (cases "k' = k") simp_all

text \<open>An instance for the closed examples: a plain map.\<close>

definition map_store :: "(bytes \<Rightarrow> 'v option, 'v) typed_store" where
  "map_store =
     \<lparr>ts_get = (\<lambda>s k. s k), ts_put = (\<lambda>s k e ttl. (True, s(k \<mapsto> e))),
      ts_remove = (\<lambda>s k. (s k \<noteq> None, s(k := None)))\<rparr>"

lemma map_store_ok: "store_ok map_store"
  by (auto simp: store_ok_def map_store_def)

end
