(* ===== verification/Identity.thy ===== *)
theory Identity
  imports Packet Typed_Store
begin

text \<open>
  Key pairs (\<open>Cryptography/X25519.h\<close>, \<open>Cryptography/Ed25519.h\<close>) and identities (\<open>Identity.h\<close>,
  \<open>Identity.cpp\<close>): loading keys, the identity hash, encryption for an identity, signatures,
  the store of known destinations and the validation of announces.

  The curve operations are fields of \<open>crypto_lib\<close>.  They read 32 octets of a key and 64 of a
  signature through a pointer: a shorter buffer is undefined behaviour.  Random key material is
  an argument.  The store of known destinations is a \<open>microStore::TypedStore\<close>, a library that is
  not part of the repository: its operations are an argument (theory \<open>Typed_Store\<close>).  Times (\<open>double\<close> seconds) are reals.
\<close>

section \<open>Key pairs\<close>

record key_pair =
  privateKey :: bytes
  publicKey :: bytes

definition X25519PrivateKey :: "crypto_lib \<Rightarrow> bytes \<Rightarrow> bytes \<Rightarrow> key_pair result" where
  "X25519PrivateKey lib rnd prv =
     (let k = (if prv \<noteq> [] then prv else rnd)
      in if length k < 32 then Inl Undefined_behaviour
         else Inr \<lparr>privateKey = k, publicKey = fst (x25519_eval lib (take 32 k) None)\<rparr>)"

definition exchange :: "crypto_lib \<Rightarrow> key_pair \<Rightarrow> bytes \<Rightarrow> bytes result" where
  "exchange lib kp peer_public_key =
     (if length peer_public_key < 32 then Inl Undefined_behaviour
      else
        let (sharedKey, ok) = x25519_eval lib (take 32 (privateKey kp)) (Some (take 32 peer_public_key))
        in if \<not> ok then Inl Runtime_error else Inr sharedKey)"

definition Ed25519PrivateKey :: "crypto_lib \<Rightarrow> bytes \<Rightarrow> bytes \<Rightarrow> key_pair result" where
  "Ed25519PrivateKey lib rnd prv =
     (let k = (if prv \<noteq> [] then prv else rnd)
      in if length k < 32 then Inl Undefined_behaviour
         else Inr \<lparr>privateKey = k, publicKey = ed25519_derive lib (take 32 k)\<rparr>)"

definition ed_sign :: "crypto_lib \<Rightarrow> key_pair \<Rightarrow> bytes \<Rightarrow> bytes" where
  "ed_sign lib kp message = ed25519_sign lib (take 32 (privateKey kp)) (publicKey kp) message"

definition ed_verify :: "crypto_lib \<Rightarrow> bytes \<Rightarrow> bytes \<Rightarrow> bytes \<Rightarrow> bool result" where
  "ed_verify lib pub signature message =
     (if length signature < 64 \<or> length pub < 32 then Inl Undefined_behaviour
      else Inr (ed25519_verify lib (take 64 signature) (take 32 pub) message))"

section \<open>Identities\<close>

abbreviation KEYSIZE :: nat where "KEYSIZE \<equiv> 256 * 2"
abbreviation RATCHETSIZE :: nat where "RATCHETSIZE \<equiv> 256"
abbreviation SIGLENGTH :: nat where "SIGLENGTH \<equiv> KEYSIZE"
abbreviation NAME_HASH_LENGTH :: nat where "NAME_HASH_LENGTH \<equiv> 80"
abbreviation RANDOM_HASH_LENGTH :: nat where "RANDOM_HASH_LENGTH \<equiv> 80"
abbreviation DERIVED_KEY_LENGTH :: nat where "DERIVED_KEY_LENGTH \<equiv> 512 div 8"

record identity =
  i_prv :: "key_pair option"
  i_prv_bytes :: bytes
  i_sig_prv :: "key_pair option"
  i_sig_prv_bytes :: bytes
  i_pub :: "bytes option"
  i_pub_bytes :: bytes
  i_sig_pub :: "bytes option"
  i_sig_pub_bytes :: bytes
  i_hash :: bytes
  i_hexhash :: bytes
  i_app_data :: bytes

definition new_identity :: identity where
  "new_identity =
     \<lparr>i_prv = None, i_prv_bytes = [], i_sig_prv = None, i_sig_prv_bytes = [], i_pub = None,
      i_pub_bytes = [], i_sig_pub = None, i_sig_pub_bytes = [], i_hash = [], i_hexhash = [],
      i_app_data = []\<rparr>"

definition get_private_key :: "identity \<Rightarrow> bytes" where
  "get_private_key i = i_prv_bytes i @ i_sig_prv_bytes i"

definition get_public_key :: "identity \<Rightarrow> bytes" where
  "get_public_key i = i_pub_bytes i @ i_sig_pub_bytes i"

definition update_hashes :: "crypto_lib \<Rightarrow> identity \<Rightarrow> identity" where
  "update_hashes lib i =
     (let h = truncated_hash lib (get_public_key i) in i\<lparr>i_hash := h, i_hexhash := toHex h False\<rparr>)"

definition createKeys :: "crypto_lib \<Rightarrow> bytes \<Rightarrow> bytes \<Rightarrow> identity \<Rightarrow> identity result" where
  "createKeys lib rnd sig_rnd i =
     res_bind (X25519PrivateKey lib rnd []) (\<lambda>prv.
     res_bind (Ed25519PrivateKey lib sig_rnd []) (\<lambda>sig_prv.
       Inr (update_hashes lib
         (i\<lparr>i_prv := Some prv, i_prv_bytes := privateKey prv,
            i_sig_prv := Some sig_prv, i_sig_prv_bytes := privateKey sig_prv,
            i_pub := Some (publicKey prv), i_pub_bytes := publicKey prv,
            i_sig_pub := Some (publicKey sig_prv), i_sig_pub_bytes := publicKey sig_prv\<rparr>))))"

definition load_private_key ::
  "crypto_lib \<Rightarrow> bytes \<Rightarrow> bytes \<Rightarrow> bytes \<Rightarrow> identity \<Rightarrow> (bool \<times> identity) result" where
  "load_private_key lib rnd sig_rnd prv_bytes i =
     (let prv_part = left prv_bytes (KEYSIZE div 8 div 2); sig_part = mid_end prv_bytes (KEYSIZE div 8 div 2)
      in
        res_bind (X25519PrivateKey lib rnd prv_part) (\<lambda>prv.
        res_bind (Ed25519PrivateKey lib sig_rnd sig_part) (\<lambda>sig_prv.
          Inr (True, update_hashes lib
            (i\<lparr>i_prv := Some prv, i_prv_bytes := prv_part,
               i_sig_prv := Some sig_prv, i_sig_prv_bytes := sig_part,
               i_pub := Some (publicKey prv), i_pub_bytes := publicKey prv,
               i_sig_pub := Some (publicKey sig_prv), i_sig_pub_bytes := publicKey sig_prv\<rparr>)))))"

definition load_public_key :: "crypto_lib \<Rightarrow> bytes \<Rightarrow> identity \<Rightarrow> identity" where
  "load_public_key lib pub_bytes i =
     (let p = left pub_bytes (KEYSIZE div 8 div 2); s = mid_end pub_bytes (KEYSIZE div 8 div 2)
      in update_hashes lib
           (i\<lparr>i_pub_bytes := p, i_sig_pub_bytes := s, i_pub := Some p, i_sig_pub := Some s\<rparr>))"

text \<open>\<open>load\<close> and \<open>to_file\<close>: the content read, and what is handed to the file system.\<close>

definition load_identity ::
  "crypto_lib \<Rightarrow> bytes \<Rightarrow> bytes \<Rightarrow> bytes option \<Rightarrow> identity \<Rightarrow> (bool \<times> identity) result" where
  "load_identity lib rnd sig_rnd file i =
     (case file of
        None \<Rightarrow> Inr (False, i)
      | Some prv_bytes \<Rightarrow>
          if length prv_bytes > 0 then load_private_key lib rnd sig_rnd prv_bytes i else Inr (False, i))"

definition identity_encrypt :: "crypto_lib \<Rightarrow> bytes \<Rightarrow> bytes \<Rightarrow> identity \<Rightarrow> bytes \<Rightarrow> bytes result" where
  "identity_encrypt lib eph iv i plaintext =
     (if i_pub i = None then Inl Runtime_error
      else
        res_bind (X25519PrivateKey lib eph []) (\<lambda>ephemeral_key.
        res_bind (exchange lib ephemeral_key (i_pub_bytes i)) (\<lambda>shared_key.
        res_bind (hkdf lib DERIVED_KEY_LENGTH shared_key (i_hash i) []) (\<lambda>derived_key.
        res_bind (new_token derived_key MODE_AES) (\<lambda>t.
        res_bind (token_encrypt lib iv t plaintext) (\<lambda>ciphertext.
          Inr (publicKey ephemeral_key @ ciphertext)))))))"

definition identity_decrypt :: "crypto_lib \<Rightarrow> identity \<Rightarrow> bytes \<Rightarrow> bytes result" where
  "identity_decrypt lib i ciphertext_token =
     (case i_prv i of
        None \<Rightarrow> Inl Runtime_error
      | Some prv \<Rightarrow>
          if length ciphertext_token \<le> KEYSIZE div 8 div 2 then Inr []
          else
            try_catch
              (res_bind (exchange lib prv (left ciphertext_token (KEYSIZE div 8 div 2))) (\<lambda>shared_key.
               res_bind (hkdf lib DERIVED_KEY_LENGTH shared_key (i_hash i) []) (\<lambda>derived_key.
               res_bind (new_token derived_key MODE_AES) (\<lambda>t.
                 token_decrypt lib t (mid_end ciphertext_token (KEYSIZE div 8 div 2))))))
              (\<lambda>_. Inr []))"

definition identity_sign :: "crypto_lib \<Rightarrow> identity \<Rightarrow> bytes \<Rightarrow> bytes result" where
  "identity_sign lib i message =
     (case i_sig_prv i of None \<Rightarrow> Inl Runtime_error | Some kp \<Rightarrow> Inr (ed_sign lib kp message))"

definition identity_validate :: "crypto_lib \<Rightarrow> identity \<Rightarrow> bytes \<Rightarrow> bytes \<Rightarrow> bool result" where
  "identity_validate lib i signature message =
     (if i_pub i = None then Inl Runtime_error
      else
        (case i_sig_pub i of
           None \<Rightarrow> Inl Undefined_behaviour
         | Some pub \<Rightarrow> try_catch (ed_verify lib pub signature message) (\<lambda>_. Inr False)))"

text \<open>\<open>ProofDestination\<close> and \<open>prove\<close>: the packet that is handed to \<open>send\<close>.\<close>

definition proof_destination :: "crypto_lib \<Rightarrow> packet \<Rightarrow> dest_view result" where
  "proof_destination lib p =
     res_bind (get_hash lib p) (\<lambda>h.
       Inr \<lparr>dv_hash = left h (128 div 8), dv_type = SINGLE, dv_encrypt = Inr\<rparr>)"

definition identity_prove :: "crypto_lib \<Rightarrow> bool \<Rightarrow> identity \<Rightarrow> packet \<Rightarrow> dest_view option \<Rightarrow> packet result" where
  "identity_prove lib implicit i p destination =
     res_bind (identity_sign lib i (p_packet_hash p)) (\<lambda>signature.
       let proof_data = (if implicit then signature else p_packet_hash p @ signature)
       in
         res_bind (case destination of None \<Rightarrow> proof_destination lib p | Some d \<Rightarrow> Inr d) (\<lambda>d.
         res_bind (packet_to_destination (Some d) proof_data) (set_packet_type PROOF)))"

section \<open>Known destinations\<close>

record identity_entry =
  ie_timestamp :: real
  ie_packet_hash :: bytes
  ie_public_key :: bytes
  ie_app_data :: bytes

definition entry_bool :: "identity_entry \<Rightarrow> bool" where
  "entry_bool e \<longleftrightarrow> length (ie_public_key e) > 0"

definition known :: "('s, identity_entry) typed_store \<Rightarrow> 's \<Rightarrow> bytes \<Rightarrow> identity_entry option" where
  "known ops s k = (case ts_get ops s k of None \<Rightarrow> None | Some e \<Rightarrow> if entry_bool e then Some e else None)"

definition remember ::
  "('s, identity_entry) typed_store \<Rightarrow> real \<Rightarrow> bytes \<Rightarrow> bytes \<Rightarrow> bytes \<Rightarrow> bytes \<Rightarrow> 's \<Rightarrow> 's result" where
  "remember ops now packet_hash destination_hash public_key app_data s =
     (if length public_key \<noteq> KEYSIZE div 8 then Inl Invalid_argument
      else Inr (snd (ts_put ops s destination_hash
             \<lparr>ie_timestamp = now, ie_packet_hash = packet_hash, ie_public_key = public_key,
              ie_app_data = app_data\<rparr> 0)))"

text \<open>
  \<open>recall\<close>: the known destination, else the cached announce \<open>Transport\<close> finds, else the identity
  of a registered destination (\<open>Some None\<close>: the destination has none).
\<close>

definition recall ::
  "crypto_lib \<Rightarrow> ('s, identity_entry) typed_store \<Rightarrow> real \<Rightarrow> packet option \<Rightarrow> identity option option \<Rightarrow> bytes \<Rightarrow> 's \<Rightarrow>
     (identity option \<times> 's) result" where
  "recall lib ops now announce_packet registered destination_hash s =
     (case known ops s destination_hash of
        Some e \<Rightarrow>
          Inr (Some ((load_public_key lib (ie_public_key e) new_identity)\<lparr>i_app_data := ie_app_data e\<rparr>), s)
      | None \<Rightarrow>
          (case announce_packet of
             Some p \<Rightarrow>
               (let public_key = left (p_data p) (KEYSIZE div 8);
                    app_data = mid_end (p_data p) (KEYSIZE div 8 + NAME_HASH_LENGTH div 8 + RANDOM_HASH_LENGTH div 8 + SIGLENGTH div 8);
                    i = (load_public_key lib public_key new_identity)\<lparr>i_app_data := app_data\<rparr>
                in res_bind (get_hash lib p) (\<lambda>h.
                   res_bind (remember ops now h destination_hash public_key app_data s) (\<lambda>s'.
                     Inr (Some i, s'))))
           | None \<Rightarrow>
               (case registered of
                  None \<Rightarrow> Inr (None, s)
                | Some None \<Rightarrow> Inr (None, s)
                | Some (Some r) \<Rightarrow>
                    Inr (Some ((load_public_key lib (get_public_key r) new_identity)\<lparr>i_app_data := []\<rparr>), s))))"

definition recall_app_data :: "('s, identity_entry) typed_store \<Rightarrow> bytes \<Rightarrow> 's \<Rightarrow> bytes" where
  "recall_app_data ops destination_hash s =
     (case known ops s destination_hash of Some e \<Rightarrow> ie_app_data e | None \<Rightarrow> [])"

section \<open>Announces\<close>

text \<open>The fields \<open>validate_announce\<close> cuts out of the packet data, by the context flag.\<close>

record announce_fields =
  an_public_key :: bytes
  an_name_hash :: bytes
  an_random_hash :: bytes
  an_ratchet :: bytes
  an_signature :: bytes
  an_app_data :: bytes

definition announce_parts :: "packet \<Rightarrow> announce_fields" where
  "announce_parts p =
     (let d = p_data p; k = KEYSIZE div 8; n = NAME_HASH_LENGTH div 8; r = RANDOM_HASH_LENGTH div 8;
          t = RATCHETSIZE div 8; s = SIGLENGTH div 8
      in if p_context_flag p = FLAG_SET then
           \<lparr>an_public_key = left d k, an_name_hash = mid d k n, an_random_hash = mid d (k + n) r,
            an_ratchet = mid d (k + n + r) t, an_signature = mid d (k + n + r + t) s,
            an_app_data = (if length d > k + n + r + t + s then mid_end d (k + n + r + t + s) else [])\<rparr>
         else
           \<lparr>an_public_key = left d k, an_name_hash = mid d k n, an_random_hash = mid d (k + n) r,
            an_ratchet = [], an_signature = mid d (k + n + r) s,
            an_app_data = (if length d > k + n + r + s then mid_end d (k + n + r + s) else [])\<rparr>)"

definition announce_signed_data :: "packet \<Rightarrow> bytes" where
  "announce_signed_data p =
     (let a = announce_parts p
      in p_destination_hash p @ an_public_key a @ an_name_hash a @ an_random_hash a @ an_ratchet a
           @ an_app_data a)"

definition validate_announce ::
  "crypto_lib \<Rightarrow> ('s, identity_entry) typed_store \<Rightarrow> real \<Rightarrow> packet \<Rightarrow> bool \<Rightarrow> 's \<Rightarrow> (bool \<times> 's) result" where
  "validate_announce lib ops now p only_validate_signature s =
     (if p_packet_type p \<noteq> ANNOUNCE then Inr (False, s)
      else
        let a = announce_parts p;
            signed_data = announce_signed_data p;
            app_data = (if length (p_data p) \<le> KEYSIZE div 8 + NAME_HASH_LENGTH div 8 + RANDOM_HASH_LENGTH div 8 + SIGLENGTH div 8
                        then [] else an_app_data a);
            announced = load_public_key lib (an_public_key a) new_identity
        in try_catch
             (res_bind (if i_pub announced = None then Inr False
                        else identity_validate lib announced (an_signature a) signed_data) (\<lambda>valid.
                if \<not> valid then Inr (False, s)
                else if only_validate_signature then Inr (True, s)
                else
                  let expected_hash = left (full_hash lib (an_name_hash a @ i_hash announced)) (128 div 8)
                  in if p_destination_hash p \<noteq> expected_hash then Inr (False, s)
                     else
                       (case known ops s (p_destination_hash p) of
                          Some e \<Rightarrow> Inr (an_public_key a = ie_public_key e, s)
                        | None \<Rightarrow>
                            res_bind (get_hash lib p) (\<lambda>h.
                            res_bind (remember ops now h (p_destination_hash p) (an_public_key a) app_data s)
                              (\<lambda>s'. Inr (True, s'))))))
             (\<lambda>_. Inr (False, s)))"

text \<open>A sequence of received announces, with the clock at each.\<close>

fun validate_announces :: "crypto_lib \<Rightarrow> ('s, identity_entry) typed_store \<Rightarrow> (real \<times> packet) list \<Rightarrow> 's \<Rightarrow> 's result" where
  "validate_announces lib ops [] s = Inr s"
| "validate_announces lib ops ((now, p) # ps) s =
     res_bind (validate_announce lib ops now p False s) (\<lambda>(ok, s'). validate_announces lib ops ps s')"

text \<open>A destination address is certified by a public key when it is the hash of a name and of the key.\<close>

definition certified :: "crypto_lib \<Rightarrow> bytes \<Rightarrow> bytes \<Rightarrow> bool" where
  "certified lib addr pub \<longleftrightarrow>
     (\<exists>name. length name = 10 \<and> addr = truncated_hash lib (name @ truncated_hash lib pub))"

definition all_certified :: "crypto_lib \<Rightarrow> ('s, identity_entry) typed_store \<Rightarrow> 's \<Rightarrow> bool" where
  "all_certified lib ops s \<longleftrightarrow>
     (\<forall>addr e. known ops s addr = Some e \<longrightarrow> certified lib addr (ie_public_key e))"

section \<open>Lemmas\<close>

lemma load_private_key_eq:
  assumes "crypto_ok lib" and "length k = 64"
  shows "load_private_key lib r1 r2 k i = Inr (True, update_hashes lib
     (i\<lparr>i_prv := Some \<lparr>privateKey = take 32 k, publicKey = fst (x25519_eval lib (take 32 k) None)\<rparr>,
        i_prv_bytes := take 32 k,
        i_sig_prv := Some \<lparr>privateKey = drop 32 k, publicKey = ed25519_derive lib (drop 32 k)\<rparr>,
        i_sig_prv_bytes := drop 32 k,
        i_pub := Some (fst (x25519_eval lib (take 32 k) None)),
        i_pub_bytes := fst (x25519_eval lib (take 32 k) None),
        i_sig_pub := Some (ed25519_derive lib (drop 32 k)),
        i_sig_pub_bytes := ed25519_derive lib (drop 32 k)\<rparr>))"
  using assms
  by (auto simp: load_private_key_def X25519PrivateKey_def Ed25519PrivateKey_def Let_def bytes_simps)

lemma update_hashes_fields [simp]:
  "i_prv (update_hashes lib i) = i_prv i" "i_prv_bytes (update_hashes lib i) = i_prv_bytes i"
  "i_sig_prv (update_hashes lib i) = i_sig_prv i" "i_sig_prv_bytes (update_hashes lib i) = i_sig_prv_bytes i"
  "i_pub (update_hashes lib i) = i_pub i" "i_pub_bytes (update_hashes lib i) = i_pub_bytes i"
  "i_sig_pub (update_hashes lib i) = i_sig_pub i" "i_sig_pub_bytes (update_hashes lib i) = i_sig_pub_bytes i"
  "i_app_data (update_hashes lib i) = i_app_data i"
  "i_hash (update_hashes lib i) = truncated_hash lib (get_public_key i)"
  by (simp_all add: update_hashes_def Let_def)

lemma load_public_key_fields [simp]:
  "i_pub (load_public_key lib k i) = Some (take 32 k)" "i_pub_bytes (load_public_key lib k i) = take 32 k"
  "i_sig_pub (load_public_key lib k i) = Some (drop 32 k)"
  "i_sig_pub_bytes (load_public_key lib k i) = drop 32 k"
  "i_hash (load_public_key lib k i) = truncated_hash lib k"
  by (simp_all add: load_public_key_def Let_def bytes_simps get_public_key_def)

lemma length_truncated_hash: "crypto_ok lib \<Longrightarrow> length (truncated_hash lib d) = 16"
  by (simp add: truncated_hash_def full_hash_def sha256_def bytes_simps crypto_okD)

lemma new_token_64:
  assumes "length k = 64"
  shows "new_token k MODE_AES =
    Inr \<lparr>tok_mode = MODE_AES_256_CBC, signing_key = take 32 k, encryption_key = drop 32 k\<rparr>"
  using assms by (auto simp: new_token_def bytes_simps)

lemma hkdf_eq:
  "n > 0 \<Longrightarrow> k \<noteq> [] \<Longrightarrow> hkdf lib n k s c = Inr (lib_hkdf lib n k (if s = [] then None else Some s))"
  by (simp add: hkdf_def)

text \<open>The two ends derive the same token from the exchange.\<close>

lemma identity_token_roundtrip:
  assumes lib: "crypto_ok lib"
    and me: "i_prv me = Some \<lparr>privateKey = sk, publicKey = fst (x25519_eval lib sk None)\<rparr>" "length sk = 32"
    and peer: "i_pub peer = Some (fst (x25519_eval lib sk None))"
      "i_pub_bytes peer = fst (x25519_eval lib sk None)" "i_hash peer = i_hash me"
    and eph: "length eph = 32" "snd (x25519_eval lib eph (Some (fst (x25519_eval lib sk None))))"
    and iv: "length iv = 16"
  shows "\<exists>ct. identity_encrypt lib eph iv peer pt = Inr ct \<and> identity_decrypt lib me ct = Inr pt \<and>
           length ct = 32 + (16 * (length pt div 16 + 1) + 48)"
proof -
  let ?epub = "fst (x25519_eval lib eph None)" and ?pub = "fst (x25519_eval lib sk None)"
  let ?shared = "fst (x25519_eval lib eph (Some ?pub))"
  have sh32: "length ?shared = 32" by (simp add: crypto_okD lib)
  then have shared: "?shared \<noteq> []" by (metis length_0_conv zero_neq_numeral)
  have plen: "length ?pub = 32" and elen: "length ?epub = 32" by (simp_all add: crypto_okD lib)
  have swap: "x25519_eval lib sk (Some ?epub) = x25519_eval lib eph (Some ?pub)"
    by (rule crypto_okD(7)[OF lib])
  obtain dk where dk: "hkdf lib 64 ?shared (i_hash me) [] = Inr dk" "length dk = 64"
    using shared by (simp add: hkdf_eq crypto_okD lib)
  obtain t where t: "new_token dk MODE_AES = Inr t" using new_token_64 [OF dk(2)] by blast
  obtain tok where tok: "token_encrypt lib iv t pt = Inr tok" "token_decrypt lib t tok = Inr pt"
      "length tok = 16 * (length pt div 16 + 1) + 48"
    using token_encrypt_decrypt [OF lib iv t] by blast
  have ex: "exchange lib \<lparr>privateKey = eph, publicKey = ?epub\<rparr> ?pub = Inr ?shared"
    using eph plen by (simp add: exchange_def Let_def split_beta)
  have ex': "exchange lib \<lparr>privateKey = sk, publicKey = ?pub\<rparr> ?epub = Inr ?shared"
    using eph elen me(2) by (simp add: exchange_def Let_def split_beta swap)
  have "identity_encrypt lib eph iv peer pt = Inr (?epub @ tok)"
    using eph dk t tok(1) ex peer by (simp add: identity_encrypt_def X25519PrivateKey_def Let_def)
  moreover have "identity_decrypt lib me (?epub @ tok) = Inr pt"
    using dk t tok ex' elen me by (simp add: identity_decrypt_def bytes_simps)
  ultimately show ?thesis using tok(3) elen by fastforce
qed

subsection \<open>Announces\<close>

definition announce_min :: "packet \<Rightarrow> nat" where
  "announce_min p = (if p_context_flag p = FLAG_SET then 180 else 148)"

definition announce_signature_valid :: "crypto_lib \<Rightarrow> packet \<Rightarrow> bool" where
  "announce_signature_valid lib p =
     (let a = announce_parts p
      in ed25519_verify lib (an_signature a) (drop 32 (an_public_key a)) (announce_signed_data p))"

definition announce_address :: "crypto_lib \<Rightarrow> packet \<Rightarrow> bytes" where
  "announce_address lib p =
     (let a = announce_parts p
      in truncated_hash lib (an_name_hash a @ truncated_hash lib (an_public_key a)))"

lemma announce_parts_lengths:
  assumes "announce_min p \<le> length (p_data p)"
  shows "length (an_public_key (announce_parts p)) = 64" "length (an_name_hash (announce_parts p)) = 10"
    "length (an_signature (announce_parts p)) = 64"
  using assms by (auto simp: announce_parts_def announce_min_def Let_def bytes_simps split: if_splits)

lemma identity_validate_loaded:
  assumes "length k = 64" and "length sig = 64"
  shows "identity_validate lib (load_public_key lib k i) sig msg = Inr (ed25519_verify lib sig (drop 32 k) msg)"
  using assms by (simp add: identity_validate_def ed_verify_def)

lemma validate_announce_eq:
  assumes "p_packet_type p = ANNOUNCE" and "announce_min p \<le> length (p_data p)" and "get_hash lib p = Inr h"
  shows "validate_announce lib ops now p only s =
    (let pub = an_public_key (announce_parts p) in
     if \<not> announce_signature_valid lib p then Inr (False, s)
     else if only then Inr (True, s)
     else if p_destination_hash p \<noteq> announce_address lib p then Inr (False, s)
     else (case known ops s (p_destination_hash p) of
             Some e \<Rightarrow> Inr (pub = ie_public_key e, s)
           | None \<Rightarrow> Inr (True, snd (ts_put ops s (p_destination_hash p)
               \<lparr>ie_timestamp = now, ie_packet_hash = h, ie_public_key = pub,
                ie_app_data = (if length (p_data p) \<le> 148 then [] else an_app_data (announce_parts p))\<rparr> 0))))"
  using assms(1,3) announce_parts_lengths [OF assms(2)]
  by (simp add: validate_announce_def Let_def identity_validate_loaded announce_signature_valid_def
      announce_address_def remember_def truncated_hash_def bytes_simps split: option.split)

text \<open>Whatever the packet, a step of the store is no step or one \<open>put\<close> of a certified key.\<close>

lemma validate_announce_store:
  assumes "validate_announce lib ops now p only s = Inr (ok, s')"
  shows "s' = s \<or> (\<exists>e. ok \<and> known ops s (p_destination_hash p) = None \<and>
      certified lib (p_destination_hash p) (ie_public_key e) \<and> s' = snd (ts_put ops s (p_destination_hash p) e 0))"
proof (cases "s' = s")
  case False
  let ?a = "announce_parts p"
  from assms False have eqs:
    "p_destination_hash p = truncated_hash lib (an_name_hash ?a @ truncated_hash lib (an_public_key ?a))"
    "known ops s (p_destination_hash p) = None" ok "length (an_public_key ?a) = 64"
    and ex: "\<exists>n h d. s' = snd (ts_put ops s (p_destination_hash p)
        \<lparr>ie_timestamp = n, ie_packet_hash = h, ie_public_key = an_public_key ?a, ie_app_data = d\<rparr> 0)"
    by (auto simp: validate_announce_def Let_def try_catch_def res_bind_def remember_def truncated_hash_def
        bytes_simps split: if_splits sum.splits option.splits)
  have "length (an_name_hash ?a) = 10"
  proof -
    have "ed_verify lib (drop 32 (an_public_key ?a)) (an_signature ?a) (announce_signed_data p) \<noteq> Inl Undefined_behaviour"
      using assms False
      by (auto simp: validate_announce_def Let_def try_catch_def res_bind_def identity_validate_def
          split: if_splits sum.splits option.splits)
    then have "length (an_signature ?a) \<ge> 64" by (auto simp: ed_verify_def split: if_splits)
    then show ?thesis by (auto simp: announce_parts_def Let_def bytes_simps split: if_splits)
  qed
  with eqs(1) have "certified lib (p_destination_hash p) (an_public_key ?a)"
    unfolding certified_def by blast
  moreover obtain n h d where "s' = snd (ts_put ops s (p_destination_hash p)
      \<lparr>ie_timestamp = n, ie_packet_hash = h, ie_public_key = an_public_key ?a, ie_app_data = d\<rparr> 0)"
    using ex by blast
  ultimately show ?thesis
    using eqs(2,3)
    by (intro disjI2 exI [of _ "\<lparr>ie_timestamp = n, ie_packet_hash = h,
          ie_public_key = an_public_key ?a, ie_app_data = d\<rparr>"]) simp
qed simp

lemma all_certified_put:
  assumes "store_ok ops" and "all_certified lib ops s" and "certified lib addr (ie_public_key e)"
  shows "all_certified lib ops (snd (ts_put ops s addr e 0))"
proof -
  obtain b s' where put: "ts_put ops s addr e 0 = (b, s')" by fastforce
  have get: "ts_get ops s' a = None \<or> ts_get ops s' a = ts_get ops s a \<or> (a = addr \<and> ts_get ops s' a = Some e)" for a
    using store_ok_put [OF assms(1) put] by blast
  have "certified lib a (ie_public_key x)" if x: "known ops s' a = Some x" for a x
  proof (cases "ts_get ops s' a = ts_get ops s a")
    case True
    with x have "known ops s a = Some x" by (simp add: known_def)
    with assms(2) show ?thesis by (simp add: all_certified_def)
  next
    case False
    with get [of a] x assms(3) show ?thesis by (auto simp: known_def split: if_splits)
  qed
  then show ?thesis by (simp add: all_certified_def put)
qed

lemma validate_announces_certified:
  "store_ok ops \<Longrightarrow> all_certified lib ops s \<Longrightarrow> validate_announces lib ops ps s = Inr s' \<Longrightarrow>
     all_certified lib ops s'"
proof (induction lib ops ps s rule: validate_announces.induct)
  case (2 lib ops now p ps s)
  then obtain ok s1 where s1: "validate_announce lib ops now p False s = Inr (ok, s1)"
      "validate_announces lib ops ps s1 = Inr s'"
    by (auto simp: res_bind_eq_Inr)
  have "all_certified lib ops s1"
    using validate_announce_store [OF s1(1)] all_certified_put [OF 2(2,3)] 2(3) by blast
  with 2(1,2) s1 show ?case by blast
qed simp

lemma loaded_identity:
  assumes "crypto_ok lib" and "length k = 64" and "load_private_key lib r1 r2 k new_identity = Inr (True, me)"
  shows "length (get_public_key me) = 64" and "i_hash me = truncated_hash lib (get_public_key me)"
    and "identity_sign lib me m = Inr sg \<Longrightarrow> length sg = 64 \<and> ed25519_verify lib sg (drop 32 (get_public_key me)) m"
    and "\<exists>sg. identity_sign lib me m = Inr sg"
  using assms(3) crypto_okD(8-10) [OF assms(1)] crypto_okD(6) [OF assms(1)] assms(2)
  by (auto simp: load_private_key_eq [OF assms(1,2)] get_public_key_def identity_sign_def ed_sign_def)

lemma identity_peer_roundtrip:
  assumes "crypto_ok lib" and "length k = 64"
    and "load_private_key lib r1 r2 k new_identity = Inr (True, me)"
    and "length eph = 32" and "length iv = 16"
    and "snd (x25519_eval lib eph (Some (i_pub_bytes me)))"
  shows "\<exists>ct. identity_encrypt lib eph iv (load_public_key lib (get_public_key me) new_identity) pt = Inr ct
           \<and> identity_decrypt lib me ct = Inr pt
           \<and> (length ct \<le> MDU \<longleftrightarrow> length pt \<le> ENCRYPTED_MDU)"
proof -
  let ?pub = "fst (x25519_eval lib (take 32 k) None)"
  let ?peer = "load_public_key lib (get_public_key me) new_identity"
  have me: "i_prv me = Some \<lparr>privateKey = take 32 k, publicKey = ?pub\<rparr>" "i_pub_bytes me = ?pub"
      "i_hash me = truncated_hash lib (get_public_key me)"
    using assms(3) by (auto simp: load_private_key_eq [OF assms(1,2)] get_public_key_def)
  have "length ?pub = 32" by (simp add: crypto_okD assms(1))
  then have peer: "i_pub ?peer = Some ?pub" "i_pub_bytes ?peer = ?pub" "i_hash ?peer = i_hash me"
    using me by (simp_all add: get_public_key_def)
  have valid: "snd (x25519_eval lib eph (Some ?pub))" using assms(6) me(2) by simp
  obtain ct where ct: "identity_encrypt lib eph iv ?peer pt = Inr ct" "identity_decrypt lib me ct = Inr pt"
      "length ct = 32 + (16 * (length pt div 16 + 1) + 48)"
    using identity_token_roundtrip [OF assms(1) me(1) _ peer assms(4) valid assms(5)] assms(2) by auto
  have "length ct \<le> MDU \<longleftrightarrow> length pt \<le> ENCRYPTED_MDU"
    unfolding ct(3) by (simp add: wire_sizes) linarith
  with ct show ?thesis by blast
qed

section \<open>Properties\<close>

text \<open>
  C9. What is encrypted for an identity, by somebody who holds its public key only, is decrypted
  by the holder of the private key to the same plaintext, and the ciphertext fits the data field
  of a packet exactly when the plaintext is no longer than \<open>ENCRYPTED_MDU\<close> (383 octets).
\<close>

theorem identity_roundtrip:
  assumes "crypto_ok lib" and "length k = 64"
    and "load_private_key lib r1 r2 k new_identity = Inr (True, me)"
    and "length eph = 32" and "length iv = 16"
    and "snd (x25519_eval lib eph (Some (i_pub_bytes me)))"
  shows "\<exists>ct. identity_encrypt lib eph iv (load_public_key lib (get_public_key me) new_identity) pt = Inr ct
           \<and> identity_decrypt lib me ct = Inr pt
           \<and> (length ct \<le> MDU \<longleftrightarrow> length pt \<le> ENCRYPTED_MDU)"
  using assms by (rule identity_peer_roundtrip)

theorem identity_roundtrip_witness:
  "\<exists>me ct. load_private_key demo_lib [] [] (replicate 64 7) new_identity = Inr (True, me)
     \<and> identity_encrypt demo_lib (replicate 32 9) (replicate 16 3)
         (load_public_key demo_lib (get_public_key me) new_identity) [1, 2, 3] = Inr ct
     \<and> identity_decrypt demo_lib me ct = Inr [1, 2, 3]"
proof -
  obtain me where me: "load_private_key demo_lib [] [] (replicate 64 7) new_identity = Inr (True, me)"
    using load_private_key_eq [OF demo_lib_ok, of "replicate 64 7" "[]" "[]" new_identity] by simp
  have "snd (x25519_eval demo_lib (replicate 32 9) (Some (i_pub_bytes me)))" by (simp add: demo_lib_def)
  with identity_roundtrip [OF demo_lib_ok _ me, of "replicate 32 9" "replicate 16 3" "[1, 2, 3]"] me
  show ?thesis by auto
qed

text \<open>
  A complete announce is accepted exactly when its signature verifies under the announced
  key over the address, key, name, random part, ratchet and application data, the address is
  the hash of the name and of the key, and no other key is known for that address; a rejected
  announce leaves the known destinations alone.
\<close>

lemma announce_accepted_iff:
  assumes "p_packet_type p = ANNOUNCE" and "announce_min p \<le> length (p_data p)" and "p_raw p \<noteq> []"
  shows "\<exists>ok s'. validate_announce lib ops now p False s = Inr (ok, s')
    \<and> (ok \<longleftrightarrow> announce_signature_valid lib p \<and> p_destination_hash p = announce_address lib p
          \<and> (\<forall>e. known ops s (p_destination_hash p) = Some e \<longrightarrow> ie_public_key e = an_public_key (announce_parts p)))
    \<and> (\<not> ok \<longrightarrow> s' = s)"
proof -
  obtain h where "get_hash lib p = Inr h"
    using assms(3) by (auto simp: get_hash_def get_hashable_part_def Let_def)
  note eq = validate_announce_eq [OF assms(1,2) this, of ops now False s]
  show ?thesis
    by (cases "announce_signature_valid lib p"; cases "p_destination_hash p = announce_address lib p";
        cases "known ops s (p_destination_hash p)") (auto simp: eq Let_def)
qed

text \<open>
  C20. Addresses are self-certifying: after any sequence of announces, valid, forged or malformed,
  every public key in the store of known destinations hashes, together with a name hash, to the
  address it is stored under.
\<close>

theorem known_destinations_certified:
  assumes "store_ok ops" and "all_certified lib ops s" and "validate_announces lib ops ps s = Inr s'"
  shows "all_certified lib ops s'"
  using assms by (rule validate_announces_certified)

theorem known_destinations_certified_witness:
  "\<exists>s'. validate_announces demo_lib map_store
      [(0, new_object\<lparr>p_packet_type := ANNOUNCE, p_data := replicate 148 0, p_raw := [0]\<rparr>)] Map.empty = Inr s'
     \<and> all_certified demo_lib map_store s'"
proof -
  let ?p = "new_object\<lparr>p_packet_type := ANNOUNCE, p_data := replicate 148 0, p_raw := [0]\<rparr>"
  have hash: "get_hash demo_lib ?p = Inr (full_hash demo_lib [0])"
    by (simp add: get_hash_def get_hashable_part_def new_object_def bytes_simps)
  have "\<exists>ok s'. validate_announce demo_lib map_store 0 ?p False Map.empty = Inr (ok, s')"
    by (subst validate_announce_eq [OF _ _ hash])
      (auto simp: announce_min_def new_object_def Let_def known_def map_store_def)
  then obtain s' where "validate_announces demo_lib map_store [(0, ?p)] Map.empty = Inr s'"
    by auto
  moreover have "all_certified demo_lib map_store Map.empty"
    by (simp add: all_certified_def known_def map_store_def)
  ultimately show ?thesis using known_destinations_certified [OF map_store_ok] by blast
qed

end
