(* ===== verification/Path_Store.thy ===== *)
theory Path_Store
  imports Identity
begin

text \<open>
  Interfaces and the path table (\<open>Interface.h\<close>, \<open>Persistence/DestinationEntry.h\<close>,
  \<open>Persistence/DestinationEntry.cpp\<close> and the path queries of \<open>Transport.cpp\<close>): path entries, the
  codec between an entry and its stored form, the queries, path states, the emission time of an
  announce and the blackhole list.

  An interface object is named by a number; its settings are the record \<open>iface\<close>.  The path table is
  a \<open>typed_store\<close> of encoded entries: what \<open>get\<close> returns has been through \<open>encode\<close> and \<open>decode\<close>.
  The \<open>MsgPack\<close> array the codec writes is the record \<open>stored_path\<close> of its seven elements; an entry
  that is not valid is stored as an empty buffer, \<open>None\<close>.
\<close>

section \<open>Interfaces\<close>

datatype iface_mode =
    MODE_NONE | MODE_FULL | MODE_POINT_TO_POINT | MODE_ACCESS_POINT | MODE_ROAMING | MODE_BOUNDARY | MODE_GATEWAY

record queued_announce =
  aq_destination :: bytes
  aq_time :: real
  aq_hops :: byte
  aq_emitted :: nat
  aq_raw :: bytes

record iface =
  if_hash :: bytes
  if_OUT :: bool
  if_ifac_identity :: bytes
  if_mode :: iface_mode
  if_bitrate :: nat
  if_HW_MTU :: nat
  if_AUTOCONFIGURE_MTU :: bool
  if_FIXED_MTU :: bool
  if_announce_allowed_at :: real
  if_announce_cap :: real
  if_announce_rate_target :: real
  if_announce_rate_grace :: nat
  if_announce_rate_penalty :: real
  if_announce_queue :: "queued_announce list"
  if_local_client :: bool
  if_to_shared_instance :: bool

text \<open>
  The interfaces of a node: the registered ones in order, and the settings of every interface
  object.  \<open>if_local_client\<close> and \<open>if_to_shared_instance\<close> are the answers of
  \<open>is_local_client_interface\<close> and \<open>interface_to_shared_instance\<close>.
\<close>

record interfaces =
  if_ids :: "nat list"
  if_of :: "nat \<Rightarrow> iface"

definition find_interface_from_hash :: "interfaces \<Rightarrow> bytes \<Rightarrow> nat option" where
  "find_interface_from_hash ifs h = find (\<lambda>i. if_hash (if_of ifs i) = h) (if_ids ifs)"

definition register_interface :: "nat \<Rightarrow> interfaces \<Rightarrow> interfaces" where
  "register_interface i ifs =
     (if find_interface_from_hash ifs (if_hash (if_of ifs i)) = None then ifs\<lparr>if_ids := if_ids ifs @ [i]\<rparr> else ifs)"

definition deregister_interface :: "nat \<Rightarrow> interfaces \<Rightarrow> interfaces" where
  "deregister_interface i ifs =
     ifs\<lparr>if_ids := filter (\<lambda>j. if_hash (if_of ifs j) \<noteq> if_hash (if_of ifs i)) (if_ids ifs)\<rparr>"

section \<open>Path entries and their codec\<close>

abbreviation PATHFINDER_M :: nat where "PATHFINDER_M \<equiv> 128"
abbreviation MAX_RANDOM_BLOBS :: nat where "MAX_RANDOM_BLOBS \<equiv> 32"
abbreviation PERSIST_RANDOM_BLOBS :: nat where "PERSIST_RANDOM_BLOBS \<equiv> 16"

record path_entry =
  pe_timestamp :: real
  pe_received_from :: bytes
  pe_hops :: byte
  pe_expires :: real
  pe_random_blobs :: "bytes list"
  pe_receiving_interface :: "nat option"
  pe_announce_packet :: "packet option"

definition path_valid :: "path_entry \<Rightarrow> bool" where
  "path_valid e \<longleftrightarrow> pe_receiving_interface e \<noteq> None \<and> pe_announce_packet e \<noteq> None"

record stored_path =
  sp_timestamp :: real
  sp_hops :: byte
  sp_expires :: real
  sp_received_from :: bytes
  sp_random_blobs :: "bytes list"
  sp_interface_hash :: bytes
  sp_raw :: bytes

definition newest :: "nat \<Rightarrow> 'a list \<Rightarrow> 'a list" where
  "newest n xs = drop (length xs - n) xs"

definition path_encode :: "interfaces \<Rightarrow> path_entry \<Rightarrow> stored_path option" where
  "path_encode ifs e =
     (case (pe_receiving_interface e, pe_announce_packet e) of
        (Some i, Some p) \<Rightarrow>
          Some \<lparr>sp_timestamp = pe_timestamp e, sp_hops = pe_hops e, sp_expires = pe_expires e,
            sp_received_from = pe_received_from e,
            sp_random_blobs = newest PERSIST_RANDOM_BLOBS (pe_random_blobs e),
            sp_interface_hash = if_hash (if_of ifs i), sp_raw = p_raw p\<rparr>
      | _ \<Rightarrow> None)"

text \<open>A packet read back from the store is unpacked, and its hop count raised as on reception.\<close>

definition rehydrate :: "crypto_lib \<Rightarrow> bytes \<Rightarrow> packet option" where
  "rehydrate lib raw =
     (if raw = [] then None
      else
        (case unpack lib (packet_from_raw raw) of
           (True, p) \<Rightarrow> Some (p\<lparr>p_hops := p_hops p + 1\<rparr>)
         | (False, p) \<Rightarrow> Some p))"

definition path_decode :: "crypto_lib \<Rightarrow> interfaces \<Rightarrow> stored_path option \<Rightarrow> path_entry option" where
  "path_decode lib ifs sp =
     (case sp of
        None \<Rightarrow> None
      | Some d \<Rightarrow>
          Some \<lparr>pe_timestamp = sp_timestamp d, pe_received_from = sp_received_from d, pe_hops = sp_hops d,
            pe_expires = sp_expires d, pe_random_blobs = sp_random_blobs d,
            pe_receiving_interface = find_interface_from_hash ifs (sp_interface_hash d),
            pe_announce_packet = rehydrate lib (sp_raw d)\<rparr>)"

type_synonym 's path_store = "('s, stored_path option) typed_store"

text \<open>\<open>get_entry\<close> is \<open>TypedStore::get\<close>, \<open>find_path\<close> the entry the code goes on with: present and valid.\<close>

definition get_entry :: "crypto_lib \<Rightarrow> 's path_store \<Rightarrow> interfaces \<Rightarrow> 's \<Rightarrow> bytes \<Rightarrow> path_entry option" where
  "get_entry lib ops ifs s h = (case ts_get ops s h of None \<Rightarrow> None | Some sp \<Rightarrow> path_decode lib ifs sp)"

definition find_path :: "crypto_lib \<Rightarrow> 's path_store \<Rightarrow> interfaces \<Rightarrow> 's \<Rightarrow> bytes \<Rightarrow> path_entry option" where
  "find_path lib ops ifs s h =
     (case get_entry lib ops ifs s h of Some e \<Rightarrow> if path_valid e then Some e else None | None \<Rightarrow> None)"

definition path_put :: "'s path_store \<Rightarrow> interfaces \<Rightarrow> bytes \<Rightarrow> path_entry \<Rightarrow> nat \<Rightarrow> 's \<Rightarrow> bool \<times> 's" where
  "path_put ops ifs h e ttl s = ts_put ops s h (path_encode ifs e) ttl"

section \<open>Queries\<close>

definition has_path :: "'s path_store \<Rightarrow> 's \<Rightarrow> bytes \<Rightarrow> bool" where
  "has_path ops s h \<longleftrightarrow> ts_get ops s h \<noteq> None"

definition hops_to :: "crypto_lib \<Rightarrow> 's path_store \<Rightarrow> interfaces \<Rightarrow> 's \<Rightarrow> bytes \<Rightarrow> byte" where
  "hops_to lib ops ifs s h =
     (case find_path lib ops ifs s h of Some e \<Rightarrow> pe_hops e | None \<Rightarrow> word_of_nat PATHFINDER_M)"

definition next_hop :: "crypto_lib \<Rightarrow> 's path_store \<Rightarrow> interfaces \<Rightarrow> 's \<Rightarrow> bytes \<Rightarrow> bytes" where
  "next_hop lib ops ifs s h =
     (case find_path lib ops ifs s h of Some e \<Rightarrow> pe_received_from e | None \<Rightarrow> [])"

definition next_hop_interface :: "crypto_lib \<Rightarrow> 's path_store \<Rightarrow> interfaces \<Rightarrow> 's \<Rightarrow> bytes \<Rightarrow> nat option" where
  "next_hop_interface lib ops ifs s h =
     (case find_path lib ops ifs s h of Some e \<Rightarrow> pe_receiving_interface e | None \<Rightarrow> None)"

definition next_hop_interface_bitrate :: "crypto_lib \<Rightarrow> 's path_store \<Rightarrow> interfaces \<Rightarrow> 's \<Rightarrow> bytes \<Rightarrow> nat" where
  "next_hop_interface_bitrate lib ops ifs s h =
     (case next_hop_interface lib ops ifs s h of Some i \<Rightarrow> if_bitrate (if_of ifs i) | None \<Rightarrow> 0)"

definition next_hop_interface_hw_mtu :: "crypto_lib \<Rightarrow> 's path_store \<Rightarrow> interfaces \<Rightarrow> 's \<Rightarrow> bytes \<Rightarrow> nat" where
  "next_hop_interface_hw_mtu lib ops ifs s h =
     (case next_hop_interface lib ops ifs s h of
        Some i \<Rightarrow>
          if if_AUTOCONFIGURE_MTU (if_of ifs i) \<or> if_FIXED_MTU (if_of ifs i) then if_HW_MTU (if_of ifs i) else 0
      | None \<Rightarrow> 0)"

definition next_hop_per_bit_latency :: "crypto_lib \<Rightarrow> 's path_store \<Rightarrow> interfaces \<Rightarrow> 's \<Rightarrow> bytes \<Rightarrow> real" where
  "next_hop_per_bit_latency lib ops ifs s h =
     (let b = next_hop_interface_bitrate lib ops ifs s h in if b > 0 then 1 / real b else 0)"

definition next_hop_per_byte_latency :: "crypto_lib \<Rightarrow> 's path_store \<Rightarrow> interfaces \<Rightarrow> 's \<Rightarrow> bytes \<Rightarrow> real" where
  "next_hop_per_byte_latency lib ops ifs s h =
     (let l = next_hop_per_bit_latency lib ops ifs s h in if l > 0 then l * 8 else 0)"

abbreviation DEFAULT_PER_HOP_TIMEOUT :: real where "DEFAULT_PER_HOP_TIMEOUT \<equiv> 6"

definition first_hop_timeout :: "crypto_lib \<Rightarrow> 's path_store \<Rightarrow> interfaces \<Rightarrow> 's \<Rightarrow> bytes \<Rightarrow> real" where
  "first_hop_timeout lib ops ifs s h =
     (let l = next_hop_per_byte_latency lib ops ifs s h
      in if l > 0 then real MTU * l + DEFAULT_PER_HOP_TIMEOUT else DEFAULT_PER_HOP_TIMEOUT)"

definition expire_path :: "'s path_store \<Rightarrow> bytes \<Rightarrow> 's \<Rightarrow> bool \<times> 's" where
  "expire_path ops h s = ts_remove ops s h"

subsection \<open>Path states\<close>

datatype path_state = STATE_UNKNOWN | STATE_UNRESPONSIVE | STATE_RESPONSIVE

type_synonym path_states = "bytes \<Rightarrow> path_state option"

definition mark_path ::
  "path_state \<Rightarrow> crypto_lib \<Rightarrow> 's path_store \<Rightarrow> interfaces \<Rightarrow> 's \<Rightarrow> bytes \<Rightarrow> path_states \<Rightarrow> bool \<times> path_states" where
  "mark_path st lib ops ifs s h states =
     (if find_path lib ops ifs s h \<noteq> None then (True, states(h \<mapsto> st)) else (False, states))"

definition path_is_unresponsive :: "path_states \<Rightarrow> bytes \<Rightarrow> bool" where
  "path_is_unresponsive states h \<longleftrightarrow> states h = Some STATE_UNRESPONSIVE"

subsection \<open>Emission times\<close>

definition from_bytes_big_endian :: "bytes \<Rightarrow> nat" where
  "from_bytes_big_endian bs = foldl (\<lambda>r b. (r * 256 + unat b) mod 2 ^ 64) 0 bs"

text \<open>Five octets at offset 5; reading them from a shorter buffer is undefined.\<close>

definition emitted_at :: "bytes \<Rightarrow> nat result" where
  "emitted_at blob =
     (if length blob < 10 then Inl Undefined_behaviour else Inr (from_bytes_big_endian (take 5 (drop 5 blob))))"

definition announce_emitted :: "packet \<Rightarrow> nat result" where
  "announce_emitted p =
     (let random_blob = mid (p_data p) (KEYSIZE div 8 + NAME_HASH_LENGTH div 8) 10
      in if random_blob \<noteq> [] then emitted_at random_blob else Inr 0)"

definition timebase_from_random_blob :: "bytes \<Rightarrow> nat" where
  "timebase_from_random_blob blob =
     (if length blob < 10 then 0 else from_bytes_big_endian (take 5 (drop 5 blob)))"

definition timebase_from_random_blobs :: "bytes list \<Rightarrow> nat" where
  "timebase_from_random_blobs blobs =
     foldl (\<lambda>timebase blob. let emitted = timebase_from_random_blob blob in if emitted > timebase then emitted else timebase)
       0 blobs"

section \<open>Blackholed identities\<close>

record blackhole_entry =
  bh_source :: bytes
  bh_until :: real
  bh_reason :: string

type_synonym blackholes = "bytes \<Rightarrow> blackhole_entry option"

definition is_blackholed :: "blackholes \<Rightarrow> bytes \<Rightarrow> bool" where
  "is_blackholed bh h \<longleftrightarrow> bh h \<noteq> None"

definition find_announce_packet_from_hash ::
  "crypto_lib \<Rightarrow> 's path_store \<Rightarrow> interfaces \<Rightarrow> 's \<Rightarrow> bytes \<Rightarrow> packet option" where
  "find_announce_packet_from_hash lib ops ifs s h =
     (case get_entry lib ops ifs s h of Some e \<Rightarrow> pe_announce_packet e | None \<Rightarrow> None)"

text \<open>
  The loop over the path table (\<open>keys\<close> are the keys the store enumerates): \<open>recall\<close> may add to the
  known destinations.  An exception of \<open>recall\<close> ends the enumeration; what was collected is removed.
\<close>

fun blackholed_paths ::
  "(bytes \<Rightarrow> 'k \<Rightarrow> (identity option \<times> 'k) result) \<Rightarrow> blackholes \<Rightarrow> bytes list \<Rightarrow> 'k \<Rightarrow> (bytes list \<times> 'k) result" where
  "blackholed_paths rec bh [] ks = Inr ([], ks)"
| "blackholed_paths rec bh (h # hs) ks =
     (case rec h ks of
        Inl e \<Rightarrow> if e = Undefined_behaviour then Inl e else Inr ([], ks)
      | Inr (i, ks') \<Rightarrow>
          res_bind (blackholed_paths rec bh hs ks') (\<lambda>(drop, ks'').
            Inr ((case i of Some j \<Rightarrow> if is_blackholed bh (i_hash j) then h # drop else drop | None \<Rightarrow> drop), ks'')))"

definition remove_blackholed_paths ::
  "(bytes \<Rightarrow> 'k \<Rightarrow> (identity option \<times> 'k) result) \<Rightarrow> 's path_store \<Rightarrow> bytes list \<Rightarrow> blackholes \<Rightarrow> 's \<Rightarrow> 'k \<Rightarrow> ('s \<times> 'k) result" where
  "remove_blackholed_paths rec ops keys bh s ks =
     (if bh = Map.empty then Inr (s, ks)
      else
        res_bind (blackholed_paths rec bh keys ks) (\<lambda>(drop, ks').
          Inr (foldl (\<lambda>s h. snd (ts_remove ops s h)) s drop, ks')))"

definition blackhole_identity ::
  "(bytes \<Rightarrow> 'k \<Rightarrow> (identity option \<times> 'k) result) \<Rightarrow> 's path_store \<Rightarrow> bytes list \<Rightarrow> bytes \<Rightarrow> bytes \<Rightarrow> real \<Rightarrow> string \<Rightarrow>
     blackholes \<Rightarrow> 's \<Rightarrow> 'k \<Rightarrow> (bool \<times> blackholes \<times> 's \<times> 'k) result" where
  "blackhole_identity rec ops keys own identity_hash until reason bh s ks =
     (if is_blackholed bh identity_hash then Inr (False, bh, s, ks)
      else
        let bh' = bh(identity_hash \<mapsto> \<lparr>bh_source = own, bh_until = until, bh_reason = reason\<rparr>)
        in res_bind (remove_blackholed_paths rec ops keys bh' s ks) (\<lambda>(s', ks'). Inr (True, bh', s', ks')))"

definition unblackhole_identity :: "bytes \<Rightarrow> blackholes \<Rightarrow> bool \<times> blackholes" where
  "unblackhole_identity identity_hash bh =
     (if is_blackholed bh identity_hash then (True, bh(identity_hash := None)) else (False, bh))"

section \<open>Lemmas\<close>

subsection \<open>Interfaces\<close>

definition hashes_distinct :: "interfaces \<Rightarrow> bool" where
  "hashes_distinct ifs \<longleftrightarrow> distinct (map (\<lambda>i. if_hash (if_of ifs i)) (if_ids ifs))"

lemma find_interface_None:
  "find_interface_from_hash ifs h = None \<longleftrightarrow> h \<notin> (\<lambda>i. if_hash (if_of ifs i)) ` set (if_ids ifs)"
  by (auto simp: find_interface_from_hash_def find_None_iff)

lemma find_interface_Some:
  "find_interface_from_hash ifs h = Some i \<Longrightarrow> i \<in> set (if_ids ifs) \<and> if_hash (if_of ifs i) = h"
  by (auto simp: find_interface_from_hash_def find_Some_iff)

lemma find_registered:
  assumes "hashes_distinct ifs" and "i \<in> set (if_ids ifs)"
  shows "find_interface_from_hash ifs (if_hash (if_of ifs i)) = Some i"
proof (cases "find_interface_from_hash ifs (if_hash (if_of ifs i))")
  case None
  with assms(2) show ?thesis by (auto simp: find_interface_None)
next
  case (Some j)
  from find_interface_Some [OF this] assms have "j = i"
    by (auto simp: hashes_distinct_def distinct_map dest: inj_onD)
  with Some show ?thesis by simp
qed

lemma register_keeps_distinct [inv_intros]: "hashes_distinct ifs \<Longrightarrow> hashes_distinct (register_interface i ifs)"
  by (auto simp: hashes_distinct_def register_interface_def find_interface_None)

lemma deregister_keeps_distinct [inv_intros]: "hashes_distinct ifs \<Longrightarrow> hashes_distinct (deregister_interface i ifs)"
  by (simp add: hashes_distinct_def deregister_interface_def distinct_map_filter)

subsection \<open>The codec\<close>

lemma unpack_fromPacked:
  "unpack lib (p\<lparr>p_fromPacked := b\<rparr>) = (let (ok, q) = unpack lib p in (ok, q\<lparr>p_fromPacked := b\<rparr>))"
  by (simp add: unpack_def Let_def unpack_flags_def update_hash_def get_hash_def get_hashable_part_def
      split: sum.splits)

lemma unpack_raw: "unpack lib q = (ok, r) \<Longrightarrow> p_raw r = p_raw q"
  by (auto simp: unpack_def Let_def unpack_flags_def update_hash_def res_bind_def split: if_splits sum.splits)

lemma unpack_nonempty: "unpack lib q = (True, r) \<Longrightarrow> p_raw q \<noteq> []"
  by (auto simp: unpack_def Let_def wire_sizes split: if_splits)

lemma path_decode_encode:
  assumes "unpack lib (packet_from_raw raw) = (True, p)" and "hashes_distinct ifs" and "i \<in> set (if_ids ifs)"
    and "pe_receiving_interface e = Some i"
    and "pe_announce_packet e = Some (p\<lparr>p_hops := p_hops p + 1, p_fromPacked := b\<rparr>)"
  shows "path_decode lib ifs (path_encode ifs e)
    = Some (e\<lparr>pe_random_blobs := newest PERSIST_RANDOM_BLOBS (pe_random_blobs e),
             pe_announce_packet := Some (p\<lparr>p_hops := p_hops p + 1\<rparr>)\<rparr>)"
proof -
  have "p_raw p = raw" "raw \<noteq> []"
    using unpack_raw [OF assms(1)] unpack_nonempty [OF assms(1)] by (simp_all add: packet_from_raw_def)
  then show ?thesis
    using assms(1,4,5) find_registered [OF assms(2,3)]
    by (simp add: path_encode_def path_decode_def rehydrate_def)
qed

lemma path_get_put:
  assumes "store_ok ops" and "path_put ops ifs h e ttl s = (True, s')"
  shows "get_entry lib ops ifs s' h = path_decode lib ifs (path_encode ifs e)"
  using store_ok_get [OF assms(1), of s h "path_encode ifs e" ttl s'] assms(2)
  by (simp add: get_entry_def path_put_def)

lemma path_get_put_other:
  assumes "store_ok ops" and "path_put ops ifs h e ttl s = (b, s')"
  shows "get_entry lib ops ifs s' k = None \<or> get_entry lib ops ifs s' k = get_entry lib ops ifs s k
    \<or> (k = h \<and> get_entry lib ops ifs s' k = path_decode lib ifs (path_encode ifs e))"
  using store_ok_put [OF assms(1), of s h "path_encode ifs e" ttl b s' k] assms(2)
  by (auto simp: get_entry_def path_put_def)

lemma length_newest [simp]: "length (newest n xs) = min n (length xs)"
  by (simp add: newest_def min_def)

lemma set_newest: "set (newest n xs) \<subseteq> set xs"
  by (simp add: newest_def set_drop_subset)

lemma newest_snoc_in: "0 < n \<Longrightarrow> x \<in> set (newest n (xs @ [x]))"
  by (simp add: newest_def)

subsection \<open>Emission times\<close>

lemma timebase_foldl:
  "foldl (\<lambda>timebase blob. let emitted = timebase_from_random_blob blob in if emitted > timebase then emitted else timebase) a bs
     = Max (insert a (timebase_from_random_blob ` set bs))"
proof (induction bs arbitrary: a)
  case (Cons b bs)
  show ?case
    using Cons [of "if timebase_from_random_blob b > a then timebase_from_random_blob b else a"]
    by (cases "bs = []") (simp_all add: Let_def max_def ac_simps)
qed simp

lemma timebase_Max: "timebase_from_random_blobs bs = Max (insert 0 (timebase_from_random_blob ` set bs))"
  unfolding timebase_from_random_blobs_def by (rule timebase_foldl)

lemma timebase_upper: "b \<in> set bs \<Longrightarrow> timebase_from_random_blob b \<le> timebase_from_random_blobs bs"
  by (simp add: timebase_Max)

lemma emitted_at_timebase: "10 \<le> length b \<Longrightarrow> emitted_at b = Inr (timebase_from_random_blob b)"
  by (simp add: emitted_at_def timebase_from_random_blob_def)

subsection \<open>Blackholes\<close>

lemma blackholed_paths_pure:
  assumes "\<And>h. h \<in> set keys \<Longrightarrow> rec h ks = Inr (ident h, ks)"
  shows "blackholed_paths rec bh keys ks
    = Inr (filter (\<lambda>h. case ident h of Some j \<Rightarrow> is_blackholed bh (i_hash j) | None \<Rightarrow> False) keys, ks)"
  using assms by (induction keys) (auto split: option.split)

lemma foldl_remove_get:
  assumes "store_ok ops"
  shows "ts_get ops (foldl (\<lambda>s h. snd (ts_remove ops s h)) s hs) k = (if k \<in> set hs then None else ts_get ops s k)"
proof (induction hs arbitrary: s)
  case (Cons h hs)
  obtain b s' where r: "ts_remove ops s h = (b, s')" by (cases "ts_remove ops s h")
  show ?case using Cons [of s'] store_ok_remove [OF assms r, of k] r by (cases "k = h") simp_all
qed simp

text \<open>
  A path survives its storage: what the path table returns for a stored entry is the entry,
  with the newest 16 random blobs, the interface found again by its hash and the announce packet
  unpacked again with the hop count it had when it was received.
\<close>

lemma path_codec_roundtrip:
  assumes "store_ok ops" and "path_put ops ifs h e ttl s = (True, s')"
    and "unpack lib (packet_from_raw raw) = (True, p)" and "hashes_distinct ifs" and "i \<in> set (if_ids ifs)"
    and "pe_receiving_interface e = Some i"
    and "pe_announce_packet e = Some (p\<lparr>p_hops := p_hops p + 1, p_fromPacked := b\<rparr>)"
  shows "find_path lib ops ifs s' h
    = Some (e\<lparr>pe_random_blobs := newest PERSIST_RANDOM_BLOBS (pe_random_blobs e),
             pe_announce_packet := Some (p\<lparr>p_hops := p_hops p + 1\<rparr>)\<rparr>)"
  using path_get_put [OF assms(1,2), of lib] path_decode_encode [OF assms(3-7)] assms(6)
  by (simp add: find_path_def path_valid_def)

text \<open>
  Blackholing an identity removes exactly the paths to destinations of blackholed identities.
\<close>

lemma blackhole_purges_paths:
  assumes "store_ok ops" and "\<forall>k. ts_get ops s k \<noteq> None \<longrightarrow> k \<in> set keys"
    and "\<forall>k \<in> set keys. known kops ks k = Some (ent k)"
    and "blackhole_identity
      (\<lambda>h. recall lib kops now (find_announce_packet_from_hash lib ops ifs s h) (regs h) h)
      ops keys own ih until reason bh s ks = Inr (True, bh', s', ks')"
  shows "bh' = bh(ih \<mapsto> \<lparr>bh_source = own, bh_until = until, bh_reason = reason\<rparr>) \<and> ks' = ks
    \<and> (\<forall>h. ts_get ops s' h
          = (if is_blackholed bh' (i_hash (load_public_key lib (ie_public_key (ent h)) new_identity)) then None
             else ts_get ops s h))"
proof -
  let ?rec = "\<lambda>h. recall lib kops now (find_announce_packet_from_hash lib ops ifs s h) (regs h) h"
  let ?id = "\<lambda>h. (load_public_key lib (ie_public_key (ent h)) new_identity)\<lparr>i_app_data := ie_app_data (ent h)\<rparr>"
  let ?drop = "filter (\<lambda>h. is_blackholed bh' (i_hash (?id h))) keys"
  have rec: "?rec h ks = Inr (Some (?id h), ks)" if "h \<in> set keys" for h
    using assms(3) that by (simp add: recall_def)
  have bh': "bh' = bh(ih \<mapsto> \<lparr>bh_source = own, bh_until = until, bh_reason = reason\<rparr>)"
    using assms(4) by (auto simp: blackhole_identity_def Let_def res_bind_eq_Inr split: if_splits)
  have ne: "bh' \<noteq> Map.empty" unfolding bh' by (metis fun_upd_same option.distinct(1))
  have "remove_blackholed_paths ?rec ops keys bh' s ks = Inr (s', ks')"
    using assms(4) bh' by (auto simp: blackhole_identity_def Let_def res_bind_eq_Inr split: if_splits)
  then have s': "s' = foldl (\<lambda>s h. snd (ts_remove ops s h)) s ?drop" "ks' = ks"
    using ne blackholed_paths_pure [of keys ?rec ks "\<lambda>h. Some (?id h)" bh', OF rec]
    by (simp_all add: remove_blackholed_paths_def)
  have "ts_get ops s' h = (if is_blackholed bh' (i_hash (?id h)) then None else ts_get ops s h)" for h
    using foldl_remove_get [OF assms(1), of s ?drop h] assms(2) unfolding s'(1) by auto
  then show ?thesis using bh' s'(2) by simp
qed

section \<open>Witnesses\<close>

text \<open>One interface, and a raw packet of 19 octets.\<close>

definition demo_iface :: iface where
  "demo_iface = \<lparr>if_hash = [1], if_OUT = True, if_ifac_identity = [], if_mode = MODE_FULL, if_bitrate = 1200,
     if_HW_MTU = 0, if_AUTOCONFIGURE_MTU = False, if_FIXED_MTU = False, if_announce_allowed_at = 0,
     if_announce_cap = 0, if_announce_rate_target = 0, if_announce_rate_grace = 0, if_announce_rate_penalty = 0,
     if_announce_queue = [], if_local_client = False, if_to_shared_instance = False\<rparr>"

definition demo_ifs :: interfaces where
  "demo_ifs = \<lparr>if_ids = [0, 1], if_of = (\<lambda>i. demo_iface\<lparr>if_hash := [word_of_nat i]\<rparr>)\<rparr>"

lemma demo_ifs_distinct: "hashes_distinct demo_ifs" by (simp add: hashes_distinct_def demo_ifs_def)

lemma demo_unpacks: "\<exists>p. unpack demo_lib (packet_from_raw (replicate 19 0)) = (True, p)"
  by (simp add: unpack_def packet_from_raw_def Let_def unpack_flags_def update_hash_def get_hash_def
      get_hashable_part_def wire_sizes new_object_def header_type_of_def)

end
