(* ===== verification/Destination.thy ===== *)
theory Destination
  imports Identity
begin

text \<open>
  Endpoints (\<open>Destination.h\<close>, \<open>Destination.cpp\<close>): names and addresses, construction, announces,
  request handlers, delivery of received packets, encryption by destination type.

  C strings are byte strings without their terminator.  Links are named by values of any type
  \<open>'l\<close> (the code compares the pointers); \<open>Link::validate_request\<close> is an argument of the handler of
  link requests.  Each operation takes one reading of the clock; octets drawn at random are
  arguments.  \<open>Transport::register_destination\<close> belongs to the transport.
\<close>

section \<open>Names and addresses\<close>

abbreviation DOT :: byte where "DOT \<equiv> 0x2E"

definition expand_name :: "identity option \<Rightarrow> bytes \<Rightarrow> bytes option \<Rightarrow> bytes result" where
  "expand_name i app_name aspects =
     (if DOT \<in> set app_name then Inl Invalid_argument
      else
        let name = app_name;
            name1 = (case aspects of None \<Rightarrow> name | Some a \<Rightarrow> name @ [DOT] @ a)
        in Inr (case i of None \<Rightarrow> name1 | Some x \<Rightarrow> name1 @ [DOT] @ i_hexhash x))"

definition name_hash :: "crypto_lib \<Rightarrow> bytes \<Rightarrow> bytes \<Rightarrow> bytes result" where
  "name_hash lib app_name aspects =
     res_bind (expand_name None app_name (Some aspects)) (\<lambda>n.
       Inr (left (full_hash lib n) (NAME_HASH_LENGTH div 8)))"

definition destination_hash :: "crypto_lib \<Rightarrow> identity option \<Rightarrow> bytes \<Rightarrow> bytes \<Rightarrow> bytes result" where
  "destination_hash lib i app_name aspects =
     res_bind (name_hash lib app_name aspects) (\<lambda>nh.
       Inr (truncated_hash lib (case i of None \<Rightarrow> nh | Some x \<Rightarrow> nh @ i_hash x)))"

definition app_and_aspects_from_name :: "bytes \<Rightarrow> bytes list" where
  "app_and_aspects_from_name name =
     (if DOT \<in> set name
      then [takeWhile (\<lambda>c. c \<noteq> DOT) name, tl (dropWhile (\<lambda>c. c \<noteq> DOT) name)]
      else [name])"

definition hash_from_name_and_identity :: "crypto_lib \<Rightarrow> bytes \<Rightarrow> identity option \<Rightarrow> bytes result" where
  "hash_from_name_and_identity lib full_name i =
     (case app_and_aspects_from_name full_name of
        [] \<Rightarrow> Inr []
      | [app] \<Rightarrow> destination_hash lib i app []
      | app # aspects # _ \<Rightarrow> destination_hash lib i app aspects)"

section \<open>Destinations\<close>

datatype direction = IN | OUT
datatype proof_strategy = PROVE_NONE | PROVE_APP | PROVE_ALL
datatype request_policy = ALLOW_NONE | ALLOW_ALL | ALLOW_LIST

type_synonym response_generator =
  "bytes \<Rightarrow> bytes \<Rightarrow> bytes \<Rightarrow> bytes \<Rightarrow> identity option \<Rightarrow> real \<Rightarrow> bytes"

record request_handler =
  rh_path :: bytes
  rh_response_generator :: "response_generator option"
  rh_allow :: request_policy
  rh_allowed_list :: "bytes set"
  rh_auto_compress :: bool

abbreviation PR_TAG_WINDOW :: real where "PR_TAG_WINDOW \<equiv> 30"

record 'l destination =
  d_accept_link_requests :: bool
  d_packet_callback :: bool
  d_request_handlers :: "bytes \<Rightarrow> request_handler option"
  d_type :: dest_type
  d_direction :: direction
  d_proof_strategy :: proof_strategy
  d_mtu :: nat
  d_path_responses :: "bytes \<Rightarrow> (real \<times> bytes) option"
  d_links :: "'l set"
  d_identity :: "identity option"
  d_name :: bytes
  d_hash :: bytes
  d_name_hash :: bytes
  d_hexhash :: bytes
  d_default_app_data :: bytes

definition new_destination_object :: "identity option \<Rightarrow> dest_type \<Rightarrow> direction \<Rightarrow> 'l destination" where
  "new_destination_object i ty dir =
     \<lparr>d_accept_link_requests = True, d_packet_callback = False, d_request_handlers = Map.empty, d_type = ty,
      d_direction = dir, d_proof_strategy = PROVE_NONE, d_mtu = 0, d_path_responses = Map.empty,
      d_links = {}, d_identity = i, d_name = [], d_hash = [], d_name_hash = [], d_hexhash = [],
      d_default_app_data = []\<rparr>"

text \<open>The first constructor.  An \<open>IN\<close> destination that is not \<open>PLAIN\<close> makes its own identity when it is given none.\<close>

definition new_destination ::
  "crypto_lib \<Rightarrow> bytes \<Rightarrow> bytes \<Rightarrow> identity option \<Rightarrow> direction \<Rightarrow> dest_type \<Rightarrow> bytes \<Rightarrow> bytes \<Rightarrow>
     'l destination result" where
  "new_destination lib rnd sig_rnd i dir ty app_name aspects =
     (if DOT \<in> set app_name then Inl Invalid_argument
      else
        res_bind
          (if i = None \<and> dir = IN \<and> ty \<noteq> PLAIN
           then res_bind (createKeys lib rnd sig_rnd new_identity) (\<lambda>x.
                  Inr (Some x, aspects @ [DOT] @ i_hexhash x))
           else Inr (i, aspects))
          (\<lambda>(own, fullaspects).
             if own \<noteq> None \<and> ty = PLAIN then Inl Invalid_argument
             else
               res_bind (expand_name own app_name (Some fullaspects)) (\<lambda>name.
               res_bind (destination_hash lib own app_name fullaspects) (\<lambda>h.
               res_bind (name_hash lib app_name aspects) (\<lambda>nh.
                 Inr ((new_destination_object own ty dir)
                        \<lparr>d_name := name, d_hash := h, d_hexhash := toHex h False, d_name_hash := nh\<rparr>))))))"

text \<open>The second constructor, from an address.\<close>

definition destination_from_hash ::
  "crypto_lib \<Rightarrow> identity option \<Rightarrow> direction \<Rightarrow> dest_type \<Rightarrow> bytes \<Rightarrow> 'l destination result" where
  "destination_from_hash lib i dir ty h =
     (if i \<noteq> None \<and> ty = PLAIN then Inl Invalid_argument
      else
        let unknown = map (word_of_nat \<circ> of_char) ''unknown''
        in res_bind (name_hash lib unknown unknown) (\<lambda>nh.
             Inr ((new_destination_object i ty dir)
                    \<lparr>d_hash := h, d_hexhash := toHex h False, d_name_hash := nh\<rparr>)))"

section \<open>Encryption by destination type\<close>

definition destination_encrypt :: "crypto_lib \<Rightarrow> bytes \<Rightarrow> bytes \<Rightarrow> 'l destination \<Rightarrow> bytes \<Rightarrow> bytes result" where
  "destination_encrypt lib eph iv d dat =
     (if d_type d = PLAIN then Inr dat
      else
        (case d_identity d of
           Some i \<Rightarrow> if d_type d = SINGLE then identity_encrypt lib eph iv i dat else Inr dat
         | None \<Rightarrow> Inr dat))"

definition destination_decrypt :: "crypto_lib \<Rightarrow> 'l destination \<Rightarrow> bytes \<Rightarrow> bytes result" where
  "destination_decrypt lib d dat =
     (if d_type d = PLAIN then Inr dat
      else
        (case d_identity d of
           Some i \<Rightarrow> if d_type d = SINGLE then identity_decrypt lib i dat else Inr []
         | None \<Rightarrow> Inr []))"

definition destination_sign :: "crypto_lib \<Rightarrow> 'l destination \<Rightarrow> bytes \<Rightarrow> bytes result" where
  "destination_sign lib d message =
     (case d_identity d of
        Some i \<Rightarrow> if d_type d = SINGLE then identity_sign lib i message else Inr []
      | None \<Rightarrow> Inr [])"

definition dest_view_of :: "crypto_lib \<Rightarrow> bytes \<Rightarrow> bytes \<Rightarrow> 'l destination \<Rightarrow> dest_view" where
  "dest_view_of lib eph iv d =
     \<lparr>dv_hash = d_hash d, dv_type = d_type d, dv_encrypt = destination_encrypt lib eph iv d\<rparr>"

section \<open>Announces\<close>

definition time_bytes :: "nat \<Rightarrow> bytes" where
  "time_bytes now = map (\<lambda>k. word_of_nat (now div 2 ^ k mod 256)) [32, 24, 16, 8, 0]"

definition live_responses :: "real \<Rightarrow> (bytes \<Rightarrow> (real \<times> bytes) option) \<Rightarrow> bytes \<Rightarrow> (real \<times> bytes) option" where
  "live_responses now rs tag =
     (case rs tag of
        None \<Rightarrow> None
      | Some (t0, dat) \<Rightarrow> if now > t0 + PR_TAG_WINDOW then None else Some (t0, dat))"

definition map_insert :: "'k \<Rightarrow> 'v \<Rightarrow> ('k \<Rightarrow> 'v option) \<Rightarrow> ('k \<Rightarrow> 'v option)" where
  "map_insert k v m = (case m k of None \<Rightarrow> m(k \<mapsto> v) | Some _ \<Rightarrow> m)"

definition fresh_announce_data ::
  "crypto_lib \<Rightarrow> real \<Rightarrow> bytes \<Rightarrow> bytes \<Rightarrow> 'l destination \<Rightarrow> bytes result" where
  "fresh_announce_data lib now rnd app_data d =
     (case d_identity d of
        None \<Rightarrow> Inl Undefined_behaviour
      | Some i \<Rightarrow>
          (let random_hash = rnd @ time_bytes (nat \<lfloor>now\<rfloor>);
               new_app_data = (if app_data = [] \<and> d_default_app_data d \<noteq> [] then d_default_app_data d else app_data);
               signed_data = d_hash d @ get_public_key i @ d_name_hash d @ random_hash @ new_app_data
           in res_bind (identity_sign lib i signed_data) (\<lambda>signature.
                Inr (get_public_key i @ d_name_hash d @ random_hash @ signature @ new_app_data))))"

text \<open>
  \<open>announce\<close>: the announce packet (\<open>None\<close> when an exception was logged) and the destination with
  its path responses.  The caller hands the packet to \<open>Packet::send\<close> when \<open>send\<close> is set.
\<close>

definition announce_packet_for :: "crypto_lib \<Rightarrow> 'l destination \<Rightarrow> bool \<Rightarrow> bytes \<Rightarrow> packet result" where
  "announce_packet_for lib d path_response announce_data =
     res_bind (packet_to_destination (Some (dest_view_of lib [] [] d)) announce_data) (\<lambda>p.
     res_bind (set_packet_type ANNOUNCE p)
       (set_context (if path_response then PATH_RESPONSE else CONTEXT_NONE)))"

definition announce ::
  "crypto_lib \<Rightarrow> real \<Rightarrow> bytes \<Rightarrow> bytes \<Rightarrow> bool \<Rightarrow> bytes \<Rightarrow> 'l destination \<Rightarrow>
     (packet option \<times> 'l destination) result" where
  "announce lib now rnd app_data path_response tag d =
     (if d_type d \<noteq> SINGLE then Inl Invalid_argument
      else if d_direction d \<noteq> IN then Inl Invalid_argument
      else
        let d1 = d\<lparr>d_path_responses := live_responses now (d_path_responses d)\<rparr>
        in try_catch
             (res_bind
                (case (if path_response \<and> tag \<noteq> [] then d_path_responses d1 tag else None) of
                   Some (t0, dat) \<Rightarrow> Inr (dat, d1)
                 | None \<Rightarrow>
                     res_bind (fresh_announce_data lib now rnd app_data d1) (\<lambda>dat.
                       Inr (dat, d1\<lparr>d_path_responses := map_insert tag (now, dat) (d_path_responses d1)\<rparr>)))
                (\<lambda>(dat, d2).
                   res_bind (announce_packet_for lib d2 path_response dat) (\<lambda>p. Inr (Some p, d2))))
             (\<lambda>_. Inr (None, d1)))"

section \<open>Request handlers, delivery, links\<close>

definition register_request_handler ::
  "crypto_lib \<Rightarrow> bytes \<Rightarrow> response_generator option \<Rightarrow> request_policy \<Rightarrow> bytes set \<Rightarrow> bool \<Rightarrow>
     'l destination \<Rightarrow> 'l destination result" where
  "register_request_handler lib path generator allow allowed_list auto_compress d =
     (if path = [] then Inl Invalid_argument
      else if generator = None then Inl Invalid_argument
      else
        Inr (d\<lparr>d_request_handlers :=
                map_insert (truncated_hash lib path)
                  \<lparr>rh_path = path, rh_response_generator = generator, rh_allow = allow,
                   rh_allowed_list = allowed_list, rh_auto_compress = auto_compress\<rparr>
                  (d_request_handlers d)\<rparr>))"

definition deregister_request_handler :: "crypto_lib \<Rightarrow> bytes \<Rightarrow> 'l destination \<Rightarrow> bool \<times> 'l destination" where
  "deregister_request_handler lib path d =
     (d_request_handlers d (truncated_hash lib path) \<noteq> None,
      d\<lparr>d_request_handlers := (d_request_handlers d)(truncated_hash lib path := None)\<rparr>)"

definition incoming_link_request ::
  "('l destination \<Rightarrow> bytes \<Rightarrow> packet \<Rightarrow> 'l option) \<Rightarrow> bytes \<Rightarrow> packet \<Rightarrow> 'l destination \<Rightarrow> 'l destination" where
  "incoming_link_request validate_request dat p d =
     (if d_accept_link_requests d then
        (case validate_request d dat p of
           None \<Rightarrow> d
         | Some l \<Rightarrow> d\<lparr>d_links := insert l (d_links d)\<rparr>)
      else d)"

text \<open>\<open>receive\<close>: the new state, and the plaintext handed to the packet callback if it is called.\<close>

definition receive ::
  "crypto_lib \<Rightarrow> ('l destination \<Rightarrow> bytes \<Rightarrow> packet \<Rightarrow> 'l option) \<Rightarrow> packet \<Rightarrow> 'l destination \<Rightarrow>
     ('l destination \<times> bytes option) result" where
  "receive lib validate_request p d =
     (if p_packet_type p = LINKREQUEST then
        Inr (incoming_link_request validate_request (p_data p) p d, None)
      else
        res_bind (destination_decrypt lib d (p_data p)) (\<lambda>plaintext.
          Inr (d, if plaintext \<noteq> [] \<and> p_packet_type p = DATA \<and> d_packet_callback d
                  then Some plaintext else None)))"

definition has_link :: "'l \<Rightarrow> 'l destination \<Rightarrow> bool" where
  "has_link l d \<longleftrightarrow> l \<in> d_links d"

definition remove_link :: "'l \<Rightarrow> 'l destination \<Rightarrow> 'l destination" where
  "remove_link l d = d\<lparr>d_links := d_links d - {l}\<rparr>"

section \<open>Lemmas\<close>

lemma expand_name_split:
  assumes "expand_name None app (Some aspects) = Inr n"
  shows "app_and_aspects_from_name n = [app, aspects]"
proof -
  from assms have n: "n = app @ DOT # aspects" and nd: "DOT \<notin> set app"
    by (auto simp: expand_name_def split: if_splits)
  have "takeWhile (\<lambda>c. c \<noteq> DOT) (app @ DOT # aspects) = app"
    using nd by (subst takeWhile_append2) auto
  moreover have "dropWhile (\<lambda>c. c \<noteq> DOT) (app @ DOT # aspects) = DOT # aspects"
    using nd by (subst dropWhile_append2) auto
  ultimately show ?thesis by (simp add: n app_and_aspects_from_name_def)
qed

lemma new_destination_SINGLE:
  assumes "new_destination lib r1 r2 (Some i) dir SINGLE app aspects = Inr d"
  shows "\<exists>nh. name_hash lib app aspects = Inr nh \<and> d_name_hash d = nh \<and> d_hash d = truncated_hash lib (nh @ i_hash i)"
    and "d_identity d = Some i" and "d_type d = SINGLE" and "d_direction d = dir"
    and "d_default_app_data d = []" and "d_path_responses d = Map.empty"
  using assms
  by (auto simp: new_destination_def new_destination_object_def destination_hash_def res_bind_eq_Inr
      split: if_splits)

lemma length_name_hash: "crypto_ok lib \<Longrightarrow> name_hash lib app aspects = Inr nh \<Longrightarrow> length nh = 10"
  by (auto simp: name_hash_def res_bind_eq_Inr full_hash_def sha256_def bytes_simps crypto_okD)

lemma length_time_bytes [simp]: "length (time_bytes n) = 5"
  by (simp add: time_bytes_def)

lemma live_responses_empty [simp]: "live_responses now Map.empty = Map.empty"
  by (simp add: live_responses_def fun_eq_iff)

lemma announce_packet_for_eq:
  assumes "length dat \<le> MDU"
  shows "\<exists>p. announce_packet_for lib d pr dat = Inr p \<and> p_destination p = Some (dest_view_of lib [] [] d) \<and>
    p_data p = dat \<and> p_packet_type p = ANNOUNCE \<and> p_header_type p = HEADER_1 \<and> p_MTU p = MTU \<and>
    p_context p = (if pr then PATH_RESPONSE else CONTEXT_NONE) \<and> p_context_flag p = FLAG_UNSET \<and>
    p_transport_type p = BROADCAST \<and> get_packed_flags p = Inr (p_flags p)"
  using assms
  by (simp add: announce_packet_for_def packet_to_destination_def Let_def new_object_def with_flags_def
      set_packet_type_def set_context_def get_packed_flags_def)

text \<open>An announce packet on the wire: packed, and unpacked by the receiver.\<close>

lemma announce_wire:
  assumes "length dat \<le> MDU" and "length (d_hash d) = 16"
  shows "\<exists>p q r. announce_packet_for lib d pr dat = Inr p \<and> pack lib p = Inr q \<and>
    unpack lib (packet_from_raw (p_raw q)) = (True, r) \<and> p_packet_type r = ANNOUNCE \<and>
    p_context_flag r = FLAG_UNSET \<and> p_destination_hash r = d_hash d \<and> p_data r = dat \<and> p_raw r \<noteq> []"
proof -
  obtain p where p: "announce_packet_for lib d pr dat = Inr p"
    and f: "p_destination p = Some (dest_view_of lib [] [] d)"
      "p_data p = dat" "p_packet_type p = ANNOUNCE" "p_header_type p = HEADER_1" "p_MTU p = MTU"
      "p_context p = (if pr then PATH_RESPONSE else CONTEXT_NONE)" "p_context_flag p = FLAG_UNSET"
      "p_transport_type p = BROADCAST" "get_packed_flags p = Inr (p_flags p)"
    using announce_packet_for_eq [OF assms(1)] by blast
  have ctx: "p_context p \<noteq> LRPROOF" using f(6) by simp
  obtain q where q: "pack lib p = Inr q" and ct: "p_ciphertext q = dat"
    using f ctx assms
    by (auto simp: pack_def pack_body_def sent_in_clear_def Let_def dest_view_of_def wire_sizes
        update_hash_def get_hash_def get_hashable_part_def)
  have "well_addressed p (dest_view_of lib [] [] d)"
    using f ctx assms(2) by (simp add: well_addressed_def wire_destination_def wire_sizes dest_view_of_def)
  from pack_unpack [OF q this] obtain r where r: "unpack lib (packet_from_raw (p_raw q)) = (True, r)"
      "p_packet_type r = ANNOUNCE" "p_context_flag r = FLAG_UNSET" "p_destination_hash r = d_hash d"
      "p_data r = dat" "p_raw r = p_raw q"
    using f ct ctx by (auto simp: wire_destination_def dest_view_of_def)
  moreover have "p_raw q \<noteq> []" using pack_wire(1) [OF q f(1)] by simp
  ultimately show ?thesis using p q by metis
qed

lemma announce_parts_layout:
  assumes "p_context_flag r = FLAG_UNSET" and "p_data r = pk @ nh @ rh @ sg @ app"
    and "length pk = 64" and "length nh = 10" and "length rh = 10" and "length sg = 64"
  shows "announce_parts r = \<lparr>an_public_key = pk, an_name_hash = nh, an_random_hash = rh, an_ratchet = [],
      an_signature = sg, an_app_data = app\<rparr>" and "announce_min r \<le> length (p_data r)"
  using assms by (simp_all add: announce_parts_def announce_min_def Let_def bytes_simps)

lemma own_announce_valid:
  assumes "p_packet_type r = ANNOUNCE" and "p_context_flag r = FLAG_UNSET"
    and "p_data r = pk @ nh @ rh @ sg @ app" and "p_raw r \<noteq> []"
    and "length pk = 64" and "length nh = 10" and "length rh = 10" and "length sg = 64"
    and "ed25519_verify lib sg (drop 32 pk) (p_destination_hash r @ pk @ nh @ rh @ app)"
    and "p_destination_hash r = truncated_hash lib (nh @ truncated_hash lib pk)"
    and "\<forall>e. known ops s (p_destination_hash r) = Some e \<longrightarrow> ie_public_key e = pk"
  shows "\<exists>s'. validate_announce lib ops now r False s = Inr (True, s')"
proof -
  note lay = announce_parts_layout [OF assms(2,3,5-8)]
  have ok: "announce_signature_valid lib r" "p_destination_hash r = announce_address lib r"
    using assms(9,10)
    by (simp_all add: announce_signature_valid_def announce_signed_data_def announce_address_def lay(1) Let_def)
  obtain h where h: "get_hash lib r = Inr h"
    using assms(4) by (auto simp: get_hash_def get_hashable_part_def Let_def)
  show ?thesis
    unfolding validate_announce_eq [OF assms(1) lay(2) h] using ok assms(11)
    by (auto simp: Let_def lay(1) split: option.split)
qed

section \<open>Properties\<close>

text \<open>
  C12. An announce made by a destination that holds its private key survives the wire and is
  accepted by every peer that knows no other key for the address, as long as the application
  data fits one packet (316 octets).
\<close>

theorem announce_accepted_by_peers:
  assumes lib: "crypto_ok lib" and k: "length k = 64"
    and me: "load_private_key lib r1 r2 k new_identity = Inr (True, me)"
    and d: "new_destination lib r3 r4 (Some me) IN SINGLE app aspects = Inr d"
    and rnd: "length rnd = 5" and fits: "length app_data \<le> 316"
    and known: "\<forall>e. known ops s (d_hash d) = Some e \<longrightarrow> ie_public_key e = get_public_key me"
  shows "\<exists>p d' q r s'. announce lib now rnd app_data pr tag d = Inr (Some p, d') \<and> pack lib p = Inr q
    \<and> unpack lib (packet_from_raw (p_raw q)) = (True, r)
    \<and> validate_announce lib ops now' r False s = Inr (True, s')"
proof -
  note m = loaded_identity [OF lib k me]
  note d' = new_destination_SINGLE [OF d]
  obtain nh where nh: "name_hash lib app aspects = Inr nh" "d_name_hash d = nh"
      "d_hash d = truncated_hash lib (nh @ i_hash me)" using d'(1) by blast
  let ?rh = "rnd @ time_bytes (nat \<lfloor>now\<rfloor>)"
  let ?signed = "d_hash d @ get_public_key me @ nh @ ?rh @ app_data"
  obtain sg where sg: "identity_sign lib me ?signed = Inr sg" using m(4) by blast
  note sgv = m(3) [OF sg]
  let ?dat = "get_public_key me @ nh @ ?rh @ sg @ app_data"
  have nhl: "length nh = 10" using length_name_hash [OF lib nh(1)] .
  have len: "length ?dat \<le> MDU" using nhl m(1) sgv rnd fits by (simp add: wire_sizes)
  let ?d2 = "d\<lparr>d_path_responses := map_insert tag (now, ?dat) Map.empty\<rparr>"
  have h16: "length (d_hash ?d2) = 16" using nh(3) length_truncated_hash [OF lib] by simp
  obtain p q r where w: "announce_packet_for lib ?d2 pr ?dat = Inr p" "pack lib p = Inr q"
      "unpack lib (packet_from_raw (p_raw q)) = (True, r)" "p_packet_type r = ANNOUNCE"
      "p_context_flag r = FLAG_UNSET" "p_destination_hash r = d_hash d" "p_data r = ?dat" "p_raw r \<noteq> []"
    using announce_wire [OF len h16, of lib pr] by auto
  have fresh: "fresh_announce_data lib now rnd app_data (d\<lparr>d_path_responses := Map.empty\<rparr>) = Inr ?dat"
    using d' nh sg by (simp add: fresh_announce_data_def Let_def)
  have ann: "announce lib now rnd app_data pr tag d = Inr (Some p, ?d2)"
    using d' fresh w(1) by (cases pr; cases "tag = []") (simp_all add: announce_def Let_def)
  have "p_destination_hash r = truncated_hash lib (nh @ truncated_hash lib (get_public_key me))"
    using w(6) nh(3) m(2) by simp
  moreover have "ed25519_verify lib sg (drop 32 (get_public_key me))
      (p_destination_hash r @ get_public_key me @ nh @ ?rh @ app_data)" using sgv w(6) by simp
  ultimately have "\<exists>s'. validate_announce lib ops now' r False s = Inr (True, s')"
    using own_announce_valid [OF w(4,5,7,8) m(1) nhl _ conjunct1 [OF sgv], of lib ops s now'] rnd known w(6) by simp
  then show ?thesis using ann w(2,3) by blast
qed

theorem announce_accepted_by_peers_witness:
  "\<exists>me d p d' q r s'. load_private_key demo_lib [] [] (replicate 64 7) new_identity = Inr (True, me)
    \<and> new_destination demo_lib [] [] (Some me) IN SINGLE [0x61] [0x62] = Inr (d :: nat destination)
    \<and> announce demo_lib 1700000000 [1, 2, 3, 4, 5] [9] False [] d = Inr (Some p, d') \<and> pack demo_lib p = Inr q
    \<and> unpack demo_lib (packet_from_raw (p_raw q)) = (True, r)
    \<and> validate_announce demo_lib map_store 1700000001 r False Map.empty = Inr (True, s')"
proof -
  obtain me where me: "load_private_key demo_lib [] [] (replicate 64 7) new_identity = Inr (True, me)"
    using load_private_key_eq [OF demo_lib_ok, of "replicate 64 7" "[]" "[]" new_identity] by simp
  obtain d :: "nat destination" where d: "new_destination demo_lib [] [] (Some me) IN SINGLE [0x61] [0x62] = Inr d"
    by (simp add: new_destination_def expand_name_def destination_hash_def name_hash_def)
  have "known map_store Map.empty (d_hash d) = None" by (simp add: known_def map_store_def)
  then have "\<forall>e. known map_store Map.empty (d_hash d) = Some e \<longrightarrow> ie_public_key e = get_public_key me" by simp
  from announce_accepted_by_peers [OF demo_lib_ok _ me d _ _ this, of "[1, 2, 3, 4, 5]" "[9]" 1700000000 False "[]" 1700000001]
  show ?thesis using me d by auto
qed

text \<open>
  C13. A packet for a single destination, built by a peer that holds the public key only, is
  encrypted, packed, unpacked at the other end, decrypted and handed to the packet callback
  with the original plaintext, for every plaintext of 1 to 383 octets.
\<close>

theorem packet_delivered:
  assumes lib: "crypto_ok lib" and k: "length k = 64"
    and me: "load_private_key lib r1 r2 k new_identity = Inr (True, me)"
    and out: "d_identity out = Some (load_public_key lib (get_public_key me) new_identity)"
      "d_type out = SINGLE" "length (d_hash out) = 16"
    and inb: "d_identity inb = Some me" "d_type inb = SINGLE" "d_packet_callback inb"
    and eph: "length eph = 32" "length iv = 16" "snd (x25519_eval lib eph (Some (i_pub_bytes me)))"
    and pt: "pt \<noteq> []" "length pt \<le> ENCRYPTED_MDU"
  shows "\<exists>p q r. packet_to_destination (Some (dest_view_of lib eph iv out)) pt = Inr p \<and> pack lib p = Inr q
    \<and> unpack lib (packet_from_raw (p_raw q)) = (True, r) \<and> p_destination_hash r = d_hash out
    \<and> receive lib validate_request r inb = Inr (inb, Some pt)"
proof -
  let ?peer = "load_public_key lib (get_public_key me) new_identity"
  let ?v = "dest_view_of lib eph iv out"
  obtain ct where ct: "identity_encrypt lib eph iv ?peer pt = Inr ct" "identity_decrypt lib me ct = Inr pt"
      "length ct \<le> MDU"
    using identity_peer_roundtrip [OF lib k me eph] pt(2) by blast
  have enc: "dv_encrypt ?v pt = Inr ct" using out ct(1) by (simp add: dest_view_of_def destination_encrypt_def)
  have v: "dv_hash ?v = d_hash out" "dv_type ?v = SINGLE" using out by (simp_all add: dest_view_of_def)
  obtain p where p: "packet_to_destination (Some ?v) pt = Inr p" and f: "p_destination p = Some ?v"
      "p_destination_link p = None" "p_data p = pt" "p_packet_type p = DATA" "p_header_type p = HEADER_1"
      "p_MTU p = MTU" "p_context p = CONTEXT_NONE" "p_transport_type p = BROADCAST" "get_packed_flags p = Inr (p_flags p)"
    using pt(2) by (simp add: packet_to_destination_def new_object_def Let_def wire_sizes with_flags_def get_packed_flags_def)
  obtain q where q: "pack lib p = Inr q" and qc: "p_ciphertext q = ct"
    using f enc ct(3) out(3) v
    by (auto simp: pack_def pack_body_def sent_in_clear_def Let_def wire_sizes update_hash_def get_hash_def get_hashable_part_def)
  have "well_addressed p ?v"
    using f out(3) v by (simp add: well_addressed_def wire_destination_def wire_sizes)
  from pack_unpack [OF q this] obtain r where r: "unpack lib (packet_from_raw (p_raw q)) = (True, r)"
      "p_packet_type r = DATA" "p_destination_hash r = d_hash out" "p_data r = ct"
    using f qc v by (auto simp: wire_destination_def)
  have "receive lib validate_request r inb = Inr (inb, Some pt)"
    using r inb ct(2) pt(1) by (simp add: receive_def destination_decrypt_def)
  with p q r show ?thesis by blast
qed

theorem packet_delivered_witness:
  "\<exists>me out inb p q r. load_private_key demo_lib [] [] (replicate 64 7) new_identity = Inr (True, me)
    \<and> d_identity (out :: nat destination) = Some (load_public_key demo_lib (get_public_key me) new_identity)
    \<and> packet_to_destination (Some (dest_view_of demo_lib (replicate 32 9) (replicate 16 3) out)) [1, 2] = Inr p
    \<and> pack demo_lib p = Inr q \<and> unpack demo_lib (packet_from_raw (p_raw q)) = (True, r)
    \<and> receive demo_lib (\<lambda>_ _ _. None) r (inb :: nat destination) = Inr (inb, Some [1, 2])"
proof -
  obtain me where me: "load_private_key demo_lib [] [] (replicate 64 7) new_identity = Inr (True, me)"
    using load_private_key_eq [OF demo_lib_ok, of "replicate 64 7" "[]" "[]" new_identity] by simp
  let ?out = "(new_destination_object (Some (load_public_key demo_lib (get_public_key me) new_identity)) SINGLE OUT)
      \<lparr>d_hash := replicate 16 5\<rparr> :: nat destination"
  let ?in = "(new_destination_object (Some me) SINGLE IN)\<lparr>d_packet_callback := True\<rparr> :: nat destination"
  have dh: "snd (x25519_eval demo_lib (replicate 32 9) (Some (i_pub_bytes me)))" by (simp add: demo_lib_def)
  have "\<exists>p q r. packet_to_destination (Some (dest_view_of demo_lib (replicate 32 9) (replicate 16 3) ?out)) [1, 2] = Inr p
    \<and> pack demo_lib p = Inr q \<and> unpack demo_lib (packet_from_raw (p_raw q)) = (True, r)
    \<and> p_destination_hash r = d_hash ?out \<and> receive demo_lib (\<lambda>_ _ _. None) r ?in = Inr (?in, Some [1, 2])"
    by (rule packet_delivered [OF demo_lib_ok _ me _ _ _ _ _ _ _ _ dh])
      (simp_all add: new_destination_object_def wire_sizes)
  then show ?thesis using me
    by (intro exI [of _ me] exI [of _ ?out] exI [of _ ?in]) (auto simp: new_destination_object_def)
qed

text \<open>
  A destination that makes its own identity signs its announces over a name hash its address
  was not computed from: the address uses the aspects extended by the identity's hash, the
  announced name hash does not.  Such an announce is accepted only when the two byte strings
  collide under the truncated hash.
\<close>

lemma own_identity_address_mismatch:
  assumes "new_destination lib r1 r2 None IN SINGLE app aspects = Inr d"
  shows "\<exists>i nh nh'. d_identity d = Some i \<and> d_name_hash d = nh \<and> name_hash lib app aspects = Inr nh
    \<and> name_hash lib app (aspects @ [DOT] @ i_hexhash i) = Inr nh' \<and> d_hash d = truncated_hash lib (nh' @ i_hash i)
    \<and> (\<forall>p. p_destination_hash p = d_hash d \<and> an_name_hash (announce_parts p) = d_name_hash d
          \<and> truncated_hash lib (an_public_key (announce_parts p)) = i_hash i \<and> p_packet_type p = ANNOUNCE
          \<and> validate_announce lib ops now p False s = Inr (True, s')
         \<longrightarrow> truncated_hash lib (nh @ i_hash i) = truncated_hash lib (nh' @ i_hash i))"
proof -
  from assms obtain i nh nh' where d: "d_identity d = Some i" "d_name_hash d = nh" "name_hash lib app aspects = Inr nh"
      "name_hash lib app (aspects @ [DOT] @ i_hexhash i) = Inr nh'" "d_hash d = truncated_hash lib (nh' @ i_hash i)"
    by (auto simp: new_destination_def new_destination_object_def destination_hash_def res_bind_eq_Inr
        split: if_splits)
  have addr: "p_destination_hash p = truncated_hash lib (an_name_hash (announce_parts p)
      @ truncated_hash lib (an_public_key (announce_parts p)))"
    if "p_packet_type p = ANNOUNCE" "validate_announce lib ops now p False s = Inr (True, s')" for p
    using that
    by (auto simp: validate_announce_def Let_def try_catch_def res_bind_def truncated_hash_def bytes_simps
        split: if_splits sum.splits option.splits)
  have "truncated_hash lib (nh @ i_hash i) = truncated_hash lib (nh' @ i_hash i)"
    if "p_destination_hash p = d_hash d \<and> an_name_hash (announce_parts p) = d_name_hash d
          \<and> truncated_hash lib (an_public_key (announce_parts p)) = i_hash i \<and> p_packet_type p = ANNOUNCE
          \<and> validate_announce lib ops now p False s = Inr (True, s')" for p
    using addr [of p] that d(2,5) by simp
  then show ?thesis using d by blast
qed

text \<open>
  Full names split back into their parts: the address computed from the expanded name is the
  address computed from application name and aspects.
\<close>

lemma name_roundtrip:
  assumes "expand_name None app (Some aspects) = Inr n"
  shows "app_and_aspects_from_name n = [app, aspects]
    \<and> hash_from_name_and_identity lib n i = destination_hash lib i app aspects"
  using expand_name_split [OF assms] by (simp add: hash_from_name_and_identity_def)

end
