(* ===== verification/Receipts.thy ===== *)
theory Receipts
  imports Path_Store Destination "HOL-Library.Multiset"
begin

text \<open>
  Delivery receipts (\<open>PacketReceipt\<close> of \<open>Packet.h\<close> and \<open>Packet.cpp\<close>) and the proofs that conclude them,
  with the receipts pass of \<open>Transport::jobs\<close>.

  A receipt keeps the identity of the destination the packet went to.  The application's handlers
  are not modelled; \<open>rc_probe\<close> holds the neighbour hash the two handlers of a neighbour probe
  capture, and the operations report the receipts whose handler is called.
\<close>

datatype receipt_status = FAILED | SENT | DELIVERED | CULLED

record receipt =
  rc_hash :: bytes
  rc_truncated_hash :: bytes
  rc_sent_at :: real
  rc_proved :: bool
  rc_status :: receipt_status
  rc_identity :: "identity option"
  rc_concluded_at :: real
  rc_timeout :: int
  rc_probe :: "bytes option"

abbreviation EXPL_LENGTH :: nat where "EXPL_LENGTH \<equiv> 256 div 8 + SIGLENGTH div 8"
abbreviation IMPL_LENGTH :: nat where "IMPL_LENGTH \<equiv> SIGLENGTH div 8"
abbreviation TIMEOUT_PER_HOP :: int where "TIMEOUT_PER_HOP \<equiv> 6"
abbreviation MAX_RECEIPTS :: nat where "MAX_RECEIPTS \<equiv> 20"

text \<open>
  The timeout is an \<open>int16_t\<close>.  A \<open>double\<close> is truncated towards zero; a value that does not fit
  has no defined result.  The sum with the time per hop is computed as \<open>int\<close> and narrowed.
\<close>

definition int16_of_double :: "real \<Rightarrow> int result" where
  "int16_of_double x =
     (let n = (if 0 \<le> x then \<lfloor>x\<rfloor> else \<lceil>x\<rceil>) in if - 32768 \<le> n \<and> n \<le> 32767 then Inr n else Inl Undefined_behaviour)"

definition narrow16 :: "int \<Rightarrow> int" where
  "narrow16 n = sint (word_of_int n :: 16 word)"

text \<open>
  The constructor.  \<open>rtt\<close> is the round-trip time of the link of a packet for a link, with its
  traffic timeout factor of 6.
\<close>

definition receipt_timeout ::
  "crypto_lib \<Rightarrow> 's path_store \<Rightarrow> interfaces \<Rightarrow> 's \<Rightarrow> dest_view \<Rightarrow> real option \<Rightarrow> int result" where
  "receipt_timeout lib ops ifs s d rtt =
     (if dv_type d = LINK then
        (case rtt of
           None \<Rightarrow> Inl Invalid_argument
         | Some r \<Rightarrow> int16_of_double (max (r * 6) (5 / 1000)))
      else
        res_bind (int16_of_double (first_hop_timeout lib ops ifs s (dv_hash d))) (\<lambda>n.
          Inr (narrow16 (n + TIMEOUT_PER_HOP * int (unat (hops_to lib ops ifs s (dv_hash d)))))))"

definition new_receipt ::
  "crypto_lib \<Rightarrow> 's path_store \<Rightarrow> interfaces \<Rightarrow> 's \<Rightarrow> real \<Rightarrow> identity option \<Rightarrow> real option \<Rightarrow> packet \<Rightarrow> receipt result" where
  "new_receipt lib ops ifs s now i rtt p =
     (case p_destination p of
        None \<Rightarrow> Inl Invalid_argument
      | Some d \<Rightarrow>
          res_bind (get_hash lib p) (\<lambda>h.
          res_bind (getTruncatedHash lib p) (\<lambda>th.
          res_bind (receipt_timeout lib ops ifs s d rtt) (\<lambda>timeout.
            Inr \<lparr>rc_hash = h, rc_truncated_hash = th, rc_sent_at = now, rc_proved = False, rc_status = SENT,
                 rc_identity = i, rc_concluded_at = 0, rc_timeout = timeout, rc_probe = None\<rparr>))))"

definition set_timeout :: "int \<Rightarrow> receipt \<Rightarrow> receipt" where
  "set_timeout n r = r\<lparr>rc_timeout := n\<rparr>"

definition get_rtt :: "receipt \<Rightarrow> real" where
  "get_rtt r = rc_concluded_at r - rc_sent_at r"

section \<open>Proofs\<close>

definition deliver :: "real \<Rightarrow> receipt \<Rightarrow> receipt" where
  "deliver now r = r\<lparr>rc_status := DELIVERED, rc_proved := True, rc_concluded_at := now\<rparr>"

text \<open>An explicit proof carries the packet hash before the signature, an implicit one does not.\<close>

definition validate_receipt_proof :: "crypto_lib \<Rightarrow> real \<Rightarrow> bytes \<Rightarrow> receipt \<Rightarrow> (bool \<times> receipt) result" where
  "validate_receipt_proof lib now pr r =
     (if length pr = EXPL_LENGTH then
        (if left pr (256 div 8) = rc_hash r then
           (case rc_identity r of
              None \<Rightarrow> Inl Undefined_behaviour
            | Some i \<Rightarrow>
                res_bind (identity_validate lib i (mid pr (256 div 8) (SIGLENGTH div 8)) (rc_hash r)) (\<lambda>ok.
                  Inr (if ok then (True, deliver now r) else (False, r))))
         else Inr (False, r))
      else if length pr = IMPL_LENGTH then
        (case rc_identity r of
           None \<Rightarrow> Inr (False, r)
         | Some i \<Rightarrow>
             res_bind (identity_validate lib i (left pr (SIGLENGTH div 8)) (rc_hash r)) (\<lambda>ok.
               Inr (if ok then (True, deliver now r) else (False, r))))
      else Inr (False, r))"

text \<open>The check of a proof for a packet on a link is disabled in the source: no such proof is valid.\<close>

definition validate_link_proof :: "bytes \<Rightarrow> receipt \<Rightarrow> bool \<times> receipt" where
  "validate_link_proof pr r =
     (if left pr (256 div 8) = rc_hash r then (if False then (True, r) else (False, r)) else (False, r))"

definition validate_proof_packet :: "crypto_lib \<Rightarrow> real \<Rightarrow> bool \<Rightarrow> packet \<Rightarrow> receipt \<Rightarrow> (bool \<times> receipt) result" where
  "validate_proof_packet lib now on_link p r =
     (if on_link then Inr (validate_link_proof (p_data p) r) else validate_receipt_proof lib now (p_data p) r)"

text \<open>The loop over the receipts for a regular proof in \<open>inbound\<close>: those concluded, those kept.\<close>

fun prove_receipts :: "crypto_lib \<Rightarrow> real \<Rightarrow> bool \<Rightarrow> packet \<Rightarrow> receipt list \<Rightarrow> (receipt list \<times> receipt list) result" where
  "prove_receipts lib now on_link p [] = Inr ([], [])"
| "prove_receipts lib now on_link p (r # rs) =
     res_bind
       (if length (p_data p) = EXPL_LENGTH then
          (if rc_hash r = left (p_data p) (256 div 8) then validate_proof_packet lib now on_link p r else Inr (False, r))
        else validate_proof_packet lib now on_link p r)
       (\<lambda>(validated, r').
          res_bind (prove_receipts lib now on_link p rs) (\<lambda>(concluded, kept).
            Inr (if validated then (r' # concluded, kept) else (concluded, r' # kept))))"

section \<open>Timeouts\<close>

definition is_timed_out :: "real \<Rightarrow> receipt \<Rightarrow> bool" where
  "is_timed_out now r \<longleftrightarrow> rc_sent_at r + real_of_int (rc_timeout r) < now"

text \<open>The second component tells that the timeout handler is called.\<close>

definition check_timeout :: "real \<Rightarrow> receipt \<Rightarrow> receipt \<times> bool" where
  "check_timeout now r =
     (if rc_status r = SENT \<and> is_timed_out now r then
        (r\<lparr>rc_status := (if rc_timeout r = - 1 then CULLED else FAILED), rc_concluded_at := now\<rparr>, True)
      else (r, False))"

text \<open>The receipts pass of \<open>jobs\<close>: the excess is culled, the rest is checked; (kept, handlers called).\<close>

definition cull_receipts :: "real \<Rightarrow> receipt list \<Rightarrow> receipt list \<times> receipt list" where
  "cull_receipts now rs =
     (let n = length rs - MAX_RECEIPTS
      in (drop n rs, map fst (filter snd (map (\<lambda>r. check_timeout now (set_timeout (- 1) r)) (take n rs)))))"

definition receipts_job :: "real \<Rightarrow> receipt list \<Rightarrow> receipt list \<times> receipt list" where
  "receipts_job now rs =
     (let (rest, culled) = cull_receipts now rs; checked = map (check_timeout now) rest
      in (filter (\<lambda>r. rc_status r = SENT) (map fst checked), culled @ map fst (filter snd checked)))"

section \<open>Lemmas\<close>

lemma identity_validateD:
  assumes "identity_validate lib i sg m = Inr True"
  shows "\<exists>pub. i_sig_pub i = Some pub \<and> ed25519_verify lib (take 64 sg) (take 32 pub) m"
proof -
  from assms obtain pub where pub: "i_sig_pub i = Some pub" and v: "try_catch (ed_verify lib pub sg m) (\<lambda>_. Inr False) = Inr True"
    by (auto simp: identity_validate_def split: if_splits option.splits)
  have "ed_verify lib pub sg m = Inr True" using v by (cases "ed_verify lib pub sg m") (auto simp: try_catch_def split: if_splits)
  then show ?thesis using pub by (auto simp: ed_verify_def split: if_splits)
qed

lemma validate_receipt_proofE:
  assumes "validate_receipt_proof lib now pr r = Inr (True, r')"
  obtains i sg where "rc_identity r = Some i" "identity_validate lib i sg (rc_hash r) = Inr True" "r' = deliver now r"
    "length pr = EXPL_LENGTH \<and> pr = rc_hash r @ sg \<or> length pr = IMPL_LENGTH \<and> pr = sg" "length sg = 64"
proof (cases "length pr = EXPL_LENGTH")
  case True
  with assms have h: "left pr 32 = rc_hash r" by (auto simp: validate_receipt_proof_def split: if_splits)
  with assms True obtain i where i: "rc_identity r = Some i" "identity_validate lib i (mid pr 32 64) (rc_hash r) = Inr True"
      "r' = deliver now r"
    by (auto simp: validate_receipt_proof_def res_bind_eq_Inr split: if_splits option.splits)
  have "pr = rc_hash r @ mid pr 32 64"
    using True append_take_drop_id [of 32 pr] by (simp add: h [symmetric] bytes_simps)
  then show thesis using that i True by (simp add: bytes_simps)
next
  case False
  with assms have len: "length pr = IMPL_LENGTH" by (auto simp: validate_receipt_proof_def split: if_splits)
  with assms obtain i where i: "rc_identity r = Some i" "identity_validate lib i (left pr 64) (rc_hash r) = Inr True"
      "r' = deliver now r"
    by (auto simp: validate_receipt_proof_def res_bind_eq_Inr split: if_splits option.splits)
  then show thesis using that [of i pr] len by (simp add: left_def)
qed

lemma validate_proof_packetD:
  assumes "validate_proof_packet lib now on_link p r = Inr (True, r')"
  shows "\<not> on_link" and "validate_receipt_proof lib now (p_data p) r = Inr (True, r')"
  using assms by (auto simp: validate_proof_packet_def validate_link_proof_def split: if_splits)

lemma check_timeout_hash: "rc_hash (fst (check_timeout now r)) = rc_hash r"
  by (simp add: check_timeout_def)

lemma check_timeout_cases:
  assumes "rc_status r = SENT"
  shows "check_timeout now r = (r, False) \<and> \<not> is_timed_out now r
    \<or> snd (check_timeout now r) \<and> rc_status (fst (check_timeout now r)) \<noteq> SENT"
  using assms by (auto simp: check_timeout_def)

lemma add_regroup:
  fixes a :: "'a multiset"
  assumes "a + b = d" and "c + d = r" and "k = c + b"
  shows "a + k = r"
  by (simp add: assms(1) [symmetric] assms(2) [symmetric] assms(3) ac_simps)

lemma mset_partition_checked:
  assumes "\<forall>r \<in> set rs. rc_status r = SENT"
  shows "mset (map rc_hash (filter (\<lambda>r. rc_status r = SENT) (map fst (map (check_timeout now) rs))))
    + mset (map rc_hash (map fst (filter snd (map (check_timeout now) rs)))) = mset (map rc_hash rs)"
  using assms
proof (induction rs)
  case (Cons r rs)
  from Cons.prems have "rc_status r = SENT" by simp
  from check_timeout_cases [OF this, of now] show ?case
    using Cons check_timeout_hash [of now r] by auto
qed simp

lemma identity_prove_wire:
  assumes lib: "crypto_ok lib" and k: "length k = 64"
    and me: "load_private_key lib r1 r2 k new_identity = Inr (True, me)"
    and x: "get_hash lib x = Inr h" "p_packet_hash x = h"
  shows "\<exists>pp w y sg. identity_prove lib implicit me x None = Inr pp \<and> pack lib pp = Inr w
    \<and> unpack lib (packet_from_raw (p_raw w)) = (True, y) \<and> p_packet_type y = PROOF \<and> p_context y = CONTEXT_NONE
    \<and> p_destination_type y = SINGLE \<and> p_transport_id y = [] \<and> p_destination_hash y = take 16 h \<and> p_hops y = 0
    \<and> p_data y = (if implicit then sg else h @ sg) \<and> identity_sign lib me h = Inr sg"
proof -
  obtain sg where sg: "identity_sign lib me h = Inr sg" "length sg = 64"
    using loaded_identity(3,4) [OF lib k me, of h] by blast
  have h32: "length h = 32"
    using x(1) crypto_okD(3,4,5) [OF lib]
    by (auto simp: get_hash_def full_hash_def sha256_def Let_def get_hashable_part_def res_bind_eq_Inr split: if_splits)
  let ?d = "\<lparr>dv_hash = take 16 h, dv_type = SINGLE, dv_encrypt = Inr\<rparr> :: dest_view"
  define dat where "dat = (if implicit then sg else h @ sg)"
  have dl: "length dat \<le> 96" using sg(2) h32 by (simp add: dat_def)
  define pp where "pp = projr (identity_prove lib implicit me x None)"
  have pp: "identity_prove lib implicit me x None = Inr pp" and f: "p_destination pp = Some ?d" "p_data pp = dat"
      "p_packet_type pp = PROOF" "p_header_type pp = HEADER_1" "p_MTU pp = MTU" "p_context pp = CONTEXT_NONE"
      "p_transport_type pp = BROADCAST" "get_packed_flags pp = Inr (p_flags pp)" "p_destination_link pp = None" "p_hops pp = 0"
    using sg x h32
    by (simp_all add: pp_def identity_prove_def dat_def proof_destination_def bytes_simps packet_to_destination_def Let_def
        wire_sizes new_object_def with_flags_def get_packed_flags_def set_packet_type_def)
  obtain w where w: "pack lib pp = Inr w" "p_ciphertext w = dat"
    using f dl h32
    by (auto simp: pack_def pack_body_def sent_in_clear_def Let_def wire_sizes update_hash_def get_hash_def get_hashable_part_def)
  have "well_addressed pp ?d" using f h32 by (simp add: well_addressed_def wire_destination_def wire_sizes)
  from pack_unpack [OF w(1) this] obtain y where "unpack lib (packet_from_raw (p_raw w)) = (True, y)"
      "p_packet_type y = PROOF" "p_context y = CONTEXT_NONE" "p_destination_hash y = take 16 h" "p_data y = dat"
      "p_transport_id y = []" "p_destination_type y = SINGLE" "p_hops y = 0"
    using f w(2) by (auto simp: wire_destination_def)
  with pp w sg show ?thesis unfolding dat_def by blast
qed

lemma proof_validates:
  assumes lib: "crypto_ok lib" and k: "length k = 64"
    and me: "load_private_key lib r1 r2 k new_identity = Inr (True, me)"
    and "length h = 32" and "identity_sign lib me h = Inr sg"
    and r: "rc_hash r = h" "rc_identity r = Some (load_public_key lib (get_public_key me) new_identity)"
  shows "validate_receipt_proof lib now (if implicit then sg else h @ sg) r = Inr (True, deliver now r)"
proof -
  note s = loaded_identity(3) [OF lib k me assms(5)]
  have "identity_validate lib (load_public_key lib (get_public_key me) new_identity) sg h = Inr True"
    using identity_validate_loaded [OF loaded_identity(1) [OF lib k me]] s by simp
  then show ?thesis using assms(4) s r by (simp add: validate_receipt_proof_def bytes_simps)
qed

section \<open>Properties\<close>

text \<open>
  C21. A receipt is concluded as delivered only by a proof that carries a signature, valid under the
  key of the destination's identity, over the hash of the packet the receipt was made for; proofs
  for packets on a link never conclude one.
\<close>

theorem receipt_authentic:
  assumes "validate_proof_packet lib now on_link p r = Inr (True, r')"
  shows "\<not> on_link \<and> r' = deliver now r
    \<and> (\<exists>i pub sg. rc_identity r = Some i \<and> i_sig_pub i = Some pub \<and> (p_data p = rc_hash r @ sg \<or> p_data p = sg)
        \<and> length sg = 64 \<and> ed25519_verify lib sg (take 32 pub) (rc_hash r))"
proof -
  note v = validate_proof_packetD [OF assms]
  from v(2) obtain i sg where "rc_identity r = Some i" "identity_validate lib i sg (rc_hash r) = Inr True"
      "r' = deliver now r" "p_data p = rc_hash r @ sg \<or> p_data p = sg" "length sg = 64"
    by (rule validate_receipt_proofE) auto
  with identity_validateD v(1) show ?thesis by fastforce
qed

theorem receipt_authentic_witness:
  "\<exists>me r r'. load_private_key demo_lib [] [] (replicate 64 7) new_identity = Inr (True, me)
     \<and> validate_proof_packet demo_lib 3 False (new_object\<lparr>p_data := r\<rparr>) r' = Inr (True, deliver 3 r')
     \<and> (\<exists>i pub sg. rc_identity r' = Some i \<and> i_sig_pub i = Some pub \<and> (r = rc_hash r' @ sg \<or> r = sg)
        \<and> length sg = 64 \<and> ed25519_verify demo_lib sg (take 32 pub) (rc_hash r'))"
proof -
  obtain me where me: "load_private_key demo_lib [] [] (replicate 64 7) new_identity = Inr (True, me)"
    using load_private_key_eq [OF demo_lib_ok, of "replicate 64 7" "[]" "[]" new_identity] by simp
  obtain sg where sg: "identity_sign demo_lib me (replicate 32 5) = Inr sg"
    using loaded_identity(4) [OF demo_lib_ok _ me] by auto
  let ?r = "\<lparr>rc_hash = replicate 32 5, rc_truncated_hash = replicate 16 5, rc_sent_at = 0, rc_proved = False, rc_status = SENT,
      rc_identity = Some (load_public_key demo_lib (get_public_key me) new_identity), rc_concluded_at = 0,
      rc_timeout = 6, rc_probe = None\<rparr>"
  have "validate_receipt_proof demo_lib 3 (if True then sg else replicate 32 5 @ sg) ?r = Inr (True, deliver 3 ?r)"
    by (rule proof_validates [OF demo_lib_ok _ me _ sg]) simp_all
  then have v: "validate_proof_packet demo_lib 3 False (new_object\<lparr>p_data := sg\<rparr>) ?r = Inr (True, deliver 3 ?r)"
    by (simp add: validate_proof_packet_def)
  from me v conjunct2 [OF conjunct2 [OF receipt_authentic [OF v]]] show ?thesis
    by (intro exI [of _ me] exI [of _ sg] exI [of _ ?r]) simp
qed

text \<open>
  C17. The proof a destination sends for a packet concludes the sender's receipt: packed, sent and
  unpacked, it is addressed to the truncated hash of the packet, and the receipt made for that
  packet with the destination's public key accepts it, in the explicit and in the implicit form.
\<close>

theorem proof_concludes_receipt:
  assumes lib: "crypto_ok lib" and k: "length k = 64"
    and me: "load_private_key lib r1 r2 k new_identity = Inr (True, me)"
    and sent: "new_receipt lib ops ifs s now (Some (load_public_key lib (get_public_key me) new_identity)) rtt q = Inr r"
    and got: "get_hash lib x = get_hash lib q" "Inr (p_packet_hash x) = get_hash lib q"
  shows "\<exists>pp w y. identity_prove lib implicit me x None = Inr pp \<and> pack lib pp = Inr w
    \<and> unpack lib (packet_from_raw (p_raw w)) = (True, y) \<and> p_packet_type y = PROOF
    \<and> p_destination_hash y = rc_truncated_hash r
    \<and> validate_proof_packet lib now' False y r = Inr (True, deliver now' r)"
proof -
  from sent obtain h where h: "get_hash lib q = Inr h" "rc_hash r = h" "getTruncatedHash lib q = Inr (rc_truncated_hash r)"
      "rc_identity r = Some (load_public_key lib (get_public_key me) new_identity)"
    by (auto simp: new_receipt_def res_bind_eq_Inr split: option.splits)
  have "rc_truncated_hash r = take 16 h" and h32: "length h = 32"
    using h(1,3) crypto_okD(3,4,5) [OF lib]
    by (auto simp: get_hash_def getTruncatedHash_def truncated_hash_def full_hash_def sha256_def bytes_simps res_bind_eq_Inr)
  moreover obtain pp w y sg where "identity_prove lib implicit me x None = Inr pp" "pack lib pp = Inr w"
      "unpack lib (packet_from_raw (p_raw w)) = (True, y)" "p_packet_type y = PROOF" "p_destination_hash y = take 16 h"
      "p_data y = (if implicit then sg else h @ sg)" "identity_sign lib me h = Inr sg"
    using identity_prove_wire [OF lib k me, of x h implicit] got h(1) by auto
  ultimately show ?thesis
    using proof_validates [OF lib k me h32 _ h(2,4), of sg now' implicit] by (auto simp: validate_proof_packet_def)
qed

definition demo_sent :: packet where
  "demo_sent = demo_packet\<lparr>p_raw := replicate 19 8, p_packet_hash := full_hash demo_lib (8 # drop 2 (replicate 19 8))\<rparr>"

theorem proof_concludes_receipt_witness:
  "\<exists>me r pp w y. load_private_key demo_lib [] [] (replicate 64 7) new_identity = Inr (True, me)
    \<and> identity_prove demo_lib False me demo_sent None = Inr pp \<and> pack demo_lib pp = Inr w
    \<and> unpack demo_lib (packet_from_raw (p_raw w)) = (True, y)
    \<and> validate_proof_packet demo_lib 9 False y r = Inr (True, deliver 9 r) \<and> rc_status r = SENT"
proof -
  obtain me where me: "load_private_key demo_lib [] [] (replicate 64 7) new_identity = Inr (True, me)"
    using load_private_key_eq [OF demo_lib_ok, of "replicate 64 7" "[]" "[]" new_identity] by simp
  let ?x = demo_sent and ?i = "Some (load_public_key demo_lib (get_public_key me) new_identity)"
  let ?ops = "map_store :: (_, stored_path option) typed_store"
  have part: "get_hashable_part ?x = Inr (8 # drop 2 (replicate 19 8))" and dest: "p_destination ?x = Some demo_dest"
    by (simp_all add: demo_sent_def get_hashable_part_def new_object_def demo_packet_def bytes_simps)
  then have h: "get_hash demo_lib ?x = Inr (p_packet_hash ?x)" by (simp add: get_hash_def demo_sent_def)
  have none: "find_path demo_lib ?ops demo_ifs Map.empty a = None" for a
    by (simp add: find_path_def get_entry_def map_store_def)
  have "first_hop_timeout demo_lib ?ops demo_ifs Map.empty a = 6" for a
    by (simp add: first_hop_timeout_def next_hop_per_byte_latency_def next_hop_per_bit_latency_def
        next_hop_interface_bitrate_def next_hop_interface_def none Let_def)
  then have to: "\<exists>n. receipt_timeout demo_lib ?ops demo_ifs Map.empty demo_dest None = Inr n"
    by (simp add: receipt_timeout_def demo_dest_def int16_of_double_def Let_def)
  then obtain r where r: "new_receipt demo_lib ?ops demo_ifs Map.empty 4 ?i None ?x = Inr r" "rc_status r = SENT"
    by (auto simp: new_receipt_def h dest getTruncatedHash_def part)
  have "\<exists>pp w y. identity_prove demo_lib False me ?x None = Inr pp \<and> pack demo_lib pp = Inr w
    \<and> unpack demo_lib (packet_from_raw (p_raw w)) = (True, y) \<and> p_packet_type y = PROOF
    \<and> p_destination_hash y = rc_truncated_hash r
    \<and> validate_proof_packet demo_lib 9 False y r = Inr (True, deliver 9 r)"
    by (rule proof_concludes_receipt [OF demo_lib_ok _ me r(1)]) (simp_all add: h)
  then show ?thesis using me r(2) by blast
qed

text \<open>
  The receipts pass keeps at most 20 receipts, all of them waiting and within their time, and
  loses none: each of the waiting receipts is kept or its timeout handler is called, once.
\<close>

lemma receipts_job_exact:
  assumes "\<forall>r \<in> set rs. rc_status r = SENT \<and> rc_sent_at r \<le> now" and "receipts_job now rs = (kept, called)"
  shows "length kept \<le> MAX_RECEIPTS \<and> (\<forall>r \<in> set kept. rc_status r = SENT \<and> \<not> is_timed_out now r)
    \<and> mset (map rc_hash kept) + mset (map rc_hash called) = mset (map rc_hash rs)
    \<and> (\<forall>r \<in> set called. rc_status r = FAILED \<or> rc_status r = CULLED)"
proof -
  let ?n = "length rs - MAX_RECEIPTS"
  let ?c = "map (\<lambda>r. check_timeout now (set_timeout (- 1) r)) (take ?n rs)"
  let ?k = "map (check_timeout now) (drop ?n rs)"
  have kept: "kept = filter (\<lambda>r. rc_status r = SENT) (map fst ?k)"
    and called: "called = map fst (filter snd ?c) @ map fst (filter snd ?k)"
    using assms(2) by (simp_all add: receipts_job_def cull_receipts_def Let_def)
  have ct: "snd (check_timeout now (set_timeout (- 1) r)) \<and> rc_hash (fst (check_timeout now (set_timeout (- 1) r))) = rc_hash r"
    if "r \<in> set (take ?n rs)" for r
    using assms(1) in_set_takeD [OF that] by (auto simp: check_timeout_def set_timeout_def is_timed_out_def)
  then have "filter snd ?c = ?c" by simp
  then have culled: "map rc_hash (map fst (filter snd ?c)) = map rc_hash (take ?n rs)" using ct by simp
  have sent: "\<forall>r \<in> set (drop ?n rs). rc_status r = SENT" using assms(1) by (meson in_set_dropD)
  have "mset (map rc_hash kept) + mset (map rc_hash (map fst (filter snd ?k))) = mset (map rc_hash (drop ?n rs))"
    unfolding kept by (rule mset_partition_checked [OF sent])
  moreover have "mset (map rc_hash (take ?n rs)) + mset (map rc_hash (drop ?n rs)) = mset (map rc_hash rs)"
    by (metis append_take_drop_id map_append mset_append)
  moreover have "mset (map rc_hash called) = mset (map rc_hash (take ?n rs)) + mset (map rc_hash (map fst (filter snd ?k)))"
    unfolding called map_append mset_append culled ..
  ultimately have m: "mset (map rc_hash kept) + mset (map rc_hash called) = mset (map rc_hash rs)"
    by (rule add_regroup)
  have "length kept \<le> length ?k" unfolding kept by (metis length_filter_le length_map)
  then have "length kept \<le> MAX_RECEIPTS" by simp
  moreover have "\<forall>r \<in> set kept. rc_status r = SENT \<and> \<not> is_timed_out now r"
    unfolding kept using sent by (auto simp: check_timeout_def is_timed_out_def split: if_splits)
  moreover have "\<forall>r \<in> set called. rc_status r = FAILED \<or> rc_status r = CULLED"
    unfolding called by (auto simp: check_timeout_def split: if_splits)
  ultimately show ?thesis using m by blast
qed

definition demo_receipt :: "byte \<Rightarrow> real \<Rightarrow> receipt" where
  "demo_receipt b sent = \<lparr>rc_hash = [b], rc_truncated_hash = [b], rc_sent_at = sent, rc_proved = False, rc_status = SENT,
     rc_identity = None, rc_concluded_at = 0, rc_timeout = 15, rc_probe = None\<rparr>"

end
