(* ===== verification/Link.thy ===== *)
theory Link
  imports Destination
begin

text \<open>
  Encrypted links (\<open>Link.h\<close>, \<open>LinkData.h\<close>, \<open>Link.cpp\<close>): link requests and their signalling
  bytes, the handshake of initiator and destination, the link proof, encryption over the
  link, identification, teardown and the dispatch of received packets.

  A link is the record \<open>link\<close>; an operation returns the new link and what it asks of the rest of
  the program as a list of \<open>link_event\<close>s: packets it sends, callbacks it runs, decrypted input it
  hands to the request and resource handlers, \<open>Activate_link\<close> and \<open>Remove_link\<close> for the calls of
  \<open>Transport::activate_link\<close> and, for an incoming destination that has the link,
  \<open>Destination::remove_link\<close>.  A new link is returned with the packet that announces it; its
  registration with \<open>Transport\<close> is left to the caller.  Every operation takes one reading of the
  clock; random octets are arguments.  The encoding of the round-trip time (\<open>MsgPack\<close>, not part of
  the repository) is an argument.  Statistics (establishment rate, expected hops, signal quality)
  are not kept.
\<close>

section \<open>Modes and signalling\<close>

datatype link_status = PENDING | HANDSHAKE | LACTIVE | STALE | CLOSED
datatype teardown_reason = TEARDOWN_NONE | TIMEOUT | INITIATOR_CLOSED | DESTINATION_CLOSED
datatype link_mode =
    MODE_AES128_CBC | MODE_AES256_CBC | MODE_AES256_GCM | MODE_OTP_RESERVED
  | MODE_PQ_RESERVED_1 | MODE_PQ_RESERVED_2 | MODE_PQ_RESERVED_3 | MODE_PQ_RESERVED_4

fun link_mode_code :: "link_mode \<Rightarrow> nat" where
  "link_mode_code MODE_AES128_CBC = 0"
| "link_mode_code MODE_AES256_CBC = 1"
| "link_mode_code MODE_AES256_GCM = 2"
| "link_mode_code MODE_OTP_RESERVED = 3"
| "link_mode_code MODE_PQ_RESERVED_1 = 4"
| "link_mode_code MODE_PQ_RESERVED_2 = 5"
| "link_mode_code MODE_PQ_RESERVED_3 = 6"
| "link_mode_code MODE_PQ_RESERVED_4 = 7"

definition link_mode_of :: "nat \<Rightarrow> link_mode" where
  "link_mode_of n =
     [MODE_AES128_CBC, MODE_AES256_CBC, MODE_AES256_GCM, MODE_OTP_RESERVED, MODE_PQ_RESERVED_1,
      MODE_PQ_RESERVED_2, MODE_PQ_RESERVED_3, MODE_PQ_RESERVED_4] ! (n mod 8)"

abbreviation MODE_DEFAULT :: link_mode where "MODE_DEFAULT \<equiv> MODE_AES256_CBC"
abbreviation ECPUBSIZE :: nat where "ECPUBSIZE \<equiv> 32 + 32"
abbreviation LINK_MTU_SIZE :: nat where "LINK_MTU_SIZE \<equiv> 3"
abbreviation TOKEN_OVERHEAD :: nat where "TOKEN_OVERHEAD \<equiv> 48"
abbreviation ESTABLISHMENT_TIMEOUT_PER_HOP :: nat where "ESTABLISHMENT_TIMEOUT_PER_HOP \<equiv> 6"
abbreviation LINK_KEEPALIVE :: nat where "LINK_KEEPALIVE \<equiv> 360"

definition enabled_mode :: "link_mode \<Rightarrow> bool" where
  "enabled_mode mode \<longleftrightarrow> mode \<in> {MODE_AES256_CBC}"

definition signalling_bytes :: "nat \<Rightarrow> link_mode \<Rightarrow> bytes result" where
  "signalling_bytes mtu mode =
     (if \<not> enabled_mode mode then Inl Runtime_error
      else
        let v = mtu mod 2 ^ 21 + ((link_mode_code mode * 32) mod 256) * 65536
        in Inr [word_of_nat (v div 65536 mod 256), word_of_nat (v div 256 mod 256), word_of_nat (v mod 256)])"

text \<open>The value read from three octets, as \<open>uint16_t\<close>.\<close>

definition mtu_of_octets :: "byte \<Rightarrow> byte \<Rightarrow> byte \<Rightarrow> nat" where
  "mtu_of_octets a b c = (unat a * 65536 + unat b * 256 + unat c) mod 2 ^ 21 mod 2 ^ 16"

definition mtu_from_lr_packet :: "packet \<Rightarrow> nat" where
  "mtu_from_lr_packet p =
     (if length (p_data p) = ECPUBSIZE + LINK_MTU_SIZE
      then mtu_of_octets (p_data p ! ECPUBSIZE) (p_data p ! (ECPUBSIZE + 1)) (p_data p ! (ECPUBSIZE + 2))
      else 0)"

definition mtu_from_lp_packet :: "packet \<Rightarrow> nat" where
  "mtu_from_lp_packet p =
     (if length (p_data p) = SIGLENGTH div 8 + ECPUBSIZE div 2 + LINK_MTU_SIZE
      then
        let b = mid (p_data p) (SIGLENGTH div 8 + ECPUBSIZE div 2) LINK_MTU_SIZE
        in mtu_of_octets (b ! 0) (b ! 1) (b ! 2)
      else 0)"

definition mode_byte :: "link_mode \<Rightarrow> byte result" where
  "mode_byte mode =
     (if enabled_mode mode then Inr (word_of_nat (link_mode_code mode * 32 mod 256)) else Inl Runtime_error)"

definition mode_from_lr_packet :: "packet \<Rightarrow> link_mode" where
  "mode_from_lr_packet p =
     (if length (p_data p) > ECPUBSIZE then link_mode_of (unat (p_data p ! ECPUBSIZE AND 0xE0) div 32)
      else MODE_DEFAULT)"

definition mode_from_lp_packet :: "packet \<Rightarrow> link_mode" where
  "mode_from_lp_packet p =
     (if length (p_data p) > SIGLENGTH div 8 + ECPUBSIZE div 2
      then link_mode_of (unat (p_data p ! (SIGLENGTH div 8 + ECPUBSIZE div 2)) div 32)
      else MODE_DEFAULT)"

definition link_id_from_lr_packet :: "crypto_lib \<Rightarrow> packet \<Rightarrow> bytes result" where
  "link_id_from_lr_packet lib p =
     res_bind (get_hashable_part p) (\<lambda>h.
       Inr (truncated_hash lib
              (if length (p_data p) > ECPUBSIZE then left h (length h - (length (p_data p) - ECPUBSIZE)) else h)))"

section \<open>Links\<close>

record link =
  l_link_id :: bytes
  l_hash :: bytes
  l_status :: link_status
  l_mode :: link_mode
  l_rtt :: real
  l_mtu :: nat
  l_mdu :: nat
  l_last_inbound :: real
  l_last_outbound :: real
  l_last_data :: real
  l_last_proof :: real
  l_activated_at :: real
  l_owner :: "identity option"
  l_destination :: "identity option"
  l_destination_hash :: bytes
  l_initiator :: bool
  l_attached_interface :: "nat option"
  l_remote_identity :: "identity option"
  l_establishment_timeout :: real
  l_establishment_cost :: nat
  l_request_data :: bytes
  l_request_time :: real
  l_teardown_reason :: teardown_reason
  l_token :: "token option"
  l_prv :: "key_pair option"
  l_sig_prv :: "key_pair option"
  l_pub_bytes :: bytes
  l_sig_pub_bytes :: bytes
  l_peer_pub_bytes :: bytes
  l_peer_sig_pub_bytes :: bytes
  l_shared_key :: bytes
  l_derived_key :: bytes
  l_rx :: nat
  l_rxbytes :: nat

definition new_link_data :: link where
  "new_link_data =
     \<lparr>l_link_id = [], l_hash = [], l_status = PENDING, l_mode = MODE_DEFAULT, l_rtt = 0, l_mtu = MTU, l_mdu = 0,
      l_last_inbound = 0, l_last_outbound = 0, l_last_data = 0, l_last_proof = 0, l_activated_at = 0,
      l_owner = None, l_destination = None, l_destination_hash = [], l_initiator = False, l_attached_interface = None,
      l_remote_identity = None, l_establishment_timeout = 0, l_establishment_cost = 0, l_request_data = [],
      l_request_time = 0, l_teardown_reason = TEARDOWN_NONE, l_token = None, l_prv = None, l_sig_prv = None,
      l_pub_bytes = [], l_sig_pub_bytes = [], l_peer_pub_bytes = [], l_peer_sig_pub_bytes = [],
      l_shared_key = [], l_derived_key = [], l_rx = 0, l_rxbytes = 0\<rparr>"

datatype link_event =
    Send_packet packet_type byte bytes
  | Deliver bytes
  | Remote_identified
  | Established
  | Closed_callback
  | Activate_link
  | Cancel_resources
  | Remove_link
  | Prove_packet
  | Request_input bytes bytes
  | Response_input bytes
  | Resource_input byte bytes

definition had_outbound :: "real \<Rightarrow> bool \<Rightarrow> link \<Rightarrow> link" where
  "had_outbound now is_keepalive l =
     (let l1 = l\<lparr>l_last_outbound := now\<rparr> in if is_keepalive then l1 else l1\<lparr>l_last_data := now\<rparr>)"

definition load_peer :: "bytes \<Rightarrow> bytes \<Rightarrow> link \<Rightarrow> link" where
  "load_peer pub sig_pub l = l\<lparr>l_peer_pub_bytes := pub, l_peer_sig_pub_bytes := sig_pub\<rparr>"

definition set_link_id :: "crypto_lib \<Rightarrow> packet \<Rightarrow> link \<Rightarrow> link result" where
  "set_link_id lib p l =
     res_bind (link_id_from_lr_packet lib p) (\<lambda>i. Inr (l\<lparr>l_link_id := i, l_hash := i\<rparr>))"

text \<open>
  The \<open>double\<close> that \<open>update_mdu\<close> computes: the division is one of \<open>int\<close>s, which truncates towards
  zero, so that the value is an integer and \<open>floor\<close> leaves the quotient alone.  Its conversion
  to the \<open>uint16_t\<close> of the MDU is undefined when the value is negative or does not fit.
\<close>

definition mdu_value :: "nat \<Rightarrow> int" where
  "mdu_value mtu =
     (let d = int mtu - int IFAC_MIN_SIZE - int HEADER_MINSIZE - int TOKEN_OVERHEAD;
          q = (if d < 0 then - ((- d) div 16) else d div 16)
      in q * 16 - 1)"

definition mdu_of_mtu :: "nat \<Rightarrow> nat" where
  "mdu_of_mtu mtu = (let m = mdu_value mtu in if m < 0 \<or> 2 ^ 16 \<le> m then undefined else nat m)"

definition update_mdu :: "link \<Rightarrow> link" where
  "update_mdu l = l\<lparr>l_mdu := mdu_of_mtu (l_mtu l)\<rparr>"

text \<open>
  \<open>handshake\<close> assigns the status before the exchange: an exception leaves a link in the handshake
  state.  The second component is the exception.
\<close>

definition handshake :: "crypto_lib \<Rightarrow> link \<Rightarrow> link \<times> exn option" where
  "handshake lib l =
     (case l_prv l of
        None \<Rightarrow> (l, None)
      | Some prv \<Rightarrow>
          if l_status l \<noteq> PENDING then (l, None)
          else
            let l1 = l\<lparr>l_status := HANDSHAKE\<rparr>
            in case exchange lib prv (l_peer_pub_bytes l) of
                 Inl e \<Rightarrow> (l1, Some e)
               | Inr shared \<Rightarrow>
                   let l2 = l1\<lparr>l_shared_key := shared\<rparr>
                   in if l_mode l \<noteq> MODE_AES128_CBC \<and> l_mode l \<noteq> MODE_AES256_CBC then (l2, Some Invalid_argument)
                      else
                        (case hkdf lib (if l_mode l = MODE_AES128_CBC then 32 else 64) shared (l_link_id l) [] of
                           Inl e \<Rightarrow> (l2, Some e)
                         | Inr k \<Rightarrow> (l2\<lparr>l_derived_key := k\<rparr>, None)))"

subsection \<open>Encryption over the link\<close>

definition link_token :: "link \<Rightarrow> token result" where
  "link_token l = (case l_token l of Some t \<Rightarrow> Inr t | None \<Rightarrow> new_token (l_derived_key l) MODE_AES)"

definition link_encrypt :: "crypto_lib \<Rightarrow> bytes \<Rightarrow> link \<Rightarrow> bytes \<Rightarrow> (bytes \<times> link) result" where
  "link_encrypt lib iv l plaintext =
     res_bind (link_token l) (\<lambda>t.
     res_bind (token_encrypt lib iv t plaintext) (\<lambda>ct. Inr (ct, l\<lparr>l_token := Some t\<rparr>)))"

definition link_decrypt :: "crypto_lib \<Rightarrow> link \<Rightarrow> bytes \<Rightarrow> (bytes \<times> link) result" where
  "link_decrypt lib l ciphertext =
     (case link_token l of
        Inl e \<Rightarrow> if e = Undefined_behaviour then Inl e else Inr ([], l)
      | Inr t \<Rightarrow>
          (case token_decrypt lib t ciphertext of
             Inl e \<Rightarrow> if e = Undefined_behaviour then Inl e else Inr ([], l\<lparr>l_token := Some t\<rparr>)
           | Inr pt \<Rightarrow> Inr (pt, l\<lparr>l_token := Some t\<rparr>)))"

definition link_sign :: "crypto_lib \<Rightarrow> link \<Rightarrow> bytes \<Rightarrow> bytes result" where
  "link_sign lib l message =
     (case l_sig_prv l of None \<Rightarrow> Inl Undefined_behaviour | Some kp \<Rightarrow> Inr (ed_sign lib kp message))"

definition link_validate :: "crypto_lib \<Rightarrow> link \<Rightarrow> bytes \<Rightarrow> bytes \<Rightarrow> bool result" where
  "link_validate lib l signature message = ed_verify lib (l_peer_sig_pub_bytes l) signature message"

subsection \<open>Establishment\<close>

text \<open>
  The constructor of an outgoing link: what \<open>Transport\<close> knows of the path (hops, first-hop timeout,
  hardware MTU of the next hop, 0 for none) are arguments.  Returns the link and the packed request.
\<close>

definition new_initiator_link ::
  "crypto_lib \<Rightarrow> real \<Rightarrow> bytes \<Rightarrow> bytes \<Rightarrow> nat \<Rightarrow> real \<Rightarrow> nat \<Rightarrow> bool \<Rightarrow> link_mode \<Rightarrow> dest_view \<Rightarrow> identity \<Rightarrow>
     (link \<times> packet) result" where
  "new_initiator_link lib now rnd sig_rnd hops first_hop_timeout nh_hw_mtu mtu_discovery mode dv dest =
     (if dv_type dv \<noteq> SINGLE then Inl Logic_error
      else
        res_bind (X25519PrivateKey lib rnd []) (\<lambda>prv.
        res_bind (Ed25519PrivateKey lib sig_rnd []) (\<lambda>sig_prv.
        res_bind (signalling_bytes (if mtu_discovery \<and> nh_hw_mtu \<noteq> 0 then nh_hw_mtu else MTU) mode) (\<lambda>sb.
          let request_data = publicKey prv @ publicKey sig_prv @ sb;
              l = new_link_data
                    \<lparr>l_mode := mode, l_destination := Some dest, l_destination_hash := dv_hash dv, l_initiator := True, l_prv := Some prv,
                     l_sig_prv := Some sig_prv, l_pub_bytes := publicKey prv, l_sig_pub_bytes := publicKey sig_prv,
                     l_establishment_timeout :=
                       first_hop_timeout + real (ESTABLISHMENT_TIMEOUT_PER_HOP * max 1 hops),
                     l_request_data := request_data\<rparr>
          in res_bind (packet_to_destination (Some dv) request_data) (\<lambda>p0.
             res_bind (set_packet_type LINKREQUEST p0) (\<lambda>p1.
             res_bind (pack lib p1) (\<lambda>p.
             res_bind (set_link_id lib p
                (l\<lparr>l_establishment_cost := length (p_raw p) mod 2 ^ 16\<rparr>)) (\<lambda>l1.
               Inr (had_outbound now False (l1\<lparr>l_request_time := now\<rparr>), p)))))))))"

definition link_view_of :: "crypto_lib \<Rightarrow> bytes \<Rightarrow> link \<Rightarrow> link_view" where
  "link_view_of lib iv l =
     \<lparr>lv_id = l_link_id l, lv_mtu = l_mtu l,
      lv_encrypt = (\<lambda>d. res_bind (link_encrypt lib iv l d) (\<lambda>(ct, _). Inr ct))\<rparr>"

text \<open>A packet over the link, built and packed as \<open>send\<close> does.\<close>

definition link_packet :: "crypto_lib \<Rightarrow> bytes \<Rightarrow> link \<Rightarrow> packet_type \<Rightarrow> byte \<Rightarrow> bytes \<Rightarrow> packet result" where
  "link_packet lib iv l ty ctx dat =
     (if l_status l = CLOSED then Inl Runtime_error
      else
        res_bind (packet_to_link (link_view_of lib iv l) dat) (\<lambda>p0.
        res_bind (set_packet_type ty p0) (\<lambda>p1.
        res_bind (set_context ctx p1) (pack lib))))"

definition with_token :: "link \<Rightarrow> link" where
  "with_token l = (case link_token l of Inr t \<Rightarrow> l\<lparr>l_token := Some t\<rparr> | Inl _ \<Rightarrow> l)"

definition link_send ::
  "crypto_lib \<Rightarrow> real \<Rightarrow> bytes \<Rightarrow> bool \<Rightarrow> packet_type \<Rightarrow> byte \<Rightarrow> bytes \<Rightarrow> link \<Rightarrow> (link \<times> link_event list) result" where
  "link_send lib now iv is_keepalive ty ctx dat l =
     res_bind (link_packet lib iv l ty ctx dat) (\<lambda>p.
       Inr (had_outbound now is_keepalive (if p_encrypted p then with_token l else l), [Send_packet ty ctx dat]))"

definition link_prove :: "crypto_lib \<Rightarrow> real \<Rightarrow> link \<Rightarrow> (link \<times> bytes) result" where
  "link_prove lib now l =
     (case l_owner l of
        None \<Rightarrow> Inl Undefined_behaviour
      | Some owner \<Rightarrow>
          res_bind (signalling_bytes (l_mtu l) (l_mode l)) (\<lambda>sb.
          res_bind (identity_sign lib owner (l_link_id l @ l_pub_bytes l @ l_sig_pub_bytes l @ sb)) (\<lambda>signature.
            let proof_data = signature @ l_pub_bytes l @ sb
            in res_bind (link_packet lib [] l PROOF LRPROOF proof_data) (\<lambda>p.
                 Inr (had_outbound now False
                        (l\<lparr>l_establishment_cost := (l_establishment_cost l + length (p_raw p)) mod 2 ^ 16\<rparr>),
                      proof_data)))))"

text \<open>
  \<open>validate_request\<close> at the destination: the accepted link and its proof, \<open>None\<close> when the request
  is dropped.
\<close>

definition validate_request ::
  "crypto_lib \<Rightarrow> real \<Rightarrow> bytes \<Rightarrow> identity \<Rightarrow> nat option \<Rightarrow> bytes \<Rightarrow> packet \<Rightarrow> (link \<times> bytes) option result" where
  "validate_request lib now rnd owner iface dat p =
     (if length dat \<noteq> ECPUBSIZE \<and> length dat \<noteq> ECPUBSIZE + LINK_MTU_SIZE then Inr None
      else
        try_catch
          (res_bind (X25519PrivateKey lib rnd []) (\<lambda>prv.
           res_bind (case i_sig_prv owner of None \<Rightarrow> Inl Undefined_behaviour | Some k \<Rightarrow> Inr k) (\<lambda>sig_prv.
           res_bind (set_link_id lib p
              (load_peer (left dat (ECPUBSIZE div 2)) (mid dat (ECPUBSIZE div 2) (ECPUBSIZE div 2))
                (new_link_data\<lparr>l_owner := Some owner, l_prv := Some prv, l_sig_prv := Some sig_prv,
                   l_pub_bytes := publicKey prv, l_sig_pub_bytes := publicKey sig_prv\<rparr>))) (\<lambda>l0.
             let m = mtu_from_lr_packet p;
                 l1 = (if length dat = ECPUBSIZE + LINK_MTU_SIZE then l0\<lparr>l_mtu := (if m \<noteq> 0 then m else MTU)\<rparr> else l0);
                 l2 = update_mdu (l1\<lparr>l_mode := mode_from_lr_packet p\<rparr>);
                 l3 = l2\<lparr>l_destination := Some owner, l_destination_hash := p_destination_hash p,
                         l_establishment_timeout :=
                           real (ESTABLISHMENT_TIMEOUT_PER_HOP * max 1 (unat (p_hops p)) + LINK_KEEPALIVE),
                         l_establishment_cost := (l_establishment_cost l2 + length (p_raw p)) mod 2 ^ 16\<rparr>
             in case handshake lib l3 of
                  (_, Some e) \<Rightarrow> Inl e
                | (l4, None) \<Rightarrow>
                    res_bind (link_prove lib now (l4\<lparr>l_attached_interface := iface\<rparr>)) (\<lambda>(l5, proof_data).
                      Inr (Some (l5\<lparr>l_request_time := now, l_last_inbound := now\<rparr>, proof_data)))))))
          (\<lambda>_. Inr None))"

text \<open>
  \<open>validate_proof\<close> at the initiator, for a proof received on interface \<open>iface\<close>.  An exception
  closes the link, whatever was assigned before.
\<close>

definition close_on_exn :: "link \<Rightarrow> exn \<Rightarrow> (link \<times> link_event list) result" where
  "close_on_exn l e = (if e = Undefined_behaviour then Inl e else Inr (l\<lparr>l_status := CLOSED\<rparr>, []))"

definition proof_accepted ::
  "crypto_lib \<Rightarrow> (real \<Rightarrow> bytes) \<Rightarrow> real \<Rightarrow> bytes \<Rightarrow> nat option \<Rightarrow> nat \<Rightarrow> link \<Rightarrow> (link \<times> link_event list) result" where
  "proof_accepted lib pack_rtt now iv iface confirmed_mtu l =
     (let l1 = update_mdu (l\<lparr>l_rtt := now - l_request_time l, l_attached_interface := iface,
                 l_remote_identity := l_destination l,
                 l_mtu := (if confirmed_mtu \<noteq> 0 then confirmed_mtu else MTU)\<rparr>);
          l2 = l1\<lparr>l_status := LACTIVE, l_activated_at := now, l_last_proof := now\<rparr>
      in case link_send lib now iv False DATA LRRTT (pack_rtt (l_rtt l2)) l2 of
           Inl e \<Rightarrow> res_bind (close_on_exn l2 e) (\<lambda>(l3, evs). Inr (l3, Activate_link # evs))
         | Inr (l3, evs) \<Rightarrow> Inr (l3, Activate_link # evs @ [Established]))"

definition validate_proof ::
  "crypto_lib \<Rightarrow> (real \<Rightarrow> bytes) \<Rightarrow> real \<Rightarrow> bytes \<Rightarrow> nat option \<Rightarrow> packet \<Rightarrow> link \<Rightarrow> (link \<times> link_event list) result" where
  "validate_proof lib pack_rtt now iv iface p l =
     (if l_status l \<noteq> PENDING then Inr (l, [])
      else if mode_from_lp_packet p \<noteq> l_mode l then close_on_exn l Runtime_error
      else
        let full = (length (p_data p) = SIGLENGTH div 8 + ECPUBSIZE div 2 + LINK_MTU_SIZE);
            confirmed_mtu = (if full then mtu_from_lp_packet p else 0);
            packet_data = (if full then left (p_data p) (SIGLENGTH div 8 + ECPUBSIZE div 2) else p_data p)
        in case (if full then signalling_bytes confirmed_mtu (mode_from_lp_packet p) else Inr []) of
             Inl e \<Rightarrow> close_on_exn l e
           | Inr sb \<Rightarrow>
               if \<not> (l_initiator l \<and> length packet_data = SIGLENGTH div 8 + ECPUBSIZE div 2) then Inr (l, [])
               else
                 (case l_destination l of
                    None \<Rightarrow> Inl Undefined_behaviour
                  | Some dest \<Rightarrow>
                      (case handshake lib (load_peer (mid packet_data (SIGLENGTH div 8) (ECPUBSIZE div 2))
                              (mid (get_public_key dest) (ECPUBSIZE div 2) (ECPUBSIZE div 2)) l) of
                         (l1, Some e) \<Rightarrow> close_on_exn l1 e
                       | (l1, None) \<Rightarrow>
                           let l2 = l1\<lparr>l_establishment_cost := (l_establishment_cost l1 + length (p_raw p)) mod 2 ^ 16\<rparr>
                           in case identity_validate lib dest (left packet_data (SIGLENGTH div 8))
                                     (l_link_id l2 @ l_peer_pub_bytes l2 @ l_peer_sig_pub_bytes l2 @ sb) of
                                Inl e \<Rightarrow> close_on_exn l2 e
                              | Inr False \<Rightarrow> Inr (l2, [])
                              | Inr True \<Rightarrow>
                                  if l_status l2 \<noteq> HANDSHAKE then close_on_exn l2 Runtime_error
                                  else proof_accepted lib pack_rtt now iv iface confirmed_mtu l2)))"

subsection \<open>Closing\<close>

definition link_closed :: "link \<Rightarrow> link \<times> link_event list" where
  "link_closed l =
     (l\<lparr>l_prv := None, l_pub_bytes := [], l_shared_key := [], l_derived_key := []\<rparr>,
      [Cancel_resources, Remove_link, Closed_callback])"

definition teardown :: "crypto_lib \<Rightarrow> real \<Rightarrow> bytes \<Rightarrow> link \<Rightarrow> (link \<times> link_event list) result" where
  "teardown lib now iv l =
     res_bind
       (if l_status l \<noteq> PENDING \<and> l_status l \<noteq> CLOSED then
          link_send lib now iv False DATA LINKCLOSE (l_link_id l) l
        else Inr (l, []))
       (\<lambda>(l1, evs).
          let (l2, evs') = link_closed
                (l1\<lparr>l_status := CLOSED,
                    l_teardown_reason := (if l_initiator l1 then INITIATOR_CLOSED else DESTINATION_CLOSED)\<rparr>)
          in Inr (l2, evs @ evs'))"

definition teardown_packet :: "crypto_lib \<Rightarrow> packet \<Rightarrow> link \<Rightarrow> (link \<times> link_event list) result" where
  "teardown_packet lib p l =
     res_bind (link_decrypt lib l (p_data p)) (\<lambda>(plaintext, l1).
       Inr (if plaintext = l_link_id l1 then
              link_closed
                (l1\<lparr>l_status := CLOSED,
                    l_teardown_reason := (if l_initiator l1 then DESTINATION_CLOSED else INITIATOR_CLOSED)\<rparr>)
            else (l1, [])))"

subsection \<open>Traffic\<close>

definition rtt_packet ::
  "crypto_lib \<Rightarrow> (bytes \<Rightarrow> real) \<Rightarrow> real \<Rightarrow> packet \<Rightarrow> link \<Rightarrow> (link \<times> link_event list) result" where
  "rtt_packet lib unpack_rtt now p l =
     res_bind (link_decrypt lib l (p_data p)) (\<lambda>(plaintext, l1).
       Inr (if plaintext \<noteq> [] then
              (l1\<lparr>l_rtt := max (now - l_request_time l1) (unpack_rtt plaintext), l_status := LACTIVE,
                  l_activated_at := now\<rparr>, [Established])
            else (l1, [])))"

definition link_identify :: "crypto_lib \<Rightarrow> real \<Rightarrow> bytes \<Rightarrow> identity \<Rightarrow> link \<Rightarrow> (link \<times> link_event list) result" where
  "link_identify lib now iv i l =
     (if l_initiator l \<and> l_status l = LACTIVE then
        res_bind (identity_sign lib i (l_link_id l @ get_public_key i)) (\<lambda>signature.
          link_send lib now iv False DATA LINKIDENTIFY (get_public_key i @ signature) l)
      else Inr (l, []))"

definition prove_packet :: "crypto_lib \<Rightarrow> real \<Rightarrow> packet \<Rightarrow> link \<Rightarrow> (link \<times> link_event list) result" where
  "prove_packet lib now p l =
     res_bind (link_sign lib l (p_packet_hash p)) (\<lambda>signature.
       link_send lib now [] False PROOF CONTEXT_NONE (p_packet_hash p @ signature) l)"

definition send_keepalive :: "crypto_lib \<Rightarrow> real \<Rightarrow> link \<Rightarrow> (link \<times> link_event list) result" where
  "send_keepalive lib now l = link_send lib now [] True DATA KEEPALIVE [0xFF] l"

definition receive_identify :: "crypto_lib \<Rightarrow> packet \<Rightarrow> link \<Rightarrow> (link \<times> link_event list) result" where
  "receive_identify lib p l =
     res_bind (link_decrypt lib l (p_data p)) (\<lambda>(plaintext, l1).
       if plaintext \<noteq> [] \<and> \<not> l_initiator l1 \<and> length plaintext = KEYSIZE div 8 + SIGLENGTH div 8 then
         let public_key = left plaintext (KEYSIZE div 8);
             i = load_public_key lib public_key new_identity
         in res_bind (identity_validate lib i (mid plaintext (KEYSIZE div 8) (SIGLENGTH div 8))
                        (l_link_id l1 @ public_key)) (\<lambda>ok.
              Inr (if ok then (l1\<lparr>l_remote_identity := Some i\<rparr>, [Remote_identified]) else (l1, [])))
       else Inr (l1, []))"

text \<open>Decrypt, and hand a non-empty plaintext on.\<close>

definition decrypt_input ::
  "crypto_lib \<Rightarrow> packet \<Rightarrow> (bytes \<Rightarrow> link_event list) \<Rightarrow> link \<Rightarrow> (link \<times> link_event list) result" where
  "decrypt_input lib p ev l =
     res_bind (link_decrypt lib l (p_data p)) (\<lambda>(plaintext, l1).
       Inr (l1, if plaintext \<noteq> [] then ev plaintext else []))"

text \<open>
  The dispatch on the context of a data packet.  \<open>prove\<close> tells whether the proof strategy of the
  destination (and its callback) asks for a proof.
\<close>

definition receive_data ::
  "crypto_lib \<Rightarrow> (bytes \<Rightarrow> real) \<Rightarrow> bool \<Rightarrow> real \<Rightarrow> packet \<Rightarrow> link \<Rightarrow> (link \<times> link_event list) result" where
  "receive_data lib unpack_rtt prove now p l =
     (if p_context p = CONTEXT_NONE then
        decrypt_input lib p (\<lambda>pt. Deliver pt # (if prove then [Prove_packet] else [])) l
      else if p_context p = LINKIDENTIFY then receive_identify lib p l
      else if p_context p = REQUEST then
        res_bind (getTruncatedHash lib p) (\<lambda>rid. decrypt_input lib p (\<lambda>pt. [Request_input rid pt]) l)
      else if p_context p = RESPONSE then decrypt_input lib p (\<lambda>pt. [Response_input pt]) l
      else if p_context p = LRRTT then
        (if \<not> l_initiator l then rtt_packet lib unpack_rtt now p l else Inr (l, []))
      else if p_context p = LINKCLOSE then teardown_packet lib p l
      else if p_context p = RESOURCE_ADV \<or> p_context p = RESOURCE_REQ \<or> p_context p = RESOURCE_HMU
              \<or> p_context p = RESOURCE_ICL then
        decrypt_input lib p (\<lambda>pt. [Resource_input (p_context p) pt]) l
      else if p_context p = KEEPALIVE then
        (if \<not> l_initiator l \<and> p_data p = [0xFF]
         then link_send lib now [] True DATA KEEPALIVE [0xFE] l else Inr (l, []))
      else if p_context p = RESOURCE then Inr (l, [Resource_input RESOURCE (p_data p)])
      else Inr (l, []))"

definition link_receive ::
  "crypto_lib \<Rightarrow> (bytes \<Rightarrow> real) \<Rightarrow> bool \<Rightarrow> real \<Rightarrow> nat option \<Rightarrow> packet \<Rightarrow> link \<Rightarrow> (link \<times> link_event list) result" where
  "link_receive lib unpack_rtt prove now iface p l =
     (if l_status l = CLOSED \<or> (l_initiator l \<and> p_context p = KEEPALIVE \<and> p_data p = [0xFF]) then Inr (l, [])
      else if iface \<noteq> l_attached_interface l then Inr (l, [])
      else
        let l1 = l\<lparr>l_last_inbound := now,
                   l_last_data := (if p_context p \<noteq> KEEPALIVE then now else l_last_data l),
                   l_rx := (l_rx l + 1) mod 2 ^ 16, l_rxbytes := (l_rxbytes l + length (p_data p)) mod 2 ^ 16,
                   l_status := (if l_status l = STALE then LACTIVE else l_status l)\<rparr>
        in if p_packet_type p = DATA then receive_data lib unpack_rtt prove now p l1
           else if p_packet_type p = PROOF then
             Inr (l1, if p_context p = RESOURCE_PRF then [Resource_input RESOURCE_PRF (p_data p)] else [])
           else Inr (l1, []))"

text \<open>\<open>handle_request\<close>: whether the handler answers, and with what.\<close>

definition request_allowed :: "request_handler \<Rightarrow> identity option \<Rightarrow> bool" where
  "request_allowed h remote =
     (if rh_allow h = ALLOW_NONE then False
      else if rh_allow h = ALLOW_LIST then
        (case remote of None \<Rightarrow> False | Some i \<Rightarrow> i_hash i \<in> rh_allowed_list h)
      else True)"

definition handle_request ::
  "(bytes \<Rightarrow> request_handler option) \<Rightarrow> bytes \<Rightarrow> real \<Rightarrow> bytes \<Rightarrow> bytes \<Rightarrow> link \<Rightarrow> bytes option result" where
  "handle_request handlers request_id requested_at path_hash request_data l =
     (if l_status l \<noteq> LACTIVE then Inr None
      else
        (case handlers path_hash of
           None \<Rightarrow> Inr None
         | Some h \<Rightarrow>
             if request_allowed h (l_remote_identity l) then
               (case rh_response_generator h of
                  None \<Rightarrow> Inl Undefined_behaviour
                | Some g \<Rightarrow>
                    let response = g (rh_path h) request_data request_id (l_link_id l) (l_remote_identity l) requested_at
                    in Inr (if response \<noteq> [] then Some response else None))
             else Inr None))"

section \<open>The link as a state machine\<close>

inductive link_step :: "crypto_lib \<Rightarrow> link \<Rightarrow> link_event list \<Rightarrow> link \<Rightarrow> bool" for lib where
  step_receive: "link_receive lib unpack_rtt prove now iface p l = Inr (l', evs) \<Longrightarrow> link_step lib l evs l'"
| step_proof: "validate_proof lib pack_rtt now iv iface p l = Inr (l', evs) \<Longrightarrow> link_step lib l evs l'"
| step_teardown: "teardown lib now iv l = Inr (l', evs) \<Longrightarrow> link_step lib l evs l'"
| step_identify: "link_identify lib now iv i l = Inr (l', evs) \<Longrightarrow> link_step lib l evs l'"
| step_prove: "prove_packet lib now p l = Inr (l', evs) \<Longrightarrow> link_step lib l evs l'"
| step_keepalive: "send_keepalive lib now l = Inr (l', evs) \<Longrightarrow> link_step lib l evs l'"

inductive link_run :: "crypto_lib \<Rightarrow> link \<Rightarrow> link_event list \<Rightarrow> link \<Rightarrow> bool" for lib where
  run_nil: "link_run lib l [] l"
| run_step: "link_step lib l evs l1 \<Longrightarrow> link_run lib l1 evs' l' \<Longrightarrow> link_run lib l (evs @ evs') l'"

fun is_send :: "link_event \<Rightarrow> bool" where
  "is_send (Send_packet _ _ _) = True"
| "is_send (Deliver _) = True"
| "is_send _ = False"

section \<open>Lemmas\<close>

lemma signalling_bytes_eq:
  assumes "mtu < 2 ^ 16"
  shows "signalling_bytes mtu MODE_AES256_CBC = Inr [0x20, word_of_nat (mtu div 256), word_of_nat (mtu mod 256)]"
proof -
  have "mtu div 256 < 256" using assms by (simp add: less_mult_imp_div_less)
  then have "(mtu + 2097152) div 256 mod 256 = mtu div 256" "(mtu + 2097152) div 65536 = 32" "(mtu + 2097152) mod 256 = mtu mod 256"
    using assms div_mult_self2 [of 256 mtu 8192] div_mult_self2 [of 65536 mtu 32] mod_mult_self2 [of mtu 256 8192]
      mod_mult_self2 [of "mtu div 256" 256 32]
    by (simp_all add: ac_simps)
  moreover have "mtu mod 2097152 = mtu" using assms by simp
  ultimately show ?thesis by (simp add: signalling_bytes_def enabled_mode_def Let_def)
qed

lemma mtu_of_signalling:
  assumes "mtu < 2 ^ 16"
  shows "mtu_of_octets 0x20 (word_of_nat (mtu div 256)) (word_of_nat (mtu mod 256)) = mtu"
proof -
  have "mtu div 256 < 256" using assms by (simp add: less_mult_imp_div_less)
  then have "unat (word_of_nat (mtu div 256) :: byte) = mtu div 256" "unat (word_of_nat (mtu mod 256) :: byte) = mtu mod 256"
    by simp_all
  then show ?thesis using assms by (simp add: mtu_of_octets_def)
qed

lemma link_send_status:
  assumes "link_send lib now iv ka ty ctx dat l = Inr (l', evs)"
  shows "l_status l \<noteq> CLOSED" and "l_status l' = l_status l" and "l_peer_pub_bytes l' = l_peer_pub_bytes l"
  using assms
  by (auto simp: link_send_def link_packet_def with_token_def had_outbound_def Let_def res_bind_eq_Inr
      split: if_splits sum.splits)

lemma link_step_closed:
  assumes "link_step lib l evs l'" and "l_status l = CLOSED"
  shows "l_status l' = CLOSED \<and> (\<forall>e \<in> set evs. \<not> is_send e)"
  using assms
proof (cases rule: link_step.cases)
  case (step_teardown now iv)
  with assms show ?thesis by (auto simp: teardown_def link_closed_def Let_def)
next
  case (step_prove now p)
  with assms show ?thesis by (auto simp: prove_packet_def res_bind_eq_Inr dest: link_send_status)
next
  case (step_keepalive now)
  with assms show ?thesis by (auto simp: send_keepalive_def dest: link_send_status)
qed (auto simp: link_receive_def validate_proof_def link_identify_def)

text \<open>The MDU computation: exact above the overheads, negative below.\<close>

lemma mdu_of_mtu_eq:
  assumes "84 \<le> mtu" and "mtu < 2 ^ 16"
  shows "mdu_of_mtu mtu = 16 * ((mtu - 68) div 16) - 1"
proof -
  let ?q = "(mtu - 68) div 16"
  have d: "int mtu - int IFAC_MIN_SIZE - int HEADER_MINSIZE - int TOKEN_OVERHEAD = int (mtu - 68)"
    using assms by (simp add: wire_sizes)
  have q: "1 \<le> ?q" "16 * ?q \<le> mtu" using assms by auto
  have v: "mdu_value mtu = int ?q * 16 - 1" unfolding mdu_value_def Let_def d by (simp add: zdiv_int)
  have "nat (int ?q * 16 - 1) = 16 * ?q - 1" using q(1) by (simp add: nat_eq_iff of_nat_diff)
  then show ?thesis using q assms(2) unfolding mdu_of_mtu_def Let_def v by simp
qed

text \<open>An MTU below 84 octets, which a link request can signal, makes the value negative.\<close>

lemma mdu_value_negative:
  assumes "mtu < 84"
  shows "mdu_value mtu < 0"
proof -
  have gen: "(if d < 0 then - ((- d) div 16) else d div 16) \<le> 0" if "d < 16" for d :: int
    using that by (cases "d < 0") (simp_all add: pos_imp_zdiv_nonneg_iff div_pos_pos_trivial)
  have d: "int mtu - int IFAC_MIN_SIZE - int HEADER_MINSIZE - int TOKEN_OVERHEAD < 16"
    using assms by (simp add: wire_sizes)
  have "q \<le> 0 \<Longrightarrow> q * 16 - 1 < 0" for q :: int by simp
  from this [OF gen [OF d]] show ?thesis unfolding mdu_value_def Let_def .
qed

lemma block_fits_iff:
  fixes n mtu :: nat
  assumes "84 \<le> mtu"
  shows "68 + 16 * (n div 16 + 1) \<le> mtu \<longleftrightarrow> n \<le> 16 * ((mtu - 68) div 16) - 1"
proof -
  define a where "a = (mtu - 68) div 16"
  have a: "1 \<le> a" using assms by (simp add: a_def)
  have "68 + 16 * (n div 16 + 1) \<le> mtu \<longleftrightarrow> (n div 16 + 1) * 16 \<le> mtu - 68" using assms by auto
  also have "\<dots> \<longleftrightarrow> n div 16 < a" unfolding a_def by (simp only: less_eq_div_iff_mult_less_eq Suc_le_eq [symmetric] Suc_eq_plus1)
  also have "\<dots> \<longleftrightarrow> n < a * 16" by (simp add: div_less_iff_less_mult)
  finally show ?thesis using a unfolding a_def [symmetric] by auto
qed

subsection \<open>The handshake\<close>

text \<open>The link id depends on the raw packet, the header type and the payload length only.\<close>

lemma link_id_cong:
  "p_raw p = p_raw q \<Longrightarrow> p_header_type p = p_header_type q \<Longrightarrow> p_data p = p_data q \<Longrightarrow>
     link_id_from_lr_packet lib p = link_id_from_lr_packet lib q"
  by (simp add: link_id_from_lr_packet_def get_hashable_part_def Let_def)

lemma length_link_id: "crypto_ok lib \<Longrightarrow> link_id_from_lr_packet lib p = Inr i \<Longrightarrow> length i = 16"
  by (auto simp: link_id_from_lr_packet_def res_bind_eq_Inr length_truncated_hash)

lemma request_packet_wire:
  assumes "dv_type dv = SINGLE" and "length (dv_hash dv) = 16" and "length dat \<le> MDU"
  shows "\<exists>p0 p1 q r. packet_to_destination (Some dv) dat = Inr p0 \<and> set_packet_type LINKREQUEST p0 = Inr p1 \<and>
    pack lib p1 = Inr q \<and> p_data q = dat \<and> unpack lib (packet_from_raw (p_raw q)) = (True, r) \<and>
    p_packet_type r = LINKREQUEST \<and> p_data r = dat \<and> p_destination_hash r = dv_hash dv \<and>
    p_raw r = p_raw q \<and> p_header_type r = p_header_type q \<and> p_raw q \<noteq> []"
proof -
  obtain p0 p1 where p: "packet_to_destination (Some dv) dat = Inr p0" "set_packet_type LINKREQUEST p0 = Inr p1"
    and f: "p_destination p1 = Some dv" "p_data p1 = dat" "p_packet_type p1 = LINKREQUEST" "p_header_type p1 = HEADER_1"
      "p_MTU p1 = MTU" "p_context p1 = CONTEXT_NONE" "p_transport_type p1 = BROADCAST" "get_packed_flags p1 = Inr (p_flags p1)"
    using assms
    by (simp add: packet_to_destination_def Let_def new_object_def with_flags_def set_packet_type_def get_packed_flags_def)
  obtain q where q: "pack lib p1 = Inr q" and ct: "p_ciphertext q = dat" "p_data q = dat"
    using f assms
    by (auto simp: pack_def pack_body_def sent_in_clear_def Let_def wire_sizes
        update_hash_def get_hash_def get_hashable_part_def)
  have "well_addressed p1 dv" using f assms by (simp add: well_addressed_def wire_destination_def wire_sizes)
  from pack_unpack [OF q this] obtain r where r: "unpack lib (packet_from_raw (p_raw q)) = (True, r)"
      "p_packet_type r = LINKREQUEST" "p_data r = dat" "p_destination_hash r = dv_hash dv" "p_raw r = p_raw q"
      "p_header_type r = HEADER_1"
    using f ct by (auto simp: wire_destination_def)
  moreover have "p_raw q \<noteq> []" "p_header_type q = HEADER_1" using pack_wire(1,3) [OF q f(1)] f(4) by simp_all
  ultimately show ?thesis using p q ct(2) by metis
qed

lemma initiator_link_eq:
  assumes "new_initiator_link lib now rnd sig_rnd hops fht nh disc MODE_AES256_CBC dv dest = Inr (l, q)"
    and "crypto_ok lib" and "length rnd = 32" and "length sig_rnd = 32" and "length (dv_hash dv) = 16"
    and "mtu = (if disc \<and> nh \<noteq> 0 then nh else MTU)" and "mtu < 2 ^ 16"
  shows "\<exists>r. unpack lib (packet_from_raw (p_raw q)) = (True, r) \<and> p_packet_type r = LINKREQUEST
     \<and> p_data r = fst (x25519_eval lib rnd None) @ ed25519_derive lib sig_rnd
         @ [0x20, word_of_nat (mtu div 256), word_of_nat (mtu mod 256)]
     \<and> link_id_from_lr_packet lib r = Inr (l_link_id l)"
    and "l_status l = PENDING" and "l_initiator l" and "l_mode l = MODE_AES256_CBC" and "l_destination l = Some dest"
    and "l_prv l = Some \<lparr>privateKey = rnd, publicKey = fst (x25519_eval lib rnd None)\<rparr>" and "l_token l = None"
proof -
  let ?dat = "fst (x25519_eval lib rnd None) @ ed25519_derive lib sig_rnd
      @ [0x20, word_of_nat (mtu div 256), word_of_nat (mtu mod 256)]"
  have sb: "signalling_bytes (if disc \<and> 0 < nh then nh else MTU) MODE_AES256_CBC
      = Inr [0x20, word_of_nat (mtu div 256), word_of_nat (mtu mod 256)]"
    using signalling_bytes_eq [OF assms(7)] assms(6) by (auto split: if_splits)
  have len: "length ?dat = 67" by (simp add: crypto_okD [OF assms(2)])
  then have fits: "length ?dat \<le> MDU" by (simp add: wire_sizes)
  have single: "dv_type dv = SINGLE" using assms(1) by (auto simp: new_initiator_link_def split: if_splits)
  obtain p0 p1 q' r where w: "packet_to_destination (Some dv) ?dat = Inr p0" "set_packet_type LINKREQUEST p0 = Inr p1"
    "pack lib p1 = Inr q'" "p_data q' = ?dat" "unpack lib (packet_from_raw (p_raw q')) = (True, r)"
    "p_packet_type r = LINKREQUEST" "p_data r = ?dat" "p_raw r = p_raw q'" "p_header_type r = p_header_type q'" "p_raw q' \<noteq> []"
    using request_packet_wire [OF single assms(5) fits, of lib] by blast
  obtain i where i: "link_id_from_lr_packet lib q' = Inr i"
    using w(10) by (auto simp: link_id_from_lr_packet_def get_hashable_part_def Let_def)
  have eq: "q = q' \<and> l_link_id l = i \<and> l_status l = PENDING \<and> l_initiator l \<and> l_mode l = MODE_AES256_CBC
      \<and> l_destination l = Some dest \<and> l_token l = None
      \<and> l_prv l = Some \<lparr>privateKey = rnd, publicKey = fst (x25519_eval lib rnd None)\<rparr>"
    using assms(1,3,4) single w(1-3) i sb
    by (auto simp: new_initiator_link_def X25519PrivateKey_def Ed25519PrivateKey_def Let_def
        set_link_id_def had_outbound_def new_link_data_def)
  then show "\<exists>r. unpack lib (packet_from_raw (p_raw q)) = (True, r) \<and> p_packet_type r = LINKREQUEST
     \<and> p_data r = ?dat \<and> link_id_from_lr_packet lib r = Inr (l_link_id l)"
    using w i link_id_cong [of r q' lib] by metis
  show "l_status l = PENDING" "l_initiator l" "l_mode l = MODE_AES256_CBC" "l_destination l = Some dest" "l_token l = None"
    "l_prv l = Some \<lparr>privateKey = rnd, publicKey = fst (x25519_eval lib rnd None)\<rparr>" using eq by blast+
qed

lemma handshake_eq:
  assumes "crypto_ok lib" and "l_prv l = Some kp" and "l_status l = PENDING" and "l_mode l = MODE_AES256_CBC"
    and "exchange lib kp (l_peer_pub_bytes l) = Inr shared" and "shared \<noteq> []"
  shows "\<exists>k. hkdf lib 64 shared (l_link_id l) [] = Inr k \<and> length k = 64 \<and>
    handshake lib l = (l\<lparr>l_status := HANDSHAKE, l_shared_key := shared, l_derived_key := k\<rparr>, None)"
  using assms by (auto simp: handshake_def Let_def hkdf_eq crypto_okD)

text \<open>Packets over a link: unencrypted link proofs, and encrypted data that fits the MTU.\<close>

lemma link_proof_packs:
  assumes "l_status l \<noteq> CLOSED" and "length (l_link_id l) = 16" and "19 + length dat \<le> l_mtu l" and "length dat \<le> MDU"
  shows "\<exists>p. link_packet lib iv l PROOF LRPROOF dat = Inr p"
  using assms
  by (simp add: link_packet_def packet_to_link_def packet_to_destination_def new_object_def Let_def with_flags_def
      link_destination_def link_view_of_def get_packed_flags_def set_packet_type_def set_context_def pack_def
      pack_body_def update_hash_def get_hash_def get_hashable_part_def)

lemma link_data_packs:
  assumes "l_status l \<noteq> CLOSED" and "length (l_link_id l) = 16" and "length dat \<le> MDU" and "ctx = LRRTT"
    and "link_encrypt lib iv l dat = Inr (ct, l')" and "19 + length ct \<le> l_mtu l"
  shows "\<exists>p. link_packet lib iv l DATA ctx dat = Inr p \<and> p_encrypted p"
  using assms
  by (simp add: link_packet_def packet_to_link_def packet_to_destination_def new_object_def Let_def with_flags_def
      link_destination_def link_view_of_def get_packed_flags_def set_packet_type_def set_context_def pack_def
      pack_body_def sent_in_clear_def update_hash_def get_hash_def get_hashable_part_def)

lemma link_token_roundtrip:
  assumes "crypto_ok lib" and "length iv = 16" and "link_token a = Inr t" and "link_token b = Inr t"
    and "new_token k MODE_AES = Inr t"
  shows "\<exists>ct a' b'. link_encrypt lib iv a pt = Inr (ct, a') \<and> link_decrypt lib b ct = Inr (pt, b') \<and>
    length ct = 16 * (length pt div 16 + 1) + 48"
  using token_encrypt_decrypt [OF assms(1,2,5), of pt] assms(3,4)
  by (auto simp: link_encrypt_def link_decrypt_def)

lemma link_prove_eq:
  assumes "l_owner l = Some owner" and "signalling_bytes (l_mtu l) (l_mode l) = Inr sb"
    and "identity_sign lib owner (l_link_id l @ l_pub_bytes l @ l_sig_pub_bytes l @ sb) = Inr sg"
    and "length sg = 64" and "length (l_pub_bytes l) = 32" and "length sb = 3"
    and "l_status l \<noteq> CLOSED" and "length (l_link_id l) = 16" and "118 \<le> l_mtu l"
  shows "\<exists>c. link_prove lib now l = Inr (had_outbound now False (l\<lparr>l_establishment_cost := c\<rparr>), sg @ l_pub_bytes l @ sb)"
proof -
  have "length (sg @ l_pub_bytes l @ sb) = 99" using assms by simp
  then obtain p where "link_packet lib [] l PROOF LRPROOF (sg @ l_pub_bytes l @ sb) = Inr p"
    using link_proof_packs [OF assms(7,8), of "sg @ l_pub_bytes l @ sb" lib "[]"] assms(9) by (auto simp: wire_sizes)
  then show ?thesis using assms(1-3) by (auto simp: link_prove_def Let_def)
qed

text \<open>The destination accepts a request with a valid key and answers with a signed proof.\<close>

lemma validate_request_eq:
  assumes lib: "crypto_ok lib" and rnd: "length rnd = 32"
    and owner: "i_sig_prv owner = Some sk" "\<And>m. \<exists>sg. identity_sign lib owner m = Inr sg \<and> length sg = 64"
    and p: "p_data p = ipub @ isig @ [0x20, word_of_nat (mtu div 256), word_of_nat (mtu mod 256)]"
      "length ipub = 32" "length isig = 32" "mtu < 2 ^ 16" "118 \<le> mtu" "link_id_from_lr_packet lib p = Inr lid"
    and ex: "exchange lib \<lparr>privateKey = rnd, publicKey = fst (x25519_eval lib rnd None)\<rparr> ipub = Inr shared" "shared \<noteq> []"
  shows "\<exists>m k sg. validate_request lib now rnd owner iface (p_data p) p
      = Inr (Some (m, sg @ fst (x25519_eval lib rnd None) @ [0x20, word_of_nat (mtu div 256), word_of_nat (mtu mod 256)]))
     \<and> hkdf lib 64 shared lid [] = Inr k \<and> l_derived_key m = k \<and> l_link_id m = lid \<and> l_status m = HANDSHAKE
     \<and> l_token m = None \<and> l_mtu m = mtu \<and> length sg = 64 \<and> identity_sign lib owner
        (lid @ fst (x25519_eval lib rnd None) @ publicKey sk @ [0x20, word_of_nat (mtu div 256), word_of_nat (mtu mod 256)]) = Inr sg"
proof -
  let ?pub = "fst (x25519_eval lib rnd None)"
  let ?sb = "[0x20, word_of_nat (mtu div 256), word_of_nat (mtu mod 256)] :: bytes"
  let ?kp = "\<lparr>privateKey = rnd, publicKey = ?pub\<rparr>"
  have dat: "length (p_data p) = 67" using p by simp
  have mtu: "mtu_from_lr_packet p = mtu"
    using p mtu_of_signalling [OF p(4)] by (simp add: mtu_from_lr_packet_def nth_append)
  have mode: "mode_from_lr_packet p = MODE_AES256_CBC"
    using p by (simp add: mode_from_lr_packet_def nth_append link_mode_of_def)
  have lid16: "length lid = 16"
    by (rule length_link_id [OF lib p(6)])
  have parts: "left (p_data p) 32 = ipub" "mid (p_data p) 32 32 = isig" using p by (simp_all add: bytes_simps)
  let ?l = "update_mdu (new_link_data\<lparr>l_owner := Some owner, l_prv := Some ?kp, l_sig_prv := Some sk,
      l_pub_bytes := ?pub, l_sig_pub_bytes := publicKey sk, l_peer_pub_bytes := ipub, l_peer_sig_pub_bytes := isig,
      l_link_id := lid, l_hash := lid, l_mtu := mtu, l_mode := MODE_AES256_CBC\<rparr>)\<lparr>l_destination := Some owner,
      l_destination_hash := p_destination_hash p, l_establishment_timeout := real (6 * max 1 (unat (p_hops p)) + 360), l_establishment_cost := length (p_raw p) mod 2 ^ 16\<rparr>"
  obtain k where k: "hkdf lib 64 shared lid [] = Inr k" "length k = 64"
      "handshake lib ?l = (?l\<lparr>l_status := HANDSHAKE, l_shared_key := shared, l_derived_key := k\<rparr>, None)"
    using handshake_eq [OF lib, of ?l ?kp shared] ex by (auto simp: update_mdu_def new_link_data_def)
  let ?m = "?l\<lparr>l_status := HANDSHAKE, l_shared_key := shared, l_derived_key := k, l_attached_interface := iface\<rparr>"
  obtain sg where sg: "identity_sign lib owner (lid @ ?pub @ publicKey sk @ ?sb) = Inr sg" "length sg = 64"
    using owner(2) by blast
  obtain c where c: "link_prove lib now ?m = Inr (had_outbound now False (?m\<lparr>l_establishment_cost := c\<rparr>), sg @ ?pub @ ?sb)"
    using link_prove_eq [of ?m owner ?sb lib sg now] sg signalling_bytes_eq [OF p(4)] lid16 p(5) crypto_okD(6) [OF lib]
    by (auto simp: update_mdu_def new_link_data_def)
  have "validate_request lib now rnd owner iface (p_data p) p
      = Inr (Some ((had_outbound now False (?m\<lparr>l_establishment_cost := c\<rparr>))\<lparr>l_request_time := now, l_last_inbound := now\<rparr>,
          sg @ ?pub @ ?sb))"
    using dat rnd owner(1) mtu mode parts p(5,6) k(3) c
    by (simp add: validate_request_def X25519PrivateKey_def set_link_id_def load_peer_def Let_def
        update_mdu_def new_link_data_def)
  then show ?thesis using k(1) sg
    by (auto simp: had_outbound_def update_mdu_def new_link_data_def)
qed

lemma get_public_key_loaded [simp]: "get_public_key (load_public_key lib k i) = k"
  by (simp add: get_public_key_def)

lemma proof_accepted_eq:
  assumes lib: "crypto_ok lib" and iv: "length iv = 16" and l: "l_status l = HANDSHAKE" "l_token l = None"
      "length (l_derived_key l) = 64" "length (l_link_id l) = 16"
    and mtu: "118 \<le> mtu" and rtt: "length (pack_rtt (now - l_request_time l)) \<le> 15"
  shows "\<exists>l' evs t. proof_accepted lib pack_rtt now iv iface mtu l = Inr (l', evs) \<and> new_token (l_derived_key l) MODE_AES = Inr t
    \<and> l_status l' = LACTIVE \<and> l_token l' = Some t \<and> l_derived_key l' = l_derived_key l \<and> l_link_id l' = l_link_id l
    \<and> l_mtu l' = mtu \<and> l_remote_identity l' = l_destination l \<and> l_attached_interface l' = iface"
proof -
  let ?l2 = "(update_mdu (l\<lparr>l_rtt := now - l_request_time l, l_attached_interface := iface,
                 l_remote_identity := l_destination l, l_mtu := mtu\<rparr>))\<lparr>l_status := LACTIVE, l_activated_at := now, l_last_proof := now\<rparr>"
  let ?d = "pack_rtt (now - l_request_time l)"
  obtain t where t: "new_token (l_derived_key l) MODE_AES = Inr t" using new_token_64 [OF l(3)] by blast
  have tok: "link_token ?l2 = Inr t" using t l by (simp add: link_token_def update_mdu_def)
  obtain ct l3 where ct: "link_encrypt lib iv ?l2 ?d = Inr (ct, l3)" "length ct = 16 * (length ?d div 16 + 1) + 48"
    using link_token_roundtrip [OF lib iv tok tok t, of ?d] by blast
  have "19 + length ct \<le> l_mtu ?l2" using ct(2) mtu rtt by (simp add: update_mdu_def)
  moreover have "length ?d \<le> MDU" using rtt by (simp add: wire_sizes)
  ultimately obtain p where p: "link_packet lib iv ?l2 DATA LRRTT ?d = Inr p" "p_encrypted p"
    using link_data_packs [of ?l2 ?d LRRTT lib iv ct l3] ct(1) l(4) by (auto simp: update_mdu_def)
  have "link_send lib now iv False DATA LRRTT ?d ?l2
      = Inr (had_outbound now False (?l2\<lparr>l_token := Some t\<rparr>), [Send_packet DATA LRRTT ?d])"
    using p tok by (simp add: link_send_def with_token_def)
  then have "proof_accepted lib pack_rtt now iv iface mtu l
      = Inr (had_outbound now False (?l2\<lparr>l_token := Some t\<rparr>), [Activate_link, Send_packet DATA LRRTT ?d, Established])"
    using mtu by (simp add: proof_accepted_def Let_def update_mdu_def)
  then show ?thesis using t by (simp add: had_outbound_def update_mdu_def)
qed

lemma validate_proof_eq:
  assumes lib: "crypto_ok lib" and iv: "length iv = 16"
    and l: "l_status l = PENDING" "l_initiator l" "l_mode l = MODE_AES256_CBC" "l_prv l = Some kp" "l_token l = None"
      "l_destination l = Some (load_public_key lib dpk new_identity)" "length (l_link_id l) = 16"
    and dpk: "length dpk = 64"
    and p: "p_data p = sg @ peer @ [0x20, word_of_nat (mtu div 256), word_of_nat (mtu mod 256)]"
      "length sg = 64" "length peer = 32" "mtu < 2 ^ 16" "118 \<le> mtu"
    and ex: "exchange lib kp peer = Inr shared" "shared \<noteq> []"
    and sig: "ed25519_verify lib sg (drop 32 dpk)
      (l_link_id l @ peer @ drop 32 dpk @ [0x20, word_of_nat (mtu div 256), word_of_nat (mtu mod 256)])"
    and rtt: "\<And>x. length (pack_rtt x) \<le> 15"
  shows "\<exists>l' evs k t. validate_proof lib pack_rtt now iv iface p l = Inr (l', evs)
    \<and> hkdf lib 64 shared (l_link_id l) [] = Inr k \<and> new_token k MODE_AES = Inr t \<and> l_derived_key l' = k
    \<and> l_status l' = LACTIVE \<and> l_token l' = Some t \<and> l_link_id l' = l_link_id l \<and> l_mtu l' = mtu
    \<and> l_remote_identity l' = l_destination l \<and> l_attached_interface l' = iface"
proof -
  let ?sb = "[0x20, word_of_nat (mtu div 256), word_of_nat (mtu mod 256)] :: bytes"
  let ?dest = "load_public_key lib dpk new_identity"
  have mode: "mode_from_lp_packet p = MODE_AES256_CBC"
    using p by (simp add: mode_from_lp_packet_def nth_append link_mode_of_def)
  have mtu: "mtu_from_lp_packet p = mtu"
    using p mtu_of_signalling [OF p(4)] by (simp add: mtu_from_lp_packet_def bytes_simps)
  have parts: "length (p_data p) = 99" "left (p_data p) 96 = sg @ peer" "left (sg @ peer) 64 = sg" "mid (sg @ peer) 64 32 = peer"
    "mid dpk 32 32 = drop 32 dpk"
    using p dpk by (simp_all add: bytes_simps)
  let ?lp = "load_peer peer (drop 32 dpk) l"
  obtain k where k: "hkdf lib 64 shared (l_link_id l) [] = Inr k" "length k = 64"
      "handshake lib ?lp = (?lp\<lparr>l_status := HANDSHAKE, l_shared_key := shared, l_derived_key := k\<rparr>, None)"
    using handshake_eq [OF lib, of ?lp kp shared] l ex by (auto simp: load_peer_def)
  let ?l2 = "?lp\<lparr>l_status := HANDSHAKE, l_shared_key := shared, l_derived_key := k,
      l_establishment_cost := (l_establishment_cost l + length (p_raw p)) mod 2 ^ 16\<rparr>"
  obtain l' evs t where acc: "proof_accepted lib pack_rtt now iv iface mtu ?l2 = Inr (l', evs)" "new_token k MODE_AES = Inr t"
      "l_status l' = LACTIVE" "l_token l' = Some t" "l_derived_key l' = k" "l_link_id l' = l_link_id l"
      "l_mtu l' = mtu" "l_remote_identity l' = l_destination l" "l_attached_interface l' = iface"
    using proof_accepted_eq [OF lib iv, of ?l2 mtu pack_rtt now iface] l k(2) p(5) rtt by (auto simp: load_peer_def)
  have "identity_validate lib ?dest sg (l_link_id l @ peer @ drop 32 dpk @ ?sb) = Inr True"
    using identity_validate_loaded [OF dpk p(2)] sig by simp
  then have "validate_proof lib pack_rtt now iv iface p l = Inr (l', evs)"
    using l mode mtu parts p(2,3) k(3) acc(1) signalling_bytes_eq [OF p(4)]
    by (simp add: validate_proof_def Let_def load_peer_def)
  then show ?thesis using k(1) acc by blast
qed

lemma initiator_link_exists:
  assumes "crypto_ok lib" and "length rnd = 32" and "length sig_rnd = 32" and "length (dv_hash dv) = 16"
    and "dv_type dv = SINGLE" and "mtu = (if disc \<and> nh \<noteq> 0 then nh else MTU)" and "mtu < 2 ^ 16"
  shows "\<exists>l q. new_initiator_link lib now rnd sig_rnd hops fht nh disc MODE_AES256_CBC dv dest = Inr (l, q)"
proof -
  let ?sb = "[0x20, word_of_nat (mtu div 256), word_of_nat (mtu mod 256)] :: bytes"
  let ?dat = "fst (x25519_eval lib rnd None) @ ed25519_derive lib sig_rnd @ ?sb"
  have sb: "signalling_bytes (if disc \<and> 0 < nh then nh else MTU) MODE_AES256_CBC = Inr ?sb"
    using signalling_bytes_eq [OF assms(7)] assms(6) by (auto split: if_splits)
  have fits: "length ?dat \<le> MDU" by (simp add: crypto_okD [OF assms(1)] wire_sizes)
  obtain p0 p1 q where w: "packet_to_destination (Some dv) ?dat = Inr p0" "set_packet_type LINKREQUEST p0 = Inr p1"
    "pack lib p1 = Inr q" "p_raw q \<noteq> []"
    using request_packet_wire [OF assms(5,4) fits, of lib] by blast
  obtain i where "link_id_from_lr_packet lib q = Inr i"
    using w(4) by (auto simp: link_id_from_lr_packet_def get_hashable_part_def Let_def)
  then show ?thesis
    using assms(2,3,5) w(1-3) sb
    by (auto simp: new_initiator_link_def X25519PrivateKey_def Ed25519PrivateKey_def Let_def set_link_id_def)
qed

lemma exchange_agree:
  assumes "crypto_ok lib" and "length a = 32" and "length b = 32"
    and "snd (x25519_eval lib b (Some (fst (x25519_eval lib a None))))"
  shows "\<exists>s. s \<noteq> [] \<and>
    exchange lib \<lparr>privateKey = b, publicKey = fst (x25519_eval lib b None)\<rparr> (fst (x25519_eval lib a None)) = Inr s \<and>
    exchange lib \<lparr>privateKey = a, publicKey = fst (x25519_eval lib a None)\<rparr> (fst (x25519_eval lib b None)) = Inr s"
proof -
  note plen = crypto_okD(6) [OF assms(1)]
  have "fst (x25519_eval lib b (Some (fst (x25519_eval lib a None)))) \<noteq> []"
    using plen by (metis length_0_conv zero_neq_numeral)
  then show ?thesis
    using assms(2-4) plen crypto_okD(7) [OF assms(1), of a b] by (simp add: exchange_def Let_def split_beta)
qed

text \<open>Two links that hold the same token understand each other.\<close>

definition links_agree :: "crypto_lib \<Rightarrow> bytes \<Rightarrow> link \<Rightarrow> link \<Rightarrow> bool" where
  "links_agree lib iv a b \<longleftrightarrow>
     l_link_id a = l_link_id b \<and> l_derived_key a = l_derived_key b \<and> l_mtu a = l_mtu b \<and>
     (\<forall>pt. \<exists>ct a' b'. link_encrypt lib iv a pt = Inr (ct, a') \<and> link_decrypt lib b ct = Inr (pt, b')) \<and>
     (\<forall>pt. \<exists>ct a' b'. link_encrypt lib iv b pt = Inr (ct, b') \<and> link_decrypt lib a ct = Inr (pt, a'))"

lemma links_agreeI:
  assumes "crypto_ok lib" and "length iv = 16" and "new_token k MODE_AES = Inr t"
    and "link_token a = Inr t" and "link_token b = Inr t"
    and "l_link_id a = l_link_id b" and "l_derived_key a = l_derived_key b" and "l_mtu a = l_mtu b"
  shows "links_agree lib iv a b"
  using link_token_roundtrip [OF assms(1,2,4,5,3)] link_token_roundtrip [OF assms(1,2,5,4,3)] assms(6-8)
  unfolding links_agree_def by meson

lemma link_run_closed:
  assumes "link_run lib l evs l'" and "l_status l = CLOSED"
  shows "l_status l' = CLOSED \<and> (\<forall>e \<in> set evs. \<not> is_send e)"
  using assms
proof (induction rule: link_run.induct)
  case (run_step l evs l1 evs' l')
  then have "l_status l1 = CLOSED \<and> (\<forall>e \<in> set evs. \<not> is_send e)" using link_step_closed by blast
  with run_step show ?case by (metis Un_iff set_append)
qed simp

lemma proof_accepted_fields:
  assumes "proof_accepted lib pack_rtt now iv iface mtu l = Inr (l', evs)"
  shows "l_peer_pub_bytes l' = l_peer_pub_bytes l"
proof -
  let ?l2 = "(update_mdu (l\<lparr>l_rtt := now - l_request_time l, l_attached_interface := iface,
                 l_remote_identity := l_destination l, l_mtu := (if mtu \<noteq> 0 then mtu else MTU)\<rparr>))
              \<lparr>l_status := LACTIVE, l_activated_at := now, l_last_proof := now\<rparr>"
  have p: "l_peer_pub_bytes ?l2 = l_peer_pub_bytes l" by (simp add: update_mdu_def)
  show ?thesis
  proof (cases "link_send lib now iv False DATA LRRTT (pack_rtt (l_rtt ?l2)) ?l2")
    case (Inl e)
    then obtain ev where "close_on_exn ?l2 e = Inr (l', ev)"
      using assms by (auto simp: proof_accepted_def Let_def res_bind_eq_Inr)
    then show ?thesis using p by (auto simp: close_on_exn_def split: if_splits)
  next
    case (Inr r)
    then obtain l3 ev3 where r: "r = (l3, ev3)" by (cases r) simp
    then have "l' = l3" using assms Inr by (simp add: proof_accepted_def Let_def)
    then show ?thesis using link_send_status(3) [OF Inr [unfolded r]] p by simp
  qed
qed

lemma handshake_fields:
  assumes "handshake lib l = (l', r)"
  shows "l_link_id l' = l_link_id l" and "l_peer_pub_bytes l' = l_peer_pub_bytes l"
    and "l_peer_sig_pub_bytes l' = l_peer_sig_pub_bytes l" and "l_status l' = l_status l \<or> l_status l' = HANDSHAKE"
  using assms by (auto simp: handshake_def Let_def split: option.splits sum.splits if_splits)

lemma handshake_agreement:
  assumes lib: "crypto_ok lib" and k: "length k = 64" "load_private_key lib r1 r2 k new_identity = Inr (True, owner)"
    and len: "length rnd = 32" "length sig_rnd = 32" "length (dv_hash dv) = 16" "length rnd2 = 32" "length iv = 16"
    and dv: "dv_type dv = SINGLE"
    and mtu: "mtu = (if disc \<and> nh \<noteq> 0 then nh else MTU)" "118 \<le> mtu" "mtu < 2 ^ 16"
    and dh: "snd (x25519_eval lib rnd2 (Some (fst (x25519_eval lib rnd None))))"
    and rtt: "\<And>x. length (pack_rtt x) \<le> 15"
  shows "\<exists>l q r m prf. new_initiator_link lib now rnd sig_rnd hops fht nh disc MODE_AES256_CBC dv
        (load_public_key lib (get_public_key owner) new_identity) = Inr (l, q)
    \<and> unpack lib (packet_from_raw (p_raw q)) = (True, r)
    \<and> validate_request lib now2 rnd2 owner iface (p_data r) r = Inr (Some (m, prf))
    \<and> (\<forall>pp. p_data pp = prf \<longrightarrow> (\<exists>l' evs. validate_proof lib pack_rtt now3 iv iface2 pp l = Inr (l', evs)
        \<and> l_status l' = LACTIVE \<and> l_mtu l' = mtu \<and> links_agree lib iv l' m))"
proof -
  let ?ipub = "fst (x25519_eval lib rnd None)" and ?pub = "fst (x25519_eval lib rnd2 None)"
  let ?sb = "[0x20, word_of_nat (mtu div 256), word_of_nat (mtu mod 256)] :: bytes"
  obtain l q where l: "new_initiator_link lib now rnd sig_rnd hops fht nh disc MODE_AES256_CBC dv
      (load_public_key lib (get_public_key owner) new_identity) = Inr (l, q)"
    using initiator_link_exists [OF lib len(1-3) dv mtu(1,3)] by blast
  note own = loaded_identity [OF lib k] and li = initiator_link_eq [OF l lib len(1-3) mtu(1,3)]
  note plen = crypto_okD(6) [OF lib]
  obtain r where r: "unpack lib (packet_from_raw (p_raw q)) = (True, r)"
      "p_data r = ?ipub @ ed25519_derive lib sig_rnd @ ?sb" "link_id_from_lr_packet lib r = Inr (l_link_id l)"
    using li(1) by blast
  have lid16: "length (l_link_id l) = 16" by (rule length_link_id [OF lib r(3)])
  obtain sk where sk: "i_sig_prv owner = Some sk" "publicKey sk = drop 32 (get_public_key owner)"
    using k(2) plen by (auto simp: load_private_key_eq [OF lib k(1)] get_public_key_def)
  obtain s where s: "s \<noteq> []" "exchange lib \<lparr>privateKey = rnd2, publicKey = ?pub\<rparr> ?ipub = Inr s"
      "exchange lib \<lparr>privateKey = rnd, publicKey = ?ipub\<rparr> ?pub = Inr s"
    using exchange_agree [OF lib len(1,4) dh] by blast
  have sign: "\<exists>sg. identity_sign lib owner m = Inr sg \<and> length sg = 64" for m using own(3,4) by blast
  obtain m dk sg where m: "validate_request lib now2 rnd2 owner iface (p_data r) r = Inr (Some (m, sg @ ?pub @ ?sb))"
      "hkdf lib 64 s (l_link_id l) [] = Inr dk" "l_derived_key m = dk" "l_link_id m = l_link_id l" "l_token m = None"
      "l_mtu m = mtu" "length sg = 64" "identity_sign lib owner (l_link_id l @ ?pub @ publicKey sk @ ?sb) = Inr sg"
    using validate_request_eq [OF lib len(4) sk(1) sign r(2) plen crypto_okD(8) [OF lib] mtu(3,2) r(3) s(2,1)] by blast
  have sig: "ed25519_verify lib sg (drop 32 (get_public_key owner)) (l_link_id l @ ?pub @ drop 32 (get_public_key owner) @ ?sb)"
    using own(3) [OF m(8)] sk(2) by simp
  have "\<exists>l' evs. validate_proof lib pack_rtt now3 iv iface2 pp l = Inr (l', evs)
      \<and> l_status l' = LACTIVE \<and> l_mtu l' = mtu \<and> links_agree lib iv l' m"
    if pp: "p_data pp = sg @ ?pub @ ?sb" for pp
    using validate_proof_eq [where pack_rtt = pack_rtt and now = now3 and iface = iface2,
        OF lib len(5) li(2-4,6,7,5) lid16 own(1) pp m(7) plen mtu(3,2) s(3,1) sig rtt] m(2-6)
    by (auto simp: link_token_def intro!: links_agreeI [OF lib len(5)])
  then show ?thesis using l r(1) m(1) by blast
qed

text \<open>
  C5. Link establishment: the request the initiator sends is accepted by the destination, the
  proof the destination returns activates the initiator's link, both ends agree on link id, MTU
  and key, and what either end encrypts the other decrypts.
\<close>

theorem link_handshake_agreement:
  assumes lib: "crypto_ok lib" and k: "length k = 64" "load_private_key lib r1 r2 k new_identity = Inr (True, owner)"
    and len: "length rnd = 32" "length sig_rnd = 32" "length (dv_hash dv) = 16" "length rnd2 = 32" "length iv = 16"
    and dv: "dv_type dv = SINGLE"
    and mtu: "mtu = (if disc \<and> nh \<noteq> 0 then nh else MTU)" "118 \<le> mtu" "mtu < 2 ^ 16"
    and dh: "snd (x25519_eval lib rnd2 (Some (fst (x25519_eval lib rnd None))))"
    and rtt: "\<And>x. length (pack_rtt x) \<le> 15"
  shows "\<exists>l q r m prf. new_initiator_link lib now rnd sig_rnd hops fht nh disc MODE_AES256_CBC dv
        (load_public_key lib (get_public_key owner) new_identity) = Inr (l, q)
    \<and> unpack lib (packet_from_raw (p_raw q)) = (True, r)
    \<and> validate_request lib now2 rnd2 owner iface (p_data r) r = Inr (Some (m, prf))
    \<and> (\<forall>pp. p_data pp = prf \<longrightarrow> (\<exists>l' evs. validate_proof lib pack_rtt now3 iv iface2 pp l = Inr (l', evs)
        \<and> l_status l' = LACTIVE \<and> l_mtu l' = mtu \<and> links_agree lib iv l' m))"
  using assms by (rule handshake_agreement)

theorem link_handshake_agreement_witness:
  "\<exists>owner l q r m prf. load_private_key demo_lib [] [] (replicate 64 7) new_identity = Inr (True, owner)
    \<and> new_initiator_link demo_lib 0 (replicate 32 1) (replicate 32 2) 1 6 0 False MODE_AES256_CBC
        \<lparr>dv_hash = replicate 16 5, dv_type = SINGLE, dv_encrypt = Inr\<rparr>
        (load_public_key demo_lib (get_public_key owner) new_identity) = Inr (l, q)
    \<and> unpack demo_lib (packet_from_raw (p_raw q)) = (True, r)
    \<and> validate_request demo_lib 1 (replicate 32 3) owner (Some 0) (p_data r) r = Inr (Some (m, prf))"
proof -
  obtain owner where o: "load_private_key demo_lib [] [] (replicate 64 7) new_identity = Inr (True, owner)"
    using load_private_key_eq [OF demo_lib_ok, of "replicate 64 7" "[]" "[]" new_identity] by simp
  have dh: "snd (x25519_eval demo_lib (replicate 32 3) (Some (fst (x25519_eval demo_lib (replicate 32 1) None))))"
    by (simp add: demo_lib_def)
  have "\<exists>l q r m prf. new_initiator_link demo_lib 0 (replicate 32 1) (replicate 32 2) 1 6 0 False MODE_AES256_CBC
        \<lparr>dv_hash = replicate 16 5, dv_type = SINGLE, dv_encrypt = Inr\<rparr>
        (load_public_key demo_lib (get_public_key owner) new_identity) = Inr (l, q)
    \<and> unpack demo_lib (packet_from_raw (p_raw q)) = (True, r)
    \<and> validate_request demo_lib 1 (replicate 32 3) owner (Some 0) (p_data r) r = Inr (Some (m, prf))
    \<and> (\<forall>pp. p_data pp = prf \<longrightarrow> (\<exists>l' evs. validate_proof demo_lib (\<lambda>_. [0]) 2 (replicate 16 4) (Some 1) pp l = Inr (l', evs)
        \<and> l_status l' = LACTIVE \<and> l_mtu l' = 500 \<and> links_agree demo_lib (replicate 16 4) l' m))"
    by (rule link_handshake_agreement [OF demo_lib_ok _ o _ _ _ _ _ _ _ _ _ dh]) (simp_all add: wire_sizes)
  then show ?thesis using o by blast
qed

lemma close_on_exn_not_active: "close_on_exn l e = Inr (l', evs) \<Longrightarrow> l_status l' \<noteq> LACTIVE"
  by (auto simp: close_on_exn_def split: if_splits)

text \<open>What must have happened when \<open>validate_proof\<close> leaves a pending link active.\<close>

lemma validate_proof_active:
  assumes "l_status l = PENDING"
    and "validate_proof lib pack_rtt now iv iface p l = Inr (l', evs)" and "l_status l' = LACTIVE"
  defines "pd \<equiv> if length (p_data p) = 99 then left (p_data p) 96 else p_data p"
  shows "\<exists>dest sb l1. l_destination l = Some dest \<and> l_initiator l
    \<and> handshake lib (load_peer (mid pd 64 32) (mid (get_public_key dest) 32 32) l) = (l1, None)
    \<and> identity_validate lib dest (left pd 64) (l_link_id l1 @ l_peer_pub_bytes l1 @ l_peer_sig_pub_bytes l1 @ sb) = Inr True
    \<and> l_peer_pub_bytes l' = l_peer_pub_bytes l1"
proof -
  let ?sb = "if length (p_data p) = 99 then signalling_bytes (mtu_from_lp_packet p) (mode_from_lp_packet p) else Inr []"
  have md: "mode_from_lp_packet p = l_mode l"
    using assms(1-3) close_on_exn_not_active by (fastforce simp: validate_proof_def)
  obtain sb where sb: "?sb = Inr sb"
    using assms(1-3) md close_on_exn_not_active [of l]
    by (cases "length (p_data p) = 99"; cases ?sb) (auto simp: validate_proof_def Let_def)
  have ini: "l_initiator l \<and> length pd = 96"
    using assms(1-3) md sb
    by (cases "l_initiator l \<and> length pd = 96"; cases "length (p_data p) = 99") (auto simp: validate_proof_def Let_def pd_def)
  obtain dest where dest: "l_destination l = Some dest"
    using assms(1,2) md sb ini 
    by (cases "l_destination l"; cases "length (p_data p) = 99") (auto simp: validate_proof_def Let_def pd_def)
  obtain l1 x where hs: "handshake lib (load_peer (mid pd 64 32) (mid (get_public_key dest) 32 32) l) = (l1, x)"
    by (cases "handshake lib (load_peer (mid pd 64 32) (mid (get_public_key dest) 32 32) l)")
  have st: "l_status l1 \<noteq> LACTIVE" using handshake_fields(4) [OF hs] assms(1) by (auto simp: load_peer_def)
  have x: "x = None"
    using assms(1-3) md sb ini dest hs close_on_exn_not_active [of l1]
    by (cases x; cases "length (p_data p) = 99") (auto simp: validate_proof_def Let_def pd_def)
  let ?l2 = "l1\<lparr>l_establishment_cost := (l_establishment_cost l1 + length (p_raw p)) mod 65536\<rparr>"
  let ?v = "identity_validate lib dest (left pd 64) (l_link_id l1 @ l_peer_pub_bytes l1 @ l_peer_sig_pub_bytes l1 @ sb)"
  have vp: "validate_proof lib pack_rtt now iv iface p l =
      (case ?v of Inl e \<Rightarrow> close_on_exn ?l2 e | Inr False \<Rightarrow> Inr (?l2, [])
       | Inr True \<Rightarrow> if l_status l1 \<noteq> HANDSHAKE then close_on_exn ?l2 Runtime_error
           else proof_accepted lib pack_rtt now iv iface (if length (p_data p) = 99 then mtu_from_lp_packet p else 0) ?l2)"
    using assms(1) md sb ini dest hs x
    by (cases "length (p_data p) = 99") (simp_all add: validate_proof_def Let_def pd_def cong: sum.case_cong bool.case_cong)
  have v: "?v = Inr True"
    using assms(2,3) st close_on_exn_not_active [of ?l2] unfolding vp by (cases ?v) (auto split: bool.splits)
  have "proof_accepted lib pack_rtt now iv iface (if length (p_data p) = 99 then mtu_from_lp_packet p else 0) ?l2 = Inr (l', evs)"
    using assms(2,3) v close_on_exn_not_active [of ?l2] unfolding vp by (simp split: if_splits)
  then have "l_peer_pub_bytes l' = l_peer_pub_bytes l1" using proof_accepted_fields by fastforce
  then show ?thesis using dest ini hs x v by blast
qed

text \<open>
  C6. A pending link becomes active only through a proof that carries a signature of the
  destination's identity over this link's id and the key the link then uses.
\<close>

theorem link_activation_authentic:
  assumes "validate_proof lib pack_rtt now iv iface p l = Inr (l', evs)"
    and "l_status l = PENDING" and "l_status l' = LACTIVE"
  shows "\<exists>dest sb. l_destination l = Some dest \<and> l_initiator l
    \<and> identity_validate lib dest (take 64 (p_data p))
        (l_link_id l @ l_peer_pub_bytes l' @ mid (get_public_key dest) 32 32 @ sb) = Inr True
    \<and> l_peer_pub_bytes l' = take 32 (drop 64 (p_data p))"
proof -
  let ?pd = "if length (p_data p) = 99 then left (p_data p) 96 else p_data p"
  from assms(1,3) obtain dest sb l1 where h: "l_destination l = Some dest" "l_initiator l"
      "handshake lib (load_peer (mid ?pd 64 32) (mid (get_public_key dest) 32 32) l) = (l1, None)"
      "identity_validate lib dest (left ?pd 64) (l_link_id l1 @ l_peer_pub_bytes l1 @ l_peer_sig_pub_bytes l1 @ sb) = Inr True"
      "l_peer_pub_bytes l' = l_peer_pub_bytes l1"
    using validate_proof_active [OF assms(2)] by blast
  note f = handshake_fields(1-3) [OF h(3)]
  have "left ?pd 64 = take 64 (p_data p)" "mid ?pd 64 32 = take 32 (drop 64 (p_data p))"
    by (auto simp: bytes_simps drop_take min_def)
  then show ?thesis using f h(1,2,4,5) by (auto simp: load_peer_def)
qed

theorem link_activation_authentic_witness:
  "\<exists>l l' p evs dest sb. l_status l = PENDING \<and> l_status l' = LACTIVE
    \<and> validate_proof demo_lib (\<lambda>_. [0]) 2 (replicate 16 4) (Some 1) p l = Inr (l', evs)
    \<and> l_destination l = Some dest
    \<and> identity_validate demo_lib dest (take 64 (p_data p))
        (l_link_id l @ l_peer_pub_bytes l' @ mid (get_public_key dest) 32 32 @ sb) = Inr True"
proof -
  obtain owner where o: "load_private_key demo_lib [] [] (replicate 64 7) new_identity = Inr (True, owner)"
    using load_private_key_eq [OF demo_lib_ok, of "replicate 64 7" "[]" "[]" new_identity] by simp
  have dh: "snd (x25519_eval demo_lib (replicate 32 3) (Some (fst (x25519_eval demo_lib (replicate 32 1) None))))"
    by (simp add: demo_lib_def)
  let ?dv = "\<lparr>dv_hash = replicate 16 5, dv_type = SINGLE, dv_encrypt = Inr\<rparr> :: dest_view"
  obtain l q pd where l: "new_initiator_link demo_lib 0 (replicate 32 1) (replicate 32 2) 1 6 0 False MODE_AES256_CBC ?dv
        (load_public_key demo_lib (get_public_key owner) new_identity) = Inr (l, q)"
    and p: "\<And>pp. p_data pp = pd \<Longrightarrow> \<exists>l' evs. validate_proof demo_lib (\<lambda>_. [0]) 2 (replicate 16 4) (Some 1) pp l
        = Inr (l', evs) \<and> l_status l' = LACTIVE"
    using handshake_agreement [where pack_rtt = "\<lambda>_. [0]" and dv = ?dv and disc = False and nh = 0 and mtu = 500
        and now = 0 and hops = 1 and sig_rnd = "replicate 32 2" and ?now2.0 = 1 and iface = None and fht = 6 and ?now3.0 = 2 and ?iface2.0 = "Some 1" and iv = "replicate 16 4",
        OF demo_lib_ok _ o _ _ _ _ _ _ _ _ _ dh]
    by (simp add: wire_sizes) metis
  have pend: "l_status l = PENDING" using initiator_link_eq(2) [OF l demo_lib_ok, of 500] by (simp add: wire_sizes)
  let ?p = "packet_from_raw [] \<lparr>p_data := pd\<rparr>"
  obtain l' evs where v: "validate_proof demo_lib (\<lambda>_. [0]) 2 (replicate 16 4) (Some 1) ?p l = Inr (l', evs)" "l_status l' = LACTIVE"
    using p [of ?p] by auto
  then show ?thesis using link_activation_authentic [OF v(1) pend v(2)] pend by blast
qed

text \<open>
  C28. A closed link stays closed, and nothing is sent or delivered over it any more, whatever
  packets arrive and whatever operations are called.
\<close>

theorem link_closed_terminal:
  assumes "link_run lib l evs l'" and "l_status l = CLOSED"
  shows "l_status l' = CLOSED \<and> (\<forall>e \<in> set evs. \<not> is_send e)"
  using assms by (rule link_run_closed)

theorem link_closed_terminal_witness:
  "link_run demo_lib (new_link_data\<lparr>l_status := CLOSED\<rparr>) [Cancel_resources, Remove_link, Closed_callback]
      (new_link_data\<lparr>l_status := CLOSED, l_teardown_reason := DESTINATION_CLOSED\<rparr>)
   \<and> list_all (Not \<circ> is_send) [Cancel_resources, Remove_link, Closed_callback]"
proof -
  have "teardown demo_lib 0 [] (new_link_data\<lparr>l_status := CLOSED\<rparr>)
      = Inr (new_link_data\<lparr>l_status := CLOSED, l_teardown_reason := DESTINATION_CLOSED\<rparr>, [Cancel_resources, Remove_link, Closed_callback])"
    by (simp add: teardown_def link_closed_def new_link_data_def)
  then have r: "link_run demo_lib (new_link_data\<lparr>l_status := CLOSED\<rparr>) ([Cancel_resources, Remove_link, Closed_callback] @ [])
      (new_link_data\<lparr>l_status := CLOSED, l_teardown_reason := DESTINATION_CLOSED\<rparr>)"
    by (intro run_step [OF step_teardown run_nil])
  show ?thesis using link_closed_terminal [OF r] r by simp
qed

text \<open>
  C40. A proof of the right shape whose signature does not verify is not simply ignored: it moves
  the pending link into the handshake state, and no later proof, genuine or not, has any effect.
\<close>

theorem forged_proof_blocks_link:
  assumes lib: "crypto_ok lib"
    and l: "l_status l = PENDING" "l_initiator l" "l_mode l = MODE_AES256_CBC" "l_prv l = Some kp"
      "l_destination l = Some (load_public_key lib dpk new_identity)"
    and dpk: "length dpk = 64"
    and p: "p_data p = sg @ peer @ [0x20, word_of_nat (mtu div 256), word_of_nat (mtu mod 256)]"
      "length sg = 64" "length peer = 32" "mtu < 2 ^ 16"
    and ex: "exchange lib kp peer = Inr shared" "shared \<noteq> []"
    and sig: "\<not> ed25519_verify lib sg (drop 32 dpk)
      (l_link_id l @ peer @ drop 32 dpk @ [0x20, word_of_nat (mtu div 256), word_of_nat (mtu mod 256)])"
  shows "\<exists>l'. validate_proof lib pack_rtt now iv iface p l = Inr (l', []) \<and> l_status l' = HANDSHAKE
    \<and> (\<forall>pack_rtt2 now2 iv2 iface2 p2. validate_proof lib pack_rtt2 now2 iv2 iface2 p2 l' = Inr (l', []))"
proof -
  let ?sb = "[0x20, word_of_nat (mtu div 256), word_of_nat (mtu mod 256)] :: bytes"
  let ?dest = "load_public_key lib dpk new_identity"
  have mode: "mode_from_lp_packet p = MODE_AES256_CBC"
    using p by (simp add: mode_from_lp_packet_def nth_append link_mode_of_def)
  have mtu: "mtu_from_lp_packet p = mtu"
    using p mtu_of_signalling [OF p(4)] by (simp add: mtu_from_lp_packet_def bytes_simps)
  have parts: "length (p_data p) = 99" "left (p_data p) 96 = sg @ peer" "left (sg @ peer) 64 = sg" "mid (sg @ peer) 64 32 = peer"
    "mid dpk 32 32 = drop 32 dpk"
    using p dpk by (simp_all add: bytes_simps)
  let ?lp = "load_peer peer (drop 32 dpk) l"
  obtain k where k: "handshake lib ?lp = (?lp\<lparr>l_status := HANDSHAKE, l_shared_key := shared, l_derived_key := k\<rparr>, None)"
    using handshake_eq [OF lib, of ?lp kp shared] l ex by (auto simp: load_peer_def)
  have "identity_validate lib ?dest sg (l_link_id l @ peer @ drop 32 dpk @ ?sb) = Inr False"
    using identity_validate_loaded [OF dpk p(2)] sig by simp
  then have "\<exists>l'. validate_proof lib pack_rtt now iv iface p l = Inr (l', []) \<and> l_status l' = HANDSHAKE"
    using l mode mtu parts p(2,3) k signalling_bytes_eq [OF p(4)]
    by (simp add: validate_proof_def Let_def load_peer_def)
  then show ?thesis by (auto simp: validate_proof_def)
qed

theorem forged_proof_blocks_link_witness:
  "\<exists>l l' p q. l_status l = PENDING \<and> validate_proof demo_lib (\<lambda>_. [0]) 2 [] None p l = Inr (l', [])
     \<and> l_status l' = HANDSHAKE \<and> validate_proof demo_lib (\<lambda>_. [0]) 3 [] None q l' = Inr (l', [])"
proof -
  let ?kp = "\<lparr>privateKey = replicate 32 1, publicKey = replicate 32 2\<rparr> :: key_pair"
  let ?dpk = "replicate 64 7 :: bytes"
  let ?l = "new_link_data\<lparr>l_initiator := True, l_prv := Some ?kp, l_destination := Some (load_public_key demo_lib ?dpk new_identity)\<rparr>"
  let ?p = "packet_from_raw [] \<lparr>p_data := replicate 64 0 @ replicate 32 3 @ [0x20, word_of_nat (500 div 256), word_of_nat (500 mod 256)]\<rparr>"
  obtain s where s: "exchange demo_lib ?kp (replicate 32 3) = Inr s" "s \<noteq> []"
    by (simp add: exchange_def demo_lib_def demo_tag_def Let_def numeral_eq_Suc)
  have "\<not> ed25519_verify demo_lib (replicate 64 0) (drop 32 ?dpk)
      (l_link_id ?l @ replicate 32 3 @ drop 32 ?dpk @ [0x20, word_of_nat (500 div 256), word_of_nat (500 mod 256)])"
    by (simp add: demo_lib_def demo_tag_def new_link_data_def) (code_simp)
  then have "\<exists>l'. validate_proof demo_lib (\<lambda>_. [0]) 2 [] None ?p ?l = Inr (l', []) \<and> l_status l' = HANDSHAKE
    \<and> (\<forall>pack_rtt2 now2 iv2 iface2 p2. validate_proof demo_lib pack_rtt2 now2 iv2 iface2 p2 l' = Inr (l', []))"
    by (intro forged_proof_blocks_link [OF demo_lib_ok, where kp = ?kp and dpk = ?dpk and sg = "replicate 64 0"
        and peer = "replicate 32 3" and mtu = 500 and shared = s]) (use s in \<open>simp_all add: new_link_data_def\<close>)
  moreover have "l_status ?l = PENDING" by (simp add: new_link_data_def)
  ultimately show ?thesis by blast
qed

text \<open>
  The MDU of a link is exact: for an MTU of at least 84 octets, a plaintext encrypts to a
  packet within the MTU precisely when it is no longer than the MDU.
\<close>

lemma link_mdu_exact:
  assumes "crypto_ok lib" and "length iv = 16" and "link_token l = Inr t" and "new_token k MODE_AES = Inr t"
    and "84 \<le> l_mtu l" and "l_mtu l < 2 ^ 16" and "link_encrypt lib iv l pt = Inr (ct, l')"
  shows "IFAC_MIN_SIZE + HEADER_MINSIZE + length ct \<le> l_mtu l \<longleftrightarrow> length pt \<le> l_mdu (update_mdu l)"
proof -
  have ct: "length ct = 16 * (length pt div 16 + 1) + 48"
    using link_token_roundtrip [OF assms(1,2,3,3,4), of pt] assms(7) by auto
  show ?thesis
    using block_fits_iff [OF assms(5), of "length pt"] ct
    by (simp add: update_mdu_def mdu_of_mtu_eq [OF assms(5,6)] wire_sizes ac_simps)
qed

text \<open>
  Closing a link erases its private key, shared key and derived key, but the token made from
  the derived key stays: the closed link still decrypts what it decrypted before.
\<close>

lemma teardown_keeps_token:
  assumes "teardown lib now iv l = Inr (l', evs)" and "l_token l = Some t"
  shows "l_status l' = CLOSED \<and> l_prv l' = None \<and> l_shared_key l' = [] \<and> l_derived_key l' = []
    \<and> l_token l' = Some t \<and> (link_decrypt lib l c = Inr (pt, l) \<longrightarrow> link_decrypt lib l' c = Inr (pt, l'))"
proof -
  have s: "l_token l1 = Some t" if "link_send lib now iv False DATA LINKCLOSE d l = Inr (l1, e)" for l1 e d
    using that assms(2)
    by (auto simp: link_send_def with_token_def link_token_def had_outbound_def Let_def res_bind_eq_Inr split: if_splits)
  obtain l1 e where l1: "l_token l1 = Some t" "l' = fst (link_closed (l1\<lparr>l_status := CLOSED, l_teardown_reason := e\<rparr>))"
  proof (cases "l_status l \<noteq> PENDING \<and> l_status l \<noteq> CLOSED")
    case True
    then obtain l1 ev where ls: "link_send lib now iv False DATA LINKCLOSE (l_link_id l) l = Inr (l1, ev)"
      using assms(1) by (auto simp: teardown_def res_bind_eq_Inr)
    then have "l' = fst (link_closed (l1\<lparr>l_status := CLOSED,
        l_teardown_reason := (if l_initiator l1 then INITIATOR_CLOSED else DESTINATION_CLOSED)\<rparr>))"
      using assms(1) True by (simp add: teardown_def link_closed_def)
    then show ?thesis using that s [OF ls] by blast
  next
    case False
    then have "l' = fst (link_closed (l\<lparr>l_status := CLOSED,
        l_teardown_reason := (if l_initiator l then INITIATOR_CLOSED else DESTINATION_CLOSED)\<rparr>))"
      using assms(1) unfolding teardown_def if_not_P [OF False] by (simp add: link_closed_def)
    then show ?thesis using that assms(2) by blast
  qed
  then have f: "l_status l' = CLOSED \<and> l_prv l' = None \<and> l_shared_key l' = [] \<and> l_derived_key l' = [] \<and> l_token l' = Some t"
    by (simp add: link_closed_def)
  moreover have "link_decrypt lib l c = Inr (pt, l) \<longrightarrow> link_decrypt lib l' c = Inr (pt, l')"
    using assms(2) f by (auto simp: link_decrypt_def link_token_def split: sum.splits if_splits)
  ultimately show ?thesis by blast
qed

end
