(* ===== verification/Std_Map.thy ===== *)
theory Std_Map
  imports Prelude "HOL-Library.List_Lexorder"
begin

text \<open>
  The tables of the program (\<open>std::map<Bytes, ...>\<close>): association lists in ascending order of
  their keys, with the operations the code uses.  \<open>insert\<close> leaves an entry that is already there
  alone; \<open>operator[]\<close> assignment replaces it.  The order of byte strings is that of
  \<open>Bytes::operator<\<close>, lexicographic with a proper prefix first.
\<close>

type_synonym ('k, 'v) table = "('k \<times> 'v) list"

definition tab_find :: "'k \<Rightarrow> ('k, 'v) table \<Rightarrow> 'v option" where
  "tab_find k m = map_of m k"

fun tab_assign :: "'k::linorder \<Rightarrow> 'v \<Rightarrow> ('k, 'v) table \<Rightarrow> ('k, 'v) table" where
  "tab_assign k v [] = [(k, v)]"
| "tab_assign k v ((k', v') # m) =
     (if k < k' then (k, v) # (k', v') # m
      else if k = k' then (k, v) # m
      else (k', v') # tab_assign k v m)"

definition tab_insert :: "'k::linorder \<Rightarrow> 'v \<Rightarrow> ('k, 'v) table \<Rightarrow> ('k, 'v) table" where
  "tab_insert k v m = (if tab_find k m = None then tab_assign k v m else m)"

definition tab_erase :: "'k \<Rightarrow> ('k, 'v) table \<Rightarrow> ('k, 'v) table" where
  "tab_erase k m = filter (\<lambda>e. fst e \<noteq> k) m"

definition tab_ok :: "('k::linorder, 'v) table \<Rightarrow> bool" where
  "tab_ok m \<longleftrightarrow> sorted (map fst m) \<and> distinct (map fst m)"

section \<open>The laws of a table\<close>

text \<open>
  What the clients rely on: the invariant is kept, and a lookup after each operation.  The lemmas
  proved from the laws serve every table of the program.
\<close>

locale table_laws =
  fixes ok :: "'t \<Rightarrow> bool"
    and lookup :: "'k \<Rightarrow> 't \<Rightarrow> 'v option"
    and ins :: "'k \<Rightarrow> 'v \<Rightarrow> 't \<Rightarrow> 't"
    and asg :: "'k \<Rightarrow> 'v \<Rightarrow> 't \<Rightarrow> 't"
    and del :: "'k \<Rightarrow> 't \<Rightarrow> 't"
  assumes ok_ins: "ok t \<Longrightarrow> ok (ins k v t)"
    and ok_asg: "ok t \<Longrightarrow> ok (asg k v t)"
    and ok_del: "ok t \<Longrightarrow> ok (del k t)"
    and lookup_ins: "lookup k' (ins k v t) = (if k' = k \<and> lookup k t = None then Some v else lookup k' t)"
    and lookup_asg: "lookup k' (asg k v t) = (if k' = k then Some v else lookup k' t)"
    and lookup_del: "lookup k' (del k t) = (if k' = k then None else lookup k' t)"
begin

lemma ok_erase_all: "ok t \<Longrightarrow> ok (fold del ks t)"
  by (induction ks arbitrary: t) (simp_all add: ok_del)

lemma lookup_erase_all: "lookup k (fold del ks t) = (if k \<in> set ks then None else lookup k t)"
  by (induction ks arbitrary: t) (simp_all add: lookup_del)

lemma ins_after_del: "lookup k (ins k v (del k t)) = Some v"
  by (simp add: lookup_ins lookup_del)

lemma ins_present: "lookup k t = Some w \<Longrightarrow> lookup k (ins k v t) = Some w"
  by (simp add: lookup_ins)

end

section \<open>Lemmas\<close>

lemma tab_find_simps [simp]:
  "tab_find k [] = None"
  "tab_find k ((k', v) # m) = (if k = k' then Some v else tab_find k m)"
  by (simp_all add: tab_find_def)

lemma tab_find_assign: "tab_find k' (tab_assign k v m) = (if k' = k then Some v else tab_find k' m)"
  by (induction m) auto

lemma tab_find_erase: "tab_find k' (tab_erase k m) = (if k' = k then None else tab_find k' m)"
  by (induction m) (auto simp: tab_erase_def)

lemma tab_find_None: "tab_find k m = None \<longleftrightarrow> k \<notin> fst ` set m"
  by (auto simp: tab_find_def map_of_eq_None_iff)

lemma set_keys_assign: "fst ` set (tab_assign k v m) = insert k (fst ` set m)"
proof (induction m)
  case (Cons e m)
  then show ?case by (cases e) (simp add: insert_commute)
qed simp

lemma tab_ok_Nil [simp]: "tab_ok []"
  by (simp add: tab_ok_def)

lemma tab_ok_assign: "tab_ok m \<Longrightarrow> tab_ok (tab_assign k v m)"
proof (induction m)
  case (Cons e m)
  obtain k' v' where e: "e = (k', v')" by (cases e)
  have keys: "set (map fst (tab_assign k v m)) = insert k (set (map fst m))" by (simp add: set_keys_assign)
  have "tab_ok (tab_assign k v m)" using Cons by (auto simp: tab_ok_def)
  moreover have "k' \<notin> set (map fst m)" "\<forall>x \<in> set (map fst m). k' \<le> x" using Cons.prems e by (auto simp: tab_ok_def)
  ultimately show ?case using Cons.prems keys unfolding e tab_ok_def by (auto simp: not_less)
qed (simp add: tab_ok_def)

lemma tab_ok_erase: "tab_ok m \<Longrightarrow> tab_ok (tab_erase k m)"
  by (simp add: tab_ok_def tab_erase_def distinct_map_filter sorted_filter)

interpretation tab: table_laws "tab_ok :: ('k::linorder, 'v) table \<Rightarrow> bool" tab_find tab_insert tab_assign tab_erase
  by unfold_locales (auto simp: tab_insert_def tab_ok_assign tab_ok_erase tab_find_assign tab_find_erase)

lemmas tab_lookup = tab.lookup_ins tab.lookup_asg tab.lookup_del
lemmas tab_inv = tab.ok_ins tab.ok_asg tab.ok_del

lemma length_tab_assign: "tab_ok m \<Longrightarrow> length (tab_assign k v m) = (if tab_find k m = None then length m + 1 else length m)"
proof (induction m)
  case (Cons e m)
  obtain k' v' where e: "e = (k', v')" by (cases e)
  have "k \<notin> fst ` set m" if "k < k'" using Cons.prems that unfolding e tab_ok_def by auto
  then show ?case using Cons unfolding e by (auto simp: tab_ok_def tab_find_None)
qed simp

lemma length_tab_insert: "tab_ok m \<Longrightarrow> length (tab_insert k v m) = (if tab_find k m = None then length m + 1 else length m)"
  by (simp add: tab_insert_def length_tab_assign)

lemma length_tab_erase:
  assumes "tab_ok m" and "k \<in> fst ` set m"
  shows "length (tab_erase k m) + 1 = length m"
  using assms
proof (induction m)
  case (Cons e m)
  show ?case
  proof (cases "fst e = k")
    case True
    then have "k \<notin> fst ` set m" using Cons.prems by (auto simp: tab_ok_def)
    then have "filter (\<lambda>e. fst e \<noteq> k) m = m" by (auto simp: filter_id_conv)
    then show ?thesis using True by (simp add: tab_erase_def)
  next
    case False
    then show ?thesis using Cons by (auto simp: tab_erase_def tab_ok_def)
  qed
qed simp

lemma length_tab_erase_le: "length (tab_erase k m) \<le> length m"
  by (simp add: tab_erase_def)

lemma set_tab_erase: "set (tab_erase k m) = {e \<in> set m. fst e \<noteq> k}"
  by (auto simp: tab_erase_def)

end
