(* ===== verification/Generational_Set.thy ===== *)
theory Generational_Set
  imports Prelude
begin

text \<open>
  The two-generation set of \<open>Utilities/GenerationalSet.h\<close>, which Transport uses for its packet
  hash list.  A \<open>std::set\<close> is a strictly sorted list (its iteration order); an iterator is a
  generation and an index into it.  Sizes are natural numbers: \<open>_max_size + 1\<close> wraps around in the
  code only for a limit of \<open>SIZE_MAX\<close> elements, which no set in memory reaches.
\<close>

section \<open>std::set\<close>

definition std_find :: "'a \<Rightarrow> 'a list \<Rightarrow> nat option" where
  "std_find x xs = (if x \<in> set xs then Some (length (takeWhile (\<lambda>y. y \<noteq> x) xs)) else None)"

definition std_insert :: "'a::linorder \<Rightarrow> 'a list \<Rightarrow> 'a list \<times> nat \<times> bool" where
  "std_insert x xs =
     (let ys = (if x \<in> set xs then xs else insort x xs)
      in (ys, length (takeWhile (\<lambda>y. y \<noteq> x) ys), x \<notin> set xs))"

definition std_erase :: "'a \<Rightarrow> 'a list \<Rightarrow> 'a list \<times> nat" where
  "std_erase x xs = (remove1 x xs, if x \<in> set xs then 1 else 0)"

definition std_erase_at :: "nat \<Rightarrow> 'a list \<Rightarrow> 'a list" where
  "std_erase_at i xs = take i xs @ drop (Suc i) xs"

section \<open>The container\<close>

record 'a gset =
  active :: "'a list"
  previous :: "'a list"
  max_sz :: nat

datatype giter = PREVIOUS nat | ACTIVE nat | AT_END

definition gs_empty_set :: "'a gset" where
  "gs_empty_set = \<lparr>active = [], previous = [], max_sz = 0\<rparr>"

definition gs_max_size :: "nat \<Rightarrow> 'a gset \<Rightarrow> 'a gset" where
  "gs_max_size n g = g\<lparr>max_sz := n\<rparr>"

definition gs_size :: "'a gset \<Rightarrow> nat" where
  "gs_size g = length (active g) + length (previous g)"

definition gs_is_empty :: "'a gset \<Rightarrow> bool" where
  "gs_is_empty g \<longleftrightarrow> active g = [] \<and> previous g = []"

definition gs_clear :: "'a gset \<Rightarrow> 'a gset" where
  "gs_clear g = g\<lparr>active := [], previous := []\<rparr>"

definition normalize :: "'a gset \<Rightarrow> giter \<Rightarrow> giter" where
  "normalize g p =
     (let p' = (case p of PREVIOUS i \<Rightarrow> if i = length (previous g) then ACTIVE 0 else p | _ \<Rightarrow> p)
      in (case p' of ACTIVE i \<Rightarrow> if i = length (active g) then AT_END else p' | _ \<Rightarrow> p'))"

definition rotation_due :: "'a gset \<Rightarrow> bool" where
  "rotation_due g \<longleftrightarrow> max_sz g > 0 \<and> length (active g) \<ge> (max_sz g + 1) div 2"

definition gs_insert :: "'a::linorder \<Rightarrow> 'a gset \<Rightarrow> 'a gset \<times> giter \<times> bool" where
  "gs_insert x g =
     (case std_find x (previous g) of
        Some i \<Rightarrow> (g, normalize g (PREVIOUS i), False)
      | None \<Rightarrow>
          (let (act, i, fresh) = std_insert x (active g); g1 = g\<lparr>active := act\<rparr>
           in if \<not> fresh then (g1, normalize g1 (ACTIVE i), False)
              else if rotation_due g1 then
                (let g2 = g1\<lparr>previous := active g1, active := []\<rparr>
                 in (g2, normalize g2 (PREVIOUS i), True))
              else (g1, normalize g1 (ACTIVE i), True)))"

definition gs_erase :: "'a \<Rightarrow> 'a gset \<Rightarrow> 'a gset \<times> nat" where
  "gs_erase x g =
     (let (act, n) = std_erase x (active g); (prev, m) = std_erase x (previous g)
      in (g\<lparr>active := act, previous := prev\<rparr>, n + m))"

definition gs_end :: "'a gset \<Rightarrow> giter" where
  "gs_end g = normalize g AT_END"

definition gs_begin :: "'a gset \<Rightarrow> giter" where
  "gs_begin g = normalize g (PREVIOUS 0)"

definition gs_erase_at :: "giter \<Rightarrow> 'a gset \<Rightarrow> 'a gset \<times> giter" where
  "gs_erase_at p g =
     (case p of
        ACTIVE i \<Rightarrow>
          (let g' = g\<lparr>active := std_erase_at i (active g)\<rparr> in (g', normalize g' (ACTIVE i)))
      | PREVIOUS i \<Rightarrow>
          (let g' = g\<lparr>previous := std_erase_at i (previous g)\<rparr> in (g', normalize g' (PREVIOUS i)))
      | AT_END \<Rightarrow> (g, gs_end g))"

definition gs_find :: "'a \<Rightarrow> 'a gset \<Rightarrow> giter" where
  "gs_find x g =
     (case std_find x (active g) of
        Some i \<Rightarrow> normalize g (ACTIVE i)
      | None \<Rightarrow>
          (case std_find x (previous g) of
             Some i \<Rightarrow> normalize g (PREVIOUS i)
           | None \<Rightarrow> gs_end g))"

definition gs_count :: "'a \<Rightarrow> 'a gset \<Rightarrow> nat" where
  "gs_count x g = (if x \<in> set (active g) \<or> x \<in> set (previous g) then 1 else 0)"

definition gs_contains :: "'a \<Rightarrow> 'a gset \<Rightarrow> bool" where
  "gs_contains x g \<longleftrightarrow>
     std_find x (active g) \<noteq> None \<or> std_find x (previous g) \<noteq> None"

text \<open>\<open>operator++\<close> and \<open>operator*\<close>.\<close>

definition iter_next :: "'a gset \<Rightarrow> giter \<Rightarrow> giter" where
  "iter_next g p =
     (case p of
        PREVIOUS i \<Rightarrow> normalize g (PREVIOUS (Suc i))
      | ACTIVE i \<Rightarrow> normalize g (ACTIVE (Suc i))
      | AT_END \<Rightarrow> AT_END)"

definition iter_deref :: "'a gset \<Rightarrow> giter \<Rightarrow> 'a option" where
  "iter_deref g p =
     (case p of
        PREVIOUS i \<Rightarrow> if i < length (previous g) then Some (previous g ! i) else None
      | ACTIVE i \<Rightarrow> if i < length (active g) then Some (active g ! i) else None
      | AT_END \<Rightarrow> None)"

fun iter_rest :: "'a gset \<Rightarrow> giter \<Rightarrow> nat" where
  "iter_rest g (PREVIOUS i) = Suc (length (active g) + 1) + (length (previous g) - i)"
| "iter_rest g (ACTIVE i) = Suc (length (active g) - i)"
| "iter_rest g AT_END = 0"

text \<open>The loop \<open>for (it = begin(); it != end(); ++it)\<close> collecting \<open>*it\<close>.\<close>

function iterate :: "'a gset \<Rightarrow> giter \<Rightarrow> 'a list" where
  "iterate g p =
     (case iter_deref g p of None \<Rightarrow> [] | Some x \<Rightarrow> x # iterate g (iter_next g p))"
  by pat_completeness auto
termination
proof (relation "measure (\<lambda>(g, p). iter_rest g p)", goal_cases)
  case (2 g p x)
  then show ?case
    by (auto simp: iter_deref_def iter_next_def normalize_def Let_def
        split: giter.splits if_splits)
qed simp

declare iterate.simps [simp del]

definition gs_elems :: "'a gset \<Rightarrow> 'a set" where
  "gs_elems g = set (active g) \<union> set (previous g)"

definition gs_inv :: "'a::linorder gset \<Rightarrow> bool" where
  "gs_inv g \<longleftrightarrow>
     sorted (active g) \<and> distinct (active g) \<and> sorted (previous g) \<and> distinct (previous g) \<and>
     set (active g) \<inter> set (previous g) = {}"

definition gs_bounded :: "'a gset \<Rightarrow> bool" where
  "gs_bounded g \<longleftrightarrow>
     (max_sz g > 0 \<longrightarrow>
        length (active g) < (max_sz g + 1) div 2 \<and> length (previous g) \<le> (max_sz g + 1) div 2)"

abbreviation ins :: "'a::linorder \<Rightarrow> 'a gset \<Rightarrow> 'a gset" where
  "ins x g \<equiv> fst (gs_insert x g)"

abbreviation ins_fresh :: "'a::linorder \<Rightarrow> 'a gset \<Rightarrow> bool" where
  "ins_fresh x g \<equiv> snd (snd (gs_insert x g))"

text \<open>How many of a sequence of insertions were of a new element.\<close>

fun fresh_count :: "'a::linorder list \<Rightarrow> 'a gset \<Rightarrow> nat" where
  "fresh_count [] g = 0"
| "fresh_count (x # xs) g = (if ins_fresh x g then 1 else 0) + fresh_count xs (ins x g)"

section \<open>Lemmas\<close>

lemma contains_iff: "gs_contains x g \<longleftrightarrow> x \<in> gs_elems g"
  by (simp add: gs_contains_def std_find_def gs_elems_def)

lemma insert_cases:
  obtains (old) "x \<in> gs_elems g" "ins x g = g" "\<not> ins_fresh x g"
  | (new) "x \<notin> gs_elems g" "ins_fresh x g" "\<not> rotation_due (g\<lparr>active := insort x (active g)\<rparr>)"
      "ins x g = g\<lparr>active := insort x (active g)\<rparr>"
  | (rotate) "x \<notin> gs_elems g" "ins_fresh x g" "rotation_due (g\<lparr>active := insort x (active g)\<rparr>)"
      "ins x g = g\<lparr>previous := insort x (active g), active := []\<rparr>"
proof -
  have 1: "x \<in> gs_elems g \<Longrightarrow> ins x g = g \<and> \<not> ins_fresh x g"
    by (auto simp: gs_insert_def gs_elems_def std_find_def std_insert_def Let_def split: option.split)
  have 2: "x \<notin> gs_elems g \<Longrightarrow> ins_fresh x g \<and> ins x g =
      (if rotation_due (g\<lparr>active := insort x (active g)\<rparr>)
       then g\<lparr>previous := insort x (active g), active := []\<rparr> else g\<lparr>active := insort x (active g)\<rparr>)"
    by (auto simp: gs_insert_def gs_elems_def std_find_def std_insert_def Let_def split: option.split)
  show thesis
    using 1 2 old new rotate by (cases "x \<in> gs_elems g") (auto split: if_splits)
qed

lemma max_sz_ins [simp]: "max_sz (ins x g) = max_sz g"
  by (cases rule: insert_cases [of x g]) simp_all

lemma gs_inv_ins [inv_intros]: "gs_inv g \<Longrightarrow> gs_inv (ins x g)"
  by (cases rule: insert_cases [of x g])
     (auto simp: gs_inv_def gs_elems_def sorted_insort distinct_insort set_insort_key)

lemma gs_bounded_ins [inv_intros]: "gs_bounded g \<Longrightarrow> gs_bounded (ins x g)"
  by (cases rule: insert_cases [of x g]) (auto simp: gs_bounded_def rotation_due_def)

lemma fresh_iff: "ins_fresh x g \<longleftrightarrow> x \<notin> gs_elems g"
  by (cases rule: insert_cases [of x g]) simp_all

lemma elems_ins_self [simp]: "x \<in> gs_elems (ins x g)"
  by (cases rule: insert_cases [of x g]) (auto simp: gs_elems_def set_insort_key)

lemma elems_ins_subset: "gs_elems (ins x g) \<subseteq> insert x (gs_elems g)"
  by (cases rule: insert_cases [of x g]) (auto simp: gs_elems_def set_insort_key)

lemma elems_ins_unbounded: "max_sz g = 0 \<Longrightarrow> gs_elems (ins x g) = insert x (gs_elems g)"
  by (cases rule: insert_cases [of x g]) (auto simp: gs_elems_def set_insort_key rotation_due_def)

lemma size_bound: "gs_bounded g \<Longrightarrow> max_sz g > 0 \<Longrightarrow> gs_size g \<le> max_sz g"
  by (auto simp: gs_bounded_def gs_size_def)

subsection \<open>The retention window\<close>

text \<open>How many insertions of new elements \<open>x\<close> survives at least.\<close>

definition life :: "'a gset \<Rightarrow> 'a \<Rightarrow> nat" where
  "life g x =
     (let h = (max_sz g + 1) div 2
      in if x \<in> set (active g) then (h - length (active g)) + h
         else if x \<in> set (previous g) then h - length (active g) else 0)"

lemma life_pos: "life g x > 0 \<Longrightarrow> x \<in> gs_elems g"
  by (auto simp: life_def gs_elems_def Let_def split: if_splits)

lemma life_step:
  assumes "gs_bounded g" and "max_sz g > 0"
  shows "life g x \<le> life (ins y g) x + (if ins_fresh y g then 1 else 0)"
proof (cases rule: insert_cases [of y g])
  case old
  then show ?thesis by simp
next
  case new
  then show ?thesis by (auto simp: life_def Let_def set_insort_key gs_elems_def)
next
  case rotate
  then show ?thesis
    using assms by (auto simp: life_def Let_def set_insort_key gs_bounded_def rotation_due_def)
qed

lemma life_run:
  "gs_bounded g \<Longrightarrow> max_sz g > 0 \<Longrightarrow> life g x \<le> life (fold ins ys g) x + fresh_count ys g"
proof (induction ys arbitrary: g)
  case (Cons y ys)
  then have "life (ins y g) x \<le> life (fold ins ys (ins y g)) x + fresh_count ys (ins y g)"
    by (simp add: inv_intros)
  with life_step [OF Cons.prems, of x y] show ?case by simp
qed simp

lemma life_fresh:
  assumes "gs_bounded g" and "max_sz g > 0" and "x \<notin> gs_elems g"
  shows "life (ins x g) x \<ge> (max_sz g + 1) div 2"
  using assms
  by (cases rule: insert_cases [of x g])
     (auto simp: life_def Let_def set_insort_key gs_elems_def gs_bounded_def rotation_due_def)

subsection \<open>Iteration\<close>

lemma iterate_end [simp]: "iterate g AT_END = []"
  by (simp add: iterate.simps iter_deref_def)

lemma iterate_active: "iterate g (normalize g (ACTIVE i)) = drop i (active g)"
proof (induction "length (active g) - i" arbitrary: i)
  case 0
  then have "length (active g) \<le> i" by simp
  then show ?case
    by (cases "i = length (active g)") (simp_all add: normalize_def iterate.simps iter_deref_def)
next
  case (Suc k)
  then have i: "i < length (active g)" and IH: "iterate g (normalize g (ACTIVE (Suc i))) = drop (Suc i) (active g)"
    by auto
  from i have "iterate g (normalize g (ACTIVE i)) = active g ! i # iterate g (normalize g (ACTIVE (Suc i)))"
    by (simp add: normalize_def iterate.simps [of g "ACTIVE i"] iter_deref_def iter_next_def)
  with IH i show ?case by (simp add: Cons_nth_drop_Suc)
qed

lemma iterate_previous:
  "i \<le> length (previous g) \<Longrightarrow>
   iterate g (normalize g (PREVIOUS i)) = drop i (previous g) @ active g"
proof (induction "length (previous g) - i" arbitrary: i)
  case 0
  then have "normalize g (PREVIOUS i) = normalize g (ACTIVE 0)" by (simp add: normalize_def)
  with 0 show ?case by (simp add: iterate_active)
next
  case (Suc k)
  then have i: "i < length (previous g)"
    and IH: "iterate g (normalize g (PREVIOUS (Suc i))) = drop (Suc i) (previous g) @ active g"
    by auto
  from i have "iterate g (normalize g (PREVIOUS i))
      = previous g ! i # iterate g (normalize g (PREVIOUS (Suc i)))"
    by (simp add: normalize_def iterate.simps [of g "PREVIOUS i"] iter_deref_def iter_next_def)
  with IH i show ?case by (metis Cons_nth_drop_Suc append_Cons)
qed

subsection \<open>Erasing\<close>

lemma gs_inv_erase [inv_intros]: "gs_inv g \<Longrightarrow> gs_inv (fst (gs_erase x g))"
  by (auto simp: gs_inv_def gs_erase_def std_erase_def sorted_remove1 set_remove1_eq)

lemma elems_erase: "gs_inv g \<Longrightarrow> gs_elems (fst (gs_erase x g)) = gs_elems g - {x}"
  by (auto simp: gs_inv_def gs_erase_def std_erase_def gs_elems_def)

lemma erase_count: "gs_inv g \<Longrightarrow> snd (gs_erase x g) = (if x \<in> gs_elems g then 1 else 0)"
  by (auto simp: gs_inv_def gs_erase_def std_erase_def gs_elems_def)

section \<open>The contract Transport relies on\<close>

text \<open>
  A duplicate filter: what was just added is a member, and a member was added at some time.
\<close>

locale duplicate_filter =
  fixes finv :: "'f \<Rightarrow> bool"
    and fadd :: "'a \<Rightarrow> 'f \<Rightarrow> 'f"
    and fmem :: "'a \<Rightarrow> 'f \<Rightarrow> bool"
  assumes finv_add: "finv f \<Longrightarrow> finv (fadd x f)"
    and fmem_add_self: "finv f \<Longrightarrow> fmem x (fadd x f)"
    and fmem_add_old: "finv f \<Longrightarrow> fmem y (fadd x f) \<Longrightarrow> y = x \<or> fmem y f"
begin

lemma run_finv: "finv f \<Longrightarrow> finv (fold fadd xs f)"
  by (induction xs arbitrary: f) (simp_all add: finv_add)

lemma no_false_positive:
  "finv f \<Longrightarrow> fmem y (fold fadd xs f) \<Longrightarrow> y \<in> set xs \<or> fmem y f"
proof (induction xs arbitrary: f)
  case (Cons x xs)
  then have "y \<in> set xs \<or> fmem y (fadd x f)" by (simp add: finv_add)
  with Cons.prems(1) fmem_add_old show ?case by auto
qed simp

lemma latest_member: "finv f \<Longrightarrow> fmem x (fold fadd (xs @ [x]) f)"
  by (simp add: fmem_add_self run_finv)

end

interpretation gs: duplicate_filter "\<lambda>g. gs_inv g \<and> gs_bounded g" ins gs_contains
proof unfold_locales
  fix g :: "'a gset" and x y
  assume inv: "gs_inv g \<and> gs_bounded g"
  then show "gs_inv (ins x g) \<and> gs_bounded (ins x g)" by (simp add: inv_intros)
  show "gs_contains x (ins x g)" by (simp add: contains_iff)
  show "y = x \<or> gs_contains y g" if "gs_contains y (ins x g)"
    using that elems_ins_subset [of x g] by (auto simp: contains_iff)
qed

lemma gs_start: "gs_inv (gs_max_size n gs_empty_set) \<and> gs_bounded (gs_max_size n gs_empty_set)"
  by (auto simp: gs_inv_def gs_bounded_def gs_max_size_def gs_empty_set_def)

lemma elems_start [simp]: "gs_elems (gs_max_size n gs_empty_set) = {}"
  by (simp add: gs_elems_def gs_max_size_def gs_empty_set_def)

lemma max_sz_fold_ins [simp]: "max_sz (fold ins xs g) = max_sz g"
  by (induction xs arbitrary: g) simp_all

section \<open>Properties\<close>

text \<open>
  The size stays within the configured maximum: after any insertions into a set created
  with \<open>max_size(n)\<close>, \<open>n > 0\<close>, it holds at most \<open>n\<close> elements; no element is in both
  generations, and the iteration yields every element exactly once.
\<close>

lemma gs_size_bounded:
  assumes "n > 0"
  shows "gs_size (fold ins xs (gs_max_size n gs_empty_set)) \<le> n \<and>
         distinct (iterate (fold ins xs (gs_max_size n gs_empty_set))
                    (gs_begin (fold ins xs (gs_max_size n gs_empty_set)))) \<and>
         set (iterate (fold ins xs (gs_max_size n gs_empty_set))
                    (gs_begin (fold ins xs (gs_max_size n gs_empty_set))))
           = gs_elems (fold ins xs (gs_max_size n gs_empty_set))"
proof -
  let ?g = "fold ins xs (gs_max_size n gs_empty_set)"
  have inv: "gs_inv ?g" and b: "gs_bounded ?g" using gs.run_finv [OF gs_start] by blast+
  have "iterate ?g (gs_begin ?g) = previous ?g @ active ?g"
    by (simp add: gs_begin_def iterate_previous)
  moreover have "gs_size ?g \<le> n"
    using size_bound [OF b] assms by (simp add: gs_max_size_def)
  ultimately show ?thesis using inv by (auto simp: gs_inv_def gs_elems_def)
qed

text \<open>
  C23. The retention window: an element just inserted into a set of maximum size \<open>n\<close> is still
  found after any further insertions, as long as fewer than \<open>(n + 1) / 2\<close> of them were new; and
  the set never reports an element that was not inserted.
\<close>

theorem gs_window:
  assumes "n > 0" and "x \<notin> gs_elems (fold ins xs (gs_max_size n gs_empty_set))"
    and "fresh_count ys (fold ins (xs @ [x]) (gs_max_size n gs_empty_set)) < (n + 1) div 2"
  shows "gs_contains x (fold ins (xs @ x # ys) (gs_max_size n gs_empty_set)) \<and>
         (\<forall>y. gs_contains y (fold ins (xs @ x # ys) (gs_max_size n gs_empty_set)) \<longrightarrow>
            y \<in> set (xs @ x # ys))"
proof -
  let ?e = "gs_max_size n (gs_empty_set :: 'a gset)"
  let ?g = "fold ins xs ?e"
  have b: "gs_bounded ?g" and m: "max_sz ?g = n"
    using gs.run_finv [OF gs_start] by (auto simp: gs_max_size_def)
  have "life (ins x ?g) x \<ge> (n + 1) div 2" using life_fresh [OF b _ assms(2)] m assms(1) by simp
  moreover have "life (ins x ?g) x \<le> life (fold ins ys (ins x ?g)) x + fresh_count ys (ins x ?g)"
    using life_run [of "ins x ?g" x ys] b m assms(1) by (simp add: inv_intros)
  ultimately have "life (fold ins ys (ins x ?g)) x > 0" using assms(3) by simp
  then have "gs_contains x (fold ins (xs @ x # ys) ?e)" by (simp add: life_pos contains_iff)
  moreover have "y \<in> set (xs @ x # ys)" if "gs_contains y (fold ins (xs @ x # ys) ?e)" for y
    using gs.no_false_positive [OF gs_start that] by (simp add: contains_iff)
  ultimately show ?thesis by blast
qed

theorem gs_window_witness:
  "gs_contains 7 (fold ins ([1, 2] @ 7 # [7, 3 :: nat]) (gs_max_size 4 gs_empty_set))"
proof -
  have "7 \<notin> gs_elems (fold ins [1, 2 :: nat] (gs_max_size 4 gs_empty_set))" by code_simp
  moreover have "fresh_count [7, 3 :: nat] (fold ins ([1, 2] @ [7]) (gs_max_size 4 gs_empty_set))
      < (4 + 1) div 2"
    by code_simp
  ultimately show ?thesis using gs_window [of 4 "7 :: nat" "[1, 2]" "[7, 3]"] by simp
qed

end
