(* ===== verification/Transport_State.thy ===== *)
theory Transport_State
  imports Receipts Link Std_Map Generational_Set
begin

text \<open>
  The state of the transport layer (the static members of \<open>Transport\<close>, \<open>Transport.h\<close>) and what it
  asks of the rest of the program.

  \<open>tenv\<close> holds what does not change while packets are processed: the cryptographic library, the
  operations of the three stores, the identity of the node and its configuration
  (\<open>te_probe_neighbors\<close>: probing is enabled and so is the probe destination), whether the interface
  drivers accept what is written to them (\<open>te_send_outgoing\<close>), what the packet cache in the file
  system holds (\<open>te_cached_packet\<close>), and the answer of the application when a destination asks it
  whether to prove a packet (\<open>te_proof_requested\<close>).

  \<open>transport\<close> holds the tables.  \<open>_local_client_interfaces\<close> has no member: nothing in the repository
  adds an element to it, so the branches that need one are left out.  The traffic statistics are not
  kept.

  A handler returns the new state and a list of \<open>tevent\<close>s: transmissions, packets handed to
  \<open>Packet::send\<close>, plaintext for the packet callback of a local destination, link requests and packets
  for local links, receipts concluded or expired, callbacks, and cached packets to be received again.
\<close>

section \<open>Table entries\<close>

record announce_entry =
  ae_timestamp :: real
  ae_retransmit_timeout :: real
  ae_retries :: byte
  ae_received_from :: bytes
  ae_hops :: byte
  ae_packet :: packet
  ae_local_rebroadcasts :: byte
  ae_block_rebroadcasts :: bool
  ae_attached_interface :: "nat option"

record link_entry =
  le_timestamp :: real
  le_next_hop :: bytes
  le_outbound_interface :: "nat option"
  le_remaining_hops :: byte
  le_receiving_interface :: "nat option"
  le_hops :: byte
  le_destination_hash :: bytes
  le_validated :: bool
  le_proof_timeout :: "real option"

record reverse_entry =
  re_receiving_interface :: "nat option"
  re_outbound_interface :: "nat option"
  re_timestamp :: real
  re_next_hop :: bytes

record path_request_entry =
  pr_destination_hash :: bytes
  pr_timeout :: real
  pr_requesting_interface :: "nat option"

record rate_entry =
  rt_last :: real
  rt_rate_violations :: real
  rt_blocked_until :: real
  rt_timestamps :: "real list"

definition new_rate_entry :: "real \<Rightarrow> rate_entry" where
  "new_rate_entry now = \<lparr>rt_last = now, rt_rate_violations = 0, rt_blocked_until = 0, rt_timestamps = [now]\<rparr>"

text \<open>What is known of a direct neighbour (\<open>RNS_NEIGHBOR_PROBING\<close>, on by default); the counters are 32 bits wide.\<close>

record neighbor_stat =
  ns_packets_forwarded :: "32 word"
  ns_proofs_received :: "32 word"
  ns_last_packet_at :: real
  ns_last_proof_at :: real
  ns_last_probe_at :: real
  ns_probe_pending :: bool
  ns_pending_probe_hash :: bytes

definition new_neighbor_stat :: neighbor_stat where
  "new_neighbor_stat = \<lparr>ns_packets_forwarded = 0, ns_proofs_received = 0, ns_last_packet_at = 0, ns_last_proof_at = 0,
     ns_last_probe_at = 0, ns_probe_pending = False, ns_pending_probe_hash = []\<rparr>"

section \<open>The node\<close>

record ('s, 'k, 'h) tenv =
  te_lib :: crypto_lib
  te_paths :: "'s path_store"
  te_known :: "('k, identity_entry) typed_store"
  te_hashes :: "('h, unit) typed_store"
  te_identity_hash :: bytes
  te_transport_enabled :: bool
  te_shared_instance :: bool
  te_implicit_proof :: bool
  te_proof_requested :: "bytes \<Rightarrow> packet \<Rightarrow> bool"
  te_cached_packet :: "bytes \<Rightarrow> bytes option"
  te_send_outgoing :: "nat \<Rightarrow> bytes \<Rightarrow> bool"
  te_probe_neighbors :: bool
  te_path_table_maxsize :: nat
  te_announce_table_maxsize :: nat

record ('s, 'k, 'h) transport =
  t_ifs :: interfaces
  t_destinations :: "(bytes, bytes destination) table"
  t_paths :: 's
  t_path_states :: path_states
  t_known :: 'k
  t_hashlist :: 'h
  t_announce_table :: "(bytes, announce_entry) table"
  t_held_announces :: "(bytes, announce_entry) table"
  t_link_table :: "(bytes, link_entry) table"
  t_reverse_table :: "(bytes, reverse_entry) table"
  t_announce_rate_table :: "(bytes, rate_entry) table"
  t_blackholed :: blackholes
  t_pending_local_path_requests :: "(bytes, nat option) table"
  t_discovery_path_requests :: "(bytes, path_request_entry) table"
  t_announce_handlers :: "bytes list"
  t_path_requests :: "(bytes, real) table"
  t_discovery_pr_tags :: "bytes gset"
  t_pending_discovery_prs :: "(bytes \<times> nat option) list"
  t_pending_discovery_prs_last_tx :: real
  t_receipts :: "receipt list"
  t_active_links :: "link list"
  t_pending_links :: "link list"
  t_neighbor_stats :: "(bytes, neighbor_stat) table"
  t_jobs_running :: bool
  t_jobs_locked :: bool

datatype tevent =
    Transmit nat bytes
  | Send packet "nat option"
  | Packet_callback bytes bytes
  | Link_request bytes packet
  | Link_receive bytes packet
  | Link_proof bytes packet
  | Receipt_concluded receipt
  | Receipt_expired receipt
  | Announce_callback bytes bytes
  | Replay bytes

definition path_of :: "('s, 'k, 'h) tenv \<Rightarrow> ('s, 'k, 'h) transport \<Rightarrow> bytes \<Rightarrow> path_entry option" where
  "path_of E t h = find_path (te_lib E) (te_paths E) (t_ifs t) (t_paths t) h"

text \<open>\<open>Identity::recall\<close> with the path table and the registered destinations of the node.\<close>

definition recall_identity ::
  "('s, 'k, 'h) tenv \<Rightarrow> real \<Rightarrow> bytes \<Rightarrow> ('s, 'k, 'h) transport \<Rightarrow> (identity option \<times> ('s, 'k, 'h) transport) result" where
  "recall_identity E now h t =
     res_bind
       (recall (te_lib E) (te_known E) now
          (find_announce_packet_from_hash (te_lib E) (te_paths E) (t_ifs t) (t_paths t) h)
          (map_option d_identity (tab_find h (t_destinations t))) h (t_known t))
       (\<lambda>(i, ks). Inr (i, t\<lparr>t_known := ks\<rparr>))"

definition mark_unknown :: "('s, 'k, 'h) tenv \<Rightarrow> bytes \<Rightarrow> ('s, 'k, 'h) transport \<Rightarrow> ('s, 'k, 'h) transport" where
  "mark_unknown E h t =
     t\<lparr>t_path_states := snd (mark_path STATE_UNKNOWN (te_lib E) (te_paths E) (t_ifs t) (t_paths t) h (t_path_states t))\<rparr>"

text \<open>
  An announce sent on for another node: the received data under this node's transport id, built
  with the setters of \<open>Packet\<close> on a destination made from the address.
\<close>

definition relayed_announce :: "('s, 'k, 'h) tenv \<Rightarrow> byte \<Rightarrow> byte \<Rightarrow> packet \<Rightarrow> packet result" where
  "relayed_announce E ctx hops p =
     res_bind (packet_to_destination
        (Some \<lparr>dv_hash = p_destination_hash p, dv_type = SINGLE, dv_encrypt = Inr\<rparr>) (p_data p)) (\<lambda>p0.
     res_bind (set_packet_type ANNOUNCE p0) (\<lambda>p1.
     res_bind (set_context ctx p1) (\<lambda>p2.
     res_bind (set_transport_type TRANSPORT p2) (\<lambda>p3.
     res_bind (set_header_type HEADER_2 p3) (\<lambda>p4.
     res_bind (set_context_flag (p_context_flag p) (set_transport_id (te_identity_hash E) p4)) (\<lambda>p5.
       Inr (set_hops hops p5)))))))"

end
