(* ===== verification/Announces.thy ===== *)
theory Announces
  imports Transport_State
begin

text \<open>
  Announces at a node (\<open>Transport::inbound\<close>, the announce branch, \<open>cull_announce_table\<close>, and the
  retransmission of announces in \<open>Transport::jobs\<close>): whether a received announce replaces the known
  path, the announce rate limit, the entry of the path and announce tables, answers to waiting path
  requests, and the rebroadcasts.

  The clock is read once per handler (\<open>now\<close>), the random fraction of the retransmission delay is the
  argument \<open>rnd\<close>.
\<close>

abbreviation PATHFINDER_R :: nat where "PATHFINDER_R \<equiv> 1"
abbreviation PATHFINDER_G :: real where "PATHFINDER_G \<equiv> 5"
abbreviation PATHFINDER_RW :: real where "PATHFINDER_RW \<equiv> 1 / 2"
abbreviation LOCAL_REBROADCASTS_MAX :: nat where "LOCAL_REBROADCASTS_MAX \<equiv> 2"
abbreviation MAX_RATE_TIMESTAMPS :: nat where "MAX_RATE_TIMESTAMPS \<equiv> 16"
abbreviation DESTINATION_TIMEOUT :: nat where "DESTINATION_TIMEOUT \<equiv> 604800"
abbreviation PATHFINDER_E :: nat where "PATHFINDER_E \<equiv> 604800"
abbreviation AP_PATH_TIME :: nat where "AP_PATH_TIME \<equiv> 86400"
abbreviation ROAMING_PATH_TIME :: nat where "ROAMING_PATH_TIME \<equiv> 21600"

section \<open>Culling the announce table\<close>

text \<open>
  The keys in ascending order of time stamp and key; entries are erased until the limit is met,
  and the limit the loop tests is that of the path table.
\<close>

definition cull_order :: "(bytes, announce_entry) table \<Rightarrow> bytes list" where
  "cull_order tbl = map snd (sort_key fst (map (\<lambda>(k, e). (ae_timestamp e, k)) tbl))"

fun cull_loop :: "nat \<Rightarrow> bytes list \<Rightarrow> (bytes, announce_entry) table \<Rightarrow> (bytes, announce_entry) table" where
  "cull_loop maxsize [] tbl = tbl"
| "cull_loop maxsize (k # ks) tbl =
     (let tbl' = tab_erase k tbl in if length tbl' \<le> maxsize then tbl' else cull_loop maxsize ks tbl')"

definition cull_announce_table :: "('s, 'k, 'h) tenv \<Rightarrow> (bytes, announce_entry) table \<Rightarrow> (bytes, announce_entry) table" where
  "cull_announce_table E tbl =
     (if length tbl > te_announce_table_maxsize E
      then cull_loop (te_path_table_maxsize E) (cull_order tbl) tbl else tbl)"

section \<open>Ingestion\<close>

text \<open>A neighbour's rebroadcast of an announce that waits in our table.\<close>

definition hear_rebroadcast ::
  "('s, 'k, 'h) tenv \<Rightarrow> real \<Rightarrow> packet \<Rightarrow> (bytes, announce_entry) table \<Rightarrow> (bytes, announce_entry) table" where
  "hear_rebroadcast E now p tbl =
     (let dh = p_destination_hash p in
      if p_transport_id p = [] \<or> \<not> te_transport_enabled E then tbl
      else
        (case tab_find dh tbl of
           None \<Rightarrow> tbl
         | Some a \<Rightarrow>
             let same = (int (unat (p_hops p)) - 1 = int (unat (ae_hops a)));
                 a1 = (if same then a\<lparr>ae_local_rebroadcasts := ae_local_rebroadcasts a + 1\<rparr> else a);
                 tbl1 = tab_assign dh a1 tbl
             in if same \<and> unat (ae_local_rebroadcasts a1) \<ge> LOCAL_REBROADCASTS_MAX then tab_erase dh tbl
                else if int (unat (p_hops p)) - 1 = int (unat (ae_hops a)) + 1 \<and> unat (ae_retries a) > 0
                        \<and> now < ae_timestamp a
                then tab_erase dh tbl else tbl1))"

text \<open>The loop over the blobs stored with a path stops at one that is not older than the announce.\<close>

fun newest_emission :: "nat \<Rightarrow> nat \<Rightarrow> bytes list \<Rightarrow> nat result" where
  "newest_emission acc emitted [] = Inr acc"
| "newest_emission acc emitted (b # bs) =
     res_bind (emitted_at b) (\<lambda>e.
       if max acc e \<ge> emitted then Inr (max acc e) else newest_emission (max acc e) emitted bs)"

text \<open>
  The decision on an announce for a known path.  The second component tells that the path state was
  reset to unknown on the way; the unresponsive state is then no longer a reason to replace.
\<close>

definition replaces ::
  "real \<Rightarrow> byte \<Rightarrow> nat \<Rightarrow> bytes \<Rightarrow> bool \<Rightarrow> path_entry \<Rightarrow> (bool \<times> bool) result" where
  "replaces now hops emitted random_blob unresponsive e =
     (let blobs = pe_random_blobs e; fresh = (random_blob \<notin> set blobs)
      in res_bind
           (if hops \<le> pe_hops e then
              (let ok = (fresh \<and> emitted > timebase_from_random_blobs blobs) in Inr (ok, ok))
            else
              res_bind (newest_emission 0 emitted blobs) (\<lambda>path_emitted.
                Inr (if now \<ge> pe_expires e then (fresh, fresh)
                     else if emitted > path_emitted then (fresh, fresh)
                     else if emitted = path_emitted then (unresponsive, False)
                     else (False, False))))
           (\<lambda>(add, marked). Inr (add \<or> (unresponsive \<and> \<not> marked), marked)))"

definition should_add ::
  "real \<Rightarrow> byte \<Rightarrow> nat \<Rightarrow> bytes \<Rightarrow> bool \<Rightarrow> path_entry option \<Rightarrow> (bool \<times> bool) result" where
  "should_add now hops emitted random_blob unresponsive e =
     (case e of None \<Rightarrow> Inr (True, False) | Some e \<Rightarrow> replaces now hops emitted random_blob unresponsive e)"

text \<open>The announce rate limit of the receiving interface.\<close>

definition rate_limit ::
  "real \<Rightarrow> iface \<Rightarrow> rate_entry option \<Rightarrow> rate_entry \<times> bool" where
  "rate_limit now i e =
     (case e of
        None \<Rightarrow> (new_rate_entry now, False)
      | Some r \<Rightarrow>
          let r1 = r\<lparr>rt_timestamps := newest MAX_RATE_TIMESTAMPS (rt_timestamps r @ [now])\<rparr>;
              current_rate = now - rt_last r
          in if now > rt_blocked_until r then
               let v = (if current_rate < if_announce_rate_target i then rt_rate_violations r + 1
                        else max 0 (rt_rate_violations r - 1));
                   r2 = r1\<lparr>rt_rate_violations := v\<rparr>
               in if v > real (if_announce_rate_grace i)
                  then (r2\<lparr>rt_blocked_until := rt_last r + if_announce_rate_target i + if_announce_rate_penalty i\<rparr>, True)
                  else (r2\<lparr>rt_last := now\<rparr>, False)
             else (r1, True))"

definition rate_check ::
  "real \<Rightarrow> packet \<Rightarrow> iface \<Rightarrow> (bytes, rate_entry) table \<Rightarrow> (bytes, rate_entry) table \<times> bool" where
  "rate_check now p i tbl =
     (if p_context p \<noteq> PATH_RESPONSE \<and> if_announce_rate_target i > 0 then
        let (r, blocked) = rate_limit now i (tab_find (p_destination_hash p) tbl)
        in (tab_assign (p_destination_hash p) r tbl, blocked)
      else (tbl, False))"

definition path_time :: "iface_mode \<Rightarrow> nat \<Rightarrow> nat" where
  "path_time mode otherwise =
     (if mode = MODE_ACCESS_POINT then AP_PATH_TIME else if mode = MODE_ROAMING then ROAMING_PATH_TIME else otherwise)"

definition add_blob :: "bytes \<Rightarrow> bytes list \<Rightarrow> bytes list" where
  "add_blob b bs = (if b \<in> set bs then bs else newest MAX_RANDOM_BLOBS (bs @ [b]))"

text \<open>The announce table entry of an accepted announce, inserted if there is none.\<close>

definition queue_announce ::
  "('s, 'k, 'h) tenv \<Rightarrow> real \<Rightarrow> real \<Rightarrow> bytes \<Rightarrow> bool \<Rightarrow> bool \<Rightarrow> packet \<Rightarrow> ('s, 'k, 'h) transport \<Rightarrow> ('s, 'k, 'h) transport" where
  "queue_announce E now rnd received_from local rate_blocked p t =
     (let dh = p_destination_hash p;
          entry = (\<lambda>immediate. \<lparr>ae_timestamp = now,
             ae_retransmit_timeout = (if immediate then now else now + rnd * PATHFINDER_RW),
             ae_retries = (if immediate then word_of_nat PATHFINDER_R else 0), ae_received_from = received_from,
             ae_hops = p_hops p, ae_packet = p, ae_local_rebroadcasts = 0, ae_block_rebroadcasts = False,
             ae_attached_interface = None\<rparr>);
          ins = (\<lambda>e. cull_announce_table E (tab_insert dh e (t_announce_table t)))
      in if (te_transport_enabled E \<or> local) \<and> p_context p \<noteq> PATH_RESPONSE then
           (if rate_blocked then t else t\<lparr>t_announce_table := ins (entry local)\<rparr>)
         else if local \<and> p_context p = PATH_RESPONSE then
           (case tab_find dh (t_pending_local_path_requests t) of
              None \<Rightarrow> t
            | Some _ \<Rightarrow>
                t\<lparr>t_pending_local_path_requests := tab_erase dh (t_pending_local_path_requests t),
                  t_announce_table := ins (entry True)\<rparr>)
         else t)"

text \<open>An answer to a waiting discovery path request.\<close>

definition answer_discovery ::
  "('s, 'k, 'h) tenv \<Rightarrow> real \<Rightarrow> packet \<Rightarrow> ('s, 'k, 'h) transport \<Rightarrow> (('s, 'k, 'h) transport \<times> tevent list) result" where
  "answer_discovery E now p t =
     (case tab_find (p_destination_hash p) (t_discovery_path_requests t) of
        None \<Rightarrow> Inr (t, [])
      | Some r \<Rightarrow>
          res_bind (recall_identity E now (p_destination_hash p) t) (\<lambda>(_, t1).
          res_bind (relayed_announce E PATH_RESPONSE (p_hops p) p) (\<lambda>q.
            Inr (t1, [Send q (pr_requesting_interface r)]))))"

fun run_announce_handlers ::
  "('s, 'k, 'h) tenv \<Rightarrow> real \<Rightarrow> bytes \<Rightarrow> bytes list \<Rightarrow> ('s, 'k, 'h) transport \<Rightarrow> (('s, 'k, 'h) transport \<times> tevent list) result" where
  "run_announce_handlers E now dh [] t = Inr (t, [])"
| "run_announce_handlers E now dh (aspect # hs) t =
     res_bind
       (try_catch
         (res_bind (recall_identity E now dh t) (\<lambda>(i, t1).
            if aspect = [] then Inr (t1, [Announce_callback dh aspect])
            else
              res_bind (hash_from_name_and_identity (te_lib E) aspect i) (\<lambda>expected.
                Inr (t1, if dh = expected then [Announce_callback dh aspect] else []))))
         (\<lambda>_. Inr (t, [])))
       (\<lambda>(t2, evs). res_bind (run_announce_handlers E now dh hs t2) (\<lambda>(t3, evs'). Inr (t3, evs @ evs')))"

text \<open>
  What is done with an announce that is to be added.  An announce without receiving interface has
  no mode to read.
\<close>

definition add_announce ::
  "('s, 'k, 'h) tenv \<Rightarrow> real \<Rightarrow> real \<Rightarrow> nat option \<Rightarrow> bytes \<Rightarrow> bytes \<Rightarrow> bytes list \<Rightarrow> packet \<Rightarrow> ('s, 'k, 'h) transport \<Rightarrow>
     (('s, 'k, 'h) transport \<times> tevent list) result" where
  "add_announce E now rnd iface received_from random_blob random_blobs p t =
     (case iface of
        None \<Rightarrow> Inl Undefined_behaviour
      | Some n \<Rightarrow>
          let i = if_of (t_ifs t) n; dh = p_destination_hash p; local = if_local_client i;
              (rates, rate_blocked) = rate_check now p i (t_announce_rate_table t);
              t1 = queue_announce E now rnd received_from local rate_blocked p (t\<lparr>t_announce_rate_table := rates\<rparr>)
          in res_bind (answer_discovery E now p t1) (\<lambda>(t2, evs).
             let entry = \<lparr>pe_timestamp = now, pe_received_from = received_from, pe_hops = p_hops p,
                   pe_expires = now + real (path_time (if_mode i) PATHFINDER_E),
                   pe_random_blobs = add_blob random_blob random_blobs,
                   pe_receiving_interface = Some n, pe_announce_packet = Some p\<rparr>;
                 (stored, paths) = path_put (te_paths E) (t_ifs t2) dh entry (path_time (if_mode i) DESTINATION_TIMEOUT) (t_paths t2);
                 t3 = (if stored then mark_unknown E dh (t2\<lparr>t_paths := paths\<rparr>) else t2\<lparr>t_paths := paths\<rparr>)
             in if p_context p \<noteq> PATH_RESPONSE then
                  res_bind (run_announce_handlers E now dh (t_announce_handlers t3) t3) (\<lambda>(t4, evs').
                    Inr (t4, evs @ evs'))
                else Inr (t3, evs)))"

text \<open>Announces of blackholed identities are not added.\<close>

definition blackhole_filter ::
  "('s, 'k, 'h) tenv \<Rightarrow> real \<Rightarrow> bytes \<Rightarrow> ('s, 'k, 'h) transport \<Rightarrow> (bool \<times> ('s, 'k, 'h) transport) result" where
  "blackhole_filter E now dh t =
     (if t_blackholed t = Map.empty then Inr (True, t)
      else
        res_bind (recall_identity E now dh t) (\<lambda>(i, t1).
          Inr (case i of Some j \<Rightarrow> \<not> is_blackholed (t_blackholed t1) (i_hash j) | None \<Rightarrow> True, t1)))"

text \<open>The announce branch of \<open>inbound\<close>; \<open>p\<close> has its hop count raised already.\<close>

definition inbound_announce ::
  "('s, 'k, 'h) tenv \<Rightarrow> real \<Rightarrow> real \<Rightarrow> nat option \<Rightarrow> packet \<Rightarrow> ('s, 'k, 'h) transport \<Rightarrow>
     (('s, 'k, 'h) transport \<times> tevent list) result" where
  "inbound_announce E now rnd iface p t =
     (let dh = p_destination_hash p in
      if tab_find dh (t_destinations t) \<noteq> None then Inr (t, [])
      else
        res_bind (validate_announce (te_lib E) (te_known E) now p False (t_known t)) (\<lambda>(valid, ks).
          let t1 = t\<lparr>t_known := ks\<rparr> in
          if \<not> valid then Inr (t1, [])
          else
            let received_from = (if p_transport_id p \<noteq> [] then p_transport_id p else dh);
                t2 = t1\<lparr>t_announce_table := hear_rebroadcast E now p (t_announce_table t1)\<rparr>
            in if \<not> unat (p_hops p) < PATHFINDER_M + 1 then Inr (t2, [])
               else
                 res_bind (announce_emitted p) (\<lambda>emitted.
                 let random_blob = mid (p_data p) (KEYSIZE div 8 + NAME_HASH_LENGTH div 8) (RANDOM_HASH_LENGTH div 8);
                     path = path_of E t2 dh;
                     blobs = (case path of Some e \<Rightarrow> pe_random_blobs e | None \<Rightarrow> [])
                 in res_bind (should_add now (p_hops p) emitted random_blob
                       (path_is_unresponsive (t_path_states t2) dh) path) (\<lambda>(add, marked).
                    let t3 = (if marked then mark_unknown E dh t2 else t2)
                    in if \<not> add then Inr (t3, [])
                       else
                         res_bind (blackhole_filter E now dh t3) (\<lambda>(allowed, t4).
                           if allowed then add_announce E now rnd iface received_from random_blob blobs p t4
                           else Inr (t4, []))))))"

section \<open>Retransmission\<close>

text \<open>
  The loop over the announce table in \<open>jobs\<close>, with the completed announces and the packets to
  send.  Reinserting a held announce erases the table entry the loop stands on: the iterator and
  the key it refers to are gone, and the next step of the loop is undefined.
\<close>

definition completed :: "announce_entry \<Rightarrow> bool" where
  "completed a \<longleftrightarrow>
     (unat (ae_retries a) > 0 \<and> unat (ae_retries a) \<ge> LOCAL_REBROADCASTS_MAX) \<or> unat (ae_retries a) > PATHFINDER_R"

fun announce_loop ::
  "('s, 'k, 'h) tenv \<Rightarrow> real \<Rightarrow> (bytes, announce_entry) table \<Rightarrow> ('s, 'k, 'h) transport \<Rightarrow>
     (bytes list \<times> tevent list \<times> ('s, 'k, 'h) transport) result" where
  "announce_loop E now [] t = Inr ([], [], t)"
| "announce_loop E now ((dh, a) # rest) t =
     (if completed a then
        res_bind (announce_loop E now rest t) (\<lambda>(c, evs, t'). Inr (dh # c, evs, t'))
      else if now > ae_retransmit_timeout a then
        let a1 = a\<lparr>ae_retransmit_timeout := now + PATHFINDER_G + PATHFINDER_RW, ae_retries := ae_retries a + 1\<rparr>;
            t1 = t\<lparr>t_announce_table := tab_assign dh a1 (t_announce_table t)\<rparr>
        in res_bind (recall_identity E now (p_destination_hash (ae_packet a)) t1) (\<lambda>(i, t2).
             if i = None then
               res_bind (announce_loop E now rest t2) (\<lambda>(c, evs, t'). Inr (dh # c, evs, t'))
             else
               res_bind (relayed_announce E (if ae_block_rebroadcasts a then PATH_RESPONSE else CONTEXT_NONE)
                  (ae_hops a) (ae_packet a)) (\<lambda>q.
               if tab_find dh (t_held_announces t2) \<noteq> None then Inl Undefined_behaviour
               else
                 res_bind (announce_loop E now rest t2) (\<lambda>(c, evs, t').
                   Inr (c, Send q (ae_attached_interface a) # evs, t'))))
      else announce_loop E now rest t)"

definition announce_job ::
  "('s, 'k, 'h) tenv \<Rightarrow> real \<Rightarrow> ('s, 'k, 'h) transport \<Rightarrow> (('s, 'k, 'h) transport \<times> tevent list) result" where
  "announce_job E now t =
     res_bind (announce_loop E now (t_announce_table t) t) (\<lambda>(c, evs, t').
       Inr (t'\<lparr>t_announce_table := fold tab_erase c (t_announce_table t')\<rparr>, evs))"

section \<open>Lemmas\<close>

subsection \<open>What the operations leave alone\<close>

definition only_known :: "('s, 'k, 'h) transport \<Rightarrow> ('s, 'k, 'h) transport \<Rightarrow> bool" where
  "only_known t t' \<longleftrightarrow> t' = t\<lparr>t_known := t_known t'\<rparr>"

lemma only_known_refl [simp]: "only_known t t" by (simp add: only_known_def)

lemma only_known_trans: "only_known t u \<Longrightarrow> only_known u v \<Longrightarrow> only_known t v"
  unfolding only_known_def by (metis transport.surjective transport.update_convs(5))

lemma only_known_fields:
  assumes "only_known t t'"
  shows "t_ifs t' = t_ifs t" "t_destinations t' = t_destinations t" "t_paths t' = t_paths t"
    "t_path_states t' = t_path_states t" "t_hashlist t' = t_hashlist t" "t_announce_table t' = t_announce_table t"
    "t_held_announces t' = t_held_announces t" "t_link_table t' = t_link_table t" "t_reverse_table t' = t_reverse_table t"
    "t_announce_rate_table t' = t_announce_rate_table t" "t_blackholed t' = t_blackholed t"
    "t_discovery_path_requests t' = t_discovery_path_requests t" "t_announce_handlers t' = t_announce_handlers t"
    "t_pending_local_path_requests t' = t_pending_local_path_requests t"
    "t_path_requests t' = t_path_requests t" "t_discovery_pr_tags t' = t_discovery_pr_tags t" "t_receipts t' = t_receipts t" "t_pending_discovery_prs t' = t_pending_discovery_prs t"
    "t_active_links t' = t_active_links t" "t_pending_links t' = t_pending_links t" "t_neighbor_stats t' = t_neighbor_stats t"
  using assms unfolding only_known_def by (metis transport.ext_inject transport.surjective transport.update_convs(5))+

lemma recall_only_known: "recall_identity E now h t = Inr (i, t') \<Longrightarrow> only_known t t'"
  by (auto simp: recall_identity_def res_bind_eq_Inr only_known_def)

lemma blackhole_filter_only_known: "blackhole_filter E now h t = Inr (b, t') \<Longrightarrow> only_known t t'"
  by (auto simp: blackhole_filter_def res_bind_eq_Inr dest: recall_only_known split: if_splits)

lemma answer_discovery_only_known: "answer_discovery E now p t = Inr (t', evs) \<Longrightarrow> only_known t t'"
  by (auto simp: answer_discovery_def res_bind_eq_Inr dest: recall_only_known split: option.splits)

lemma handlers_only_known: "run_announce_handlers E now dh hs t = Inr (t', evs) \<Longrightarrow> only_known t t'"
proof (induction hs arbitrary: t evs)
  case (Cons a hs)
  then obtain t2 e1 e2 where
    s: "try_catch (res_bind (recall_identity E now dh t) (\<lambda>(i, t1).
            if a = [] then Inr (t1, [Announce_callback dh a])
            else res_bind (hash_from_name_and_identity (te_lib E) a i) (\<lambda>expected.
                Inr (t1, if dh = expected then [Announce_callback dh a] else [])))) (\<lambda>_. Inr (t, [])) = Inr (t2, e1)"
    and r: "run_announce_handlers E now dh hs t2 = Inr (t', e2)"
    by (auto simp: res_bind_eq_Inr)
  from s have "only_known t t2"
    by (auto simp: try_catch_def res_bind_def dest: recall_only_known split: sum.splits if_splits)
  then show ?case using Cons.IH [OF r] only_known_trans by blast
qed simp

lemma mark_unknown_fields [frame_simps]:
  "t_ifs (mark_unknown E h t) = t_ifs t" "t_paths (mark_unknown E h t) = t_paths t"
  "t_known (mark_unknown E h t) = t_known t" "t_announce_table (mark_unknown E h t) = t_announce_table t"
  "t_destinations (mark_unknown E h t) = t_destinations t" "t_blackholed (mark_unknown E h t) = t_blackholed t"
  "t_held_announces (mark_unknown E h t) = t_held_announces t" "t_link_table (mark_unknown E h t) = t_link_table t"
  "t_reverse_table (mark_unknown E h t) = t_reverse_table t" "t_hashlist (mark_unknown E h t) = t_hashlist t"
  "t_announce_handlers (mark_unknown E h t) = t_announce_handlers t"
  "t_discovery_path_requests (mark_unknown E h t) = t_discovery_path_requests t"
  "t_path_requests (mark_unknown E h t) = t_path_requests t" "t_discovery_pr_tags (mark_unknown E h t) = t_discovery_pr_tags t"
  "t_receipts (mark_unknown E h t) = t_receipts t" "t_pending_discovery_prs (mark_unknown E h t) = t_pending_discovery_prs t"
  "t_active_links (mark_unknown E h t) = t_active_links t" "t_pending_links (mark_unknown E h t) = t_pending_links t"
  "t_neighbor_stats (mark_unknown E h t) = t_neighbor_stats t"
  by (simp_all add: mark_unknown_def)

lemma queue_announce_fields [frame_simps]:
  "t_ifs (queue_announce E now rnd f l b p t) = t_ifs t" "t_paths (queue_announce E now rnd f l b p t) = t_paths t"
  "t_known (queue_announce E now rnd f l b p t) = t_known t" "t_destinations (queue_announce E now rnd f l b p t) = t_destinations t"
  "t_blackholed (queue_announce E now rnd f l b p t) = t_blackholed t"
  "t_link_table (queue_announce E now rnd f l b p t) = t_link_table t"
  "t_reverse_table (queue_announce E now rnd f l b p t) = t_reverse_table t"
  "t_hashlist (queue_announce E now rnd f l b p t) = t_hashlist t"
  "t_held_announces (queue_announce E now rnd f l b p t) = t_held_announces t"
  "t_announce_handlers (queue_announce E now rnd f l b p t) = t_announce_handlers t"
  "t_discovery_path_requests (queue_announce E now rnd f l b p t) = t_discovery_path_requests t"
  "t_path_requests (queue_announce E now rnd f l b p t) = t_path_requests t" "t_discovery_pr_tags (queue_announce E now rnd f l b p t) = t_discovery_pr_tags t"
  "t_receipts (queue_announce E now rnd f l b p t) = t_receipts t" "t_pending_discovery_prs (queue_announce E now rnd f l b p t) = t_pending_discovery_prs t"
  "t_active_links (queue_announce E now rnd f l b p t) = t_active_links t" "t_pending_links (queue_announce E now rnd f l b p t) = t_pending_links t"
  "t_neighbor_stats (queue_announce E now rnd f l b p t) = t_neighbor_stats t"
  by (simp_all add: queue_announce_def Let_def split: option.split)

subsection \<open>The size of the announce table\<close>

lemma set_cull_order: "set (cull_order tbl) = fst ` set tbl"
  by (force simp: cull_order_def image_iff)

lemma cull_loop_ok: "tab_ok tbl \<Longrightarrow> tab_ok (cull_loop n ks tbl)"
  by (induction n ks tbl rule: cull_loop.induct) (simp_all add: Let_def tab_inv)

lemma cull_loop_shrinks: "length (cull_loop n ks tbl) \<le> length tbl"
proof (induction n ks tbl rule: cull_loop.induct)
  case (2 n k ks tbl)
  have "length (tab_erase k tbl) \<le> length tbl" by (simp add: tab_erase_def)
  then show ?case using 2 by (auto simp: Let_def intro: order_trans)
qed simp

lemma cull_loop_limit: "fst ` set tbl \<subseteq> set ks \<Longrightarrow> length (cull_loop n ks tbl) \<le> n"
proof (induction n ks tbl rule: cull_loop.induct)
  case (2 n k ks tbl)
  have "fst ` set (tab_erase k tbl) \<subseteq> set ks" using 2(2) by (auto simp: set_tab_erase)
  then show ?case using 2(1) by (auto simp: Let_def)
qed simp

lemma cull_announce_table_ok: "tab_ok tbl \<Longrightarrow> tab_ok (cull_announce_table E tbl)"
  by (simp add: cull_announce_table_def cull_loop_ok)

text \<open>Beyond its own limit the announce table is culled to the limit of the path table.\<close>

lemma cull_announce_table_limit:
  "te_announce_table_maxsize E < length tbl \<Longrightarrow> length (cull_announce_table E tbl) \<le> te_path_table_maxsize E"
  by (simp add: cull_announce_table_def cull_loop_limit set_cull_order)

lemma cull_announce_table_length:
  assumes "tab_ok tbl" and "length tbl \<le> te_announce_table_maxsize E + 1"
  shows "length (cull_announce_table E tbl) \<le> te_announce_table_maxsize E"
proof (cases "length tbl > te_announce_table_maxsize E")
  case True
  then obtain k ks where ks: "cull_order tbl = k # ks"
    using set_cull_order [of tbl] by (cases "cull_order tbl") auto
  then have "k \<in> fst ` set tbl" using set_cull_order [of tbl] by auto
  then have "length (tab_erase k tbl) + 1 = length tbl" by (rule length_tab_erase [OF assms(1)])
  then have "length (cull_loop n (k # ks) tbl) + 1 \<le> length tbl" for n
    using cull_loop_shrinks [of n ks "tab_erase k tbl"] by (simp add: Let_def)
  from this [of "te_path_table_maxsize E"] show ?thesis using True assms(2) ks
    by (simp add: cull_announce_table_def del: cull_loop.simps)
next
  case False
  then show ?thesis by (simp add: cull_announce_table_def)
qed

definition announces_ok :: "('s, 'k, 'h) tenv \<Rightarrow> (bytes, announce_entry) table \<Rightarrow> bool" where
  "announces_ok E tbl \<longleftrightarrow> tab_ok tbl \<and> length tbl \<le> te_announce_table_maxsize E"

lemma announces_ok_insert [inv_intros]:
  "announces_ok E tbl \<Longrightarrow> announces_ok E (cull_announce_table E (tab_insert k a tbl))"
  by (auto simp: announces_ok_def tab_inv length_tab_insert
      intro!: cull_announce_table_ok cull_announce_table_length)

lemma announces_ok_erase [inv_intros]: "announces_ok E tbl \<Longrightarrow> announces_ok E (tab_erase k tbl)"
  by (auto simp: announces_ok_def tab_inv intro: order_trans [OF length_tab_erase_le])

lemma announces_ok_erase_all [inv_intros]: "announces_ok E tbl \<Longrightarrow> announces_ok E (fold tab_erase ks tbl)"
  by (induction ks arbitrary: tbl) (simp_all add: announces_ok_erase)

lemma announces_ok_update [inv_intros]:
  "announces_ok E tbl \<Longrightarrow> tab_find k tbl \<noteq> None \<Longrightarrow> announces_ok E (tab_assign k a tbl)"
  by (auto simp: announces_ok_def tab_inv length_tab_assign)

lemma announces_ok_hear [inv_intros]: "announces_ok E tbl \<Longrightarrow> announces_ok E (hear_rebroadcast E now p tbl)"
  by (simp add: hear_rebroadcast_def Let_def announces_ok_erase announces_ok_update split: option.split)

lemma announces_ok_queue [inv_intros]:
  "announces_ok E (t_announce_table t) \<Longrightarrow> announces_ok E (t_announce_table (queue_announce E now rnd f l b p t))"
  by (simp add: queue_announce_def Let_def announces_ok_insert split: option.split)

subsection \<open>The decision\<close>

lemma newest_emission_upper:
  "newest_emission acc emitted bs = Inr m \<Longrightarrow> m < emitted \<Longrightarrow> \<forall>b \<in> set bs. timebase_from_random_blob b < emitted"
proof (induction acc emitted bs arbitrary: m rule: newest_emission.induct)
  case (2 acc emitted b bs)
  from 2(2) obtain e where e: "emitted_at b = Inr e" by (auto simp: res_bind_eq_Inr)
  then have tb: "timebase_from_random_blob b = e" by (auto simp: emitted_at_def timebase_from_random_blob_def split: if_splits)
  from 2(2,3) e have lt: "\<not> emitted \<le> max acc e" and rest: "newest_emission (max acc e) emitted bs = Inr m"
    by (auto split: if_splits)
  from 2(1) [OF lt rest 2(3)] lt tb show ?case by auto
qed simp

lemma timebase_lt: "timebase_from_random_blobs bs < n \<Longrightarrow> b \<in> set bs \<Longrightarrow> timebase_from_random_blob b < n"
  using timebase_upper le_less_trans by blast

lemma replaces_responsive:
  assumes "replaces now hops emitted blob False e = Inr (True, m)"
  shows "blob \<notin> set (pe_random_blobs e)"
    and "(\<forall>b \<in> set (pe_random_blobs e). timebase_from_random_blob b < emitted) \<or> pe_hops e < hops \<and> pe_expires e \<le> now"
proof -
  show "blob \<notin> set (pe_random_blobs e)"
    using assms by (auto simp: replaces_def Let_def res_bind_eq_Inr split: if_splits)
  show "(\<forall>b \<in> set (pe_random_blobs e). timebase_from_random_blob b < emitted) \<or> pe_hops e < hops \<and> pe_expires e \<le> now"
  proof (cases "hops \<le> pe_hops e")
    case True
    then show ?thesis using assms timebase_lt by (auto simp: replaces_def Let_def)
  next
    case False
    then obtain pm where pm: "newest_emission 0 emitted (pe_random_blobs e) = Inr pm"
      and "pe_expires e \<le> now \<or> pm < emitted"
      using assms by (auto simp: replaces_def Let_def res_bind_eq_Inr split: if_splits)
    then show ?thesis using False newest_emission_upper [OF pm] by auto
  qed
qed

lemma newest_emission_defined:
  "\<forall>b \<in> set bs. 10 \<le> length b \<Longrightarrow> \<exists>m. newest_emission acc emitted bs = Inr m"
  by (induction acc emitted bs rule: newest_emission.induct) (auto simp: emitted_at_def)

lemma replaces_defined:
  "\<forall>b \<in> set (pe_random_blobs e). 10 \<le> length b \<Longrightarrow> \<exists>r. replaces now hops emitted blob u e = Inr r"
  using newest_emission_defined [of "pe_random_blobs e" 0 emitted]
  by (auto simp: replaces_def Let_def split: prod.split)

subsection \<open>Validated announces\<close>

lemma validated_length:
  assumes "validate_announce lib ops now p only s = Inr (True, s')"
  shows "148 \<le> length (p_data p)" and "p_packet_type p = ANNOUNCE"
proof -
  let ?a = "announce_parts p"
  have "ed_verify lib (drop 32 (an_public_key ?a)) (an_signature ?a) (announce_signed_data p) \<noteq> Inl Undefined_behaviour"
    using assms
    by (auto simp: validate_announce_def Let_def try_catch_def res_bind_def identity_validate_def
        split: if_splits sum.splits option.splits)
  then have "length (an_signature ?a) \<ge> 64" by (auto simp: ed_verify_def split: if_splits)
  then show "148 \<le> length (p_data p)" by (auto simp: announce_parts_def Let_def bytes_simps split: if_splits)
  show "p_packet_type p = ANNOUNCE" using assms by (auto simp: validate_announce_def split: if_splits)
qed

lemma announce_blob:
  assumes "148 \<le> length (p_data p)"
  shows "length (mid (p_data p) (KEYSIZE div 8 + NAME_HASH_LENGTH div 8) (RANDOM_HASH_LENGTH div 8)) = 10"
    and "announce_emitted p
      = Inr (timebase_from_random_blob (mid (p_data p) (KEYSIZE div 8 + NAME_HASH_LENGTH div 8) (RANDOM_HASH_LENGTH div 8)))"
proof -
  show l: "length (mid (p_data p) (KEYSIZE div 8 + NAME_HASH_LENGTH div 8) (RANDOM_HASH_LENGTH div 8)) = 10"
    using assms by (simp add: bytes_simps)
  then show "announce_emitted p
      = Inr (timebase_from_random_blob (mid (p_data p) (KEYSIZE div 8 + NAME_HASH_LENGTH div 8) (RANDOM_HASH_LENGTH div 8)))"
    by (auto simp: announce_emitted_def Let_def emitted_at_timebase)
qed

subsection \<open>The announce branch\<close>

definition announced_path :: "real \<Rightarrow> interfaces \<Rightarrow> nat \<Rightarrow> bytes \<Rightarrow> bytes \<Rightarrow> bytes list \<Rightarrow> packet \<Rightarrow> path_entry" where
  "announced_path now ifs n received_from random_blob blobs p =
     \<lparr>pe_timestamp = now, pe_received_from = received_from, pe_hops = p_hops p,
      pe_expires = now + real (path_time (if_mode (if_of ifs n)) PATHFINDER_E),
      pe_random_blobs = add_blob random_blob blobs, pe_receiving_interface = Some n, pe_announce_packet = Some p\<rparr>"

lemma add_announceE:
  assumes "add_announce E now rnd iface rf blob blobs p t = Inr (t', evs)"
  obtains n stored rates rb where "iface = Some n"
    "path_put (te_paths E) (t_ifs t) (p_destination_hash p) (announced_path now (t_ifs t) n rf blob blobs p)
        (path_time (if_mode (if_of (t_ifs t) n)) DESTINATION_TIMEOUT) (t_paths t) = (stored, t_paths t')"
    "t_ifs t' = t_ifs t"
    "rate_check now p (if_of (t_ifs t) n) (t_announce_rate_table t) = (rates, rb)"
    "t_announce_table t' = t_announce_table (queue_announce E now rnd rf (if_local_client (if_of (t_ifs t) n)) rb p
       (t\<lparr>t_announce_rate_table := rates\<rparr>))"
    "t_held_announces t' = t_held_announces t" "t_link_table t' = t_link_table t" "t_reverse_table t' = t_reverse_table t"
    "t_hashlist t' = t_hashlist t" "t_blackholed t' = t_blackholed t" "t_destinations t' = t_destinations t"
    "t_path_requests t' = t_path_requests t" "t_discovery_pr_tags t' = t_discovery_pr_tags t" "t_receipts t' = t_receipts t" "t_pending_discovery_prs t' = t_pending_discovery_prs t" "t_active_links t' = t_active_links t" "t_pending_links t' = t_pending_links t" "t_neighbor_stats t' = t_neighbor_stats t" "t_discovery_path_requests t' = t_discovery_path_requests t"
proof -
  from assms obtain n where n: "iface = Some n" by (cases iface) (simp_all add: add_announce_def)
  obtain rates rb where rc: "rate_check now p (if_of (t_ifs t) n) (t_announce_rate_table t) = (rates, rb)" by fastforce
  let ?t1 = "queue_announce E now rnd rf (if_local_client (if_of (t_ifs t) n)) rb p (t\<lparr>t_announce_rate_table := rates\<rparr>)"
  from assms n rc obtain t2 evs2 where t2: "answer_discovery E now p ?t1 = Inr (t2, evs2)"
    by (auto simp: add_announce_def Let_def res_bind_eq_Inr)
  note k2 = only_known_fields [OF answer_discovery_only_known [OF t2]]
  let ?e = "announced_path now (t_ifs t) n rf blob blobs p"
  obtain stored paths where put: "path_put (te_paths E) (t_ifs t) (p_destination_hash p) ?e
        (path_time (if_mode (if_of (t_ifs t) n)) DESTINATION_TIMEOUT) (t_paths t) = (stored, paths)" by fastforce
  define t3 where "t3 = (if stored then mark_unknown E (p_destination_hash p) (t2\<lparr>t_paths := paths\<rparr>) else t2\<lparr>t_paths := paths\<rparr>)"
  have "only_known t3 t'"
    using assms n rc t2 put k2 handlers_only_known
    by (fastforce simp: add_announce_def Let_def announced_path_def t3_def [symmetric] frame_simps res_bind_eq_Inr split: if_splits)
  note k3 = only_known_fields [OF this]
  show thesis
  proof (rule that [OF n _ _ rc])
    show "path_put (te_paths E) (t_ifs t) (p_destination_hash p) ?e
        (path_time (if_mode (if_of (t_ifs t) n)) DESTINATION_TIMEOUT) (t_paths t) = (stored, t_paths t')"
      using put k3(3) by (simp add: t3_def frame_simps)
  qed (use k2 k3 in \<open>simp_all add: t3_def frame_simps\<close>)
qed

lemma inbound_announceE:
  assumes "inbound_announce E now rnd iface p t = Inr (t', evs)"
  defines "blob \<equiv> mid (p_data p) (KEYSIZE div 8 + NAME_HASH_LENGTH div 8) (RANDOM_HASH_LENGTH div 8)"
    and "path \<equiv> path_of E t (p_destination_hash p)"
  obtains (ignored) "t_paths t' = t_paths t" "t_ifs t' = t_ifs t"
      "t_announce_table t' = t_announce_table t \<or> t_announce_table t' = hear_rebroadcast E now p (t_announce_table t)"
      "t_held_announces t' = t_held_announces t" "t_link_table t' = t_link_table t" "t_reverse_table t' = t_reverse_table t"
      "t_hashlist t' = t_hashlist t" "t_blackholed t' = t_blackholed t" "t_destinations t' = t_destinations t"
      "t_path_requests t' = t_path_requests t" "t_discovery_pr_tags t' = t_discovery_pr_tags t" "t_receipts t' = t_receipts t" "t_pending_discovery_prs t' = t_pending_discovery_prs t" "t_active_links t' = t_active_links t" "t_pending_links t' = t_pending_links t" "t_neighbor_stats t' = t_neighbor_stats t" "t_discovery_path_requests t' = t_discovery_path_requests t"
  | (added) t4 m ks where
      "validate_announce (te_lib E) (te_known E) now p False (t_known t) = Inr (True, ks)"
      "tab_find (p_destination_hash p) (t_destinations t) = None"
      "unat (p_hops p) \<le> PATHFINDER_M"
      "should_add now (p_hops p) (timebase_from_random_blob blob) blob
         (path_is_unresponsive (t_path_states t) (p_destination_hash p)) path = Inr (True, m)"
      "add_announce E now rnd iface (if p_transport_id p \<noteq> [] then p_transport_id p else p_destination_hash p)
         blob (case path of Some e \<Rightarrow> pe_random_blobs e | None \<Rightarrow> []) p t4 = Inr (t', evs)"
      "t_paths t4 = t_paths t" "t_ifs t4 = t_ifs t"
      "t_announce_table t4 = hear_rebroadcast E now p (t_announce_table t)"
      "t_held_announces t4 = t_held_announces t" "t_link_table t4 = t_link_table t" "t_reverse_table t4 = t_reverse_table t"
      "t_hashlist t4 = t_hashlist t" "t_blackholed t4 = t_blackholed t" "t_destinations t4 = t_destinations t"
      "t_path_requests t4 = t_path_requests t" "t_discovery_pr_tags t4 = t_discovery_pr_tags t" "t_receipts t4 = t_receipts t" "t_pending_discovery_prs t4 = t_pending_discovery_prs t" "t_active_links t4 = t_active_links t" "t_pending_links t4 = t_pending_links t" "t_neighbor_stats t4 = t_neighbor_stats t" "t_discovery_path_requests t4 = t_discovery_path_requests t"
proof (cases "tab_find (p_destination_hash p) (t_destinations t) = None")
  case False
  then have "t' = t" using assms(1) by (simp add: inbound_announce_def Let_def)
  then show thesis using ignored by simp
next
  case local: True
  then obtain valid ks where v: "validate_announce (te_lib E) (te_known E) now p False (t_known t) = Inr (valid, ks)"
    using assms(1) by (auto simp: inbound_announce_def Let_def res_bind_eq_Inr)
  show thesis
  proof (cases "valid \<and> unat (p_hops p) < PATHFINDER_M + 1")
    case False
    then show thesis using ignored assms(1) local v by (auto simp: inbound_announce_def Let_def split: if_splits)
  next
    case True
    then have "148 \<le> length (p_data p)" using validated_length(1) [of "te_lib E" "te_known E" now p False "t_known t" ks] v by simp
    then have em: "announce_emitted p = Inr (timebase_from_random_blob blob)"
      unfolding blob_def by (rule announce_blob(2))
    let ?t2 = "t\<lparr>t_known := ks, t_announce_table := hear_rebroadcast E now p (t_announce_table t)\<rparr>"
    have path: "path_of E ?t2 (p_destination_hash p) = path" by (simp add: path_def path_of_def)
    obtain add m where sa: "should_add now (p_hops p) (timebase_from_random_blob blob) blob
         (path_is_unresponsive (t_path_states t) (p_destination_hash p)) path = Inr (add, m)"
      using assms(1) local v True em path unfolding blob_def [symmetric]
      by (auto simp: inbound_announce_def Let_def res_bind_eq_Inr blob_def)
    let ?t3 = "if m then mark_unknown E (p_destination_hash p) ?t2 else ?t2"
    have eq: "inbound_announce E now rnd iface p t = (if \<not> add then Inr (?t3, [])
        else res_bind (blackhole_filter E now (p_destination_hash p) ?t3) (\<lambda>(allowed, t4).
          if allowed then add_announce E now rnd iface (if p_transport_id p \<noteq> [] then p_transport_id p else p_destination_hash p)
            blob (case path of Some e \<Rightarrow> pe_random_blobs e | None \<Rightarrow> []) p t4 else Inr (t4, [])))"
      using local v True em path sa unfolding inbound_announce_def Let_def blob_def [symmetric]
      by (simp cong: if_cong option.case_cong)
    show thesis
    proof (cases add)
      case False
      then show thesis using ignored assms(1) unfolding eq by (auto simp: frame_simps split: if_splits)
    next
      case add: True
      then obtain allowed t4 where bf: "blackhole_filter E now (p_destination_hash p) ?t3 = Inr (allowed, t4)"
        using assms(1) unfolding eq by (auto simp: res_bind_eq_Inr)
      note k = only_known_fields [OF blackhole_filter_only_known [OF bf]]
      show thesis
      proof (cases allowed)
        case False
        then have "t' = t4" using assms(1) add bf unfolding eq by simp
        then show thesis using ignored k by (simp add: frame_simps)
      next
        case al: True
        then have "add_announce E now rnd iface (if p_transport_id p \<noteq> [] then p_transport_id p else p_destination_hash p)
            blob (case path of Some e \<Rightarrow> pe_random_blobs e | None \<Rightarrow> []) p t4 = Inr (t', evs)"
          using assms(1) add bf unfolding eq by simp
        then show thesis
          using added [of ks m t4] v local True sa add k by (simp add: frame_simps)
      qed
    qed
  qed
qed

subsection \<open>The path table\<close>

definition paths_ok :: "('s, 'k, 'h) tenv \<Rightarrow> interfaces \<Rightarrow> 's \<Rightarrow> bool" where
  "paths_ok E ifs s \<longleftrightarrow>
     (\<forall>h e. get_entry (te_lib E) (te_paths E) ifs s h = Some e \<longrightarrow>
        unat (pe_hops e) \<le> PATHFINDER_M \<and> length (pe_random_blobs e) \<le> PERSIST_RANDOM_BLOBS \<and>
        (\<forall>b \<in> set (pe_random_blobs e). length b = 10))"

lemma paths_okD:
  "paths_ok E (t_ifs t) (t_paths t) \<Longrightarrow> path_of E t h = Some e \<Longrightarrow>
     unat (pe_hops e) \<le> PATHFINDER_M \<and> length (pe_random_blobs e) \<le> PERSIST_RANDOM_BLOBS \<and>
     (\<forall>b \<in> set (pe_random_blobs e). length b = 10)"
  by (auto simp: paths_ok_def path_of_def find_path_def split: option.splits if_splits)

lemma set_add_blob: "set (add_blob b bs) \<subseteq> insert b (set bs)"
  using set_newest [of MAX_RANDOM_BLOBS "bs @ [b]"] by (auto simp: add_blob_def)

lemma add_blob_in: "b \<in> set (add_blob b bs)"
  using newest_snoc_in [of MAX_RANDOM_BLOBS b bs] by (simp add: add_blob_def)

lemma announced_stored:
  "path_decode lib ifs (path_encode ifs (announced_path now ifs n rf blob blobs p)) = Some e \<Longrightarrow>
     pe_hops e = p_hops p \<and> pe_random_blobs e = newest PERSIST_RANDOM_BLOBS (add_blob blob blobs)
     \<and> pe_received_from e = rf"
  by (auto simp: path_encode_def path_decode_def announced_path_def)

lemma paths_ok_put [inv_intros]:
  assumes "store_ok (te_paths E)" and "paths_ok E ifs s"
    and "path_put (te_paths E) ifs h (announced_path now ifs n rf blob blobs p) ttl s = (stored, s')"
    and "unat (p_hops p) \<le> PATHFINDER_M" and "length blob = 10" and "\<forall>b \<in> set blobs. length b = 10"
  shows "paths_ok E ifs s'"
  unfolding paths_ok_def
proof (intro allI impI)
  fix k e
  assume e: "get_entry (te_lib E) (te_paths E) ifs s' k = Some e"
  have "get_entry (te_lib E) (te_paths E) ifs s k = Some e
      \<or> path_decode (te_lib E) ifs (path_encode ifs (announced_path now ifs n rf blob blobs p)) = Some e"
    using path_get_put_other [OF assms(1,3), of "te_lib E" k] e by auto
  then show "unat (pe_hops e) \<le> PATHFINDER_M \<and> length (pe_random_blobs e) \<le> PERSIST_RANDOM_BLOBS \<and>
        (\<forall>b \<in> set (pe_random_blobs e). length b = 10)"
  proof
    assume "get_entry (te_lib E) (te_paths E) ifs s k = Some e"
    then show ?thesis using assms(2) by (auto simp: paths_ok_def)
  next
    assume "path_decode (te_lib E) ifs (path_encode ifs (announced_path now ifs n rf blob blobs p)) = Some e"
    from announced_stored [OF this] show ?thesis
      using assms(4-6) set_newest [of PERSIST_RANDOM_BLOBS "add_blob blob blobs"] set_add_blob [of blob blobs] by auto
  qed
qed

lemma inbound_announce_paths_ok [inv_intros]:
  assumes "inbound_announce E now rnd iface p t = Inr (t', evs)" and "store_ok (te_paths E)"
    and "paths_ok E (t_ifs t) (t_paths t)"
  shows "paths_ok E (t_ifs t') (t_paths t')"
  using assms(1)
proof (cases rule: inbound_announceE)
  case (added t4 m ks)
  have "148 \<le> length (p_data p)" by (rule validated_length(1) [OF added(1)])
  note blob = announce_blob(1) [OF this]
  have blobs: "\<forall>b \<in> set (case path_of E t (p_destination_hash p) of Some e \<Rightarrow> pe_random_blobs e | None \<Rightarrow> []). length b = 10"
    using paths_okD [OF assms(3), of "p_destination_hash p"] by (cases "path_of E t (p_destination_hash p)") simp_all
  from added(5) obtain n stored where
    put: "path_put (te_paths E) (t_ifs t) (p_destination_hash p)
      (announced_path now (t_ifs t) n (if p_transport_id p \<noteq> [] then p_transport_id p else p_destination_hash p)
        (mid (p_data p) (KEYSIZE div 8 + NAME_HASH_LENGTH div 8) (RANDOM_HASH_LENGTH div 8))
        (case path_of E t (p_destination_hash p) of Some e \<Rightarrow> pe_random_blobs e | None \<Rightarrow> []) p)
      (path_time (if_mode (if_of (t_ifs t) n)) DESTINATION_TIMEOUT) (t_paths t) = (stored, t_paths t')"
    and ifs: "t_ifs t' = t_ifs t"
    using added(6,7) by (auto elim!: add_announceE)
  show ?thesis unfolding ifs by (rule paths_ok_put [OF assms(2,3) put added(3) blob blobs])
qed (use assms(3) in simp)

lemma inbound_announce_table_ok [inv_intros]:
  assumes "inbound_announce E now rnd iface p t = Inr (t', evs)" and "announces_ok E (t_announce_table t)"
  shows "announces_ok E (t_announce_table t')"
  using assms(1)
proof (cases rule: inbound_announceE)
  case ignored
  then show ?thesis using assms(2) announces_ok_hear by auto
next
  case (added t4 m ks)
  have "announces_ok E (t_announce_table (t4\<lparr>t_announce_rate_table := r\<rparr>))" for r
    using assms(2) added(8) announces_ok_hear by simp
  note q = announces_ok_queue [OF this]
  from added(5) show ?thesis by (rule add_announceE) (simp add: q)
qed

text \<open>
  C10. A known path that is not marked unresponsive is replaced only by an announce that was not heard
  before: its random blob is none of the stored ones, and it was emitted after all of them, or the
  path has expired and the announce comes over more hops.
\<close>

theorem path_replaced_only_by_fresh:
  assumes "inbound_announce E now rnd iface p t = Inr (t', evs)" and "t_paths t' \<noteq> t_paths t"
    and "path_of E t (p_destination_hash p) = Some e"
    and "\<not> path_is_unresponsive (t_path_states t) (p_destination_hash p)"
  shows "an_random_hash (announce_parts p) \<notin> set (pe_random_blobs e)
    \<and> ((\<forall>b \<in> set (pe_random_blobs e). timebase_from_random_blob b < timebase_from_random_blob (an_random_hash (announce_parts p)))
       \<or> (pe_hops e < p_hops p \<and> pe_expires e \<le> now))"
proof -
  let ?blob = "mid (p_data p) (KEYSIZE div 8 + NAME_HASH_LENGTH div 8) (RANDOM_HASH_LENGTH div 8)"
  have an: "an_random_hash (announce_parts p) = ?blob" by (simp add: announce_parts_def Let_def)
  from assms(1) obtain m where "should_add now (p_hops p) (timebase_from_random_blob ?blob) ?blob False (Some e) = Inr (True, m)"
    using assms(2-4) by (cases rule: inbound_announceE) auto
  then have "replaces now (p_hops p) (timebase_from_random_blob ?blob) ?blob False e = Inr (True, m)"
    by (simp add: should_add_def)
  from replaces_responsive [OF this] show ?thesis unfolding an by blast
qed

subsection \<open>Learning and passing on\<close>

lemma add_announce_quiet:
  assumes "tab_find (p_destination_hash p) (t_discovery_path_requests t) = None" and "t_announce_handlers t = []"
  shows "\<exists>t'. add_announce E now rnd (Some n) rf blob blobs p t = Inr (t', [])"
  using assms
  by (simp add: add_announce_def Let_def answer_discovery_def frame_simps split: prod.split)

lemma inbound_announce_learns:
  assumes local: "tab_find (p_destination_hash p) (t_destinations t) = None"
    and valid: "validate_announce (te_lib E) (te_known E) now p False (t_known t) = Inr (True, ks)"
    and hops: "unat (p_hops p) \<le> PATHFINDER_M"
    and quiet: "t_blackholed t = Map.empty" "tab_find (p_destination_hash p) (t_discovery_path_requests t) = None"
      "t_announce_handlers t = []"
  defines "rf \<equiv> if p_transport_id p \<noteq> [] then p_transport_id p else p_destination_hash p"
    and "blob \<equiv> mid (p_data p) (KEYSIZE div 8 + NAME_HASH_LENGTH div 8) (RANDOM_HASH_LENGTH div 8)"
    and "blobs \<equiv> case path_of E t (p_destination_hash p) of Some e \<Rightarrow> pe_random_blobs e | None \<Rightarrow> []"
  assumes add: "should_add now (p_hops p) (timebase_from_random_blob blob) blob
      (path_is_unresponsive (t_path_states t) (p_destination_hash p)) (path_of E t (p_destination_hash p)) = Inr (True, m)"
  shows "\<exists>t' stored. inbound_announce E now rnd (Some n) p t = Inr (t', []) \<and> t_ifs t' = t_ifs t \<and>
    path_put (te_paths E) (t_ifs t) (p_destination_hash p) (announced_path now (t_ifs t) n rf blob blobs p)
      (path_time (if_mode (if_of (t_ifs t) n)) DESTINATION_TIMEOUT) (t_paths t) = (stored, t_paths t')"
proof -
  let ?t2 = "t\<lparr>t_known := ks, t_announce_table := hear_rebroadcast E now p (t_announce_table t)\<rparr>"
  let ?t3 = "if m then mark_unknown E (p_destination_hash p) ?t2 else ?t2"
  have em: "announce_emitted p = Inr (timebase_from_random_blob blob)"
    unfolding blob_def by (rule announce_blob(2) [OF validated_length(1) [OF valid]])
  have path: "path_of E ?t2 (p_destination_hash p) = path_of E t (p_destination_hash p)" by (simp add: path_of_def)
  have f3: "t_blackholed ?t3 = Map.empty" "t_discovery_path_requests ?t3 = t_discovery_path_requests t" "t_announce_handlers ?t3 = []"
    "t_ifs ?t3 = t_ifs t" "t_paths ?t3 = t_paths t"
    using quiet by (simp_all add: mark_unknown_def)
  obtain t' where t': "add_announce E now rnd (Some n) rf blob blobs p ?t3 = Inr (t', [])"
    using add_announce_quiet [of p ?t3 E now rnd n rf blob blobs] quiet f3 by auto
  have bf: "blackhole_filter E now (p_destination_hash p) ?t3 = Inr (True, ?t3)"
    using f3(1) by (simp add: blackhole_filter_def)
  have "inbound_announce E now rnd (Some n) p t = Inr (t', [])"
    using local valid hops em path t' bf add
    unfolding inbound_announce_def Let_def blob_def [symmetric] rf_def [symmetric]
    by (simp add: blobs_def cong: if_cong option.case_cong)
  moreover from t' have "t_ifs t' = t_ifs t \<and> (\<exists>stored.
      path_put (te_paths E) (t_ifs t) (p_destination_hash p) (announced_path now (t_ifs t) n rf blob blobs p)
      (path_time (if_mode (if_of (t_ifs t) n)) DESTINATION_TIMEOUT) (t_paths t) = (stored, t_paths t'))"
    by (rule add_announceE) (use f3 in auto)
  ultimately show ?thesis by blast
qed

text \<open>A relayed announce is packed and unpacked with its data, address and context flag.\<close>

lemma relayed_announce_wire:
  assumes "length (p_destination_hash p) = 16" and "length (te_identity_hash E) = 16" and "length (p_data p) \<le> MDU"
    and "ctx \<noteq> LRPROOF"
  shows "\<exists>q w r. relayed_announce E ctx hops p = Inr q \<and> pack lib q = Inr w \<and> unpack lib (packet_from_raw (p_raw w)) = (True, r)
    \<and> p_packet_type r = ANNOUNCE \<and> p_hops r = hops \<and> p_transport_id r = te_identity_hash E \<and> p_context r = ctx
    \<and> p_context_flag r = p_context_flag p \<and> p_destination_hash r = p_destination_hash p \<and> p_data r = p_data p"
proof -
  let ?dv = "\<lparr>dv_hash = p_destination_hash p, dv_type = SINGLE, dv_encrypt = Inr\<rparr> :: dest_view"
  define q where "q = projr (relayed_announce E ctx hops p)"
  have q: "relayed_announce E ctx hops p = Inr q" and
    f: "p_destination q = Some ?dv" "p_data q = p_data p" "p_packet_type q = ANNOUNCE" "p_header_type q = HEADER_2"
      "p_MTU q = MTU" "p_context q = ctx" "p_transport_type q = TRANSPORT" "get_packed_flags q = Inr (p_flags q)"
      "p_transport_id q = te_identity_hash E" "p_hops q = hops" "p_context_flag q = p_context_flag p"
    using assms
    by (simp_all add: q_def relayed_announce_def packet_to_destination_def Let_def new_object_def with_flags_def get_packed_flags_def
        set_packet_type_def set_context_def set_transport_type_def set_header_type_def set_transport_id_def
        set_context_flag_def set_hops_def)
  have tid: "te_identity_hash E \<noteq> []" using assms(2) by auto
  obtain w where w: "pack lib q = Inr w" "p_ciphertext w = p_data p"
    using f assms tid
    by (auto simp: pack_def pack_body_def Let_def wire_sizes update_hash_def get_hash_def get_hashable_part_def)
  have "well_addressed q ?dv" using f assms by (simp add: well_addressed_def wire_destination_def wire_sizes)
  from pack_unpack [OF w(1) this] show ?thesis
    using q w f assms(4) by (auto simp: wire_destination_def)
qed

lemma announce_checks_cong:
  assumes "p_data r = p_data p" and "p_context_flag r = p_context_flag p" and "p_destination_hash r = p_destination_hash p"
  shows "announce_parts r = announce_parts p" and "announce_signature_valid lib r = announce_signature_valid lib p"
    and "announce_address lib r = announce_address lib p" and "announce_min r = announce_min p"
  using assms
  by (simp_all add: announce_parts_def announce_signature_valid_def announce_signed_data_def announce_address_def
      announce_min_def)

text \<open>
  C11. Announces spread paths: what a node sends on for an authentic announce below the hop limit is
  accepted by a neighbour that does not know the destination yet, blocks no identity and has no
  handlers of announces, and the path the neighbour stores leads through that node with one more hop.
\<close>

theorem announce_propagates:
  assumes wire: "length (p_destination_hash p) = 16" "length (te_identity_hash E) = 16"
      "announce_min p \<le> length (p_data p)" "length (p_data p) \<le> MDU" "ctx \<noteq> LRPROOF"
    and authentic: "announce_signature_valid lib p" "p_destination_hash p = announce_address lib p"
    and hops: "unat hops < PATHFINDER_M"
    and env: "te_lib N = lib" "store_ok (te_paths N)" "\<forall>s k e ttl. fst (ts_put (te_paths N) s k e ttl)"
    and node: "tab_find (p_destination_hash p) (t_destinations t) = None" "known (te_known N) (t_known t) (p_destination_hash p) = None"
      "path_of N t (p_destination_hash p) = None" "t_blackholed t = Map.empty" "t_announce_handlers t = []"
      "tab_find (p_destination_hash p) (t_discovery_path_requests t) = None"
      "hashes_distinct (t_ifs t)" "n \<in> set (if_ids (t_ifs t))"
  shows "\<exists>q w r t' e. relayed_announce E ctx hops p = Inr q \<and> pack lib q = Inr w
    \<and> unpack lib (packet_from_raw (p_raw w)) = (True, r)
    \<and> inbound_announce N now rnd (Some n) (r\<lparr>p_hops := p_hops r + 1, p_fromPacked := True\<rparr>) t = Inr (t', [])
    \<and> path_of N t' (p_destination_hash p) = Some e \<and> pe_received_from e = te_identity_hash E \<and> unat (pe_hops e) = unat hops + 1
    \<and> pe_receiving_interface e = Some n"
proof -
  obtain q w r where w: "relayed_announce E ctx hops p = Inr q" "pack lib q = Inr w"
      "unpack lib (packet_from_raw (p_raw w)) = (True, r)"
    and f: "p_packet_type r = ANNOUNCE" "p_hops r = hops" "p_transport_id r = te_identity_hash E"
      "p_context_flag r = p_context_flag p" "p_destination_hash r = p_destination_hash p" "p_data r = p_data p"
    using relayed_announce_wire [OF wire(1,2,4,5), of hops lib] by blast
  let ?r = "r\<lparr>p_hops := p_hops r + 1, p_fromPacked := True\<rparr>"
  have c: "announce_signature_valid lib ?r" "announce_address lib ?r = p_destination_hash p" "announce_min ?r \<le> length (p_data ?r)"
    using authentic wire(3) announce_checks_cong [of ?r p] f by simp_all
  have raw: "p_raw ?r \<noteq> []" using unpack_raw [OF w(3)] unpack_nonempty [OF w(3)] by simp
  obtain h where h: "get_hash lib ?r = Inr h" using raw by (auto simp: get_hash_def get_hashable_part_def Let_def)
  obtain ks where valid: "validate_announce (te_lib N) (te_known N) now ?r False (t_known t) = Inr (True, ks)"
    using validate_announce_eq [OF _ c(3) h, of "te_known N" now False "t_known t"] c f node(2) env(1) by (auto simp: Let_def)
  have hop1: "unat (p_hops r + 1) = unat hops + 1"
    using f(2) hops by (simp add: unat_word_ariths)
  have hop2: "unat (p_hops ?r) \<le> PATHFINDER_M" using hop1 hops by simp
  have tid: "te_identity_hash E \<noteq> []" using wire(2) by auto
  obtain t' stored where t': "inbound_announce N now rnd (Some n) ?r t = Inr (t', [])" "t_ifs t' = t_ifs t"
    and put: "path_put (te_paths N) (t_ifs t) (p_destination_hash p)
      (announced_path now (t_ifs t) n (te_identity_hash E) (mid (p_data p) (KEYSIZE div 8 + NAME_HASH_LENGTH div 8) (RANDOM_HASH_LENGTH div 8)) [] ?r)
      (path_time (if_mode (if_of (t_ifs t) n)) DESTINATION_TIMEOUT) (t_paths t) = (stored, t_paths t')"
    using inbound_announce_learns [where n = n and rnd = rnd and m = False, OF _ valid hop2] f node tid
    by (auto simp: should_add_def)
  have "stored" using env(3) put by (metis fst_conv path_put_def)
  then obtain e where e: "get_entry lib (te_paths N) (t_ifs t) (t_paths t') (p_destination_hash p) = Some e" "path_valid e"
      "pe_received_from e = te_identity_hash E" "pe_hops e = p_hops r + 1" "pe_receiving_interface e = Some n"
    using path_get_put [OF env(2), of "t_ifs t" _ _ _ "t_paths t" "t_paths t'" lib] put
      path_decode_encode [OF w(3) node(7,8), of "announced_path now (t_ifs t) n (te_identity_hash E)
        (mid (p_data p) (KEYSIZE div 8 + NAME_HASH_LENGTH div 8) (RANDOM_HASH_LENGTH div 8)) [] ?r" True]
    by (auto simp: announced_path_def path_valid_def)
  then have "path_of N t' (p_destination_hash p) = Some e"
    using t'(2) env(1) by (simp add: path_of_def find_path_def)
  then show ?thesis using w t'(1) e hop1 by auto
qed

section \<open>Witnesses\<close>

text \<open>An authentic announce for the demonstration library, and a node with two interfaces and empty tables.\<close>

definition demo_announce :: "bytes \<Rightarrow> packet" where
  "demo_announce rh =
     (let pub = replicate 64 1; nh = replicate 10 2; addr = truncated_hash demo_lib (nh @ truncated_hash demo_lib pub);
          sg = demo_tag 64 (drop 32 pub @ addr @ pub @ nh @ rh)
      in new_object\<lparr>p_packet_type := ANNOUNCE, p_destination_hash := addr, p_data := pub @ nh @ rh @ sg,
           p_raw := [0], p_hops := 1\<rparr>)"

definition demo_env :: "bytes \<Rightarrow> (bytes \<Rightarrow> stored_path option option, bytes \<Rightarrow> identity_entry option, bytes \<Rightarrow> unit option) tenv" where
  "demo_env own = \<lparr>te_lib = demo_lib, te_paths = map_store, te_known = map_store, te_hashes = map_store,
     te_identity_hash = own, te_transport_enabled = True, te_shared_instance = False, te_implicit_proof = True,
     te_proof_requested = (\<lambda>_ _. False), te_cached_packet = Map.empty, te_send_outgoing = (\<lambda>_ _. True),
     te_probe_neighbors = True, te_path_table_maxsize = 10, te_announce_table_maxsize = 10\<rparr>"

definition demo_node :: "(bytes \<Rightarrow> stored_path option option, bytes \<Rightarrow> identity_entry option, bytes \<Rightarrow> unit option) transport" where
  "demo_node = \<lparr>t_ifs = demo_ifs, t_destinations = [], t_paths = Map.empty, t_path_states = Map.empty, t_known = Map.empty,
     t_hashlist = Map.empty, t_announce_table = [], t_held_announces = [], t_link_table = [], t_reverse_table = [],
     t_announce_rate_table = [], t_blackholed = Map.empty, t_pending_local_path_requests = [],
     t_discovery_path_requests = [], t_announce_handlers = [], t_path_requests = [], t_discovery_pr_tags = gs_max_size 32 gs_empty_set,
     t_pending_discovery_prs = [], t_pending_discovery_prs_last_tx = 0, t_receipts = [], t_active_links = [],
     t_pending_links = [], t_neighbor_stats = [], t_jobs_running = False, t_jobs_locked = False\<rparr>"

lemma demo_announce_parts:
  assumes "length rh = 10"
  shows "announce_min (demo_announce rh) = 148" and "length (p_data (demo_announce rh)) = 148"
    and "announce_signature_valid demo_lib (demo_announce rh)"
    and "p_destination_hash (demo_announce rh) = announce_address demo_lib (demo_announce rh)"
    and "length (p_destination_hash (demo_announce rh)) = 16"
    and "an_random_hash (announce_parts (demo_announce rh)) = rh" and "mid (p_data (demo_announce rh)) 74 10 = rh"
proof -
  let ?pub = "replicate 64 1 :: bytes" and ?nh = "replicate 10 2 :: bytes"
  let ?addr = "truncated_hash demo_lib (?nh @ truncated_hash demo_lib ?pub)"
  let ?sg = "demo_tag 64 (drop 32 ?pub @ ?addr @ ?pub @ ?nh @ rh)"
  have sg: "length ?sg = 64" by (simp add: demo_tag_def)
  have d: "p_data (demo_announce rh) = ?pub @ ?nh @ rh @ ?sg" "p_context_flag (demo_announce rh) = FLAG_UNSET"
      "p_destination_hash (demo_announce rh) = ?addr"
    by (simp_all add: demo_announce_def Let_def new_object_def)
  have a: "announce_parts (demo_announce rh) = \<lparr>an_public_key = ?pub, an_name_hash = ?nh, an_random_hash = rh,
      an_ratchet = [], an_signature = ?sg, an_app_data = []\<rparr>"
    using assms sg by (simp add: announce_parts_def Let_def d bytes_simps)
  show "announce_min (demo_announce rh) = 148" by (simp add: announce_min_def d)
  show "length (p_data (demo_announce rh)) = 148" using assms sg by (simp add: d)
  show "announce_signature_valid demo_lib (demo_announce rh)"
    by (simp add: announce_signature_valid_def announce_signed_data_def a d demo_lib_def)
  show "p_destination_hash (demo_announce rh) = announce_address demo_lib (demo_announce rh)"
    by (simp add: announce_address_def a d)
  show "length (p_destination_hash (demo_announce rh)) = 16"
    unfolding d by (rule length_truncated_hash [OF demo_lib_ok])
  show "an_random_hash (announce_parts (demo_announce rh)) = rh" by (simp add: a)
  show "mid (p_data (demo_announce rh)) 74 10 = rh" using assms by (simp add: d bytes_simps)
qed

theorem announce_propagates_witness:
  "\<exists>q w r t' e. relayed_announce (demo_env (replicate 16 9)) CONTEXT_NONE 4 (demo_announce (replicate 10 3)) = Inr q
    \<and> pack demo_lib q = Inr w \<and> unpack demo_lib (packet_from_raw (p_raw w)) = (True, r)
    \<and> inbound_announce (demo_env (replicate 16 8)) 7 0 (Some 1) (r\<lparr>p_hops := p_hops r + 1, p_fromPacked := True\<rparr>) demo_node = Inr (t', [])
    \<and> path_of (demo_env (replicate 16 8)) t' (p_destination_hash (demo_announce (replicate 10 3))) = Some e
    \<and> pe_received_from e = te_identity_hash (demo_env (replicate 16 9)) \<and> unat (pe_hops e) = unat (4 :: byte) + 1
    \<and> pe_receiving_interface e = Some 1"
proof -
  let ?p = "demo_announce (replicate 10 3)"
  have pt: "announce_min ?p = 148" "length (p_data ?p) = 148" "announce_signature_valid demo_lib ?p"
    "p_destination_hash ?p = announce_address demo_lib ?p" "length (p_destination_hash ?p) = 16"
    by (rule demo_announce_parts; simp)+
  show ?thesis
    by (rule announce_propagates)
      (use pt in \<open>simp_all add: demo_env_def demo_node_def wire_sizes map_store_ok demo_ifs_distinct known_def path_of_def
        find_path_def get_entry_def\<close>, simp_all add: map_store_def demo_ifs_def)
qed

text \<open>The demonstration node with a path of two hops to the announced destination.\<close>

definition demo_known_path :: "(bytes \<Rightarrow> stored_path option option, bytes \<Rightarrow> identity_entry option, bytes \<Rightarrow> unit option) transport" where
  "demo_known_path = demo_node\<lparr>t_paths := [p_destination_hash (demo_announce (replicate 10 3)) \<mapsto>
     Some \<lparr>sp_timestamp = 0, sp_hops = 2, sp_expires = 100, sp_received_from = [9], sp_random_blobs = [replicate 10 1],
       sp_interface_hash = [1], sp_raw = replicate 19 0\<rparr>]\<rparr>"

lemma demo_known_path_of:
  "\<exists>e. path_of (demo_env own) demo_known_path (p_destination_hash (demo_announce (replicate 10 3))) = Some e
     \<and> pe_random_blobs e = [replicate 10 1] \<and> pe_hops e = 2 \<and> pe_timestamp e = 0"
proof -
  obtain p where "unpack demo_lib (packet_from_raw (replicate 19 0)) = (True, p)" using demo_unpacks by blast
  then show ?thesis
    by (simp add: path_of_def find_path_def get_entry_def demo_known_path_def demo_node_def demo_env_def map_store_def path_decode_def
        find_interface_from_hash_def demo_ifs_def rehydrate_def path_valid_def del: replicate_Suc)
qed

theorem path_replaced_only_by_fresh_witness:
  "\<exists>t' evs e. inbound_announce (demo_env (replicate 16 8)) 5 0 (Some 1) (demo_announce (replicate 10 3)) demo_known_path = Inr (t', evs)
     \<and> t_paths t' \<noteq> t_paths demo_known_path
     \<and> path_of (demo_env (replicate 16 8)) demo_known_path (p_destination_hash (demo_announce (replicate 10 3))) = Some e
     \<and> an_random_hash (announce_parts (demo_announce (replicate 10 3))) \<notin> set (pe_random_blobs e)"
proof -
  let ?p = "demo_announce (replicate 10 3)" and ?E = "demo_env (replicate 16 8)" and ?t = demo_known_path
  have pt: "announce_min ?p = 148" "length (p_data ?p) = 148" "announce_signature_valid demo_lib ?p"
    "p_destination_hash ?p = announce_address demo_lib ?p" "mid (p_data ?p) 74 10 = replicate 10 3"
    by (rule demo_announce_parts; simp)+
  have ty: "p_packet_type ?p = ANNOUNCE" "p_hops ?p = 1" "p_raw ?p = [0]" by (simp_all add: demo_announce_def Let_def)
  obtain h where h: "get_hash demo_lib ?p = Inr h" using ty(3) by (auto simp: get_hash_def get_hashable_part_def Let_def)
  obtain e where e: "path_of ?E ?t (p_destination_hash ?p) = Some e" "pe_random_blobs e = [replicate 10 1]" "pe_hops e = 2"
    using demo_known_path_of by blast
  have known: "known map_store Map.empty (announce_address demo_lib ?p) = None" by (simp add: known_def map_store_def)
  obtain ks where v: "validate_announce (te_lib ?E) (te_known ?E) 5 ?p False (t_known ?t) = Inr (True, ks)"
    using validate_announce_eq [OF ty(1) _ h, of map_store 5 False Map.empty] pt known
    by (auto simp: demo_env_def demo_known_path_def demo_node_def Let_def)
  have ten: "replicate 10 x = [x, x, x, x, x, x, x, x, x, x]" for x :: byte by (simp add: numeral_eq_Suc)
  have tb: "timebase_from_random_blob (replicate 10 1) < timebase_from_random_blob (replicate 10 3)"
    unfolding ten by (simp add: timebase_from_random_blob_def from_bytes_big_endian_def)
  have ne: "(replicate 10 3 :: bytes) \<noteq> replicate 10 1" by (simp add: numeral_eq_Suc)
  have tb0: "timebase_from_random_blobs [replicate 10 1] < timebase_from_random_blob (replicate 10 3)"
    using tb by (simp add: timebase_Max)
  have add: "should_add 5 (p_hops ?p) (timebase_from_random_blob (replicate 10 3)) (replicate 10 3)
      (path_is_unresponsive (t_path_states ?t) (p_destination_hash ?p)) (path_of ?E ?t (p_destination_hash ?p)) = Inr (True, True)"
    using e tb0 ne ty(2) by (simp add: should_add_def replaces_def Let_def del: replicate_Suc)
  obtain t' stored where t': "inbound_announce ?E 5 0 (Some 1) ?p ?t = Inr (t', [])"
    and put: "path_put (te_paths ?E) (t_ifs ?t) (p_destination_hash ?p)
        (announced_path 5 (t_ifs ?t) 1 (if p_transport_id ?p \<noteq> [] then p_transport_id ?p else p_destination_hash ?p)
          (replicate 10 3) (pe_random_blobs e) ?p) (path_time (if_mode (if_of (t_ifs ?t) 1)) DESTINATION_TIMEOUT) (t_paths ?t)
        = (stored, t_paths t')"
    using inbound_announce_learns [where n = 1 and rnd = 0 and m = True, OF _ v] add e pt(5) ty(2)
    by (auto simp: demo_known_path_def demo_node_def)
  have "\<exists>d. t_paths t' (p_destination_hash ?p) = Some (Some d) \<and> sp_timestamp d = 5"
    using fun_cong [OF arg_cong [OF put, of snd], of "p_destination_hash ?p"]
    by (simp add: path_put_def demo_env_def map_store_def announced_path_def path_encode_def)
      (metis stored_path.select_convs(1))
  moreover have "\<exists>d. t_paths ?t (p_destination_hash ?p) = Some (Some d) \<and> sp_timestamp d = 0"
    by (simp add: demo_known_path_def)
  ultimately have ne: "t_paths t' \<noteq> t_paths ?t" by auto
  have "\<not> path_is_unresponsive (t_path_states ?t) (p_destination_hash ?p)"
    by (simp add: path_is_unresponsive_def demo_known_path_def demo_node_def)
  from path_replaced_only_by_fresh [OF t' ne e(1) this] show ?thesis using t' ne e(1) by blast
qed

end
