(* ===== verification/Path_Requests.thy ===== *)
theory Path_Requests
  imports Announces
begin

text \<open>
  Path requests at a node (\<open>Transport::request_path\<close>, \<open>path_request_handler\<close>, \<open>path_request\<close> and
  \<open>handle_disovery_path_requests\<close>): sending a request, answering one from the path table, answering
  for a local destination, searching on behalf of another node, and the throttled queue.

  \<open>rnd\<close> stands for the octets of the random generator that a call draws, \<open>rnds\<close> for those of the
  successive calls of a loop over the interfaces.
\<close>

abbreviation PATH_REQUEST_GRACE :: real where "PATH_REQUEST_GRACE \<equiv> 2 / 5"
abbreviation PATH_REQUEST_RG :: real where "PATH_REQUEST_RG \<equiv> 3 / 2"
abbreviation PATH_REQUEST_TIMEOUT :: real where "PATH_REQUEST_TIMEOUT \<equiv> 15"
abbreviation DISCOVERY_PR_TX_THROTTLE :: real where "DISCOVERY_PR_TX_THROTTLE \<equiv> 1 / 2"
abbreviation MAX_QUEUED_DISCOVERY_PRS :: nat where "MAX_QUEUED_DISCOVERY_PRS \<equiv> 32"

definition APP_NAME :: bytes where
  "APP_NAME = ascii ''rnstransport''"

definition discovers_paths :: "iface_mode \<Rightarrow> bool" where
  "discovers_paths m \<longleftrightarrow> m = MODE_ACCESS_POINT \<or> m = MODE_GATEWAY \<or> m = MODE_ROAMING"

definition update_iface :: "nat \<Rightarrow> (iface \<Rightarrow> iface) \<Rightarrow> interfaces \<Rightarrow> interfaces" where
  "update_iface n f ifs = ifs\<lparr>if_of := (if_of ifs)(n := f (if_of ifs n))\<rparr>"

section \<open>Sending requests\<close>

definition request_data :: "('s, 'k, 'h) tenv \<Rightarrow> bytes \<Rightarrow> bytes \<Rightarrow> bytes" where
  "request_data E dh tag = (if te_transport_enabled E then dh @ te_identity_hash E @ tag else dh @ tag)"

definition request_packet :: "('s, 'k, 'h) tenv \<Rightarrow> bytes \<Rightarrow> bytes \<Rightarrow> packet result" where
  "request_packet E dh tag =
     res_bind (new_destination (te_lib E) [] [] None OUT PLAIN APP_NAME (ascii ''path.request'')) (\<lambda>d :: bytes destination.
       packet_to_destination (Some (dest_view_of (te_lib E) [] [] d))
         (request_data E dh tag))"

text \<open>
  The time an announce interface is blocked after a recursive request, in whole seconds; a quotient
  that does not fit 32 bits has no defined conversion.
\<close>

definition request_wait :: "iface \<Rightarrow> nat \<Rightarrow> nat result" where
  "request_wait i len =
     (if if_bitrate i > 0 \<and> if_announce_cap i > 0 then
        (let tx_time = (len + HEADER_MINSIZE) * 8 div if_bitrate i; w = nat \<lfloor>real tx_time / if_announce_cap i\<rfloor>
         in if w < 2 ^ 32 then Inr w else Inl Undefined_behaviour)
      else Inr 0)"

definition request_path ::
  "('s, 'k, 'h) tenv \<Rightarrow> real \<Rightarrow> bytes \<Rightarrow> bytes \<Rightarrow> nat option \<Rightarrow> bytes \<Rightarrow> bool \<Rightarrow> ('s, 'k, 'h) transport \<Rightarrow>
     (('s, 'k, 'h) transport \<times> tevent list) result" where
  "request_path E now rnd dh on tag recursive t =
     res_bind (request_packet E dh (if tag = [] then rnd else tag)) (\<lambda>p.
       let sent = (\<lambda>ifs. Inr (t\<lparr>t_ifs := ifs, t_path_requests := tab_assign dh now (t_path_requests t)\<rparr>, [Send p on]))
       in (case on of
             Some n \<Rightarrow>
               if recursive then
                 let i = if_of (t_ifs t) n
                 in if if_announce_queue i \<noteq> [] \<or> now < if_announce_allowed_at i then Inr (t, [])
                    else res_bind (request_wait i (length (request_data E dh (if tag = [] then rnd else tag)))) (\<lambda>w.
                           sent (update_iface n (\<lambda>i. i\<lparr>if_announce_allowed_at := now + real w\<rparr>) (t_ifs t)))
               else sent (t_ifs t)
           | None \<Rightarrow> sent (t_ifs t)))"

fun request_paths ::
  "('s, 'k, 'h) tenv \<Rightarrow> real \<Rightarrow> (nat \<Rightarrow> bytes) \<Rightarrow> bytes \<Rightarrow> bytes \<Rightarrow> bool \<Rightarrow> nat list \<Rightarrow> ('s, 'k, 'h) transport \<Rightarrow>
     (('s, 'k, 'h) transport \<times> tevent list) result" where
  "request_paths E now rnds dh tag recursive [] t = Inr (t, [])"
| "request_paths E now rnds dh tag recursive (n # ns) t =
     res_bind (request_path E now (rnds n) dh (Some n) tag recursive t) (\<lambda>(t1, evs).
     res_bind (request_paths E now rnds dh tag recursive ns t1) (\<lambda>(t2, evs').
       Inr (t2, evs @ evs')))"

text \<open>The queue of discovery requests: one entry per call, at most one every half second.\<close>

definition handle_disovery_path_requests ::
  "('s, 'k, 'h) tenv \<Rightarrow> real \<Rightarrow> (nat \<Rightarrow> bytes) \<Rightarrow> ('s, 'k, 'h) transport \<Rightarrow> (('s, 'k, 'h) transport \<times> tevent list) result" where
  "handle_disovery_path_requests E now rnds t =
     (case t_pending_discovery_prs t of
        [] \<Rightarrow> Inr (t, [])
      | (dh, blocked) # rest \<Rightarrow>
          if now < t_pending_discovery_prs_last_tx t + DISCOVERY_PR_TX_THROTTLE then Inr (t, [])
          else
            let t1 = t\<lparr>t_pending_discovery_prs := rest, t_pending_discovery_prs_last_tx := now\<rparr>
            in (case blocked of
                  None \<Rightarrow> request_path E now (rnds 0) dh None [] False t1
                | Some b \<Rightarrow>
                    request_paths E now rnds dh [] False
                      (filter (\<lambda>n. if_hash (if_of (t_ifs t1) n) \<noteq> if_hash (if_of (t_ifs t1) b)) (if_ids (t_ifs t1))) t1))"

section \<open>Answering requests\<close>

text \<open>
  The answer from the path table is an entry of the announce table that \<open>jobs\<close> sends as a path
  response.  A pending announce for the destination is put aside; \<open>insert\<close> then leaves it in place.
\<close>

definition answer_from_path ::
  "('s, 'k, 'h) tenv \<Rightarrow> real \<Rightarrow> bool \<Rightarrow> nat \<Rightarrow> path_entry \<Rightarrow> packet \<Rightarrow> ('s, 'k, 'h) transport \<Rightarrow> ('s, 'k, 'h) transport" where
  "answer_from_path E now local n e ap t =
     (let adh = p_destination_hash ap;
          retransmit_timeout =
            (if local then now
             else now + PATH_REQUEST_GRACE + (if if_mode (if_of (t_ifs t) n) = MODE_ROAMING then PATH_REQUEST_RG else 0));
          entry = \<lparr>ae_timestamp = now, ae_retransmit_timeout = retransmit_timeout, ae_retries = word_of_nat PATHFINDER_R,
            ae_received_from = pe_received_from e, ae_hops = p_hops ap, ae_packet = ap, ae_local_rebroadcasts = 0,
            ae_block_rebroadcasts = True, ae_attached_interface = Some n\<rparr>;
          held = (case tab_find adh (t_announce_table t) of
                    Some a \<Rightarrow> tab_insert adh a (t_held_announces t)
                  | None \<Rightarrow> t_held_announces t)
      in t\<lparr>t_held_announces := held,
           t_announce_table := cull_announce_table E (tab_insert adh entry (t_announce_table t))\<rparr>)"

definition path_request ::
  "('s, 'k, 'h) tenv \<Rightarrow> real \<Rightarrow> bytes \<Rightarrow> (nat \<Rightarrow> bytes) \<Rightarrow> bytes \<Rightarrow> bool \<Rightarrow> nat option \<Rightarrow> bytes \<Rightarrow> bytes \<Rightarrow>
     ('s, 'k, 'h) transport \<Rightarrow> (('s, 'k, 'h) transport \<times> tevent list) result" where
  "path_request E now rnd rnds dh local iface requestor tag t =
     (let search = (case iface of
            Some n \<Rightarrow> te_transport_enabled E \<and> discovers_paths (if_mode (if_of (t_ifs t) n)) | None \<Rightarrow> False)
      in case tab_find dh (t_destinations t) of
           Some d \<Rightarrow>
             res_bind (announce (te_lib E) now rnd [] True tag d) (\<lambda>(p, d').
               Inr (t\<lparr>t_destinations := tab_assign dh d' (t_destinations t)\<rparr>,
                    case p of Some q \<Rightarrow> [Send q iface] | None \<Rightarrow> []))
         | None \<Rightarrow>
             (case (if te_transport_enabled E \<or> local then path_of E t dh else None) of
                Some e \<Rightarrow>
                  if path_is_unresponsive (t_path_states t) dh then Inr (t, [])
                  else
                    (case (iface, pe_announce_packet e) of
                       (Some n, Some ap) \<Rightarrow>
                         if if_mode (if_of (t_ifs t) n) = MODE_ROAMING \<and> pe_receiving_interface e = Some n then Inr (t, [])
                         else if requestor \<noteq> [] \<and> pe_received_from e = requestor then Inr (t, [])
                         else Inr (answer_from_path E now local n e ap t, [])
                     | _ \<Rightarrow> Inl Undefined_behaviour)
              | None \<Rightarrow>
                  if local then
                    request_paths E now rnds dh rnd False (filter (\<lambda>n. Some n \<noteq> iface) (if_ids (t_ifs t))) t
                  else if search then
                    (if tab_find dh (t_discovery_path_requests t) \<noteq> None then Inr (t, [])
                     else
                       request_paths E now rnds dh tag True (if_ids (t_ifs t))
                         (t\<lparr>t_discovery_path_requests :=
                             tab_insert dh \<lparr>pr_destination_hash = dh, pr_timeout = now + PATH_REQUEST_TIMEOUT,
                               pr_requesting_interface = iface\<rparr> (t_discovery_path_requests t)\<rparr>))
                  else Inr (t, [])))"

text \<open>The octets of a request: the destination, the requesting node if there is room for it, and a tag.\<close>

definition request_fields :: "bytes \<Rightarrow> bytes \<times> bytes \<times> bytes" where
  "request_fields dat =
     (let tag = (if length dat > 32 then mid_end dat 32 else if length dat > 16 then mid_end dat 16 else [])
      in (left dat 16, if length dat > 32 then mid dat 16 16 else [], if length tag > 16 then left tag 16 else tag))"

definition path_request_handler ::
  "('s, 'k, 'h) tenv \<Rightarrow> real \<Rightarrow> bytes \<Rightarrow> (nat \<Rightarrow> bytes) \<Rightarrow> nat option \<Rightarrow> bytes \<Rightarrow> ('s, 'k, 'h) transport \<Rightarrow>
     (('s, 'k, 'h) transport \<times> tevent list) result" where
  "path_request_handler E now rnd rnds iface dat t =
     (if length dat < 16 then Inr (t, [])
      else
        let (dh, requestor, tag) = request_fields dat; unique_tag = dh @ tag
        in if tag = [] \<or> gs_contains unique_tag (t_discovery_pr_tags t) then Inr (t, [])
           else
             let t1 = t\<lparr>t_discovery_pr_tags := ins unique_tag (t_discovery_pr_tags t)\<rparr>
             in (case iface of
                   None \<Rightarrow> Inl Undefined_behaviour
                 | Some n \<Rightarrow>
                     try_catch (path_request E now rnd rnds dh (if_local_client (if_of (t_ifs t1) n)) iface requestor tag t1)
                       (\<lambda>_. Inr (t1, []))))"

section \<open>Lemmas\<close>

lemma request_frame_refl: "\<exists>ifs prs. t = t\<lparr>t_ifs := ifs, t_path_requests := prs\<rparr>"
  by (rule exI [of _ "t_ifs t"], rule exI [of _ "t_path_requests t"]) simp

lemma request_path_frame:
  "request_path E now rnd dh on tag rec t = Inr (t', evs) \<Longrightarrow> \<exists>ifs prs. t' = t\<lparr>t_ifs := ifs, t_path_requests := prs\<rparr>"
  by (auto simp: request_path_def Let_def res_bind_eq_Inr split: option.splits if_splits)
    (metis transport.surjective transport.update_convs(1,16))+

lemma request_paths_frame:
  "request_paths E now rnds dh tag rec ns t = Inr (t', evs) \<Longrightarrow> \<exists>ifs prs. t' = t\<lparr>t_ifs := ifs, t_path_requests := prs\<rparr>"
proof (induction ns arbitrary: t evs)
  case Nil
  then show ?case using request_frame_refl by auto
next
  case (Cons n ns)
  then obtain t1 e1 e2 where 1: "request_path E now (rnds n) dh (Some n) tag rec t = Inr (t1, e1)"
    and 2: "request_paths E now rnds dh tag rec ns t1 = Inr (t', e2)"
    by (auto simp: res_bind_eq_Inr)
  from request_path_frame [OF 1] obtain a b where t1: "t1 = t\<lparr>t_ifs := a, t_path_requests := b\<rparr>" by blast
  from Cons.IH [OF 2] obtain c d where "t' = t1\<lparr>t_ifs := c, t_path_requests := d\<rparr>" by blast
  then have "t' = t\<lparr>t_ifs := c, t_path_requests := d\<rparr>" by (simp add: t1)
  then show ?case by blast
qed

lemma path_request_tags:
  "path_request E now rnd rnds dh local iface rq tag t = Inr (t', evs) \<Longrightarrow> t_discovery_pr_tags t' = t_discovery_pr_tags t"
  by (auto simp: path_request_def Let_def res_bind_eq_Inr answer_from_path_def dest!: request_paths_frame
      split: option.splits if_splits)

lemma handler_tags:
  assumes "path_request_handler E now rnd rnds iface dat t = Inr (t', evs)"
    and "request_fields dat = (dh, rq, tag)"
  shows "t_discovery_pr_tags t' = (if length dat < 16 \<or> tag = [] \<or> gs_contains (dh @ tag) (t_discovery_pr_tags t)
      then t_discovery_pr_tags t else ins (dh @ tag) (t_discovery_pr_tags t))"
  using assms
  by (auto simp: path_request_handler_def Let_def try_catch_def dest!: path_request_tags
      split: option.splits if_splits sum.splits)

text \<open>A sequence of requests, as the arguments of the successive calls.\<close>

type_synonym request = "real \<times> bytes \<times> (nat \<Rightarrow> bytes) \<times> nat option \<times> bytes"

fun handle_requests ::
  "('s, 'k, 'h) tenv \<Rightarrow> request list \<Rightarrow> ('s, 'k, 'h) transport \<Rightarrow> (('s, 'k, 'h) transport \<times> tevent list) result" where
  "handle_requests E [] t = Inr (t, [])"
| "handle_requests E ((now, rnd, rnds, iface, dat) # rs) t =
     res_bind (path_request_handler E now rnd rnds iface dat t) (\<lambda>(t1, evs).
     res_bind (handle_requests E rs t1) (\<lambda>(t2, evs'). Inr (t2, evs @ evs')))"

definition tags_ok :: "('s, 'k, 'h) transport \<Rightarrow> bool" where
  "tags_ok t \<longleftrightarrow> gs_inv (t_discovery_pr_tags t) \<and> gs_bounded (t_discovery_pr_tags t) \<and> max_sz (t_discovery_pr_tags t) > 0"

lemma handler_tags_ok [inv_intros]:
  assumes "path_request_handler E now rnd rnds iface dat t = Inr (t', evs)" and "tags_ok t"
  shows "tags_ok t'" and "max_sz (t_discovery_pr_tags t') = max_sz (t_discovery_pr_tags t)"
    and "life (t_discovery_pr_tags t) x \<le> life (t_discovery_pr_tags t') x + 1"
proof -
  obtain dh rq tag where f: "request_fields dat = (dh, rq, tag)" by (cases "request_fields dat")
  note tg = handler_tags [OF assms(1) f]
  show "tags_ok t'" using assms(2) unfolding tags_ok_def tg by (simp add: inv_intros)
  show "max_sz (t_discovery_pr_tags t') = max_sz (t_discovery_pr_tags t)" unfolding tg by simp
  show "life (t_discovery_pr_tags t) x \<le> life (t_discovery_pr_tags t') x + 1"
    using life_step [of "t_discovery_pr_tags t" x "dh @ tag"] assms(2) unfolding tg tags_ok_def
    by (simp split: if_splits)
qed

lemma handle_requests_life:
  "handle_requests E rs t = Inr (t', evs) \<Longrightarrow> tags_ok t \<Longrightarrow>
     life (t_discovery_pr_tags t) x \<le> life (t_discovery_pr_tags t') x + length rs"
proof (induction E rs t arbitrary: evs rule: handle_requests.induct)
  case (2 E now rnd rnds iface dat rs t)
  then obtain t1 e1 e2 where 1: "path_request_handler E now rnd rnds iface dat t = Inr (t1, e1)"
    and r: "handle_requests E rs t1 = Inr (t', e2)"
    by (auto simp: res_bind_eq_Inr)
  note h = handler_tags_ok [OF 1 2(3)]
  have "life (t_discovery_pr_tags t1) x \<le> life (t_discovery_pr_tags t') x + length rs"
    by (rule 2(1) [OF r h(1)])
  with h(3) [of x] show ?case by simp
qed simp

text \<open>A request for a known path, on an interface that is not a roaming one and not from a local client.\<close>

lemma path_request_known:
  assumes "request_fields dat = (dh, rq, tag)" and "16 \<le> length dat" and "tag \<noteq> []"
    and "\<not> gs_contains (dh @ tag) (t_discovery_pr_tags t)" and "te_transport_enabled E"
    and "tab_find dh (t_destinations t) = None" and "path_of E t dh = Some e" and "pe_announce_packet e = Some ap"
    and "\<not> path_is_unresponsive (t_path_states t) dh"
    and "if_mode (if_of (t_ifs t) n) \<noteq> MODE_ROAMING" and "\<not> if_local_client (if_of (t_ifs t) n)"
    and "rq = [] \<or> pe_received_from e \<noteq> rq"
  shows "path_request_handler E now rnd rnds (Some n) dat t =
    Inr (answer_from_path E now False n e ap (t\<lparr>t_discovery_pr_tags := ins (dh @ tag) (t_discovery_pr_tags t)\<rparr>), [])"
  using assms by (auto simp: path_request_handler_def path_request_def Let_def path_of_def)

lemma recall_known:
  "known (te_known E) (t_known t) h = Some ie \<Longrightarrow> \<exists>i. recall_identity E now h t = Inr (Some i, t)"
  by (simp add: recall_identity_def recall_def)

lemma relayed_announce_total:
  assumes "length (p_data p) \<le> MDU"
  shows "\<exists>q. relayed_announce E ctx hops p = Inr q \<and> p_packet_type q = ANNOUNCE \<and> p_context q = ctx \<and> p_hops q = hops
    \<and> p_data q = p_data p \<and> p_transport_id q = te_identity_hash E"
  using assms
  by (cases "ctx = LRPROOF")
    (simp_all add: relayed_announce_def packet_to_destination_def Let_def new_object_def with_flags_def get_packed_flags_def
      set_packet_type_def set_context_def set_transport_type_def set_header_type_def set_transport_id_def
      set_context_flag_def set_hops_def)

section \<open>Properties\<close>

text \<open>
  A path request is served once: after a request was handled, requests for the same destination
  with the same tag change nothing and cause no transmission, whatever node they come through, as
  long as fewer than half as many other requests came in between as the table of tags holds.
\<close>

lemma path_request_once:
  assumes "tags_ok t" and "request_fields dat = (dh, rq, tag)" and "16 \<le> length dat" and "tag \<noteq> []"
    and "\<not> gs_contains (dh @ tag) (t_discovery_pr_tags t)"
    and "path_request_handler E now rnd rnds iface dat t = Inr (t1, evs)"
    and "handle_requests E rs t1 = Inr (t2, evs')" and "length rs < (max_sz (t_discovery_pr_tags t) + 1) div 2"
    and "request_fields dat' = (dh, rq', tag)"
  shows "path_request_handler E now' rnd' rnds' iface' dat' t2 = Inr (t2, [])"
proof -
  have t1: "t_discovery_pr_tags t1 = ins (dh @ tag) (t_discovery_pr_tags t)"
    using handler_tags [OF assms(6,2)] assms(3-5) by simp
  have "(max_sz (t_discovery_pr_tags t) + 1) div 2 \<le> life (t_discovery_pr_tags t1) (dh @ tag)"
    unfolding t1 using assms(1,5) by (intro life_fresh) (simp_all add: tags_ok_def contains_iff)
  with handle_requests_life [OF assms(7) handler_tags_ok(1) [OF assms(6,1)], of "dh @ tag"] assms(8)
  have "life (t_discovery_pr_tags t2) (dh @ tag) > 0" by simp
  then have "gs_contains (dh @ tag) (t_discovery_pr_tags t2)" by (simp add: life_pos contains_iff)
  then show ?thesis using assms(9) by (simp add: path_request_handler_def)
qed

text \<open>
  C24. A known path is advertised: a request for a destination whose path is known, from a node that
  is not the next hop of that path, puts a path response into the announce table, and when its time
  has come the node sends it on the interface of the request only: the announce that made the path,
  under the node's own address, with the same hops.  The node is a transport node that has no
  announces pending or held back and holds the identity of the destination, and the interface is
  neither roaming nor that of a local client.  (An announce of the destination that is pending can
  take the place of the answer, see \<open>path_response_lost\<close>.)
\<close>

theorem path_request_answered:
  assumes req: "request_fields dat = (dh, rq, tag)" "16 \<le> length dat" "tag \<noteq> []"
      "\<not> gs_contains (dh @ tag) (t_discovery_pr_tags t)"
    and env: "te_transport_enabled E" "te_announce_table_maxsize E > 0"
    and path: "tab_find dh (t_destinations t) = None" "path_of E t dh = Some e" "pe_announce_packet e = Some ap"
      "\<not> path_is_unresponsive (t_path_states t) dh" "rq = [] \<or> pe_received_from e \<noteq> rq"
    and packet: "length (p_data ap) \<le> MDU"
    and iface: "if_mode (if_of (t_ifs t) n) \<noteq> MODE_ROAMING" "\<not> if_local_client (if_of (t_ifs t) n)"
    and idle: "t_announce_table t = []" "t_held_announces t = []" "known (te_known E) (t_known t) (p_destination_hash ap) = Some ie"
    and later: "now + PATH_REQUEST_GRACE < now'"
  shows "\<exists>t1 t2 q. path_request_handler E now rnd rnds (Some n) dat t = Inr (t1, [])
    \<and> announce_job E now' t1 = Inr (t2, [Send q (Some n)])
    \<and> p_packet_type q = ANNOUNCE \<and> p_context q = PATH_RESPONSE \<and> p_hops q = p_hops ap \<and> p_data q = p_data ap
    \<and> p_transport_id q = te_identity_hash E"
proof -
  let ?t0 = "t\<lparr>t_discovery_pr_tags := ins (dh @ tag) (t_discovery_pr_tags t)\<rparr>"
  let ?adh = "p_destination_hash ap"
  let ?t1 = "answer_from_path E now False n e ap ?t0"
  define a where "a = \<lparr>ae_timestamp = now, ae_retransmit_timeout = now + PATH_REQUEST_GRACE, ae_retries = 1,
    ae_received_from = pe_received_from e, ae_hops = p_hops ap, ae_packet = ap, ae_local_rebroadcasts = 0,
    ae_block_rebroadcasts = True, ae_attached_interface = Some n\<rparr>"
  have h: "path_request_handler E now rnd rnds (Some n) dat t = Inr (?t1, [])"
    by (rule path_request_known [OF req env(1) path(1-4) iface path(5)])
  have tbl: "t_announce_table ?t1 = [(?adh, a)]" "t_held_announces ?t1 = []" "t_known ?t1 = t_known t"
    using idle iface env(2)
    by (simp_all add: answer_from_path_def Let_def a_def tab_insert_def tab_find_def cull_announce_table_def)
  define a' where "a' = a\<lparr>ae_retransmit_timeout := now' + PATHFINDER_G + PATHFINDER_RW, ae_retries := ae_retries a + 1\<rparr>"
  define t2 where "t2 = ?t1\<lparr>t_announce_table := tab_assign ?adh a' (t_announce_table ?t1)\<rparr>"
  obtain i where rc: "recall_identity E now' ?adh t2 = Inr (Some i, t2)"
    using recall_known [of E t2 ?adh ie now'] idle(3) tbl(3) by (auto simp: t2_def)
  obtain q where q: "relayed_announce E PATH_RESPONSE (p_hops ap) ap = Inr q" and
    f: "p_data q = p_data ap" "p_packet_type q = ANNOUNCE" "p_context q = PATH_RESPONSE" "p_transport_id q = te_identity_hash E" "p_hops q = p_hops ap"
    using relayed_announce_total [OF packet] by blast
  have step: "\<not> completed a" "ae_retransmit_timeout a < now'" "ae_packet a = ap" "ae_block_rebroadcasts a" "ae_hops a = p_hops ap"
      "ae_attached_interface a = Some n"
    using later by (simp_all add: completed_def a_def)
  have "announce_loop E now' [(?adh, a)] ?t1 = Inr ([], [Send q (Some n)], t2)"
    using step rc q tbl(2) by (simp add: Let_def t2_def a'_def)
  then have "announce_job E now' ?t1 = Inr (t2\<lparr>t_announce_table := t_announce_table t2\<rparr>, [Send q (Some n)])"
    by (simp add: announce_job_def tbl(1))
  with h f show ?thesis by blast
qed

text \<open>
  A path response is lost, and the table it was meant for is corrupted, when an announce of the
  destination is still waiting to be rebroadcast: the response does not enter the table, the waiting
  announce is also put aside, and as soon as it is due the pass over the table erases the entry it
  stands on.
\<close>

lemma path_response_lost:
  assumes req: "request_fields dat = (dh, rq, tag)" "16 \<le> length dat" "tag \<noteq> []"
      "\<not> gs_contains (dh @ tag) (t_discovery_pr_tags t)"
    and env: "te_transport_enabled E" "te_announce_table_maxsize E > 0"
    and path: "tab_find dh (t_destinations t) = None" "path_of E t dh = Some e" "pe_announce_packet e = Some ap"
      "\<not> path_is_unresponsive (t_path_states t) dh" "rq = [] \<or> pe_received_from e \<noteq> rq"
    and packet: "length (p_data (ae_packet a)) \<le> MDU"
    and iface: "if_mode (if_of (t_ifs t) n) \<noteq> MODE_ROAMING" "\<not> if_local_client (if_of (t_ifs t) n)"
    and pending: "t_announce_table t = [(p_destination_hash ap, a)]" "t_held_announces t = []" "\<not> completed a"
      "known (te_known E) (t_known t) (p_destination_hash (ae_packet a)) = Some ie"
    and later: "ae_retransmit_timeout a < now'"
  shows "\<exists>t1. path_request_handler E now rnd rnds (Some n) dat t = Inr (t1, [])
    \<and> t_announce_table t1 = t_announce_table t \<and> t_held_announces t1 = t_announce_table t
    \<and> announce_job E now' t1 = Inl Undefined_behaviour"
proof -
  let ?t0 = "t\<lparr>t_discovery_pr_tags := ins (dh @ tag) (t_discovery_pr_tags t)\<rparr>"
  let ?adh = "p_destination_hash ap"
  let ?t1 = "answer_from_path E now False n e ap ?t0"
  have h: "path_request_handler E now rnd rnds (Some n) dat t = Inr (?t1, [])"
    by (rule path_request_known [OF req env(1) path(1-4) iface path(5)])
  have tbl: "t_announce_table ?t1 = [(?adh, a)]" "t_held_announces ?t1 = [(?adh, a)]" "t_known ?t1 = t_known t"
    using pending env(2) by (simp_all add: answer_from_path_def Let_def tab_insert_def tab_find_def cull_announce_table_def)
  define a' where "a' = a\<lparr>ae_retransmit_timeout := now' + PATHFINDER_G + PATHFINDER_RW, ae_retries := ae_retries a + 1\<rparr>"
  define t2 where "t2 = ?t1\<lparr>t_announce_table := tab_assign ?adh a' (t_announce_table ?t1)\<rparr>"
  obtain i where rc: "recall_identity E now' (p_destination_hash (ae_packet a)) t2 = Inr (Some i, t2)"
    using recall_known [of E t2 _ ie now'] pending(4) tbl(3) by (auto simp: t2_def)
  obtain q where q: "relayed_announce E (if ae_block_rebroadcasts a then PATH_RESPONSE else CONTEXT_NONE) (ae_hops a) (ae_packet a) = Inr q"
    using relayed_announce_total [OF packet] by blast
  have held: "tab_find ?adh (t_held_announces t2) \<noteq> None" using tbl(2) by (simp add: t2_def tab_find_def)
  have "announce_loop E now' [(?adh, a)] ?t1 = Inl Undefined_behaviour"
    using pending(3) later rc q held by (simp add: Let_def t2_def a'_def)
  then have "announce_job E now' ?t1 = Inl Undefined_behaviour" by (simp add: announce_job_def tbl(1))
  with h tbl pending(1) show ?thesis by auto
qed

section \<open>Witnesses\<close>

text \<open>A node that knows a path to the address of sevens, made by an announce of the address of zeros.\<close>

definition demo_path_node :: "(bytes \<Rightarrow> stored_path option option, bytes \<Rightarrow> identity_entry option, bytes \<Rightarrow> unit option) transport" where
  "demo_path_node = demo_node\<lparr>t_paths := [replicate 16 7 \<mapsto>
     Some \<lparr>sp_timestamp = 0, sp_hops = 2, sp_expires = 100, sp_received_from = replicate 16 9, sp_random_blobs = [replicate 10 1],
       sp_interface_hash = [1], sp_raw = replicate 19 0\<rparr>],
     t_known := [replicate 16 0 \<mapsto> \<lparr>ie_timestamp = 0, ie_packet_hash = [], ie_public_key = replicate 64 1, ie_app_data = []\<rparr>]\<rparr>"

lemma demo_path:
  "\<exists>e ap. path_of (demo_env own) demo_path_node (replicate 16 7) = Some e \<and> pe_announce_packet e = Some ap
     \<and> p_destination_hash ap = replicate 16 0 \<and> p_data ap = [] \<and> pe_received_from e = replicate 16 9 \<and> pe_hops e = 2
     \<and> pe_receiving_interface e = Some 1"
proof -
  have raw: "p_raw (packet_from_raw (replicate 19 0)) = [0, 0] @ replicate 16 0 @ [0] @ []"
    by (simp add: packet_from_raw_def numeral_eq_Suc)
  have h1: "p_header_type (unpack_flags 0 (packet_from_raw (replicate 19 0))) = HEADER_1"
    by (simp add: unpack_flags_def header_type_of_def)
  obtain p where "unpack demo_lib (packet_from_raw (replicate 19 0)) = (True, p)" "p_destination_hash p = replicate 16 0" "p_data p = []"
    using unpack_header_1 [OF _ raw h1, of demo_lib] by (auto simp: wire_sizes Let_def)
  then show ?thesis
    by (simp add: path_of_def find_path_def get_entry_def demo_path_node_def demo_node_def demo_env_def map_store_def path_decode_def
        find_interface_from_hash_def demo_ifs_def rehydrate_def path_valid_def del: replicate_Suc replicate.simps)
qed

definition demo_request :: bytes where
  "demo_request = replicate 16 7 @ [5]"

lemma demo_request_fields: "request_fields demo_request = (replicate 16 7, [], [5])" "length demo_request = 17"
  by (simp_all add: request_fields_def demo_request_def bytes_simps)

lemma demo_path_node_idle:
  "t_discovery_pr_tags demo_path_node = gs_max_size 32 gs_empty_set" "t_destinations demo_path_node = []"
  "t_path_states demo_path_node = Map.empty" "t_announce_table demo_path_node = []" "t_held_announces demo_path_node = []"
  "t_ifs demo_path_node = demo_ifs" "\<not> gs_contains x (gs_max_size 32 gs_empty_set)"
  "max_sz (gs_max_size 32 gs_empty_set) = 32"
  by (simp_all add: demo_path_node_def demo_node_def contains_iff) (simp add: gs_max_size_def)

lemma demo_path_known: "known (te_known (demo_env own)) (t_known demo_path_node) (replicate 16 0) \<noteq> None"
  by (simp add: demo_path_node_def demo_node_def demo_env_def known_def map_store_def entry_bool_def)

lemma demo_env_settings:
  "te_transport_enabled (demo_env own)" "te_announce_table_maxsize (demo_env own) > 0"
  "if_mode (if_of demo_ifs n) = MODE_FULL" "\<not> if_local_client (if_of demo_ifs n)"
  by (simp_all add: demo_env_def demo_ifs_def demo_iface_def)

theorem path_request_answered_witness:
  "\<exists>t1 t2 q. path_request_handler (demo_env (replicate 16 8)) 1 [] (\<lambda>_. []) (Some 0) demo_request demo_path_node = Inr (t1, [])
    \<and> announce_job (demo_env (replicate 16 8)) 2 t1 = Inr (t2, [Send q (Some 0)]) \<and> p_context q = PATH_RESPONSE"
proof -
  let ?E = "demo_env (replicate 16 8)"
  obtain e ap where e: "path_of ?E demo_path_node (replicate 16 7) = Some e" "pe_announce_packet e = Some ap"
      "p_destination_hash ap = replicate 16 0" "p_data ap = []"
    using demo_path by blast
  obtain ie where ie: "known (te_known ?E) (t_known demo_path_node) (replicate 16 0) = Some ie" using demo_path_known by blast
  show ?thesis
    using path_request_answered [where rnd = "[]" and rnds = "\<lambda>_. []", OF demo_request_fields(1), of demo_path_node ?E e ap 0 ie 1 2] e ie
    by (auto simp: demo_request_fields(2) demo_path_node_idle demo_env_settings tab_find_def path_is_unresponsive_def)
qed

end
