(* ===== verification/Outbound.thy ===== *)
theory Outbound
  imports Path_Requests
begin

text \<open>
  Sending (\<open>Packet::send\<close>, \<open>Transport::outbound\<close>, \<open>transmit\<close>, \<open>add_packet_hash\<close>): a packet for a known
  path is sent on the interface of that path, under the address of the next hop when the
  destination is further away; other packets are broadcast on the interfaces that allow it, with the
  rules for announces by interface mode, the announce cap and the announce queue of an interface.

  \<open>outgoing\<close> is a packet with the members of \<open>Packet::Object\<close> that refer to other objects: the attached
  interface, the identity of the destination, the link.  \<open>cache_packet\<close> is left out:
  without \<open>force_cache\<close> it stores nothing.
\<close>

record outgoing =
  og_packet :: packet
  og_attached_interface :: "nat option"
  og_identity :: "identity option"
  og_link :: "link option"

abbreviation MAX_QUEUED_ANNOUNCES :: nat where "MAX_QUEUED_ANNOUNCES \<equiv> 20"

section \<open>Transmission\<close>

text \<open>Interface access codes are not implemented: nothing is sent on an interface that has them.\<close>

definition transmit :: "('s, 'k, 'h) tenv \<Rightarrow> interfaces \<Rightarrow> nat \<Rightarrow> bytes \<Rightarrow> bool \<times> tevent list" where
  "transmit E ifs n raw =
     (if if_ifac_identity (if_of ifs n) \<noteq> [] then (False, []) else (te_send_outgoing E n raw, [Transmit n raw]))"

definition add_packet_hash :: "('s, 'k, 'h) tenv \<Rightarrow> bytes \<Rightarrow> ('s, 'k, 'h) transport \<Rightarrow> ('s, 'k, 'h) transport" where
  "add_packet_hash E h t = t\<lparr>t_hashlist := snd (ts_put (te_hashes E) (t_hashlist t) h () 0)\<rparr>"

definition record_neighbor_packet :: "real \<Rightarrow> bytes \<Rightarrow> (bytes, neighbor_stat) table \<Rightarrow> (bytes, neighbor_stat) table" where
  "record_neighbor_packet now nh tbl =
     (if nh = [] then tbl
      else
        let s = (case tab_find nh tbl of Some s \<Rightarrow> s | None \<Rightarrow> new_neighbor_stat)
        in tab_assign nh (s\<lparr>ns_packets_forwarded := ns_packets_forwarded s + 1, ns_last_packet_at := now\<rparr>) tbl)"

definition record_neighbor_proof :: "real \<Rightarrow> bytes \<Rightarrow> (bytes, neighbor_stat) table \<Rightarrow> (bytes, neighbor_stat) table" where
  "record_neighbor_proof now nh tbl =
     (if nh = [] then tbl
      else
        (case tab_find nh tbl of
           None \<Rightarrow> tbl
         | Some s \<Rightarrow> tab_assign nh (s\<lparr>ns_proofs_received := ns_proofs_received s + 1, ns_last_proof_at := now\<rparr>) tbl))"

section \<open>Known paths\<close>

text \<open>The header of a packet put into transport: two addresses, the lower half of the flags kept.\<close>

definition transport_flags :: "header_type \<Rightarrow> transport_type \<Rightarrow> byte \<Rightarrow> byte" where
  "transport_flags ht tt flags =
     push_bit 6 (word_of_nat (header_type_code ht)) OR push_bit 4 (word_of_nat (transport_type_code tt)) OR (flags AND 0x0F)"

definition insert_transport :: "bytes \<Rightarrow> packet \<Rightarrow> bytes" where
  "insert_transport nh p =
     [transport_flags HEADER_2 TRANSPORT (p_flags p)] @ mid (p_raw p) 1 1 @ nh @ mid_end (p_raw p) 2"

definition send_known ::
  "('s, 'k, 'h) tenv \<Rightarrow> real \<Rightarrow> path_entry \<Rightarrow> nat \<Rightarrow> packet \<Rightarrow> ('s, 'k, 'h) transport \<Rightarrow> bool \<times> ('s, 'k, 'h) transport \<times> tevent list" where
  "send_known E now e n p t =
     (let send = (\<lambda>raw.
        let (sent, evs) = transmit E (t_ifs t) n raw
        in (sent, if sent then t\<lparr>t_neighbor_stats := record_neighbor_packet now (pe_received_from e) (t_neighbor_stats t)\<rparr> else t, evs))
      in if pe_hops e > 1 \<or> (pe_hops e = 1 \<and> te_shared_instance E) then
           (if p_header_type p = HEADER_1 then send (insert_transport (pe_received_from e) p) else (False, t, []))
         else send (p_raw p))"

section \<open>Broadcast\<close>

text \<open>
  The announce cap: an announce from elsewhere is sent when nothing is queued and the interface is
  free again, else it is queued once per destination, in its newest version.
\<close>

definition announce_wait :: "iface \<Rightarrow> nat \<Rightarrow> nat result" where
  "announce_wait i len =
     (if if_bitrate i > 0 \<and> if_announce_cap i > 0 then
        (let tx_time = len * 8 div if_bitrate i mod 2 ^ 16; w = nat \<lfloor>real tx_time / if_announce_cap i\<rfloor>
         in if w < 2 ^ 16 then Inr w else Inl Undefined_behaviour)
      else Inr 0)"

fun queue_update :: "bytes \<Rightarrow> queued_announce \<Rightarrow> queued_announce list \<Rightarrow> queued_announce list option" where
  "queue_update dh new [] = None"
| "queue_update dh new (q # qs) =
     (if aq_destination q = dh then
        Some ((if aq_emitted new > aq_emitted q
               then q\<lparr>aq_time := aq_time new, aq_hops := aq_hops new, aq_emitted := aq_emitted new, aq_raw := aq_raw new\<rparr>
               else q) # qs)
      else map_option ((#) q) (queue_update dh new qs))"

definition cap_announce :: "real \<Rightarrow> packet \<Rightarrow> iface \<Rightarrow> (bool \<times> iface) result" where
  "cap_announce now p i =
     (if if_announce_queue i = [] \<and> now > if_announce_allowed_at i then
        res_bind (announce_wait i (length (p_raw p))) (\<lambda>w. Inr (True, i\<lparr>if_announce_allowed_at := now + real w\<rparr>))
      else if length (if_announce_queue i) < MAX_QUEUED_ANNOUNCES then
        res_bind (announce_emitted p) (\<lambda>em.
          let new = \<lparr>aq_destination = p_destination_hash p, aq_time = now, aq_hops = p_hops p, aq_emitted = em, aq_raw = p_raw p\<rparr>
          in Inr (False, i\<lparr>if_announce_queue :=
               (case queue_update (p_destination_hash p) new (if_announce_queue i) of
                  Some q \<Rightarrow> q | None \<Rightarrow> if_announce_queue i @ [new])\<rparr>))
      else Inr (False, i))"

text \<open>The rules for an announce without attached interface, by the mode of the interface.\<close>

definition announce_rule ::
  "('s, 'k, 'h) tenv \<Rightarrow> real \<Rightarrow> packet \<Rightarrow> iface \<Rightarrow> ('s, 'k, 'h) transport \<Rightarrow> (bool \<times> iface) result" where
  "announce_rule E now p i t =
     (let dh = p_destination_hash p; local = (tab_find dh (t_destinations t) \<noteq> None);
          from = map_option (\<lambda>n. if_mode (if_of (t_ifs t) n)) (next_hop_interface (te_lib E) (te_paths E) (t_ifs t) (t_paths t) dh)
      in if if_mode i = MODE_ACCESS_POINT then Inr (False, i)
         else if if_mode i = MODE_ROAMING then
           Inr (local \<or> (from \<noteq> None \<and> from \<notin> {Some MODE_NONE, Some MODE_ROAMING, Some MODE_BOUNDARY}), i)
         else if if_mode i = MODE_BOUNDARY then
           Inr (local \<or> (from \<noteq> None \<and> from \<notin> {Some MODE_NONE, Some MODE_ROAMING}), i)
         else if p_hops p > 0 then cap_announce now p i
         else Inr (True, i))"

definition link_allows :: "outgoing \<Rightarrow> nat \<Rightarrow> bool result" where
  "link_allows g n =
     (case p_destination (og_packet g) of
        None \<Rightarrow> Inl Undefined_behaviour
      | Some d \<Rightarrow>
          if dv_type d = LINK then
            (case og_link g of
               None \<Rightarrow> Inl Invalid_argument
             | Some l \<Rightarrow> Inr (l_status l \<noteq> CLOSED \<and> (l_attached_interface l = None \<or> l_attached_interface l = Some n)))
          else Inr True)"

text \<open>
  The loop over the interfaces: the hash is remembered before the first transmission, and the result
  is that of the last one.
\<close>

primrec broadcast ::
  "('s, 'k, 'h) tenv \<Rightarrow> real \<Rightarrow> outgoing \<Rightarrow> nat list \<Rightarrow> bool \<Rightarrow> bool \<Rightarrow> ('s, 'k, 'h) transport \<Rightarrow>
     (bool \<times> ('s, 'k, 'h) transport \<times> tevent list) result" where
  "broadcast E now g [] stored sent t = Inr (sent, t, [])"
| "broadcast E now g (n # ns) stored sent t =
     (let p = og_packet g; i = if_of (t_ifs t) n in
      if \<not> if_OUT i then broadcast E now g ns stored sent t
      else
        res_bind (link_allows g n) (\<lambda>link_ok.
        res_bind (if p_packet_type p = ANNOUNCE \<and> og_attached_interface g = None then announce_rule E now p i t else Inr (True, i))
          (\<lambda>(rule_ok, i').
             let t1 = t\<lparr>t_ifs := update_iface n (\<lambda>_. i') (t_ifs t)\<rparr>
             in if link_ok \<and> (og_attached_interface g = None \<or> og_attached_interface g = Some n) \<and> rule_ok then
                  let t2 = (if stored then t1 else add_packet_hash E (p_packet_hash p) t1);
                      (sent', evs) = transmit E (t_ifs t2) n (p_raw p)
                  in res_bind (broadcast E now g ns True sent' t2) (\<lambda>(s, t3, evs'). Inr (s, t3, evs @ evs'))
                else broadcast E now g ns stored sent t1)))"

section \<open>Outbound\<close>

definition wants_receipt :: "packet \<Rightarrow> dest_view \<Rightarrow> bool" where
  "wants_receipt p d \<longleftrightarrow>
     p_create_receipt p \<and> p_packet_type p = DATA \<and> dv_type d \<noteq> PLAIN
     \<and> \<not> (KEEPALIVE \<le> p_context p \<and> p_context p \<le> LRPROOF) \<and> \<not> (RESOURCE \<le> p_context p \<and> p_context p \<le> RESOURCE_RCL)"

definition send_somehow ::
  "('s, 'k, 'h) tenv \<Rightarrow> real \<Rightarrow> outgoing \<Rightarrow> dest_view \<Rightarrow> ('s, 'k, 'h) transport \<Rightarrow>
     (bool \<times> ('s, 'k, 'h) transport \<times> tevent list) result" where
  "send_somehow E now g d t =
     (let p = og_packet g in
      case (if p_packet_type p \<noteq> ANNOUNCE \<and> dv_type d \<noteq> PLAIN \<and> dv_type d \<noteq> GROUP
            then path_of E t (p_destination_hash p) else None) of
        Some e \<Rightarrow>
          (case pe_receiving_interface e of
             None \<Rightarrow> Inl Undefined_behaviour
           | Some n \<Rightarrow> Inr (send_known E now e n p t))
      | None \<Rightarrow> broadcast E now g (if_ids (t_ifs t)) False False t)"

definition outbound_body ::
  "('s, 'k, 'h) tenv \<Rightarrow> real \<Rightarrow> outgoing \<Rightarrow> dest_view \<Rightarrow> ('s, 'k, 'h) transport \<Rightarrow>
     (bool \<times> receipt option \<times> ('s, 'k, 'h) transport \<times> tevent list) result" where
  "outbound_body E now g d t =
     res_bind (send_somehow E now g d (t\<lparr>t_jobs_locked := True\<rparr>)) (\<lambda>(sent, t1, evs).
       res_bind
         (if sent \<and> wants_receipt (og_packet g) d then
            res_bind (new_receipt (te_lib E) (te_paths E) (t_ifs t1) (t_paths t1) now (og_identity g) (map_option l_rtt (og_link g)) (og_packet g))
              (\<lambda>r. Inr (Some r, t1\<lparr>t_receipts := t_receipts t1 @ [r]\<rparr>))
          else Inr (None, t1))
         (\<lambda>(r, t2). Inr (sent, r, t2\<lparr>t_jobs_locked := False\<rparr>, evs)))"

text \<open>
  Outbound packets wait while \<open>jobs\<close> runs.  Only \<open>jobs\<close> itself ends that wait; a call from within
  \<open>jobs\<close> never returns (\<open>None\<close>).
\<close>

partial_function (option) await_jobs :: "bool \<Rightarrow> unit option" where
  "await_jobs running = (if running then await_jobs running else Some ())"

definition outbound ::
  "('s, 'k, 'h) tenv \<Rightarrow> real \<Rightarrow> outgoing \<Rightarrow> ('s, 'k, 'h) transport \<Rightarrow>
     (bool \<times> receipt option \<times> ('s, 'k, 'h) transport \<times> tevent list) result option" where
  "outbound E now g t =
     (case p_destination (og_packet g) of
        None \<Rightarrow> Some (Inr (False, None, t, []))
      | Some d \<Rightarrow>
          (case await_jobs (t_jobs_running t) of
             None \<Rightarrow> None
           | Some _ \<Rightarrow> Some (outbound_body E now g d t)))"

section \<open>Packet::send\<close>

definition prepare_send :: "('s, 'k, 'h) tenv \<Rightarrow> real \<Rightarrow> outgoing \<Rightarrow> outgoing result" where
  "prepare_send E now g =
     (let p = og_packet g in
      if p_sent p then Inl Logic_error
      else
        (case p_destination p of
           None \<Rightarrow> Inl Undefined_behaviour
         | Some d \<Rightarrow>
             res_bind
               (if dv_type d = LINK then
                  (case og_link g of
                     None \<Rightarrow> Inl Invalid_argument
                   | Some l \<Rightarrow> if l_status l = CLOSED then Inl Runtime_error
                               else Inr (g\<lparr>og_link := Some (l\<lparr>l_last_outbound := now\<rparr>)\<rparr>))
                else Inr g)
               (\<lambda>g1. if p_packed p then Inr g1 else res_bind (pack (te_lib E) p) (\<lambda>q. Inr (g1\<lparr>og_packet := q\<rparr>)))))"

definition packet_send ::
  "('s, 'k, 'h) tenv \<Rightarrow> real \<Rightarrow> outgoing \<Rightarrow> ('s, 'k, 'h) transport \<Rightarrow>
     (receipt option \<times> outgoing \<times> ('s, 'k, 'h) transport \<times> tevent list) result option" where
  "packet_send E now g t =
     (case prepare_send E now g of
        Inl e \<Rightarrow> Some (Inl e)
      | Inr g1 \<Rightarrow>
          map_option (\<lambda>r. res_bind r (\<lambda>(sent, receipt, t1, evs).
              Inr (receipt, g1\<lparr>og_packet := (og_packet g1)\<lparr>p_sent := sent\<rparr>\<rparr>, t1, evs)))
            (outbound E now g1 t))"

text \<open>Nothing but a request of the application empties the announce queues.\<close>

definition drop_announce_queues :: "('s, 'k, 'h) transport \<Rightarrow> ('s, 'k, 'h) transport" where
  "drop_announce_queues t =
     t\<lparr>t_ifs := fold (\<lambda>n. update_iface n (\<lambda>i. i\<lparr>if_announce_queue := []\<rparr>)) (if_ids (t_ifs t)) (t_ifs t)\<rparr>"

section \<open>Lemmas\<close>

lemma await_jobs_returns: "await_jobs running = Some y \<Longrightarrow> \<not> running"
  by (rule await_jobs.raw_induct [where P = "\<lambda>running _. \<not> running"]) (auto split: if_splits)

lemma await_jobs_running: "await_jobs True = None"
  using await_jobs_returns [of True] by (cases "await_jobs True") auto

lemma await_jobs_idle: "await_jobs False = Some ()"
  by (simp add: await_jobs.simps)

lemma transport_flags_eq:
  "transport_flags HEADER_2 TRANSPORT f = 0x50 OR (f AND 0x0F)"
  "transport_flags HEADER_1 BROADCAST f = f AND 0x0F"
  by (simp_all add: transport_flags_def or.assoc [symmetric])

lemma transport_flags_unpack:
  "unpack_flags (transport_flags HEADER_2 TRANSPORT f) r
     = (unpack_flags f r)\<lparr>p_header_type := HEADER_2, p_context_flag := FLAG_UNSET, p_transport_type := TRANSPORT\<rparr>"
  "unpack_flags (transport_flags HEADER_1 BROADCAST f) r
     = (unpack_flags f r)\<lparr>p_header_type := HEADER_1, p_context_flag := FLAG_UNSET, p_transport_type := BROADCAST\<rparr>"
  "transport_flags HEADER_2 TRANSPORT f AND 0x0F = f AND 0x0F" "transport_flags HEADER_1 BROADCAST f AND 0x0F = f AND 0x0F"
  unfolding transport_flags_eq
  by (simp_all add: unpack_flags_def header_type_of_def context_flag_of_def transport_type_of_def
      bit.conj_disj_distrib2 and.assoc)

subsection \<open>What sending changes of an interface\<close>

definition queue_ok :: "iface \<Rightarrow> bool" where
  "queue_ok i \<longleftrightarrow> length (if_announce_queue i) \<le> MAX_QUEUED_ANNOUNCES \<and> distinct (map aq_destination (if_announce_queue i))"

definition iface_kept :: "iface \<Rightarrow> iface \<Rightarrow> bool" where
  "iface_kept i j \<longleftrightarrow>
     j = i\<lparr>if_announce_allowed_at := if_announce_allowed_at j, if_announce_queue := if_announce_queue j\<rparr>
     \<and> (if_announce_queue i \<noteq> [] \<longrightarrow> if_announce_queue j \<noteq> []) \<and> (queue_ok i \<longrightarrow> queue_ok j)"

definition ifs_kept :: "interfaces \<Rightarrow> interfaces \<Rightarrow> bool" where
  "ifs_kept ifs ifs' \<longleftrightarrow> if_ids ifs' = if_ids ifs \<and> (\<forall>n. iface_kept (if_of ifs n) (if_of ifs' n))"

lemma iface_kept_refl [simp]: "iface_kept i i" by (simp add: iface_kept_def)

lemma iface_kept_fields:
  assumes "iface_kept i j"
  shows "if_mode j = if_mode i" "if_OUT j = if_OUT i" "if_hash j = if_hash i" "if_ifac_identity j = if_ifac_identity i"
    "if_local_client j = if_local_client i" "if_bitrate j = if_bitrate i" "if_HW_MTU j = if_HW_MTU i"
    "if_AUTOCONFIGURE_MTU j = if_AUTOCONFIGURE_MTU i" "if_FIXED_MTU j = if_FIXED_MTU i"
  using assms unfolding iface_kept_def by (cases i; cases j; simp)+

lemma iface_kept_trans: "iface_kept i j \<Longrightarrow> iface_kept j k \<Longrightarrow> iface_kept i k"
  unfolding iface_kept_def by (cases i; cases j; cases k) simp

lemma ifs_kept_refl [simp]: "ifs_kept ifs ifs" by (simp add: ifs_kept_def)

lemma ifs_kept_trans: "ifs_kept a b \<Longrightarrow> ifs_kept b c \<Longrightarrow> ifs_kept a c"
  unfolding ifs_kept_def using iface_kept_trans by metis

lemma ifs_kept_update: "iface_kept (if_of ifs n) j \<Longrightarrow> ifs_kept ifs (update_iface n (\<lambda>_. j) ifs)"
  by (simp add: ifs_kept_def update_iface_def)

lemma find_interface_kept:
  assumes "ifs_kept ifs ifs'"
  shows "find_interface_from_hash ifs' h = find_interface_from_hash ifs h"
proof -
  have "if_hash (if_of ifs' n) = if_hash (if_of ifs n)" for n
    using assms iface_kept_fields(3) by (auto simp: ifs_kept_def)
  then show ?thesis using assms by (simp add: find_interface_from_hash_def ifs_kept_def)
qed

lemma find_path_kept: "ifs_kept ifs ifs' \<Longrightarrow> find_path lib ops ifs' s h = find_path lib ops ifs s h"
  by (simp add: find_path_def get_entry_def path_decode_def find_interface_kept cong: option.case_cong)

lemma next_hop_interface_kept: "ifs_kept ifs ifs' \<Longrightarrow> next_hop_interface lib ops ifs' s h = next_hop_interface lib ops ifs s h"
  by (simp add: next_hop_interface_def find_path_kept)

lemma queue_update_destinations:
  "queue_update dh new qs = Some qs' \<Longrightarrow> map aq_destination qs' = map aq_destination qs"
  by (induction qs arbitrary: qs') (auto split: if_splits)

lemma queue_update_absent: "queue_update dh new qs = None \<Longrightarrow> dh \<notin> aq_destination ` set qs"
  by (induction qs) (auto split: if_splits)

lemma cap_announce_kept:
  assumes "cap_announce now p i = Inr (b, j)"
  shows "iface_kept i j" and "b \<Longrightarrow> if_announce_queue i = []"
proof -
  show "b \<Longrightarrow> if_announce_queue i = []"
    using assms by (auto simp: cap_announce_def Let_def res_bind_eq_Inr split: if_splits)
  show "iface_kept i j"
  proof (cases "if_announce_queue i = [] \<and> now > if_announce_allowed_at i")
    case True
    then show ?thesis using assms by (auto simp: cap_announce_def res_bind_eq_Inr iface_kept_def queue_ok_def)
  next
    case busy: False
    show ?thesis
    proof (cases "length (if_announce_queue i) < MAX_QUEUED_ANNOUNCES")
      case False
      then show ?thesis using assms busy by (auto simp: cap_announce_def)
    next
      case room: True
      with assms busy obtain em where "announce_emitted p = Inr em" by (auto simp: cap_announce_def res_bind_eq_Inr)
      moreover define new where "new = \<lparr>aq_destination = p_destination_hash p, aq_time = now, aq_hops = p_hops p, aq_emitted = em, aq_raw = p_raw p\<rparr>"
      ultimately have j: "j = i\<lparr>if_announce_queue := (case queue_update (p_destination_hash p) new (if_announce_queue i) of
                  Some q \<Rightarrow> q | None \<Rightarrow> if_announce_queue i @ [new])\<rparr>"
        using assms busy room by (auto simp: cap_announce_def Let_def cong: option.case_cong)
      show ?thesis
      proof (cases "queue_update (p_destination_hash p) new (if_announce_queue i)")
        case None
        then show ?thesis using room queue_update_absent [OF None] by (auto simp: j new_def iface_kept_def queue_ok_def)
      next
        case (Some q)
        have "length q = length (if_announce_queue i)"
          using queue_update_destinations [OF Some] by (metis length_map)
        then show ?thesis using Some queue_update_destinations [OF Some] by (auto simp: j iface_kept_def queue_ok_def)
      qed
    qed
  qed
qed

lemma announce_rule_kept: "announce_rule E now p i t = Inr (b, j) \<Longrightarrow> iface_kept i j"
  by (auto simp: announce_rule_def Let_def cap_announce_kept split: if_splits)

text \<open>When an announce without attached interface may go out on an interface.\<close>

definition may_announce :: "('s, 'k, 'h) tenv \<Rightarrow> packet \<Rightarrow> ('s, 'k, 'h) transport \<Rightarrow> nat \<Rightarrow> bool" where
  "may_announce E p t n \<longleftrightarrow>
     (let mode = if_mode (if_of (t_ifs t) n); local = (tab_find (p_destination_hash p) (t_destinations t) \<noteq> None);
          from = map_option (\<lambda>n. if_mode (if_of (t_ifs t) n))
            (next_hop_interface (te_lib E) (te_paths E) (t_ifs t) (t_paths t) (p_destination_hash p))
      in mode \<noteq> MODE_ACCESS_POINT
         \<and> (mode = MODE_ROAMING \<longrightarrow> local \<or> (from \<noteq> None \<and> from \<notin> {Some MODE_NONE, Some MODE_ROAMING, Some MODE_BOUNDARY}))
         \<and> (mode = MODE_BOUNDARY \<longrightarrow> local \<or> (from \<noteq> None \<and> from \<notin> {Some MODE_NONE, Some MODE_ROAMING}))
         \<and> (mode \<notin> {MODE_ROAMING, MODE_BOUNDARY} \<and> p_hops p > 0 \<longrightarrow> if_announce_queue (if_of (t_ifs t) n) = []))"

lemma announce_rule_may:
  "announce_rule E now p (if_of (t_ifs t) n) t = Inr (True, j) \<Longrightarrow> may_announce E p t n"
  by (auto simp: announce_rule_def may_announce_def Let_def dest: cap_announce_kept(2) split: if_splits)

lemma may_announce_kept:
  assumes "may_announce E p t' n" and "ifs_kept (t_ifs t) (t_ifs t')" and "t_destinations t' = t_destinations t" and "t_paths t' = t_paths t"
  shows "may_announce E p t n"
proof -
  have mode: "if_mode (if_of (t_ifs t') m) = if_mode (if_of (t_ifs t) m)" for m
    using assms(2) iface_kept_fields(1) by (auto simp: ifs_kept_def)
  have queue: "if_announce_queue (if_of (t_ifs t') m) = [] \<Longrightarrow> if_announce_queue (if_of (t_ifs t) m) = []" for m
    using assms(2) by (auto simp: ifs_kept_def iface_kept_def)
  show ?thesis
    using assms(1) queue [of n]
    unfolding may_announce_def Let_def mode next_hop_interface_kept [OF assms(2)] assms(3,4) by blast
qed

lemma transmit_events: "transmit E ifs n raw = (s, evs) \<Longrightarrow> ev \<in> set evs \<Longrightarrow> ev = Transmit n raw"
  by (auto simp: transmit_def split: if_splits)

definition sending_frame :: "('s, 'k, 'h) transport \<Rightarrow> ('s, 'k, 'h) transport \<Rightarrow> bool" where
  "sending_frame t t' \<longleftrightarrow>
     ifs_kept (t_ifs t) (t_ifs t') \<and> t' = t\<lparr>t_ifs := t_ifs t', t_hashlist := t_hashlist t'\<rparr>"

lemma sending_frame_refl [simp]: "sending_frame t t" by (simp add: sending_frame_def)

lemma sending_frame_trans: "sending_frame t u \<Longrightarrow> sending_frame u v \<Longrightarrow> sending_frame t v"
  unfolding sending_frame_def using ifs_kept_trans by (cases t; cases u; cases v) auto

lemma sending_frame_fields:
  assumes "sending_frame t t'"
  shows "t_destinations t' = t_destinations t" "t_paths t' = t_paths t" "ifs_kept (t_ifs t) (t_ifs t')"
  using assms unfolding sending_frame_def by (cases t; cases t'; simp)+

lemma broadcast_spec:
  assumes "broadcast E now g ns stored sent t = Inr (s, t', evs)"
  shows "sending_frame t t'"
    and "ev \<in> set evs \<Longrightarrow> \<exists>n \<in> set ns. ev = Transmit n (p_raw (og_packet g)) \<and> if_OUT (if_of (t_ifs t) n)
      \<and> (og_attached_interface g = None \<or> og_attached_interface g = Some n)
      \<and> (p_packet_type (og_packet g) = ANNOUNCE \<and> og_attached_interface g = None \<longrightarrow> may_announce E (og_packet g) t n)"
proof -
  define P where "P = (\<lambda>t ns ev. \<exists>n \<in> set ns. ev = Transmit n (p_raw (og_packet g)) \<and> if_OUT (if_of (t_ifs t) n)
      \<and> (og_attached_interface g = None \<or> og_attached_interface g = Some n)
      \<and> (p_packet_type (og_packet g) = ANNOUNCE \<and> og_attached_interface g = None \<longrightarrow> may_announce E (og_packet g) t n))"
  have mono: "P t (n # ns) ev" if "sending_frame t u" "P u ns ev" for t u n ns ev
  proof -
    note f = sending_frame_fields [OF that(1)]
    have "if_OUT (if_of (t_ifs u) m) = if_OUT (if_of (t_ifs t) m)" for m
      using f(3) iface_kept_fields(2) by (auto simp: ifs_kept_def)
    with that(2) may_announce_kept [OF _ f(3,1,2)] show ?thesis unfolding P_def by auto
  qed
  have "sending_frame t t' \<and> (\<forall>ev \<in> set evs. P t ns ev)"
    using assms
  proof (induction ns arbitrary: stored sent t evs)
    case (Cons n ns)
    let ?i = "if_of (t_ifs t) n" and ?p = "og_packet g"
    show ?case
    proof (cases "if_OUT ?i")
      case False
      then have "broadcast E now g ns stored sent t = Inr (s, t', evs)" using Cons.prems by simp
      from Cons.IH [OF this] mono [of t t] show ?thesis by auto
    next
      case out: True
      then obtain lk rule i' where lk: "link_allows g n = Inr lk"
        and rl: "(if p_packet_type ?p = ANNOUNCE \<and> og_attached_interface g = None then announce_rule E now ?p ?i t else Inr (True, ?i)) = Inr (rule, i')"
        using Cons.prems by (auto simp: Let_def res_bind_eq_Inr)
      have kept: "iface_kept ?i i'" using rl announce_rule_kept by (auto split: if_splits)
      let ?t1 = "t\<lparr>t_ifs := update_iface n (\<lambda>_. i') (t_ifs t)\<rparr>"
      have f1: "sending_frame t ?t1" using ifs_kept_update [OF kept] by (simp add: sending_frame_def)
      show ?thesis
      proof (cases "lk \<and> (og_attached_interface g = None \<or> og_attached_interface g = Some n) \<and> rule")
        case False
        then have "broadcast E now g ns stored sent ?t1 = Inr (s, t', evs)"
          using Cons.prems out lk rl by (auto simp: Let_def)
        from Cons.IH [OF this] show ?thesis using sending_frame_trans [OF f1] mono [OF f1] by blast
      next
        case go: True
        let ?t2 = "if stored then ?t1 else add_packet_hash E (p_packet_hash ?p) ?t1"
        obtain sent' ev1 where tr: "transmit E (t_ifs ?t2) n (p_raw ?p) = (sent', ev1)" by fastforce
        then obtain ev2 where r: "broadcast E now g ns True sent' ?t2 = Inr (s, t', ev2)" and evs: "evs = ev1 @ ev2"
          using Cons.prems out lk rl go by (auto simp: Let_def res_bind_eq_Inr)
        have f2: "sending_frame t ?t2" using f1 by (simp add: sending_frame_def add_packet_hash_def)
        have "may_announce E ?p t n" if "p_packet_type ?p = ANNOUNCE" "og_attached_interface g = None"
          using rl that go by (auto intro: announce_rule_may)
        then have "P t (n # ns) ev" if "ev \<in> set ev1" for ev
          using transmit_events [OF tr that] out go unfolding P_def by auto
        with Cons.IH [OF r] show ?thesis using sending_frame_trans [OF f2] mono [OF f2] unfolding evs by auto
      qed
    qed
  qed simp
  then show "sending_frame t t'" and "ev \<in> set evs \<Longrightarrow> \<exists>n \<in> set ns. ev = Transmit n (p_raw (og_packet g)) \<and> if_OUT (if_of (t_ifs t) n)
      \<and> (og_attached_interface g = None \<or> og_attached_interface g = Some n)
      \<and> (p_packet_type (og_packet g) = ANNOUNCE \<and> og_attached_interface g = None \<longrightarrow> may_announce E (og_packet g) t n)"
    unfolding P_def by blast+
qed

lemma outbound_cases:
  assumes "outbound E now g t = Some (Inr (sent, r, t', evs))"
  obtains (none) "p_destination (og_packet g) = None" "t' = t" "evs = []"
  | (some) d t1 where "p_destination (og_packet g) = Some d" "\<not> t_jobs_running t"
      "send_somehow E now g d (t\<lparr>t_jobs_locked := True\<rparr>) = Inr (sent, t1, evs)" "t_ifs t' = t_ifs t1"
      "t' = t1\<lparr>t_receipts := t_receipts t1 @ (case r of Some x \<Rightarrow> [x] | None \<Rightarrow> []), t_jobs_locked := False\<rparr>"
proof (cases "p_destination (og_packet g)")
  case None
  then show thesis using none assms by (simp add: outbound_def)
next
  case (Some d)
  with assms have run: "\<not> t_jobs_running t" and body: "outbound_body E now g d t = Inr (sent, r, t', evs)"
    using await_jobs_returns by (auto simp: outbound_def split: option.splits)
  then obtain t1 where "send_somehow E now g d (t\<lparr>t_jobs_locked := True\<rparr>) = Inr (sent, t1, evs)"
    and "t' = t1\<lparr>t_receipts := t_receipts t1 @ (case r of Some x \<Rightarrow> [x] | None \<Rightarrow> []), t_jobs_locked := False\<rparr>"
    by (auto simp: outbound_body_def res_bind_eq_Inr split: if_splits)
  then show thesis using some Some run by simp
qed

lemma send_known_ifs: "send_known E now e n p t = (s, t', evs) \<Longrightarrow> t_ifs t' = t_ifs t"
  by (auto simp: send_known_def Let_def split: prod.splits if_splits)

lemma outbound_kept:
  assumes "outbound E now g t = Some (Inr (sent, r, t', evs))"
  shows "ifs_kept (t_ifs t) (t_ifs t')"
  using assms
proof (cases rule: outbound_cases)
  case (some d t1)
  then show ?thesis
    by (auto simp: send_somehow_def Let_def dest!: send_known_ifs broadcast_spec(1) sending_frame_fields(3)
        split: option.splits if_splits)
qed simp

lemma outbound_announce:
  assumes "outbound E now g t = Some (Inr (sent, r, t', evs))" and "p_packet_type (og_packet g) = ANNOUNCE"
    and "og_attached_interface g = None" and "Transmit n raw \<in> set evs"
  shows "n \<in> set (if_ids (t_ifs t))" "if_OUT (if_of (t_ifs t) n)" "raw = p_raw (og_packet g)" "may_announce E (og_packet g) t n"
proof -
  let ?t = "t\<lparr>t_jobs_locked := True\<rparr>"
  from assms(1,4) obtain t1 where "broadcast E now g (if_ids (t_ifs ?t)) False False ?t = Inr (sent, t1, evs)"
    by (cases rule: outbound_cases) (use assms(2) in \<open>auto simp: send_somehow_def\<close>)
  from broadcast_spec(2) [OF this assms(4)] assms(2,3)
  show "n \<in> set (if_ids (t_ifs t))" "if_OUT (if_of (t_ifs t) n)" "raw = p_raw (og_packet g)" "may_announce E (og_packet g) t n"
    by (auto simp: may_announce_def)
qed

subsection \<open>Sequences of sends\<close>

definition outbound_step ::
  "('s, 'k, 'h) tenv \<Rightarrow> real \<times> outgoing \<Rightarrow> ('s, 'k, 'h) transport \<Rightarrow> ('s, 'k, 'h) transport" where
  "outbound_step E c t = (case outbound E (fst c) (snd c) t of Some (Inr (_, _, t', _)) \<Rightarrow> t' | _ \<Rightarrow> t)"

definition stuck :: "nat \<Rightarrow> iface_mode \<Rightarrow> ('s, 'k, 'h) transport \<Rightarrow> bool" where
  "stuck n m t \<longleftrightarrow> if_announce_queue (if_of (t_ifs t) n) \<noteq> [] \<and> if_mode (if_of (t_ifs t) n) = m"

definition queues_ok :: "('s, 'k, 'h) transport \<Rightarrow> bool" where
  "queues_ok t \<longleftrightarrow> (\<forall>n. queue_ok (if_of (t_ifs t) n))"

lemma outbound_step_kept: "ifs_kept (t_ifs t) (t_ifs (outbound_step E c t))"
  using outbound_kept by (auto simp: outbound_step_def split: option.splits sum.splits)

interpretation stuck_queue: invariant_machine "outbound_step E" "stuck n m" for E n m
proof
  fix t :: "('a, 'b, 'c) transport" and c
  assume "stuck n m t"
  then show "stuck n m (outbound_step E c t)"
    using outbound_step_kept [of t E c] iface_kept_fields(1) unfolding stuck_def ifs_kept_def iface_kept_def by metis
qed

interpretation bounded_queue: invariant_machine "outbound_step E" queues_ok for E
proof
  fix t :: "('a, 'b, 'c) transport" and c
  assume "queues_ok t"
  then show "queues_ok (outbound_step E c t)"
    using outbound_step_kept [of t E c] unfolding queues_ok_def ifs_kept_def iface_kept_def by metis
qed

section \<open>Properties\<close>

text \<open>
  Sending does not return exactly when a packet with a destination is sent while \<open>jobs\<close> is
  running, as from within \<open>jobs\<close>; in every other case it ends with a result or an exception.
\<close>

lemma outbound_returns_iff:
  "outbound E now g t = None \<longleftrightarrow> (\<exists>d. p_destination (og_packet g) = Some d) \<and> t_jobs_running t"
  by (cases "t_jobs_running t") (simp_all add: outbound_def await_jobs_running await_jobs_idle split: option.split)

text \<open>
  Where announces go: an announce without attached interface is transmitted only on registered
  outgoing interfaces, never on an access point, on a roaming or boundary interface only when its
  destination is local or its path comes from an interface of a suitable mode, and on the others, when
  it comes from another node, only while no announce is queued there.
\<close>

lemma announce_broadcast_rules:
  assumes "outbound E now g t = Some (Inr (sent, r, t', evs))" and "p_packet_type (og_packet g) = ANNOUNCE"
    and "og_attached_interface g = None" and "Transmit n raw \<in> set evs"
  shows "raw = p_raw (og_packet g) \<and> n \<in> set (if_ids (t_ifs t)) \<and> if_OUT (if_of (t_ifs t) n)
    \<and> may_announce E (og_packet g) t n"
  using outbound_announce [OF assms] by blast

text \<open>
  The announce queue of an interface holds at most 20 announces, at most one per destination,
  whatever is sent in whatever order.
\<close>

lemma announce_queue_bounded:
  assumes "queues_ok t"
  shows "queues_ok (fold (outbound_step E) gs t)"
  using assms by (rule bounded_queue.run_inv)

text \<open>
  The announce queue is a dead end: once an announce is queued on an interface of one of the
  ordinary modes, no announce of another node is transmitted on that interface any more, after any
  sequence of sends.
\<close>

lemma announce_queue_stuck:
  assumes "if_announce_queue (if_of (t_ifs t) n) \<noteq> []"
    and "if_mode (if_of (t_ifs t) n) \<notin> {MODE_ROAMING, MODE_BOUNDARY}"
    and "p_packet_type (og_packet g) = ANNOUNCE" and "og_attached_interface g = None" and "p_hops (og_packet g) > 0"
    and "outbound E now g (fold (outbound_step E) gs t) = Some (Inr (sent, r, t', evs))"
  shows "Transmit n raw \<notin> set evs"
proof
  assume tr: "Transmit n raw \<in> set evs"
  let ?t = "fold (outbound_step E) gs t"
  have "stuck n (if_mode (if_of (t_ifs t) n)) ?t"
    using assms(1) by (intro stuck_queue.run_inv) (simp add: stuck_def)
  with outbound_announce(4) [OF assms(6,3,4) tr] assms(2,5) show False
    by (simp add: may_announce_def stuck_def Let_def)
qed

section \<open>Witnesses\<close>

text \<open>An announce of another node, and a node with an announce queued on its first interface.\<close>

definition demo_outgoing :: outgoing where
  "demo_outgoing = \<lparr>og_packet = new_object\<lparr>p_packet_type := ANNOUNCE, p_destination := Some demo_dest, p_destination_hash := replicate 16 7,
     p_hops := 1, p_raw := [1, 1], p_data := replicate 148 0\<rparr>, og_attached_interface = None, og_identity = None, og_link = None\<rparr>"

definition demo_queued :: "(bytes \<Rightarrow> stored_path option option, bytes \<Rightarrow> identity_entry option, bytes \<Rightarrow> unit option) transport" where
  "demo_queued = demo_node\<lparr>t_ifs := update_iface 0 (\<lambda>i. i\<lparr>if_announce_queue :=
     [\<lparr>aq_destination = replicate 16 7, aq_time = 0, aq_hops = 1, aq_emitted = 0, aq_raw = []\<rparr>]\<rparr>) demo_ifs\<rparr>"

lemma demo_outgoing_fields:
  "p_packet_type (og_packet demo_outgoing) = ANNOUNCE" "og_attached_interface demo_outgoing = None" "p_hops (og_packet demo_outgoing) > 0"
  by (simp_all add: demo_outgoing_def)

lemma demo_broadcast:
  "\<exists>t'. outbound (demo_env own) 5 demo_outgoing demo_node = Some (Inr (True, None, t', [Transmit 0 [1, 1], Transmit 1 [1, 1]]))"
  "\<exists>t'. outbound (demo_env own) 5 demo_outgoing demo_queued = Some (Inr (True, None, t', [Transmit 1 [1, 1]]))"
  by (simp_all add: outbound_def await_jobs_idle outbound_body_def send_somehow_def demo_outgoing_def demo_node_def demo_queued_def demo_ifs_def demo_iface_def
      link_allows_def announce_rule_def cap_announce_def announce_wait_def demo_dest_def transmit_def demo_env_def add_packet_hash_def
      update_iface_def wants_receipt_def announce_emitted_def emitted_at_def bytes_simps Let_def map_store_def)

end
