(* ===== verification/Inbound.thy ===== *)
theory Inbound
  imports Outbound
begin

text \<open>
  Receiving (\<open>Transport::inbound\<close>, \<open>packet_filter\<close>): the duplicate filter, packets in transport that
  are sent on to the next hop, packets of links that pass through the node, link requests, data and
  proofs for this node.

  Data for a local destination is decrypted here and handed to its packet callback as an event; link
  requests and packets for local links are events with the packet.  The filter callback of the
  application is not set.
\<close>

section \<open>The filter\<close>

definition filter_exempt :: "byte \<Rightarrow> bool" where
  "filter_exempt c \<longleftrightarrow> c \<in> {KEEPALIVE, RESOURCE_REQ, RESOURCE_PRF, RESOURCE, CACHE_REQUEST, CHANNEL}"

definition seen :: "('s, 'k, 'h) tenv \<Rightarrow> ('s, 'k, 'h) transport \<Rightarrow> bytes \<Rightarrow> bool" where
  "seen E t h \<longleftrightarrow> ts_get (te_hashes E) (t_hashlist t) h \<noteq> None"

definition packet_filter :: "('s, 'k, 'h) tenv \<Rightarrow> packet \<Rightarrow> ('s, 'k, 'h) transport \<Rightarrow> bool" where
  "packet_filter E p t =
     (if te_shared_instance E then True
      else if p_transport_id p \<noteq> [] \<and> p_packet_type p \<noteq> ANNOUNCE \<and> p_transport_id p \<noteq> te_identity_hash E then False
      else if filter_exempt (p_context p) then True
      else if p_destination_type p = PLAIN \<or> p_destination_type p = GROUP then
        p_packet_type p \<noteq> ANNOUNCE \<and> \<not> p_hops p > 1
      else if \<not> seen E t (p_packet_hash p) then True
      else p_packet_type p = ANNOUNCE \<and> p_destination_type p = SINGLE)"

text \<open>
  The packet as \<open>inbound\<close> goes on with it: the hop count is an octet and wraps.  An interface to a
  shared instance does not count as a hop.
\<close>

definition wire_packet :: "bytes \<Rightarrow> packet" where
  "wire_packet raw = (packet_from_raw raw)\<lparr>p_packed := True, p_fromPacked := True, p_create_receipt := False\<rparr>"

definition received_packet :: "('s, 'k, 'h) tenv \<Rightarrow> iface \<Rightarrow> bytes \<Rightarrow> packet" where
  "received_packet E i raw =
     (let p = snd (unpack (te_lib E) (wire_packet raw))
      in p\<lparr>p_hops := p_hops p + 1 - (if if_to_shared_instance i then 1 else 0)\<rparr>)"

definition remembered :: "packet \<Rightarrow> ('s, 'k, 'h) transport \<Rightarrow> bool" where
  "remembered p t \<longleftrightarrow>
     tab_find (p_destination_hash p) (t_link_table t) = None \<and> \<not> (p_packet_type p = PROOF \<and> p_context p = LRPROOF)"

section \<open>Packets in transport\<close>

definition relay_raw :: "byte \<Rightarrow> bytes \<Rightarrow> packet \<Rightarrow> bytes" where
  "relay_raw remaining_hops nh p =
     (if remaining_hops > 1 then left (p_raw p) 1 @ [p_hops p] @ nh @ mid_end (p_raw p) 18
      else if remaining_hops = 1 then [transport_flags HEADER_1 BROADCAST (p_flags p)] @ [p_hops p] @ mid_end (p_raw p) 18
      else left (p_raw p) 1 @ [p_hops p] @ mid_end (p_raw p) 2)"

text \<open>Only the hop count is replaced.\<close>

definition with_hops :: "packet \<Rightarrow> bytes" where
  "with_hops p = left (p_raw p) 1 @ [p_hops p] @ mid_end (p_raw p) 2"

text \<open>
  The MTU a link request signals is lowered to what the two interfaces can carry, or removed.
  \<open>None\<close>: the request is dropped.
\<close>

definition clamp_relayed :: "nat \<Rightarrow> iface \<Rightarrow> packet \<Rightarrow> bytes \<Rightarrow> bytes option" where
  "clamp_relayed ph_mtu i p new_raw =
     (let path_mtu = mtu_from_lr_packet p; nh_mtu = if_HW_MTU i; cut = left new_raw (length new_raw - LINK_MTU_SIZE)
      in if path_mtu = 0 then Some new_raw
         else if nh_mtu = 0 \<or> (\<not> if_AUTOCONFIGURE_MTU i \<and> \<not> if_FIXED_MTU i) then Some cut
         else if nh_mtu < path_mtu \<or> (ph_mtu \<noteq> 0 \<and> ph_mtu < path_mtu) then
           (case signalling_bytes (min nh_mtu (if ph_mtu > 0 then ph_mtu else nh_mtu)) (mode_from_lr_packet p) of
              Inl _ \<Rightarrow> None
            | Inr b \<Rightarrow> Some (cut @ b))
         else Some new_raw)"

text \<open>The time a link request is given; an interface without a bitrate makes it infinite (\<open>None\<close>).\<close>

definition extra_link_proof_timeout :: "iface \<Rightarrow> real option" where
  "extra_link_proof_timeout i =
     (if if_bitrate i = 0 then None else Some (1 / real (if_bitrate i) * 8 * real MTU))"

definition proof_timeout :: "real \<Rightarrow> iface \<Rightarrow> byte \<Rightarrow> real option" where
  "proof_timeout now i remaining_hops =
     map_option (\<lambda>x. x + (now + real (ESTABLISHMENT_TIMEOUT_PER_HOP * max 1 (unat remaining_hops)))) (extra_link_proof_timeout i)"

text \<open>The designated next hop sends the packet on.  The first component is false when the packet is dropped.\<close>

definition forward ::
  "('s, 'k, 'h) tenv \<Rightarrow> real \<Rightarrow> nat \<Rightarrow> packet \<Rightarrow> ('s, 'k, 'h) transport \<Rightarrow> (bool \<times> ('s, 'k, 'h) transport \<times> tevent list) result" where
  "forward E now n p t =
     (if p_transport_id p \<noteq> [] \<and> p_packet_type p \<noteq> ANNOUNCE \<and> p_transport_id p = te_identity_hash E then
        (case path_of E t (p_destination_hash p) of
           None \<Rightarrow> Inr (True, t, [])
         | Some e \<Rightarrow>
             (case pe_receiving_interface e of
                None \<Rightarrow> Inl Undefined_behaviour
              | Some out \<Rightarrow>
                  let new_raw = relay_raw (pe_hops e) (pe_received_from e) p
                  in if p_packet_type p = LINKREQUEST then
                       (case clamp_relayed (if_HW_MTU (if_of (t_ifs t) n)) (if_of (t_ifs t) out) p new_raw of
                          None \<Rightarrow> Inr (False, t, [])
                        | Some raw \<Rightarrow>
                            res_bind (link_id_from_lr_packet (te_lib E) p) (\<lambda>lid.
                              Inr (True,
                                t\<lparr>t_link_table := tab_insert lid
                                   \<lparr>le_timestamp = now, le_next_hop = pe_received_from e, le_outbound_interface = Some out,
                                    le_remaining_hops = pe_hops e, le_receiving_interface = Some n, le_hops = p_hops p,
                                    le_destination_hash = p_destination_hash p, le_validated = False,
                                    le_proof_timeout = proof_timeout now (if_of (t_ifs t) n) (pe_hops e)\<rparr> (t_link_table t)\<rparr>,
                                snd (transmit E (t_ifs t) out raw))))
                     else
                       res_bind (getTruncatedHash (te_lib E) p) (\<lambda>th.
                         Inr (True,
                           t\<lparr>t_reverse_table := tab_insert th
                              \<lparr>re_receiving_interface = Some n, re_outbound_interface = Some out, re_timestamp = now,
                               re_next_hop = pe_received_from e\<rparr> (t_reverse_table t)\<rparr>,
                           snd (transmit E (t_ifs t) out new_raw)))))
      else Inr (True, t, []))"

text \<open>The interface a packet of a link goes out on, by the one it came in on and its hop count.\<close>

definition link_direction :: "nat \<Rightarrow> packet \<Rightarrow> link_entry \<Rightarrow> nat option" where
  "link_direction n p l =
     (if le_outbound_interface l = le_receiving_interface l then
        (if p_hops p = le_remaining_hops l \<or> p_hops p = le_hops l then le_outbound_interface l else None)
      else if le_outbound_interface l = Some n then
        (if p_hops p = le_remaining_hops l then le_receiving_interface l else None)
      else if le_receiving_interface l = Some n then
        (if p_hops p = le_hops l then le_outbound_interface l else None)
      else None)"

definition link_transport ::
  "('s, 'k, 'h) tenv \<Rightarrow> real \<Rightarrow> nat \<Rightarrow> packet \<Rightarrow> ('s, 'k, 'h) transport \<Rightarrow> ('s, 'k, 'h) transport \<times> tevent list" where
  "link_transport E now n p t =
     (if p_packet_type p \<noteq> ANNOUNCE \<and> p_packet_type p \<noteq> LINKREQUEST \<and> p_context p \<noteq> LRPROOF then
        (case tab_find (p_destination_hash p) (t_link_table t) of
           None \<Rightarrow> (t, [])
         | Some l \<Rightarrow>
             (case link_direction n p l of
                None \<Rightarrow> (t, [])
              | Some out \<Rightarrow>
                  (add_packet_hash E (p_packet_hash p)
                     (t\<lparr>t_link_table := tab_assign (p_destination_hash p) (l\<lparr>le_timestamp := now\<rparr>) (t_link_table t)\<rparr>),
                   snd (transmit E (t_ifs t) out (with_hops p)))))
      else (t, []))"

section \<open>Packets for this node\<close>

text \<open>The signalled MTU of a link request to a local destination; \<open>None\<close>: the request is dropped.\<close>

definition clamp_local :: "iface \<Rightarrow> packet \<Rightarrow> packet option" where
  "clamp_local i p =
     (let path_mtu = mtu_from_lr_packet p; dat = p_data p; cut = left dat (length dat - LINK_MTU_SIZE);
          nh_mtu = (if if_AUTOCONFIGURE_MTU i \<or> if_FIXED_MTU i then if_HW_MTU i else MTU)
      in if path_mtu > 0 \<and> if_HW_MTU i = 0 then
           Some (if length dat \<ge> LINK_MTU_SIZE then p\<lparr>p_data := cut\<rparr> else p)
         else if path_mtu > 0 \<and> nh_mtu < path_mtu then
           (case signalling_bytes nh_mtu (mode_from_lr_packet p) of
              Inl _ \<Rightarrow> None
            | Inr b \<Rightarrow> Some (if length dat \<ge> LINK_MTU_SIZE then p\<lparr>p_data := cut @ b\<rparr> else p))
         else Some p)"

definition local_link_request ::
  "('s, 'k, 'h) tenv \<Rightarrow> nat \<Rightarrow> packet \<Rightarrow> ('s, 'k, 'h) transport \<Rightarrow> tevent list" where
  "local_link_request E n p t =
     (if p_transport_id p = [] \<or> p_transport_id p = te_identity_hash E then
        (case tab_find (p_destination_hash p) (t_destinations t) of
           None \<Rightarrow> []
         | Some d \<Rightarrow>
             if d_type d = p_destination_type p then
               (case clamp_local (if_of (t_ifs t) n) p of None \<Rightarrow> [] | Some q \<Rightarrow> [Link_request (p_destination_hash p) q])
             else [])
      else [])"

definition link_data ::
  "('s, 'k, 'h) tenv \<Rightarrow> nat \<Rightarrow> packet \<Rightarrow> ('s, 'k, 'h) transport \<Rightarrow> ('s, 'k, 'h) transport \<times> tevent list" where
  "link_data E n p t =
     (case find (\<lambda>l. l_link_id l = p_destination_hash p) (t_active_links t) of
        None \<Rightarrow> (t, [])
      | Some l \<Rightarrow>
          if l_attached_interface l = Some n then (t, [Link_receive (l_link_id l) p])
          else (t\<lparr>t_hashlist := snd (ts_remove (te_hashes E) (t_hashlist t) (p_packet_hash p))\<rparr>, []))"

text \<open>\<open>Packet::prove\<close> for a packet with a destination.\<close>

definition prove_local :: "('s, 'k, 'h) tenv \<Rightarrow> packet \<Rightarrow> bytes destination \<Rightarrow> tevent list result" where
  "prove_local E p d =
     (case d_identity d of
        None \<Rightarrow> Inr []
      | Some i \<Rightarrow>
          if i_prv i = None then Inr []
          else res_bind (identity_prove (te_lib E) (te_implicit_proof E) i p None) (\<lambda>q. Inr [Send q None]))"

definition local_data ::
  "('s, 'k, 'h) tenv \<Rightarrow> packet \<Rightarrow> ('s, 'k, 'h) transport \<Rightarrow> (('s, 'k, 'h) transport \<times> tevent list) result" where
  "local_data E p t =
     (case tab_find (p_destination_hash p) (t_destinations t) of
        None \<Rightarrow> Inr (t, [])
      | Some d \<Rightarrow>
          if d_type d \<noteq> p_destination_type p then Inr (t, [])
          else
            res_bind (receive (te_lib E) (\<lambda>_ _ _. None) p d) (\<lambda>(d', plaintext).
            res_bind
              (if d_proof_strategy d = PROVE_ALL
                  \<or> (d_proof_strategy d = PROVE_APP \<and> te_proof_requested E (p_destination_hash p) p)
               then prove_local E p d else Inr [])
              (\<lambda>proofs. Inr (t, (case plaintext of Some x \<Rightarrow> [Packet_callback (p_destination_hash p) x] | None \<Rightarrow> []) @ proofs))))"

text \<open>A link proof that passes through: it is sent on only with a valid signature of the destination.\<close>

definition proof_signalling :: "packet \<Rightarrow> bytes result" where
  "proof_signalling p =
     (if length (p_data p) = SIGLENGTH div 8 + ECPUBSIZE div 2 + LINK_MTU_SIZE
      then signalling_bytes (mtu_from_lp_packet p) (mode_from_lp_packet p) else Inr [])"

text \<open>What the destination of a link signs: the link id, its key for the link, its signing key and the signalled MTU.\<close>

definition link_proof_signed :: "packet \<Rightarrow> identity \<Rightarrow> bytes \<Rightarrow> bytes" where
  "link_proof_signed p i sb =
     p_destination_hash p @ mid (p_data p) (SIGLENGTH div 8) (ECPUBSIZE div 2)
       @ mid (get_public_key i) (ECPUBSIZE div 2) (ECPUBSIZE div 2) @ sb"

definition transport_link_proof ::
  "('s, 'k, 'h) tenv \<Rightarrow> real \<Rightarrow> packet \<Rightarrow> link_entry \<Rightarrow> ('s, 'k, 'h) transport \<Rightarrow> (('s, 'k, 'h) transport \<times> tevent list) result" where
  "transport_link_proof E now p l t =
     (if length (p_data p) = SIGLENGTH div 8 + ECPUBSIZE div 2
         \<or> length (p_data p) = SIGLENGTH div 8 + ECPUBSIZE div 2 + LINK_MTU_SIZE then
        (case proof_signalling p of
           Inl e \<Rightarrow> try_catch (Inl e) (\<lambda>_. Inr (t, []))
         | Inr sb \<Rightarrow>
             (case recall_identity E now (le_destination_hash l) t of
                Inl e \<Rightarrow> try_catch (Inl e) (\<lambda>_. Inr (t, []))
              | Inr (None, t1) \<Rightarrow> Inr (t1, [])
              | Inr (Some i, t1) \<Rightarrow>
                  try_catch
                    (res_bind (identity_validate (te_lib E) i (left (p_data p) (SIGLENGTH div 8)) (link_proof_signed p i sb)) (\<lambda>ok.
                       if ok then
                         (case le_receiving_interface l of
                            None \<Rightarrow> Inl Undefined_behaviour
                          | Some out \<Rightarrow>
                              Inr (t1\<lparr>t_link_table := tab_assign (p_destination_hash p) (l\<lparr>le_validated := True\<rparr>) (t_link_table t1)\<rparr>,
                                   snd (transmit E (t_ifs t1) out (with_hops p))))
                       else Inr (t1, [])))
                    (\<lambda>_. Inr (t1, []))))
      else Inr (t, []))"

definition link_proof ::
  "('s, 'k, 'h) tenv \<Rightarrow> real \<Rightarrow> nat \<Rightarrow> packet \<Rightarrow> ('s, 'k, 'h) transport \<Rightarrow> (('s, 'k, 'h) transport \<times> tevent list) result" where
  "link_proof E now n p t =
     (case (if te_transport_enabled E then tab_find (p_destination_hash p) (t_link_table t) else None) of
        Some l \<Rightarrow>
          if le_outbound_interface l = Some n then transport_link_proof E now p l t else Inr (t, [])
      | None \<Rightarrow>
          Inr (t, map (\<lambda>l. Link_proof (l_link_id l) p) (filter (\<lambda>l. l_link_id l = p_destination_hash p) (t_pending_links t))))"

text \<open>A regular proof: sent back the way its packet came, and matched with the receipts.\<close>

definition regular_proof ::
  "('s, 'k, 'h) tenv \<Rightarrow> real \<Rightarrow> nat \<Rightarrow> packet \<Rightarrow> ('s, 'k, 'h) transport \<Rightarrow> (('s, 'k, 'h) transport \<times> tevent list) result" where
  "regular_proof E now n p t =
     (let on_link = (p_destination_type p = LINK \<and> (\<exists>l \<in> set (t_active_links t). l_link_id l = p_destination_hash p))
      in res_bind
           (case (if te_transport_enabled E then tab_find (p_destination_hash p) (t_reverse_table t) else None) of
              Some r \<Rightarrow>
                if re_outbound_interface r = Some n then
                  (case re_receiving_interface r of
                     None \<Rightarrow> Inl Undefined_behaviour
                   | Some out \<Rightarrow>
                       Inr (t\<lparr>t_neighbor_stats := record_neighbor_proof now (re_next_hop r) (t_neighbor_stats t)\<rparr>,
                            snd (transmit E (t_ifs t) out (with_hops p))))
                else Inr (t, [])
            | None \<Rightarrow> Inr (t, []))
           (\<lambda>(t1, evs).
              res_bind (prove_receipts (te_lib E) now on_link p (t_receipts t1)) (\<lambda>(concluded, kept).
                Inr (t1\<lparr>t_receipts := kept\<rparr>, evs @ map Receipt_concluded concluded))))"

definition local_handling ::
  "('s, 'k, 'h) tenv \<Rightarrow> real \<Rightarrow> real \<Rightarrow> nat \<Rightarrow> packet \<Rightarrow> ('s, 'k, 'h) transport \<Rightarrow> (('s, 'k, 'h) transport \<times> tevent list) result" where
  "local_handling E now rnd n p t =
     (case p_packet_type p of
        ANNOUNCE \<Rightarrow> inbound_announce E now rnd (Some n) p t
      | LINKREQUEST \<Rightarrow> Inr (t, local_link_request E n p t)
      | DATA \<Rightarrow> if p_destination_type p = LINK then Inr (link_data E n p t) else local_data E p t
      | PROOF \<Rightarrow>
          if p_context p = LRPROOF then link_proof E now n p t
          else if p_context p = RESOURCE_PRF then
            Inr (t, map (\<lambda>l. Link_receive (l_link_id l) p) (filter (\<lambda>l. l_link_id l = p_destination_hash p) (t_active_links t)))
          else regular_proof E now n p t)"

section \<open>Inbound\<close>

text \<open>What is done with an accepted packet; the first component is false when \<open>inbound\<close> returns early.\<close>

definition transport_handling ::
  "('s, 'k, 'h) tenv \<Rightarrow> real \<Rightarrow> nat \<Rightarrow> packet \<Rightarrow> ('s, 'k, 'h) transport \<Rightarrow>
     (bool \<times> packet \<times> ('s, 'k, 'h) transport \<times> tevent list) result" where
  "transport_handling E now n p t =
     (let for_local_client = (p_packet_type p \<noteq> ANNOUNCE \<and>
            (case path_of E t (p_destination_hash p) of Some e \<Rightarrow> pe_hops e = 0 | None \<Rightarrow> False))
      in if te_transport_enabled E \<or> for_local_client then
           let q = (if p_transport_id p = [] \<and> for_local_client then p\<lparr>p_transport_id := te_identity_hash E\<rparr> else p)
           in (case (if p_context q = CACHE_REQUEST \<and> length (p_data q) = 256 div 8 then te_cached_packet E (p_data q) else None) of
                 Some raw \<Rightarrow> Inr (False, q, t, [Replay raw])
               | None \<Rightarrow>
                   res_bind (forward E now n q t) (\<lambda>(continues, t1, evs).
                     if \<not> continues then Inr (False, q, t1, evs)
                     else let (t2, evs') = link_transport E now n q t1 in Inr (True, q, t2, evs @ evs')))
         else Inr (True, p, t, []))"

definition inbound_body ::
  "('s, 'k, 'h) tenv \<Rightarrow> real \<Rightarrow> real \<Rightarrow> nat option \<Rightarrow> bytes \<Rightarrow> ('s, 'k, 'h) transport \<Rightarrow>
     (('s, 'k, 'h) transport \<times> tevent list) result" where
  "inbound_body E now rnd interface raw t =
     (let t0 = t\<lparr>t_jobs_locked := True\<rparr> in
      if \<not> fst (unpack (te_lib E) (wire_packet raw)) then Inr (t0, [])
      else
        (case interface of
           None \<Rightarrow> Inl Undefined_behaviour
         | Some n \<Rightarrow>
             let p = received_packet E (if_of (t_ifs t) n) raw
             in if \<not> packet_filter E p t0 then Inr (t0\<lparr>t_jobs_locked := False\<rparr>, [])
                else
                  let t1 = (if remembered p t0 then add_packet_hash E (p_packet_hash p) t0 else t0)
                  in res_bind (transport_handling E now n p t1) (\<lambda>(continues, q, t2, evs).
                       if \<not> continues then Inr (t2, evs)
                       else
                         res_bind (local_handling E now rnd n q t2) (\<lambda>(t3, evs').
                           Inr (t3\<lparr>t_jobs_locked := False\<rparr>, evs @ evs')))))"

definition inbound ::
  "('s, 'k, 'h) tenv \<Rightarrow> real \<Rightarrow> real \<Rightarrow> nat option \<Rightarrow> bytes \<Rightarrow> ('s, 'k, 'h) transport \<Rightarrow>
     (('s, 'k, 'h) transport \<times> tevent list) result option" where
  "inbound E now rnd interface raw t =
     (case await_jobs (t_jobs_running t) of None \<Rightarrow> None | Some _ \<Rightarrow> Some (inbound_body E now rnd interface raw t))"

section \<open>Lemmas\<close>

subsection \<open>The packet read off the wire\<close>

text \<open>The two forms of a packet on the wire, with one and with two addresses.\<close>

definition wire_1 :: "byte \<Rightarrow> byte \<Rightarrow> bytes \<Rightarrow> byte \<Rightarrow> bytes \<Rightarrow> bytes" where
  "wire_1 f h dest c dat = [f, h] @ dest @ [c] @ dat"

definition wire_2 :: "byte \<Rightarrow> byte \<Rightarrow> bytes \<Rightarrow> bytes \<Rightarrow> byte \<Rightarrow> bytes \<Rightarrow> bytes" where
  "wire_2 f h tid dest c dat = [f, h] @ tid @ dest @ [c] @ dat"

lemma unpack_wire_2:
  assumes "length tid = 16" and "length dest = 16" and "header_type_of (drop_bit 6 (f AND 0x40)) = HEADER_2"
    and "p_raw p = wire_2 f h tid dest c dat"
  shows "unpack lib p = (True, (unpack_flags f (p\<lparr>p_flags := f, p_hops := h\<rparr>))
            \<lparr>p_transport_id := tid, p_destination_hash := dest, p_context := c, p_data := dat,
             p_encrypted := False, p_packed := False, p_packet_hash := full_hash lib ((f AND 0x0F) # dest @ [c] @ dat)\<rparr>)"
proof -
  have raw: "p_raw p = [f, h] @ (tid @ dest) @ [c] @ dat" using assms(4) by (simp add: wire_2_def)
  have "p_header_type (unpack_flags f p) = HEADER_2" using assms(3) by (simp add: unpack_flags_def)
  from unpack_header_2 [OF _ _ raw this, of lib] assms(1,2) show ?thesis by (simp add: wire_sizes Let_def)
qed

lemma unpack_wire_1:
  assumes "length dest = 16" and "header_type_of (drop_bit 6 (f AND 0x40)) = HEADER_1"
    and "p_raw p = wire_1 f h dest c dat"
  shows "unpack lib p = (True, (unpack_flags f (p\<lparr>p_flags := f, p_hops := h\<rparr>))
            \<lparr>p_transport_id := [], p_destination_hash := dest, p_context := c, p_data := dat,
             p_encrypted := False, p_packed := False, p_packet_hash := full_hash lib ((f AND 0x0F) # dest @ [c] @ dat)\<rparr>)"
proof -
  have raw: "p_raw p = [f, h] @ dest @ [c] @ dat" using assms(3) by (simp add: wire_1_def)
  have "p_header_type (unpack_flags f p) = HEADER_1" using assms(2) by (simp add: unpack_flags_def)
  from unpack_header_1 [OF _ raw this, of lib] assms(1) show ?thesis by (simp add: wire_sizes Let_def)
qed

lemma unpack_flags_frame [simp]:
  "p_raw (unpack_flags f p) = p_raw p" "p_flags (unpack_flags f p) = p_flags p" "p_hops (unpack_flags f p) = p_hops p"
  "p_fromPacked (unpack_flags f p) = p_fromPacked p" "p_destination (unpack_flags f p) = p_destination p"
  by (simp_all add: unpack_flags_def)

lemma wire_packet_raw [simp]: "p_raw (wire_packet raw) = raw" "p_fromPacked (wire_packet raw)"
  by (simp_all add: wire_packet_def packet_from_raw_def)

text \<open>A packet in transport: what the receiving node reads, and what its successor gets.\<close>

lemma received_wire_2:
  fixes E :: "('s, 'k, 'h) tenv" and h c :: byte and dat :: bytes
  assumes "length tid = 16" and "length dest = 16" and "header_type_of (drop_bit 6 (f AND 0x40)) = HEADER_2"
    and "\<not> if_to_shared_instance i"
  defines "p \<equiv> received_packet E i (wire_2 f h tid dest c dat)"
  shows "fst (unpack (te_lib E) (wire_packet (wire_2 f h tid dest c dat)))"
    and "p_raw p = wire_2 f h tid dest c dat" "p_flags p = f" "p_hops p = h + 1" "p_transport_id p = tid" "p_destination_hash p = dest"
      "p_context p = c" "p_data p = dat" "p_packet_hash p = full_hash (te_lib E) ((f AND 0x0F) # dest @ [c] @ dat)"
      "p_header_type p = HEADER_2" "p_packet_type p = packet_type_of (f AND 0x03)"
      "p_destination_type p = dest_type_of (drop_bit 2 (f AND 0x0C))" "p_fromPacked p"
  using unpack_wire_2 [OF assms(1-3), of "wire_packet (wire_2 f h tid dest c dat)" h c dat "te_lib E"] assms(3,4)
  by (simp_all add: p_def received_packet_def Let_def unpack_flags_def)

lemma received_wire_1:
  fixes E :: "('s, 'k, 'h) tenv" and h c :: byte and dat :: bytes
  assumes "length dest = 16" and "header_type_of (drop_bit 6 (f AND 0x40)) = HEADER_1" and "\<not> if_to_shared_instance i"
  defines "p \<equiv> received_packet E i (wire_1 f h dest c dat)"
  shows "fst (unpack (te_lib E) (wire_packet (wire_1 f h dest c dat)))"
    and "p_raw p = wire_1 f h dest c dat" "p_flags p = f" "p_hops p = h + 1" "p_transport_id p = []" "p_destination_hash p = dest"
      "p_context p = c" "p_data p = dat" "p_packet_hash p = full_hash (te_lib E) ((f AND 0x0F) # dest @ [c] @ dat)"
      "p_header_type p = HEADER_1" "p_packet_type p = packet_type_of (f AND 0x03)"
      "p_destination_type p = dest_type_of (drop_bit 2 (f AND 0x0C))" "p_fromPacked p"
  using unpack_wire_1 [OF assms(1-2), of "wire_packet (wire_1 f h dest c dat)" h c dat "te_lib E"] assms(2,3)
  by (simp_all add: p_def received_packet_def Let_def unpack_flags_def)

lemma relay_raw_wire_2:
  assumes "length tid = 16" and "p_raw p = wire_2 f h tid dest c dat" and "p_flags p = f" and "p_hops p = h + 1"
  shows "r > 1 \<Longrightarrow> relay_raw r nh p = wire_2 f (h + 1) nh dest c dat"
    and "relay_raw 1 nh p = wire_1 (transport_flags HEADER_1 BROADCAST f) (h + 1) dest c dat"
  using assms by (simp_all add: relay_raw_def wire_1_def wire_2_def bytes_simps)

lemma path_of_kept [simp]:
  "path_of E (t\<lparr>t_hashlist := x\<rparr>) h = path_of E t h" "path_of E (t\<lparr>t_jobs_locked := b\<rparr>) h = path_of E t h"
  "path_of E (add_packet_hash E ph t) h = path_of E t h"
  by (simp_all add: path_of_def add_packet_hash_def)

lemma add_packet_hash_fields [simp]:
  "t_ifs (add_packet_hash E x t) = t_ifs t" "t_link_table (add_packet_hash E x t) = t_link_table t"
  "t_reverse_table (add_packet_hash E x t) = t_reverse_table t" "t_destinations (add_packet_hash E x t) = t_destinations t"
  by (simp_all add: add_packet_hash_def)

subsection \<open>A packet in transport, hop by hop\<close>

text \<open>A transport node for which the destination is neither local nor a link that passes through.\<close>

definition relay_ready :: "('s, 'k, 'h) tenv \<Rightarrow> ('s, 'k, 'h) transport \<Rightarrow> nat \<Rightarrow> bytes \<Rightarrow> bool" where
  "relay_ready E t n dest \<longleftrightarrow>
     te_transport_enabled E \<and> \<not> te_shared_instance E \<and> length (te_identity_hash E) = 16 \<and> \<not> t_jobs_running t
     \<and> \<not> if_to_shared_instance (if_of (t_ifs t) n) \<and> tab_find dest (t_link_table t) = None \<and> tab_find dest (t_destinations t) = None"

text \<open>The path leads over \<open>out\<close>, with at least one hop to go.\<close>

definition routes_over :: "('s, 'k, 'h) tenv \<Rightarrow> ('s, 'k, 'h) transport \<Rightarrow> bytes \<Rightarrow> path_entry \<Rightarrow> nat \<Rightarrow> bool" where
  "routes_over E t dest e out \<longleftrightarrow>
     path_of E t dest = Some e \<and> pe_receiving_interface e = Some out \<and> pe_hops e > 0 \<and> if_ifac_identity (if_of (t_ifs t) out) = []"

definition data_flags :: "byte \<Rightarrow> bool" where
  "data_flags f \<longleftrightarrow> packet_type_of (f AND 0x03) = DATA \<and> dest_type_of (drop_bit 2 (f AND 0x0C)) = SINGLE"

definition relayed_wire :: "path_entry \<Rightarrow> byte \<Rightarrow> byte \<Rightarrow> bytes \<Rightarrow> byte \<Rightarrow> bytes \<Rightarrow> bytes" where
  "relayed_wire e f h dest c dat =
     (if pe_hops e = 1 then wire_1 (transport_flags HEADER_1 BROADCAST f) (h + 1) dest c dat
      else wire_2 f (h + 1) (pe_received_from e) dest c dat)"

lemma relay_step:
  fixes E :: "('s, 'k, 'h) tenv"
  assumes "relay_ready E t n dest" and "routes_over E t dest e out" and "length dest = 16"
    and "header_type_of (drop_bit 6 (f AND 0x40)) = HEADER_2" and "data_flags f" and "c \<noteq> CACHE_REQUEST"
    and new: "\<not> seen E t (full_hash (te_lib E) ((f AND 0x0F) # dest @ [c] @ dat))"
  shows "inbound E now rnd (Some n) (wire_2 f h (te_identity_hash E) dest c dat) t
    = Some (Inr (t\<lparr>t_hashlist := snd (ts_put (te_hashes E) (t_hashlist t) (full_hash (te_lib E) ((f AND 0x0F) # dest @ [c] @ dat)) () 0),
                  t_reverse_table := tab_insert (truncated_hash (te_lib E) ((f AND 0x0F) # dest @ [c] @ dat))
                     \<lparr>re_receiving_interface = Some n, re_outbound_interface = Some out, re_timestamp = now,
                      re_next_hop = pe_received_from e\<rparr> (t_reverse_table t), t_jobs_locked := False\<rparr>,
                 [Transmit out (relayed_wire e f h dest c dat)]))"
proof -
  define raw where "raw = wire_2 f h (te_identity_hash E) dest c dat"
  define p where "p = received_packet E (if_of (t_ifs t) n) raw"
  from assms(1) have E: "te_transport_enabled E" "\<not> te_shared_instance E" and tid: "length (te_identity_hash E) = 16"
    and run: "\<not> t_jobs_running t" and si: "\<not> if_to_shared_instance (if_of (t_ifs t) n)"
    and lt: "tab_find dest (t_link_table t) = None" and ds: "tab_find dest (t_destinations t) = None"
    by (auto simp: relay_ready_def)
  from assms(2) have e: "path_of E t dest = Some e" and out: "pe_receiving_interface e = Some out" and hp: "pe_hops e \<noteq> 0"
    and ifac: "if_ifac_identity (if_of (t_ifs t) out) = []"
    by (auto simp: routes_over_def)
  note p = received_wire_2 [OF tid assms(3,4) si, of E h c dat, folded raw_def, folded p_def]
  have pt: "p_packet_type p = DATA" "p_destination_type p = SINGLE" using p(11,12) assms(5) by (simp_all add: data_flags_def)
  have acc: "packet_filter E p (t\<lparr>t_jobs_locked := True\<rparr>)" using new E p pt by (simp add: packet_filter_def seen_def)
  have nid: "te_identity_hash E \<noteq> []" using tid by auto
  have raw': "relay_raw (pe_hops e) (pe_received_from e) p = relayed_wire e f h dest c dat"
  proof (cases "pe_hops e = 1")
    case False
    with hp have "pe_hops e > 1" by (simp add: word_less_nat_alt word_unat_eq_iff)
    with False show ?thesis using relay_raw_wire_2(1) [OF tid p(2) [unfolded raw_def] p(3,4)] by (simp add: relayed_wire_def)
  qed (use relay_raw_wire_2(2) [OF tid p(2) [unfolded raw_def] p(3,4)] in \<open>simp add: relayed_wire_def\<close>)
  have th: "getTruncatedHash (te_lib E) p = Inr (truncated_hash (te_lib E) ((f AND 0x0F) # dest @ [c] @ dat))"
    using p tid by (simp add: getTruncatedHash_def get_hashable_part_def raw_def wire_2_def bytes_simps)
  define t1 where "t1 = add_packet_hash E (p_packet_hash p) (t\<lparr>t_jobs_locked := True\<rparr>)"
  define t2 where "t2 = t1\<lparr>t_reverse_table := tab_insert (truncated_hash (te_lib E) ((f AND 0x0F) # dest @ [c] @ dat))
      \<lparr>re_receiving_interface = Some n, re_outbound_interface = Some out, re_timestamp = now,
       re_next_hop = pe_received_from e\<rparr> (t_reverse_table t1)\<rparr>"
  have t1: "path_of E t1 dest = Some e" "tab_find dest (t_link_table t1) = None" "tab_find dest (t_destinations t1) = None" "t_ifs t1 = t_ifs t"
    using e lt ds by (simp_all add: t1_def)
  have "forward E now n p t1 = Inr (True, t2, [Transmit out (relayed_wire e f h dest c dat)])"
    using p(5,6) pt t1 out ifac nid raw' th by (simp add: forward_def t2_def transmit_def)
  moreover have "link_transport E now n p t2 = (t2, [])"
    using p(6) t1 by (simp add: link_transport_def t2_def)
  ultimately have tr: "transport_handling E now n p t1 = Inr (True, p, t2, [Transmit out (relayed_wire e f h dest c dat)])"
    using E p(5-7) pt assms(6) t1 nid by (simp add: transport_handling_def)
  have loc: "local_handling E now rnd n p t2 = Inr (t2, [])"
    using p(6) pt t1 by (simp add: local_handling_def local_data_def t2_def)
  have "remembered p (t\<lparr>t_jobs_locked := True\<rparr>)" using p(6) pt lt by (simp add: remembered_def)
  with acc p(1) tr loc show ?thesis
    by (simp add: inbound_def run await_jobs_idle inbound_body_def Let_def raw_def [symmetric] p_def [symmetric] t1_def [symmetric])
      (simp add: t2_def t1_def p(9) add_packet_hash_def)
qed

text \<open>
  A packet handed from node to node, each with the interface it receives on: each sends it on with one
  transmission, and the next receives that.  The nodes afterwards are given with the interface they sent on.
\<close>

fun relay_along ::
  "real \<Rightarrow> real \<Rightarrow> (('s, 'k, 'h) tenv \<times> ('s, 'k, 'h) transport \<times> nat) list \<Rightarrow> bytes \<Rightarrow>
     (bytes \<times> (('s, 'k, 'h) tenv \<times> ('s, 'k, 'h) transport \<times> nat) list) option" where
  "relay_along now rnd [] raw = Some (raw, [])"
| "relay_along now rnd ((E, t, n) # nodes) raw =
     (case inbound E now rnd (Some n) raw t of
        Some (Inr (t', [Transmit out raw'])) \<Rightarrow> map_option (\<lambda>(r, vs). (r, (E, t', out) # vs)) (relay_along now rnd nodes raw')
      | _ \<Rightarrow> None)"

lemma relay_along_append:
  assumes "relay_along now rnd xs raw = Some (r, vs)" and "relay_along now rnd ys r = Some (r', vs')"
  shows "relay_along now rnd (xs @ ys) raw = Some (r', vs @ vs')"
  using assms
proof (induction xs arbitrary: raw vs)
  case (Cons m xs)
  obtain E t n where m: "m = (E, t, n)" by (cases m)
  from Cons.prems(1) m obtain t' out raw' ws where i: "inbound E now rnd (Some n) raw t = Some (Inr (t', [Transmit out raw']))"
      and w: "relay_along now rnd xs raw' = Some (r, ws)" "vs = (E, t', out) # ws"
    by (auto split: option.splits sum.splits prod.splits list.splits tevent.splits)
  from Cons.IH [OF w(1) Cons.prems(2)] m i w(2) show ?case by simp
qed simp

text \<open>Each node is ready, has not seen the packet and has a path over the next one; the last is a neighbour of the destination.\<close>

fun route_ok :: "crypto_lib \<Rightarrow> bytes \<Rightarrow> bytes \<Rightarrow> (('s, 'k, 'h) tenv \<times> ('s, 'k, 'h) transport \<times> nat) list \<Rightarrow> bool" where
  "route_ok lib ph dest [] \<longleftrightarrow> True"
| "route_ok lib ph dest ((E, t, n) # nodes) \<longleftrightarrow>
     te_lib E = lib \<and> relay_ready E t n dest \<and> \<not> seen E t ph
     \<and> (case path_of E t dest of
          None \<Rightarrow> False
        | Some e \<Rightarrow>
            (case pe_receiving_interface e of None \<Rightarrow> False | Some out \<Rightarrow> routes_over E t dest e out)
            \<and> (case nodes of
                 [] \<Rightarrow> pe_hops e = 1
               | (E', t', n') # _ \<Rightarrow> pe_hops e > 1 \<and> pe_received_from e = te_identity_hash E'))
     \<and> route_ok lib ph dest nodes"

definition after_relay :: "real \<Rightarrow> crypto_lib \<Rightarrow> bytes \<Rightarrow> bytes \<Rightarrow>
    ('s, 'k, 'h) tenv \<times> ('s, 'k, 'h) transport \<times> nat \<Rightarrow> ('s, 'k, 'h) tenv \<times> ('s, 'k, 'h) transport \<times> nat" where
  "after_relay now lib part dest = (\<lambda>(E, t, n).
     let e = the (path_of E t dest); out = the (pe_receiving_interface e)
     in (E, t\<lparr>t_hashlist := snd (ts_put (te_hashes E) (t_hashlist t) (full_hash lib part) () 0),
              t_reverse_table := tab_insert (truncated_hash lib part)
                 \<lparr>re_receiving_interface = Some n, re_outbound_interface = Some out, re_timestamp = now,
                  re_next_hop = pe_received_from e\<rparr> (t_reverse_table t), t_jobs_locked := False\<rparr>, out))"

lemma relay_along_wire:
  assumes "length dest = 16" and "header_type_of (drop_bit 6 (f AND 0x40)) = HEADER_2" and "data_flags f" and "c \<noteq> CACHE_REQUEST"
    and "route_ok lib (full_hash lib ((f AND 0x0F) # dest @ [c] @ dat)) dest ((E, t, n) # nodes)"
  shows "relay_along now rnd ((E, t, n) # nodes) (wire_2 f h (te_identity_hash E) dest c dat)
    = Some (wire_1 (transport_flags HEADER_1 BROADCAST f) (h + 1 + of_nat (length nodes)) dest c dat,
            map (after_relay now lib ((f AND 0x0F) # dest @ [c] @ dat) dest) ((E, t, n) # nodes))"
  using assms(5)
proof (induction nodes arbitrary: E t n h)
  case Nil
  then obtain e out where e: "te_lib E = lib" "relay_ready E t n dest" "\<not> seen E t (full_hash lib ((f AND 0x0F) # dest @ [c] @ dat))"
      "routes_over E t dest e out" "pe_hops e = 1"
    by (auto split: option.splits)
  from e(4) have "path_of E t dest = Some e" "pe_receiving_interface e = Some out" by (simp_all add: routes_over_def)
  with relay_step [OF e(2,4) assms(1-4), of dat now rnd h] e(1,3,5) show ?case by (simp add: relayed_wire_def after_relay_def Let_def)
next
  case (Cons m nodes)
  obtain E' t' n' where m: "m = (E', t', n')" by (cases m)
  from Cons.prems m obtain e out where e: "te_lib E = lib" "relay_ready E t n dest" "\<not> seen E t (full_hash lib ((f AND 0x0F) # dest @ [c] @ dat))"
      "routes_over E t dest e out" "pe_hops e > 1" "pe_received_from e = te_identity_hash E'"
      and rest: "route_ok lib (full_hash lib ((f AND 0x0F) # dest @ [c] @ dat)) dest ((E', t', n') # nodes)"
    by (auto split: option.splits)
  from e(4) have p: "path_of E t dest = Some e" "pe_receiving_interface e = Some out" by (simp_all add: routes_over_def)
  have "relayed_wire e f h dest c dat = wire_2 f (h + 1) (te_identity_hash E') dest c dat"
    using e(5,6) by (auto simp: relayed_wire_def)
  then show ?case
    using relay_step [OF e(2,4) assms(1-4), of dat now rnd h] e(1,3) Cons.IH [OF rest, of "h + 1"] m p
    by (simp add: algebra_simps after_relay_def Let_def del: relay_along.simps(2)) (simp add: algebra_simps)
qed

lemma pack_flags:
  assumes "pack lib p = Inr q" and "p_destination p = Some d"
  shows "p_flags q = p_flags p"
proof -
  obtain b where b: "pack_body (p\<lparr>p_destination_hash := dv_hash d, p_encrypted := False, p_header := [p_flags p, p_hops p]\<rparr>) d = Inr b"
    and upd: "update_hash lib (b\<lparr>p_header := p_header b @ [p_context b],
        p_raw := (p_header b @ [p_context b]) @ p_ciphertext b, p_packed := True\<rparr>) = Inr q"
    using assms by (auto simp: pack_def res_bind_eq_Inr Let_def split: if_splits)
  show ?thesis using update_hash_fields(1) [OF upd] pack_body_fields(5) [OF b] by simp
qed

lemma insert_transport_wire:
  assumes "p_raw q = wire_1 f h dest c dat" and "p_flags q = f"
  shows "insert_transport nh q = wire_2 (transport_flags HEADER_2 TRANSPORT f) h nh dest c dat"
  using assms by (simp add: insert_transport_def wire_1_def wire_2_def bytes_simps)

lemma data_flags_transport:
  assumes "p_packet_type (unpack_flags f new_object) = DATA" and "p_destination_type (unpack_flags f new_object) = SINGLE"
  shows "data_flags (transport_flags HEADER_2 TRANSPORT f)"
    "header_type_of (drop_bit 6 (transport_flags HEADER_2 TRANSPORT f AND 0x40)) = HEADER_2"
    "header_type_of (drop_bit 6 (transport_flags HEADER_1 BROADCAST (transport_flags HEADER_2 TRANSPORT f) AND 0x40)) = HEADER_1"
proof -
  let ?f = "transport_flags HEADER_2 TRANSPORT f"
  have "p_packet_type (unpack_flags ?f new_object) = DATA" "p_destination_type (unpack_flags ?f new_object) = SINGLE"
      "p_header_type (unpack_flags ?f new_object) = HEADER_2" "p_header_type (unpack_flags (transport_flags HEADER_1 BROADCAST ?f) new_object) = HEADER_1"
    using assms by (simp_all add: transport_flags_unpack)
  then show "data_flags ?f" "header_type_of (drop_bit 6 (?f AND 0x40)) = HEADER_2"
    "header_type_of (drop_bit 6 (transport_flags HEADER_1 BROADCAST ?f AND 0x40)) = HEADER_1"
    by (simp_all add: data_flags_def unpack_flags_def)
qed

lemma sent_into_transport:
  assumes "pack lib p = Inr q" and "well_addressed p d" and "p_header_type p = HEADER_1" and "p_packet_type p = DATA"
    and "dv_type d = SINGLE" and "p_context p \<noteq> LRPROOF" and "p_context p \<noteq> CACHE_REQUEST"
    and "route_ok lib (p_packet_hash q) (dv_hash d) ((E, t, n) # nodes)"
  shows "\<exists>raw part r. relay_along now rnd ((E, t, n) # nodes) (insert_transport (te_identity_hash E) q)
        = Some (raw, map (after_relay now lib part (dv_hash d)) ((E, t, n) # nodes))
    \<and> full_hash lib part = p_packet_hash q \<and> unpack lib (wire_packet raw) = (True, r)
    \<and> p_destination_hash r = dv_hash d \<and> p_destination_type r = SINGLE \<and> p_packet_type r = DATA \<and> p_transport_id r = []
    \<and> p_context r = p_context p \<and> p_data r = p_ciphertext q \<and> p_packet_hash r = p_packet_hash q
    \<and> p_hops r = p_hops p + 1 + of_nat (length nodes)"
proof -
  define f where "f = p_flags p"
  define f2 where "f2 = transport_flags HEADER_2 TRANSPORT f"
  define f3 where "f3 = transport_flags HEADER_1 BROADCAST f2"
  define part where "part = (f AND 0x0F) # dv_hash d @ [p_context p] @ p_ciphertext q"
  from assms(2) have d: "p_destination p = Some d" and len: "length (dv_hash d) = 16" and gf: "get_packed_flags p = Inr f"
    and tt: "p_transport_type p = BROADCAST \<or> p_transport_type p = TRANSPORT"
    using assms(6) by (auto simp: well_addressed_def wire_destination_def wire_sizes f_def)
  have u: "p_packet_type (unpack_flags f r) = DATA" "p_destination_type (unpack_flags f r) = SINGLE" for r
    using packed_flags_fields [OF gf tt] assms(4,5,6) d by auto
  note fl = data_flags_transport [OF u, folded f2_def, folded f3_def]
  have low: "f2 AND 0x0F = f AND 0x0F" "f3 AND 0x0F = f AND 0x0F" by (simp_all add: f2_def f3_def transport_flags_unpack)
  have raw: "p_raw q = wire_1 f (p_hops p) (dv_hash d) (p_context p) (p_ciphertext q)"
    using pack_wire(1) [OF assms(1) d] assms(3,6) by (simp add: wire_1_def f_def wire_address_def)
  have ins: "insert_transport (te_identity_hash E) q
      = wire_2 f2 (p_hops p) (te_identity_hash E) (dv_hash d) (p_context p) (p_ciphertext q)"
    using insert_transport_wire [OF raw] pack_flags [OF assms(1) d] by (simp add: f2_def f_def)
  have hash: "p_packet_hash q = full_hash lib part"
    using pack_wire(3,4) [OF assms(1) d] raw assms(3) by (simp add: part_def get_hashable_part_def wire_1_def bytes_simps)
  define out where "out = wire_1 f3 (p_hops p + 1 + of_nat (length nodes)) (dv_hash d) (p_context p) (p_ciphertext q)"
  have "relay_along now rnd ((E, t, n) # nodes) (insert_transport (te_identity_hash E) q)
      = Some (out, map (after_relay now lib part (dv_hash d)) ((E, t, n) # nodes))"
    unfolding ins out_def f3_def part_def low(1) [symmetric]
    by (rule relay_along_wire [where lib = lib, OF len fl(2,1) assms(7)])
      (use assms(8) in \<open>simp only: low hash part_def\<close>)
  moreover have "p_packet_type (unpack_flags f3 r) = DATA" "p_destination_type (unpack_flags f3 r) = SINGLE" for r
    using u by (simp_all add: f3_def f2_def transport_flags_unpack)
  moreover note unpack_wire_1 [OF len fl(3), of "wire_packet out"]
  ultimately show ?thesis
    using low hash by (intro exI [of _ out] exI [of _ part]) (simp add: out_def part_def)
qed

subsection \<open>The way back of a proof\<close>

definition proof_flags :: "byte \<Rightarrow> bool" where
  "proof_flags f \<longleftrightarrow> packet_type_of (f AND 0x03) = PROOF \<and> dest_type_of (drop_bit 2 (f AND 0x0C)) = SINGLE
     \<and> header_type_of (drop_bit 6 (f AND 0x40)) = HEADER_1"

text \<open>
  A node on the way: it has forwarded the packet with truncated hash \<open>th\<close> from interface \<open>n\<close> to \<open>out\<close>, and
  has no receipts of its own, no link and no path for that address.
\<close>

definition return_ready :: "('s, 'k, 'h) tenv \<Rightarrow> ('s, 'k, 'h) transport \<Rightarrow> nat \<Rightarrow> nat \<Rightarrow> bytes \<Rightarrow> bool" where
  "return_ready E t out n th \<longleftrightarrow>
     te_transport_enabled E \<and> \<not> te_shared_instance E \<and> \<not> t_jobs_running t \<and> \<not> if_to_shared_instance (if_of (t_ifs t) out)
     \<and> if_ifac_identity (if_of (t_ifs t) n) = [] \<and> tab_find th (t_link_table t) = None \<and> path_of E t th = None \<and> t_receipts t = []"

lemma proof_step:
  fixes E :: "('s, 'k, 'h) tenv"
  assumes "return_ready E t out n th" and "length th = 16" and "proof_flags f"
    and ctx: "c \<noteq> LRPROOF" "c \<noteq> RESOURCE_PRF" "c \<noteq> CACHE_REQUEST"
    and re: "tab_find th (t_reverse_table t) = Some r" "re_outbound_interface r = Some out" "re_receiving_interface r = Some n"
    and new: "\<not> seen E t (full_hash (te_lib E) ((f AND 0x0F) # th @ [c] @ dat))"
  shows "\<exists>t'. inbound E now rnd (Some out) (wire_1 f h th c dat) t = Some (Inr (t', [Transmit n (wire_1 f (h + 1) th c dat)]))"
proof -
  define raw where "raw = wire_1 f h th c dat"
  define p where "p = received_packet E (if_of (t_ifs t) out) raw"
  from assms(1) have E: "te_transport_enabled E" "\<not> te_shared_instance E" and run: "\<not> t_jobs_running t"
    and si: "\<not> if_to_shared_instance (if_of (t_ifs t) out)" and ifac: "if_ifac_identity (if_of (t_ifs t) n) = []"
    and lt: "tab_find th (t_link_table t) = None" and pa: "path_of E t th = None" and rc: "t_receipts t = []"
    by (auto simp: return_ready_def)
  have h1: "header_type_of (drop_bit 6 (f AND 0x40)) = HEADER_1" using assms(3) by (simp add: proof_flags_def)
  note p = received_wire_1 [OF assms(2) h1 si, of E h c dat, folded raw_def, folded p_def]
  have pt: "p_packet_type p = PROOF" "p_destination_type p = SINGLE" using p(11,12) assms(3) by (simp_all add: proof_flags_def)
  have acc: "packet_filter E p (t\<lparr>t_jobs_locked := True\<rparr>)" using new E p pt by (simp add: packet_filter_def seen_def)
  have raw': "with_hops p = wire_1 f (h + 1) th c dat"
    using p(2,4) by (simp add: with_hops_def raw_def wire_1_def bytes_simps)
  define t1 where "t1 = add_packet_hash E (p_packet_hash p) (t\<lparr>t_jobs_locked := True\<rparr>)"
  have t1: "path_of E t1 th = None" "tab_find th (t_link_table t1) = None" "tab_find th (t_reverse_table t1) = Some r"
      "t_ifs t1 = t_ifs t" "t_receipts t1 = []"
    using pa lt re rc by (simp_all add: t1_def) (simp add: add_packet_hash_def)
  have tr: "transport_handling E now out p t1 = Inr (True, p, t1, [])"
    using E p(5-7) pt ctx t1 by (simp add: transport_handling_def forward_def link_transport_def)
  obtain t2 where loc: "local_handling E now rnd out p t1 = Inr (t2, [Transmit n (wire_1 f (h + 1) th c dat)])"
    using p(6,7) pt ctx t1 E re(2,3) ifac raw' by (simp add: local_handling_def regular_proof_def transmit_def)
  have "remembered p (t\<lparr>t_jobs_locked := True\<rparr>)" using p(6,7) ctx lt by (simp add: remembered_def)
  with acc p(1) tr loc show ?thesis
    by (simp add: inbound_def run await_jobs_idle inbound_body_def Let_def raw_def [symmetric] p_def [symmetric] t1_def [symmetric])
qed

text \<open>What a node needs before it forwards the packet so that the proof with hash \<open>ph\<close> can come back through it.\<close>

definition return_ok :: "bytes \<Rightarrow> bytes \<Rightarrow> bytes \<Rightarrow> ('s, 'k, 'h) tenv \<times> ('s, 'k, 'h) transport \<times> nat \<Rightarrow> bool" where
  "return_ok th ph dest = (\<lambda>(E, t, n).
     store_ok (te_hashes E) \<and> tab_find th (t_reverse_table t) = None \<and> \<not> seen E t ph
     \<and> (case path_of E t dest of
          None \<Rightarrow> False
        | Some e \<Rightarrow> (case pe_receiving_interface e of None \<Rightarrow> False | Some out \<Rightarrow> return_ready E t out n th)))"

lemma proof_step_after:
  assumes ok: "return_ok (truncated_hash lib part) (full_hash lib ((f AND 0x0F) # truncated_hash lib part @ [c] @ dat)) dest (E, t, n)"
    and lib: "te_lib E = lib" and len: "length (truncated_hash lib part) = 16" and "proof_flags f"
    and ctx: "c \<noteq> LRPROOF" "c \<noteq> RESOURCE_PRF" "c \<noteq> CACHE_REQUEST"
    and ne: "full_hash lib ((f AND 0x0F) # truncated_hash lib part @ [c] @ dat) \<noteq> full_hash lib part"
  shows "\<exists>vs. relay_along now' rnd' [after_relay now lib part dest (E, t, n)] (wire_1 f h (truncated_hash lib part) c dat)
    = Some (wire_1 f (h + 1) (truncated_hash lib part) c dat, vs)"
proof -
  let ?th = "truncated_hash lib part" and ?ph = "full_hash lib ((f AND 0x0F) # truncated_hash lib part @ [c] @ dat)"
  from ok obtain e out where e: "path_of E t dest = Some e" "pe_receiving_interface e = Some out" and st: "store_ok (te_hashes E)"
      and re: "tab_find ?th (t_reverse_table t) = None" and sn: "\<not> seen E t ?ph" and rr: "return_ready E t out n ?th"
    by (auto simp: return_ok_def split: option.splits)
  obtain b hs where put: "ts_put (te_hashes E) (t_hashlist t) (full_hash lib part) () 0 = (b, hs)" by fastforce
  define t' where "t' = t\<lparr>t_hashlist := hs, t_reverse_table := tab_insert ?th
                 \<lparr>re_receiving_interface = Some n, re_outbound_interface = Some out, re_timestamp = now,
                  re_next_hop = pe_received_from e\<rparr> (t_reverse_table t), t_jobs_locked := False\<rparr>"
  have a: "after_relay now lib part dest (E, t, n) = (E, t', out)" using e put by (simp add: after_relay_def t'_def)
  have "\<not> seen E t' ?ph" using store_ok_put [OF st put, of ?ph] ne sn by (auto simp: seen_def t'_def)
  moreover have "return_ready E t' out n ?th" using rr by (simp add: return_ready_def t'_def path_of_def)
  moreover have "tab_find ?th (t_reverse_table t') = Some \<lparr>re_receiving_interface = Some n, re_outbound_interface = Some out,
      re_timestamp = now, re_next_hop = pe_received_from e\<rparr>"
    using re by (simp add: t'_def tab_lookup)
  ultimately obtain t2 where "inbound E now' rnd' (Some out) (wire_1 f h ?th c dat) t' = Some (Inr (t2, [Transmit n (wire_1 f (h + 1) ?th c dat)]))"
    using proof_step [of E t' out n ?th f c _ dat now' rnd' h] len assms(4) ctx lib by auto
  then show ?thesis by (simp add: a)
qed

lemma proof_along:
  assumes "list_all (return_ok (truncated_hash lib part) (full_hash lib ((f AND 0x0F) # truncated_hash lib part @ [c] @ dat)) dest) nodes"
    and "list_all (\<lambda>(E, t, n). te_lib E = lib) nodes" and "length (truncated_hash lib part) = 16" and "proof_flags f"
    and "c \<noteq> LRPROOF" "c \<noteq> RESOURCE_PRF" "c \<noteq> CACHE_REQUEST"
    and "full_hash lib ((f AND 0x0F) # truncated_hash lib part @ [c] @ dat) \<noteq> full_hash lib part"
  shows "\<exists>vs. relay_along now' rnd' (rev (map (after_relay now lib part dest) nodes)) (wire_1 f h (truncated_hash lib part) c dat)
    = Some (wire_1 f (h + of_nat (length nodes)) (truncated_hash lib part) c dat, vs)"
  using assms(1,2)
proof (induction nodes)
  case (Cons m nodes)
  obtain E t n where m: "m = (E, t, n)" by (cases m)
  from Cons m obtain vs where "relay_along now' rnd' (rev (map (after_relay now lib part dest) nodes)) (wire_1 f h (truncated_hash lib part) c dat)
      = Some (wire_1 f (h + of_nat (length nodes)) (truncated_hash lib part) c dat, vs)" by auto
  moreover obtain vs' where "relay_along now' rnd' [after_relay now lib part dest m] (wire_1 f (h + of_nat (length nodes)) (truncated_hash lib part) c dat)
      = Some (wire_1 f (h + of_nat (length nodes) + 1) (truncated_hash lib part) c dat, vs')"
    using proof_step_after [OF _ _ assms(3-8), of dest E t n now' rnd' now "h + of_nat (length nodes)"] Cons.prems m by auto
  ultimately show ?case using relay_along_append by (fastforce simp: algebra_simps)
qed simp

lemma route_ok_lib: "route_ok lib ph dest nodes \<Longrightarrow> list_all (\<lambda>(E, t, n). te_lib E = lib) nodes"
  by (induction nodes) auto

subsection \<open>Link proofs\<close>

definition link_proof_valid :: "crypto_lib \<Rightarrow> packet \<Rightarrow> identity \<Rightarrow> bool" where
  "link_proof_valid lib p i \<longleftrightarrow>
     (case (proof_signalling p, i_sig_pub i) of
        (Inr sb, Some pub) \<Rightarrow> ed25519_verify lib (take 64 (p_data p)) (take 32 pub) (link_proof_signed p i sb)
      | _ \<Rightarrow> False)"

lemma recall_identity_frame:
  assumes "recall_identity E now h t = Inr (i, t')"
  shows "t_link_table t' = t_link_table t" "t_ifs t' = t_ifs t"
  using assms by (auto simp: recall_identity_def res_bind_eq_Inr)

lemma transport_link_proof_cases:
  assumes "transport_link_proof E now p l t = Inr (t', evs)"
  shows "evs = [] \<and> t_link_table t' = t_link_table t
    \<or> (\<exists>i t1 out. recall_identity E now (le_destination_hash l) t = Inr (Some i, t1) \<and> link_proof_valid (te_lib E) p i
         \<and> le_receiving_interface l = Some out \<and> evs = snd (transmit E (t_ifs t) out (with_hops p))
         \<and> t_link_table t' = tab_assign (p_destination_hash p) (l\<lparr>le_validated := True\<rparr>) (t_link_table t))"
proof (cases "proof_signalling p")
  case (Inl e)
  with assms show ?thesis by (auto simp: transport_link_proof_def try_catch_def split: if_splits)
next
  case (Inr sb)
  show ?thesis
  proof (cases "recall_identity E now (le_destination_hash l) t")
    case (Inl e)
    with Inr assms show ?thesis by (auto simp: transport_link_proof_def try_catch_def split: if_splits)
  next
    fix it assume it: "recall_identity E now (le_destination_hash l) t = Inr it"
    obtain io t1 where io: "it = (io, t1)" by (cases it)
    note fr = recall_identity_frame [OF it [unfolded io]]
    show ?thesis
    proof (cases io)
      case None
      with Inr it io assms fr show ?thesis by (auto simp: transport_link_proof_def split: if_splits)
    next
      case (Some i)
      let ?v = "identity_validate (te_lib E) i (left (p_data p) (SIGLENGTH div 8)) (link_proof_signed p i sb)"
      show ?thesis
      proof (cases "?v = Inr True")
        case True
        obtain pub where "i_sig_pub i = Some pub" "ed25519_verify (te_lib E) (take 64 (p_data p)) (take 32 pub) (link_proof_signed p i sb)"
          using identity_validateD [OF True] by (auto simp: bytes_simps)
        then have "link_proof_valid (te_lib E) p i" using Inr by (simp add: link_proof_valid_def)
        with True Inr it io Some assms fr show ?thesis
          by (cases "le_receiving_interface l") (auto simp: transport_link_proof_def try_catch_def split: if_splits)
      next
        case False
        with Inr it io Some assms fr show ?thesis
          by (cases ?v) (auto simp: transport_link_proof_def try_catch_def split: if_splits)
      qed
    qed
  qed
qed

lemma link_proof_cases:
  assumes "link_proof E now n p t = Inr (t', evs)"
  shows "(\<forall>out x. Transmit out x \<notin> set evs) \<and> t_link_table t' = t_link_table t
    \<or> (\<exists>l i t1 out. tab_find (p_destination_hash p) (t_link_table t) = Some l \<and> le_outbound_interface l = Some n
         \<and> recall_identity E now (le_destination_hash l) t = Inr (Some i, t1) \<and> link_proof_valid (te_lib E) p i
         \<and> le_receiving_interface l = Some out \<and> (evs = [] \<or> evs = [Transmit out (with_hops p)])
         \<and> t_link_table t' = tab_assign (p_destination_hash p) (l\<lparr>le_validated := True\<rparr>) (t_link_table t))"
proof (cases "\<exists>l. te_transport_enabled E \<and> tab_find (p_destination_hash p) (t_link_table t) = Some l \<and> le_outbound_interface l = Some n")
  case False
  with assms show ?thesis by (auto simp: link_proof_def split: if_splits option.splits)
next
  case True
  then obtain l where l: "te_transport_enabled E" "tab_find (p_destination_hash p) (t_link_table t) = Some l" "le_outbound_interface l = Some n"
    by blast
  with assms have "transport_link_proof E now p l t = Inr (t', evs)" by (simp add: link_proof_def)
  from transport_link_proof_cases [OF this] l(2,3) show ?thesis by (auto simp: transmit_def split: if_splits)
qed

section \<open>Properties\<close>

text \<open>
  C2. Transport is transparent: a data packet for a destination of type single that is put into transport and
  relayed by any number of nodes, each of which has a path over the next, arrives with one address,
  the same destination, context, data and packet hash, and a hop count raised by the number of relays
  (modulo 256).
\<close>

theorem transport_transparent:
  assumes "pack lib p = Inr q" and "well_addressed p d" and "p_header_type p = HEADER_1" and "p_packet_type p = DATA"
    and "dv_type d = SINGLE" and "p_context p \<noteq> LRPROOF" and "p_context p \<noteq> CACHE_REQUEST"
    and "route_ok lib (p_packet_hash q) (dv_hash d) ((E, t, n) # nodes)"
  shows "\<exists>raw after r. relay_along now rnd ((E, t, n) # nodes) (insert_transport (te_identity_hash E) q) = Some (raw, after)
    \<and> unpack lib (wire_packet raw) = (True, r)
    \<and> p_destination_hash r = dv_hash d \<and> p_destination_type r = SINGLE \<and> p_packet_type r = DATA \<and> p_transport_id r = []
    \<and> p_context r = p_context p \<and> p_data r = p_ciphertext q \<and> p_packet_hash r = p_packet_hash q
    \<and> p_hops r = p_hops p + 1 + of_nat (length nodes)"
  using sent_into_transport [OF assms, of now rnd] by blast

text \<open>
  C3. A proof comes back: after a data packet has been relayed by any number of nodes, a proof that is
  addressed to the truncated hash of the packet and enters at the last node is sent back through all
  of them, by each on the interface the packet came in on, and leaves the first node unchanged but
  for its hop count.
\<close>

theorem proof_returns:
  assumes "pack lib p = Inr q" and "well_addressed p d" and "p_header_type p = HEADER_1" and "p_packet_type p = DATA"
    and "dv_type d = SINGLE" and "p_context p \<noteq> LRPROOF" and "p_context p \<noteq> CACHE_REQUEST"
    and "route_ok lib (p_packet_hash q) (dv_hash d) ((E, t, n) # nodes)"
    and th: "th = take 16 (p_packet_hash q)" "length th = 16" and ph: "ph = full_hash lib ((f AND 0x0F) # th @ [c] @ dat)" "ph \<noteq> p_packet_hash q"
    and pf: "proof_flags f" and ctx: "c \<noteq> LRPROOF" "c \<noteq> RESOURCE_PRF" "c \<noteq> CACHE_REQUEST"
    and ret: "list_all (return_ok th ph (dv_hash d)) ((E, t, n) # nodes)"
  shows "\<exists>raw after after'. relay_along now rnd ((E, t, n) # nodes) (insert_transport (te_identity_hash E) q) = Some (raw, after)
    \<and> relay_along now' rnd' (rev after) (wire_1 f h th c dat) = Some (wire_1 f (h + of_nat (length nodes + 1)) th c dat, after')"
proof -
  obtain raw part where fwd: "relay_along now rnd ((E, t, n) # nodes) (insert_transport (te_identity_hash E) q)
      = Some (raw, map (after_relay now lib part (dv_hash d)) ((E, t, n) # nodes))" and part: "full_hash lib part = p_packet_hash q"
    using sent_into_transport [OF assms(1-8), of now rnd] by blast
  have t: "truncated_hash lib part = th" using part th by (simp add: truncated_hash_def full_hash_def bytes_simps)
  show ?thesis
    using proof_along [of lib part f c dat "dv_hash d" "(E, t, n) # nodes" now' rnd' now h] fwd ret route_ok_lib [OF assms(8)] th(2) pf ctx ph
    unfolding t part by auto
qed

text \<open>
  C19. A node relays a packet once: when it has sent a data packet on and its store of hashes accepted
  the hash, another copy, with any hop count and on any interface that does not lead to the shared
  instance, changes nothing and is not sent.  This holds for the contexts that the filter of duplicates
  looks at; keepalives, resource parts and requests, cache requests and channel packets are exempt.
\<close>

theorem relayed_once:
  assumes "relay_ready E t n dest" and "routes_over E t dest e out" and "length dest = 16"
    and "header_type_of (drop_bit 6 (f AND 0x40)) = HEADER_2" and "data_flags f" and "\<not> filter_exempt c"
    and "\<not> seen E t (full_hash (te_lib E) ((f AND 0x0F) # dest @ [c] @ dat))"
    and "store_ok (te_hashes E)" and "fst (ts_put (te_hashes E) (t_hashlist t) (full_hash (te_lib E) ((f AND 0x0F) # dest @ [c] @ dat)) () 0)"
    and "\<not> if_to_shared_instance (if_of (t_ifs t) n')"
  shows "\<exists>t'. inbound E now rnd (Some n) (wire_2 f h (te_identity_hash E) dest c dat) t
        = Some (Inr (t', [Transmit out (relayed_wire e f h dest c dat)]))
    \<and> inbound E now' rnd' (Some n') (wire_2 f h' (te_identity_hash E) dest c dat) t' = Some (Inr (t', []))"
proof -
  define part where "part = (f AND 0x0F) # dest @ [c] @ dat"
  have c: "c \<noteq> CACHE_REQUEST" using assms(6) by (auto simp: filter_exempt_def)
  obtain hs where put: "ts_put (te_hashes E) (t_hashlist t) (full_hash (te_lib E) part) () 0 = (True, hs)"
    using assms(9) by (cases "ts_put (te_hashes E) (t_hashlist t) (full_hash (te_lib E) part) () 0") (simp add: part_def)
  define t' where "t' = t\<lparr>t_hashlist := hs, t_reverse_table := tab_insert (truncated_hash (te_lib E) part)
      \<lparr>re_receiving_interface = Some n, re_outbound_interface = Some out, re_timestamp = now,
       re_next_hop = pe_received_from e\<rparr> (t_reverse_table t), t_jobs_locked := False\<rparr>"
  have first: "inbound E now rnd (Some n) (wire_2 f h (te_identity_hash E) dest c dat) t
      = Some (Inr (t', [Transmit out (relayed_wire e f h dest c dat)]))"
    using relay_step [OF assms(1-5) c assms(7), of now rnd h] put by (simp add: t'_def part_def)
  have seen: "seen E t' (full_hash (te_lib E) part)" using store_ok_get [OF assms(8) put] by (simp add: seen_def t'_def)
  define raw where "raw = wire_2 f h' (te_identity_hash E) dest c dat"
  define p where "p = received_packet E (if_of (t_ifs t') n') raw"
  have r: "\<not> te_shared_instance E" "length (te_identity_hash E) = 16" "\<not> t_jobs_running t'" "\<not> if_to_shared_instance (if_of (t_ifs t') n')"
    using assms(1,10) by (auto simp: relay_ready_def t'_def)
  note p = received_wire_2 [OF r(2) assms(3,4) r(4), of E h' c dat, folded raw_def, folded p_def]
  have "\<not> packet_filter E p (t'\<lparr>t_jobs_locked := True\<rparr>)"
    using p(5,7,9,11,12) assms(5,6) seen r(1) by (simp add: packet_filter_def seen_def data_flags_def part_def)
  moreover have "t'\<lparr>t_jobs_locked := False\<rparr> = t'" by (simp add: t'_def)
  ultimately have "inbound E now' rnd' (Some n') raw t' = Some (Inr (t', []))"
    using p(1) r(3) by (simp add: inbound_def await_jobs_idle inbound_body_def Let_def p_def [symmetric])
  with first show ?thesis by (auto simp: raw_def)
qed

text \<open>
  C8. A link proof passes a transport node, and marks its link as validated, only when it comes in on
  the interface the link request went out on and carries a valid signature of the link's destination,
  whose key the node has recalled; otherwise nothing is sent and the link table is unchanged.
\<close>

theorem link_proof_checked:
  assumes "inbound E now rnd (Some n) raw t = Some (Inr (t', evs))" and "p = received_packet E (if_of (t_ifs t) n) raw"
    and "p_packet_type p = PROOF" and "p_context p = LRPROOF" and "path_of E t (p_destination_hash p) = None"
  shows "(\<forall>out x. Transmit out x \<notin> set evs) \<and> t_link_table t' = t_link_table t
    \<or> (\<exists>l i t1 out. tab_find (p_destination_hash p) (t_link_table t) = Some l \<and> le_outbound_interface l = Some n
         \<and> recall_identity E now (le_destination_hash l) (t\<lparr>t_jobs_locked := True\<rparr>) = Inr (Some i, t1) \<and> link_proof_valid (te_lib E) p i
         \<and> le_receiving_interface l = Some out \<and> (evs = [] \<or> evs = [Transmit out (with_hops p)])
         \<and> t_link_table t' = tab_assign (p_destination_hash p) (l\<lparr>le_validated := True\<rparr>) (t_link_table t))"
proof -
  define t0 where "t0 = t\<lparr>t_jobs_locked := True\<rparr>"
  from assms(1) have body: "inbound_body E now rnd (Some n) raw t = Inr (t', evs)"
    by (auto simp: inbound_def split: option.splits)
  show ?thesis
  proof (cases "fst (unpack (te_lib E) (wire_packet raw)) \<and> packet_filter E p t0")
    case False
    with body assms(2) show ?thesis by (auto simp: inbound_body_def Let_def t0_def split: if_splits)
  next
    case True
    have "\<not> remembered p t0" using assms(3,4) by (simp add: remembered_def)
    moreover have "transport_handling E now n p t0 = Inr (True, p, t0, [])"
      using assms(3-5) by (simp add: transport_handling_def forward_def link_transport_def t0_def)
    moreover have "local_handling E now rnd n p t0 = link_proof E now n p t0" using assms(3,4) by (simp add: local_handling_def)
    ultimately obtain t3 where lp: "link_proof E now n p t0 = Inr (t3, evs)" and t': "t' = t3\<lparr>t_jobs_locked := False\<rparr>"
      using True body by (auto simp: inbound_body_def Let_def assms(2) [symmetric] t0_def [symmetric] res_bind_eq_Inr)
    show ?thesis using link_proof_cases [OF lp] t' by (auto simp: t0_def)
  qed
qed

section \<open>Witnesses\<close>

definition demo_hop :: "byte \<Rightarrow> (bytes \<Rightarrow> stored_path option option, bytes \<Rightarrow> identity_entry option, bytes \<Rightarrow> unit option) transport" where
  "demo_hop h = demo_node\<lparr>t_paths := [replicate 16 7 \<mapsto>
     Some \<lparr>sp_timestamp = 0, sp_hops = h, sp_expires = 100, sp_received_from = replicate 16 9, sp_random_blobs = [replicate 10 1],
       sp_interface_hash = [1], sp_raw = replicate 19 0\<rparr>]\<rparr>"

lemma demo_hop_path:
  "\<exists>e. path_of (demo_env own) (demo_hop h) (replicate 16 7) = Some e \<and> pe_received_from e = replicate 16 9 \<and> pe_hops e = h
     \<and> pe_receiving_interface e = Some 1"
proof -
  have raw: "p_raw (packet_from_raw (replicate 19 0)) = [0, 0] @ replicate 16 0 @ [0] @ []"
    by (simp add: packet_from_raw_def numeral_eq_Suc)
  have h1: "p_header_type (unpack_flags 0 (packet_from_raw (replicate 19 0))) = HEADER_1"
    by (simp add: unpack_flags_def header_type_of_def)
  obtain p where "unpack demo_lib (packet_from_raw (replicate 19 0)) = (True, p)"
    using unpack_header_1 [OF _ raw h1, of demo_lib] by (auto simp: wire_sizes Let_def)
  then show ?thesis
    by (simp add: path_of_def find_path_def get_entry_def demo_hop_def demo_node_def demo_env_def map_store_def path_decode_def
        find_interface_from_hash_def demo_ifs_def rehydrate_def path_valid_def del: replicate_Suc replicate.simps)
qed

lemma demo_hop_ready: "relay_ready (demo_env (replicate 16 k)) (demo_hop h) 0 (replicate 16 7)" "\<not> seen (demo_env own) (demo_hop h) x"
  "if_ifac_identity (if_of (t_ifs (demo_hop h)) n) = []"
  by (simp_all add: relay_ready_def seen_def demo_hop_def demo_node_def demo_env_def map_store_def demo_ifs_def demo_iface_def tab_find_def)

definition demo_data :: packet where
  "demo_data = new_object\<lparr>p_destination := Some \<lparr>dv_hash = replicate 16 7, dv_type = SINGLE, dv_encrypt = Inr\<rparr>, p_data := [1, 2, 3], p_hops := 254\<rparr>"

definition demo_route :: "(_ \<times> _ \<times> nat) list" where
  "demo_route = [(demo_env (replicate 16 8), demo_hop 2, 0), (demo_env (replicate 16 9), demo_hop 1, 0)]"

lemma demo_data_sent:
  "well_addressed demo_data \<lparr>dv_hash = replicate 16 7, dv_type = SINGLE, dv_encrypt = Inr\<rparr>"
  "\<exists>q. pack demo_lib demo_data = Inr q \<and> p_ciphertext q = [1, 2, 3] \<and> p_packet_hash q = replicate 32 0x15"
  by (simp_all add: well_addressed_def demo_data_def new_object_def wire_destination_def wire_sizes get_packed_flags_def packed_octet_def
      pack_def pack_body_def sent_in_clear_def Let_def update_hash_def get_hash_def get_hashable_part_def full_hash_def sha256_def demo_lib_def
      demo_tag_def bytes_simps)

lemma demo_env_parts: "te_lib (demo_env own) = demo_lib" "te_identity_hash (demo_env own) = own" "store_ok (te_hashes (demo_env own))"
  by (simp_all add: demo_env_def map_store_ok)

lemma demo_route_ok: "route_ok demo_lib ph (replicate 16 7) demo_route"
proof -
  obtain e1 e2 where "path_of (demo_env (replicate 16 8)) (demo_hop 2) (replicate 16 7) = Some e1" "pe_received_from e1 = replicate 16 9" "pe_hops e1 = 2"
     "pe_receiving_interface e1 = Some 1" "path_of (demo_env (replicate 16 9)) (demo_hop 1) (replicate 16 7) = Some e2" "pe_hops e2 = 1"
     "pe_receiving_interface e2 = Some 1"
    using demo_hop_path [of "replicate 16 8" 2] demo_hop_path [of "replicate 16 9" 1] by blast
  then show ?thesis by (simp add: demo_route_def demo_env_parts demo_hop_ready routes_over_def)
qed

theorem transport_transparent_witness:
  "\<exists>q raw after r. pack demo_lib demo_data = Inr q \<and> relay_along 1 0 demo_route (insert_transport (replicate 16 8) q) = Some (raw, after)
    \<and> unpack demo_lib (wire_packet raw) = (True, r) \<and> p_destination_hash r = replicate 16 7 \<and> p_data r = [1, 2, 3] \<and> p_hops r = 0"
proof -
  obtain q where q: "pack demo_lib demo_data = Inr q" "p_ciphertext q = [1, 2, 3]" using demo_data_sent(2) by blast
  from transport_transparent [OF q(1) demo_data_sent(1), of "demo_env (replicate 16 8)" "demo_hop 2" 0
      "[(demo_env (replicate 16 9), demo_hop 1, 0)]" 1 0] q demo_route_ok [of "p_packet_hash q"]
  show ?thesis by (auto simp: demo_env_parts demo_data_def new_object_def demo_route_def simp del: relay_along.simps route_ok.simps)
qed

lemma demo_hop_fields:
  "\<not> t_jobs_running (demo_hop h)" "t_link_table (demo_hop h) = []" "t_reverse_table (demo_hop h) = []" "t_receipts (demo_hop h) = []"
  "\<not> if_to_shared_instance (if_of (t_ifs (demo_hop h)) n)" "te_transport_enabled (demo_env own)" "\<not> te_shared_instance (demo_env own)"
  by (simp_all add: demo_hop_def demo_node_def demo_ifs_def demo_iface_def demo_env_def)

lemma demo_return_ok: "list_all (return_ok (replicate 16 0x15) ph (replicate 16 7)) demo_route"
proof -
  have "return_ok (replicate 16 0x15) ph (replicate 16 7) (demo_env (replicate 16 k), demo_hop h, 0)" for k h
  proof -
    obtain e where e: "path_of (demo_env (replicate 16 k)) (demo_hop h) (replicate 16 7) = Some e" "pe_receiving_interface e = Some 1"
      using demo_hop_path by blast
    have "path_of (demo_env (replicate 16 k)) (demo_hop h) (replicate 16 0x15) = None"
      by (simp add: path_of_def find_path_def get_entry_def demo_hop_def demo_node_def demo_env_def map_store_def)
    then show ?thesis
      using e
      by (simp add: return_ok_def return_ready_def demo_env_parts demo_hop_ready demo_hop_fields tab_find_def)
  qed
  then show ?thesis by (simp add: demo_route_def)
qed

theorem proof_returns_witness:
  "\<exists>q raw after after'. pack demo_lib demo_data = Inr q \<and> relay_along 1 0 demo_route (insert_transport (replicate 16 8) q) = Some (raw, after)
    \<and> relay_along 2 0 (rev after) (wire_1 3 0 (replicate 16 0x15) 0 []) = Some (wire_1 3 2 (replicate 16 0x15) 0 [], after')"
proof -
  let ?d = "\<lparr>dv_hash = replicate 16 7, dv_type = SINGLE, dv_encrypt = Inr\<rparr>" and ?ph = "replicate 32 0x11 :: bytes"
  obtain q where q: "pack demo_lib demo_data = Inr q" "p_packet_hash q = replicate 32 0x15" using demo_data_sent(2) by blast
  have ph: "?ph = full_hash demo_lib ((3 AND 0x0F) # replicate 16 0x15 @ [0] @ [])"
    by (simp add: full_hash_def sha256_def demo_lib_def demo_tag_def)
  have d: "p_header_type demo_data = HEADER_1" "p_packet_type demo_data = DATA" "p_context demo_data = 0"
    by (simp_all add: demo_data_def new_object_def)
  have "\<exists>raw after after'. relay_along 1 0 ((demo_env (replicate 16 8), demo_hop 2, 0) # [(demo_env (replicate 16 9), demo_hop 1, 0)])
        (insert_transport (te_identity_hash (demo_env (replicate 16 8))) q) = Some (raw, after)
    \<and> relay_along 2 0 (rev after) (wire_1 3 0 (replicate 16 0x15) 0 [])
        = Some (wire_1 3 (0 + of_nat (length [(demo_env (replicate 16 9), demo_hop 1, 0 :: nat)] + 1)) (replicate 16 0x15) 0 [], after')"
    by (rule proof_returns [OF q(1) demo_data_sent(1) d(1,2) _ _ _ _ _ _ ph])
      (use demo_route_ok [of "p_packet_hash q"] demo_return_ok [of ?ph] q(2) d(3) in
        \<open>simp_all add: demo_route_def proof_flags_def packet_type_of_def dest_type_of_def header_type_of_def del: route_ok.simps\<close>)
  with q(1) show ?thesis by (simp add: demo_route_def demo_env_parts del: relay_along.simps)
qed

theorem relayed_once_witness:
  "\<exists>t' raw. inbound (demo_env (replicate 16 8)) 1 0 (Some 0) (wire_2 0x40 3 (replicate 16 8) (replicate 16 7) 0 [5]) (demo_hop 2)
        = Some (Inr (t', [Transmit 1 raw]))
    \<and> inbound (demo_env (replicate 16 8)) 2 0 (Some 1) (wire_2 0x40 9 (replicate 16 8) (replicate 16 7) 0 [5]) t' = Some (Inr (t', []))"
proof -
  let ?E = "demo_env (replicate 16 8)"
  obtain e where "path_of ?E (demo_hop 2) (replicate 16 7) = Some e" "pe_receiving_interface e = Some 1" "pe_hops e = 2"
    using demo_hop_path by blast
  then have r: "routes_over ?E (demo_hop 2) (replicate 16 7) e 1" by (simp add: routes_over_def demo_hop_ready)
  have id: "te_identity_hash ?E = replicate 16 8" by (simp add: demo_env_def)
  have "\<exists>t'. inbound ?E 1 0 (Some 0) (wire_2 0x40 3 (te_identity_hash ?E) (replicate 16 7) 0 [5]) (demo_hop 2)
        = Some (Inr (t', [Transmit 1 (relayed_wire e 0x40 3 (replicate 16 7) 0 [5])]))
      \<and> inbound ?E 2 0 (Some 1) (wire_2 0x40 9 (te_identity_hash ?E) (replicate 16 7) 0 [5]) t' = Some (Inr (t', []))"
    by (rule relayed_once [OF demo_hop_ready(1) r])
      (simp_all add: header_type_of_def data_flags_def packet_type_of_def dest_type_of_def filter_exempt_def demo_hop_ready(2),
       simp_all add: demo_env_def map_store_ok, simp_all add: map_store_def demo_hop_def demo_node_def demo_ifs_def demo_iface_def)
  then show ?thesis unfolding id by blast
qed

definition demo_link_entry :: link_entry where
  "demo_link_entry = \<lparr>le_timestamp = 0, le_next_hop = [], le_outbound_interface = Some 1, le_remaining_hops = 1, le_receiving_interface = Some 0,
     le_hops = 1, le_destination_hash = replicate 16 6, le_validated = False, le_proof_timeout = None\<rparr>"

definition demo_link_node :: "(bytes \<Rightarrow> stored_path option option, bytes \<Rightarrow> identity_entry option, bytes \<Rightarrow> unit option) transport" where
  "demo_link_node = demo_node\<lparr>t_link_table := [(replicate 16 7, demo_link_entry)],
     t_known := [replicate 16 6 \<mapsto> \<lparr>ie_timestamp = 0, ie_packet_hash = [], ie_public_key = replicate 64 1, ie_app_data = []\<rparr>]\<rparr>"

definition demo_link_proof :: bytes where
  "demo_link_proof = wire_1 0x0F 0 (replicate 16 7) LRPROOF (demo_tag 64 (replicate 32 1 @ replicate 16 7 @ replicate 32 2 @ replicate 32 1) @ replicate 32 2)"

theorem link_proof_checked_witness:
  "\<exists>t' i. inbound (demo_env (replicate 16 8)) 1 0 (Some 1) demo_link_proof demo_link_node
        = Some (Inr (t', [Transmit 0 (wire_1 0x0F 1 (replicate 16 7) LRPROOF (drop 19 demo_link_proof))]))
    \<and> link_proof_valid demo_lib (received_packet (demo_env (replicate 16 8)) (if_of (t_ifs demo_link_node) 1) demo_link_proof) i
    \<and> t_link_table t' = tab_assign (replicate 16 7) (demo_link_entry\<lparr>le_validated := True\<rparr>) (t_link_table demo_link_node)"
proof -
  let ?E = "demo_env (replicate 16 8)" and ?t = "demo_link_node"
  let ?i = "(load_public_key demo_lib (replicate 64 1) new_identity)\<lparr>i_app_data := []\<rparr>"
  define dat where "dat = demo_tag 64 (replicate 32 1 @ replicate 16 7 @ replicate 32 2 @ replicate 32 1) @ replicate 32 (2 :: byte)"
  define raw where "raw = demo_link_proof"
  define p where "p = received_packet ?E (if_of (t_ifs ?t) 1) raw"
  have raw: "raw = wire_1 0x0F 0 (replicate 16 7) LRPROOF dat" by (simp add: raw_def demo_link_proof_def dat_def)
  have d: "length dat = 96" "left dat 64 = demo_tag 64 (replicate 32 1 @ replicate 16 7 @ replicate 32 2 @ replicate 32 1)" "mid dat 64 32 = replicate 32 2"
      "drop 19 raw = dat"
    by (simp_all add: dat_def demo_tag_def bytes_simps raw wire_1_def)
  have ifs: "if_of (t_ifs ?t) n = demo_iface\<lparr>if_hash := [word_of_nat n]\<rparr>" for n by (simp add: demo_link_node_def demo_node_def demo_ifs_def)
  have h1: "header_type_of (drop_bit 6 (0x0F AND 0x40 :: byte)) = HEADER_1" by (simp add: header_type_of_def)
  have si: "\<not> if_to_shared_instance (if_of (t_ifs ?t) 1)" by (simp add: ifs demo_iface_def)
  note p = received_wire_1 [OF _ h1 si, of "replicate 16 7" ?E 0 LRPROOF dat, folded raw, folded p_def]
  have pt: "p_packet_type p = PROOF" "p_destination_type p = LINK" using p(11,12) by (simp_all add: packet_type_of_def dest_type_of_def)
  have pub: "get_public_key ?i = replicate 32 1 @ replicate 32 1" "i_sig_pub ?i = Some (replicate 32 1)" "i_pub ?i \<noteq> None"
    by (simp_all add: get_public_key_def load_public_key_def Let_def update_hashes_def bytes_simps)
  have sg: "link_proof_signed p ?i [] = replicate 16 7 @ replicate 32 2 @ replicate 32 1"
    using p(6,8) d pub(1) by (simp add: link_proof_signed_def bytes_simps)
  have v: "identity_validate demo_lib ?i (left dat 64) (link_proof_signed p ?i []) = Inr True"
    unfolding sg using pub(2,3) d by (simp add: identity_validate_def ed_verify_def try_catch_def demo_lib_def demo_tag_def)
  define t0 where "t0 = ?t\<lparr>t_jobs_locked := True\<rparr>"
  have rec: "recall_identity ?E 1 (replicate 16 6) t0 = Inr (Some ?i, t0)"
    by (simp add: recall_identity_def recall_def known_def t0_def demo_link_node_def demo_env_def map_store_def entry_bool_def)
  have t0: "tab_find (replicate 16 7) (t_link_table t0) = Some demo_link_entry" "t_ifs t0 = t_ifs ?t" "\<not> t_jobs_running ?t"
      "t_hashlist t0 = Map.empty" and pa: "path_of ?E ?t (replicate 16 7) = None"
    by (simp_all add: t0_def demo_link_node_def demo_node_def tab_find_def path_of_def find_path_def get_entry_def demo_env_def map_store_def)
  have raw': "with_hops p = wire_1 0x0F 1 (replicate 16 7) LRPROOF dat" using p(2,4) by (simp add: with_hops_def raw wire_1_def bytes_simps)
  have E: "te_lib ?E = demo_lib" "te_transport_enabled ?E" "\<not> te_shared_instance ?E" "ts_get (te_hashes ?E) Map.empty x = None" for x
    by (simp_all add: demo_env_def map_store_def)
  define l' where "l' = demo_link_entry\<lparr>le_validated := True\<rparr>"
  have le: "le_destination_hash demo_link_entry = replicate 16 6" "le_receiving_interface demo_link_entry = Some 0"
    by (simp_all add: demo_link_entry_def)
  have ps: "proof_signalling p = Inr []" using p(8) d(1) by (simp add: proof_signalling_def)
  have tlp: "transport_link_proof ?E 1 p demo_link_entry t0
      = Inr (t0\<lparr>t_link_table := tab_assign (replicate 16 7) l' (t_link_table t0)\<rparr>, [Transmit 0 (with_hops p)])"
    using p(6,8) d(1) ps rec v le
    by (simp add: transport_link_proof_def E try_catch_def transmit_def ifs t0 l'_def) (simp add: demo_iface_def)
  have "packet_filter ?E p t0" using p(5,7) pt E t0(4) by (simp add: packet_filter_def filter_exempt_def seen_def)
  moreover have "\<not> remembered p t0" using p(7) pt by (simp add: remembered_def)
  moreover have "transport_handling ?E 1 1 p t0 = Inr (True, p, t0, [])"
    using p(5-7) pt pa by (simp add: transport_handling_def forward_def link_transport_def t0_def)
  moreover have "local_handling ?E 1 0 1 p t0 = transport_link_proof ?E 1 p demo_link_entry t0"
    using p(6,7) pt t0(1) E by (simp add: local_handling_def link_proof_def) (simp add: demo_link_entry_def)
  ultimately have inb: "inbound ?E 1 0 (Some 1) raw ?t
      = Some (Inr (?t\<lparr>t_link_table := tab_assign (replicate 16 7) l' (t_link_table ?t), t_jobs_locked := False\<rparr>, [Transmit 0 (with_hops p)]))"
    using p(1) tlp t0(3)
    by (simp add: inbound_def await_jobs_idle inbound_body_def Let_def p_def [unfolded One_nat_def, symmetric] t0_def [symmetric] One_nat_def)
      (simp add: t0_def)
  from link_proof_checked [OF inb p_def] p(6,7) pt(1) pa inb raw' d(4) show ?thesis
    unfolding raw_def p_def E(1) by (auto simp: l'_def)
qed

end
