(* ===== verification/Neighbors.thy ===== *)
theory Neighbors
  imports Inbound
begin

text \<open>
  Neighbour liveness (\<open>RNS_NEIGHBOR_PROBING\<close>): the scan for neighbours that forward packets but return
  no proofs, the probe packet to such a neighbour, and what its outcome does to the paths that lead
  over the neighbour.

  \<open>rnd\<close> gives, for each neighbour, the octets drawn for its probe: the payload, the ephemeral key and
  the initialisation vector.  \<open>keys\<close> are the destinations the path store enumerates.
\<close>

abbreviation NEIGHBOR_SUSPICION_WINDOW :: real where "NEIGHBOR_SUSPICION_WINDOW \<equiv> 300"
abbreviation NEIGHBOR_SUSPICION_MIN_PKTS :: "32 word" where "NEIGHBOR_SUSPICION_MIN_PKTS \<equiv> 5"
abbreviation NEIGHBOR_PROBE_RATELIMIT :: real where "NEIGHBOR_PROBE_RATELIMIT \<equiv> 300"
abbreviation NEIGHBOR_PROBE_TIMEOUT :: int where "NEIGHBOR_PROBE_TIMEOUT \<equiv> 15"
abbreviation NEIGHBOR_GRACE :: real where "NEIGHBOR_GRACE \<equiv> 5"

type_synonym probe_draw = "bytes \<Rightarrow> bytes \<times> bytes \<times> bytes"

section \<open>Probes\<close>

definition probe_packet :: "('s, 'k, 'h) tenv \<Rightarrow> bytes \<times> bytes \<times> bytes \<Rightarrow> identity \<Rightarrow> outgoing result" where
  "probe_packet E draws i =
     (let (payload, eph, iv) = draws
      in res_bind (new_destination (te_lib E) [] [] (Some i) OUT SINGLE APP_NAME (ascii ''probe'')) (\<lambda>d :: bytes destination.
         res_bind (packet_to_destination (Some (dest_view_of (te_lib E) eph iv d)) payload) (\<lambda>p.
           Inr \<lparr>og_packet = p, og_attached_interface = None, og_identity = Some i, og_link = None\<rparr>)))"

text \<open>
  The receipt of the probe is the last one in the list of receipts.  When nothing could be sent there is no receipt, and
  the code dereferences a null pointer.
\<close>

definition expect_probe ::
  "real \<Rightarrow> bytes \<Rightarrow> receipt \<Rightarrow> ('s, 'k, 'h) transport \<Rightarrow> ('s, 'k, 'h) transport" where
  "expect_probe now nh r t =
     (let s = (case tab_find nh (t_neighbor_stats t) of Some s \<Rightarrow> s | None \<Rightarrow> new_neighbor_stat)
      in t\<lparr>t_receipts := butlast (t_receipts t) @ [(set_timeout NEIGHBOR_PROBE_TIMEOUT r)\<lparr>rc_probe := Some nh\<rparr>],
           t_neighbor_stats := tab_assign nh
             (s\<lparr>ns_probe_pending := True, ns_pending_probe_hash := rc_truncated_hash r, ns_last_probe_at := now\<rparr>) (t_neighbor_stats t)\<rparr>)"

definition dispatch_neighbor_probe ::
  "('s, 'k, 'h) tenv \<Rightarrow> real \<Rightarrow> probe_draw \<Rightarrow> bytes \<Rightarrow> ('s, 'k, 'h) transport \<Rightarrow>
     (bool result \<times> ('s, 'k, 'h) transport \<times> tevent list) option" where
  "dispatch_neighbor_probe E now rnd nh t =
     (case recall_identity E now nh t of
        Inl e \<Rightarrow> Some (Inl e, t, [])
      | Inr (None, t1) \<Rightarrow> Some (Inr False, t1, [])
      | Inr (Some i, t1) \<Rightarrow>
          (case probe_packet E (rnd nh) i of
             Inl e \<Rightarrow> Some (Inl e, t1, [])
           | Inr g \<Rightarrow>
               map_option (\<lambda>r. case r of
                   Inl e \<Rightarrow> (Inl e, t1, [])
                 | Inr (None, _, t2, evs) \<Rightarrow> (Inl Undefined_behaviour, t2, evs)
                 | Inr (Some r, _, t2, evs) \<Rightarrow> (Inr True, expect_probe now nh r t2, evs))
                 (packet_send E now g t1)))"

fun dispatch_probes ::
  "('s, 'k, 'h) tenv \<Rightarrow> real \<Rightarrow> probe_draw \<Rightarrow> bytes list \<Rightarrow> ('s, 'k, 'h) transport \<Rightarrow>
     (exn option \<times> ('s, 'k, 'h) transport \<times> tevent list) option" where
  "dispatch_probes E now rnd [] t = Some (None, t, [])"
| "dispatch_probes E now rnd (nh # nhs) t =
     (case dispatch_neighbor_probe E now rnd nh t of
        None \<Rightarrow> None
      | Some (Inl e, t1, evs) \<Rightarrow> Some (Some e, t1, evs)
      | Some (Inr _, t1, evs) \<Rightarrow>
          map_option (\<lambda>(e, t2, evs'). (e, t2, evs @ evs')) (dispatch_probes E now rnd nhs t1))"

section \<open>The scan\<close>

definition reset_idle :: "real \<Rightarrow> neighbor_stat \<Rightarrow> neighbor_stat" where
  "reset_idle now s =
     (if now - ns_last_packet_at s > 2 * NEIGHBOR_SUSPICION_WINDOW \<and> (ns_packets_forwarded s \<noteq> 0 \<or> ns_proofs_received s \<noteq> 0)
      then s\<lparr>ns_packets_forwarded := 0, ns_proofs_received := 0\<rparr> else s)"

definition suspicious :: "real \<Rightarrow> neighbor_stat \<Rightarrow> bool" where
  "suspicious now s \<longleftrightarrow>
     \<not> now - ns_last_packet_at s > NEIGHBOR_SUSPICION_WINDOW \<and> \<not> ns_packets_forwarded s < NEIGHBOR_SUSPICION_MIN_PKTS
     \<and> \<not> ns_last_proof_at s > ns_last_packet_at s - NEIGHBOR_GRACE \<and> \<not> ns_probe_pending s
     \<and> \<not> now - ns_last_probe_at s < NEIGHBOR_PROBE_RATELIMIT"

definition scan_neighbor_stats ::
  "('s, 'k, 'h) tenv \<Rightarrow> real \<Rightarrow> probe_draw \<Rightarrow> ('s, 'k, 'h) transport \<Rightarrow> (exn option \<times> ('s, 'k, 'h) transport \<times> tevent list) option" where
  "scan_neighbor_stats E now rnd t =
     (let tbl = map (\<lambda>(nh, s). (nh, reset_idle now s)) (t_neighbor_stats t)
      in dispatch_probes E now rnd (map fst (filter (\<lambda>(_, s). suspicious now s) tbl)) (t\<lparr>t_neighbor_stats := tbl\<rparr>))"

section \<open>The outcome\<close>

text \<open>The loop of \<open>_validate_neighbor\<close> and \<open>_invalidate_neighbor\<close>: every path over the neighbour gets the state \<open>st\<close>.\<close>

definition mark_paths_over ::
  "path_state \<Rightarrow> ('s, 'k, 'h) tenv \<Rightarrow> bytes list \<Rightarrow> bytes \<Rightarrow> ('s, 'k, 'h) transport \<Rightarrow> ('s, 'k, 'h) transport" where
  "mark_paths_over st E keys nh t =
     t\<lparr>t_path_states := foldl (\<lambda>states h.
          case get_entry (te_lib E) (te_paths E) (t_ifs t) (t_paths t) h of
            None \<Rightarrow> states
          | Some e \<Rightarrow>
              if pe_received_from e = nh then snd (mark_path st (te_lib E) (te_paths E) (t_ifs t) (t_paths t) h states)
              else states) (t_path_states t) keys\<rparr>"

definition validate_neighbor ::
  "('s, 'k, 'h) tenv \<Rightarrow> bytes list \<Rightarrow> bytes \<Rightarrow> ('s, 'k, 'h) transport \<Rightarrow> ('s, 'k, 'h) transport" where
  "validate_neighbor = mark_paths_over STATE_RESPONSIVE"

definition invalidate_neighbor ::
  "('s, 'k, 'h) tenv \<Rightarrow> bytes list \<Rightarrow> bytes \<Rightarrow> ('s, 'k, 'h) transport \<Rightarrow> ('s, 'k, 'h) transport" where
  "invalidate_neighbor = mark_paths_over STATE_UNRESPONSIVE"

definition update_stat :: "bytes \<Rightarrow> (neighbor_stat \<Rightarrow> neighbor_stat) \<Rightarrow> ('s, 'k, 'h) transport \<Rightarrow> ('s, 'k, 'h) transport" where
  "update_stat nh f t =
     (case tab_find nh (t_neighbor_stats t) of
        None \<Rightarrow> t
      | Some s \<Rightarrow> t\<lparr>t_neighbor_stats := tab_assign nh (f s) (t_neighbor_stats t)\<rparr>)"

definition neighbor_probe_delivered ::
  "('s, 'k, 'h) tenv \<Rightarrow> bytes list \<Rightarrow> bytes \<Rightarrow> ('s, 'k, 'h) transport \<Rightarrow> ('s, 'k, 'h) transport" where
  "neighbor_probe_delivered E keys nh t =
     validate_neighbor E keys nh
       (update_stat nh (\<lambda>s. s\<lparr>ns_probe_pending := False, ns_pending_probe_hash := [], ns_packets_forwarded := 0,
          ns_proofs_received := 0\<rparr>) t)"

definition neighbor_probe_timed_out ::
  "('s, 'k, 'h) tenv \<Rightarrow> bytes list \<Rightarrow> bytes \<Rightarrow> ('s, 'k, 'h) transport \<Rightarrow> ('s, 'k, 'h) transport" where
  "neighbor_probe_timed_out E keys nh t =
     invalidate_neighbor E keys nh
       (update_stat nh (\<lambda>s. s\<lparr>ns_probe_pending := False, ns_pending_probe_hash := []\<rparr>) t)"

text \<open>
  The handlers of the receipts that \<open>inbound\<close> concluded or \<open>jobs\<close> found expired: those of a probe run
  here, those of the application are not modelled.
\<close>

fun run_receipt_handlers ::
  "('s, 'k, 'h) tenv \<Rightarrow> bytes list \<Rightarrow> tevent list \<Rightarrow> ('s, 'k, 'h) transport \<Rightarrow> ('s, 'k, 'h) transport" where
  "run_receipt_handlers E keys [] t = t"
| "run_receipt_handlers E keys (Receipt_concluded r # evs) t =
     run_receipt_handlers E keys evs
       (case rc_probe r of Some nh \<Rightarrow> neighbor_probe_delivered E keys nh t | None \<Rightarrow> t)"
| "run_receipt_handlers E keys (Receipt_expired r # evs) t =
     run_receipt_handlers E keys evs
       (case rc_probe r of Some nh \<Rightarrow> neighbor_probe_timed_out E keys nh t | None \<Rightarrow> t)"
| "run_receipt_handlers E keys (_ # evs) t = run_receipt_handlers E keys evs t"

section \<open>Lemmas\<close>

lemma mark_paths_over_states:
  "t_path_states (mark_paths_over st E keys nh t) h =
     (if h \<in> set keys \<and> (\<exists>e. path_of E t h = Some e \<and> pe_received_from e = nh) then Some st else t_path_states t h)"
proof -
  let ?f = "\<lambda>states h. case get_entry (te_lib E) (te_paths E) (t_ifs t) (t_paths t) h of
            None \<Rightarrow> states
          | Some e \<Rightarrow> if pe_received_from e = nh then snd (mark_path st (te_lib E) (te_paths E) (t_ifs t) (t_paths t) h states) else states"
  have step: "?f states k h = (if k = h \<and> (\<exists>e. path_of E t h = Some e \<and> pe_received_from e = nh) then Some st else states h)" for states k
    by (auto simp: path_of_def find_path_def mark_path_def split: option.splits)
  have "foldl ?f states keys h = (if h \<in> set keys \<and> (\<exists>e. path_of E t h = Some e \<and> pe_received_from e = nh) then Some st else states h)" for states
  proof (induction keys arbitrary: states)
    case (Cons k keys)
    show ?case using Cons.IH [of "?f states k"] step [of states k] by auto
  qed simp
  then show ?thesis by (simp add: mark_paths_over_def)
qed

text \<open>Only the path states and the neighbour table change.\<close>

definition only_neighbors :: "('s, 'k, 'h) transport \<Rightarrow> ('s, 'k, 'h) transport \<Rightarrow> bool" where
  "only_neighbors t t' \<longleftrightarrow> t' = t\<lparr>t_path_states := t_path_states t', t_neighbor_stats := t_neighbor_stats t'\<rparr>"

lemma only_neighbors_refl [simp]: "only_neighbors t t" by (simp add: only_neighbors_def)

lemma only_neighbors_trans: "only_neighbors t u \<Longrightarrow> only_neighbors u v \<Longrightarrow> only_neighbors t v"
  unfolding only_neighbors_def by (cases t; cases u; cases v) simp

lemma only_neighbors_fields:
  assumes "only_neighbors t t'"
  shows "t_ifs t' = t_ifs t" "t_destinations t' = t_destinations t" "t_paths t' = t_paths t" "t_known t' = t_known t"
    "t_hashlist t' = t_hashlist t" "t_announce_table t' = t_announce_table t" "t_held_announces t' = t_held_announces t"
    "t_link_table t' = t_link_table t" "t_reverse_table t' = t_reverse_table t" "t_path_requests t' = t_path_requests t"
    "t_discovery_path_requests t' = t_discovery_path_requests t" "t_discovery_pr_tags t' = t_discovery_pr_tags t"
    "t_receipts t' = t_receipts t" "t_jobs_running t' = t_jobs_running t" "t_jobs_locked t' = t_jobs_locked t"
    "t_pending_local_path_requests t' = t_pending_local_path_requests t" "t_announce_rate_table t' = t_announce_rate_table t"
    "t_active_links t' = t_active_links t" "t_pending_links t' = t_pending_links t"
  using assms unfolding only_neighbors_def by (cases t; cases t'; simp)+

lemma outcome_frame:
  "only_neighbors t (neighbor_probe_delivered E keys nh t)" "only_neighbors t (neighbor_probe_timed_out E keys nh t)"
proof -
  have "only_neighbors t (update_stat nh f t)" for f
    by (auto simp: only_neighbors_def update_stat_def split: option.splits)
  moreover have "only_neighbors t (mark_paths_over st E keys nh t)" for st t
    by (simp add: only_neighbors_def mark_paths_over_def)
  ultimately show "only_neighbors t (neighbor_probe_delivered E keys nh t)" "only_neighbors t (neighbor_probe_timed_out E keys nh t)"
    by (auto simp: neighbor_probe_delivered_def neighbor_probe_timed_out_def validate_neighbor_def invalidate_neighbor_def
        intro: only_neighbors_trans)
qed

lemma handlers_frame: "only_neighbors t (run_receipt_handlers E keys evs t)"
  by (induction E keys evs t rule: run_receipt_handlers.induct)
    (auto intro: only_neighbors_trans outcome_frame split: option.splits)

lemma dispatch_hangs:
  assumes "t_jobs_running t" and "recall_identity E now nh t = Inr (Some i, t1)" and "probe_packet E (rnd nh) i = Inr g"
    and "prepare_send E now g = Inr g'" and "p_destination (og_packet g') \<noteq> None"
  shows "dispatch_neighbor_probe E now rnd nh t = None"
proof -
  have "t_jobs_running t1" using assms(1,2) by (auto simp: recall_identity_def res_bind_eq_Inr)
  then show ?thesis
    using assms(2-5) by (auto simp: dispatch_neighbor_probe_def packet_send_def outbound_def await_jobs_running)
qed

text \<open>A probe to a known identity can always be built and packed.\<close>

lemma identity_encrypt_total:
  assumes lib: "crypto_ok lib" and i: "i_pub i \<noteq> None" "length (i_pub_bytes i) = 32"
    and eph: "length eph = 32" "length iv = 16" "snd (x25519_eval lib eph (Some (i_pub_bytes i)))"
  shows "\<exists>ct. identity_encrypt lib eph iv i pt = Inr ct \<and> length ct = 32 + (16 * (length pt div 16 + 1) + 48)"
proof -
  let ?epub = "fst (x25519_eval lib eph None)" and ?shared = "fst (x25519_eval lib eph (Some (i_pub_bytes i)))"
  have "length ?shared = 32" by (simp add: crypto_okD lib)
  then have shared: "?shared \<noteq> []" by (metis length_0_conv zero_neq_numeral)
  obtain dk where dk: "hkdf lib 64 ?shared (i_hash i) [] = Inr dk" "length dk = 64"
    using shared by (simp add: hkdf_eq crypto_okD lib)
  obtain t where t: "new_token dk MODE_AES = Inr t" using new_token_64 [OF dk(2)] by blast
  obtain tok where tok: "token_encrypt lib iv t pt = Inr tok" "length tok = 16 * (length pt div 16 + 1) + 48"
    using token_encrypt_decrypt [OF lib eph(2) t] by blast
  have "exchange lib \<lparr>privateKey = eph, publicKey = ?epub\<rparr> (i_pub_bytes i) = Inr ?shared"
    using eph i(2) by (simp add: exchange_def Let_def split_beta)
  then have "identity_encrypt lib eph iv i pt = Inr (?epub @ tok)"
    using eph dk t tok(1) i(1) by (simp add: identity_encrypt_def X25519PrivateKey_def Let_def)
  then show ?thesis using tok(2) by (simp add: crypto_okD lib)
qed

lemma probe_name: "DOT \<notin> set APP_NAME"
  by (simp add: APP_NAME_def ascii_def of_char_def)

lemma probe_sendable:
  assumes lib: "crypto_ok (te_lib E)" and i: "i_pub i \<noteq> None" "length (i_pub_bytes i) = 32"
    and draws: "length payload = 16" "length eph = 32" "length iv = 16"
      "snd (x25519_eval (te_lib E) eph (Some (i_pub_bytes i)))"
  shows "\<exists>g g'. probe_packet E (payload, eph, iv) i = Inr g \<and> prepare_send E now g = Inr g' \<and> p_destination (og_packet g') \<noteq> None"
proof -
  obtain d :: "bytes destination" where d: "new_destination (te_lib E) [] [] (Some i) OUT SINGLE APP_NAME (ascii ''probe'') = Inr d"
      "d_type d = SINGLE" "d_identity d = Some i" "length (d_hash d) = 16"
    using probe_name length_truncated_hash [OF lib]
    by (auto simp: new_destination_def expand_name_def Let_def destination_hash_def name_hash_def new_destination_object_def)
  let ?v = "dest_view_of (te_lib E) eph iv d"
  obtain ct where ct: "identity_encrypt (te_lib E) eph iv i payload = Inr ct" "length ct = 112"
    using identity_encrypt_total [OF lib i draws(2,3,4), of payload] draws(1) by auto
  then have v: "dv_encrypt ?v payload = Inr ct" "dv_type ?v = SINGLE"
    using d by (simp_all add: dest_view_of_def destination_encrypt_def)
  obtain p where p: "packet_to_destination (Some ?v) payload = Inr p" and f: "p_destination p = Some ?v" "p_destination_link p = None"
      "p_data p = payload" "p_packet_type p = DATA" "p_header_type p = HEADER_1" "p_MTU p = MTU" "p_context p = CONTEXT_NONE"
      "\<not> p_sent p" "\<not> p_packed p"
    using draws(1) by (simp add: packet_to_destination_def new_object_def Let_def wire_sizes with_flags_def get_packed_flags_def)
  obtain q where "pack (te_lib E) p = Inr q" "p_destination q = Some ?v"
    using f v d(4) ct(2)
    by (auto simp: pack_def pack_body_def sent_in_clear_def Let_def wire_sizes update_hash_def get_hash_def get_hashable_part_def dest_view_of_def)
  with p d(1) f v show ?thesis by (auto simp: probe_packet_def prepare_send_def)
qed

end
