(* ===== verification/Jobs.thy ===== *)
theory Jobs
  imports Neighbors
begin

text \<open>
  The periodic work of the transport layer (\<open>Transport::loop\<close>, \<open>Transport::jobs\<close>): a sequence of
  passes over the links, receipts, announces, tables and neighbours, each at its own interval, then
  the queueing of path requests for links that were never established.

  A pass may throw; what it did before stays, and the rest of the sequence is left out.  A pass may
  not return (\<open>None\<close>): probes are sent while \<open>_jobs_running\<close> is set.  Announces to retransmit are
  events: \<open>jobs\<close> sends them after the passes.  Not modelled: resources of links (\<open>tick_resources\<close>), the
  tunnel table (nothing fills it), traffic statistics, the announces of management destinations.
\<close>

abbreviation LINK_TIMEOUT :: real where "LINK_TIMEOUT \<equiv> 900"
abbreviation REVERSE_TIMEOUT :: real where "REVERSE_TIMEOUT \<equiv> 480"
abbreviation PATH_REQUEST_GATE_TIMEOUT :: real where "PATH_REQUEST_GATE_TIMEOUT \<equiv> 120"
abbreviation PATH_REQUEST_MI :: real where "PATH_REQUEST_MI \<equiv> 20"

record timers =
  tm_jobs_last_run :: real
  tm_links_last_checked :: real
  tm_receipts_last_checked :: real
  tm_announces_last_checked :: real
  tm_pending_prs_last_checked :: real
  tm_tables_last_culled :: real
  tm_blackhole_last_checked :: real
  tm_interface_last_jobs :: real

text \<open>The state during a run: \<open>jr_path_requests\<close> are the destinations to search, with the interface to avoid.\<close>

record ('s, 'k, 'h) job_run =
  jr_transport :: "('s, 'k, 'h) transport"
  jr_timers :: timers
  jr_path_requests :: "(bytes, nat option) table"
  jr_outgoing :: "tevent list"
  jr_events :: "tevent list"

type_synonym ('s, 'k, 'h) job_pass = "('s, 'k, 'h) job_run \<Rightarrow> (exn option \<times> ('s, 'k, 'h) job_run) option"

fun run_passes :: "('s, 'k, 'h) job_pass list \<Rightarrow> ('s, 'k, 'h) job_pass" where
  "run_passes [] s = Some (None, s)"
| "run_passes (f # fs) s =
     (case f s of
        None \<Rightarrow> None
      | Some (Some e, s') \<Rightarrow> Some (Some e, s')
      | Some (None, s') \<Rightarrow> run_passes fs s')"

definition due :: "real \<Rightarrow> real \<Rightarrow> real \<Rightarrow> bool" where
  "due now prev interval \<longleftrightarrow> now > prev + interval"

definition last_path_request :: "bytes \<Rightarrow> ('s, 'k, 'h) transport \<Rightarrow> real" where
  "last_path_request dh t = (case tab_find dh (t_path_requests t) of Some x \<Rightarrow> x | None \<Rightarrow> 0)"

definition drop_path :: "('s, 'k, 'h) tenv \<Rightarrow> bytes \<Rightarrow> ('s, 'k, 'h) transport \<Rightarrow> ('s, 'k, 'h) transport" where
  "drop_path E dh t = t\<lparr>t_paths := snd (expire_path (te_paths E) dh (t_paths t))\<rparr>"

section \<open>Links and receipts\<close>

text \<open>A pending link that was closed: a node that is no transport node forgets the path and searches a new one.\<close>

definition close_pending ::
  "('s, 'k, 'h) tenv \<Rightarrow> real \<Rightarrow> link \<Rightarrow> ('s, 'k, 'h) transport \<times> (bytes, nat option) table \<Rightarrow>
     ('s, 'k, 'h) transport \<times> (bytes, nat option) table" where
  "close_pending E now l = (\<lambda>(t, prs).
     if l_status l = CLOSED \<and> \<not> te_transport_enabled E then
       let dh = l_destination_hash l; t1 = drop_path E dh t
       in (t1, if \<not> te_shared_instance E \<and> now - last_path_request dh t1 > PATH_REQUEST_MI then tab_insert dh None prs else prs)
     else (t, prs))"

definition links_pass :: "('s, 'k, 'h) tenv \<Rightarrow> real \<Rightarrow> ('s, 'k, 'h) job_pass" where
  "links_pass E now s =
     (if due now (tm_links_last_checked (jr_timers s)) 1 then
        let t = jr_transport s; (t1, prs) = fold (close_pending E now) (t_pending_links t) (t, jr_path_requests s)
        in Some (None, s\<lparr>jr_transport := t1\<lparr>t_pending_links := filter (\<lambda>l. l_status l \<noteq> CLOSED) (t_pending_links t),
                                         t_active_links := filter (\<lambda>l. l_status l \<noteq> CLOSED) (t_active_links t)\<rparr>,
                         jr_path_requests := prs, jr_timers := (jr_timers s)\<lparr>tm_links_last_checked := now\<rparr>\<rparr>)
      else Some (None, s))"

definition receipts_pass :: "('s, 'k, 'h) tenv \<Rightarrow> real \<Rightarrow> bytes list \<Rightarrow> ('s, 'k, 'h) job_pass" where
  "receipts_pass E now keys s =
     (if due now (tm_receipts_last_checked (jr_timers s)) 1 then
        let t = jr_transport s; (kept, expired) = receipts_job now (t_receipts t); evs = map Receipt_expired expired
        in Some (None, s\<lparr>jr_transport := run_receipt_handlers E keys evs (t\<lparr>t_receipts := kept\<rparr>),
                         jr_events := jr_events s @ evs, jr_timers := (jr_timers s)\<lparr>tm_receipts_last_checked := now\<rparr>\<rparr>)
      else Some (None, s))"

section \<open>Announces\<close>

text \<open>What the loop over the announce table had done when an entry made it throw.\<close>

fun announce_partial ::
  "('s, 'k, 'h) tenv \<Rightarrow> real \<Rightarrow> (bytes, announce_entry) table \<Rightarrow> ('s, 'k, 'h) transport \<Rightarrow> tevent list \<times> ('s, 'k, 'h) transport" where
  "announce_partial E now [] t = ([], t)"
| "announce_partial E now ((dh, a) # rest) t =
     (case announce_loop E now [(dh, a)] t of
        Inl e \<Rightarrow> ([], t\<lparr>t_announce_table := tab_assign dh
                (a\<lparr>ae_retransmit_timeout := now + PATHFINDER_G + PATHFINDER_RW, ae_retries := ae_retries a + 1\<rparr>) (t_announce_table t)\<rparr>)
      | Inr (_, evs, t1) \<Rightarrow> let (evs', t2) = announce_partial E now rest t1 in (evs @ evs', t2))"

definition announces_pass :: "('s, 'k, 'h) tenv \<Rightarrow> real \<Rightarrow> ('s, 'k, 'h) job_pass" where
  "announces_pass E now s =
     (if due now (tm_announces_last_checked (jr_timers s)) 1 then
        (case announce_job E now (jr_transport s) of
           Inr (t1, evs) \<Rightarrow>
             Some (None, s\<lparr>jr_transport := t1, jr_outgoing := evs, jr_timers := (jr_timers s)\<lparr>tm_announces_last_checked := now\<rparr>\<rparr>)
         | Inl e \<Rightarrow>
             let (evs, t1) = announce_partial E now (t_announce_table (jr_transport s)) (jr_transport s)
             in Some (Some e, s\<lparr>jr_transport := t1, jr_outgoing := evs\<rparr>))
      else Some (None, s))"

section \<open>Tables\<close>

text \<open>
  A table is not changed while it is traversed: the keys of its stale entries are collected, in the
  order of the table, and erased one after the other.
\<close>

definition stale_keys :: "('e \<Rightarrow> bool) \<Rightarrow> ('k, 'e) table \<Rightarrow> 'k list" where
  "stale_keys stale m = map fst (filter (\<lambda>(_, e). stale e) m)"

definition remove_entries :: "'k list \<Rightarrow> ('k, 'e) table \<Rightarrow> ('k, 'e) table" where
  "remove_entries ks m = fold tab_erase ks m"

text \<open>The key of the table is the address of a destination; it is looked up among the hashes of the interfaces.\<close>

definition pending_prs_pass :: "real \<Rightarrow> ('s, 'k, 'h) job_pass" where
  "pending_prs_pass now s =
     (if due now (tm_pending_prs_last_checked (jr_timers s)) 30 then
        let t = jr_transport s;
            stale_local_prs = filter (\<lambda>dh. find_interface_from_hash (t_ifs t) dh = None) (map fst (t_pending_local_path_requests t))
        in Some (None, s\<lparr>jr_transport := t\<lparr>t_pending_local_path_requests :=
             remove_entries stale_local_prs (t_pending_local_path_requests t)\<rparr>,
             jr_timers := (jr_timers s)\<lparr>tm_pending_prs_last_checked := now\<rparr>\<rparr>)
      else Some (None, s))"

definition cull_path_states :: "('s, 'k, 'h) tenv \<Rightarrow> ('s, 'k, 'h) transport \<Rightarrow> ('s, 'k, 'h) transport" where
  "cull_path_states E t =
     t\<lparr>t_path_states := (\<lambda>h. if has_path (te_paths E) (t_paths t) h then t_path_states t h else None)\<rparr>"

definition cull_reverse :: "real \<Rightarrow> ('s, 'k, 'h) transport \<Rightarrow> ('s, 'k, 'h) transport" where
  "cull_reverse now t =
     (let stale_reverse_entries = stale_keys (\<lambda>r. now > re_timestamp r + REVERSE_TIMEOUT) (t_reverse_table t)
      in t\<lparr>t_reverse_table := remove_entries stale_reverse_entries (t_reverse_table t)\<rparr>)"

text \<open>
  A link request whose proof did not come in time: whether to search a path to its destination, and
  the interface to avoid.
\<close>

definition overdue :: "real \<Rightarrow> link_entry \<Rightarrow> bool" where
  "overdue now l \<longleftrightarrow> \<not> le_validated l \<and> (case le_proof_timeout l of Some x \<Rightarrow> now > x | None \<Rightarrow> False)"

definition rediscover ::
  "('s, 'k, 'h) tenv \<Rightarrow> real \<Rightarrow> link_entry \<Rightarrow> ('s, 'k, 'h) transport \<Rightarrow> bool \<times> nat option \<times> ('s, 'k, 'h) transport" where
  "rediscover E now l t =
     (let dh = le_destination_hash l; throttled = now - last_path_request dh t < PATH_REQUEST_MI;
          boundary = (case le_receiving_interface l of Some n \<Rightarrow> if_mode (if_of (t_ifs t) n) = MODE_BOUNDARY | None \<Rightarrow> True);
          marked = (if te_transport_enabled E \<and> \<not> boundary
                    then t\<lparr>t_path_states := snd (mark_path STATE_UNRESPONSIVE (te_lib E) (te_paths E) (t_ifs t) (t_paths t) dh (t_path_states t))\<rparr>
                    else t)
      in if \<not> has_path (te_paths E) (t_paths t) dh then (True, None, t)
         else if \<not> throttled \<and> le_hops l = 0 then (True, None, t)
         else if \<not> throttled \<and> hops_to (te_lib E) (te_paths E) (t_ifs t) (t_paths t) dh = 1 then (True, le_receiving_interface l, marked)
         else if \<not> throttled \<and> le_hops l = 1 then (True, le_receiving_interface l, marked)
         else (path_is_unresponsive (t_path_states t) dh, None, t))"

text \<open>The loop over the link table: the links to remove, or the exception that ends the loop.\<close>

fun cull_links ::
  "('s, 'k, 'h) tenv \<Rightarrow> real \<Rightarrow> probe_draw \<Rightarrow> (bytes, link_entry) table \<Rightarrow> ('s, 'k, 'h) transport \<Rightarrow> (bytes, nat option) table \<Rightarrow>
     (exn option \<times> bytes list \<times> ('s, 'k, 'h) transport \<times> (bytes, nat option) table \<times> tevent list) option" where
  "cull_links E now rnd [] t prs = Some (None, [], t, prs, [])"
| "cull_links E now rnd ((lid, l) # ls) t prs =
     (if overdue now l then
        let dh = le_destination_hash l; (wanted, blocked, t1) = rediscover E now l t
        in (case dispatch_neighbor_probe E now rnd (le_next_hop l) t1 of
              None \<Rightarrow> None
            | Some (Inl e, t2, evs) \<Rightarrow> Some (Some e, [], t2, prs, evs)
            | Some (Inr _, t2, evs) \<Rightarrow>
                map_option (\<lambda>(e, stale, t3, prs', evs'). (e, lid # stale, t3, prs', evs @ evs'))
                  (cull_links E now rnd ls (if wanted \<and> \<not> te_transport_enabled E then drop_path E dh t2 else t2)
                     (if wanted then tab_insert dh blocked prs else prs)))
      else
        map_option (\<lambda>(e, stale, r). (e, if le_validated l \<and> now > le_timestamp l + LINK_TIMEOUT then lid # stale else stale, r))
          (cull_links E now rnd ls t prs))"

definition cull_requests :: "real \<Rightarrow> ('s, 'k, 'h) transport \<Rightarrow> ('s, 'k, 'h) transport" where
  "cull_requests now t =
     (let stale_path_requests = stale_keys (\<lambda>x. now > x + PATH_REQUEST_GATE_TIMEOUT) (t_path_requests t);
          stale_discovery_path_requests = stale_keys (\<lambda>e. now > pr_timeout e) (t_discovery_path_requests t)
      in t\<lparr>t_path_requests := remove_entries stale_path_requests (t_path_requests t),
           t_discovery_path_requests := remove_entries stale_discovery_path_requests (t_discovery_path_requests t)\<rparr>)"

text \<open>The exception of a cull is caught there; only undefined behaviour goes further.\<close>

definition tables_pass :: "('s, 'k, 'h) tenv \<Rightarrow> real \<Rightarrow> probe_draw \<Rightarrow> ('s, 'k, 'h) job_pass" where
  "tables_pass E now rnd s =
     (if due now (tm_tables_last_culled (jr_timers s)) 60 then
        let t = cull_reverse now (cull_path_states E (jr_transport s))
        in (case cull_links E now rnd (t_link_table t) t (jr_path_requests s) of
              None \<Rightarrow> None
            | Some (e, stale, t1, prs, evs) \<Rightarrow>
                let t2 = (if e = None then t1\<lparr>t_link_table := remove_entries stale (t_link_table t1)\<rparr> else t1);
                    s1 = s\<lparr>jr_path_requests := prs, jr_events := jr_events s @ evs\<rparr>
                in if e = Some Undefined_behaviour then Some (e, s1\<lparr>jr_transport := t2\<rparr>)
                   else Some (None, s1\<lparr>jr_transport := cull_requests now t2,
                                       jr_timers := (jr_timers s)\<lparr>tm_tables_last_culled := now\<rparr>\<rparr>))
      else Some (None, s))"

definition scan_pass :: "('s, 'k, 'h) tenv \<Rightarrow> real \<Rightarrow> probe_draw \<Rightarrow> ('s, 'k, 'h) job_pass" where
  "scan_pass E now rnd s =
     (if te_transport_enabled E \<and> te_probe_neighbors E then
        map_option (\<lambda>(e, t1, evs).
            (if e = Some Undefined_behaviour then e else None, s\<lparr>jr_transport := t1, jr_events := jr_events s @ evs\<rparr>))
          (scan_neighbor_stats E now rnd (jr_transport s))
      else Some (None, s))"

definition blackhole_pass :: "real \<Rightarrow> ('s, 'k, 'h) job_pass" where
  "blackhole_pass now s =
     (if due now (tm_blackhole_last_checked (jr_timers s)) 60 then
        let t = jr_transport s
        in Some (None, s\<lparr>jr_transport := t\<lparr>t_blackholed := (\<lambda>h. case t_blackholed t h of
               Some b \<Rightarrow> if bh_until b > 0 \<and> now > bh_until b then None else Some b
             | None \<Rightarrow> None)\<rparr>, jr_timers := (jr_timers s)\<lparr>tm_blackhole_last_checked := now\<rparr>\<rparr>)
      else Some (None, s))"

text \<open>Interfaces by descending bitrate; the order of equal ones, which \<open>std::sort\<close> leaves open, is kept.\<close>

definition prioritize_interfaces :: "interfaces \<Rightarrow> interfaces" where
  "prioritize_interfaces ifs = ifs\<lparr>if_ids := sort_key (\<lambda>n. - int (if_bitrate (if_of ifs n))) (if_ids ifs)\<rparr>"

definition interfaces_pass :: "real \<Rightarrow> ('s, 'k, 'h) job_pass" where
  "interfaces_pass now s =
     (if due now (tm_interface_last_jobs (jr_timers s)) 5 then
        let t = jr_transport s
        in Some (None, s\<lparr>jr_transport := t\<lparr>t_ifs := prioritize_interfaces (t_ifs t)\<rparr>,
             jr_timers := (jr_timers s)\<lparr>tm_interface_last_jobs := now\<rparr>\<rparr>)
      else Some (None, s))"

section \<open>Jobs\<close>

fun queue_discovery :: "(bytes, nat option) table \<Rightarrow> (bytes \<times> nat option) list \<Rightarrow> (bytes \<times> nat option) list" where
  "queue_discovery [] q = q"
| "queue_discovery ((dh, blocked) # prs) q =
     (if dh \<in> set (map fst q) then queue_discovery prs q
      else if length q \<ge> MAX_QUEUED_DISCOVERY_PRS then q
      else queue_discovery prs (q @ [(dh, blocked)]))"

definition all_passes :: "('s, 'k, 'h) tenv \<Rightarrow> real \<Rightarrow> probe_draw \<Rightarrow> bytes list \<Rightarrow> ('s, 'k, 'h) job_pass" where
  "all_passes E now rnd keys =
     run_passes [links_pass E now, receipts_pass E now keys, announces_pass E now, pending_prs_pass now, tables_pass E now rnd,
       scan_pass E now rnd, blackhole_pass now, interfaces_pass now]"

definition jobs ::
  "('s, 'k, 'h) tenv \<Rightarrow> real \<Rightarrow> probe_draw \<Rightarrow> (nat \<Rightarrow> bytes) \<Rightarrow> bytes list \<Rightarrow> timers \<Rightarrow> ('s, 'k, 'h) transport \<Rightarrow>
     (timers \<times> ('s, 'k, 'h) transport \<times> tevent list) result option" where
  "jobs E now rnd rnds keys tm t =
     (let s0 = \<lparr>jr_transport = t\<lparr>t_jobs_running := True\<rparr>, jr_timers = tm, jr_path_requests = [], jr_outgoing = [], jr_events = []\<rparr>
      in case (if t_jobs_locked t then Some (None, s0) else all_passes E now rnd keys s0) of
           None \<Rightarrow> None
         | Some (e, s) \<Rightarrow>
             if e = Some Undefined_behaviour then Some (Inl Undefined_behaviour)
             else
               let t1 = (jr_transport s)\<lparr>t_jobs_running := False\<rparr>;
                   t2 = t1\<lparr>t_pending_discovery_prs := queue_discovery (jr_path_requests s) (t_pending_discovery_prs t1)\<rparr>
               in Some (res_bind (handle_disovery_path_requests E now rnds t2) (\<lambda>(t3, evs).
                    Inr (jr_timers s, t3, jr_events s @ jr_outgoing s @ evs))))"

definition transport_loop ::
  "('s, 'k, 'h) tenv \<Rightarrow> real \<Rightarrow> probe_draw \<Rightarrow> (nat \<Rightarrow> bytes) \<Rightarrow> bytes list \<Rightarrow> timers \<Rightarrow> ('s, 'k, 'h) transport \<Rightarrow>
     (timers \<times> ('s, 'k, 'h) transport \<times> tevent list) result option" where
  "transport_loop E now rnd rnds keys tm t =
     (if due now (tm_jobs_last_run tm) (1 / 4) then
        map_option (\<lambda>r. res_bind r (\<lambda>(tm', t', evs). Inr (tm'\<lparr>tm_jobs_last_run := now\<rparr>, t', evs)))
          (jobs E now rnd rnds keys tm t)
      else Some (Inr (tm, t, [])))"

section \<open>Lemmas\<close>

subsection \<open>What a run leaves alone\<close>

lemma fold_close_pending:
  assumes "fold (close_pending E now) ls (t, prs) = (t', prs')"
  shows "t' = t\<lparr>t_paths := t_paths t'\<rparr>"
  using assms
proof (induction ls arbitrary: t prs)
  case (Cons l ls)
  obtain t1 prs1 where 1: "close_pending E now l (t, prs) = (t1, prs1)" by fastforce
  have "t1 = t\<lparr>t_paths := t_paths t1\<rparr>" using 1 by (auto simp: close_pending_def Let_def drop_path_def split: if_splits)
  moreover have "t' = t1\<lparr>t_paths := t_paths t'\<rparr>" using Cons 1 by simp
  ultimately show ?case by (metis transport.surjective transport.update_convs(3))
qed simp

lemma receipts_pass_frame:
  "\<exists>s'. receipts_pass E now keys s = Some (None, s') \<and> only_neighbors ((jr_transport s)\<lparr>t_receipts := t_receipts (jr_transport s')\<rparr>) (jr_transport s')
     \<and> tm_tables_last_culled (jr_timers s') = tm_tables_last_culled (jr_timers s)"
  using handlers_frame [of "(jr_transport s)\<lparr>t_receipts := fst (receipts_job now (t_receipts (jr_transport s)))\<rparr>" E keys
      "map Receipt_expired (snd (receipts_job now (t_receipts (jr_transport s))))"]
  by (auto simp: receipts_pass_def Let_def case_prod_beta only_neighbors_fields)

lemma links_pass_frame:
  "\<exists>s' ps pl al. links_pass E now s = Some (None, s') \<and> tm_tables_last_culled (jr_timers s') = tm_tables_last_culled (jr_timers s)
     \<and> jr_transport s' = (jr_transport s)\<lparr>t_paths := ps, t_pending_links := pl, t_active_links := al\<rparr>"
proof (cases "due now (tm_links_last_checked (jr_timers s)) 1")
  case True
  obtain t1 prs where f: "fold (close_pending E now) (t_pending_links (jr_transport s)) (jr_transport s, jr_path_requests s) = (t1, prs)" by fastforce
  then obtain ps where "t1 = (jr_transport s)\<lparr>t_paths := ps\<rparr>" using fold_close_pending by blast
  with True f show ?thesis by (auto simp: links_pass_def Let_def)
next
  case False
  have "jr_transport s = (jr_transport s)\<lparr>t_paths := t_paths (jr_transport s), t_pending_links := t_pending_links (jr_transport s),
      t_active_links := t_active_links (jr_transport s)\<rparr>" by simp
  with False show ?thesis unfolding links_pass_def by (metis (no_types))
qed

lemma announce_job_empty: "t_announce_table t = [] \<Longrightarrow> announce_job E now t = Inr (t, [])"
  by (cases t) (simp add: announce_job_def)

text \<open>The pass over the announce table changes that table and what is known of identities, and nothing else.\<close>

definition only_announces :: "('s, 'k, 'h) transport \<Rightarrow> ('s, 'k, 'h) transport \<Rightarrow> bool" where
  "only_announces t t' \<longleftrightarrow> t' = t\<lparr>t_known := t_known t', t_announce_table := t_announce_table t'\<rparr>"

lemma only_announces_trans: "only_announces t u \<Longrightarrow> only_announces u v \<Longrightarrow> only_announces t v"
  unfolding only_announces_def by (cases t; cases u; cases v) simp

lemma only_announces_fields:
  assumes "only_announces t t'"
  shows "t_link_table t' = t_link_table t" "t_neighbor_stats t' = t_neighbor_stats t" "t_jobs_running t' = t_jobs_running t"
    "t_ifs t' = t_ifs t" "t_paths t' = t_paths t" "t_discovery_pr_tags t' = t_discovery_pr_tags t"
    "t_reverse_table t' = t_reverse_table t" "t_held_announces t' = t_held_announces t"
  using assms unfolding only_announces_def by (cases t; cases t'; simp)+

lemma announce_loop_frame:
  assumes "announce_loop E now tbl t = Inr (c, evs, t')"
  shows "only_announces t t'"
    and "\<lbrakk>announces_ok E (t_announce_table t); fst ` set tbl \<subseteq> fst ` set (t_announce_table t)\<rbrakk> \<Longrightarrow> announces_ok E (t_announce_table t')"
  using assms
proof (induction tbl arbitrary: t c evs t')
  case Nil
  { case 1 then show ?case by (simp add: only_announces_def) next case 2 then show ?case by simp }
next
  case (Cons x tbl)
  obtain dh a where x: "x = (dh, a)" by (cases x)
  let ?a1 = "a\<lparr>ae_retransmit_timeout := now + PATHFINDER_G + PATHFINDER_RW, ae_retries := ae_retries a + 1\<rparr>"
  have step: "\<exists>t2 c' evs'. announce_loop E now tbl t2 = Inr (c', evs', t') \<and> only_announces t t2
      \<and> (t_announce_table t2 = t_announce_table t \<or> t_announce_table t2 = tab_assign dh ?a1 (t_announce_table t))"
    if h: "announce_loop E now (x # tbl) t = Inr (c, evs, t')" for t c evs t'
  proof (cases "completed a \<or> \<not> now > ae_retransmit_timeout a")
    case True
    with h x have "\<exists>c' evs'. announce_loop E now tbl t = Inr (c', evs', t')" by (auto simp: res_bind_eq_Inr split: if_splits)
    moreover have "only_announces t t" by (simp add: only_announces_def)
    ultimately show ?thesis by blast
  next
    case False
    let ?t1 = "t\<lparr>t_announce_table := tab_assign dh ?a1 (t_announce_table t)\<rparr>"
    from False h x obtain i t2 where r: "recall_identity E now (p_destination_hash (ae_packet a)) ?t1 = Inr (i, t2)"
      and "\<exists>c' evs'. announce_loop E now tbl t2 = Inr (c', evs', t')"
      by (auto simp: res_bind_eq_Inr Let_def split: if_splits)
    moreover have "only_announces t t2" "t_announce_table t2 = tab_assign dh ?a1 (t_announce_table t)"
      using recall_only_known [OF r] unfolding only_announces_def only_known_def by (cases t; cases t2; simp)+
    ultimately show ?thesis by blast
  qed
  { case 1
    obtain t2 c' evs' where "announce_loop E now tbl t2 = Inr (c', evs', t')" "only_announces t t2" using step [OF 1] by blast
    then show ?case using Cons.IH(1) only_announces_trans by blast
  next
    case 2
    obtain t2 c' evs' where t2: "announce_loop E now tbl t2 = Inr (c', evs', t')"
        "t_announce_table t2 = t_announce_table t \<or> t_announce_table t2 = tab_assign dh ?a1 (t_announce_table t)"
      using step [OF 2(3)] by blast
    have "tab_find dh (t_announce_table t) \<noteq> None" using 2(2) x by (auto simp: tab_find_None)
    then have "announces_ok E (t_announce_table t2)" using t2(2) 2(1) announces_ok_update by metis
    moreover have "fst ` set tbl \<subseteq> fst ` set (t_announce_table t2)" using t2(2) 2(2) by (elim disjE) (simp_all add: set_keys_assign subset_insertI2)
    ultimately show ?case using Cons.IH(2) t2(1) by blast
  }
qed

lemma announce_job_frame:
  assumes "announce_job E now t = Inr (t', evs)"
  shows "only_announces t t'" and "announces_ok E (t_announce_table t) \<Longrightarrow> announces_ok E (t_announce_table t')"
proof -
  from assms obtain c t1 where l: "announce_loop E now (t_announce_table t) t = Inr (c, evs, t1)"
    and t': "t' = t1\<lparr>t_announce_table := fold tab_erase c (t_announce_table t1)\<rparr>"
    by (auto simp: announce_job_def res_bind_eq_Inr)
  show "only_announces t t'" using announce_loop_frame(1) [OF l] t' unfolding only_announces_def by (cases t; cases t1) simp
  show "announces_ok E (t_announce_table t) \<Longrightarrow> announces_ok E (t_announce_table t')"
    using announce_loop_frame(2) [OF l] t' by (simp add: announces_ok_erase_all)
qed

subsection \<open>Sequences of passes\<close>

definition pass_ok :: "(('s, 'k, 'h) job_run \<Rightarrow> bool) \<Rightarrow> ('s, 'k, 'h) job_pass \<Rightarrow> bool" where
  "pass_ok P f \<longleftrightarrow> (\<forall>s. P s \<longrightarrow> (\<exists>s'. f s = Some (None, s') \<and> P s'))"

definition pass_returns :: "(('s, 'k, 'h) job_run \<Rightarrow> bool) \<Rightarrow> ('s, 'k, 'h) job_pass \<Rightarrow> bool" where
  "pass_returns P f \<longleftrightarrow> (\<forall>s. P s \<longrightarrow> (\<exists>e s'. f s = Some (e, s') \<and> (e = None \<longrightarrow> P s')))"

lemma run_passes_hang:
  assumes "list_all (pass_ok P) fs" and "\<And>s. P s \<Longrightarrow> f s = None" and "P s"
  shows "run_passes (fs @ f # gs) s = None"
  using assms(1,3) by (induction fs arbitrary: s) (auto simp: assms(2) pass_ok_def)

lemma run_passes_return:
  assumes "list_all (pass_returns P) fs"
  shows "pass_returns P (run_passes fs)"
  using assms
proof (induction fs)
  case (Cons f fs)
  then have f: "pass_returns P f" and fs: "pass_returns P (run_passes fs)" by auto
  show ?case unfolding pass_returns_def
  proof (intro allI impI)
    fix s assume "P s"
    with f obtain e s1 where 1: "f s = Some (e, s1)" "e = None \<longrightarrow> P s1" unfolding pass_returns_def by blast
    show "\<exists>e s'. run_passes (f # fs) s = Some (e, s') \<and> (e = None \<longrightarrow> P s')"
    proof (cases e)
      case None
      with 1 fs obtain e' s2 where "run_passes fs s1 = Some (e', s2)" "e' = None \<longrightarrow> P s2" unfolding pass_returns_def by blast
      with 1 None show ?thesis by simp
    qed (use 1 in auto)
  qed
qed (simp add: pass_returns_def)

lemma pass_ok_returns: "pass_ok P f \<Longrightarrow> pass_returns P f"
  by (auto simp: pass_ok_def pass_returns_def)

subsection \<open>The loop over the link table\<close>

lemma rediscover_frame: "rediscover E now l t = (w, b, t') \<Longrightarrow> t' = t\<lparr>t_path_states := t_path_states t'\<rparr>"
  by (auto simp: rediscover_def Let_def split: if_splits)

lemma cull_links_hangs:
  assumes "list_all (\<lambda>(_, l). \<not> overdue now l) pre" and "overdue now l" and "t_jobs_running t"
    and known: "known (te_known E) (t_known t) (le_next_hop l) = Some ie"
    and probe: "probe_packet E (rnd (le_next_hop l)) ((load_public_key (te_lib E) (ie_public_key ie) new_identity)\<lparr>i_app_data := ie_app_data ie\<rparr>) = Inr g"
      "prepare_send E now g = Inr g'" "p_destination (og_packet g') \<noteq> None"
  shows "cull_links E now rnd (pre @ (lid, l) # post) t prs = None"
  using assms(1)
proof (induction pre)
  case Nil
  obtain w b t1 where r: "rediscover E now l t = (w, b, t1)" by (cases "rediscover E now l t") auto
  have "t_known t1 = t_known t" "t_jobs_running t1"
    using arg_cong [OF rediscover_frame [OF r], of t_known] arg_cong [OF rediscover_frame [OF r], of t_jobs_running] assms(3) by simp_all
  moreover from this known have "recall_identity E now (le_next_hop l) t1
      = Inr (Some ((load_public_key (te_lib E) (ie_public_key ie) new_identity)\<lparr>i_app_data := ie_app_data ie\<rparr>), t1)"
    by (simp add: recall_identity_def recall_def)
  ultimately have "dispatch_neighbor_probe E now rnd (le_next_hop l) t1 = None"
    using dispatch_hangs probe by blast
  with r assms(2) show ?case by (simp add: Let_def)
qed auto

lemma cull_links_quiet:
  assumes "list_all (\<lambda>(_, l). \<not> overdue now l) ls"
  shows "cull_links E now rnd ls t prs
    = Some (None, map fst (filter (\<lambda>(_, l). le_validated l \<and> now > le_timestamp l + LINK_TIMEOUT) ls), t, prs, [])"
  using assms by (induction ls) (auto split: if_splits)

text \<open>When the next hops are unknown, no probe is sent, and exactly the dead entries are collected.\<close>

definition link_dead :: "real \<Rightarrow> link_entry \<Rightarrow> bool" where
  "link_dead now l \<longleftrightarrow> (if le_validated l then now > le_timestamp l + LINK_TIMEOUT else overdue now l)"

definition unknown_hop :: "('s, 'k, 'h) tenv \<Rightarrow> bytes \<Rightarrow> ('s, 'k, 'h) transport \<Rightarrow> bool" where
  "unknown_hop E nh t \<longleftrightarrow>
     known (te_known E) (t_known t) nh = None \<and> get_entry (te_lib E) (te_paths E) (t_ifs t) (t_paths t) nh = None
     \<and> tab_find nh (t_destinations t) = None"

lemma unknown_hop_dispatch: "unknown_hop E nh t \<Longrightarrow> dispatch_neighbor_probe E now rnd nh t = Some (Inr False, t, [])"
  by (simp add: unknown_hop_def dispatch_neighbor_probe_def recall_identity_def recall_def find_announce_packet_from_hash_def)

lemma cull_links_unknown:
  assumes "store_ok (te_paths E)" and "list_all (\<lambda>(_, l). overdue now l \<longrightarrow> unknown_hop E (le_next_hop l) t) ls"
  shows "\<exists>ps states prs'. cull_links E now rnd ls t prs
    = Some (None, map fst (filter (\<lambda>(_, l). link_dead now l) ls), t\<lparr>t_paths := ps, t_path_states := states\<rparr>, prs', [])"
  using assms(2)
proof (induction ls arbitrary: t prs)
  case Nil
  have "t = t\<lparr>t_paths := t_paths t, t_path_states := t_path_states t\<rparr>" by simp
  then show ?case by (metis cull_links.simps(1) filter.simps(1) list.map(1))
next
  case (Cons x ls)
  obtain lid l where x: "x = (lid, l)" by (cases x)
  show ?case
  proof (cases "overdue now l")
    case False
    from Cons.prems have "list_all (\<lambda>(_, l). overdue now l \<longrightarrow> unknown_hop E (le_next_hop l) t) ls" by simp
    from Cons.IH [OF this, of prs] False show ?thesis by (auto simp: x link_dead_def)
  next
    case True
    obtain w b t1 where r: "rediscover E now l t = (w, b, t1)" by (cases "rediscover E now l t") auto
    then obtain st where t1: "t1 = t\<lparr>t_path_states := st\<rparr>" using rediscover_frame by blast
    define t2 where "t2 = (if w \<and> \<not> te_transport_enabled E then drop_path E (le_destination_hash l) t1 else t1)"
    have ps: "get_entry (te_lib E) (te_paths E) ifs (t_paths t2) h = None" if "get_entry (te_lib E) (te_paths E) ifs (t_paths t) h = None" for h ifs
      using that store_ok_remove [OF assms(1), of "t_paths t" "le_destination_hash l"]
      by (cases "ts_remove (te_paths E) (t_paths t) (le_destination_hash l)")
        (auto simp: t2_def t1 drop_path_def expire_path_def get_entry_def)
    have t2: "t2 = t\<lparr>t_paths := t_paths t2, t_path_states := st\<rparr>" by (simp add: t2_def t1 drop_path_def)
    have f: "t_known t2 = t_known t" "t_ifs t2 = t_ifs t" "t_destinations t2 = t_destinations t"
      by (simp_all add: t2_def t1 drop_path_def)
    have "list_all (\<lambda>(_, l). overdue now l \<longrightarrow> unknown_hop E (le_next_hop l) t2) ls"
      using Cons.prems ps f by (auto simp: list_all_iff unknown_hop_def)
    from Cons.IH [OF this] obtain ps' states prs' where c: "cull_links E now rnd ls t2 (if w then tab_insert (le_destination_hash l) b prs else prs)
        = Some (None, map fst (filter (\<lambda>(_, l). link_dead now l) ls), t2\<lparr>t_paths := ps', t_path_states := states\<rparr>, prs', [])" by blast
    have "t2\<lparr>t_paths := ps', t_path_states := states\<rparr> = t\<lparr>t_paths := ps', t_path_states := states\<rparr>" by (subst t2) simp
    moreover have "dispatch_neighbor_probe E now rnd (le_next_hop l) t1 = Some (Inr False, t1, [])"
      using Cons.prems True x by (intro unknown_hop_dispatch) (simp add: t1 unknown_hop_def)
    ultimately show ?thesis using c True r x by (auto simp: Let_def t2_def link_dead_def overdue_def)
  qed
qed

lemma erase_keys:
  assumes "tab_ok m"
  shows "fold tab_erase (map fst (filter f m)) m = filter (\<lambda>e. \<not> f e) m"
proof -
  have e: "fold tab_erase ks m' = filter (\<lambda>e. fst e \<notin> set ks) m'" for ks :: "'a list" and m' :: "('a, 'b) table"
    by (induction ks arbitrary: m') (auto simp: tab_erase_def filter_filter intro: filter_cong)
  have "distinct (map fst m)" using assms by (simp add: tab_ok_def strict_sorted_iff)
  then have "fst e \<in> fst ` {x \<in> set m. f x} \<longleftrightarrow> f e" if "e \<in> set m" for e
    using that inj_on_image_mem_iff [of fst "set m" e "{x \<in> set m. f x}"] by (simp add: distinct_map)
  then show ?thesis unfolding e by (intro filter_cong) auto
qed

lemma remove_stale:
  assumes "tab_ok m"
  shows "remove_entries (stale_keys f m) m = filter (\<lambda>(_, e). \<not> f e) m"
  using erase_keys [OF assms, of "\<lambda>(_, e). f e"]
  by (simp add: remove_entries_def stale_keys_def case_prod_unfold)

lemma remove_entries_subset: "set (remove_entries ks m) \<subseteq> set m"
  unfolding remove_entries_def
proof (induction ks arbitrary: m)
  case (Cons k ks)
  from Cons [of "tab_erase k m"] show ?case by (auto simp: set_tab_erase)
qed simp

section \<open>Properties\<close>

text \<open>The node before the tables are culled: nothing waits in the announce table.\<close>

definition before_cull ::
  "'k \<Rightarrow> (bytes, link_entry) table \<Rightarrow> real \<Rightarrow> ('s, 'k, 'h) job_run \<Rightarrow> bool" where
  "before_cull ks links culled s \<longleftrightarrow>
     t_known (jr_transport s) = ks \<and> t_link_table (jr_transport s) = links \<and> t_jobs_running (jr_transport s)
     \<and> t_announce_table (jr_transport s) = [] \<and> tm_tables_last_culled (jr_timers s) = culled"

lemma before_cull_passes:
  fixes E :: "('s, 'k, 'h) tenv"
  shows "list_all (pass_ok (before_cull ks links culled)) [links_pass E now, receipts_pass E now keys, announces_pass E now, pending_prs_pass now]"
proof -
  have "pass_ok (before_cull ks links culled) (links_pass E now)"
    unfolding pass_ok_def
  proof (intro allI impI)
    fix s :: "('s, 'k, 'h) job_run" assume b: "before_cull ks links culled s"
    obtain s' ps pl al where s': "links_pass E now s = Some (None, s')" "tm_tables_last_culled (jr_timers s') = tm_tables_last_culled (jr_timers s)"
       and f: "jr_transport s' = (jr_transport s)\<lparr>t_paths := ps, t_pending_links := pl, t_active_links := al\<rparr>"
      using links_pass_frame [of E now s] by blast
    have "before_cull ks links culled s'" using b s'(2) by (simp add: before_cull_def f)
    with s'(1) show "\<exists>s'. links_pass E now s = Some (None, s') \<and> before_cull ks links culled s'" by blast
  qed
  moreover have "pass_ok (before_cull ks links culled) (receipts_pass E now keys)"
    unfolding pass_ok_def
  proof (intro allI impI)
    fix s :: "('s, 'k, 'h) job_run" assume b: "before_cull ks links culled s"
    obtain s' where s': "receipts_pass E now keys s = Some (None, s')" "tm_tables_last_culled (jr_timers s') = tm_tables_last_culled (jr_timers s)"
       and f: "only_neighbors ((jr_transport s)\<lparr>t_receipts := t_receipts (jr_transport s')\<rparr>) (jr_transport s')"
      using receipts_pass_frame [of E now keys s] by blast
    have "before_cull ks links culled s'" using b s'(2) by (simp add: before_cull_def only_neighbors_fields(4,6,8,14) [OF f])
    with s'(1) show "\<exists>s'. receipts_pass E now keys s = Some (None, s') \<and> before_cull ks links culled s'" by blast
  qed
  moreover have "pass_ok (before_cull ks links culled) (announces_pass E now)"
    by (auto simp: pass_ok_def before_cull_def announces_pass_def announce_job_empty)
  moreover have "pass_ok (before_cull ks links culled) (pending_prs_pass now)"
    by (auto simp: pass_ok_def before_cull_def pending_prs_pass_def Let_def)
  ultimately show ?thesis by simp
qed

text \<open>
  C36. Jobs can hang: when a link request that passed this node was not proved in time, and the
  identity of its next hop is known, so that a probe is made for it, the run of \<open>jobs\<close> that culls the
  tables never returns, because the probe is sent while \<open>_jobs_running\<close> is set.
\<close>

theorem jobs_hang:
  assumes "\<not> t_jobs_locked t" and "due now (tm_tables_last_culled tm) 60" and "t_announce_table t = []"
    and "t_link_table t = pre @ (lid, l) # post" and "list_all (\<lambda>(_, l). \<not> overdue now l) pre" and "overdue now l"
    and "known (te_known E) (t_known t) (le_next_hop l) = Some ie" and "length (ie_public_key ie) = 64" and "crypto_ok (te_lib E)"
    and "rnd (le_next_hop l) = (payload, eph, iv)" and "length payload = 16" and "length eph = 32" and "length iv = 16"
    and "snd (x25519_eval (te_lib E) eph (Some (take 32 (ie_public_key ie))))"
  shows "jobs E now rnd rnds keys tm t = None"
proof -
  let ?i = "(load_public_key (te_lib E) (ie_public_key ie) new_identity)\<lparr>i_app_data := ie_app_data ie\<rparr>"
  have "i_pub ?i \<noteq> None" "i_pub_bytes ?i = take 32 (ie_public_key ie)"
    using assms(8) by (simp_all add: load_public_key_def Let_def update_hashes_def bytes_simps)
  then obtain g g' where g: "probe_packet E (rnd (le_next_hop l)) ?i = Inr g" "prepare_send E now g = Inr g'" "p_destination (og_packet g') \<noteq> None"
    using probe_sendable [OF assms(9), of ?i payload eph iv now] assms(8,10-14) by auto
  let ?P = "before_cull (t_known t) (t_link_table t) (tm_tables_last_culled tm)"
  let ?s = "\<lparr>jr_transport = t\<lparr>t_jobs_running := True\<rparr>, jr_timers = tm, jr_path_requests = [], jr_outgoing = [], jr_events = []\<rparr>"
  have "tables_pass E now rnd s = None" if "?P s" for s
  proof -
    let ?t = "cull_reverse now (cull_path_states E (jr_transport s))"
    have "t_known ?t = t_known t" "t_link_table ?t = t_link_table t" "t_jobs_running ?t"
      using that by (simp_all add: before_cull_def cull_reverse_def cull_path_states_def)
    then have "cull_links E now rnd (t_link_table ?t) ?t (jr_path_requests s) = None"
      using cull_links_hangs [OF assms(5,6), of ?t E ie rnd g g'] assms(4,7) g by simp
    then show ?thesis using that assms(2) by (simp add: tables_pass_def before_cull_def Let_def)
  qed
  moreover have "?P ?s" using assms(3) by (simp add: before_cull_def)
  ultimately have "run_passes ([links_pass E now, receipts_pass E now keys, announces_pass E now, pending_prs_pass now]
      @ tables_pass E now rnd # [scan_pass E now rnd, blackhole_pass now, interfaces_pass now]) ?s = None"
    by (intro run_passes_hang [OF before_cull_passes])
  then show ?thesis using assms(1) by (simp add: jobs_def all_passes_def)
qed

lemma discovery_frame:
  assumes "handle_disovery_path_requests E now rnds t = Inr (t', evs)"
  shows "\<exists>ifs rq q x. t' = t\<lparr>t_ifs := ifs, t_path_requests := rq, t_pending_discovery_prs := q, t_pending_discovery_prs_last_tx := x\<rparr>"
proof -
  have *: "t = t\<lparr>t_ifs := t_ifs t, t_path_requests := t_path_requests t, t_pending_discovery_prs := t_pending_discovery_prs t,
      t_pending_discovery_prs_last_tx := t_pending_discovery_prs_last_tx t\<rparr>" by simp
  show ?thesis
  proof (cases "t_pending_discovery_prs t = [] \<or> now < t_pending_discovery_prs_last_tx t + DISCOVERY_PR_TX_THROTTLE")
    case True
    with assms have "t' = t" by (auto simp: handle_disovery_path_requests_def split: list.splits)
    with * show ?thesis by blast
  next
    case False
    then obtain dh b q where q: "t_pending_discovery_prs t = (dh, b) # q" by (cases "t_pending_discovery_prs t") auto
    let ?t1 = "t\<lparr>t_pending_discovery_prs := q, t_pending_discovery_prs_last_tx := now\<rparr>"
    have "\<exists>ifs rq. t' = ?t1\<lparr>t_ifs := ifs, t_path_requests := rq\<rparr>"
      using assms False q
      by (cases b) (auto simp: handle_disovery_path_requests_def Let_def dest: request_path_frame request_paths_frame)
    then obtain ifs rq where "t' = ?t1\<lparr>t_ifs := ifs, t_path_requests := rq\<rparr>" by blast
    then have "t' = t\<lparr>t_ifs := ifs, t_path_requests := rq, t_pending_discovery_prs := q, t_pending_discovery_prs_last_tx := now\<rparr>" by simp
    then show ?thesis by blast
  qed
qed

subsection \<open>A quiet node\<close>

lemma set_tab_assign: "set (tab_assign k v m) \<subseteq> insert (k, v) (set m)"
  by (induction k v m rule: tab_assign.induct) auto

text \<open>No link request is overdue, and no neighbour was sent enough packets to be suspected.\<close>

definition quiet :: "real \<Rightarrow> ('s, 'k, 'h) transport \<Rightarrow> bool" where
  "quiet now t \<longleftrightarrow> list_all (\<lambda>(_, l). \<not> overdue now l) (t_link_table t)
     \<and> list_all (\<lambda>(_, s). ns_packets_forwarded s < NEIGHBOR_SUSPICION_MIN_PKTS) (t_neighbor_stats t)"

lemma quiet_update_stat:
  assumes "quiet now t" and "\<And>s. ns_packets_forwarded s < NEIGHBOR_SUSPICION_MIN_PKTS \<Longrightarrow> ns_packets_forwarded (f s) < NEIGHBOR_SUSPICION_MIN_PKTS"
  shows "quiet now (update_stat nh f t)"
proof (cases "tab_find nh (t_neighbor_stats t)")
  case (Some s)
  then have "(nh, s) \<in> set (t_neighbor_stats t)" by (simp add: tab_find_def map_of_SomeD)
  with assms have "ns_packets_forwarded (f s) < NEIGHBOR_SUSPICION_MIN_PKTS" by (auto simp: quiet_def list_all_iff)
  with Some assms(1) show ?thesis using set_tab_assign [of nh "f s" "t_neighbor_stats t"]
    by (fastforce simp: update_stat_def quiet_def list_all_iff)
qed (use assms in \<open>simp add: update_stat_def\<close>)

lemma quiet_mark [simp]: "quiet now (mark_paths_over st E keys nh t) = quiet now t"
  by (simp add: quiet_def mark_paths_over_def)

lemma quiet_outcome:
  "quiet now t \<Longrightarrow> quiet now (neighbor_probe_delivered E keys nh t)" "quiet now t \<Longrightarrow> quiet now (neighbor_probe_timed_out E keys nh t)"
  by (simp_all add: neighbor_probe_delivered_def validate_neighbor_def neighbor_probe_timed_out_def invalidate_neighbor_def quiet_update_stat)

lemma quiet_handlers: "quiet now t \<Longrightarrow> quiet now (run_receipt_handlers E keys evs t)"
  by (induction E keys evs t rule: run_receipt_handlers.induct) (simp_all add: quiet_outcome split: option.split)

lemma quiet_scan:
  assumes "quiet now t"
  shows "\<exists>t1. scan_neighbor_stats E now rnd t = Some (None, t1, []) \<and> quiet now t1"
proof -
  let ?tbl = "map (\<lambda>(nh, s). (nh, reset_idle now s)) (t_neighbor_stats t)"
  have few: "list_all (\<lambda>(_, s). ns_packets_forwarded s < NEIGHBOR_SUSPICION_MIN_PKTS) ?tbl"
    using assms by (auto simp: quiet_def list_all_iff reset_idle_def)
  then have "filter (\<lambda>(_, s). suspicious now s) ?tbl = []" by (auto simp: filter_empty_conv list_all_iff suspicious_def)
  moreover have "quiet now (t\<lparr>t_neighbor_stats := ?tbl\<rparr>)" using assms few by (simp add: quiet_def)
  ultimately show ?thesis by (simp add: scan_neighbor_stats_def Let_def)
qed

lemma quiet_fields: "t_link_table t' = t_link_table t \<Longrightarrow> t_neighbor_stats t' = t_neighbor_stats t \<Longrightarrow> quiet now t' = quiet now t"
  by (simp add: quiet_def)

lemma quiet_tables:
  assumes "quiet now (jr_transport s)"
  shows "\<exists>e s'. tables_pass E now rnd s = Some (e, s') \<and> quiet now (jr_transport s')"
proof -
  let ?t = "cull_reverse now (cull_path_states E (jr_transport s))"
  let ?stale = "map fst (filter (\<lambda>(_, l). le_validated l \<and> now > le_timestamp l + LINK_TIMEOUT) (t_link_table (jr_transport s)))"
  have t: "t_link_table ?t = t_link_table (jr_transport s)" "t_neighbor_stats ?t = t_neighbor_stats (jr_transport s)"
    by (simp_all add: cull_reverse_def cull_path_states_def)
  have c: "cull_links E now rnd (t_link_table ?t) ?t prs = Some (None, ?stale, ?t, prs, [])" for prs
    using assms cull_links_quiet [of now "t_link_table (jr_transport s)" E rnd ?t prs] by (simp add: t quiet_def)
  have "quiet now (cull_requests now (?t\<lparr>t_link_table := remove_entries ?stale (t_link_table ?t)\<rparr>))"
    using assms remove_entries_subset [of ?stale "t_link_table ?t"]
    unfolding quiet_def list_all_iff cull_requests_def Let_def by (simp add: t) blast
  then show ?thesis using assms by (auto simp: tables_pass_def Let_def c)
qed

lemma quiet_passes:
  fixes E :: "('s, 'k, 'h) tenv"
  shows "list_all (pass_returns (\<lambda>s. quiet now (jr_transport s)))
    [links_pass E now, receipts_pass E now keys, announces_pass E now, pending_prs_pass now, tables_pass E now rnd,
     scan_pass E now rnd, blackhole_pass now, interfaces_pass now]"
proof -
  define P where "P = (\<lambda>s :: ('s, 'k, 'h) job_run. quiet now (jr_transport s))"
  have I: "pass_returns P f" if "\<And>s. quiet now (jr_transport s) \<Longrightarrow> \<exists>e s'. f s = Some (e, s') \<and> (e = None \<longrightarrow> quiet now (jr_transport s'))" for f
    using that by (auto simp: pass_returns_def P_def)
  have "pass_returns P (links_pass E now)"
  proof (rule I)
    fix s :: "('s, 'k, 'h) job_run" assume q: "quiet now (jr_transport s)"
    obtain s' ps pl al where s': "links_pass E now s = Some (None, s')"
       and f: "jr_transport s' = (jr_transport s)\<lparr>t_paths := ps, t_pending_links := pl, t_active_links := al\<rparr>"
      using links_pass_frame [of E now s] by blast
    have "quiet now (jr_transport s')" using q by (simp add: f quiet_def)
    with s' show "\<exists>e s'. links_pass E now s = Some (e, s') \<and> (e = None \<longrightarrow> quiet now (jr_transport s'))" by blast
  qed
  moreover have "pass_returns P (receipts_pass E now keys)"
    by (rule I) (auto simp: receipts_pass_def Let_def case_prod_beta intro!: quiet_handlers elim: quiet_fields [THEN iffD1, rotated 2])
  moreover have "pass_returns P (announces_pass E now)"
    by (rule I) (auto simp: announces_pass_def case_prod_beta Let_def only_announces_fields(1,2)
        dest!: announce_job_frame(1) elim!: quiet_fields [THEN iffD1, rotated 2] split: sum.split)
  moreover have "pass_returns P (pending_prs_pass now)"
    by (rule I) (simp add: pending_prs_pass_def Let_def quiet_def)
  moreover have "pass_returns P (tables_pass E now rnd)"
    by (rule I) (use quiet_tables in blast)
  moreover have "pass_returns P (scan_pass E now rnd)"
  proof (rule I)
    fix s :: "('s, 'k, 'h) job_run" assume q: "quiet now (jr_transport s)"
    then obtain t1 where "scan_neighbor_stats E now rnd (jr_transport s) = Some (None, t1, [])" "quiet now t1" using quiet_scan by blast
    with q show "\<exists>e s'. scan_pass E now rnd s = Some (e, s') \<and> (e = None \<longrightarrow> quiet now (jr_transport s'))"
      by (auto simp: scan_pass_def)
  qed
  moreover have "pass_returns P (blackhole_pass now)"
    by (rule I) (simp add: blackhole_pass_def Let_def quiet_def)
  moreover have "pass_returns P (interfaces_pass now)"
    by (rule I) (simp add: interfaces_pass_def Let_def quiet_def)
  ultimately show ?thesis by (simp add: P_def)
qed

text \<open>
  Jobs return on a quiet node: when no link request is overdue and no neighbour has been sent five
  packets since it last answered a probe, a run of \<open>jobs\<close> ends, whatever passes are due.
\<close>

lemma jobs_return:
  assumes "quiet now t"
  shows "\<exists>r. jobs E now rnd rnds keys tm t = Some r"
proof -
  let ?s = "\<lparr>jr_transport = t\<lparr>t_jobs_running := True\<rparr>, jr_timers = tm, jr_path_requests = [], jr_outgoing = [], jr_events = []\<rparr>"
  have "quiet now (jr_transport ?s)" using assms by (simp add: quiet_def)
  then obtain e s where "all_passes E now rnd keys ?s = Some (e, s)"
    using run_passes_return [OF quiet_passes, of now E keys rnd] unfolding all_passes_def pass_returns_def by blast
  then show ?thesis by (simp add: jobs_def Let_def split: option.split)
qed

text \<open>
  A malformed packet stops the node's work: receiving octets that do not unpack leaves \<open>_jobs_locked\<close>
  set, and while it is set a run of \<open>jobs\<close> retransmits no announce, expires no receipt and culls no
  table; it only serves the queue of path requests.
\<close>

lemma malformed_packet_stops_jobs:
  assumes "length raw < HEADER_MINSIZE" and "\<not> t_jobs_running t"
  shows "\<exists>t1. inbound E now0 rand iface raw t = Some (Inr (t1, [])) \<and> t_jobs_locked t1
    \<and> (case jobs E now rnd rnds keys tm t1 of
         None \<Rightarrow> False
       | Some (Inl e) \<Rightarrow> handle_disovery_path_requests E now rnds t1 = Inl e
       | Some (Inr (tm', t2, evs)) \<Rightarrow>
           tm' = tm \<and> t_jobs_locked t2 \<and> t_announce_table t2 = t_announce_table t \<and> t_receipts t2 = t_receipts t
           \<and> t_link_table t2 = t_link_table t \<and> t_reverse_table t2 = t_reverse_table t \<and> t_path_states t2 = t_path_states t
           \<and> handle_disovery_path_requests E now rnds t1 = Inr (t2, evs))"
proof -
  let ?t1 = "t\<lparr>t_jobs_locked := True\<rparr>"
  have "\<not> fst (unpack (te_lib E) (wire_packet raw))" using assms(1) by (simp add: unpack_def Let_def)
  then have "inbound E now0 rand iface raw t = Some (Inr (?t1, []))"
    using assms(2) by (simp add: inbound_def await_jobs_idle inbound_body_def)
  moreover have same: "t\<lparr>t_jobs_locked := True, t_jobs_running := False\<rparr> = ?t1" using assms(2) by (cases t) simp
  have "jobs E now rnd rnds keys tm ?t1
      = Some (res_bind (handle_disovery_path_requests E now rnds ?t1) (\<lambda>(t3, evs). Inr (tm, t3, evs)))"
    by (simp add: jobs_def Let_def same)
  ultimately show ?thesis
    using discovery_frame [of E now rnds ?t1] by (cases "handle_disovery_path_requests E now rnds ?t1") fastforce+
qed

text \<open>
  C34. Culling is exact: when no next hop of an overdue link request can be identified, so that no
  probe is sent, the pass over the tables, which collects the keys of the stale entries and erases
  them one by one afterwards, leaves exactly the entries a filter of the ordered tables would: links
  proved and used within 15 minutes or still waiting for their proof, reverse entries of the last 8
  minutes, path requests of the last 2 minutes and open discoveries.
\<close>

theorem tables_culled_exactly:
  assumes "due now (tm_tables_last_culled (jr_timers s)) 60" and "store_ok (te_paths E)" and "tab_ok (t_link_table (jr_transport s))"
    and "tab_ok (t_reverse_table (jr_transport s))" and "tab_ok (t_path_requests (jr_transport s))"
    and "tab_ok (t_discovery_path_requests (jr_transport s))"
    and "list_all (\<lambda>(_, l). overdue now l \<longrightarrow> unknown_hop E (le_next_hop l) (jr_transport s)) (t_link_table (jr_transport s))"
  shows "\<exists>s'. tables_pass E now rnd s = Some (None, s') \<and> jr_events s' = jr_events s
    \<and> t_link_table (jr_transport s') = filter (\<lambda>(_, l). \<not> link_dead now l) (t_link_table (jr_transport s))
    \<and> t_reverse_table (jr_transport s') = filter (\<lambda>(_, r). now \<le> re_timestamp r + REVERSE_TIMEOUT) (t_reverse_table (jr_transport s))
    \<and> t_path_requests (jr_transport s') = filter (\<lambda>(_, x). now \<le> x + PATH_REQUEST_GATE_TIMEOUT) (t_path_requests (jr_transport s))
    \<and> t_discovery_path_requests (jr_transport s') = filter (\<lambda>(_, e). now \<le> pr_timeout e) (t_discovery_path_requests (jr_transport s))"
proof -
  let ?t = "cull_reverse now (cull_path_states E (jr_transport s))"
  have t: "t_link_table ?t = t_link_table (jr_transport s)" "unknown_hop E nh ?t = unknown_hop E nh (jr_transport s)"
      "t_reverse_table ?t = filter (\<lambda>(_, r). now \<le> re_timestamp r + REVERSE_TIMEOUT) (t_reverse_table (jr_transport s))"
      "t_path_requests ?t = t_path_requests (jr_transport s)"
      "t_discovery_path_requests ?t = t_discovery_path_requests (jr_transport s)" for nh
    using remove_stale [OF assms(4), of "\<lambda>r. now > re_timestamp r + REVERSE_TIMEOUT"]
    by (simp_all add: cull_reverse_def cull_path_states_def unknown_hop_def not_less Let_def)
  let ?stale = "map fst (filter (\<lambda>(_, l). link_dead now l) (t_link_table (jr_transport s)))"
  obtain ps states prs' where c: "cull_links E now rnd (t_link_table (jr_transport s)) ?t (jr_path_requests s)
      = Some (None, ?stale, ?t\<lparr>t_paths := ps, t_path_states := states\<rparr>, prs', [])"
    using cull_links_unknown [OF assms(2), of now ?t "t_link_table (jr_transport s)" rnd "jr_path_requests s"] assms(7) by (auto simp: t)
  have "remove_entries ?stale (t_link_table (jr_transport s)) = filter (\<lambda>(_, l). \<not> link_dead now l) (t_link_table (jr_transport s))"
    using remove_stale [OF assms(3), of "link_dead now"] by (simp add: stale_keys_def)
  then show ?thesis
    using assms(1) remove_stale [OF assms(5), of "\<lambda>x. now > x + PATH_REQUEST_GATE_TIMEOUT"]
      remove_stale [OF assms(6), of "\<lambda>e. now > pr_timeout e"]
    by (simp add: tables_pass_def Let_def t c cull_requests_def not_less)
qed

section \<open>Witnesses\<close>

definition demo_timers :: timers where
  "demo_timers = \<lparr>tm_jobs_last_run = 0, tm_links_last_checked = 0, tm_receipts_last_checked = 0, tm_announces_last_checked = 0,
     tm_pending_prs_last_checked = 0, tm_tables_last_culled = 0, tm_blackhole_last_checked = 0, tm_interface_last_jobs = 0\<rparr>"

definition demo_waiting :: link_entry where
  "demo_waiting = demo_link_entry\<lparr>le_next_hop := replicate 16 6, le_proof_timeout := Some 20\<rparr>"

lemma demo_waiting_overdue: "overdue 100 demo_waiting" "\<not> overdue 10 demo_waiting" "le_next_hop demo_waiting = replicate 16 6"
  by (simp_all add: overdue_def demo_waiting_def demo_link_entry_def)

theorem jobs_hang_witness:
  "jobs (demo_env (replicate 16 8)) 100 (\<lambda>_. (replicate 16 0, replicate 32 9, replicate 16 3)) (\<lambda>_. []) []
     demo_timers (demo_link_node\<lparr>t_link_table := [(replicate 16 7, demo_waiting)]\<rparr>) = None"
proof -
  let ?t = "demo_link_node\<lparr>t_link_table := [(replicate 16 7, demo_waiting)]\<rparr>"
  have "known (te_known (demo_env (replicate 16 8))) (t_known ?t) (le_next_hop demo_waiting)
      = Some \<lparr>ie_timestamp = 0, ie_packet_hash = [], ie_public_key = replicate 64 1, ie_app_data = []\<rparr>"
    by (simp add: known_def demo_link_node_def demo_env_def map_store_def entry_bool_def demo_waiting_overdue)
  from jobs_hang [where t = ?t and pre = "[]" and post = "[]" and tm = demo_timers and now = 100,
      OF _ _ _ _ _ demo_waiting_overdue(1) this]
  show ?thesis
    by (simp add: due_def demo_timers_def demo_env_parts demo_lib_ok) (simp add: demo_link_node_def demo_node_def demo_lib_def)
qed

theorem tables_culled_exactly_witness:
  "\<exists>s s'. tables_pass (demo_env (replicate 16 8)) 100 (\<lambda>_. ([], [], [])) s = Some (None, s')
    \<and> map fst (t_link_table (jr_transport s)) = [[1], [2]] \<and> map fst (t_link_table (jr_transport s')) = [[1]]"
proof -
  let ?l = "demo_link_entry\<lparr>le_validated := True, le_timestamp := 50\<rparr>"
  let ?t = "demo_node\<lparr>t_link_table := [([1], ?l), ([2], demo_waiting)]\<rparr>"
  let ?s = "\<lparr>jr_transport = ?t, jr_timers = demo_timers, jr_path_requests = [], jr_outgoing = [], jr_events = []\<rparr>"
  have dead: "\<not> link_dead 100 ?l" "link_dead 100 demo_waiting"
    by (simp_all add: link_dead_def overdue_def demo_waiting_def demo_link_entry_def)
  have "\<not> overdue 100 ?l" by (simp add: overdue_def)
  moreover have "unknown_hop (demo_env (replicate 16 8)) h ?t" for h
    by (simp add: unknown_hop_def known_def get_entry_def demo_node_def demo_env_def map_store_def tab_find_def)
  moreover have "t_reverse_table demo_node = []" "t_path_requests demo_node = []" "t_discovery_path_requests demo_node = []"
    by (simp_all add: demo_node_def)
  ultimately have "\<exists>s'. tables_pass (demo_env (replicate 16 8)) 100 (\<lambda>_. ([], [], [])) ?s = Some (None, s')
      \<and> t_link_table (jr_transport s') = filter (\<lambda>(_, l). \<not> link_dead 100 l) (t_link_table ?t)"
    using tables_culled_exactly [of 100 ?s "demo_env (replicate 16 8)" "\<lambda>_. ([], [], [])"]
    by (auto simp: due_def demo_timers_def demo_env_def map_store_ok tab_ok_def)
  then obtain s' where "tables_pass (demo_env (replicate 16 8)) 100 (\<lambda>_. ([], [], [])) ?s = Some (None, s')"
      "t_link_table (jr_transport s') = [([1], ?l)]" using dead by auto
  then show ?thesis by (intro exI [of _ ?s] exI [of _ s']) simp
qed

end
