(* ===== verification/Msgpack.thy ===== *)
theory Msgpack
  imports Byte_String
begin

text \<open>
  The MessagePack library (\<open>MsgPack::Packer\<close>, \<open>MsgPack::Unpacker\<close>), which is not part of the
  repository.  A packer appends objects to a byte string; an unpacker turns a byte string into the
  sequence of its objects and reads them one by one.  \<open>msgpack\<close> is the parameter: packing, feeding
  and what a read does when the next object has another type.  \<open>msgpack_ok\<close> states the documented
  behaviour: a stream of packed objects is read back whatever follows it, and every object takes its
  shortest form.  The second half is a concrete codec that satisfies it.
\<close>

section \<open>The parameter\<close>

datatype mp_item =
    MP_map nat | MP_array nat | MP_str bytes | MP_uint nat | MP_nint int | MP_bin bytes | MP_float32 real
  | MP_float64 real | MP_bool bool | MP_nil

record msgpack =
  mp_pack :: "mp_item list \<Rightarrow> bytes"
  mp_feed :: "bytes \<Rightarrow> mp_item list"
  mp_double :: "real \<Rightarrow> bool"
  mp_wide :: "nat \<Rightarrow> int"
  mp_other_uint :: "nat \<Rightarrow> mp_item list \<Rightarrow> nat \<times> mp_item list"
  mp_other_bin :: "mp_item list \<Rightarrow> bytes \<times> mp_item list"
  mp_other_str :: "mp_item list \<Rightarrow> bytes option \<times> mp_item list"
  mp_other_real :: "mp_item list \<Rightarrow> real \<times> mp_item list"
  mp_other_array :: "mp_item list \<Rightarrow> bytes \<times> bytes"

fun mp_size :: "mp_item \<Rightarrow> nat" where
  "mp_size (MP_map n) = (if n < 16 then 1 else if n < 2 ^ 16 then 3 else 5)"
| "mp_size (MP_array n) = (if n < 16 then 1 else if n < 2 ^ 16 then 3 else 5)"
| "mp_size (MP_str s) =
     (if length s < 32 then 1 else if length s < 2 ^ 8 then 2 else if length s < 2 ^ 16 then 3 else 5) + length s"
| "mp_size (MP_uint n) =
     (if n < 128 then 1 else if n < 2 ^ 8 then 2 else if n < 2 ^ 16 then 3 else if n < 2 ^ 32 then 5 else 9)"
| "mp_size (MP_nint i) = (if i \<ge> - 32 then 1 else if i \<ge> - (2 ^ 7) then 2 else if i \<ge> - (2 ^ 15) then 3 else if i \<ge> - (2 ^ 31) then 5 else 9)"
| "mp_size (MP_bool _) = 1"
| "mp_size (MP_bin b) = (if length b < 2 ^ 8 then 2 else if length b < 2 ^ 16 then 3 else 5) + length b"
| "mp_size (MP_float32 _) = 5"
| "mp_size (MP_float64 _) = 9"
| "mp_size MP_nil = 1"

fun mp_wf :: "(real \<Rightarrow> bool) \<Rightarrow> mp_item \<Rightarrow> bool" where
  "mp_wf _ (MP_map n) \<longleftrightarrow> n < 2 ^ 32"
| "mp_wf _ (MP_array n) \<longleftrightarrow> n < 2 ^ 32"
| "mp_wf _ (MP_str s) \<longleftrightarrow> length s < 2 ^ 32"
| "mp_wf _ (MP_uint n) \<longleftrightarrow> n < 2 ^ 64"
| "mp_wf _ (MP_nint i) \<longleftrightarrow> - (2 ^ 63) \<le> i \<and> i < 0"
| "mp_wf _ (MP_bool _) \<longleftrightarrow> True"
| "mp_wf _ (MP_bin b) \<longleftrightarrow> length b < 2 ^ 32"
| "mp_wf _ (MP_float32 _) \<longleftrightarrow> False"
| "mp_wf f (MP_float64 x) \<longleftrightarrow> f x"
| "mp_wf _ MP_nil \<longleftrightarrow> True"

definition msgpack_ok :: "msgpack \<Rightarrow> bool" where
  "msgpack_ok M \<longleftrightarrow>
     (\<forall>xs ys. mp_pack M (xs @ ys) = mp_pack M xs @ mp_pack M ys) \<and>
     (\<forall>xs. length (mp_pack M xs) = sum_list (map mp_size xs)) \<and>
     (\<forall>xs rest. list_all (mp_wf (mp_double M)) xs \<longrightarrow> take (length xs) (mp_feed M (mp_pack M xs @ rest)) = xs) \<and>
     (\<forall>xs. list_all (mp_wf (mp_double M)) xs \<longrightarrow> mp_feed M (mp_pack M xs) = xs)"

section \<open>Reading\<close>

text \<open>\<open>deserialize\<close> into an unsigned integer of \<open>w\<close> bits, a byte buffer, a string, a double.\<close>

definition mp_uint :: "msgpack \<Rightarrow> nat \<Rightarrow> mp_item list \<Rightarrow> nat \<times> mp_item list" where
  "mp_uint M w s =
     (case s of
        MP_uint n # r \<Rightarrow> if n < 2 ^ w then (n, r) else mp_other_uint M w s
      | _ \<Rightarrow> mp_other_uint M w s)"

text \<open>A signed number of 64 bits, written and read; \<open>mp_wide\<close> is what becomes of a larger one.\<close>

definition mp_signed :: "int \<Rightarrow> mp_item" where
  "mp_signed i = (if i \<ge> 0 then MP_uint (nat i) else MP_nint i)"

definition mp_is_int :: "mp_item list \<Rightarrow> bool" where
  "mp_is_int s = (case s of MP_uint _ # _ \<Rightarrow> True | MP_nint _ # _ \<Rightarrow> True | _ \<Rightarrow> False)"

definition mp_int :: "msgpack \<Rightarrow> mp_item list \<Rightarrow> int \<times> mp_item list" where
  "mp_int M s =
     (case s of
        MP_uint n # r \<Rightarrow> (if n < 2 ^ 63 then int n else mp_wide M n, r)
      | MP_nint i # r \<Rightarrow> (i, r)
      | _ \<Rightarrow> (0, s))"

definition mp_bin :: "msgpack \<Rightarrow> mp_item list \<Rightarrow> bytes \<times> mp_item list" where
  "mp_bin M s = (case s of MP_bin b # r \<Rightarrow> (b, r) | _ \<Rightarrow> mp_other_bin M s)"

definition mp_str :: "msgpack \<Rightarrow> mp_item list \<Rightarrow> bytes option \<times> mp_item list" where
  "mp_str M s = (case s of MP_str b # r \<Rightarrow> (Some b, r) | _ \<Rightarrow> mp_other_str M s)"

definition mp_real :: "msgpack \<Rightarrow> mp_item list \<Rightarrow> real \<times> mp_item list" where
  "mp_real M s =
     (case s of MP_float64 x # r \<Rightarrow> (x, r) | MP_float32 x # r \<Rightarrow> (x, r) | _ \<Rightarrow> mp_other_real M s)"

text \<open>\<open>from_array\<close> into two byte buffers.\<close>

definition mp_two_bins :: "msgpack \<Rightarrow> mp_item list \<Rightarrow> bytes \<times> bytes" where
  "mp_two_bins M s =
     (case s of
        MP_array n # r \<Rightarrow>
          if n \<noteq> 2 then mp_other_array M s
          else (case mp_bin M r of (a, r1) \<Rightarrow> (a, fst (mp_bin M r1)))
      | _ \<Rightarrow> mp_other_array M s)"

lemma mp_read_simps [simp]:
  "n < 2 ^ w \<Longrightarrow> mp_uint M w (MP_uint n # r) = (n, r)"
  "mp_bin M (MP_bin b # r) = (b, r)"
  "n < 2 ^ 63 \<Longrightarrow> mp_int M (MP_uint n # r) = (int n, r)"
  "mp_int M (MP_nint i # r) = (i, r)"
  "mp_str M (MP_str b # r) = (Some b, r)"
  "mp_real M (MP_float64 x # r) = (x, r)"
  by (simp_all add: mp_uint_def mp_bin_def mp_str_def mp_real_def mp_int_def)

lemma mp_signed_read:
  assumes "- (2 ^ 63) \<le> i" and "i < 2 ^ 63"
  shows "mp_int M (mp_signed i # r) = (i, r)" and "mp_is_int (mp_signed i # r)"
  using assms by (auto simp: mp_signed_def mp_is_int_def nat_less_iff)

lemma msgpack_okD:
  assumes "msgpack_ok M"
  shows "mp_pack M (xs @ ys) = mp_pack M xs @ mp_pack M ys"
    and "length (mp_pack M xs) = sum_list (map mp_size xs)"
    and "list_all (mp_wf (mp_double M)) xs \<Longrightarrow> mp_feed M (mp_pack M xs) = xs"
  using assms by (simp_all add: msgpack_ok_def)

lemma msgpack_prefix:
  assumes "msgpack_ok M" and "list_all (mp_wf (mp_double M)) xs"
  obtains s where "mp_feed M (mp_pack M xs @ rest) = xs @ s"
  using assms unfolding msgpack_ok_def by (metis append_take_drop_id)

section \<open>A codec\<close>

fun be_octets :: "nat \<Rightarrow> nat \<Rightarrow> bytes" where
  "be_octets 0 n = []"
| "be_octets (Suc k) n = be_octets k (n div 256) @ [word_of_nat (n mod 256)]"

definition be_value :: "bytes \<Rightarrow> nat" where
  "be_value b = foldl (\<lambda>a x. a * 256 + unat x) 0 b"

fun demo_encode :: "mp_item \<Rightarrow> bytes" where
  "demo_encode (MP_map n) =
     (if n < 16 then [word_of_nat (0x80 + n)] else if n < 2 ^ 16 then 0xde # be_octets 2 n else 0xdf # be_octets 4 n)"
| "demo_encode (MP_array n) =
     (if n < 16 then [word_of_nat (0x90 + n)] else if n < 2 ^ 16 then 0xdc # be_octets 2 n else 0xdd # be_octets 4 n)"
| "demo_encode (MP_str s) =
     (if length s < 32 then [word_of_nat (0xa0 + length s)]
      else if length s < 2 ^ 8 then 0xd9 # be_octets 1 (length s)
      else if length s < 2 ^ 16 then 0xda # be_octets 2 (length s) else 0xdb # be_octets 4 (length s)) @ s"
| "demo_encode (MP_uint n) =
     (if n < 128 then [word_of_nat n] else if n < 2 ^ 8 then 0xcc # be_octets 1 n
      else if n < 2 ^ 16 then 0xcd # be_octets 2 n else if n < 2 ^ 32 then 0xce # be_octets 4 n else 0xcf # be_octets 8 n)"
| "demo_encode (MP_nint i) =
     (if i \<ge> - 32 then [word_of_int i] else if i \<ge> - (2 ^ 7) then 0xd0 # be_octets 1 (nat (i + 2 ^ 8))
      else if i \<ge> - (2 ^ 15) then 0xd1 # be_octets 2 (nat (i + 2 ^ 16))
      else if i \<ge> - (2 ^ 31) then 0xd2 # be_octets 4 (nat (i + 2 ^ 32)) else 0xd3 # be_octets 8 (nat (i + 2 ^ 64)))"
| "demo_encode (MP_bool b) = [if b then 0xc3 else 0xc2]"
| "demo_encode (MP_bin b) =
     (if length b < 2 ^ 8 then 0xc4 # be_octets 1 (length b)
      else if length b < 2 ^ 16 then 0xc5 # be_octets 2 (length b) else 0xc6 # be_octets 4 (length b)) @ b"
| "demo_encode (MP_float32 x) = 0xca # be_octets 4 (nat \<lfloor>x\<rfloor>)"
| "demo_encode (MP_float64 x) = 0xcb # be_octets 8 (nat \<lfloor>x\<rfloor>)"
| "demo_encode MP_nil = [0xc0]"

definition take_uint :: "nat \<Rightarrow> (nat \<Rightarrow> 'a) \<Rightarrow> bytes \<Rightarrow> ('a \<times> bytes) option" where
  "take_uint k f b = (if length b < k then None else Some (f (be_value (take k b)), drop k b))"

definition take_body :: "(bytes \<Rightarrow> 'a) \<Rightarrow> nat \<times> bytes \<Rightarrow> ('a \<times> bytes) option" where
  "take_body f p = (case p of (n, b) \<Rightarrow> if length b < n then None else Some (f (take n b), drop n b))"

definition signed_item :: "nat \<Rightarrow> nat \<Rightarrow> mp_item" where
  "signed_item w n = mp_signed (if n < 2 ^ (w - 1) then int n else int n - 2 ^ w)"

definition demo_decode :: "bytes \<Rightarrow> (mp_item \<times> bytes) option" where
  "demo_decode b =
     (case b of
        [] \<Rightarrow> None
      | h # t \<Rightarrow>
          let k = unat h; sized = (\<lambda>w f. Option.bind (take_uint w (\<lambda>n. n) t) (take_body f))
          in if k < 0x80 then Some (MP_uint k, t)
             else if k < 0x90 then Some (MP_map (k - 0x80), t)
             else if k < 0xa0 then Some (MP_array (k - 0x90), t)
             else if k < 0xc0 then take_body MP_str (k - 0xa0, t)
             else if k = 0xc0 then Some (MP_nil, t)
             else if k = 0xc2 then Some (MP_bool False, t)
             else if k = 0xc3 then Some (MP_bool True, t)
             else if k \<ge> 0xe0 then Some (MP_nint (int k - 256), t)
             else if k = 0xd0 then take_uint 1 (signed_item 8) t
             else if k = 0xd1 then take_uint 2 (signed_item 16) t
             else if k = 0xd2 then take_uint 4 (signed_item 32) t
             else if k = 0xd3 then take_uint 8 (signed_item 64) t
             else if k = 0xc4 then sized 1 MP_bin
             else if k = 0xc5 then sized 2 MP_bin
             else if k = 0xc6 then sized 4 MP_bin
             else if k = 0xcb then take_uint 8 (\<lambda>n. MP_float64 (real n)) t
             else if k = 0xcc then take_uint 1 MP_uint t
             else if k = 0xcd then take_uint 2 MP_uint t
             else if k = 0xce then take_uint 4 MP_uint t
             else if k = 0xcf then take_uint 8 MP_uint t
             else if k = 0xd9 then sized 1 MP_str
             else if k = 0xda then sized 2 MP_str
             else if k = 0xdb then sized 4 MP_str
             else if k = 0xdc then take_uint 2 MP_array t
             else if k = 0xdd then take_uint 4 MP_array t
             else if k = 0xde then take_uint 2 MP_map t
             else if k = 0xdf then take_uint 4 MP_map t
             else None)"

function demo_feed :: "bytes \<Rightarrow> mp_item list" where
  "demo_feed b =
     (case demo_decode b of
        None \<Rightarrow> []
      | Some (x, r) \<Rightarrow> if length r < length b then x # demo_feed r else [])"
  by pat_completeness auto
termination
  by (relation "measure length") auto

definition demo_msgpack :: msgpack where
  "demo_msgpack =
     \<lparr>mp_pack = (\<lambda>xs. concat (map demo_encode xs)), mp_feed = demo_feed,
      mp_double = (\<lambda>x. x = real (nat \<lfloor>x\<rfloor>) \<and> nat \<lfloor>x\<rfloor> < 2 ^ 64), mp_wide = (\<lambda>n. int n - 2 ^ 64),
      mp_other_uint = (\<lambda>_ s. (0, s)), mp_other_bin = (\<lambda>s. ([], s)),
      mp_other_str = (\<lambda>s. (None, s)), mp_other_real = (\<lambda>s. (0, s)), mp_other_array = (\<lambda>_. ([], []))\<rparr>"

subsection \<open>It satisfies the laws\<close>

lemma length_be_octets [simp]: "length (be_octets k n) = k"
  by (induction k arbitrary: n) simp_all

lemma be_value_octets: "n < 256 ^ k \<Longrightarrow> be_value (be_octets k n) = n"
proof (induction k arbitrary: n)
  case (Suc k)
  then have "n div 256 < 256 ^ k" by (simp add: less_mult_imp_div_less mult.commute)
  with Suc show ?case by (simp add: be_value_def unat_of_nat)
qed (simp add: be_value_def)

lemma take_uint_octets:
  "n < 256 ^ k \<Longrightarrow> take_uint k f (be_octets k n @ r) = Some (f n, r)"
  by (simp add: take_uint_def be_value_octets)

lemma take_body_append: "take_body f (length s, s @ r) = Some (f s, r)"
  by (simp add: take_body_def)

lemma unat_tag:
  "n < 16 \<Longrightarrow> unat (128 + word_of_nat n :: byte) = 128 + n"
  "n < 16 \<Longrightarrow> unat (144 + word_of_nat n :: byte) = 144 + n"
  "n < 32 \<Longrightarrow> unat (160 + word_of_nat n :: byte) = 160 + n"
  using unat_of_nat [where x = "128 + n" and 'a = 8] unat_of_nat [where x = "144 + n" and 'a = 8]
    unat_of_nat [where x = "160 + n" and 'a = 8] by simp_all

lemma unat_negative:
  assumes "- 32 \<le> i" and "i < 0"
  shows "unat (word_of_int i :: byte) = nat (i + 256)"
proof -
  have "i mod 256 = (i + 256) mod 256" by simp
  also have "\<dots> = i + 256" using assms by (intro mod_pos_pos_trivial) simp_all
  finally have "i mod 256 = i + 256" .
  then have "uint (word_of_int i :: byte) = i + 256" by (simp add: uint_word_of_int)
  then show ?thesis by (metis nat_uint_eq)
qed

lemma signed_item_negative:
  assumes "w = Suc v" and "- (2 ^ v) \<le> i" and "i < 0"
  shows "signed_item w (nat (i + 2 ^ w)) = MP_nint i"
proof -
  have "(2 :: int) ^ w = 2 * 2 ^ v" using assms by simp
  with assms show ?thesis by (simp add: signed_item_def mp_signed_def nat_less_iff)
qed

lemma demo_decode_negative:
  assumes "- (2 ^ 63) \<le> i" and "i < 0"
  shows "demo_decode (demo_encode (MP_nint i) @ r) = Some (MP_nint i, r)"
proof -
  consider "- 32 \<le> i" | "\<not> - 32 \<le> i" "- (2 ^ 7) \<le> i" | "\<not> - (2 ^ 7) \<le> i" "- (2 ^ 15) \<le> i"
    | "\<not> - (2 ^ 15) \<le> i" "- (2 ^ 31) \<le> i" | "\<not> - (2 ^ 31) \<le> i" by linarith
  then show ?thesis
  proof cases
    case 1
    then have "i = int (nat (i + 256)) - 256" "224 \<le> nat (i + 256)" using assms by linarith+
    then obtain k where k: "i = int k - 256" "224 \<le> k" by blast
    have "unat (word_of_int i :: byte) = k" using unat_negative [OF 1 assms(2)] k(1) by (simp del: of_int_diff)
    moreover have "demo_encode (MP_nint i) = [word_of_int i]" using 1 by simp
    ultimately show ?thesis using k by (simp add: demo_decode_def del: demo_encode.simps of_int_diff)
  next
    case 2
    then show ?thesis using assms signed_item_negative [of 8 7 i]
      by (simp add: demo_decode_def take_uint_octets del: be_octets.simps)
  next
    case 3
    then show ?thesis using assms signed_item_negative [of 16 15 i]
      by (simp add: demo_decode_def take_uint_octets del: be_octets.simps)
  next
    case 4
    then show ?thesis using assms signed_item_negative [of 32 31 i]
      by (simp add: demo_decode_def take_uint_octets del: be_octets.simps)
  next
    case 5
    then show ?thesis using assms signed_item_negative [of 64 63 i]
      by (simp add: demo_decode_def take_uint_octets del: be_octets.simps)
  qed
qed

lemma demo_decode_encode:
  assumes "mp_wf (mp_double demo_msgpack) x"
  shows "demo_decode (demo_encode x @ r) = Some (x, r)"
proof (cases x)
  case (MP_float64 y)
  then show ?thesis using assms by (simp add: demo_decode_def demo_msgpack_def take_uint_octets)
next
  case (MP_nint i)
  then show ?thesis using assms demo_decode_negative by simp
next
  case (MP_bool b)
  then show ?thesis by (cases b) (simp_all add: demo_decode_def)
qed (use assms in \<open>simp_all add: demo_decode_def unat_of_nat unat_tag take_uint_octets take_body_append demo_msgpack_def Let_def
       del: be_octets.simps split: if_splits\<close>)

lemma length_demo_encode: "length (demo_encode x) = mp_size x"
  by (cases x) (simp_all del: be_octets.simps)

lemma demo_feed_encode:
  assumes "list_all (mp_wf (mp_double demo_msgpack)) xs"
  shows "demo_feed (concat (map demo_encode xs) @ r) = xs @ demo_feed r"
  using assms
proof (induction xs)
  case (Cons x xs)
  have "length (demo_encode x) > 0" by (cases x) (simp_all add: length_demo_encode)
  then show ?case using Cons by (subst demo_feed.simps) (simp add: demo_decode_encode)
qed simp

lemma demo_msgpack_ok: "msgpack_ok demo_msgpack"
proof -
  have f: "mp_feed demo_msgpack = demo_feed" and p: "mp_pack demo_msgpack = (\<lambda>xs. concat (map demo_encode xs))"
    by (simp_all add: demo_msgpack_def)
  have e: "demo_feed [] = []" by (simp add: demo_decode_def)
  show ?thesis
    unfolding msgpack_ok_def f p
    using demo_feed_encode [where r = "[]"]
    by (simp add: demo_feed_encode e length_concat comp_def length_demo_encode del: demo_feed.simps)
qed

end
