(* ===== verification/Resource.thy ===== *)
theory Resource
  imports Link Msgpack
begin

text \<open>
  Resources (\<open>Resource.h\<close>, \<open>ResourceData.h\<close>, \<open>Resource.cpp\<close>): the transfer of data of any size over
  a link.  The initiator encrypts the data as one stream, cuts it into parts, and advertises it with
  the map hashes of the first parts; the receiver requests the parts it misses window by window, asks
  for more map hashes when it runs out, and proves the assembled data.

  An operation works on an \<open>rrun\<close>: the resource, the link it runs over, and the events so far: packets
  for \<open>Transport::outbound\<close>, calls back into the link (registration, conclusion, teardown) and
  callbacks of the application.  \<open>re_outbound\<close> is what \<open>Transport::outbound\<close> answers for a packet.  Every
  operation takes one reading of the clock; \<open>iv n\<close> are the random octets of its n-th encryption.
  \<open>watchdog_job\<close>, which only counts, the members no code reads (\<open>_receiving_part\<close>, the compression and
  metadata buffers) and \<open>_next_segment\<close>, which is never assigned, have no counterpart.
\<close>

abbreviation WINDOW :: nat where "WINDOW \<equiv> 4"
abbreviation WINDOW_MIN :: nat where "WINDOW_MIN \<equiv> 2"
abbreviation WINDOW_MAX_SLOW :: nat where "WINDOW_MAX_SLOW \<equiv> 10"
abbreviation WINDOW_MAX_VERY_SLOW :: nat where "WINDOW_MAX_VERY_SLOW \<equiv> 4"
abbreviation WINDOW_MAX_FAST :: nat where "WINDOW_MAX_FAST \<equiv> 75"
abbreviation WINDOW_MAX :: nat where "WINDOW_MAX \<equiv> 75"
abbreviation FAST_RATE_THRESHOLD :: nat where "FAST_RATE_THRESHOLD \<equiv> 4"
abbreviation VERY_SLOW_RATE_THRESHOLD :: nat where "VERY_SLOW_RATE_THRESHOLD \<equiv> 2"
abbreviation RATE_FAST :: real where "RATE_FAST \<equiv> 6250"
abbreviation RATE_VERY_SLOW :: real where "RATE_VERY_SLOW \<equiv> 250"
abbreviation WINDOW_FLEXIBILITY :: nat where "WINDOW_FLEXIBILITY \<equiv> 4"
abbreviation MAPHASH_LEN :: nat where "MAPHASH_LEN \<equiv> 4"
abbreviation RANDOM_HASH_SIZE :: nat where "RANDOM_HASH_SIZE \<equiv> 4"
abbreviation PART_TIMEOUT_FACTOR :: real where "PART_TIMEOUT_FACTOR \<equiv> 4"
abbreviation PART_TIMEOUT_FACTOR_AFTER_RTT :: real where "PART_TIMEOUT_FACTOR_AFTER_RTT \<equiv> 2"
abbreviation PROOF_TIMEOUT_FACTOR :: real where "PROOF_TIMEOUT_FACTOR \<equiv> 3"
abbreviation HMU_WAIT_FACTOR :: real where "HMU_WAIT_FACTOR \<equiv> 7 / 2"
abbreviation MAX_RETRIES :: nat where "MAX_RETRIES \<equiv> 8"
abbreviation MAX_ADV_RETRIES :: nat where "MAX_ADV_RETRIES \<equiv> 4"
abbreviation SENDER_GRACE_TIME :: real where "SENDER_GRACE_TIME \<equiv> 10"
abbreviation PROCESSING_GRACE :: real where "PROCESSING_GRACE \<equiv> 1"
abbreviation RETRY_GRACE_TIME :: real where "RETRY_GRACE_TIME \<equiv> 1 / 4"
abbreviation PER_RETRY_DELAY :: real where "PER_RETRY_DELAY \<equiv> 1 / 2"
abbreviation TRAFFIC_TIMEOUT_FACTOR :: real where "TRAFFIC_TIMEOUT_FACTOR \<equiv> 6"
abbreviation HASHMAP_IS_NOT_EXHAUSTED :: byte where "HASHMAP_IS_NOT_EXHAUSTED \<equiv> 0x00"
abbreviation HASHMAP_IS_EXHAUSTED :: byte where "HASHMAP_IS_EXHAUSTED \<equiv> 0xFF"

text \<open>\<open>Type::Link::MDU\<close> and the sizes derived from it.\<close>

definition LINK_MDU :: nat where
  "LINK_MDU = ((MTU - IFAC_MIN_SIZE - HEADER_MINSIZE - TOKEN_OVERHEAD) div 16) * 16 - 1"

abbreviation ADV_OVERHEAD :: nat where "ADV_OVERHEAD \<equiv> 134"

definition HASHMAP_MAX_LEN :: nat where
  "HASHMAP_MAX_LEN = (LINK_MDU - ADV_OVERHEAD) div MAPHASH_LEN"

definition COLLISION_GUARD_SIZE :: nat where
  "COLLISION_GUARD_SIZE = 2 * WINDOW_MAX + HASHMAP_MAX_LEN"

lemma resource_sizes [simp]: "LINK_MDU = 431" "HASHMAP_MAX_LEN = 74" "COLLISION_GUARD_SIZE = 224"
  by (simp_all add: LINK_MDU_def HASHMAP_MAX_LEN_def COLLISION_GUARD_SIZE_def wire_sizes)

section \<open>Status\<close>

text \<open>In the source \<open>REJECTED\<close> has the number of \<open>NONE\<close>.\<close>

datatype resource_status =
    R_NONE | R_QUEUED | R_ADVERTISED | R_TRANSFERRING | R_AWAITING_PROOF | R_ASSEMBLING | R_COMPLETE | R_FAILED
  | R_CORRUPT

abbreviation R_REJECTED :: resource_status where "R_REJECTED \<equiv> R_NONE"

fun status_code :: "resource_status \<Rightarrow> nat" where
  "status_code R_NONE = 0"
| "status_code R_QUEUED = 1"
| "status_code R_ADVERTISED = 2"
| "status_code R_TRANSFERRING = 3"
| "status_code R_AWAITING_PROOF = 4"
| "status_code R_ASSEMBLING = 5"
| "status_code R_COMPLETE = 6"
| "status_code R_FAILED = 7"
| "status_code R_CORRUPT = 8"

instantiation resource_status :: linorder
begin

definition less_eq_resource_status :: "resource_status \<Rightarrow> resource_status \<Rightarrow> bool" where
  "less_eq_resource_status a b \<longleftrightarrow> status_code a \<le> status_code b"

definition less_resource_status :: "resource_status \<Rightarrow> resource_status \<Rightarrow> bool" where
  "less_resource_status a b \<longleftrightarrow> status_code a < status_code b"

instance
proof
  fix a b c :: resource_status
  have inj: "status_code a = status_code b \<Longrightarrow> a = b" for a b by (cases a; cases b; simp)
  show "a < b \<longleftrightarrow> a \<le> b \<and> \<not> b \<le> a" by (auto simp: less_eq_resource_status_def less_resource_status_def)
  show "a \<le> a" "a \<le> b \<or> b \<le> a" by (auto simp: less_eq_resource_status_def)
  show "a \<le> b \<Longrightarrow> b \<le> c \<Longrightarrow> a \<le> c" by (simp add: less_eq_resource_status_def)
  show "a \<le> b \<Longrightarrow> b \<le> a \<Longrightarrow> a = b" by (simp add: less_eq_resource_status_def inj)
qed

end

lemmas status_order = less_eq_resource_status_def less_resource_status_def

section \<open>Resources\<close>

record resource =
  r_initiator :: bool
  r_status :: resource_status
  r_flags :: byte
  r_encrypted :: bool
  r_compressed :: bool
  r_split :: bool
  r_is_response :: bool
  r_has_metadata :: bool
  r_hash :: bytes
  r_truncated_hash :: bytes
  r_expected_proof :: bytes
  r_original_hash :: bytes
  r_random_hash :: bytes
  r_request_id :: bytes
  r_size :: nat
  r_total_size :: nat
  r_uncompressed_size :: nat
  r_metadata_size :: nat
  r_data :: bytes
  r_sdu :: nat
  r_parts :: "packet option list"
  r_hashmap :: bytes
  r_hashmap_raw :: bytes
  r_hashmap_height :: nat
  r_total_parts :: nat
  r_sent_parts :: nat
  r_received_count :: nat
  r_outstanding_parts :: nat
  r_consecutive_completed_height :: int
  r_receiver_min_consecutive_height :: nat
  r_segment_index :: nat
  r_total_segments :: nat
  r_window :: nat
  r_window_max :: nat
  r_window_min :: nat
  r_window_flexibility :: nat
  r_fast_rate_rounds :: nat
  r_very_slow_rate_rounds :: nat
  r_max_retries :: nat
  r_max_adv_retries :: nat
  r_retries_left :: nat
  r_rtt :: real
  r_timeout :: real
  r_timeout_factor :: real
  r_part_timeout_factor :: real
  r_sender_grace_time :: real
  r_last_activity :: real
  r_started_transferring :: real
  r_adv_sent :: real
  r_last_part_sent :: real
  r_req_sent :: real
  r_req_resp :: real
  r_rtt_rxd_bytes :: nat
  r_rtt_rxd_bytes_at_part_req :: nat
  r_req_sent_bytes :: nat
  r_req_resp_rtt_rate :: real
  r_req_data_rtt_rate :: real
  r_eifr :: real
  r_previous_eifr :: real
  r_receive_lock :: bool
  r_assembly_lock :: bool
  r_waiting_for_hmu :: bool
  r_advertisement :: bytes
  r_req_hashlist :: "bytes list"
  r_concluded_callback :: bool
  r_progress_callback :: bool

definition resource_data :: resource where
  "resource_data =
     \<lparr>r_initiator = False, r_status = R_NONE, r_flags = 0, r_encrypted = False, r_compressed = False, r_split = False,
      r_is_response = False, r_has_metadata = False, r_hash = [], r_truncated_hash = [], r_expected_proof = [],
      r_original_hash = [], r_random_hash = [], r_request_id = [], r_size = 0, r_total_size = 0,
      r_uncompressed_size = 0, r_metadata_size = 0, r_data = [], r_sdu = MDU, r_parts = [], r_hashmap = [],
      r_hashmap_raw = [], r_hashmap_height = 0, r_total_parts = 0, r_sent_parts = 0, r_received_count = 0,
      r_outstanding_parts = 0, r_consecutive_completed_height = -1, r_receiver_min_consecutive_height = 0,
      r_segment_index = 1, r_total_segments = 1, r_window = WINDOW, r_window_max = WINDOW_MAX_SLOW,
      r_window_min = WINDOW_MIN, r_window_flexibility = WINDOW_FLEXIBILITY, r_fast_rate_rounds = 0,
      r_very_slow_rate_rounds = 0, r_max_retries = MAX_RETRIES, r_max_adv_retries = MAX_ADV_RETRIES,
      r_retries_left = MAX_RETRIES, r_rtt = 0, r_timeout = 0, r_timeout_factor = TRAFFIC_TIMEOUT_FACTOR,
      r_part_timeout_factor = PART_TIMEOUT_FACTOR, r_sender_grace_time = SENDER_GRACE_TIME, r_last_activity = 0,
      r_started_transferring = 0, r_adv_sent = 0, r_last_part_sent = 0, r_req_sent = 0, r_req_resp = 0,
      r_rtt_rxd_bytes = 0, r_rtt_rxd_bytes_at_part_req = 0, r_req_sent_bytes = 0, r_req_resp_rtt_rate = 0,
      r_req_data_rtt_rate = 0, r_eifr = 0, r_previous_eifr = 0, r_receive_lock = False, r_assembly_lock = False,
      r_waiting_for_hmu = False, r_advertisement = [], r_req_hashlist = [], r_concluded_callback = False,
      r_progress_callback = False\<rparr>"

text \<open>The size of a part: the \<open>uint16_t\<close> difference of the MTU of the link and the largest header.\<close>

definition sdu_of :: "link \<Rightarrow> nat" where
  "sdu_of l =
     (let mtu = (if l_status l = LACTIVE then l_mtu l else 0); mdu = (if l_status l = LACTIVE then l_mdu l else 0)
      in if mtu \<noteq> 0 then nat ((int mtu - int HEADER_MAXSIZE - int IFAC_MIN_SIZE) mod 2 ^ 16)
         else if mdu \<noteq> 0 then mdu else MDU)"

definition new_resource :: "bytes \<Rightarrow> link \<Rightarrow> resource" where
  "new_resource dat l =
     resource_data\<lparr>r_data := dat, r_sdu := sdu_of l, r_timeout := l_rtt l * TRAFFIC_TIMEOUT_FACTOR\<rparr>"

section \<open>Advertisements\<close>

record advertisement =
  adv_t :: nat
  adv_d :: nat
  adv_n :: nat
  adv_h :: bytes
  adv_r :: bytes
  adv_o :: bytes
  adv_m :: bytes
  adv_c :: bool
  adv_e :: bool
  adv_s :: bool
  adv_x :: bool
  adv_i :: nat
  adv_l :: nat
  adv_q :: bytes
  adv_u :: bool
  adv_p :: bool
  adv_f :: byte

definition empty_advertisement :: advertisement where
  "empty_advertisement =
     \<lparr>adv_t = 0, adv_d = 0, adv_n = 0, adv_h = [], adv_r = [], adv_o = [], adv_m = [], adv_c = False, adv_e = False,
      adv_s = False, adv_x = False, adv_i = 1, adv_l = 1, adv_q = [], adv_u = False, adv_p = False, adv_f = 0\<rparr>"

definition flag :: "bool \<Rightarrow> nat \<Rightarrow> byte" where
  "flag b n = push_bit n (if b then 1 else 0)"

definition flags_octet :: "bool \<Rightarrow> bool \<Rightarrow> bool \<Rightarrow> bool \<Rightarrow> bool \<Rightarrow> bool \<Rightarrow> byte" where
  "flags_octet x p u s c e = flag x 5 OR flag p 4 OR flag u 3 OR flag s 2 OR flag c 1 OR flag e 0"

definition advertisement_of :: "resource \<Rightarrow> advertisement" where
  "advertisement_of r =
     (let q = r_request_id r; u = (q \<noteq> [] \<and> \<not> r_is_response r); p = (q \<noteq> [] \<and> r_is_response r)
      in \<lparr>adv_t = r_size r, adv_d = r_total_size r, adv_n = length (r_parts r), adv_h = r_hash r,
          adv_r = r_random_hash r, adv_o = r_original_hash r, adv_m = r_hashmap r, adv_c = r_compressed r,
          adv_e = r_encrypted r, adv_s = r_split r, adv_x = r_has_metadata r, adv_i = r_segment_index r,
          adv_l = r_total_segments r, adv_q = q, adv_u = u, adv_p = p,
          adv_f = flags_octet (r_has_metadata r) p u (r_split r) (r_compressed r) (r_encrypted r)\<rparr>)"

text \<open>The slice of a hashmap with the entries of one segment.\<close>

definition hashmap_slice :: "nat \<Rightarrow> advertisement \<Rightarrow> bytes" where
  "hashmap_slice segment a =
     (let s = segment * HASHMAP_MAX_LEN; e = min ((segment + 1) * HASHMAP_MAX_LEN) (adv_n a)
      in if length (adv_m a) \<ge> e * MAPHASH_LEN \<and> e > s then mid (adv_m a) (s * MAPHASH_LEN) ((e - s) * MAPHASH_LEN)
         else [])"

text \<open>The keys are the letters t, d, n, h, r, o, i, l, q, f and m.\<close>

definition adv_items :: "nat \<Rightarrow> advertisement \<Rightarrow> mp_item list" where
  "adv_items segment a =
     [MP_map 11, MP_str [0x74], MP_uint (adv_t a), MP_str [0x64], MP_uint (adv_d a), MP_str [0x6E], MP_uint (adv_n a),
      MP_str [0x68], MP_bin (adv_h a), MP_str [0x72], MP_bin (adv_r a), MP_str [0x6F], MP_bin (adv_o a),
      MP_str [0x69], MP_uint (adv_i a), MP_str [0x6C], MP_uint (adv_l a),
      MP_str [0x71], if adv_q a \<noteq> [] then MP_bin (adv_q a) else MP_nil,
      MP_str [0x66], MP_uint (unat (adv_f a)), MP_str [0x6D], MP_bin (hashmap_slice segment a)]"

definition adv_pack :: "msgpack \<Rightarrow> nat \<Rightarrow> advertisement \<Rightarrow> bytes" where
  "adv_pack M segment a = mp_pack M (adv_items segment a)"

text \<open>The value of one key; \<open>None\<close> ends the parse.\<close>

definition adv_field :: "msgpack \<Rightarrow> byte \<Rightarrow> mp_item list \<Rightarrow> advertisement \<Rightarrow> (advertisement \<times> mp_item list) option" where
  "adv_field M k s a =
     (if k = 0x74 then (case mp_uint M 64 s of (v, s') \<Rightarrow> Some (a\<lparr>adv_t := v\<rparr>, s'))
      else if k = 0x64 then (case mp_uint M 64 s of (v, s') \<Rightarrow> Some (a\<lparr>adv_d := v\<rparr>, s'))
      else if k = 0x6E then (case mp_uint M 32 s of (v, s') \<Rightarrow> Some (a\<lparr>adv_n := v\<rparr>, s'))
      else if k = 0x68 then (case mp_bin M s of (b, s') \<Rightarrow> Some (a\<lparr>adv_h := b\<rparr>, s'))
      else if k = 0x72 then (case mp_bin M s of (b, s') \<Rightarrow> Some (a\<lparr>adv_r := b\<rparr>, s'))
      else if k = 0x6F then (case mp_bin M s of (b, s') \<Rightarrow> Some (a\<lparr>adv_o := b\<rparr>, s'))
      else if k = 0x6D then (case mp_bin M s of (b, s') \<Rightarrow> Some (a\<lparr>adv_m := b\<rparr>, s'))
      else if k = 0x69 then (case mp_uint M 32 s of (v, s') \<Rightarrow> Some (a\<lparr>adv_i := v mod 2 ^ 16\<rparr>, s'))
      else if k = 0x6C then (case mp_uint M 32 s of (v, s') \<Rightarrow> Some (a\<lparr>adv_l := v mod 2 ^ 16\<rparr>, s'))
      else if k = 0x71 then
        (case s of
           MP_nil # s' \<Rightarrow> Some (a, s')
         | MP_bin b # s' \<Rightarrow> Some (a\<lparr>adv_q := b\<rparr>, s')
         | _ \<Rightarrow> None)
      else if k = 0x66 then (case mp_uint M 32 s of (v, s') \<Rightarrow> Some (a\<lparr>adv_f := word_of_nat v\<rparr>, s'))
      else None)"

text \<open>The loop over the entries; the second component tells whether it came to its end.\<close>

primrec adv_entries :: "msgpack \<Rightarrow> nat \<Rightarrow> mp_item list \<Rightarrow> advertisement \<Rightarrow> advertisement \<times> bool" where
  "adv_entries M 0 s a = (a, True)"
| "adv_entries M (Suc n) s a =
     (case mp_str M s of
        (Some [k], s1) \<Rightarrow>
          (case adv_field M k s1 a of Some (a', s2) \<Rightarrow> adv_entries M n s2 a' | None \<Rightarrow> (a, False))
      | _ \<Rightarrow> (a, False))"

definition derive_flags :: "advertisement \<Rightarrow> advertisement" where
  "derive_flags a =
     (let f = adv_f a
      in a\<lparr>adv_e := f AND 0x01 \<noteq> 0, adv_c := drop_bit 1 f AND 0x01 \<noteq> 0, adv_s := drop_bit 2 f AND 0x01 \<noteq> 0,
           adv_u := drop_bit 3 f AND 0x01 \<noteq> 0, adv_p := drop_bit 4 f AND 0x01 \<noteq> 0,
           adv_x := drop_bit 5 f AND 0x01 \<noteq> 0\<rparr>)"

definition adv_unpack :: "msgpack \<Rightarrow> bytes \<Rightarrow> advertisement" where
  "adv_unpack M dat =
     (if dat = [] then empty_advertisement
      else
        (case mp_feed M dat of
           MP_map n # s \<Rightarrow>
             (case adv_entries M n s empty_advertisement of
                (a, True) \<Rightarrow> derive_flags a
              | (a, False) \<Rightarrow> a)
         | _ \<Rightarrow> empty_advertisement))"

definition is_request :: "msgpack \<Rightarrow> bytes \<Rightarrow> bool" where
  "is_request M pt = (let a = adv_unpack M pt in adv_q a \<noteq> [] \<and> adv_u a)"

definition is_response :: "msgpack \<Rightarrow> bytes \<Rightarrow> bool" where
  "is_response M pt = (let a = adv_unpack M pt in adv_q a \<noteq> [] \<and> adv_p a)"

section \<open>Lemmas on advertisements\<close>

text \<open>What fits the fields of an advertisement.\<close>

definition adv_wf :: "advertisement \<Rightarrow> bool" where
  "adv_wf a \<longleftrightarrow>
     adv_t a < 2 ^ 64 \<and> adv_d a < 2 ^ 64 \<and> adv_n a < 2 ^ 32 \<and> adv_i a < 2 ^ 16 \<and> adv_l a < 2 ^ 16 \<and>
     length (adv_h a) < 2 ^ 32 \<and> length (adv_r a) < 2 ^ 32 \<and> length (adv_o a) < 2 ^ 32 \<and> length (adv_q a) < 2 ^ 32"

lemma length_hashmap_slice: "length (hashmap_slice segment a) \<le> HASHMAP_MAX_LEN * MAPHASH_LEN"
proof -
  have "length (mid m x ((e - s) * 4)) \<le> 296" if "e \<le> s + 74" for m :: bytes and x e s
  proof -
    have "length (mid m x ((e - s) * 4)) \<le> (e - s) * 4" by (simp add: mid_def Let_def)
    with that show ?thesis by linarith
  qed
  then show ?thesis by (simp add: hashmap_slice_def Let_def)
qed

lemma hashmap_slice_whole:
  assumes "length (adv_m a) = adv_n a * MAPHASH_LEN"
  shows "hashmap_slice 0 a = take (HASHMAP_MAX_LEN * MAPHASH_LEN) (adv_m a)"
  using assms by (simp add: hashmap_slice_def mid_def Let_def min_def not_le) auto

lemma adv_items_wf:
  assumes "adv_wf a"
  shows "list_all (mp_wf f) (adv_items segment a)"
proof -
  have "unat (adv_f a) < 2 ^ 64" by (rule less_trans [OF unat_byte_lt]) simp
  moreover have "length (hashmap_slice segment a) < 2 ^ 32" using length_hashmap_slice [of segment a] by simp
  ultimately show ?thesis using assms by (simp add: adv_items_def adv_wf_def)
qed

definition decoded :: "nat \<Rightarrow> advertisement \<Rightarrow> advertisement" where
  "decoded segment a =
     derive_flags (empty_advertisement
       \<lparr>adv_t := adv_t a, adv_d := adv_d a, adv_n := adv_n a, adv_h := adv_h a, adv_r := adv_r a, adv_o := adv_o a,
        adv_i := adv_i a, adv_l := adv_l a, adv_q := adv_q a, adv_f := adv_f a, adv_m := hashmap_slice segment a\<rparr>)"

lemma adv_field_simps:
  "v < 2 ^ 64 \<Longrightarrow> adv_field M 0x74 (MP_uint v # s) a = Some (a\<lparr>adv_t := v\<rparr>, s)"
  "v < 2 ^ 64 \<Longrightarrow> adv_field M 0x64 (MP_uint v # s) a = Some (a\<lparr>adv_d := v\<rparr>, s)"
  "v < 2 ^ 32 \<Longrightarrow> adv_field M 0x6E (MP_uint v # s) a = Some (a\<lparr>adv_n := v\<rparr>, s)"
  "adv_field M 0x68 (MP_bin b # s) a = Some (a\<lparr>adv_h := b\<rparr>, s)"
  "adv_field M 0x72 (MP_bin b # s) a = Some (a\<lparr>adv_r := b\<rparr>, s)"
  "adv_field M 0x6F (MP_bin b # s) a = Some (a\<lparr>adv_o := b\<rparr>, s)"
  "adv_field M 0x6D (MP_bin b # s) a = Some (a\<lparr>adv_m := b\<rparr>, s)"
  "v < 2 ^ 16 \<Longrightarrow> adv_field M 0x69 (MP_uint v # s) a = Some (a\<lparr>adv_i := v\<rparr>, s)"
  "v < 2 ^ 16 \<Longrightarrow> adv_field M 0x6C (MP_uint v # s) a = Some (a\<lparr>adv_l := v\<rparr>, s)"
  "adv_q a = [] \<Longrightarrow> adv_field M 0x71 ((if b \<noteq> [] then MP_bin b else MP_nil) # s) a = Some (a\<lparr>adv_q := b\<rparr>, s)"
  "v < 2 ^ 32 \<Longrightarrow> adv_field M 0x66 (MP_uint v # s) a = Some (a\<lparr>adv_f := word_of_nat v\<rparr>, s)"
  by (simp_all add: adv_field_def)

lemma empty_q: "adv_q empty_advertisement = []"
  by (simp add: empty_advertisement_def)

lemma adv_unpack_pack:
  assumes M: "msgpack_ok M" and a: "adv_wf a"
  shows "adv_unpack M (adv_pack M segment a) = decoded segment a"
proof -
  have "length (adv_pack M segment a) > 0" by (simp add: adv_pack_def msgpack_okD(2) [OF M]) (simp add: adv_items_def)
  then have ne: "adv_pack M segment a \<noteq> []" by auto
  have feed: "mp_feed M (adv_pack M segment a) = adv_items segment a"
    unfolding adv_pack_def by (rule msgpack_okD(3) [OF M adv_items_wf [OF a]])
  have f: "unat (adv_f a) < 2 ^ 32" by (rule less_trans [OF unat_byte_lt]) simp
  note w = a [unfolded adv_wf_def]
  have eleven: "11 = Suc (Suc (Suc (Suc (Suc (Suc (Suc (Suc (Suc (Suc (Suc 0))))))))))" by simp
  have "adv_entries M 11 (tl (adv_items segment a)) empty_advertisement =
      (empty_advertisement
       \<lparr>adv_t := adv_t a, adv_d := adv_d a, adv_n := adv_n a, adv_h := adv_h a, adv_r := adv_r a, adv_o := adv_o a,
        adv_i := adv_i a, adv_l := adv_l a, adv_q := adv_q a, adv_f := adv_f a, adv_m := hashmap_slice segment a\<rparr>, True)"
    unfolding adv_items_def list.sel eleven using w f
    by (simp add: adv_field_simps empty_q split del: if_split)
  then show ?thesis
    using ne unfolding adv_unpack_def feed by (simp add: adv_items_def decoded_def)
qed

lemma flag_bits:
  fixes x p u s c e :: bool
  defines "f \<equiv> flags_octet x p u s c e"
  shows "f AND 0x01 \<noteq> 0 \<longleftrightarrow> e" "drop_bit 1 f AND 0x01 \<noteq> 0 \<longleftrightarrow> c" "drop_bit 2 f AND 0x01 \<noteq> 0 \<longleftrightarrow> s"
    "drop_bit 3 f AND 0x01 \<noteq> 0 \<longleftrightarrow> u" "drop_bit 4 f AND 0x01 \<noteq> 0 \<longleftrightarrow> p" "drop_bit 5 f AND 0x01 \<noteq> 0 \<longleftrightarrow> x"
  unfolding f_def flags_octet_def flag_def
  by (cases x; cases p; cases u; cases s; cases c; cases e; simp)+

lemma unat_flags: "unat (flags_octet x p u s c e) < 64"
  unfolding flags_octet_def flag_def by (cases x; cases p; cases u; cases s; cases c; cases e; simp)

lemma advertisement_of_m:
  "adv_m (advertisement_of r) = r_hashmap r" "adv_n (advertisement_of r) = length (r_parts r)"
  by (simp_all add: advertisement_of_def Let_def)

lemma decoded_advertisement:
  assumes "length (r_hashmap r) = length (r_parts r) * MAPHASH_LEN"
  shows "decoded 0 (advertisement_of r)
    = (advertisement_of r)\<lparr>adv_m := take (HASHMAP_MAX_LEN * MAPHASH_LEN) (r_hashmap r)\<rparr>"
  using assms hashmap_slice_whole [of "advertisement_of r"]
  by (simp add: decoded_def derive_flags_def advertisement_of_m)
    (simp add: advertisement_of_def empty_advertisement_def Let_def flag_bits [unfolded One_nat_def])

lemma advertisement_size:
  assumes "msgpack_ok M" and "r_size r < 2 ^ 32" and "r_total_size r < 2 ^ 32" and "length (r_parts r) < 2 ^ 16"
    and "length (r_hash r) \<le> 32" and "length (r_original_hash r) \<le> 32" and "length (r_random_hash r) \<le> 4"
    and "length (r_request_id r) \<le> 16" and "r_segment_index r < 128" and "r_total_segments r < 128"
  shows "length (adv_pack M 0 (advertisement_of r)) \<le> ADV_OVERHEAD + HASHMAP_MAX_LEN * MAPHASH_LEN \<and>
    ADV_OVERHEAD + HASHMAP_MAX_LEN * MAPHASH_LEN \<le> LINK_MDU"
proof -
  let ?a = "advertisement_of r"
  have f: "mp_size (MP_uint (unat (adv_f ?a))) = 1"
    using unat_flags [of "r_has_metadata r" "adv_p ?a" "adv_u ?a" "r_split r" "r_compressed r" "r_encrypted r"]
    by (simp add: advertisement_of_def Let_def)
  have m: "mp_size (MP_bin (hashmap_slice 0 ?a)) \<le> 3 + HASHMAP_MAX_LEN * MAPHASH_LEN"
    using length_hashmap_slice [of 0 ?a] by simp
  have u: "mp_size (MP_uint (adv_t ?a)) \<le> 5" "mp_size (MP_uint (adv_d ?a)) \<le> 5" "mp_size (MP_uint (adv_n ?a)) \<le> 3"
    "mp_size (MP_uint (adv_i ?a)) = 1" "mp_size (MP_uint (adv_l ?a)) = 1"
    "mp_size (MP_bin (adv_h ?a)) \<le> 34" "mp_size (MP_bin (adv_r ?a)) \<le> 6" "mp_size (MP_bin (adv_o ?a)) \<le> 34"
    "mp_size (if adv_q ?a \<noteq> [] then MP_bin (adv_q ?a) else MP_nil) \<le> 18"
    using assms(2-10) by (simp_all add: advertisement_of_def Let_def)
  have "length (adv_pack M 0 ?a) = sum_list (map mp_size (adv_items 0 ?a))"
    unfolding adv_pack_def by (rule msgpack_okD(2) [OF assms(1)])
  also have "\<dots> \<le> ADV_OVERHEAD + HASHMAP_MAX_LEN * MAPHASH_LEN"
    using f m u unfolding adv_items_def by (simp del: mp_size.simps(4,7))
  finally show ?thesis by simp
qed

section \<open>Properties\<close>

text \<open>
  C26. What \<open>unpack\<close> reads from the packed advertisement of a resource is that advertisement: sizes,
  hashes, segment numbers, request id and all flags, with the map hashes of the first segment.
\<close>

theorem advertisement_roundtrip:
  assumes "msgpack_ok M" and "adv_wf (advertisement_of r)"
    and "length (r_hashmap r) = length (r_parts r) * MAPHASH_LEN"
  shows "adv_unpack M (adv_pack M 0 (advertisement_of r))
    = (advertisement_of r)\<lparr>adv_m := take (HASHMAP_MAX_LEN * MAPHASH_LEN) (r_hashmap r)\<rparr>"
  by (simp only: adv_unpack_pack [OF assms(1,2)] decoded_advertisement [OF assms(3)])

definition demo_resource :: resource where
  "demo_resource =
     resource_data
       \<lparr>r_size := 70000, r_total_size := 69000, r_hash := replicate 32 1, r_random_hash := [1, 2, 3, 4],
        r_original_hash := replicate 32 1, r_request_id := replicate 16 9, r_encrypted := True, r_is_response := True,
        r_parts := replicate 80 None, r_hashmap := replicate 320 5\<rparr>"

theorem advertisement_roundtrip_witness:
  "adv_unpack demo_msgpack (adv_pack demo_msgpack 0 (advertisement_of demo_resource))
    = (advertisement_of demo_resource)\<lparr>adv_m := take (HASHMAP_MAX_LEN * MAPHASH_LEN) (replicate 320 5)\<rparr>
   \<and> adv_p (advertisement_of demo_resource)"
proof -
  have w: "adv_wf (advertisement_of demo_resource)"
    by (simp add: adv_wf_def advertisement_of_def demo_resource_def resource_data_def Let_def)
  have l: "length (r_hashmap demo_resource) = length (r_parts demo_resource) * MAPHASH_LEN"
    and h: "r_hashmap demo_resource = replicate 320 5" by (simp_all add: demo_resource_def)
  have p: "adv_p (advertisement_of demo_resource)"
    by (simp add: advertisement_of_def demo_resource_def resource_data_def Let_def)
  show ?thesis
    using advertisement_roundtrip [OF demo_msgpack_ok w l, unfolded h] p by (rule conjI)
qed

text \<open>
  The advertisement of a resource of fewer than \<open>2\<^sup>3\<^sup>2\<close> octets in fewer than \<open>2\<^sup>1\<^sup>6\<close> parts takes at most
  the \<open>OVERHEAD\<close> of 134 octets and its map hashes, and so fits the MDU of a link, however many parts.
\<close>

lemma advertisement_fits:
  assumes "msgpack_ok M" and "r_size r < 2 ^ 32" and "r_total_size r < 2 ^ 32" and "length (r_parts r) < 2 ^ 16"
    and "length (r_hash r) \<le> 32" and "length (r_original_hash r) \<le> 32" and "length (r_random_hash r) \<le> 4"
    and "length (r_request_id r) \<le> 16" and "r_segment_index r < 128" and "r_total_segments r < 128"
  shows "length (adv_pack M 0 (advertisement_of r)) \<le> ADV_OVERHEAD + HASHMAP_MAX_LEN * MAPHASH_LEN \<and>
    ADV_OVERHEAD + HASHMAP_MAX_LEN * MAPHASH_LEN \<le> LINK_MDU"
  by (rule advertisement_size [OF assms])

end
