(* ===== verification/Resource_Ops.thy ===== *)
theory Resource_Ops
  imports Resource
begin

text \<open>
  The operations of a resource (\<open>Resource.cpp\<close>): \<open>start\<close>, \<open>advertise_job\<close> and \<open>request\<close> of the initiator,
  \<open>accept\<close>, \<open>receive_part\<close>, \<open>request_next\<close>, \<open>hashmap_update\<close> and \<open>assemble\<close> of the receiver,
  \<open>validate_proof\<close>, \<open>cancel\<close>, \<open>rejected\<close> and the watchdog.  Exceptions the source catches are handled
  here; the result type holds those that leave the operation.
\<close>

datatype resource_event =
    Transmit packet
  | Cache packet
  | Register_incoming
  | Register_outgoing
  | Forget_incoming
  | Forget_outgoing
  | Link_concluded
  | Link_teardown
  | Started_callback
  | Progress_callback
  | Concluded_callback

record resource_env =
  re_lib :: crypto_lib
  re_msgpack :: msgpack
  re_outbound :: "packet \<Rightarrow> bool"

record rrun =
  rr_res :: resource
  rr_link :: link
  rr_events :: "resource_event list"

abbreviation upd :: "(resource \<Rightarrow> resource) \<Rightarrow> rrun \<Rightarrow> rrun" where
  "upd f s \<equiv> s\<lparr>rr_res := f (rr_res s)\<rparr>"

definition emit :: "resource_event list \<Rightarrow> rrun \<Rightarrow> rrun" where
  "emit evs s = s\<lparr>rr_events := rr_events s @ evs\<rparr>"

section \<open>Sending\<close>

text \<open>
  \<open>Packet(link, data).packet_type(ty).context(ctx).send()\<close>: the link notes the time, the packet is
  packed and handed to \<open>Transport::outbound\<close>.  Returns the packet or the exception.
\<close>

definition res_send :: "resource_env \<Rightarrow> real \<Rightarrow> bytes \<Rightarrow> packet_type \<Rightarrow> byte \<Rightarrow> bytes \<Rightarrow> rrun \<Rightarrow> packet result \<times> rrun" where
  "res_send E now iv ty ctx dat s =
     (let l = rr_link s
      in case link_packet (re_lib E) iv l ty ctx dat of
           Inl e \<Rightarrow> (Inl e, if l_status l = CLOSED then s else s\<lparr>rr_link := l\<lparr>l_last_outbound := now\<rparr>\<rparr>)
         | Inr p \<Rightarrow>
             (Inr p, emit [Transmit p]
                       (s\<lparr>rr_link := (if p_encrypted p then with_token l else l)\<lparr>l_last_outbound := now\<rparr>\<rparr>)))"

text \<open>The packet of one part: packed when the resource is started, sent when it is requested.\<close>

definition part_packet :: "crypto_lib \<Rightarrow> link \<Rightarrow> bytes \<Rightarrow> packet result" where
  "part_packet lib l chunk =
     res_bind (packet_to_link (link_view_of lib [] l) chunk) (\<lambda>p0.
     res_bind (set_context RESOURCE p0) (pack lib))"

text \<open>\<open>part.send()\<close>, or \<open>part.resend()\<close> when it was sent before.\<close>

definition send_part :: "resource_env \<Rightarrow> real \<Rightarrow> packet \<Rightarrow> rrun \<Rightarrow> packet result \<times> rrun" where
  "send_part E now p s =
     (let l = rr_link s
      in if \<not> p_sent p then
           (if l_status l = CLOSED then (Inl Runtime_error, s)
            else (Inr (p\<lparr>p_sent := re_outbound E p\<rparr>),
                  emit [Transmit p] (s\<lparr>rr_link := l\<lparr>l_last_outbound := now\<rparr>\<rparr>)))
         else
           (case pack (re_lib E) p of
              Inl e \<Rightarrow> (Inl e, s)
            | Inr q \<Rightarrow> (Inr (q\<lparr>p_sent := re_outbound E q\<rparr>), emit [Transmit q] s)))"

section \<open>Cancelling\<close>

text \<open>\<open>Resource::reject\<close>, which catches its exceptions.\<close>

definition reject :: "resource_env \<Rightarrow> real \<Rightarrow> bytes \<Rightarrow> bytes \<Rightarrow> rrun \<Rightarrow> rrun" where
  "reject E now iv advertisement s =
     snd (res_send E now iv DATA RESOURCE_RCL (adv_h (adv_unpack (re_msgpack E) advertisement)) s)"

definition conclude_failed :: "rrun \<Rightarrow> rrun" where
  "conclude_failed s = (if r_concluded_callback (rr_res s) then emit [Link_concluded, Concluded_callback] s else s)"

definition cancel :: "resource_env \<Rightarrow> real \<Rightarrow> bytes \<Rightarrow> rrun \<Rightarrow> rrun" where
  "cancel E now iv s =
     (if r_status (rr_res s) = R_CORRUPT then
        emit [Link_teardown] (reject E now iv (r_advertisement (rr_res s)) (emit [Forget_incoming] s))
      else if r_status (rr_res s) \<ge> R_COMPLETE then s
      else
        let s1 = upd (\<lambda>r. r\<lparr>r_status := R_FAILED\<rparr>) s;
            s2 = (if r_initiator (rr_res s1) then
                    emit [Forget_outgoing]
                      (if l_status (rr_link s1) = LACTIVE
                       then snd (res_send E now iv DATA RESOURCE_ICL (r_hash (rr_res s1)) s1) else s1)
                  else emit [Forget_incoming] s1)
        in conclude_failed s2)"

definition rejected :: "rrun \<Rightarrow> rrun" where
  "rejected s =
     (if r_status (rr_res s) \<ge> R_COMPLETE \<or> \<not> r_initiator (rr_res s) then s
      else conclude_failed (emit [Forget_outgoing] (upd (\<lambda>r. r\<lparr>r_status := R_REJECTED\<rparr>) s)))"

section \<open>The initiator\<close>

definition map_hash :: "crypto_lib \<Rightarrow> resource \<Rightarrow> bytes \<Rightarrow> bytes" where
  "map_hash lib r dat = left (full_hash lib (dat @ r_random_hash r)) MAPHASH_LEN"

definition send_advertisement :: "resource_env \<Rightarrow> real \<Rightarrow> bytes \<Rightarrow> rrun \<Rightarrow> packet result \<times> rrun" where
  "send_advertisement E now iv s =
     (let adv = adv_pack (re_msgpack E) 0 (advertisement_of (rr_res s))
      in res_send E now iv DATA RESOURCE_ADV adv (upd (\<lambda>r. r\<lparr>r_advertisement := adv\<rparr>) s))"

text \<open>\<open>ready\<close>: no outgoing resource is registered with the link.\<close>

definition advertise_job :: "resource_env \<Rightarrow> real \<Rightarrow> (nat \<Rightarrow> bytes) \<Rightarrow> bool \<Rightarrow> rrun \<Rightarrow> rrun" where
  "advertise_job E now iv ready s =
     (if \<not> ready then
        upd (\<lambda>r. r\<lparr>r_advertisement := adv_pack (re_msgpack E) 0 (advertisement_of r), r_status := R_QUEUED\<rparr>) s
      else
        (case send_advertisement E now (iv 0) s of
           (Inl e, s1) \<Rightarrow> cancel E now (iv 1) s1
         | (Inr _, s1) \<Rightarrow>
             emit [Register_outgoing]
               (upd (\<lambda>r. r\<lparr>r_last_activity := now, r_started_transferring := now, r_adv_sent := now, r_rtt := 0,
                           r_status := R_ADVERTISED, r_retries_left := r_max_adv_retries r\<rparr>) s1)))"

text \<open>The i-th part of a stream.\<close>

definition chunk :: "nat \<Rightarrow> bytes \<Rightarrow> nat \<Rightarrow> bytes" where
  "chunk sdu stream i = mid stream (i * sdu) (min sdu (length stream - i * sdu))"

primrec pack_parts :: "crypto_lib \<Rightarrow> link \<Rightarrow> bytes list \<Rightarrow> packet option list result" where
  "pack_parts lib l [] = Inr []"
| "pack_parts lib l (c # cs) =
     res_bind (part_packet lib l c) (\<lambda>p. res_bind (pack_parts lib l cs) (\<lambda>ps. Inr (Some p # ps)))"

definition part_count :: "nat \<Rightarrow> nat \<Rightarrow> nat" where
  "part_count len sdu = (len + sdu - 1) mod 2 ^ 64 div sdu mod 2 ^ 32"

text \<open>\<open>rnd\<close>: the octets of the random hash.  A part size of zero is a division by zero.\<close>

definition start :: "resource_env \<Rightarrow> real \<Rightarrow> bytes \<Rightarrow> (nat \<Rightarrow> bytes) \<Rightarrow> bool \<Rightarrow> rrun \<Rightarrow> rrun result" where
  "start E now rnd iv ready s =
     (let r = rr_res s; lib = re_lib E
      in if r_data r = [] then Inr s
         else
           let dat = r_data r;
               random_hash = left (truncated_hash lib rnd) RANDOM_HASH_SIZE;
               h = full_hash lib (dat @ random_hash);
               r1 = r\<lparr>r_initiator := True, r_data := [], r_uncompressed_size := length dat,
                      r_total_size := length dat + r_metadata_size r, r_random_hash := random_hash,
                      r_compressed := False, r_hash := h, r_truncated_hash := truncated_hash lib (dat @ random_hash),
                      r_expected_proof := full_hash lib (dat @ h),
                      r_original_hash := (if r_original_hash r = [] then h else r_original_hash r)\<rparr>
           in res_bind (link_encrypt lib (iv 0) (rr_link s) (random_hash @ dat)) (\<lambda>(stream, l).
              if r_sdu r = 0 then Inl Undefined_behaviour
              else
                let n = part_count (length stream) (r_sdu r);
                    chunks = map (chunk (r_sdu r) stream) [0..<n]
                in res_bind (pack_parts lib l chunks) (\<lambda>parts.
                   Inr (advertise_job E now (\<lambda>k. iv (k + 1)) ready
                          (s\<lparr>rr_link := l,
                             rr_res := r1\<lparr>r_encrypted := True, r_size := length stream, r_total_parts := n,
                                          r_sent_parts := 0, r_parts := parts,
                                          r_hashmap := concat (map (map_hash lib r1) chunks)\<rparr>\<rparr>)))))"

text \<open>
  One entry of the search in \<open>request\<close>: a requested part is sent, or sent again.  An exception cancels
  the transfer and ends the operation (\<open>False\<close>).
\<close>

definition map_hash_at :: "resource \<Rightarrow> nat \<Rightarrow> bytes" where
  "map_hash_at r i = mid (r_hashmap r) (i * MAPHASH_LEN) MAPHASH_LEN"

definition serve_part :: "resource_env \<Rightarrow> real \<Rightarrow> bytes \<Rightarrow> bytes list \<Rightarrow> nat \<Rightarrow> rrun \<Rightarrow> (bool \<times> rrun) result" where
  "serve_part E now iv wanted i s =
     (if map_hash_at (rr_res s) i \<notin> set wanted then Inr (True, s)
      else
        (case r_parts (rr_res s) ! i of
           None \<Rightarrow> Inl Undefined_behaviour
         | Some p \<Rightarrow>
             (case send_part E now p s of
                (Inl e, s1) \<Rightarrow> Inr (False, cancel E now iv s1)
              | (Inr q, s1) \<Rightarrow>
                  Inr (True, upd (\<lambda>r. r\<lparr>r_parts := (r_parts r)[i := Some q],
                                       r_sent_parts := (if p_sent p then r_sent_parts r else r_sent_parts r + 1),
                                       r_last_activity := now, r_last_part_sent := now\<rparr>) s1))))"

primrec serve_parts :: "resource_env \<Rightarrow> real \<Rightarrow> bytes \<Rightarrow> bytes list \<Rightarrow> nat list \<Rightarrow> rrun \<Rightarrow> (bool \<times> rrun) result" where
  "serve_parts E now iv wanted [] s = Inr (True, s)"
| "serve_parts E now iv wanted (i # is) s =
     res_bind (serve_part E now iv wanted i s) (\<lambda>(ok, s1).
       if ok then serve_parts E now iv wanted is s1 else Inr (False, s1))"

fun chop :: "nat \<Rightarrow> bytes \<Rightarrow> bytes list" where
  "chop n bs = (if n = 0 \<or> length bs < n then [] else take n bs # chop n (drop n bs))"

declare chop.simps [simp del]

text \<open>The number of entries up to and with the last map hash the receiver has seen.\<close>

primrec seen_entries :: "resource \<Rightarrow> bytes \<Rightarrow> nat list \<Rightarrow> nat" where
  "seen_entries r last_hash [] = 0"
| "seen_entries r last_hash (i # is) = (if map_hash_at r i = last_hash then 1 else 1 + seen_entries r last_hash is)"

definition send_hashmap :: "resource_env \<Rightarrow> real \<Rightarrow> (nat \<Rightarrow> bytes) \<Rightarrow> bytes \<Rightarrow> nat list \<Rightarrow> rrun \<Rightarrow> bool \<times> rrun" where
  "send_hashmap E now iv last_hash search s =
     (let part_index = r_receiver_min_consecutive_height (rr_res s) + seen_entries (rr_res s) last_hash search;
          s1 = upd (\<lambda>r. r\<lparr>r_receiver_min_consecutive_height := part_index - 1 - WINDOW_MAX\<rparr>) s
      in if part_index mod HASHMAP_MAX_LEN \<noteq> 0 then (False, cancel E now (iv 0) s1)
         else
           let segment = part_index div HASHMAP_MAX_LEN;
               st = segment * HASHMAP_MAX_LEN;
               en = min ((segment + 1) * HASHMAP_MAX_LEN) (length (r_parts (rr_res s1)));
               slice = mid (r_hashmap (rr_res s1)) (st * MAPHASH_LEN) ((en - st) * MAPHASH_LEN);
               payload = r_hash (rr_res s1) @ mp_pack (re_msgpack E) [MP_array 2, MP_uint segment, MP_bin slice]
           in (case res_send E now (iv 0) DATA RESOURCE_HMU payload s1 of
                 (Inl e, s2) \<Rightarrow> (False, cancel E now (iv 1) s2)
               | (Inr _, s2) \<Rightarrow> (True, upd (\<lambda>r. r\<lparr>r_last_activity := now\<rparr>) s2)))"

definition finish_request :: "rrun \<Rightarrow> rrun" where
  "finish_request s =
     (let s1 = (if r_sent_parts (rr_res s) = length (r_parts (rr_res s))
                then upd (\<lambda>r. r\<lparr>r_status := R_AWAITING_PROOF, r_retries_left := 3\<rparr>) s else s)
      in if r_progress_callback (rr_res s1) then emit [Progress_callback] s1 else s1)"

definition request :: "resource_env \<Rightarrow> real \<Rightarrow> (nat \<Rightarrow> bytes) \<Rightarrow> bytes \<Rightarrow> rrun \<Rightarrow> rrun result" where
  "request E now iv request_data s =
     (if r_status (rr_res s) = R_FAILED \<or> request_data = [] then Inr s
      else
        let s1 = upd (\<lambda>r. r\<lparr>r_rtt := (if r_rtt r = 0 then now - r_adv_sent r else r_rtt r),
                            r_status := R_TRANSFERRING, r_retries_left := r_max_retries r\<rparr>) s;
            more = (hd request_data = HASHMAP_IS_EXHAUSTED);
            pad = (if more then 1 + MAPHASH_LEN else 1)
        in if length request_data < pad + 256 div 8 then Inr s1
           else
             let wanted = chop MAPHASH_LEN (mid_end request_data (pad + 256 div 8));
                 st = r_receiver_min_consecutive_height (rr_res s1);
                 search = [st..<min (st + COLLISION_GUARD_SIZE) (length (r_parts (rr_res s1)))]
             in res_bind (serve_parts E now (iv 0) wanted search s1) (\<lambda>(ok, s2).
                  if \<not> ok then Inr s2
                  else
                    (case (if more then send_hashmap E now (\<lambda>k. iv (k + 1)) (mid request_data 1 MAPHASH_LEN) search s2
                           else (True, s2)) of
                       (False, s3) \<Rightarrow> Inr s3
                     | (True, s3) \<Rightarrow> Inr (finish_request s3))))"

definition validate_resource_proof :: "bytes \<Rightarrow> rrun \<Rightarrow> rrun" where
  "validate_resource_proof proof_data s =
     (if r_status (rr_res s) = R_FAILED \<or> length proof_data \<noteq> 256 div 8 * 2
         \<or> mid_end proof_data (256 div 8) \<noteq> r_expected_proof (rr_res s) then s
      else
        let s1 = emit [Link_concluded] (upd (\<lambda>r. r\<lparr>r_status := R_COMPLETE\<rparr>) s)
        in if r_segment_index (rr_res s1) = r_total_segments (rr_res s1) \<and> r_concluded_callback (rr_res s1)
           then emit [Concluded_callback] s1 else s1)"

section \<open>The receiver\<close>

abbreviation zero_hash :: bytes where "zero_hash \<equiv> [0, 0, 0, 0]"

text \<open>
  The search for parts to request, over the window: the map hashes to request, and whether a part
  without map hash was met.
\<close>

primrec scan_window :: "resource \<Rightarrow> bytes list \<Rightarrow> nat list \<Rightarrow> bytes list \<times> bool" where
  "scan_window r acc [] = (acc, False)"
| "scan_window r acc (i # is) =
     (let missing = (r_parts r ! i = None); known = (map_hash_at r i \<noteq> zero_hash);
          acc' = (if missing \<and> known then acc @ [map_hash_at r i] else acc)
      in if missing \<and> \<not> known then (acc', True)
         else if length acc' \<ge> r_window r then (acc', False)
         else scan_window r acc' is)"

definition request_payload :: "resource \<Rightarrow> bytes list \<Rightarrow> bool \<Rightarrow> bytes" where
  "request_payload r hashes exhausted =
     (if exhausted then
        HASHMAP_IS_EXHAUSTED #
          (if r_hashmap_height r > 0 then map_hash_at r (r_hashmap_height r - 1) else zero_hash)
      else [HASHMAP_IS_NOT_EXHAUSTED]) @ r_hash r @ concat hashes"

definition request_next :: "resource_env \<Rightarrow> real \<Rightarrow> (nat \<Rightarrow> bytes) \<Rightarrow> rrun \<Rightarrow> rrun" where
  "request_next E now iv s =
     (if r_status (rr_res s) = R_FAILED \<or> r_waiting_for_hmu (rr_res s) then s
      else
        let r = rr_res s;
            st = nat (r_consecutive_completed_height r + 1);
            (hashes, exhausted) = scan_window r [] [st..<min (st + r_window r) (length (r_parts r))];
            s1 = upd (\<lambda>r. r\<lparr>r_outstanding_parts := length hashes, r_waiting_for_hmu := exhausted\<rparr>) s
        in (case res_send E now (iv 0) DATA RESOURCE_REQ (request_payload r hashes exhausted) s1 of
              (Inl e, s2) \<Rightarrow> cancel E now (iv 1) s2
            | (Inr p, s2) \<Rightarrow>
                upd (\<lambda>r. r\<lparr>r_last_activity := now, r_req_sent := now, r_req_sent_bytes := length (p_raw p),
                            r_rtt_rxd_bytes_at_part_req := r_rtt_rxd_bytes r, r_req_resp := 0\<rparr>) s2))"

subsection \<open>The hashmap\<close>

definition set_map_hash :: "nat \<Rightarrow> bytes \<Rightarrow> resource \<Rightarrow> resource" where
  "set_map_hash slot h r =
     (let r1 = (if map_hash_at r slot = zero_hash then r\<lparr>r_hashmap_height := r_hashmap_height r + 1\<rparr> else r)
      in r1\<lparr>r_hashmap := left (r_hashmap r) (slot * MAPHASH_LEN) @ h @ mid_end (r_hashmap r) ((slot + 1) * MAPHASH_LEN)\<rparr>)"

definition apply_hashmap :: "nat \<Rightarrow> bytes \<Rightarrow> resource \<Rightarrow> resource" where
  "apply_hashmap segment m r =
     (let base = segment * HASHMAP_MAX_LEN
      in fold (\<lambda>i. set_map_hash (base + i) (mid m (i * MAPHASH_LEN) MAPHASH_LEN))
           [0..<min (length m div MAPHASH_LEN) (r_total_parts r - base)] r)"

definition hashmap_update :: "resource_env \<Rightarrow> real \<Rightarrow> (nat \<Rightarrow> bytes) \<Rightarrow> nat \<Rightarrow> bytes \<Rightarrow> rrun \<Rightarrow> rrun" where
  "hashmap_update E now iv segment m s =
     (if r_status (rr_res s) = R_FAILED then s
      else
        request_next E now iv
          (upd (\<lambda>r. (apply_hashmap segment m (r\<lparr>r_status := R_TRANSFERRING\<rparr>))\<lparr>r_waiting_for_hmu := False\<rparr>) s))"

definition hashmap_update_packet :: "resource_env \<Rightarrow> real \<Rightarrow> (nat \<Rightarrow> bytes) \<Rightarrow> bytes \<Rightarrow> rrun \<Rightarrow> rrun" where
  "hashmap_update_packet E now iv plaintext s =
     (if r_status (rr_res s) = R_FAILED then s
      else
        let s1 = upd (\<lambda>r. r\<lparr>r_last_activity := now, r_retries_left := r_max_retries r\<rparr>) s
        in if length plaintext \<le> 256 div 8 then s1
           else
             (case mp_feed (re_msgpack E) (mid_end plaintext (256 div 8)) of
                MP_array n # u \<Rightarrow>
                  if n < 2 then s1
                  else
                    let (segment, u1) = mp_uint (re_msgpack E) 32 u; (m, _) = mp_bin (re_msgpack E) u1
                    in hashmap_update E now iv (segment mod 2 ^ 16) m s1
              | _ \<Rightarrow> s1))"

subsection \<open>Assembly\<close>

definition prove_resource :: "resource_env \<Rightarrow> real \<Rightarrow> (nat \<Rightarrow> bytes) \<Rightarrow> rrun \<Rightarrow> rrun" where
  "prove_resource E now iv s =
     (if r_status (rr_res s) = R_FAILED then s
      else
        let r = rr_res s; proof_data = r_hash r @ full_hash (re_lib E) (r_data r @ r_hash r)
        in (case res_send E now (iv 0) PROOF RESOURCE_PRF proof_data s of
              (Inl e, s1) \<Rightarrow> cancel E now (iv 1) s1
            | (Inr p, s1) \<Rightarrow> emit [Cache p] s1))"

definition received_stream :: "resource \<Rightarrow> bytes" where
  "received_stream r = concat (map (\<lambda>p. case p of None \<Rightarrow> [] | Some q \<Rightarrow> p_data q) (r_parts r))"

definition conclude :: "rrun \<Rightarrow> rrun" where
  "conclude s =
     (let s1 = emit [Link_concluded] s
      in if r_segment_index (rr_res s1) = r_total_segments (rr_res s1) \<and> r_concluded_callback (rr_res s1)
         then emit [Concluded_callback] s1 else s1)"

text \<open>\<open>link.decrypt\<close> catches its exceptions and returns no octets then.\<close>

definition assemble :: "resource_env \<Rightarrow> real \<Rightarrow> (nat \<Rightarrow> bytes) \<Rightarrow> rrun \<Rightarrow> rrun result" where
  "assemble E now iv s =
     (if r_status (rr_res s) = R_FAILED then Inr s
      else
        let s1 = upd (\<lambda>r. r\<lparr>r_status := R_ASSEMBLING\<rparr>) s; stream = received_stream (rr_res s1)
        in res_bind
             (if r_encrypted (rr_res s1) then link_decrypt (re_lib E) (rr_link s1) stream else Inr (stream, rr_link s1))
             (\<lambda>(plaintext, l).
                let s2 = s1\<lparr>rr_link := l\<rparr>
                in if r_compressed (rr_res s2) then Inr (cancel E now (iv 0) (upd (\<lambda>r. r\<lparr>r_status := R_CORRUPT\<rparr>) s2))
                   else
                     let dat = mid_end plaintext RANDOM_HASH_SIZE
                     in Inr (conclude
                          (if full_hash (re_lib E) (dat @ r_random_hash (rr_res s2)) \<noteq> r_hash (rr_res s2)
                           then upd (\<lambda>r. r\<lparr>r_status := R_CORRUPT\<rparr>) s2
                           else prove_resource E now iv (upd (\<lambda>r. r\<lparr>r_data := dat, r_status := R_COMPLETE\<rparr>) s2)))))"

subsection \<open>Parts\<close>

definition update_eifr :: "link \<Rightarrow> resource \<Rightarrow> resource" where
  "update_eifr l r =
     (let rtt = (if r_rtt r = 0 then l_rtt l else r_rtt r)
      in if rtt \<le> 0 then r
         else r\<lparr>r_eifr := (if r_req_data_rtt_rate r \<noteq> 0 then r_req_data_rtt_rate r * 8
                          else if r_previous_eifr r \<noteq> 0 then r_previous_eifr r
                          else real (l_establishment_cost l) * 8 / rtt)\<rparr>)"

text \<open>A fast round; after enough of them the window may grow to the fast limit.\<close>

definition fast_round :: "real \<Rightarrow> resource \<Rightarrow> resource" where
  "fast_round rate r =
     (if rate > RATE_FAST \<and> r_fast_rate_rounds r < FAST_RATE_THRESHOLD then
        let n = r_fast_rate_rounds r + 1
        in r\<lparr>r_fast_rate_rounds := n, r_window_max := (if n = FAST_RATE_THRESHOLD then WINDOW_MAX_FAST else r_window_max r)\<rparr>
      else r)"

definition very_slow_round :: "resource \<Rightarrow> resource" where
  "very_slow_round r =
     (if r_fast_rate_rounds r = 0 \<and> r_req_data_rtt_rate r < RATE_VERY_SLOW
         \<and> r_very_slow_rate_rounds r < VERY_SLOW_RATE_THRESHOLD then
        let n = r_very_slow_rate_rounds r + 1
        in r\<lparr>r_very_slow_rate_rounds := n,
             r_window_max := (if n = VERY_SLOW_RATE_THRESHOLD then WINDOW_MAX_VERY_SLOW else r_window_max r)\<rparr>
      else r)"

text \<open>The first part after a request: the round-trip time and the rate it shows.\<close>

definition first_response :: "real \<Rightarrow> link \<Rightarrow> nat \<Rightarrow> resource \<Rightarrow> resource" where
  "first_response now l rawlen r =
     (let rtt = now - r_req_sent r;
          r1 = r\<lparr>r_req_resp := now, r_part_timeout_factor := PART_TIMEOUT_FACTOR_AFTER_RTT,
                 r_rtt := (if r_rtt r = 0 then l_rtt l
                           else if rtt < r_rtt r then max (r_rtt r - r_rtt r * (5 / 100)) rtt
                           else if rtt > r_rtt r then min (r_rtt r + r_rtt r * (5 / 100)) rtt
                           else r_rtt r)\<rparr>
      in if rtt > 0 then
           let rate = real (rawlen + r_req_sent_bytes r1) / rtt
           in fast_round rate (r1\<lparr>r_req_resp_rtt_rate := rate\<rparr>)
         else r1)"

text \<open>The first empty slot from \<open>i\<close> on.\<close>

primrec completed_from :: "packet option list \<Rightarrow> nat \<Rightarrow> nat" where
  "completed_from [] i = i"
| "completed_from (p # ps) i = (if p = None then i else completed_from ps (i + 1))"

definition file_part :: "bytes \<Rightarrow> nat \<Rightarrow> resource \<Rightarrow> resource" where
  "file_part dat i r =
     (let parts = (r_parts r)[i := Some ((packet_from_raw dat)\<lparr>p_data := dat\<rparr>)];
          c = (if int i = r_consecutive_completed_height r + 1 then int i else r_consecutive_completed_height r);
          st = nat (c + 1)
      in r\<lparr>r_parts := parts, r_rtt_rxd_bytes := r_rtt_rxd_bytes r + length dat,
           r_received_count := r_received_count r + 1, r_outstanding_parts := r_outstanding_parts r - 1,
           r_consecutive_completed_height := int (completed_from (drop st parts) st) - 1\<rparr>)"

text \<open>One slot of the window: the part is filed when its map hash matches and the slot is empty.\<close>

definition match_slot :: "bytes \<Rightarrow> bytes \<Rightarrow> nat \<Rightarrow> rrun \<Rightarrow> rrun" where
  "match_slot dat part_hash i s =
     (if map_hash_at (rr_res s) i = part_hash \<and> r_parts (rr_res s) ! i = None then
        let s1 = upd (file_part dat i) s
        in if r_progress_callback (rr_res s1) then emit [Progress_callback] s1 else s1
      else s)"

definition grow_window :: "resource \<Rightarrow> resource" where
  "grow_window r =
     (if r_window r < r_window_max r then
        let w = r_window r + 1
        in r\<lparr>r_window := w,
             r_window_min := (if int w - int (r_window_min r) > int (r_window_flexibility r) - 1
                              then r_window_min r + 1 else r_window_min r)\<rparr>
      else r)"

text \<open>The rate of a completed window.\<close>

definition window_rate :: "real \<Rightarrow> link \<Rightarrow> resource \<Rightarrow> resource" where
  "window_rate now l r =
     (let rtt = now - r_req_sent r
      in if r_req_sent r \<noteq> 0 \<and> rtt \<noteq> 0 then
           let r1 = update_eifr l
                      (r\<lparr>r_req_data_rtt_rate := real (r_rtt_rxd_bytes r - r_rtt_rxd_bytes_at_part_req r) / rtt\<rparr>)
           in very_slow_round
                (fast_round (r_req_data_rtt_rate r1) (r1\<lparr>r_rtt_rxd_bytes_at_part_req := r_rtt_rxd_bytes r\<rparr>))
         else r)"

definition receive_part :: "resource_env \<Rightarrow> real \<Rightarrow> (nat \<Rightarrow> bytes) \<Rightarrow> packet \<Rightarrow> rrun \<Rightarrow> rrun result" where
  "receive_part E now iv p s =
     (if r_receive_lock (rr_res s) then Inr s
      else
        let s1 = upd (\<lambda>r. let r1 = r\<lparr>r_last_activity := now, r_retries_left := r_max_retries r\<rparr>
                           in if r_req_resp r1 = 0 then first_response now (rr_link s) (length (p_raw p)) r1 else r1) s
        in if r_status (rr_res s1) = R_FAILED then Inr s1
           else
             let s2 = upd (\<lambda>r. r\<lparr>r_status := R_TRANSFERRING, r_receive_lock := True\<rparr>) s1;
                 dat = p_data p; h = map_hash (re_lib E) (rr_res s2) dat;
                 cci = nat (r_consecutive_completed_height (rr_res s2));
                 s3 = fold (match_slot dat h)
                        [cci..<min (cci + r_window (rr_res s2)) (r_total_parts (rr_res s2))] s2
             in res_bind
                  (if r_received_count (rr_res s3) = r_total_parts (rr_res s3) \<and> \<not> r_assembly_lock (rr_res s3) then
                     assemble E now iv (upd (\<lambda>r. r\<lparr>r_assembly_lock := True\<rparr>) s3)
                   else if r_outstanding_parts (rr_res s3) = 0 then
                     Inr (request_next E now iv (upd (\<lambda>r. window_rate now (rr_link s3) (grow_window r)) s3))
                   else Inr s3)
                  (\<lambda>s4. Inr (upd (\<lambda>r. r\<lparr>r_receive_lock := False\<rparr>) s4)))"

subsection \<open>Accepting\<close>

text \<open>
  \<open>accept\<close> with the hashes of the incoming resources of the link.  The result is the resource or \<open>None\<close>;
  \<open>cbc\<close> and \<open>cbp\<close> tell which callbacks are given, \<open>cbs\<close> whether the link has a callback for started
  transfers.
\<close>

definition accepted_resource :: "link \<Rightarrow> real \<Rightarrow> bytes \<Rightarrow> advertisement \<Rightarrow> bool \<Rightarrow> bool \<Rightarrow> bytes \<Rightarrow> resource" where
  "accepted_resource l now plaintext a cbc cbp request_id =
     (let r = new_resource [] l; n = part_count (adv_t a) (r_sdu r)
      in r\<lparr>r_status := R_TRANSFERRING, r_flags := adv_f a, r_size := adv_t a, r_total_size := adv_d a,
           r_uncompressed_size := adv_d a, r_hash := adv_h a, r_original_hash := adv_o a, r_random_hash := adv_r a,
           r_hashmap_raw := adv_m a, r_encrypted := adv_e a, r_compressed := adv_c a, r_initiator := False,
           r_concluded_callback := cbc, r_progress_callback := cbp, r_total_parts := n, r_last_activity := now,
           r_started_transferring := now, r_advertisement := plaintext, r_segment_index := adv_i a,
           r_total_segments := adv_l a, r_split := adv_l a > 1, r_has_metadata := adv_x a, r_request_id := request_id,
           r_is_response := adv_p a, r_parts := replicate n None, r_hashmap := replicate (n * MAPHASH_LEN) 0\<rparr>)"

definition accept ::
  "resource_env \<Rightarrow> real \<Rightarrow> (nat \<Rightarrow> bytes) \<Rightarrow> bytes list \<Rightarrow> bool \<Rightarrow> bool \<Rightarrow> bool \<Rightarrow> bytes \<Rightarrow> bytes \<Rightarrow> link \<Rightarrow> rrun option result" where
  "accept E now iv incoming cbc cbp cbs request_id plaintext l =
     (let a = adv_unpack (re_msgpack E) plaintext
      in if adv_h a = [] then Inr None
         else if sdu_of l = 0 then Inl Undefined_behaviour
         else
           let r = accepted_resource l now plaintext a cbc cbp request_id
           in if adv_h a \<in> set incoming then Inr None
              else Inr (Some (hashmap_update E now iv 0 (r_hashmap_raw r)
                     \<lparr>rr_res = r, rr_link = l, rr_events = Register_incoming # (if cbs then [Started_callback] else [])\<rparr>)))"

section \<open>The watchdog\<close>

definition shrink_window :: "resource \<Rightarrow> resource" where
  "shrink_window r =
     (if r_window r > r_window_min r then
        let w = r_window r - 1
        in if r_window_max r > r_window_min r then
             let m = r_window_max r - 1
             in r\<lparr>r_window := w,
                  r_window_max := (if int m - int w > int (r_window_flexibility r) - 1 then m - 1 else m)\<rparr>
           else r\<lparr>r_window := w\<rparr>
      else r)"

text \<open>The time at which the receiver gives a window up.\<close>

definition part_deadline :: "resource \<Rightarrow> real" where
  "part_deadline r =
     (let extra_wait = real (r_max_retries r - r_retries_left r) * PER_RETRY_DELAY;
          eifr = (if r_eifr r > 0 then r_eifr r else 1);
          hmu_wait = (if r_waiting_for_hmu r \<or> r_outstanding_parts r = 0
                      then real (r_sdu r) * 8 * HMU_WAIT_FACTOR / eifr else 0);
          tof = real (r_outstanding_parts r) * real (r_sdu r) * 8 / eifr
      in if r_req_resp_rtt_rate r \<noteq> 0
         then r_last_activity r + r_part_timeout_factor r * tof + hmu_wait + RETRY_GRACE_TIME + extra_wait
         else r_last_activity r + r_part_timeout_factor r * (3 * real (r_sdu r) / eifr) + RETRY_GRACE_TIME + extra_wait)"

definition max_extra_wait :: real where
  "max_extra_wait = (\<Sum>i\<leftarrow>[0..<MAX_RETRIES]. real (i + 1) * PER_RETRY_DELAY)"

definition retry_advertisement :: "resource_env \<Rightarrow> real \<Rightarrow> (nat \<Rightarrow> bytes) \<Rightarrow> rrun \<Rightarrow> rrun" where
  "retry_advertisement E now iv s =
     (if r_retries_left (rr_res s) = 0 then cancel E now (iv 0) s
      else
        (case send_advertisement E now (iv 0) (upd (\<lambda>r. r\<lparr>r_retries_left := r_retries_left r - 1\<rparr>) s) of
           (Inl e, s1) \<Rightarrow> cancel E now (iv 1) s1
         | (Inr _, s1) \<Rightarrow> upd (\<lambda>r. r\<lparr>r_last_activity := now, r_adv_sent := now\<rparr>) s1))"

definition await_proof :: "resource_env \<Rightarrow> real \<Rightarrow> (nat \<Rightarrow> bytes) \<Rightarrow> rrun \<Rightarrow> rrun" where
  "await_proof E now iv s =
     (let s1 = upd (\<lambda>r. r\<lparr>r_timeout_factor := PROOF_TIMEOUT_FACTOR\<rparr>) s; r = rr_res s1
      in if r_last_part_sent r + (r_rtt r * r_timeout_factor r + r_sender_grace_time r) - now < 0 then
           (if r_retries_left r = 0 then cancel E now (iv 0) s1
            else upd (\<lambda>r. r\<lparr>r_retries_left := r_retries_left r - 1, r_last_part_sent := now\<rparr>) s1)
         else s1)"

definition retry_parts :: "resource_env \<Rightarrow> real \<Rightarrow> (nat \<Rightarrow> bytes) \<Rightarrow> rrun \<Rightarrow> rrun" where
  "retry_parts E now iv s =
     (let s1 = upd (update_eifr (rr_link s)) s
      in if part_deadline (rr_res s1) - now < 0 then
           (if r_retries_left (rr_res s1) > 0 then
              request_next E now iv
                (upd (\<lambda>r. (shrink_window r)\<lparr>r_retries_left := r_retries_left r - 1, r_waiting_for_hmu := False\<rparr>) s1)
            else cancel E now (iv 0) s1)
         else s1)"

text \<open>\<open>__watchdog_job\<close>; \<open>_watchdog_lock\<close> is never set.\<close>

definition watchdog :: "resource_env \<Rightarrow> real \<Rightarrow> (nat \<Rightarrow> bytes) \<Rightarrow> rrun \<Rightarrow> rrun" where
  "watchdog E now iv s =
     (let r = rr_res s
      in if r_status r \<ge> R_ASSEMBLING then s
         else if r_status r = R_ADVERTISED then
           (if r_adv_sent r + r_timeout r + PROCESSING_GRACE - now < 0 then retry_advertisement E now iv s else s)
         else if r_status r = R_TRANSFERRING \<and> r_initiator r then
           (if r_last_activity r + (r_rtt r * r_timeout_factor r * real (r_max_retries r) + r_sender_grace_time r
                 + max_extra_wait) - now < 0 then cancel E now (iv 0) s else s)
         else if r_status r = R_AWAITING_PROOF then await_proof E now iv s
         else if r_status r = R_TRANSFERRING then retry_parts E now iv s
         else s)"

end
