(* ===== verification/Resource_Receiver.thy ===== *)
theory Resource_Receiver
  imports Resource_Ops
begin

text \<open>
  The receiver of a resource as a state machine: every part, hashmap update, watchdog tick and
  cancellation, in any order and with any content, keeps the invariant \<open>receiver_ok\<close> of its tables,
  counters and window.
\<close>

section \<open>The invariant\<close>

definition filled :: "packet option list \<Rightarrow> nat" where
  "filled ps = length (filter (\<lambda>p. p \<noteq> None) ps)"

definition window_ok :: "resource \<Rightarrow> bool" where
  "window_ok r \<longleftrightarrow> WINDOW_MIN \<le> r_window_min r \<and> r_window_min r \<le> r_window r \<and> r_window r \<le> WINDOW_MAX
     \<and> r_window_max r \<le> WINDOW_MAX \<and> r_window_flexibility r = WINDOW_FLEXIBILITY"

text \<open>
  One slot per part and one entry per map hash; the counter counts the filled slots and the height is
  the end of the filled prefix; a complete resource holds data with the advertised hash.
\<close>

definition tables_ok :: "resource \<Rightarrow> bool" where
  "tables_ok r \<longleftrightarrow> length (r_parts r) = r_total_parts r \<and> length (r_hashmap r) = r_total_parts r * MAPHASH_LEN
     \<and> r_received_count r = filled (r_parts r)
     \<and> r_consecutive_completed_height r = int (completed_from (r_parts r) 0) - 1"

definition complete_ok :: "crypto_lib \<Rightarrow> resource \<Rightarrow> bool" where
  "complete_ok lib r \<longleftrightarrow> (r_status r = R_COMPLETE \<longrightarrow> full_hash lib (r_data r @ r_random_hash r) = r_hash r)"

definition receiver_body :: "crypto_lib \<Rightarrow> resource \<Rightarrow> bool" where
  "receiver_body lib r \<longleftrightarrow> \<not> r_initiator r \<and> window_ok r \<and> tables_ok r \<and> complete_ok lib r"

definition receiver_ok :: "crypto_lib \<Rightarrow> resource \<Rightarrow> bool" where
  "receiver_ok lib r \<longleftrightarrow> receiver_body lib r \<and> \<not> r_receive_lock r"

section \<open>The machine\<close>

datatype receiver_command =
    Part packet
  | Hashmap_packet bytes
  | Watchdog
  | Cancel

fun receiver_exec :: "resource_env \<Rightarrow> real \<Rightarrow> (nat \<Rightarrow> bytes) \<Rightarrow> receiver_command \<Rightarrow> rrun \<Rightarrow> rrun result" where
  "receiver_exec E now iv (Part p) s = receive_part E now iv p s"
| "receiver_exec E now iv (Hashmap_packet pt) s = Inr (hashmap_update_packet E now iv pt s)"
| "receiver_exec E now iv Watchdog s = Inr (watchdog E now iv s)"
| "receiver_exec E now iv Cancel s = Inr (cancel E now (iv 0) s)"

inductive receiver_run :: "resource_env \<Rightarrow> rrun \<Rightarrow> rrun \<Rightarrow> bool" for E where
  receiver_start: "receiver_run E s s"
| receiver_next: "receiver_run E s s1 \<Longrightarrow> receiver_exec E now iv c s1 = Inr s2 \<Longrightarrow> receiver_run E s s2"

section \<open>Frames\<close>

lemma emit_fields [simp]:
  "rr_res (emit evs s) = rr_res s" "rr_link (emit evs s) = rr_link s" "rr_events (emit evs s) = rr_events s @ evs"
  by (simp_all add: emit_def)

lemma res_send_res [simp]: "rr_res (snd (res_send E now iv ty ctx dat s)) = rr_res s"
  by (simp add: res_send_def Let_def split: sum.split)

lemma res_send_resD: "res_send E now iv ty ctx dat s = (x, s') \<Longrightarrow> rr_res s' = rr_res s"
  using res_send_res [of E now iv ty ctx dat s] by simp

lemma conclude_res [simp]: "rr_res (conclude_failed s) = rr_res s" "rr_res (conclude s) = rr_res s"
  by (simp_all add: conclude_failed_def conclude_def Let_def)

lemma cancel_res:
  "rr_res (cancel E now iv s) = (rr_res s)\<lparr>r_status := r_status (rr_res (cancel E now iv s))\<rparr>"
  "r_status (rr_res (cancel E now iv s)) = r_status (rr_res s) \<or> r_status (rr_res (cancel E now iv s)) = R_FAILED"
  by (simp_all add: cancel_def reject_def Let_def)

text \<open>What the invariant speaks of.\<close>

definition core :: "resource \<Rightarrow> _" where
  "core r = ((r_parts r, r_hashmap r, r_total_parts r, r_received_count r, r_consecutive_completed_height r),
     (r_window r, r_window_min r, r_window_max r, r_window_flexibility r),
     (r_hash r, r_random_hash r, r_data r, r_receive_lock r, r_initiator r))"

definition only_status :: "resource \<Rightarrow> resource \<Rightarrow> bool" where
  "only_status r r' \<longleftrightarrow> core r' = core r \<and> (r_status r' = r_status r \<or> r_status r' = R_FAILED)"

lemma only_status_ok:
  assumes "only_status r r'"
  shows "receiver_body lib r \<Longrightarrow> receiver_body lib r'" and "receiver_ok lib r \<Longrightarrow> receiver_ok lib r'"
  using assms
  by (auto simp: only_status_def core_def receiver_ok_def receiver_body_def window_ok_def tables_ok_def complete_ok_def)

lemma only_status_refl [simp]: "only_status r r"
  by (simp add: only_status_def)

lemma only_status_trans: "only_status a b \<Longrightarrow> only_status b c \<Longrightarrow> only_status a c"
  by (auto simp: only_status_def)

lemma only_status_cancel: "only_status (rr_res s) (rr_res (cancel E now iv s))"
  using cancel_res(2) [of E now iv s] by (subst cancel_res(1)) (simp add: only_status_def core_def)

lemma only_status_request_next: "only_status (rr_res s) (rr_res (request_next E now iv s))"
proof (cases "r_status (rr_res s) = R_FAILED \<or> r_waiting_for_hmu (rr_res s)")
  case False
  define r where "r = rr_res s"
  define st where "st = nat (r_consecutive_completed_height r + 1)"
  obtain hs ex where h: "scan_window r [] [st..<min (st + r_window r) (length (r_parts r))] = (hs, ex)" by fastforce
  define s1 where "s1 = upd (\<lambda>r. r\<lparr>r_outstanding_parts := length hs, r_waiting_for_hmu := ex\<rparr>) s"
  obtain x s2 where x: "res_send E now (iv 0) DATA RESOURCE_REQ (request_payload r hs ex) s1 = (x, s2)" by fastforce
  have s2: "only_status (rr_res s) (rr_res s2)"
    unfolding res_send_resD [OF x] by (simp add: s1_def only_status_def core_def)
  have eq: "request_next E now iv s = (case x of Inl e \<Rightarrow> cancel E now (iv 1) s2
            | Inr p \<Rightarrow> upd (\<lambda>r. r\<lparr>r_last_activity := now, r_req_sent := now, r_req_sent_bytes := length (p_raw p),
                            r_rtt_rxd_bytes_at_part_req := r_rtt_rxd_bytes r, r_req_resp := 0\<rparr>) s2)"
    using False h x unfolding request_next_def Let_def r_def [symmetric] st_def [symmetric] by (simp add: s1_def r_def)
  show ?thesis
  proof (cases x)
    case (Inl e)
    then show ?thesis unfolding eq using only_status_trans [OF s2 only_status_cancel] by simp
  next
    case (Inr p)
    then show ?thesis unfolding eq using s2 by (simp add: only_status_def core_def)
  qed
qed (auto simp: request_next_def)

section \<open>Completed parts\<close>

lemma completed_Suc [simp]: "completed_from ps (Suc i) = Suc (completed_from ps i)"
  by (induction ps arbitrary: i) simp_all

lemma completed_from_add: "completed_from ps i = completed_from ps 0 + i"
  by (induction i) simp_all

lemma completed_from_le: "completed_from ps 0 \<le> length ps"
  by (induction ps) simp_all

lemma completed_full: "(\<forall>p \<in> set ps. p \<noteq> None) \<Longrightarrow> completed_from (ps @ qs) i = completed_from qs (i + length ps)"
  by (induction ps arbitrary: i) auto

lemma completed_prefix: "j < completed_from ps 0 \<Longrightarrow> ps ! j \<noteq> None"
  by (induction ps arbitrary: j) (auto simp: nth_Cons split: if_splits nat.splits)

lemma completed_split:
  assumes "k \<le> completed_from ps 0"
  shows "completed_from (drop k ps) k = completed_from ps 0"
proof -
  have k: "k \<le> length ps" using assms completed_from_le [of ps] by linarith
  have "\<forall>p \<in> set (take k ps). p \<noteq> None"
  proof
    fix p assume "p \<in> set (take k ps)"
    then obtain j where "j < k" "p = ps ! j" by (auto simp: in_set_conv_nth)
    with assms completed_prefix [of j ps] show "p \<noteq> None" by simp
  qed
  from completed_full [OF this, of "drop k ps" 0] k show ?thesis by simp
qed

lemma completed_update: "q \<noteq> None \<Longrightarrow> completed_from ps 0 \<le> completed_from (ps[i := q]) 0"
  by (induction ps arbitrary: i) (auto split: nat.splits)

lemma filled_update: "i < length ps \<Longrightarrow> ps ! i = None \<Longrightarrow> filled (ps[i := Some q]) = filled ps + 1"
  unfolding filled_def
  by (induction ps arbitrary: i) (auto simp: nth_Cons split: nat.splits)

lemma filled_replicate [simp]: "filled (replicate n None) = 0"
  by (simp add: filled_def)

lemma completed_replicate [simp]: "completed_from (replicate n None) 0 = 0"
  by (cases n) simp_all

lemma filled_le: "filled ps \<le> length ps"
  by (simp add: filled_def)

lemma filled_all: "filled ps = length ps \<longleftrightarrow> (\<forall>p \<in> set ps. p \<noteq> None)"
  unfolding filled_def by (metis (mono_tags, lifting) filter_True length_filter_less nat_less_le)

section \<open>The operations\<close>

lemma file_part_tables:
  assumes "tables_ok r" and "i < r_total_parts r" and "r_parts r ! i = None"
  shows "tables_ok (file_part dat i r)"
proof -
  let ?q = "Some ((packet_from_raw dat)\<lparr>p_data := dat\<rparr>)"
  let ?ps = "(r_parts r)[i := ?q]"
  let ?n = "completed_from (r_parts r) 0"
  let ?c = "if int i = r_consecutive_completed_height r + 1 then int i else r_consecutive_completed_height r"
  have c: "r_consecutive_completed_height r + 1 = int ?n" and len: "length (r_parts r) = r_total_parts r"
    using assms(1) by (simp_all add: tables_ok_def)
  have le: "?n \<le> completed_from ?ps 0" by (rule completed_update) simp
  have "nat (?c + 1) \<le> completed_from ?ps 0"
  proof (cases "i = ?n")
    case True
    have "?ps ! i \<noteq> None" using assms(2) len by simp
    moreover have "completed_from ?ps 0 \<noteq> i"
    proof
      assume e: "completed_from ?ps 0 = i"
      have "completed_from (drop i ?ps) i = i" using completed_split [of i ?ps] e by simp
      moreover have "drop i ?ps = ?q # drop (Suc i) ?ps" using assms(2) len by (simp add: Cons_nth_drop_Suc [symmetric])
      ultimately have "completed_from (drop (Suc i) ?ps) (Suc i) = i" by simp
      then show False using completed_from_add [of "drop (Suc i) ?ps" "Suc i"] by simp
    qed
    ultimately show ?thesis using True c le by simp
  next
    case False
    then have "?c = int ?n - 1" using c by auto
    then show ?thesis using le by simp
  qed
  from completed_split [OF this] have "completed_from (drop (nat (?c + 1)) ?ps) (nat (?c + 1)) = completed_from ?ps 0" .
  then show ?thesis
    using assms len filled_update [of i "r_parts r"] by (simp add: file_part_def tables_ok_def Let_def)
qed

lemma file_part_fields [simp]:
  "window_ok (file_part dat i r) = window_ok r" "r_status (file_part dat i r) = r_status r"
  "r_receive_lock (file_part dat i r) = r_receive_lock r" "r_initiator (file_part dat i r) = r_initiator r"
  "r_total_parts (file_part dat i r) = r_total_parts r" "r_hash (file_part dat i r) = r_hash r"
  "r_random_hash (file_part dat i r) = r_random_hash r" "r_data (file_part dat i r) = r_data r"
  "r_hashmap (file_part dat i r) = r_hashmap r" "r_window (file_part dat i r) = r_window r"
  "r_progress_callback (file_part dat i r) = r_progress_callback r"
  by (simp_all add: file_part_def window_ok_def Let_def)

definition keeps :: "resource \<Rightarrow> resource \<Rightarrow> bool" where
  "keeps r r' \<longleftrightarrow> tables_ok r' \<and> (window_ok r \<longrightarrow> window_ok r') \<and> r_status r' = r_status r
     \<and> r_receive_lock r' = r_receive_lock r \<and> r_initiator r' = r_initiator r \<and> r_total_parts r' = r_total_parts r
     \<and> r_hash r' = r_hash r \<and> r_random_hash r' = r_random_hash r \<and> r_data r' = r_data r"

lemma match_slot_filing:
  "tables_ok (rr_res s) \<Longrightarrow> i < r_total_parts (rr_res s) \<Longrightarrow> keeps (rr_res s) (rr_res (match_slot dat h i s))"
  using file_part_tables [of "rr_res s" i dat] by (simp add: match_slot_def Let_def keeps_def)

lemma match_slots_filing:
  assumes "tables_ok (rr_res s)" and "\<forall>i \<in> set is. i < r_total_parts (rr_res s)"
  shows "keeps (rr_res s) (rr_res (fold (match_slot dat h) is s))"
  using assms
proof (induction "is" arbitrary: s)
  case (Cons i "is")
  have "keeps (rr_res s) (rr_res (match_slot dat h i s))" using Cons.prems by (simp add: match_slot_filing)
  with Cons.IH [of "match_slot dat h i s"] Cons.prems show ?case by (auto simp: keeps_def)
qed (simp add: keeps_def)

lemma set_map_hash_tables:
  assumes "tables_ok r" and "slot < r_total_parts r" and "length h = MAPHASH_LEN"
  shows "tables_ok (set_map_hash slot h r)"
proof -
  have "slot * 4 + 4 + (r_total_parts r * 4 - (4 + slot * 4)) = r_total_parts r * 4" using assms(2) by simp
  then show ?thesis using assms by (auto simp: set_map_hash_def tables_ok_def Let_def left_def mid_end_def)
qed

lemma apply_hashmap_filing:
  assumes "tables_ok r"
  shows "keeps r (apply_hashmap segment m r)"
proof -
  let ?f = "\<lambda>i. set_map_hash (segment * HASHMAP_MAX_LEN + i) (mid m (i * MAPHASH_LEN) MAPHASH_LEN)"
  have *: "keeps q (fold ?f is q)"
    if "tables_ok q" "\<forall>i \<in> set is. segment * HASHMAP_MAX_LEN + i < r_total_parts q \<and> i < length m div MAPHASH_LEN" for "is" q
    using that
  proof (induction "is" arbitrary: q)
    case (Cons i "is")
    have l: "length (mid m (i * MAPHASH_LEN) MAPHASH_LEN) = MAPHASH_LEN"
      using Cons.prems by (auto simp: mid_def Let_def)
    have "keeps q (?f i q)"
      using set_map_hash_tables [OF Cons.prems(1) _ l, of "segment * HASHMAP_MAX_LEN + i"] Cons.prems
      by (simp add: keeps_def) (simp add: set_map_hash_def window_ok_def Let_def)
    with Cons.IH [of "?f i q"] Cons.prems show ?case by (auto simp: keeps_def)
  qed (simp add: keeps_def)
  show ?thesis unfolding apply_hashmap_def Let_def by (rule *) (use assms in auto)
qed

lemma window_ok_steps:
  assumes "window_ok r"
  shows "window_ok (grow_window r)" and "window_ok (shrink_window r)" and "window_ok (fast_round x r)"
    and "window_ok (very_slow_round r)"
  using assms by (auto simp: window_ok_def grow_window_def shrink_window_def fast_round_def very_slow_round_def Let_def)

lemma keeps_trans: "keeps a b \<Longrightarrow> keeps b c \<Longrightarrow> keeps a c"
  by (auto simp: keeps_def)

lemma keeps_body: "keeps r r' \<Longrightarrow> receiver_body lib r \<Longrightarrow> receiver_body lib r'"
  by (auto simp: keeps_def receiver_body_def complete_ok_def)

lemma keeps_ok: "keeps r r' \<Longrightarrow> receiver_ok lib r \<Longrightarrow> receiver_ok lib r'"
  using keeps_body [of r r' lib] by (simp add: receiver_ok_def keeps_def)

lemma same_ok: "core r' = core r \<Longrightarrow> r_status r' = r_status r \<Longrightarrow> receiver_ok lib r \<Longrightarrow> receiver_ok lib r'"
  by (rule only_status_ok(2)) (simp_all add: only_status_def)

lemma keeps_round: "tables_ok r \<Longrightarrow> keeps r (fast_round x r)" "tables_ok r \<Longrightarrow> keeps r (very_slow_round r)"
  "tables_ok r \<Longrightarrow> keeps r (grow_window r)" "tables_ok r \<Longrightarrow> keeps r (shrink_window r)"
  by (auto simp: keeps_def intro: window_ok_steps)
    (auto simp: tables_ok_def fast_round_def very_slow_round_def grow_window_def shrink_window_def Let_def split: if_splits)

text \<open>Fields the invariant does not speak of.\<close>

lemma core_keeps: "core r' = core r \<Longrightarrow> r_status r' = r_status r \<Longrightarrow> tables_ok r \<Longrightarrow> keeps r r'"
  by (auto simp: core_def keeps_def tables_ok_def window_ok_def)

lemma keeps_first_response:
  assumes "tables_ok r"
  shows "keeps r (first_response now l n r)"
proof -
  have "keeps r (fast_round x r')" if "core r' = core r" "r_status r' = r_status r" for x r'
    using keeps_trans [OF core_keeps keeps_round(1)] that assms core_keeps [OF that assms] by (simp add: keeps_def)
  moreover have "keeps r r'" if "core r' = core r" "r_status r' = r_status r" for r'
    using core_keeps [OF that assms] .
  ultimately show ?thesis by (simp add: first_response_def Let_def core_def)
qed

lemma keeps_window_rate:
  assumes "tables_ok r"
  shows "keeps r (window_rate now l r)"
proof -
  have e: "core (update_eifr l q) = core q \<and> r_status (update_eifr l q) = r_status q" for q
    by (simp add: update_eifr_def Let_def core_def)
  have "keeps r (very_slow_round (fast_round x r'))" if "core r' = core r" "r_status r' = r_status r" for x r'
    using core_keeps [OF that assms] keeps_round(1) [of r' x] keeps_round(2) [of "fast_round x r'"] keeps_trans
    by (meson keeps_def)
  moreover have "core (q\<lparr>r_rtt_rxd_bytes_at_part_req := n\<rparr>) = core q" for q n by (simp add: core_def)
  moreover have "core (r\<lparr>r_req_data_rtt_rate := v\<rparr>) = core r" for v by (simp add: core_def)
  ultimately show ?thesis using assms core_keeps [of r r] by (simp add: window_rate_def Let_def e)
qed

lemma request_next_body:
  "receiver_body lib (rr_res s) \<Longrightarrow> receiver_body lib (rr_res (request_next E now iv s))"
  by (rule only_status_ok(1) [OF only_status_request_next])

lemma request_next_lock [simp]:
  "r_receive_lock (rr_res (request_next E now iv s)) = r_receive_lock (rr_res s)"
  using only_status_request_next [of s E now iv] by (simp add: only_status_def core_def)

lemma prove_resource_body:
  assumes "receiver_body lib (rr_res s)"
  shows "receiver_body lib (rr_res (prove_resource E now iv s))"
proof -
  obtain x s1 where x: "res_send E now (iv 0) PROOF RESOURCE_PRF
      (r_hash (rr_res s) @ full_hash (re_lib E) (r_data (rr_res s) @ r_hash (rr_res s))) s = (x, s1)" by fastforce
  have r: "rr_res s1 = rr_res s" by (rule res_send_resD [OF x])
  show ?thesis
    using assms only_status_ok(1) [OF only_status_cancel [of s1 E now "iv 1"], of lib] r
    by (cases x) (simp_all add: prove_resource_def Let_def x)
qed

lemma assemble_body:
  assumes "assemble E now iv s = Inr s'" and "receiver_body (re_lib E) (rr_res s)"
  shows "receiver_body (re_lib E) (rr_res s')"
proof (cases "r_status (rr_res s) = R_FAILED")
  case False
  define s1 where "s1 = upd (\<lambda>r. r\<lparr>r_status := R_ASSEMBLING\<rparr>) s"
  have b1: "receiver_body (re_lib E) ((rr_res s1)\<lparr>r_data := dat, r_status := st\<rparr>)"
    if "st = R_COMPLETE \<Longrightarrow> full_hash (re_lib E) (dat @ r_random_hash (rr_res s)) = r_hash (rr_res s)" for st dat
    using assms(2) that by (auto simp: receiver_body_def window_ok_def tables_ok_def complete_ok_def s1_def)
  obtain pt l where d: "(if r_encrypted (rr_res s1) then link_decrypt (re_lib E) (rr_link s1) (received_stream (rr_res s1))
      else Inr (received_stream (rr_res s1), rr_link s1)) = Inr (pt, l)"
    using assms(1) False unfolding assemble_def Let_def s1_def by (auto simp: res_bind_eq_Inr)
  define s2 where "s2 = s1\<lparr>rr_link := l\<rparr>"
  have s2: "rr_res s2 = rr_res s1" "r_random_hash (rr_res s1) = r_random_hash (rr_res s)" "r_hash (rr_res s1) = r_hash (rr_res s)"
    by (simp_all add: s2_def s1_def)
  define dat where "dat = mid_end pt RANDOM_HASH_SIZE"
  have corrupt: "receiver_body (re_lib E) (rr_res (upd (\<lambda>r. r\<lparr>r_status := R_CORRUPT\<rparr>) s2))"
    using b1 [of R_CORRUPT "r_data (rr_res s1)"] s2 by simp
  have eq: "assemble E now iv s =
      (if r_compressed (rr_res s2) then Inr (cancel E now (iv 0) (upd (\<lambda>r. r\<lparr>r_status := R_CORRUPT\<rparr>) s2))
       else Inr (conclude (if full_hash (re_lib E) (dat @ r_random_hash (rr_res s2)) \<noteq> r_hash (rr_res s2)
              then upd (\<lambda>r. r\<lparr>r_status := R_CORRUPT\<rparr>) s2
              else prove_resource E now iv (upd (\<lambda>r. r\<lparr>r_data := dat, r_status := R_COMPLETE\<rparr>) s2))))"
    using False unfolding assemble_def s1_def [symmetric] s2_def dat_def Let_def d by simp
  show ?thesis
  proof (cases "r_compressed (rr_res s2)")
    case True
    then show ?thesis using assms(1) eq only_status_ok(1) [OF only_status_cancel corrupt] by auto
  next
    case nc: False
    show ?thesis
    proof (cases "full_hash (re_lib E) (dat @ r_random_hash (rr_res s2)) = r_hash (rr_res s2)")
      case True
      then have "receiver_body (re_lib E) ((rr_res s1)\<lparr>r_data := dat, r_status := R_COMPLETE\<rparr>)"
        using b1 [of R_COMPLETE dat] s2 by simp
      then have "receiver_body (re_lib E) (rr_res (upd (\<lambda>r. r\<lparr>r_data := dat, r_status := R_COMPLETE\<rparr>) s2))"
        using s2 by simp
      from prove_resource_body [OF this] True nc assms(1) eq show ?thesis by auto
    next
      case False
      with nc assms(1) eq corrupt show ?thesis by auto
    qed
  qed
qed (use assms in \<open>auto simp: assemble_def\<close>)

section \<open>The invariant is kept\<close>

text \<open>Before the slots of the window are searched: the clock, the rate and the lock.\<close>

definition part_arrived :: "real \<Rightarrow> packet \<Rightarrow> rrun \<Rightarrow> rrun" where
  "part_arrived now p s =
     upd (\<lambda>r. let r1 = r\<lparr>r_last_activity := now, r_retries_left := r_max_retries r\<rparr>
              in if r_req_resp r1 = 0 then first_response now (rr_link s) (length (p_raw p)) r1 else r1) s"

definition filed_window :: "resource_env \<Rightarrow> packet \<Rightarrow> rrun \<Rightarrow> rrun" where
  "filed_window E p s =
     (let s2 = upd (\<lambda>r. r\<lparr>r_status := R_TRANSFERRING, r_receive_lock := True\<rparr>) s;
          cci = nat (r_consecutive_completed_height (rr_res s2))
      in fold (match_slot (p_data p) (map_hash (re_lib E) (rr_res s2) (p_data p)))
           [cci..<min (cci + r_window (rr_res s2)) (r_total_parts (rr_res s2))] s2)"

definition window_done :: "resource_env \<Rightarrow> real \<Rightarrow> (nat \<Rightarrow> bytes) \<Rightarrow> rrun \<Rightarrow> rrun result" where
  "window_done E now iv s =
     (if r_received_count (rr_res s) = r_total_parts (rr_res s) \<and> \<not> r_assembly_lock (rr_res s) then
        assemble E now iv (upd (\<lambda>r. r\<lparr>r_assembly_lock := True\<rparr>) s)
      else if r_outstanding_parts (rr_res s) = 0 then
        Inr (request_next E now iv (upd (\<lambda>r. window_rate now (rr_link s) (grow_window r)) s))
      else Inr s)"

lemma receive_part_eq:
  "receive_part E now iv p s =
     (if r_receive_lock (rr_res s) then Inr s
      else if r_status (rr_res (part_arrived now p s)) = R_FAILED then Inr (part_arrived now p s)
      else res_bind (window_done E now iv (filed_window E p (part_arrived now p s)))
             (\<lambda>s4. Inr (upd (\<lambda>r. r\<lparr>r_receive_lock := False\<rparr>) s4)))"
  by (simp only: receive_part_def part_arrived_def filed_window_def window_done_def Let_def)

lemma keeps_part_arrived:
  assumes "tables_ok (rr_res s)"
  shows "keeps (rr_res s) (rr_res (part_arrived now p s))"
proof -
  let ?r1 = "(rr_res s)\<lparr>r_last_activity := now, r_retries_left := r_max_retries (rr_res s)\<rparr>"
  have 1: "keeps (rr_res s) ?r1" by (rule core_keeps [OF _ _ assms]) (simp_all add: core_def)
  have "keeps ?r1 (first_response now (rr_link s) (length (p_raw p)) ?r1)"
    by (rule keeps_first_response) (use 1 in \<open>simp add: keeps_def\<close>)
  with 1 keeps_trans [OF 1] show ?thesis by (simp add: part_arrived_def Let_def)
qed

lemma filed_window_body:
  assumes "receiver_body lib (rr_res s)"
  shows "receiver_body lib (rr_res (filed_window E p s))"
proof -
  let ?s2 = "upd (\<lambda>r. r\<lparr>r_status := R_TRANSFERRING, r_receive_lock := True\<rparr>) s"
  have b: "receiver_body lib (rr_res ?s2)"
    using assms by (auto simp: receiver_body_def window_ok_def tables_ok_def complete_ok_def)
  then have t: "tables_ok (rr_res ?s2)" by (simp add: receiver_body_def)
  show ?thesis
    unfolding filed_window_def Let_def by (rule keeps_body [OF match_slots_filing [OF t] b]) auto
qed

lemma window_done_body:
  assumes "window_done E now iv s = Inr s'" and "receiver_body (re_lib E) (rr_res s)"
  shows "receiver_body (re_lib E) (rr_res s')"
proof -
  have t: "tables_ok (rr_res s)" using assms(2) by (simp add: receiver_body_def)
  have "receiver_body (re_lib E) (rr_res (upd (\<lambda>r. r\<lparr>r_assembly_lock := True\<rparr>) s))"
    by (rule keeps_body [OF core_keeps [OF _ _ t] assms(2)]) (simp_all add: core_def)
  then have a: "assemble E now iv (upd (\<lambda>r. r\<lparr>r_assembly_lock := True\<rparr>) s) = Inr s' \<Longrightarrow> ?thesis"
    using assemble_body by blast
  have g: "keeps (rr_res s) (window_rate now (rr_link s) (grow_window (rr_res s)))"
    using keeps_trans [OF keeps_round(3) [OF t]] keeps_window_rate keeps_round(3) [OF t] by (simp add: keeps_def)
  have "receiver_body (re_lib E)
      (rr_res (request_next E now iv (upd (\<lambda>r. window_rate now (rr_link s) (grow_window r)) s)))"
    by (rule request_next_body) (use keeps_body [OF g assms(2)] in simp)
  with a assms show ?thesis by (auto simp: window_done_def split: if_splits)
qed

lemma receive_part_ok:
  assumes "receive_part E now iv p s = Inr s'" and "receiver_ok (re_lib E) (rr_res s)"
  shows "receiver_ok (re_lib E) (rr_res s')"
proof -
  let ?s1 = "part_arrived now p s"
  have ok: "\<not> r_receive_lock (rr_res s)" "receiver_body (re_lib E) (rr_res s)" "tables_ok (rr_res s)"
    using assms(2) by (simp_all add: receiver_ok_def receiver_body_def)
  note k = keeps_part_arrived [OF ok(3), of now p]
  have b: "receiver_body (re_lib E) (rr_res ?s1)" by (rule keeps_body [OF k ok(2)])
  show ?thesis
  proof (cases "r_status (rr_res ?s1) = R_FAILED")
    case True
    then have "s' = ?s1" using assms(1) ok(1) by (simp add: receive_part_eq)
    with b k ok(1) show ?thesis by (simp add: receiver_ok_def keeps_def)
  next
    case False
    then obtain s4 where s4: "window_done E now iv (filed_window E p ?s1) = Inr s4"
      and s': "s' = upd (\<lambda>r. r\<lparr>r_receive_lock := False\<rparr>) s4"
      using assms(1) ok(1) by (auto simp: receive_part_eq res_bind_eq_Inr)
    have "receiver_body (re_lib E) (rr_res s4)"
      by (rule window_done_body [OF s4 filed_window_body [OF b]])
    then show ?thesis
      unfolding s' by (auto simp: receiver_ok_def receiver_body_def window_ok_def tables_ok_def complete_ok_def)
  qed
qed

lemma hashmap_update_ok:
  assumes "receiver_ok lib (rr_res s)"
  shows "receiver_ok lib (rr_res (hashmap_update E now iv segment m s))"
proof (cases "r_status (rr_res s) = R_FAILED")
  case False
  let ?r1 = "(rr_res s)\<lparr>r_status := R_TRANSFERRING\<rparr>"
  let ?r2 = "(apply_hashmap segment m ?r1)\<lparr>r_waiting_for_hmu := False\<rparr>"
  have 1: "receiver_ok lib ?r1" "tables_ok ?r1"
    using assms by (auto simp: receiver_ok_def receiver_body_def window_ok_def tables_ok_def complete_ok_def)
  have "receiver_ok lib (apply_hashmap segment m ?r1)" by (rule keeps_ok [OF apply_hashmap_filing [OF 1(2)] 1(1)])
  then have "receiver_ok lib ?r2" by (rule same_ok [rotated -1]) (simp_all add: core_def)
  then show ?thesis
    using False only_status_ok(2) [OF only_status_request_next [of "upd (\<lambda>_. ?r2) s" E now iv], of lib]
    by (simp add: hashmap_update_def)
qed (use assms in \<open>simp add: hashmap_update_def\<close>)

lemma hashmap_update_packet_ok:
  assumes "receiver_ok lib (rr_res s)"
  shows "receiver_ok lib (rr_res (hashmap_update_packet E now iv pt s))"
proof -
  let ?s1 = "upd (\<lambda>r. r\<lparr>r_last_activity := now, r_retries_left := r_max_retries r\<rparr>) s"
  have "receiver_ok lib (rr_res ?s1)" using assms by (rule same_ok [rotated -1]) (simp_all add: core_def)
  then show ?thesis
    using assms hashmap_update_ok [of lib ?s1]
    by (simp add: hashmap_update_packet_def Let_def split_beta split: list.split mp_item.split)
qed

lemma watchdog_ok:
  assumes "receiver_ok lib (rr_res s)"
  shows "receiver_ok lib (rr_res (watchdog E now iv s))"
proof -
  have c: "receiver_ok lib (rr_res (cancel E now i q))" if "receiver_ok lib (rr_res q)" for q i
    by (rule only_status_ok(2) [OF only_status_cancel that])
  have adv: "receiver_ok lib (rr_res (retry_advertisement E now iv s))"
  proof -
    define s0 where "s0 = upd (\<lambda>r. r\<lparr>r_retries_left := r_retries_left r - 1\<rparr>) s"
    obtain x s1 where x: "send_advertisement E now (iv 0) s0 = (x, s1)" by fastforce
    have "core (rr_res s1) = core (rr_res s)" "r_status (rr_res s1) = r_status (rr_res s)"
      using x res_send_resD [of E now "iv 0" DATA RESOURCE_ADV]
      by (auto simp: send_advertisement_def Let_def core_def s0_def)
    then have "receiver_ok lib (rr_res s1)" using assms same_ok by blast
    moreover from this have "receiver_ok lib (rr_res (upd (\<lambda>r. r\<lparr>r_last_activity := now, r_adv_sent := now\<rparr>) s1))"
      by (rule same_ok [rotated -1]) (simp_all add: core_def)
    ultimately show ?thesis
      using assms c unfolding retry_advertisement_def s0_def [symmetric] x by (cases x) simp_all
  qed
  have wait: "receiver_ok lib (rr_res (await_proof E now iv s))"
  proof -
    let ?s1 = "upd (\<lambda>r. r\<lparr>r_timeout_factor := PROOF_TIMEOUT_FACTOR\<rparr>) s"
    have "receiver_ok lib (rr_res ?s1)" by (rule same_ok [OF _ _ assms]) (simp_all add: core_def)
    moreover from this have
      "receiver_ok lib (rr_res (upd (\<lambda>r. r\<lparr>r_retries_left := r_retries_left r - 1, r_last_part_sent := now\<rparr>) ?s1))"
      by (rule same_ok [rotated -1]) (simp_all add: core_def)
    ultimately show ?thesis using c [of ?s1] by (simp add: await_proof_def Let_def)
  qed
  have parts: "receiver_ok lib (rr_res (retry_parts E now iv s))"
  proof -
    let ?s1 = "upd (update_eifr (rr_link s)) s"
    have 1: "receiver_ok lib (rr_res ?s1)" by (rule same_ok [OF _ _ assms]) (simp_all add: update_eifr_def Let_def core_def)
    then have "receiver_ok lib (shrink_window (rr_res ?s1))"
      by (intro keeps_ok [OF keeps_round(4)]) (simp_all add: receiver_ok_def receiver_body_def)
    then have "receiver_ok lib ((shrink_window (rr_res ?s1))\<lparr>r_retries_left := n, r_waiting_for_hmu := False\<rparr>)" for n
      by (rule same_ok [rotated -1]) (simp_all add: core_def)
    then have "receiver_ok lib (rr_res (request_next E now iv (upd (\<lambda>r. (shrink_window r)\<lparr>r_retries_left := r_retries_left r - 1,
        r_waiting_for_hmu := False\<rparr>) ?s1)))"
      by (intro only_status_ok(2) [OF only_status_request_next]) simp
    with 1 c [OF 1] show ?thesis by (simp add: retry_parts_def Let_def)
  qed
  show ?thesis using assms c adv wait parts by (simp add: watchdog_def Let_def)
qed

lemma accepted_resource_ok: "receiver_ok lib (accepted_resource l now pt a cbc cbp q)"
  by (simp add: accepted_resource_def new_resource_def resource_data_def receiver_ok_def receiver_body_def window_ok_def
      tables_ok_def complete_ok_def Let_def)

lemma receiver_exec_ok:
  "receiver_exec E now iv c s = Inr s' \<Longrightarrow> receiver_ok (re_lib E) (rr_res s) \<Longrightarrow> receiver_ok (re_lib E) (rr_res s')"
  using receive_part_ok hashmap_update_packet_ok watchdog_ok only_status_ok(2) [OF only_status_cancel]
  by (cases c) auto

lemma receiver_run_ok:
  "receiver_run E s s' \<Longrightarrow> receiver_ok (re_lib E) (rr_res s) \<Longrightarrow> receiver_ok (re_lib E) (rr_res s')"
  by (induction rule: receiver_run.induct) (auto intro: receiver_exec_ok)

lemma accept_ok:
  "accept E now iv inc cbc cbp cbs q pt l = Inr (Some s) \<Longrightarrow> receiver_ok lib (rr_res s)"
  by (auto simp: accept_def Let_def split: if_splits intro!: hashmap_update_ok accepted_resource_ok)

section \<open>Which slots a command fills\<close>

text \<open>
  A slot keeps what it holds, or was empty and gets the payload of the part that arrived, whose
  map hash is the one the resource has for this slot.
\<close>

definition files :: "crypto_lib \<Rightarrow> receiver_command \<Rightarrow> resource \<Rightarrow> resource \<Rightarrow> nat \<Rightarrow> bool" where
  "files lib c r r' i \<longleftrightarrow>
     r_parts r' ! i = r_parts r ! i \<or>
     (r_parts r ! i = None \<and> (\<exists>p q. c = Part p \<and> r_parts r' ! i = Some q \<and> p_data q = p_data p \<and>
        map_hash lib r (p_data p) = map_hash_at r i))"

lemma files_same: "r_parts r' = r_parts r \<Longrightarrow> files lib c r r' i"
  by (simp add: files_def)

lemma only_status_parts: "only_status r r' \<Longrightarrow> r_parts r' = r_parts r"
  by (simp add: only_status_def core_def)

lemma cancel_parts [simp]: "r_parts (rr_res (cancel E now iv s)) = r_parts (rr_res s)"
  by (rule only_status_parts [OF only_status_cancel])

lemma request_next_parts [simp]: "r_parts (rr_res (request_next E now iv s)) = r_parts (rr_res s)"
  by (rule only_status_parts [OF only_status_request_next])

lemma round_slots [simp]:
  "r_parts (fast_round x r) = r_parts r" "r_parts (very_slow_round r) = r_parts r"
  "r_parts (grow_window r) = r_parts r" "r_parts (shrink_window r) = r_parts r"
  "r_parts (update_eifr l r) = r_parts r" "r_parts (window_rate now l r) = r_parts r"
  "r_parts (first_response now l n r) = r_parts r"
  by (simp_all add: fast_round_def very_slow_round_def grow_window_def shrink_window_def update_eifr_def
      window_rate_def first_response_def Let_def)

lemma arrived_slots [simp]:
  "r_parts (rr_res (part_arrived now p s)) = r_parts (rr_res s)"
  "r_hashmap (rr_res (part_arrived now p s)) = r_hashmap (rr_res s)"
  "r_random_hash (rr_res (part_arrived now p s)) = r_random_hash (rr_res s)"
  by (simp_all add: part_arrived_def first_response_def fast_round_def Let_def)

lemma apply_hashmap_parts [simp]: "r_parts (apply_hashmap segment m r) = r_parts r"
proof -
  have "r_parts (fold (\<lambda>i. set_map_hash (f i) (g i)) is r) = r_parts r" for f g "is"
    by (induction "is" arbitrary: r) (simp_all add: set_map_hash_def Let_def)
  then show ?thesis by (simp add: apply_hashmap_def Let_def)
qed

lemma hashmap_parts [simp]:
  "r_parts (rr_res (hashmap_update E now iv segment m s)) = r_parts (rr_res s)"
  "r_parts (rr_res (hashmap_update_packet E now iv pt s)) = r_parts (rr_res s)"
  by (simp_all add: hashmap_update_def hashmap_update_packet_def Let_def split_beta split: list.split mp_item.split)

lemma send_advertisement_parts [simp]:
  "r_parts (rr_res (snd (send_advertisement E now iv s))) = r_parts (rr_res s)"
  by (simp add: send_advertisement_def Let_def)

lemma watchdog_parts [simp]: "r_parts (rr_res (watchdog E now iv s)) = r_parts (rr_res s)"
proof -
  have "r_parts (rr_res (retry_advertisement E now iv s)) = r_parts (rr_res s)"
  proof -
    define s0 where "s0 = upd (\<lambda>r. r\<lparr>r_retries_left := r_retries_left r - 1\<rparr>) s"
    obtain x s1 where x: "send_advertisement E now (iv 0) s0 = (x, s1)" by fastforce
    have "r_parts (rr_res (snd (send_advertisement E now (iv 0) s0))) = r_parts (rr_res s0)" by simp
    then have "r_parts (rr_res s1) = r_parts (rr_res s)" unfolding x by (simp add: s0_def)
    then show ?thesis unfolding retry_advertisement_def s0_def [symmetric] x by (cases x) simp_all
  qed
  moreover have "r_parts (rr_res (await_proof E now iv s)) = r_parts (rr_res s)"
    by (simp add: await_proof_def Let_def)
  moreover have "r_parts (rr_res (retry_parts E now iv s)) = r_parts (rr_res s)"
    by (simp add: retry_parts_def Let_def)
  ultimately show ?thesis by (simp add: watchdog_def Let_def)
qed

lemma match_slot_frame [simp]:
  "r_hashmap (rr_res (match_slot dat h j s)) = r_hashmap (rr_res s)"
  "r_random_hash (rr_res (match_slot dat h j s)) = r_random_hash (rr_res s)"
  "length (r_parts (rr_res (match_slot dat h j s))) = length (r_parts (rr_res s))"
  by (simp_all add: match_slot_def Let_def) (simp add: file_part_def Let_def)

lemma match_slots_files:
  assumes "h = map_hash lib (rr_res s) dat" and "dat = p_data p" and "i < length (r_parts (rr_res s))"
  shows "files lib (Part p) (rr_res s) (rr_res (fold (match_slot dat h) is s)) i"
proof -
  have one: "files lib (Part p) (rr_res q) (rr_res (match_slot dat h j q)) i"
    if "h = map_hash lib (rr_res q) dat" "i < length (r_parts (rr_res q))" for j q
    using that assms(2)
    by (cases "i = j") (auto simp: files_def match_slot_def Let_def file_part_def)
  show ?thesis
    using assms(1,3)
  proof (induction "is" arbitrary: s)
    case (Cons j "is")
    let ?s1 = "match_slot dat h j s"
    have a: "files lib (Part p) (rr_res s) (rr_res ?s1) i" using one Cons.prems by blast
    have "files lib (Part p) (rr_res ?s1) (rr_res (fold (match_slot dat h) is ?s1)) i"
      by (rule Cons.IH) (use Cons.prems in \<open>simp_all add: map_hash_def\<close>)
    with a show ?case by (auto simp: files_def map_hash_def map_hash_at_def)
  qed (simp add: files_def)
qed

lemma window_done_parts:
  "window_done E now iv s = Inr s' \<Longrightarrow> r_parts (rr_res s') = r_parts (rr_res s)"
proof -
  have p: "r_parts (rr_res (prove_resource E now iv q)) = r_parts (rr_res q)" for q
  proof -
    obtain x q1 where x: "res_send E now (iv 0) PROOF RESOURCE_PRF
        (r_hash (rr_res q) @ full_hash (re_lib E) (r_data (rr_res q) @ r_hash (rr_res q))) q = (x, q1)" by fastforce
    show ?thesis using res_send_resD [OF x] by (cases x) (simp_all add: prove_resource_def Let_def x)
  qed
  have a: "assemble E now iv q = Inr q' \<Longrightarrow> r_parts (rr_res q') = r_parts (rr_res q)" for q q'
    by (auto simp: assemble_def Let_def res_bind_eq_Inr p split: if_splits)
  show "window_done E now iv s = Inr s' \<Longrightarrow> r_parts (rr_res s') = r_parts (rr_res s)"
    using a [of "upd (\<lambda>r. r\<lparr>r_assembly_lock := True\<rparr>) s" s'] by (auto simp: window_done_def split: if_splits)
qed

lemma receive_part_files:
  assumes "receive_part E now iv p s = Inr s'" and "i < length (r_parts (rr_res s))"
  shows "files (re_lib E) (Part p) (rr_res s) (rr_res s') i"
proof -
  let ?s1 = "part_arrived now p s"
  let ?s2 = "upd (\<lambda>r. r\<lparr>r_status := R_TRANSFERRING, r_receive_lock := True\<rparr>) ?s1"
  have f: "files (re_lib E) (Part p) (rr_res ?s2) (rr_res (filed_window E p ?s1)) i"
    unfolding filed_window_def Let_def by (rule match_slots_files) (use assms(2) in simp_all)
  consider "s' = s" | "s' = ?s1"
    | s4 where "window_done E now iv (filed_window E p ?s1) = Inr s4" "s' = upd (\<lambda>r. r\<lparr>r_receive_lock := False\<rparr>) s4"
    using assms(1) by (auto simp: receive_part_eq res_bind_eq_Inr split: if_splits)
  then show ?thesis
  proof cases
    case 3
    then have "r_parts (rr_res s') = r_parts (rr_res (filed_window E p ?s1))"
      using window_done_parts by fastforce
    with f show ?thesis by (simp add: files_def map_hash_def map_hash_at_def)
  qed (simp_all add: files_same)
qed

lemma receiver_exec_files:
  assumes "receiver_exec E now iv c s = Inr s'" and "i < length (r_parts (rr_res s))"
  shows "files (re_lib E) c (rr_res s) (rr_res s') i"
proof (cases c)
  case (Part p)
  with assms receive_part_files show ?thesis by simp
qed (use assms(1) in \<open>auto intro: files_same\<close>)

section \<open>Properties\<close>

text \<open>
  C22. A receiver keeps its books over any sequence of parts, hashmap updates, watchdog ticks and
  cancellations, genuine or not, at any times: the window stays between its bounds and below 75, there
  is one slot per part and one map hash per slot, the counter counts the filled slots, the height is the
  length of the filled prefix, and a resource is complete only with data of the advertised hash.
  Every further command that returns leaves a slot as it is, or it is an arriving part, the slot was
  empty and is filled with the payload of this part, whose map hash is the slot's at this moment.
\<close>

theorem receiver_invariant:
  assumes "accept E now iv incoming cbc cbp cbs request_id plaintext l = Inr (Some s)" and "receiver_run E s s'"
  shows "let r = rr_res s' in
    WINDOW_MIN \<le> r_window_min r \<and> r_window_min r \<le> r_window r \<and> r_window r \<le> WINDOW_MAX \<and> r_window_max r \<le> WINDOW_MAX \<and>
    length (r_parts r) = r_total_parts r \<and> length (r_hashmap r) = r_total_parts r * MAPHASH_LEN \<and>
    r_received_count r = length (filter (\<lambda>p. p \<noteq> None) (r_parts r)) \<and>
    r_consecutive_completed_height r + 1 = int (length (takeWhile (\<lambda>p. p \<noteq> None) (r_parts r))) \<and>
    (r_status r = R_COMPLETE \<longrightarrow> full_hash (re_lib E) (r_data r @ r_random_hash r) = r_hash r) \<and>
    (\<forall>now iv c s'' i. receiver_exec E now iv c s' = Inr s'' \<longrightarrow> i < r_total_parts r \<longrightarrow>
       r_parts (rr_res s'') ! i = r_parts r ! i \<or>
       (r_parts r ! i = None \<and> (\<exists>p q. c = Part p \<and> r_parts (rr_res s'') ! i = Some q \<and> p_data q = p_data p \<and>
          map_hash (re_lib E) r (p_data p) = map_hash_at r i)))"
proof -
  have c: "completed_from ps 0 = length (takeWhile (\<lambda>p. p \<noteq> None) ps)" for ps
    by (induction ps) auto
  have ok: "receiver_ok (re_lib E) (rr_res s')"
    by (rule receiver_run_ok [OF assms(2) accept_ok [OF assms(1)]])
  then have len: "length (r_parts (rr_res s')) = r_total_parts (rr_res s')"
    by (simp add: receiver_ok_def receiver_body_def tables_ok_def)
  have f: "\<forall>now iv c s'' i. receiver_exec E now iv c s' = Inr s'' \<longrightarrow> i < r_total_parts (rr_res s') \<longrightarrow>
      files (re_lib E) c (rr_res s') (rr_res s'') i"
    using receiver_exec_files [where s = s' and E = E, unfolded len] by blast
  show ?thesis
    using ok c f by (simp add: files_def receiver_ok_def receiver_body_def window_ok_def tables_ok_def complete_ok_def filled_def Let_def)
qed

lemma demo_accepts:
  assumes "l_status l = LACTIVE" and "l_mtu l = MTU"
  shows "\<exists>s. accept \<lparr>re_lib = demo_lib, re_msgpack = demo_msgpack, re_outbound = (\<lambda>_. True)\<rparr> 1 iv [] True True True []
    (adv_pack demo_msgpack 0 (advertisement_of demo_resource)) l = Inr (Some s)"
proof -
  have w: "adv_wf (advertisement_of demo_resource)"
    by (simp add: adv_wf_def advertisement_of_def demo_resource_def resource_data_def Let_def)
  have "adv_h (decoded 0 (advertisement_of demo_resource)) = replicate 32 1"
    by (simp add: decoded_def derive_flags_def advertisement_of_def demo_resource_def resource_data_def Let_def)
  then show ?thesis
    using assms by (simp add: accept_def adv_unpack_pack [OF demo_msgpack_ok w] sdu_of_def wire_sizes Let_def)
qed

theorem receiver_invariant_witness:
  "\<exists>s s'. accept \<lparr>re_lib = demo_lib, re_msgpack = demo_msgpack, re_outbound = (\<lambda>_. True)\<rparr> 1 (\<lambda>_. replicate 16 0) [] True True True []
      (adv_pack demo_msgpack 0 (advertisement_of demo_resource)) (new_link_data\<lparr>l_status := LACTIVE\<rparr>) = Inr (Some s) \<and>
    receiver_exec \<lparr>re_lib = demo_lib, re_msgpack = demo_msgpack, re_outbound = (\<lambda>_. True)\<rparr> 2 (\<lambda>_. []) Cancel s = Inr s' \<and>
    WINDOW_MIN \<le> r_window (rr_res s') \<and> r_window (rr_res s') \<le> WINDOW_MAX"
proof -
  let ?E = "\<lparr>re_lib = demo_lib, re_msgpack = demo_msgpack, re_outbound = (\<lambda>_. True)\<rparr> :: resource_env"
  have l: "l_status (new_link_data\<lparr>l_status := LACTIVE\<rparr>) = LACTIVE" "l_mtu (new_link_data\<lparr>l_status := LACTIVE\<rparr>) = MTU"
    by (simp_all add: new_link_data_def)
  obtain s where s: "accept ?E 1 (\<lambda>_. replicate 16 0) [] True True True []
      (adv_pack demo_msgpack 0 (advertisement_of demo_resource)) (new_link_data\<lparr>l_status := LACTIVE\<rparr>) = Inr (Some s)"
    using demo_accepts [OF l] by blast
  have x: "receiver_exec ?E 2 (\<lambda>_. []) Cancel s = Inr (cancel ?E 2 [] s)" by simp
  have "receiver_run ?E s (cancel ?E 2 [] s)" by (rule receiver_next [OF receiver_start x])
  from receiver_invariant [OF s this] show ?thesis using s x by (auto simp: Let_def)
qed

end
