(* ===== verification/Resource_Initiator.thy ===== *)
theory Resource_Initiator
  imports Resource_Receiver
begin

text \<open>
  The initiator of a lossless transfer: how packets reach the peer over a working link, what the two
  ends have in common (\<open>plan\<close>: chunks and map hashes), and what the initiator sends for a request of
  the receiver.
\<close>

section \<open>Packets over a working link\<close>

text \<open>An active link with the default MTU that holds the token \<open>t\<close>.\<close>

definition link_fit :: "token \<Rightarrow> link \<Rightarrow> bool" where
  "link_fit t l \<longleftrightarrow> l_status l = LACTIVE \<and> link_token l = Inr t \<and> l_mtu l = MTU \<and> length (l_link_id l) = 16"

lemma link_fit_fields [simp]:
  "link_fit t (l\<lparr>l_last_outbound := x\<rparr>) = link_fit t l" "link_fit t l \<Longrightarrow> link_fit t (l\<lparr>l_token := Some t\<rparr>)"
  "link_fit t l \<Longrightarrow> link_fit t (with_token l)"
  by (simp_all add: link_fit_def link_token_def with_token_def split: option.splits sum.splits)

text \<open>What the peer unpacks from a transmitted packet.\<close>

definition arrives :: "crypto_lib \<Rightarrow> packet \<Rightarrow> packet" where
  "arrives lib p = snd (unpack lib (packet_from_raw (p_raw p)))"

text \<open>A packet of type \<open>ty\<close> and context \<open>ctx\<close> ready to be packed.\<close>

definition link_object :: "link_view \<Rightarrow> packet_type \<Rightarrow> byte \<Rightarrow> bytes \<Rightarrow> packet \<Rightarrow> bool" where
  "link_object v ty ctx dat p \<longleftrightarrow>
     p_destination p = Some (link_destination v) \<and> p_destination_link p = Some v \<and> p_MTU p = lv_mtu v \<and>
     p_header_type p = HEADER_1 \<and> p_transport_type p = BROADCAST \<and> p_packet_type p = ty \<and> p_context p = ctx \<and>
     p_data p = dat \<and> get_packed_flags p = Inr (p_flags p) \<and> \<not> p_sent p"

lemma link_object_build:
  assumes "length dat \<le> MDU" and "ctx \<noteq> LRPROOF"
  shows "\<exists>p0 p1 p. packet_to_link v dat = Inr p0 \<and> set_packet_type ty p0 = Inr p1 \<and> set_context ctx p1 = Inr p \<and>
    link_object v ty ctx dat p"
    and "\<exists>p0 p. packet_to_link v dat = Inr p0 \<and> set_context ctx p0 = Inr p \<and> link_object v DATA ctx dat p"
  using assms
  by (simp_all add: packet_to_link_def packet_to_destination_def new_object_def Let_def with_flags_def link_destination_def
      get_packed_flags_def set_packet_type_def set_context_def link_object_def)

lemma link_object_wire:
  assumes "link_object v ty ctx dat p" and "ctx \<noteq> LRPROOF" and "length (lv_id v) = 16"
    and "pack lib p = Inr q"
  shows "p_packet_type (arrives lib q) = ty" and "p_context (arrives lib q) = ctx"
    and "p_data (arrives lib q) = p_ciphertext q" and "p_raw (arrives lib q) = p_raw q"
proof -
  have "well_addressed p (link_destination v)"
    using assms(1-3) by (simp add: well_addressed_def link_object_def wire_destination_def link_destination_def wire_sizes)
  from pack_unpack [OF assms(4) this] assms(1)
  show "p_packet_type (arrives lib q) = ty" "p_context (arrives lib q) = ctx"
    "p_data (arrives lib q) = p_ciphertext q" "p_raw (arrives lib q) = p_raw q"
    by (auto simp: arrives_def link_object_def)
qed

text \<open>Packing: in clear, or encrypted by the link.\<close>

lemma link_object_pack:
  assumes "link_object v ty ctx dat p" and "ctx \<noteq> LRPROOF"
  shows "sent_in_clear p (link_destination v) \<Longrightarrow> 19 + length dat \<le> lv_mtu v \<Longrightarrow> length (lv_id v) = 16 \<Longrightarrow>
      \<exists>q. pack lib p = Inr q \<and> p_ciphertext q = dat \<and> \<not> p_encrypted q \<and> link_object v ty ctx dat q"
    and "\<not> sent_in_clear p (link_destination v) \<Longrightarrow> lv_encrypt v dat = Inr ct \<Longrightarrow> 19 + length ct \<le> lv_mtu v \<Longrightarrow>
      length (lv_id v) = 16 \<Longrightarrow> \<exists>q. pack lib p = Inr q \<and> p_ciphertext q = ct \<and> p_encrypted q \<and> link_object v ty ctx dat q"
  using assms
  by (auto simp: link_object_def pack_def pack_body_def Let_def update_hash_def get_hash_def get_hashable_part_def
      sent_in_clear_def link_destination_def get_packed_flags_def)

text \<open>An encrypted message, a proof and a part reach the peer as they are.\<close>

lemma res_send_encrypted:
  assumes lib: "crypto_ok (re_lib E)" and l: "link_fit t (rr_link s)" and k: "new_token k MODE_AES = Inr t"
    and iv: "length iv = 16" and dat: "length dat \<le> LINK_MDU"
    and ctx: "ctx = RESOURCE_ADV \<or> ctx = RESOURCE_REQ \<or> ctx = RESOURCE_HMU"
  shows "\<exists>p l'. res_send E now iv DATA ctx dat s = (Inr p, emit [Transmit p] (s\<lparr>rr_link := l'\<rparr>)) \<and> link_fit t l' \<and>
    p_packet_type (arrives (re_lib E) p) = DATA \<and> p_context (arrives (re_lib E) p) = ctx \<and>
    (\<forall>m. link_fit t m \<longrightarrow> link_decrypt (re_lib E) m (p_data (arrives (re_lib E) p)) = Inr (dat, m\<lparr>l_token := Some t\<rparr>))"
proof -
  let ?lib = "re_lib E" and ?l = "rr_link s"
  let ?v = "link_view_of ?lib iv ?l"
  obtain ct where ct: "token_encrypt ?lib iv t dat = Inr ct" "token_decrypt ?lib t ct = Inr dat"
    "length ct = 16 * (length dat div 16 + 1) + 48"
    using token_encrypt_decrypt [OF lib iv k, of dat] by blast
  have v: "length (lv_id ?v) = 16" "lv_mtu ?v = MTU" "lv_encrypt ?v dat = Inr ct"
    using l ct(1) by (simp_all add: link_view_of_def link_fit_def link_encrypt_def)
  have "length dat div 16 \<le> 26" using dat by (simp add: div_le_mono [of _ 431 16, simplified])
  then have len: "19 + length ct \<le> lv_mtu ?v" using ct(3) v(2) by (simp add: wire_sizes)
  have ctx': "ctx \<noteq> LRPROOF" using ctx by auto
  obtain p0 p1 p where b: "packet_to_link ?v dat = Inr p0" "set_packet_type DATA p0 = Inr p1" "set_context ctx p1 = Inr p"
    "link_object ?v DATA ctx dat p"
    using link_object_build(1) [OF _ ctx', of dat ?v DATA] dat by (auto simp: wire_sizes)
  have "\<not> sent_in_clear p (link_destination ?v)" using b(4) ctx by (auto simp: sent_in_clear_def link_object_def)
  from link_object_pack(2) [OF b(4) ctx' this v(3) len v(1)] obtain q where
    q: "pack ?lib p = Inr q" "p_ciphertext q = ct" "p_encrypted q" by blast
  have eq: "link_packet ?lib iv ?l DATA ctx dat = Inr q"
    using l b(1-3) q(1) by (simp add: link_packet_def link_fit_def)
  note w = link_object_wire [OF b(4) ctx' v(1) q(1)]
  have "link_decrypt ?lib m (p_data (arrives ?lib q)) = Inr (dat, m\<lparr>l_token := Some t\<rparr>)" if "link_fit t m" for m
    using that ct(2) by (simp add: link_decrypt_def link_fit_def w(3) q(2))
  moreover have "res_send E now iv DATA ctx dat s =
      (Inr q, emit [Transmit q] (s\<lparr>rr_link := (with_token ?l)\<lparr>l_last_outbound := now\<rparr>\<rparr>))"
    by (simp add: res_send_def eq q(3) Let_def)
  ultimately show ?thesis using w(1,2) l by auto
qed

lemma res_send_proof:
  assumes l: "link_fit t (rr_link s)" and dat: "length dat \<le> MDU"
  shows "\<exists>p l'. res_send E now iv PROOF RESOURCE_PRF dat s = (Inr p, emit [Transmit p] (s\<lparr>rr_link := l'\<rparr>)) \<and> link_fit t l' \<and>
    p_packet_type (arrives (re_lib E) p) = PROOF \<and> p_context (arrives (re_lib E) p) = RESOURCE_PRF \<and>
    p_data (arrives (re_lib E) p) = dat"
proof -
  let ?lib = "re_lib E" and ?l = "rr_link s"
  let ?v = "link_view_of ?lib iv ?l"
  have v: "length (lv_id ?v) = 16" "lv_mtu ?v = MTU" using l by (simp_all add: link_view_of_def link_fit_def)
  have len: "19 + length dat \<le> lv_mtu ?v" using dat v(2) by (simp add: wire_sizes)
  obtain p0 p1 p where b: "packet_to_link ?v dat = Inr p0" "set_packet_type PROOF p0 = Inr p1"
    "set_context RESOURCE_PRF p1 = Inr p" "link_object ?v PROOF RESOURCE_PRF dat p"
    using link_object_build(1) [OF dat, of RESOURCE_PRF ?v PROOF] by auto
  have "sent_in_clear p (link_destination ?v)" using b(4) by (simp add: sent_in_clear_def link_object_def)
  from link_object_pack(1) [OF b(4) _ this len v(1)] obtain q where
    q: "pack ?lib p = Inr q" "p_ciphertext q = dat" "\<not> p_encrypted q" by auto
  have eq: "link_packet ?lib iv ?l PROOF RESOURCE_PRF dat = Inr q"
    using l b(1-3) q(1) by (simp add: link_packet_def link_fit_def)
  have "res_send E now iv PROOF RESOURCE_PRF dat s =
      (Inr q, emit [Transmit q] (s\<lparr>rr_link := ?l\<lparr>l_last_outbound := now\<rparr>\<rparr>))"
    by (simp add: res_send_def eq q(3) Let_def)
  then show ?thesis using link_object_wire [OF b(4) _ v(1) q(1)] q(2) l by auto
qed

text \<open>A packed part that was not sent yet.\<close>

definition part_of :: "crypto_lib \<Rightarrow> bytes \<Rightarrow> packet \<Rightarrow> bool" where
  "part_of lib c p \<longleftrightarrow> \<not> p_sent p \<and> p_packet_type (arrives lib p) = DATA \<and> p_context (arrives lib p) = RESOURCE
     \<and> p_data (arrives lib p) = c"

lemma part_packet_ok:
  assumes l: "link_fit t l" and dat: "length c \<le> MDU"
  shows "\<exists>p. part_packet lib l c = Inr p \<and> part_of lib c p"
proof -
  let ?v = "link_view_of lib [] l"
  have v: "length (lv_id ?v) = 16" "lv_mtu ?v = MTU" using l by (simp_all add: link_view_of_def link_fit_def)
  have len: "19 + length c \<le> lv_mtu ?v" using dat v(2) by (simp add: wire_sizes)
  obtain p0 p where b: "packet_to_link ?v c = Inr p0" "set_context RESOURCE p0 = Inr p" "link_object ?v DATA RESOURCE c p"
    using link_object_build(2) [OF dat, of RESOURCE ?v] by auto
  have "sent_in_clear p (link_destination ?v)" using b(3) by (simp add: sent_in_clear_def link_object_def)
  from link_object_pack(1) [OF b(3) _ this len v(1)] obtain q where
    q: "pack lib p = Inr q" "p_ciphertext q = c" "link_object ?v DATA RESOURCE c q" by auto
  have "part_of lib c q"
    using q(2,3) link_object_wire [OF b(3) _ v(1) q(1)] by (simp add: part_of_def link_object_def)
  then show ?thesis using b q(1) by (simp add: part_packet_def)
qed

lemma pack_parts_ok:
  assumes "link_fit t l" and "\<forall>c \<in> set cs. length c \<le> MDU"
  shows "\<exists>ps. pack_parts lib l cs = Inr (map Some ps) \<and> list_all2 (part_of lib) cs ps"
  using assms(2)
proof (induction cs)
  case (Cons c cs)
  then obtain ps where "pack_parts lib l cs = Inr (map Some ps)" "list_all2 (part_of lib) cs ps" by auto
  moreover obtain p where "part_packet lib l c = Inr p" "part_of lib c p"
    using part_packet_ok [OF assms(1), of c lib] Cons.prems by auto
  ultimately show ?case by (intro exI [of _ "p # ps"]) simp
qed simp

section \<open>Chunks and map hashes\<close>

lemma mid_take_drop: "mid bs i n = take n (drop i bs)"
  by (auto simp: mid_def Let_def)

lemma mid_end_drop: "mid_end bs i = drop i bs"
  by (simp add: mid_end_def)

lemma chunk_eq: "chunk sdu stream i = take sdu (drop (i * sdu) stream)"
  by (simp add: chunk_def mid_take_drop min_def)

lemma chunks_prefix: "concat (map (chunk sdu stream) [0..<n]) = take (n * sdu) stream"
  by (induction n) (simp_all add: chunk_eq take_add [symmetric] add.commute)

lemma concat_chunks:
  assumes "sdu > 0" and "length stream + sdu \<le> 2 ^ 32"
  shows "concat (map (chunk sdu stream) [0..<part_count (length stream) sdu]) = stream"
    and "part_count (length stream) sdu = (length stream + sdu - 1) div sdu"
proof -
  let ?m = "length stream + sdu - 1"
  have "?m div sdu \<le> ?m" by simp
  then have "?m div sdu < 2 ^ 32" using assms by linarith
  moreover have "?m < 2 ^ 64" using assms by simp
  ultimately show eq: "part_count (length stream) sdu = ?m div sdu" by (simp add: part_count_def)
  have "?m < (?m div sdu + 1) * sdu" using assms(1) by (simp add: dividend_less_div_times)
  then have "length stream \<le> ?m div sdu * sdu" using assms(1) by simp
  then show "concat (map (chunk sdu stream) [0..<part_count (length stream) sdu]) = stream"
    by (simp add: chunks_prefix eq)
qed

lemma length_chunk: "length (chunk sdu stream i) \<le> sdu"
  by (simp add: chunk_eq)

lemma concat_uniform:
  assumes "\<forall>h \<in> set hs. length h = m" and "i < length hs"
  shows "take m (drop (i * m) (concat hs @ rest)) = hs ! i"
  using assms
proof (induction hs arbitrary: i)
  case (Cons h hs)
  then show ?case by (cases i) (simp_all add: add.commute)
qed simp

lemma length_concat_uniform: "\<forall>h \<in> set hs. length h = m \<Longrightarrow> length (concat hs) = length hs * m"
  by (induction hs) simp_all

lemma chop_concat: "n > 0 \<Longrightarrow> \<forall>h \<in> set hs. length h = n \<Longrightarrow> chop n (concat hs) = hs"
  by (induction hs) (subst chop.simps, simp)+

text \<open>
  What the two ends have in common: the chunks, their map hashes, which do not collide, the resource
  hash, the random hash, the data, and the request it belongs to, if any.
\<close>

record plan =
  pl_chunks :: "bytes list"
  pl_hashes :: "bytes list"
  pl_hash :: bytes
  pl_random :: bytes
  pl_data :: bytes
  pl_proof :: bytes
  pl_request_id :: bytes
  pl_is_response :: bool

abbreviation parts_of :: "plan \<Rightarrow> nat" where "parts_of P \<equiv> length (pl_chunks P)"

definition plan_ok :: "crypto_lib \<Rightarrow> token \<Rightarrow> plan \<Rightarrow> bool" where
  "plan_ok lib t P \<longleftrightarrow>
     pl_hashes P = map (\<lambda>c. left (full_hash lib (c @ pl_random P)) MAPHASH_LEN) (pl_chunks P) \<and>
     (\<forall>h \<in> set (pl_hashes P). length h = MAPHASH_LEN) \<and> distinct (pl_hashes P) \<and> zero_hash \<notin> set (pl_hashes P) \<and>
     0 < parts_of P \<and> parts_of P < 2 ^ 16 \<and> length (pl_hash P) = 32 \<and> length (pl_random P) = RANDOM_HASH_SIZE \<and>
     pl_hash P = full_hash lib (pl_data P @ pl_random P) \<and> pl_proof P = full_hash lib (pl_data P @ pl_hash P) \<and>
     length (pl_proof P) = 32 \<and>
     token_decrypt lib t (concat (pl_chunks P)) = Inr (pl_random P @ pl_data P)"

lemma plan_okD:
  assumes "plan_ok lib t P"
  shows "length (pl_hashes P) = parts_of P" and "h \<in> set (pl_hashes P) \<Longrightarrow> length h = MAPHASH_LEN"
    and "i < parts_of P \<Longrightarrow> j < parts_of P \<Longrightarrow> pl_hashes P ! i = pl_hashes P ! j \<longleftrightarrow> i = j"
    and "i < parts_of P \<Longrightarrow> pl_hashes P ! i \<noteq> zero_hash"
    and "i < parts_of P \<Longrightarrow> left (full_hash lib (pl_chunks P ! i @ pl_random P)) MAPHASH_LEN = pl_hashes P ! i"
    and "length (pl_hash P) = 32" "length (pl_random P) = RANDOM_HASH_SIZE" "length (pl_proof P) = 32"
      "0 < parts_of P" "parts_of P < 2 ^ 16"
proof -
  show "length (pl_hash P) = 32" "length (pl_random P) = RANDOM_HASH_SIZE" "length (pl_proof P) = 32"
    "0 < parts_of P" "parts_of P < 2 ^ 16" using assms unfolding plan_ok_def by blast+
  show len: "length (pl_hashes P) = parts_of P" using assms by (simp add: plan_ok_def)
  show "h \<in> set (pl_hashes P) \<Longrightarrow> length h = MAPHASH_LEN" using assms by (simp add: plan_ok_def)
  show "i < parts_of P \<Longrightarrow> j < parts_of P \<Longrightarrow> pl_hashes P ! i = pl_hashes P ! j \<longleftrightarrow> i = j"
    using assms len nth_eq_iff_index_eq [of "pl_hashes P"] unfolding plan_ok_def by metis
  show "i < parts_of P \<Longrightarrow> pl_hashes P ! i \<noteq> zero_hash"
    using assms len by (metis nth_mem plan_ok_def)
  show "i < parts_of P \<Longrightarrow> left (full_hash lib (pl_chunks P ! i @ pl_random P)) MAPHASH_LEN = pl_hashes P ! i"
    using assms by (simp add: plan_ok_def)
qed

text \<open>A hashmap of which the first \<open>h\<close> entries are known.\<close>

definition known_hashmap :: "plan \<Rightarrow> nat \<Rightarrow> bytes" where
  "known_hashmap P h = concat (take h (pl_hashes P)) @ replicate ((parts_of P - h) * MAPHASH_LEN) 0"

lemma length_known:
  assumes "plan_ok lib t P" and "h \<le> parts_of P"
  shows "length (known_hashmap P h) = parts_of P * MAPHASH_LEN"
proof -
  have "length (concat (take h (pl_hashes P))) = length (take h (pl_hashes P)) * MAPHASH_LEN"
    by (rule length_concat_uniform) (auto dest: in_set_takeD plan_okD(2) [OF assms(1)])
  then show ?thesis using assms(2) plan_okD(1) [OF assms(1)] by (simp add: known_hashmap_def diff_mult_distrib)
qed

lemma known_hashmap_at:
  assumes P: "plan_ok lib t P" and r: "r_hashmap r = known_hashmap P h" and h: "h \<le> parts_of P" and i: "i < parts_of P"
  shows "map_hash_at r i = (if i < h then pl_hashes P ! i else zero_hash)"
proof -
  have u: "\<forall>x \<in> set (take h (pl_hashes P)). length x = MAPHASH_LEN" using plan_okD(2) [OF P] by (auto dest: in_set_takeD)
  have lh: "length (take h (pl_hashes P)) = h" using plan_okD(1) [OF P] h by simp
  show ?thesis
  proof (cases "i < h")
    case True
    have "take MAPHASH_LEN (drop (i * MAPHASH_LEN) (known_hashmap P h)) = take h (pl_hashes P) ! i"
      unfolding known_hashmap_def by (rule concat_uniform [OF u]) (use lh True in simp)
    then show ?thesis using True r by (simp add: map_hash_at_def mid_take_drop)
  next
    case False
    have "length (concat (take h (pl_hashes P))) = h * MAPHASH_LEN" using length_concat_uniform [OF u] lh by simp
    then have "map_hash_at r i = take 4 (replicate ((parts_of P - h) * 4 - (i * 4 - h * 4)) 0)"
      using False r by (simp add: map_hash_at_def mid_take_drop known_hashmap_def)
    also have "\<dots> = replicate 4 0" using i False by (simp add: take_replicate min_def)
    finally show ?thesis using False by (simp add: eval_nat_numeral)
  qed
qed

lemma known_all: "plan_ok lib t P \<Longrightarrow> known_hashmap P (parts_of P) = concat (pl_hashes P)"
  by (simp add: known_hashmap_def plan_okD(1))

section \<open>The initiator\<close>

text \<open>The request for \<open>k\<close> parts from \<open>n\<close> on; \<open>ex\<close> asks for the map hashes after the first \<open>h\<close>.\<close>

definition request_for :: "plan \<Rightarrow> nat \<Rightarrow> nat \<Rightarrow> nat \<Rightarrow> bool \<Rightarrow> bytes" where
  "request_for P n k h ex =
     (if ex then HASHMAP_IS_EXHAUSTED # pl_hashes P ! (h - 1) else [HASHMAP_IS_NOT_EXHAUSTED]) @ pl_hash P
       @ concat (take k (drop n (pl_hashes P)))"

definition next_height :: "plan \<Rightarrow> nat \<Rightarrow> bool \<Rightarrow> nat" where
  "next_height P h ex = (if ex then min (h + HASHMAP_MAX_LEN) (parts_of P) else h)"

definition hashmap_segment :: "plan \<Rightarrow> nat \<Rightarrow> bytes" where
  "hashmap_segment P h = concat (take HASHMAP_MAX_LEN (drop h (pl_hashes P)))"

text \<open>The first \<open>n\<close> parts were sent, and the receiver was given the first \<open>h\<close> map hashes.\<close>

definition sender_at :: "plan \<Rightarrow> token \<Rightarrow> packet list \<Rightarrow> nat \<Rightarrow> nat \<Rightarrow> rrun \<Rightarrow> bool" where
  "sender_at P t ps n h s \<longleftrightarrow> (let r = rr_res s in
     link_fit t (rr_link s) \<and> r_initiator r \<and> r_status r \<in> {R_ADVERTISED, R_TRANSFERRING} \<and>
     length (r_parts r) = parts_of P \<and> n \<le> h \<and> h \<le> parts_of P \<and>
     (\<forall>i < parts_of P. r_parts r ! i \<noteq> None) \<and> (\<forall>i < parts_of P. n \<le> i \<longrightarrow> r_parts r ! i = Some (ps ! i)) \<and>
     r_hashmap r = concat (pl_hashes P) \<and> r_sent_parts r = n \<and> r_hash r = pl_hash P \<and>
     r_expected_proof r = pl_proof P \<and>
     r_receiver_min_consecutive_height r \<le> n \<and> r_receiver_min_consecutive_height r < h \<and>
     h \<le> r_receiver_min_consecutive_height r + COLLISION_GUARD_SIZE)"

lemma sender_map_hash:
  assumes "plan_ok lib t P" and "sender_at P t' ps n h s" and "i < parts_of P"
  shows "map_hash_at (rr_res s) i = pl_hashes P ! i"
  using known_hashmap_at [OF assms(1), of "rr_res s" "parts_of P" i] known_all [OF assms(1)] assms(2,3)
  by (simp add: sender_at_def Let_def)

lemma serve_skip:
  "\<forall>i \<in> set is. map_hash_at (rr_res s) i \<notin> set wanted \<Longrightarrow> serve_parts E now iv wanted is s = Inr (True, s)"
  by (induction "is") (simp_all add: serve_part_def)

lemma serve_append:
  "serve_parts E now iv wanted (xs @ ys) s =
     res_bind (serve_parts E now iv wanted xs s) (\<lambda>(ok, s1). if ok then serve_parts E now iv wanted ys s1 else Inr (False, s1))"
  by (induction xs arbitrary: s) (auto simp: res_bind_def split: sum.splits)

lemma serve_one:
  assumes P: "plan_ok lib t P" and s: "sender_at P t ps n h s" and n: "n < h"
    and ps: "\<forall>p \<in> set ps. \<not> p_sent p" and len: "length ps = parts_of P" and w: "pl_hashes P ! n \<in> set wanted"
  shows "\<exists>s'. serve_part E now iv wanted n s = Inr (True, s') \<and> sender_at P t ps (Suc n) h s' \<and>
    rr_events s' = rr_events s @ [Transmit (ps ! n)] \<and> r_status (rr_res s') = r_status (rr_res s) \<and>
    r_receiver_min_consecutive_height (rr_res s') = r_receiver_min_consecutive_height (rr_res s) \<and>
    r_progress_callback (rr_res s') = r_progress_callback (rr_res s)"
proof -
  have nN: "n < parts_of P" using s n by (simp add: sender_at_def Let_def)
  have p: "r_parts (rr_res s) ! n = Some (ps ! n)" and l: "link_fit t (rr_link s)"
    using s nN by (simp_all add: sender_at_def Let_def)
  have u: "\<not> p_sent (ps ! n)" using ps len nN by simp
  have open_link: "l_status (rr_link s) \<noteq> CLOSED" using l by (simp add: link_fit_def)
  define q where "q = (ps ! n)\<lparr>p_sent := re_outbound E (ps ! n)\<rparr>"
  define s1 where "s1 = emit [Transmit (ps ! n)] (s\<lparr>rr_link := (rr_link s)\<lparr>l_last_outbound := now\<rparr>\<rparr>)"
  define s' where "s' = upd (\<lambda>r. r\<lparr>r_parts := (r_parts r)[n := Some q], r_sent_parts := r_sent_parts r + 1,
                                     r_last_activity := now, r_last_part_sent := now\<rparr>) s1"
  have "send_part E now (ps ! n) s = (Inr q, s1)"
    using u open_link by (simp add: send_part_def q_def s1_def)
  then have "serve_part E now iv wanted n s = Inr (True, s')"
    using w u by (simp add: serve_part_def sender_map_hash [OF P s nN] p s'_def)
  moreover have "sender_at P t ps (Suc n) h s'"
    using s n by (auto simp: sender_at_def s'_def s1_def nth_list_update Let_def)
  ultimately show ?thesis by (simp add: s'_def s1_def)
qed

lemma serve_run:
  assumes P: "plan_ok lib t P" and ps: "\<forall>p \<in> set ps. \<not> p_sent p" and len: "length ps = parts_of P"
    and s: "sender_at P t ps n h s" and k: "n + k \<le> h" and w: "\<forall>i. n \<le> i \<and> i < n + k \<longrightarrow> pl_hashes P ! i \<in> set wanted"
  shows "\<exists>s'. serve_parts E now iv wanted [n..<n + k] s = Inr (True, s') \<and> sender_at P t ps (n + k) h s' \<and>
    rr_events s' = rr_events s @ map Transmit (take k (drop n ps)) \<and> r_status (rr_res s') = r_status (rr_res s) \<and>
    r_receiver_min_consecutive_height (rr_res s') = r_receiver_min_consecutive_height (rr_res s) \<and>
    r_progress_callback (rr_res s') = r_progress_callback (rr_res s)"
  using s k w
proof (induction k arbitrary: n s)
  case (Suc k)
  then have n: "n < h" "n < length ps" using len by (auto simp: sender_at_def Let_def)
  obtain s1 where s1: "serve_part E now iv wanted n s = Inr (True, s1)" "sender_at P t ps (Suc n) h s1"
    "rr_events s1 = rr_events s @ [Transmit (ps ! n)]" "r_status (rr_res s1) = r_status (rr_res s)"
    "r_receiver_min_consecutive_height (rr_res s1) = r_receiver_min_consecutive_height (rr_res s)"
    "r_progress_callback (rr_res s1) = r_progress_callback (rr_res s)"
    using serve_one [OF P Suc.prems(1) n(1) ps len, of wanted E now iv] Suc.prems(3) by auto
  from Suc.IH [OF s1(2)] Suc.prems obtain s' where "serve_parts E now iv wanted [Suc n..<Suc n + k] s1 = Inr (True, s')"
    "sender_at P t ps (Suc n + k) h s'" "rr_events s' = rr_events s1 @ map Transmit (take k (drop (Suc n) ps))"
    "r_status (rr_res s') = r_status (rr_res s1)"
    "r_receiver_min_consecutive_height (rr_res s') = r_receiver_min_consecutive_height (rr_res s1)"
    "r_progress_callback (rr_res s') = r_progress_callback (rr_res s1)" by auto
  moreover have "[n..<n + Suc k] = n # [Suc n..<Suc n + k]" by (simp add: upt_rec)
  moreover have "take (Suc k) (drop n ps) = ps ! n # take k (drop (Suc n) ps)" using n(2) by (simp add: Cons_nth_drop_Suc [symmetric])
  ultimately show ?case using s1 by simp
qed simp

lemma upt_split: "a \<le> b \<Longrightarrow> b \<le> c \<Longrightarrow> [a..<c] = [a..<b] @ [b..<c]"
  by (metis le_Suc_ex upt_add_eq_append)

text \<open>The search of a request: only the requested parts are sent.\<close>

lemma serve_search:
  assumes P: "plan_ok lib t P" and ps: "\<forall>p \<in> set ps. \<not> p_sent p" and len: "length ps = parts_of P"
    and s: "sender_at P t ps n h s" and k: "n + k \<le> h"
  defines "st \<equiv> r_receiver_min_consecutive_height (rr_res s)"
  shows "\<exists>s'. serve_parts E now iv (take k (drop n (pl_hashes P))) [st..<min (st + COLLISION_GUARD_SIZE) (parts_of P)] s
      = Inr (True, s') \<and> sender_at P t ps (n + k) h s' \<and>
    rr_events s' = rr_events s @ map Transmit (take k (drop n ps)) \<and> r_status (rr_res s') = r_status (rr_res s) \<and>
    r_receiver_min_consecutive_height (rr_res s') = st \<and>
    r_progress_callback (rr_res s') = r_progress_callback (rr_res s)"
proof -
  define e where "e = min (st + COLLISION_GUARD_SIZE) (parts_of P)"
  define W where "W = take k (drop n (pl_hashes P))"
  have st: "st \<le> n" "h \<le> e" "h \<le> parts_of P" using s by (simp_all add: sender_at_def st_def e_def Let_def)
  have lenh: "length (pl_hashes P) = parts_of P" by (rule plan_okD(1) [OF P])
  have W: "pl_hashes P ! i \<in> set W \<longleftrightarrow> n \<le> i \<and> i < n + k" if "i < parts_of P" for i
  proof
    assume "pl_hashes P ! i \<in> set W"
    then obtain j where "j < k" "n + j < parts_of P" "pl_hashes P ! i = pl_hashes P ! (n + j)"
      using lenh st k by (auto simp: W_def in_set_conv_nth)
    with plan_okD(3) [OF P that, of "n + j"] show "n \<le> i \<and> i < n + k" by simp
  next
    assume a: "n \<le> i \<and> i < n + k"
    then have "W ! (i - n) = pl_hashes P ! i" "i - n < length W" using lenh st k that by (auto simp: W_def)
    then show "pl_hashes P ! i \<in> set W" by (metis nth_mem)
  qed
  have split: "[st..<e] = [st..<n] @ [n..<n + k] @ [n + k..<e]"
    using st k upt_split [of st n e] upt_split [of n "n + k" e] by simp
  obtain s1 where s1: "serve_parts E now iv W [n..<n + k] s = Inr (True, s1)" "sender_at P t ps (n + k) h s1"
    "rr_events s1 = rr_events s @ map Transmit (take k (drop n ps))" "r_status (rr_res s1) = r_status (rr_res s)"
    "r_receiver_min_consecutive_height (rr_res s1) = st" "r_progress_callback (rr_res s1) = r_progress_callback (rr_res s)"
    using serve_run [OF P ps len s k, of W E now iv] W st k unfolding st_def by fastforce
  have "serve_parts E now iv W [st..<n] s = Inr (True, s)"
    by (rule serve_skip) (use W sender_map_hash [OF P s] st k in auto)
  moreover have "serve_parts E now iv W [n + k..<e] s1 = Inr (True, s1)"
    by (rule serve_skip) (use W sender_map_hash [OF P s1(2)] e_def in auto)
  ultimately show ?thesis
    using s1 unfolding e_def [symmetric] W_def [symmetric] split by (simp add: serve_append)
qed

lemma seen_entries_upt:
  assumes "st \<le> j" and "j < e" and "map_hash_at r j = x" and "\<forall>i. st \<le> i \<and> i < j \<longrightarrow> map_hash_at r i \<noteq> x"
  shows "seen_entries r x [st..<e] = j + 1 - st"
  using assms
proof (induction "j - st" arbitrary: st)
  case 0
  then show ?case by (simp add: upt_rec)
next
  case (Suc d)
  then have "[st..<e] = st # [Suc st..<e]" "map_hash_at r st \<noteq> x" by (simp_all add: upt_rec)
  with Suc show ?case by (simp add: Suc_diff_le)
qed

lemma length_segment: "plan_ok lib t P \<Longrightarrow> length (hashmap_segment P h) \<le> HASHMAP_MAX_LEN * MAPHASH_LEN"
proof -
  assume P: "plan_ok lib t P"
  have "length (hashmap_segment P h) = length (take HASHMAP_MAX_LEN (drop h (pl_hashes P))) * MAPHASH_LEN"
    unfolding hashmap_segment_def by (rule length_concat_uniform) (auto dest!: in_set_takeD in_set_dropD plan_okD(2) [OF P])
  then show ?thesis by simp
qed

lemma segment_slice:
  assumes P: "plan_ok lib t P"
  shows "mid (concat (pl_hashes P)) (h * MAPHASH_LEN) (m * MAPHASH_LEN) = concat (take m (drop h (pl_hashes P)))"
proof -
  have d: "drop (h * 4) (concat hs) = concat (drop h hs)" if "\<forall>x \<in> set hs. length x = 4" for hs :: "bytes list" and h
    using that
  proof (induction hs arbitrary: h)
    case (Cons x hs)
    then show ?case by (cases h) (simp_all add: add.commute)
  qed simp
  have t: "take (m * 4) (concat hs) = concat (take m hs)" if "\<forall>x \<in> set hs. length x = 4" for hs :: "bytes list"
    using that
  proof (induction hs arbitrary: m)
    case (Cons x hs)
    then show ?case by (cases m) (simp_all add: add.commute)
  qed simp
  show ?thesis
    using d [of "pl_hashes P" h] t [of "drop h (pl_hashes P)"] plan_okD(2) [OF P]
    by (auto simp: mid_take_drop dest: in_set_dropD)
qed

text \<open>The hashmap update for the height \<open>h\<close>, as a message.\<close>

definition hmu_payload :: "msgpack \<Rightarrow> plan \<Rightarrow> nat \<Rightarrow> bytes" where
  "hmu_payload M P h =
     pl_hash P @ mp_pack M [MP_array 2, MP_uint (h div HASHMAP_MAX_LEN), MP_bin (hashmap_segment P h)]"

definition hmu_packet :: "resource_env \<Rightarrow> plan \<Rightarrow> token \<Rightarrow> nat \<Rightarrow> packet \<Rightarrow> bool" where
  "hmu_packet E P t h p \<longleftrightarrow>
     p_packet_type (arrives (re_lib E) p) = DATA \<and> p_context (arrives (re_lib E) p) = RESOURCE_HMU \<and>
     (\<forall>m. link_fit t m \<longrightarrow> link_decrypt (re_lib E) m (p_data (arrives (re_lib E) p))
        = Inr (hmu_payload (re_msgpack E) P h, m\<lparr>l_token := Some t\<rparr>))"

lemma send_hashmap_ok:
  assumes lib: "crypto_ok (re_lib E)" and M: "msgpack_ok (re_msgpack E)" and tok: "new_token key MODE_AES = Inr t"
    and iv: "length (iv 0) = 16" and P: "plan_ok (re_lib E) t P"
    and s: "sender_at P t ps h h s" and h: "h < parts_of P" "HASHMAP_MAX_LEN dvd h" "0 < h"
  defines "st \<equiv> r_receiver_min_consecutive_height (rr_res s)"
  shows "\<exists>p s'. send_hashmap E now iv (pl_hashes P ! (h - 1)) [st..<min (st + COLLISION_GUARD_SIZE) (parts_of P)] s = (True, s') \<and>
    sender_at P t ps h (next_height P h True) s' \<and> rr_events s' = rr_events s @ [Transmit p] \<and> hmu_packet E P t h p \<and>
    r_status (rr_res s') = r_status (rr_res s) \<and> r_progress_callback (rr_res s') = r_progress_callback (rr_res s)"
proof -
  let ?r = "rr_res s"
  define e where "e = min (st + COLLISION_GUARD_SIZE) (parts_of P)"
  have st: "st < h" "h \<le> e" using s h by (simp_all add: sender_at_def st_def e_def Let_def)
  have "seen_entries ?r (pl_hashes P ! (h - 1)) [st..<e] = h - 1 + 1 - st"
  proof (rule seen_entries_upt)
    show "map_hash_at ?r (h - 1) = pl_hashes P ! (h - 1)" using sender_map_hash [OF P s] h by simp
    show "\<forall>i. st \<le> i \<and> i < h - 1 \<longrightarrow> map_hash_at ?r i \<noteq> pl_hashes P ! (h - 1)"
      using sender_map_hash [OF P s] plan_okD(3) [OF P, of _ "h - 1"] h by auto
  qed (use st h in auto)
  then have pi: "r_receiver_min_consecutive_height ?r + seen_entries ?r (pl_hashes P ! (h - 1)) [st..<e] = h"
    using st h unfolding st_def by simp
  define s1 where "s1 = upd (\<lambda>r. r\<lparr>r_receiver_min_consecutive_height := h - 1 - WINDOW_MAX\<rparr>) s"
  define seg where "seg = h div HASHMAP_MAX_LEN"
  have seg: "seg * HASHMAP_MAX_LEN = h" using h by (simp add: seg_def)
  have len: "length (r_parts (rr_res s1)) = parts_of P" "r_hashmap (rr_res s1) = concat (pl_hashes P)" "r_hash (rr_res s1) = pl_hash P"
    using s by (simp_all add: s1_def sender_at_def Let_def)
  have "mid (concat (pl_hashes P)) (h * 4) ((min ((seg + 1) * HASHMAP_MAX_LEN) (parts_of P) - h) * 4) = hashmap_segment P h"
  proof -
    have "(seg + 1) * HASHMAP_MAX_LEN = h + HASHMAP_MAX_LEN" using seg by (simp add: distrib_right)
    moreover have "take (min (74 + h) (parts_of P) - h) (drop h (pl_hashes P)) = take 74 (drop h (pl_hashes P))"
      using plan_okD(1) [OF P] by (cases "74 + h \<le> parts_of P") (simp_all add: min_def)
    ultimately show ?thesis by (simp add: segment_slice [OF P] hashmap_segment_def)
  qed
  then have payload: "r_hash (rr_res s1) @ mp_pack (re_msgpack E) [MP_array 2, MP_uint seg,
      MP_bin (mid (r_hashmap (rr_res s1)) (seg * HASHMAP_MAX_LEN * MAPHASH_LEN)
         ((min ((seg + 1) * HASHMAP_MAX_LEN) (length (r_parts (rr_res s1))) - seg * HASHMAP_MAX_LEN) * MAPHASH_LEN))]
      = hmu_payload (re_msgpack E) P h"
    by (simp only: len seg hmu_payload_def seg_def [symmetric])
  have "h < 2 ^ 16" using h plan_okD(10) [OF P] by linarith
  then have "seg < 2 ^ 16" using div_le_dividend [of h HASHMAP_MAX_LEN] unfolding seg_def by linarith
  then have "mp_size (MP_uint seg) \<le> 3" by simp
  moreover have "mp_size (MP_bin (hashmap_segment P h)) \<le> 299" using length_segment [OF P, of h] by simp
  moreover have "length (hmu_payload (re_msgpack E) P h)
      = 32 + (mp_size (MP_array 2) + (mp_size (MP_uint seg) + mp_size (MP_bin (hashmap_segment P h))))"
    unfolding hmu_payload_def seg_def [symmetric] using plan_okD(6) [OF P] msgpack_okD(2) [OF M] by simp
  ultimately have "length (hmu_payload (re_msgpack E) P h) \<le> LINK_MDU" by simp
  then obtain p l' where p: "res_send E now (iv 0) DATA RESOURCE_HMU (hmu_payload (re_msgpack E) P h) s1
      = (Inr p, emit [Transmit p] (s1\<lparr>rr_link := l'\<rparr>))" "link_fit t l'" "hmu_packet E P t h p"
    using res_send_encrypted [OF lib _ tok iv, of s1 "hmu_payload (re_msgpack E) P h" RESOURCE_HMU now] s
    unfolding hmu_packet_def by (auto simp: s1_def sender_at_def Let_def)
  define s' where "s' = upd (\<lambda>r. r\<lparr>r_last_activity := now\<rparr>) (emit [Transmit p] (s1\<lparr>rr_link := l'\<rparr>))"
  have "h mod HASHMAP_MAX_LEN = 0" using h(2) by simp
  then have "send_hashmap E now iv (pl_hashes P ! (h - 1)) [st..<e] s = (True, s')"
    unfolding send_hashmap_def Let_def pi s1_def [symmetric] seg_def [symmetric] payload p(1) by (simp add: s'_def)
  moreover have "sender_at P t ps h (next_height P h True) s'"
    using s h p(2) by (auto simp: sender_at_def s'_def s1_def next_height_def Let_def)
  ultimately show ?thesis
    unfolding e_def [symmetric] using p(3) by (intro exI [of _ p] exI [of _ s']) (simp add: s'_def s1_def)
qed

text \<open>A request is answered with the requested parts and, if asked for, the next map hashes.\<close>

fun transmitted :: "resource_event list \<Rightarrow> packet list" where
  "transmitted [] = []"
| "transmitted (Transmit p # evs) = p # transmitted evs"
| "transmitted (_ # evs) = transmitted evs"

lemma transmitted_append [simp]: "transmitted (xs @ ys) = transmitted xs @ transmitted ys"
  by (induction xs rule: transmitted.induct) simp_all

lemma transmitted_map [simp]: "transmitted (map Transmit ps) = ps"
  by (induction ps) simp_all

text \<open>The events of a transfer that goes on: packets and progress.  \<open>sends es ps es'\<close>: a step sends \<open>ps\<close>.\<close>

definition quiet :: "resource_event list \<Rightarrow> bool" where
  "quiet evs \<longleftrightarrow> (\<forall>e \<in> set evs. e = Progress_callback \<or> (\<exists>p. e = Transmit p))"

definition sends :: "resource_event list \<Rightarrow> packet list \<Rightarrow> resource_event list \<Rightarrow> bool" where
  "sends es ps es' \<longleftrightarrow> (\<exists>evs. es' = es @ evs \<and> quiet evs \<and> transmitted evs = ps)"

text \<open>The last step of a receiver: the proof is sent and the resource concluded.\<close>

definition finishes :: "resource_event list \<Rightarrow> packet \<Rightarrow> resource_event list \<Rightarrow> bool" where
  "finishes es p es' \<longleftrightarrow> (\<exists>evs cb. es' = es @ evs @ [Transmit p, Cache p, Link_concluded] @ cb \<and> quiet evs \<and>
     transmitted evs = [] \<and> (cb = [] \<or> cb = [Concluded_callback]))"

lemma quiet_simps [simp]: "quiet []" "quiet (xs @ ys) \<longleftrightarrow> quiet xs \<and> quiet ys" "quiet [Progress_callback]" "quiet [Transmit p]"
  "quiet (map Transmit ps)"
  by (auto simp: quiet_def)

lemma sends_trans: "sends es ps es1 \<Longrightarrow> sends es1 qs es2 \<Longrightarrow> sends es (ps @ qs) es2"
  by (fastforce simp: sends_def)

lemma sends_simps [simp]: "sends es [] es" "sends es [p] (es @ [Transmit p])" "sends es [] (es @ [Progress_callback])"
  by (simp_all add: sends_def)

lemma sends_empty: "sends [] ps es \<longleftrightarrow> quiet es \<and> transmitted es = ps"
  by (auto simp: sends_def)

lemma sends_finishes:
  assumes "sends es [] es1" and "finishes es1 p es2"
  shows "finishes es p es2"
proof -
  obtain evs evs1 cb where "es1 = es @ evs" "quiet evs" "transmitted evs = []" "quiet evs1" "transmitted evs1 = []"
    "es2 = es1 @ evs1 @ [Transmit p, Cache p, Link_concluded] @ cb" "cb = [] \<or> cb = [Concluded_callback]"
    using assms unfolding sends_def finishes_def by blast
  then show ?thesis unfolding finishes_def by (intro exI [of _ "evs @ evs1"] exI [of _ cb]) simp
qed

definition request_ok :: "plan \<Rightarrow> nat \<Rightarrow> nat \<Rightarrow> nat \<Rightarrow> bool \<Rightarrow> bool" where
  "request_ok P n k h ex \<longleftrightarrow> n + k \<le> h \<and> h \<le> parts_of P \<and> (ex \<longrightarrow> n + k = h \<and> HASHMAP_MAX_LEN dvd h \<and> h < parts_of P \<and> 0 < h)
     \<and> (k = 0 \<longrightarrow> ex)"

definition sender_done :: "plan \<Rightarrow> token \<Rightarrow> rrun \<Rightarrow> bool" where
  "sender_done P t s \<longleftrightarrow> link_fit t (rr_link s) \<and> r_status (rr_res s) = R_AWAITING_PROOF \<and> r_hash (rr_res s) = pl_hash P
     \<and> r_expected_proof (rr_res s) = pl_proof P"

lemma sender_prepare:
  assumes "sender_at P t ps n h s"
  shows "sender_at P t ps n h (upd (\<lambda>r. r\<lparr>r_rtt := x, r_status := R_TRANSFERRING, r_retries_left := r_max_retries r\<rparr>) s)"
  using assms by (simp add: sender_at_def Let_def)

lemma request_ok_answer:
  assumes lib: "crypto_ok (re_lib E)" and M: "msgpack_ok (re_msgpack E)" and tok: "new_token key MODE_AES = Inr t"
    and iv: "\<And>i. length (iv i) = 16" and P: "plan_ok (re_lib E) t P"
    and ps: "\<forall>p \<in> set ps. \<not> p_sent p" "length ps = parts_of P"
    and s: "sender_at P t ps n h s" "rr_events s = []" and req: "request_ok P n k h ex"
  shows "\<exists>s' hmu. request E now iv (request_for P n k h ex) s = Inr s' \<and>
    transmitted (rr_events s') = take k (drop n ps) @ hmu \<and> quiet (rr_events s') \<and>
    (if ex then \<exists>p. hmu = [p] \<and> hmu_packet E P t h p else hmu = []) \<and>
    (if n + k = parts_of P then sender_done P t s' else sender_at P t ps (n + k) (next_height P h ex) s')"
proof -
  let ?pt = "request_for P n k h ex"
  have lenh: "length (pl_hashes P) = parts_of P" by (rule plan_okD(1) [OF P])
  have four: "\<forall>x \<in> set (take k (drop n (pl_hashes P))). length x = 4"
    by (auto dest!: in_set_takeD in_set_dropD plan_okD(2) [OF P])
  have h: "length (pl_hash P) = 32" "ex \<Longrightarrow> length (pl_hashes P ! (h - 1)) = 4"
    using req plan_okD(6) [OF P] plan_okD(2) [OF P, OF nth_mem, of "h - 1"] lenh by (auto simp: request_ok_def)
  define s1 where "s1 = upd (\<lambda>r. r\<lparr>r_rtt := (if r_rtt r = 0 then now - r_adv_sent r else r_rtt r),
                            r_status := R_TRANSFERRING, r_retries_left := r_max_retries r\<rparr>) s"
  have s1: "sender_at P t ps n h s1" "rr_events s1 = []" "r_status (rr_res s1) = R_TRANSFERRING"
    using sender_prepare [OF s(1)] s(2) by (simp_all add: s1_def)
  define st where "st = r_receiver_min_consecutive_height (rr_res s1)"
  define search where "search = [st..<min (st + COLLISION_GUARD_SIZE) (parts_of P)]"
  have lens: "length (r_parts (rr_res s1)) = parts_of P" using s1(1) by (simp add: sender_at_def Let_def)
  have nk: "n + k \<le> h" using req by (simp add: request_ok_def)
  obtain s2 where s2: "serve_parts E now (iv 0) (take k (drop n (pl_hashes P))) search s1 = Inr (True, s2)"
    "sender_at P t ps (n + k) h s2" "rr_events s2 = map Transmit (take k (drop n ps))"
    "r_status (rr_res s2) = R_TRANSFERRING" "r_receiver_min_consecutive_height (rr_res s2) = st"
    "r_progress_callback (rr_res s2) = r_progress_callback (rr_res s1)"
    using serve_search [OF P ps s1(1) nk, of E now "iv 0"] s1(2,3) unfolding search_def st_def by auto
  have wanted: "chop 4 (mid_end ?pt ((if ex then 5 else 1) + 32)) = take k (drop n (pl_hashes P))"
    using h four by (simp add: request_for_def mid_end_drop chop_concat)
  have head: "?pt \<noteq> []" "hd ?pt = HASHMAP_IS_EXHAUSTED \<longleftrightarrow> ex" "length ?pt \<ge> (if ex then 5 else 1) + 32"
    using h by (simp_all add: request_for_def)
  have last: "ex \<Longrightarrow> mid ?pt 1 4 = pl_hashes P ! (h - 1)"
    using h by (simp add: request_for_def mid_take_drop)
  have nf: "r_status (rr_res s) \<noteq> R_FAILED" using s(1) by (auto simp: sender_at_def Let_def)
  have eq: "request E now iv ?pt s =
      (case (if ex then send_hashmap E now (\<lambda>k. iv (k + 1)) (pl_hashes P ! (h - 1)) search s2 else (True, s2)) of
         (False, s3) \<Rightarrow> Inr s3
       | (True, s3) \<Rightarrow> Inr (finish_request s3))"
  proof -
    have "request E now iv ?pt s = res_bind (serve_parts E now (iv 0) (chop 4 (mid_end ?pt ((if ex then 5 else 1) + 32))) search s1)
        (\<lambda>(ok, s2). if \<not> ok then Inr s2
           else (case (if ex then send_hashmap E now (\<lambda>k. iv (k + 1)) (mid ?pt 1 4) search s2 else (True, s2)) of
                   (False, s3) \<Rightarrow> Inr s3
                 | (True, s3) \<Rightarrow> Inr (finish_request s3)))"
      using head nf unfolding request_def s1_def [symmetric] Let_def search_def st_def lens [symmetric]
      by (cases ex) (simp_all cong: if_cong)
    then show ?thesis using last by (simp only: wanted s2(1) res_bind_simps prod.case not_True_eq_False if_False cong: if_cong)
  qed
  have fin: "transmitted (rr_events (finish_request s3)) = transmitted (rr_events s3) \<and>
      quiet (rr_events (finish_request s3)) = quiet (rr_events s3) \<and>
      (if n + k = parts_of P then sender_done P t (finish_request s3) else sender_at P t ps (n + k) h' (finish_request s3))"
    if "sender_at P t ps (n + k) h' s3" for s3 h'
  proof -
    have f: "r_sent_parts (rr_res s3) = n + k" "length (r_parts (rr_res s3)) = parts_of P" "r_hash (rr_res s3) = pl_hash P"
      "r_expected_proof (rr_res s3) = pl_proof P" "link_fit t (rr_link s3)"
      using that by (simp_all add: sender_at_def Let_def)
    have "sender_at P t ps (n + k) h' (emit [Progress_callback] s3)" using that by (simp add: sender_at_def Let_def)
    moreover have "quiet (rr_events (finish_request s3)) = quiet (rr_events s3)"
      "transmitted (rr_events (finish_request s3)) = transmitted (rr_events s3)"
      by (simp_all add: finish_request_def Let_def)
    ultimately show ?thesis using that f by (simp only:) (simp add: finish_request_def sender_done_def Let_def)
  qed
  show ?thesis
  proof (cases ex)
    case False
    have "request E now iv ?pt s = Inr (finish_request s2)" unfolding eq using False by simp
    then show ?thesis using fin [OF s2(2)] s2(3) False
      by (intro exI [of _ "finish_request s2"] exI [of _ "[]"]) (simp add: next_height_def)
  next
    case True
    then have hh: "n + k = h" "h < parts_of P" "HASHMAP_MAX_LEN dvd h" "0 < h" using req by (simp_all add: request_ok_def)
    obtain p s3 where s3: "send_hashmap E now (\<lambda>k. iv (k + 1)) (pl_hashes P ! (h - 1)) search s2 = (True, s3)"
      "sender_at P t ps h (next_height P h True) s3" "rr_events s3 = rr_events s2 @ [Transmit p]" "hmu_packet E P t h p"
      using send_hashmap_ok [OF lib M tok _ P, of "\<lambda>k. iv (k + 1)" ps h s2 now] s2(2,5) hh iv unfolding search_def by auto
    have "sender_at P t ps (n + k) (next_height P h True) s3" using s3(2) hh(1) by simp
    note f = fin [OF this]
    have "request E now iv ?pt s = Inr (finish_request s3)" unfolding eq using True s3(1) by simp
    then show ?thesis using f s3(3,4) s2(3) True
      by (intro exI [of _ "finish_request s3"] exI [of _ "[p]"]) simp
  qed
qed

end
