(* ===== verification/Link_Resources.thy ===== *)
theory Link_Resources
  imports Resource_Receiver
begin

text \<open>
  A link with the resources and requests it carries (\<open>Link.cpp\<close>): the tables of incoming and outgoing
  resources, the dispatch of resource packets to them, requests and responses as packets or resources,
  the receipts of pending requests, and the tick of the watchdogs.

  \<open>Link.link_receive\<close> decrypts a packet and says what came in; \<open>end_receive\<close> hands it on.  Objects are
  shared pointers in the source; here \<open>le_objects\<close> maps the address of a resource to its state, and the
  tables are sets of addresses in their order.  New objects take ascending addresses.  \<open>iv k\<close> are the
  random octets of the operation on the object at address \<open>k\<close>, \<open>iv 0\<close> those of the link.
\<close>

section \<open>Envelopes\<close>

definition pack_response_envelope :: "msgpack \<Rightarrow> bytes \<Rightarrow> bytes \<Rightarrow> bytes" where
  "pack_response_envelope M request_id raw = mp_pack M [MP_array 2, MP_bin request_id] @ raw"

definition pack_request_envelope :: "msgpack \<Rightarrow> real \<Rightarrow> bytes \<Rightarrow> bytes \<Rightarrow> bytes" where
  "pack_request_envelope M timestamp path_hash raw =
     mp_pack M [MP_array 3, MP_float64 timestamp, MP_bin path_hash] @ raw"

text \<open>The octets after the parsed prefix, whose length is that of the prefix packed anew.\<close>

definition after_prefix :: "msgpack \<Rightarrow> mp_item list \<Rightarrow> bytes \<Rightarrow> bytes option" where
  "after_prefix M prefix packed =
     (let cursor = length (mp_pack M prefix)
      in if cursor > length packed then None else Some (drop cursor packed))"

definition unpack_response_envelope :: "msgpack \<Rightarrow> bytes \<Rightarrow> (bytes \<times> bytes) option" where
  "unpack_response_envelope M packed =
     (if length packed < 2 then None
      else
        (case mp_feed M packed of
           MP_array n # MP_bin rid # _ \<Rightarrow>
             if n < 2 then None
             else map_option (Pair rid) (after_prefix M [MP_array n, MP_bin rid] packed)
         | _ \<Rightarrow> None))"

record resource_request =
  rq_requested_at :: real
  rq_path_hash :: bytes
  rq_request_data :: bytes

definition unpack_request_envelope :: "msgpack \<Rightarrow> bytes \<Rightarrow> resource_request option" where
  "unpack_request_envelope M packed =
     (if length packed < 2 then None
      else
        (case mp_feed M packed of
           MP_array n # t # MP_bin ph # _ \<Rightarrow>
             if n < 3 then None
             else
               (case t of
                  MP_float32 x \<Rightarrow>
                    map_option (resource_request.make x ph) (after_prefix M [MP_array n, MP_float32 x, MP_bin ph] packed)
                | MP_float64 x \<Rightarrow>
                    map_option (resource_request.make x ph) (after_prefix M [MP_array n, MP_float64 x, MP_bin ph] packed)
                | _ \<Rightarrow> None)
         | _ \<Rightarrow> None))"

section \<open>Requests\<close>

datatype request_status = RQ_FAILED | RQ_SENT | RQ_DELIVERED | RQ_RECEIVING | RQ_READY

text \<open>\<open>q_packet\<close>: the status of the packet receipt, where the request was a packet: delivered or not.\<close>

record request_receipt =
  q_request_id :: bytes
  q_packet :: "bool option"
  q_request_size :: nat
  q_response :: bytes
  q_response_size :: nat
  q_response_transfer_size :: nat
  q_status :: request_status
  q_progress :: nat
  q_timeout :: real
  q_started_at :: real
  q_sent_at :: real
  q_concluded_at :: real
  q_response_concluded_at :: real
  q_progress_callback :: bool
  q_response_callback :: bool
  q_failed_callback :: bool

datatype resource_strategy = ACCEPT_NONE | ACCEPT_APP | ACCEPT_ALL

datatype end_event =
    Sent packet
  | Cached packet
  | Notice link_event
  | App_resource bytes
  | App_started nat
  | App_progress nat
  | App_concluded nat
  | App_request_progress nat
  | App_response nat
  | App_failed nat

record link_end =
  le_link :: link
  le_objects :: "nat \<Rightarrow> resource option"
  le_incoming :: "nat list"
  le_outgoing :: "nat list"
  le_receipts :: "nat \<Rightarrow> request_receipt option"
  le_pending :: "nat list"
  le_next :: nat
  le_strategy :: resource_strategy
  le_resource_callback :: bool
  le_started_callback :: bool
  le_concluded_callback :: bool
  le_handlers :: "bytes \<Rightarrow> request_handler option"
  le_events :: "end_event list"

definition report :: "end_event list \<Rightarrow> link_end \<Rightarrow> link_end" where
  "report evs le = le\<lparr>le_events := le_events le @ evs\<rparr>"

definition new_end :: "link \<Rightarrow> link_end" where
  "new_end l =
     \<lparr>le_link = l, le_objects = (\<lambda>_. None), le_incoming = [], le_outgoing = [], le_receipts = (\<lambda>_. None),
      le_pending = [], le_next = 1, le_strategy = ACCEPT_NONE, le_resource_callback = False,
      le_started_callback = False, le_concluded_callback = False, le_handlers = (\<lambda>_. None), le_events = []\<rparr>"

definition object :: "link_end \<Rightarrow> nat \<Rightarrow> resource" where
  "object le k = (case le_objects le k of Some r \<Rightarrow> r | None \<Rightarrow> resource_data)"

text \<open>An operation on the object at an address: its new state and its events.\<close>

definition on_object :: "(rrun \<Rightarrow> rrun result) \<Rightarrow> nat \<Rightarrow> link_end \<Rightarrow> (resource_event list \<times> link_end) result" where
  "on_object f k le =
     res_bind (f \<lparr>rr_res = object le k, rr_link = le_link le, rr_events = []\<rparr>) (\<lambda>s.
       Inr (rr_events s, le\<lparr>le_link := rr_link s, le_objects := (le_objects le)(k := Some (rr_res s))\<rparr>))"

text \<open>What an operation does to the tables and the outside, apart from conclusions and teardown.\<close>

fun table_event :: "nat \<Rightarrow> resource_event \<Rightarrow> link_end \<Rightarrow> link_end" where
  "table_event k (Transmit p) le = report [Sent p] le"
| "table_event k (Cache p) le = report [Cached p] le"
| "table_event k Register_incoming le = le\<lparr>le_incoming := insort_insert k (le_incoming le)\<rparr>"
| "table_event k Register_outgoing le = le\<lparr>le_outgoing := insort_insert k (le_outgoing le)\<rparr>"
| "table_event k Forget_incoming le = le\<lparr>le_incoming := removeAll k (le_incoming le)\<rparr>"
| "table_event k Forget_outgoing le = le\<lparr>le_outgoing := removeAll k (le_outgoing le)\<rparr>"
| "table_event k Started_callback le = report [App_started k] le"
| "table_event k Progress_callback le = report [App_progress k] le"
| "table_event k Concluded_callback le = report [App_concluded k] le"
| "table_event k Link_concluded le =
     le\<lparr>le_incoming := removeAll k (le_incoming le), le_outgoing := removeAll k (le_outgoing le)\<rparr>"
| "table_event k Link_teardown le = le"

definition table_events :: "nat \<Rightarrow> resource_event list \<Rightarrow> link_end \<Rightarrow> link_end" where
  "table_events k evs le = fold (table_event k) evs le"

text \<open>A packet of the link itself.\<close>

definition end_send :: "resource_env \<Rightarrow> real \<Rightarrow> bytes \<Rightarrow> packet_type \<Rightarrow> byte \<Rightarrow> bytes \<Rightarrow> link_end \<Rightarrow> packet result \<times> link_end" where
  "end_send E now iv ty ctx dat le =
     (case res_send E now iv ty ctx dat \<lparr>rr_res = resource_data, rr_link = le_link le, rr_events = []\<rparr> of
        (x, s) \<Rightarrow> (x, table_events 0 (rr_events s) (le\<lparr>le_link := rr_link s\<rparr>)))"

text \<open>A new outgoing resource.  It has no callbacks, so starting it concludes nothing.\<close>

definition start_resource ::
  "resource_env \<Rightarrow> real \<Rightarrow> bytes \<Rightarrow> (nat \<Rightarrow> nat \<Rightarrow> bytes) \<Rightarrow> (resource \<Rightarrow> resource) \<Rightarrow> bytes \<Rightarrow> link_end \<Rightarrow> (nat \<times> link_end) result" where
  "start_resource E now rnd iv setup dat le =
     (let k = le_next le;
          le1 = le\<lparr>le_next := k + 1, le_objects := (le_objects le)(k := Some (setup (new_resource dat (le_link le))))\<rparr>
      in res_bind (on_object (start E now rnd (iv k) (le_outgoing le1 = [])) k le1) (\<lambda>(evs, le2).
           Inr (k, table_events k evs le2)))"

text \<open>
  \<open>handle_request\<close>: the answer of the handler goes out as a packet or as a resource.  An exception comes
  with the state it leaves.
\<close>

definition respond ::
  "resource_env \<Rightarrow> real \<Rightarrow> bytes \<Rightarrow> (nat \<Rightarrow> nat \<Rightarrow> bytes) \<Rightarrow> bytes \<Rightarrow> bytes \<Rightarrow> link_end \<Rightarrow> unit result \<times> link_end" where
  "respond E now rnd iv request_id response le =
     (let packed = pack_response_envelope (re_msgpack E) request_id response
      in if length packed \<le> LINK_MDU then
           (case end_send E now (iv 0 0) DATA RESPONSE packed le of
              (Inl e, le1) \<Rightarrow> (Inl e, le1)
            | (Inr _, le1) \<Rightarrow> (Inr (), le1))
         else
           (case start_resource E now rnd iv (\<lambda>r. r\<lparr>r_request_id := request_id, r_is_response := True\<rparr>) packed le of
              Inl e \<Rightarrow> (Inl e, le)
            | Inr (_, le1) \<Rightarrow> (Inr (), le1)))"

definition answer_request ::
  "resource_env \<Rightarrow> real \<Rightarrow> bytes \<Rightarrow> (nat \<Rightarrow> nat \<Rightarrow> bytes) \<Rightarrow> bytes \<Rightarrow> resource_request \<Rightarrow> link_end \<Rightarrow> unit result \<times> link_end" where
  "answer_request E now rnd iv request_id q le =
     (case handle_request (le_handlers le) request_id (rq_requested_at q) (rq_path_hash q) (rq_request_data q) (le_link le) of
        Inl e \<Rightarrow> (Inl e, le)
      | Inr None \<Rightarrow> (Inr (), le)
      | Inr (Some response) \<Rightarrow> respond E now rnd iv request_id response le)"

section \<open>Responses\<close>

definition upd_receipt :: "nat \<Rightarrow> (request_receipt \<Rightarrow> request_receipt) \<Rightarrow> link_end \<Rightarrow> link_end" where
  "upd_receipt k f le = le\<lparr>le_receipts := (le_receipts le)(k := map_option f (le_receipts le k))\<rparr>"

definition response_received :: "real \<Rightarrow> bytes \<Rightarrow> nat \<Rightarrow> link_end \<Rightarrow> link_end" where
  "response_received now response k le =
     (case le_receipts le k of
        None \<Rightarrow> le
      | Some q \<Rightarrow>
          if q_status q = RQ_FAILED then le
          else
            report ((if q_progress_callback q then [App_request_progress k] else [])
                    @ (if q_response_callback q then [App_response k] else []))
              (upd_receipt k (\<lambda>q. q\<lparr>q_progress := 1, q_response := response, q_status := RQ_READY,
                                     q_response_concluded_at := now, q_packet := map_option (\<lambda>_. True) (q_packet q)\<rparr>) le))"

definition pending_with :: "bytes \<Rightarrow> link_end \<Rightarrow> nat list" where
  "pending_with request_id le =
     filter (\<lambda>k. \<exists>q. le_receipts le k = Some q \<and> q_request_id q = request_id) (le_pending le)"

definition handle_response :: "real \<Rightarrow> bytes \<Rightarrow> bytes \<Rightarrow> nat \<Rightarrow> nat \<Rightarrow> link_end \<Rightarrow> link_end" where
  "handle_response now request_id response response_size transfer_size le =
     (if l_status (le_link le) \<noteq> LACTIVE then le
      else
        (case pending_with request_id le of
           [] \<Rightarrow> le
         | k # _ \<Rightarrow>
             let le1 = response_received now response k
                   (upd_receipt k (\<lambda>q. q\<lparr>q_response_size := response_size,
                                          q_response_transfer_size := q_response_transfer_size q + transfer_size\<rparr>) le)
             in le1\<lparr>le_pending := removeAll k (le_pending le1)\<rparr>))"

definition request_timed_out :: "real \<Rightarrow> nat \<Rightarrow> link_end \<Rightarrow> link_end" where
  "request_timed_out now k le =
     (let failed = (case le_receipts le k of Some q \<Rightarrow> q_failed_callback q | None \<Rightarrow> False);
          le1 = upd_receipt k (\<lambda>q. q\<lparr>q_status := RQ_FAILED, q_concluded_at := now\<rparr>) le;
          le2 = le1\<lparr>le_pending := removeAll k (le_pending le1)\<rparr>
      in if failed then report [App_failed k] le2 else le2)"

section \<open>Concluded resources\<close>

definition request_resource_concluded ::
  "resource_env \<Rightarrow> real \<Rightarrow> bytes \<Rightarrow> (nat \<Rightarrow> nat \<Rightarrow> bytes) \<Rightarrow> resource \<Rightarrow> link_end \<Rightarrow> link_end result" where
  "request_resource_concluded E now rnd iv r le =
     (if r_status r \<noteq> R_COMPLETE then Inr le
      else
        (case unpack_request_envelope (re_msgpack E) (r_data r) of
           None \<Rightarrow> Inr le
         | Some q \<Rightarrow>
             (case answer_request E now rnd iv (truncated_hash (re_lib E) (r_data r)) q le of
                (Inl e, _) \<Rightarrow> Inl e
              | (Inr _, le1) \<Rightarrow> Inr le1)))"

definition response_resource_concluded :: "resource_env \<Rightarrow> real \<Rightarrow> resource \<Rightarrow> link_end \<Rightarrow> link_end" where
  "response_resource_concluded E now r le =
     (if r_status r = R_COMPLETE then
        (case unpack_response_envelope (re_msgpack E) (r_data r) of
           None \<Rightarrow> le
         | Some (request_id, response) \<Rightarrow> handle_response now request_id response (r_total_size r) (r_size r) le)
      else fold (request_timed_out now) (pending_with (r_request_id r) le) le)"

definition resource_concluded ::
  "resource_env \<Rightarrow> real \<Rightarrow> bytes \<Rightarrow> (nat \<Rightarrow> nat \<Rightarrow> bytes) \<Rightarrow> nat \<Rightarrow> link_end \<Rightarrow> link_end result" where
  "resource_concluded E now rnd iv k le =
     (let r = object le k; was_incoming = (k \<in> set (le_incoming le)); le1 = table_event k Link_concluded le
      in if was_incoming \<and> r_status r = R_COMPLETE \<and> r_request_id r \<noteq> [] then
           (if r_is_response r then Inr (response_resource_concluded E now r le1)
            else request_resource_concluded E now rnd iv r le1)
         else Inr le1)"

text \<open>\<open>link_closed\<close> cancels what is registered; a cancelled resource leaves its table.\<close>

definition cancel_object :: "resource_env \<Rightarrow> real \<Rightarrow> (nat \<Rightarrow> nat \<Rightarrow> bytes) \<Rightarrow> nat \<Rightarrow> link_end \<Rightarrow> link_end" where
  "cancel_object E now iv k le =
     (case on_object (\<lambda>s. Inr (cancel E now (iv k 0) s)) k le of
        Inl _ \<Rightarrow> le
      | Inr (evs, le1) \<Rightarrow> table_events k evs le1)"

definition cancel_resources :: "resource_env \<Rightarrow> real \<Rightarrow> (nat \<Rightarrow> nat \<Rightarrow> bytes) \<Rightarrow> link_end \<Rightarrow> link_end" where
  "cancel_resources E now iv le = fold (cancel_object E now iv) (le_incoming le @ le_outgoing le) le"

text \<open>The events of the link: a closed link cancels its resources before it clears its keys.\<close>

fun link_notice :: "resource_env \<Rightarrow> real \<Rightarrow> (nat \<Rightarrow> nat \<Rightarrow> bytes) \<Rightarrow> link_event \<Rightarrow> link_end \<Rightarrow> link_end" where
  "link_notice E now iv Cancel_resources le = cancel_resources E now iv le"
| "link_notice E now iv ev le = report [Notice ev] le"

definition end_teardown :: "resource_env \<Rightarrow> real \<Rightarrow> (nat \<Rightarrow> nat \<Rightarrow> bytes) \<Rightarrow> link_end \<Rightarrow> link_end result" where
  "end_teardown E now iv le =
     res_bind (teardown (re_lib E) now (iv 0 1) (le_link le)) (\<lambda>(l, evs).
       Inr (fold (link_notice E now iv) evs (le\<lparr>le_link := l\<rparr>)))"

definition settle_event ::
  "resource_env \<Rightarrow> real \<Rightarrow> bytes \<Rightarrow> (nat \<Rightarrow> nat \<Rightarrow> bytes) \<Rightarrow> nat \<Rightarrow> resource_event \<Rightarrow> link_end \<Rightarrow> link_end result" where
  "settle_event E now rnd iv k ev le =
     (case ev of
        Link_concluded \<Rightarrow> resource_concluded E now rnd iv k le
      | Link_teardown \<Rightarrow> end_teardown E now iv le
      | _ \<Rightarrow> Inr (table_event k ev le))"

primrec settle ::
  "resource_env \<Rightarrow> real \<Rightarrow> bytes \<Rightarrow> (nat \<Rightarrow> nat \<Rightarrow> bytes) \<Rightarrow> nat \<Rightarrow> resource_event list \<Rightarrow> link_end \<Rightarrow> link_end result" where
  "settle E now rnd iv k [] le = Inr le"
| "settle E now rnd iv k (ev # evs) le =
     res_bind (settle_event E now rnd iv k ev le) (settle E now rnd iv k evs)"

text \<open>An operation on a resource, with all its effects.\<close>

definition operate ::
  "resource_env \<Rightarrow> real \<Rightarrow> bytes \<Rightarrow> (nat \<Rightarrow> nat \<Rightarrow> bytes) \<Rightarrow> (nat \<Rightarrow> rrun \<Rightarrow> rrun result) \<Rightarrow> nat \<Rightarrow> link_end \<Rightarrow> link_end result" where
  "operate E now rnd iv f k le =
     res_bind (on_object (f k) k le) (\<lambda>(evs, le1). settle E now rnd iv k evs le1)"

primrec each :: "(nat \<Rightarrow> link_end \<Rightarrow> link_end result) \<Rightarrow> nat list \<Rightarrow> link_end \<Rightarrow> link_end result" where
  "each f [] le = Inr le"
| "each f (k # ks) le = res_bind (f k le) (each f ks)"

section \<open>Received packets\<close>

text \<open>\<open>Resource::accept\<close> for the link: the new resource, if any, gets the next address.\<close>

definition accept_resource ::
  "resource_env \<Rightarrow> real \<Rightarrow> bytes \<Rightarrow> (nat \<Rightarrow> nat \<Rightarrow> bytes) \<Rightarrow> bool \<Rightarrow> bytes \<Rightarrow> bytes \<Rightarrow> link_end \<Rightarrow> (nat option \<times> link_end) result" where
  "accept_resource E now rnd iv cbc request_id pt le =
     (let k = le_next le
      in res_bind (accept E now (iv k) (map (\<lambda>j. r_hash (object le j)) (le_incoming le)) cbc False
                     (le_started_callback le) request_id pt (le_link le)) (\<lambda>a.
           case a of
             None \<Rightarrow> Inr (None, le)
           | Some s \<Rightarrow>
               res_bind (settle E now rnd iv k (rr_events s)
                 (le\<lparr>le_next := k + 1, le_link := rr_link s, le_objects := (le_objects le)(k := Some (rr_res s))\<rparr>)) (\<lambda>le1.
                 Inr (Some k, le1))))"

text \<open>The sizes the response advertisement announces are noted in the receipt.\<close>

definition accept_response ::
  "resource_env \<Rightarrow> real \<Rightarrow> bytes \<Rightarrow> (nat \<Rightarrow> nat \<Rightarrow> bytes) \<Rightarrow> bytes \<Rightarrow> nat \<Rightarrow> link_end \<Rightarrow> link_end result" where
  "accept_response E now rnd iv pt j le =
     (let a = adv_unpack (re_msgpack E) pt
      in res_bind (accept_resource E now rnd iv False (adv_q a) pt le) (\<lambda>(k, le1).
           Inr (case k of
                  None \<Rightarrow> le1
                | Some _ \<Rightarrow>
                    upd_receipt j (\<lambda>q. q\<lparr>q_response_size := (if q_response_transfer_size q = 0 then adv_d a else q_response_size q),
                                          q_response_transfer_size := q_response_transfer_size q + adv_t a\<rparr>) le1)))"

definition advertisement_input ::
  "resource_env \<Rightarrow> real \<Rightarrow> bytes \<Rightarrow> (nat \<Rightarrow> nat \<Rightarrow> bytes) \<Rightarrow> bytes \<Rightarrow> link_end \<Rightarrow> link_end result" where
  "advertisement_input E now rnd iv pt le =
     (let M = re_msgpack E
      in if is_request M pt then
           res_bind (accept_resource E now rnd iv False (adv_q (adv_unpack M pt)) pt le) (\<lambda>(_, le1). Inr le1)
         else if is_response M pt then
           each (accept_response E now rnd iv pt) (pending_with (adv_q (adv_unpack M pt)) le) le
         else
           (case le_strategy le of
              ACCEPT_NONE \<Rightarrow> Inr le
            | ACCEPT_APP \<Rightarrow>
                if le_resource_callback le then
                  res_bind (accept_resource E now rnd iv (le_concluded_callback le) [] pt (report [App_resource pt] le))
                    (\<lambda>(_, le1). Inr le1)
                else Inr le
            | ACCEPT_ALL \<Rightarrow>
                res_bind (accept_resource E now rnd iv (le_concluded_callback le) [] pt le) (\<lambda>(_, le1). Inr le1)))"

text \<open>The hash of the resource a request names.\<close>

definition requested_hash :: "bytes \<Rightarrow> bytes" where
  "requested_hash pt =
     (if length pt \<ge> 1 \<and> hd pt = HASHMAP_IS_EXHAUSTED then
        (if length pt \<ge> 1 + MAPHASH_LEN + 256 div 8 then mid pt (1 + MAPHASH_LEN) (256 div 8) else [])
      else if length pt \<ge> 1 + 256 div 8 then mid pt 1 (256 div 8) else [])"

definition with_hash :: "link_end \<Rightarrow> bytes \<Rightarrow> nat list \<Rightarrow> nat list" where
  "with_hash le h ks = filter (\<lambda>k. r_hash (object le k) = h) ks"

text \<open>A request the resource has seen is dropped.\<close>

definition new_request :: "resource_env \<Rightarrow> real \<Rightarrow> (nat \<Rightarrow> bytes) \<Rightarrow> bytes \<Rightarrow> bytes \<Rightarrow> rrun \<Rightarrow> rrun result" where
  "new_request E now iv packet_hash pt s =
     (if packet_hash \<in> set (r_req_hashlist (rr_res s)) then Inr s
      else request E now iv pt (upd (\<lambda>r. r\<lparr>r_req_hashlist := r_req_hashlist r @ [packet_hash]\<rparr>) s))"

text \<open>The packets of a transfer: a request for parts, more hashmap, a cancellation, a part, a proof.\<close>

definition req_input ::
  "resource_env \<Rightarrow> real \<Rightarrow> bytes \<Rightarrow> (nat \<Rightarrow> nat \<Rightarrow> bytes) \<Rightarrow> bytes \<Rightarrow> bytes \<Rightarrow> link_end \<Rightarrow> link_end result" where
  "req_input E now rnd iv packet_hash pt le =
     (if requested_hash pt = [] then Inr le
      else each (operate E now rnd iv (\<lambda>k. new_request E now (iv k) packet_hash pt))
             (take 1 (with_hash le (requested_hash pt) (le_outgoing le))) le)"

definition hmu_input ::
  "resource_env \<Rightarrow> real \<Rightarrow> bytes \<Rightarrow> (nat \<Rightarrow> nat \<Rightarrow> bytes) \<Rightarrow> bytes \<Rightarrow> link_end \<Rightarrow> link_end result" where
  "hmu_input E now rnd iv pt le =
     (if length pt < 256 div 8 then Inr le
      else each (operate E now rnd iv (\<lambda>k s. Inr (hashmap_update_packet E now (iv k) pt s)))
             (with_hash le (left pt (256 div 8)) (le_incoming le)) le)"

definition icl_input ::
  "resource_env \<Rightarrow> real \<Rightarrow> bytes \<Rightarrow> (nat \<Rightarrow> nat \<Rightarrow> bytes) \<Rightarrow> bytes \<Rightarrow> link_end \<Rightarrow> link_end result" where
  "icl_input E now rnd iv pt le =
     (if length pt < 256 div 8 then Inr le
      else each (operate E now rnd iv (\<lambda>k s. Inr (cancel E now (iv k 0) s)))
             (with_hash le (left pt (256 div 8)) (le_incoming le)) le)"

definition part_input ::
  "resource_env \<Rightarrow> real \<Rightarrow> bytes \<Rightarrow> (nat \<Rightarrow> nat \<Rightarrow> bytes) \<Rightarrow> packet \<Rightarrow> link_end \<Rightarrow> link_end result" where
  "part_input E now rnd iv p le =
     each (operate E now rnd iv (\<lambda>k. receive_part E now (iv k) p)) (le_incoming le) le"

definition proof_input ::
  "resource_env \<Rightarrow> real \<Rightarrow> bytes \<Rightarrow> (nat \<Rightarrow> nat \<Rightarrow> bytes) \<Rightarrow> bytes \<Rightarrow> link_end \<Rightarrow> link_end result" where
  "proof_input E now rnd iv dat le =
     each (operate E now rnd iv (\<lambda>k s. Inr (validate_resource_proof dat s)))
       (with_hash le (left dat (256 div 8)) (le_outgoing le)) le"

definition resource_input ::
  "resource_env \<Rightarrow> real \<Rightarrow> bytes \<Rightarrow> (nat \<Rightarrow> nat \<Rightarrow> bytes) \<Rightarrow> packet \<Rightarrow> byte \<Rightarrow> bytes \<Rightarrow> link_end \<Rightarrow> link_end result" where
  "resource_input E now rnd iv p ctx pt le =
     (if ctx = RESOURCE_ADV then advertisement_input E now rnd iv pt le
      else if ctx = RESOURCE_REQ then req_input E now rnd iv (p_packet_hash p) pt le
      else if ctx = RESOURCE_HMU then hmu_input E now rnd iv pt le
      else if ctx = RESOURCE_ICL then icl_input E now rnd iv pt le
      else if ctx = RESOURCE then part_input E now rnd iv p le
      else if ctx = RESOURCE_PRF then proof_input E now rnd iv pt le
      else Inr le)"

lemmas resource_inputs = resource_input_def req_input_def hmu_input_def icl_input_def part_input_def proof_input_def

text \<open>Exceptions while a request or response packet is handled are caught.\<close>

definition caught :: "unit result \<times> link_end \<Rightarrow> link_end result" where
  "caught x = (case x of (Inl e, le) \<Rightarrow> if e = Undefined_behaviour then Inl e else Inr le | (Inr _, le) \<Rightarrow> Inr le)"

definition request_input ::
  "resource_env \<Rightarrow> real \<Rightarrow> bytes \<Rightarrow> (nat \<Rightarrow> nat \<Rightarrow> bytes) \<Rightarrow> bytes \<Rightarrow> bytes \<Rightarrow> link_end \<Rightarrow> link_end result" where
  "request_input E now rnd iv request_id pt le =
     (case unpack_request_envelope (re_msgpack E) pt of
        None \<Rightarrow> Inr le
      | Some q \<Rightarrow> caught (answer_request E now rnd iv request_id q le))"

text \<open>\<open>from_array\<close> reads both elements as byte buffers, unlike the envelope of a resource.\<close>

definition response_input :: "resource_env \<Rightarrow> real \<Rightarrow> bytes \<Rightarrow> link_end \<Rightarrow> link_end" where
  "response_input E now pt le =
     (let M = re_msgpack E; (request_id, response) = mp_two_bins M (mp_feed M pt);
          n = length (mp_pack M [MP_bin response]) - 2
      in handle_response now request_id response n n le)"

fun link_input ::
  "resource_env \<Rightarrow> real \<Rightarrow> bytes \<Rightarrow> (nat \<Rightarrow> nat \<Rightarrow> bytes) \<Rightarrow> packet \<Rightarrow> link_event \<Rightarrow> link_end \<Rightarrow> link_end result" where
  "link_input E now rnd iv p (Resource_input ctx pt) le = resource_input E now rnd iv p ctx pt le"
| "link_input E now rnd iv p (Request_input request_id pt) le = request_input E now rnd iv request_id pt le"
| "link_input E now rnd iv p (Response_input pt) le = Inr (response_input E now pt le)"
| "link_input E now rnd iv p ev le = Inr (link_notice E now iv ev le)"

primrec link_inputs ::
  "resource_env \<Rightarrow> real \<Rightarrow> bytes \<Rightarrow> (nat \<Rightarrow> nat \<Rightarrow> bytes) \<Rightarrow> packet \<Rightarrow> link_event list \<Rightarrow> link_end \<Rightarrow> link_end result" where
  "link_inputs E now rnd iv p [] le = Inr le"
| "link_inputs E now rnd iv p (ev # evs) le =
     res_bind (link_input E now rnd iv p ev le) (link_inputs E now rnd iv p evs)"

definition end_receive ::
  "resource_env \<Rightarrow> (bytes \<Rightarrow> real) \<Rightarrow> bool \<Rightarrow> real \<Rightarrow> bytes \<Rightarrow> (nat \<Rightarrow> nat \<Rightarrow> bytes) \<Rightarrow> nat option \<Rightarrow> packet \<Rightarrow> link_end \<Rightarrow>
     link_end result" where
  "end_receive E unpack_rtt prove now rnd iv iface p le =
     res_bind (link_receive (re_lib E) unpack_rtt prove now iface p (le_link le)) (\<lambda>(l, evs).
       link_inputs E now rnd iv p evs (le\<lparr>le_link := l\<rparr>))"

section \<open>The application and the clock\<close>

text \<open>
  \<open>Link::request\<close>: the receipt, unless nothing could be sent.  Of the callbacks it is known whether they
  are given.
\<close>

definition add_receipt :: "request_receipt \<Rightarrow> link_end \<Rightarrow> nat \<times> link_end" where
  "add_receipt q le =
     (let k = le_next le
      in (k, le\<lparr>le_next := k + 1, le_receipts := (le_receipts le)(k := Some q), le_pending := insort_insert k (le_pending le)\<rparr>))"

definition link_request ::
  "resource_env \<Rightarrow> real \<Rightarrow> bytes \<Rightarrow> (nat \<Rightarrow> nat \<Rightarrow> bytes) \<Rightarrow> bytes \<Rightarrow> bytes \<Rightarrow> bool \<Rightarrow> bool \<Rightarrow> bool \<Rightarrow> real \<Rightarrow> link_end \<Rightarrow>
     (nat option \<times> link_end) result" where
  "link_request E now rnd iv path dat cbr cbf cbp timeout le =
     (let packed = pack_request_envelope (re_msgpack E) now (truncated_hash (re_lib E) path) dat;
          t = (if timeout = 0 then l_rtt (le_link le) * TRAFFIC_TIMEOUT_FACTOR + 10 * (9 / 8) else timeout);
          q = \<lparr>q_request_id = [], q_packet = None, q_request_size = length packed, q_response = [], q_response_size = 0,
               q_response_transfer_size = 0, q_status = RQ_SENT, q_progress = 0, q_timeout = t, q_started_at = 0,
               q_sent_at = now, q_concluded_at = 0, q_response_concluded_at = 0, q_progress_callback = cbp,
               q_response_callback = cbr, q_failed_callback = cbf\<rparr>
      in if length packed \<le> LINK_MDU then
           (case end_send E now (iv 0 0) DATA REQUEST packed le of
              (Inl e, _) \<Rightarrow> Inl e
            | (Inr p, le1) \<Rightarrow>
                if \<not> re_outbound E p then Inr (None, le1)
                else
                  res_bind (getTruncatedHash (re_lib E) p) (\<lambda>rid.
                    case add_receipt (q\<lparr>q_request_id := rid, q_packet := Some False, q_started_at := now\<rparr>) le1 of
                      (k, le2) \<Rightarrow> Inr (Some k, le2)))
         else
           let rid = truncated_hash (re_lib E) packed
           in res_bind (start_resource E now rnd iv (\<lambda>r. r\<lparr>r_request_id := rid, r_timeout := t\<rparr>) packed le) (\<lambda>(_, le1).
                case add_receipt (q\<lparr>q_request_id := rid\<rparr>) le1 of (k, le2) \<Rightarrow> Inr (Some k, le2)))"

definition tick_resources ::
  "resource_env \<Rightarrow> real \<Rightarrow> bytes \<Rightarrow> (nat \<Rightarrow> nat \<Rightarrow> bytes) \<Rightarrow> link_end \<Rightarrow> link_end result" where
  "tick_resources E now rnd iv le =
     (if l_status (le_link le) = CLOSED then Inr le
      else each (operate E now rnd iv (\<lambda>k s. Inr (watchdog E now (iv k) s))) (le_incoming le @ le_outgoing le) le)"

text \<open>Every operation of a link with resources; the arguments are chosen by the peer, the clock, the application.\<close>

definition start_transfer ::
  "resource_env \<Rightarrow> real \<Rightarrow> bytes \<Rightarrow> (nat \<Rightarrow> nat \<Rightarrow> bytes) \<Rightarrow> bool \<Rightarrow> bool \<Rightarrow> bytes \<Rightarrow> link_end \<Rightarrow> (nat \<times> link_end) result" where
  "start_transfer E now rnd iv cbc cbp dat le =
     (let k = le_next le;
          le1 = le\<lparr>le_next := k + 1,
                   le_objects := (le_objects le)(k := Some ((new_resource dat (le_link le))
                     \<lparr>r_concluded_callback := cbc, r_progress_callback := cbp\<rparr>))\<rparr>
      in res_bind (on_object (start E now rnd (iv k) (le_outgoing le1 = [])) k le1) (\<lambda>(evs, le2).
         res_bind (settle E now rnd iv k evs le2) (\<lambda>le3. Inr (k, le3))))"

inductive end_step :: "resource_env \<Rightarrow> link_end \<Rightarrow> link_end \<Rightarrow> bool" for E where
  end_packet: "end_receive E unpack_rtt prove now rnd iv iface p le = Inr le' \<Longrightarrow> end_step E le le'"
| end_tick: "tick_resources E now rnd iv le = Inr le' \<Longrightarrow> end_step E le le'"
| end_request: "link_request E now rnd iv path dat cbr cbf cbp t le = Inr (k, le') \<Longrightarrow> end_step E le le'"
| end_start: "start_transfer E now rnd iv cbc cbp dat le = Inr (k, le') \<Longrightarrow> end_step E le le'"
| end_close: "end_teardown E now iv le = Inr le' \<Longrightarrow> end_step E le le'"

inductive end_run :: "resource_env \<Rightarrow> link_end \<Rightarrow> link_end \<Rightarrow> bool" for E where
  end_here: "end_run E le le"
| end_more: "end_run E le le1 \<Longrightarrow> end_step E le1 le2 \<Longrightarrow> end_run E le le2"

end
