(* ===== verification/Resource_Transfer.thy ===== *)
theory Resource_Transfer
  imports Resource_Initiator Link_Resources
begin

text \<open>
  A whole transfer: the two ends exchange the octets of their packets over a link that loses and
  reorders nothing, and the receiver ends with the data of the initiator, whatever its length, its
  window and the answers of the clock.  The proof is an invariant of both ends per part and per round.
\<close>

section \<open>The receiver\<close>

definition stored :: "bytes \<Rightarrow> packet" where
  "stored c = (packet_from_raw c)\<lparr>p_data := c\<rparr>"

text \<open>The first \<open>n\<close> parts are there, the first \<open>h\<close> map hashes known, \<open>out\<close> parts outstanding.\<close>

definition receiver_at :: "plan \<Rightarrow> token \<Rightarrow> nat \<Rightarrow> nat \<Rightarrow> nat \<Rightarrow> bool \<Rightarrow> rrun \<Rightarrow> bool" where
  "receiver_at P t n h out wait s \<longleftrightarrow> (let r = rr_res s in
     link_fit t (rr_link s) \<and> \<not> r_initiator r \<and> r_status r = R_TRANSFERRING \<and> \<not> r_assembly_lock r \<and>
     r_encrypted r \<and> \<not> r_compressed r \<and> r_hash r = pl_hash P \<and> r_random_hash r = pl_random P \<and>
     r_request_id r = pl_request_id P \<and> r_is_response r = pl_is_response P \<and>
     r_segment_index r = r_total_segments r \<and> window_ok r \<and> n \<le> h \<and> h \<le> parts_of P \<and> r_total_parts r = parts_of P \<and>
     r_parts r = map (\<lambda>c. Some (stored c)) (take n (pl_chunks P)) @ replicate (parts_of P - n) None \<and>
     r_hashmap r = known_hashmap P h \<and> r_hashmap_height r = h \<and> r_received_count r = n \<and>
     r_consecutive_completed_height r = int n - 1 \<and> r_outstanding_parts r = out \<and> r_waiting_for_hmu r = wait)"

text \<open>What does not change while parts come in.\<close>

lemma receiver_at_fields:
  assumes "receiver_at P t n h out wait s"
  shows "link_fit t (rr_link s)" "n \<le> h" "h \<le> parts_of P" "window_ok (rr_res s)" "r_status (rr_res s) = R_TRANSFERRING"
    "r_hashmap (rr_res s) = known_hashmap P h" "r_total_parts (rr_res s) = parts_of P"
    "length (r_parts (rr_res s)) = parts_of P" "r_random_hash (rr_res s) = pl_random P"
    "r_consecutive_completed_height (rr_res s) = int n - 1" "r_hash (rr_res s) = pl_hash P"
  using assms by (simp_all add: receiver_at_def Let_def)

lemma receiver_part_slot:
  assumes "receiver_at P t n h out wait s" and "i < parts_of P"
  shows "r_parts (rr_res s) ! i = None \<longleftrightarrow> n \<le> i"
  using assms by (auto simp: receiver_at_def Let_def nth_append min_def)

subsection \<open>The next request\<close>

definition window_count :: "nat \<Rightarrow> nat \<Rightarrow> nat \<Rightarrow> nat" where
  "window_count w n h = min w (h - n)"

definition window_exhausted :: "plan \<Rightarrow> nat \<Rightarrow> nat \<Rightarrow> nat \<Rightarrow> bool" where
  "window_exhausted P w n h \<longleftrightarrow> h < min (n + w) (parts_of P)"

lemma scan_window_known:
  assumes P: "plan_ok lib t P" and hm: "r_hashmap r = known_hashmap P h" and h: "h \<le> parts_of P"
    and miss: "\<And>i. n \<le> i \<Longrightarrow> i < parts_of P \<Longrightarrow> r_parts r ! i = None"
    and e: "e = min (n + r_window r) (parts_of P)"
  shows "n + length acc \<le> h \<Longrightarrow> length acc < r_window r \<or> n + length acc = e \<Longrightarrow>
    scan_window r acc [n + length acc..<e] =
      (acc @ take (min e h - (n + length acc)) (drop (n + length acc) (pl_hashes P)), h < e)"
proof (induction "e - (n + length acc)" arbitrary: acc)
  case 0
  then show ?case by simp
next
  case (Suc d)
  let ?i = "n + length acc"
  have i: "?i < e" "?i < parts_of P" using Suc.hyps(2) e by linarith+
  have l: "[?i..<e] = ?i # [Suc ?i..<e]" using i by (simp add: upt_rec)
  show ?case
  proof (cases "?i < h")
    case True
    let ?acc = "acc @ [pl_hashes P ! ?i]"
    have k: "map_hash_at r ?i = pl_hashes P ! ?i" "map_hash_at r ?i \<noteq> zero_hash"
      using known_hashmap_at [OF P hm h i(2)] True plan_okD(4) [OF P i(2)] by simp_all
    have lenP: "?i < length (pl_hashes P)" using plan_okD(1) [OF P] i by simp
    have m: "min e h - ?i = Suc (min e h - Suc ?i)" using True i by simp
    have take: "acc @ take (min e h - ?i) (drop ?i (pl_hashes P))
        = ?acc @ take (min e h - Suc ?i) (drop (Suc ?i) (pl_hashes P))"
      unfolding m using lenP by (simp add: Cons_nth_drop_Suc [symmetric])
    show ?thesis
    proof (cases "length ?acc \<ge> r_window r")
      case True
      then have "e \<le> Suc ?i" using e by (auto simp: min_def)
      then have "e = Suc ?i" using i by simp
      moreover have "\<not> h < e" using \<open>?i < h\<close> \<open>e = Suc ?i\<close> by simp
      ultimately show ?thesis using True k miss [OF _ i(2)] unfolding l take by (simp add: Let_def)
    next
      case False
      have "scan_window r ?acc [n + length ?acc..<e] =
          (?acc @ take (min e h - (n + length ?acc)) (drop (n + length ?acc) (pl_hashes P)), h < e)"
        by (rule Suc.hyps(1)) (use Suc.hyps(2) \<open>?i < h\<close> False in auto)
      then show ?thesis using False k miss [OF _ i(2)] unfolding l take by (simp add: Let_def)
    qed
  next
    case False
    then have eq: "?i = h" using Suc.prems by simp
    have "map_hash_at r ?i = zero_hash" using known_hashmap_at [OF P hm h i(2)] eq by simp
    then show ?thesis using miss [OF _ i(2)] i eq unfolding l by (simp add: Let_def)
  qed
qed

text \<open>The packet of a request as the initiator sees it.\<close>

definition request_packet :: "resource_env \<Rightarrow> plan \<Rightarrow> token \<Rightarrow> nat \<Rightarrow> nat \<Rightarrow> nat \<Rightarrow> bool \<Rightarrow> packet \<Rightarrow> bool" where
  "request_packet E P t n k h ex p \<longleftrightarrow>
     p_packet_type (arrives (re_lib E) p) = DATA \<and> p_context (arrives (re_lib E) p) = RESOURCE_REQ \<and>
     (\<forall>m. link_fit t m \<longrightarrow> link_decrypt (re_lib E) m (p_data (arrives (re_lib E) p))
        = Inr (request_for P n k h ex, m\<lparr>l_token := Some t\<rparr>))"

lemma length_request_for:
  assumes "plan_ok lib t P" and "k \<le> WINDOW_MAX" and "ex \<Longrightarrow> 0 < h \<and> h \<le> parts_of P"
  shows "length (request_for P n k h ex) \<le> LINK_MDU"
proof -
  have "length (concat (take k (drop n (pl_hashes P)))) = length (take k (drop n (pl_hashes P))) * 4"
    by (rule length_concat_uniform) (auto dest!: in_set_takeD in_set_dropD plan_okD(2) [OF assms(1)])
  then have "length (concat (take k (drop n (pl_hashes P)))) \<le> 300" using assms(2) by simp
  moreover have "ex \<Longrightarrow> length (pl_hashes P ! (h - 1)) = 4"
    using assms(3) plan_okD(2) [OF assms(1) nth_mem, of "h - 1"] plan_okD(1) [OF assms(1)] by auto
  ultimately show ?thesis using plan_okD(6) [OF assms(1)] by (cases ex) (simp_all add: request_for_def)
qed

lemma request_next_at:
  assumes lib: "crypto_ok (re_lib E)" and tok: "new_token key MODE_AES = Inr t" and iv: "\<And>i. length (iv i) = 16"
    and P: "plan_ok (re_lib E) t P" and s: "receiver_at P t n h out False s" and n: "n < parts_of P"
    and dvd: "h < parts_of P \<Longrightarrow> HASHMAP_MAX_LEN dvd h" and h0: "0 < h"
  shows "\<exists>p s' k ex. request_next E now iv s = s' \<and> receiver_at P t n h k ex s' \<and> request_ok P n k h ex \<and>
    sends (rr_events s) [p] (rr_events s') \<and> request_packet E P t n k h ex p"
proof -
  let ?r = "rr_res s" and ?w = "r_window (rr_res s)"
  note f = receiver_at_fields [OF s]
  have w: "2 \<le> ?w" "?w \<le> 75" using f(4) by (simp_all add: window_ok_def)
  define e where "e = min (n + ?w) (parts_of P)"
  define k where "k = window_count ?w n h"
  define ex where "ex = window_exhausted P ?w n h"
  have scan: "scan_window ?r [] [n..<e] = (take (min e h - n) (drop n (pl_hashes P)), h < e)"
    using scan_window_known [OF P f(6,3) _ e_def, of "[]"] receiver_part_slot [OF s] f(2) w by simp
  have ke: "min e h - n = k" using f(2,3) unfolding e_def k_def window_count_def by linarith
  have lenk: "length (take k (drop n (pl_hashes P))) = k"
    using f(2,3) plan_okD(1) [OF P] by (simp add: k_def window_count_def)
  have ok: "request_ok P n k h ex"
    using f(2,3) w n dvd h0 unfolding request_ok_def k_def ex_def window_count_def window_exhausted_def by auto
  have pay: "request_payload ?r (take k (drop n (pl_hashes P))) ex = request_for P n k h ex"
  proof (cases ex)
    case True
    have "map_hash_at ?r (h - 1) = pl_hashes P ! (h - 1)"
      using known_hashmap_at [OF P f(6,3), of "h - 1"] h0 f(3) by simp
    moreover have "r_hashmap_height ?r = h" using s by (simp add: receiver_at_def Let_def)
    ultimately show ?thesis using True h0 f(11) by (simp add: request_payload_def request_for_def)
  next
    case False
    then show ?thesis using f(11) by (simp add: request_payload_def request_for_def)
  qed
  define s1 where "s1 = upd (\<lambda>r. r\<lparr>r_outstanding_parts := k, r_waiting_for_hmu := ex\<rparr>) s"
  have len: "length (request_for P n k h ex) \<le> LINK_MDU"
    by (rule length_request_for [OF P]) (use w h0 f(3) in \<open>simp_all add: k_def window_count_def\<close>)
  obtain p l' where p: "res_send E now (iv 0) DATA RESOURCE_REQ (request_for P n k h ex) s1
      = (Inr p, emit [Transmit p] (s1\<lparr>rr_link := l'\<rparr>))" "link_fit t l'" "request_packet E P t n k h ex p"
    using res_send_encrypted [OF lib _ tok iv len, of s1 RESOURCE_REQ now 0] f(1)
    unfolding request_packet_def by (auto simp: s1_def)
  define s' where "s' = upd (\<lambda>r. r\<lparr>r_last_activity := now, r_req_sent := now, r_req_sent_bytes := length (p_raw p),
      r_rtt_rxd_bytes_at_part_req := r_rtt_rxd_bytes r, r_req_resp := 0\<rparr>) (emit [Transmit p] (s1\<lparr>rr_link := l'\<rparr>))"
  have cond: "\<not> (r_status ?r = R_FAILED \<or> r_waiting_for_hmu ?r)" using s by (simp add: receiver_at_def Let_def)
  have st: "nat (r_consecutive_completed_height ?r + 1) = n" using f(10) by simp
  have exeq: "(h < e) = ex" by (simp add: ex_def window_exhausted_def e_def)
  have "request_next E now iv s = s'"
    using cond unfolding request_next_def Let_def st f(8) e_def [symmetric] scan ke exeq prod.case lenk pay
    by (simp only: if_False s1_def [symmetric] p(1) prod.case sum.case s'_def)
  moreover have "receiver_at P t n h k ex s'"
    using s p(2) by (simp add: receiver_at_def s'_def s1_def window_ok_def Let_def)
  moreover have "sends (rr_events s) [p] (rr_events s')" by (simp add: s'_def s1_def)
  ultimately show ?thesis using ok p(3) by blast
qed

subsection \<open>A part\<close>

lemma receiver_at_arrived:
  assumes "receiver_at P t n h out wait s"
  shows "receiver_at P t n h out wait (part_arrived now p s)"
proof -
  have "window_ok (rr_res (part_arrived now p s))"
    using assms keeps_part_arrived [of s now p]
    by (auto simp: keeps_def receiver_at_def tables_ok_def Let_def part_arrived_def first_response_def window_ok_def fast_round_def)
  then show ?thesis
    using assms by (simp add: receiver_at_def part_arrived_def first_response_def fast_round_def Let_def)
qed

lemma part_arrived_fields [simp]:
  "rr_events (part_arrived now p s) = rr_events s" "rr_link (part_arrived now p s) = rr_link s"
  "r_receive_lock (rr_res (part_arrived now p s)) = r_receive_lock (rr_res s)"
  by (simp_all add: part_arrived_def first_response_def fast_round_def Let_def)

lemma match_skip:
  "\<forall>i \<in> set is. map_hash_at (rr_res s) i \<noteq> x \<or> r_parts (rr_res s) ! i \<noteq> None \<Longrightarrow> fold (match_slot dat x) is s = s"
proof (induction "is" arbitrary: s)
  case (Cons i "is")
  then have "match_slot dat x i s = s" by (auto simp: match_slot_def)
  with Cons show ?case by simp
qed simp

lemma completed_replicate_from: "completed_from (replicate k None) i = i"
  by (cases k) simp_all

lemma receiver_at_filed:
  assumes s: "receiver_at P t n h out wait s" and n: "n < h"
  shows "receiver_at P t (Suc n) h (out - 1) wait (upd (file_part (pl_chunks P ! n) n) s)"
proof -
  let ?c = "pl_chunks P ! n"
  have nN: "n < parts_of P" using receiver_at_fields(3) [OF s] n by simp
  let ?done = "map (\<lambda>c. Some (stored c))"
  have parts: "(r_parts (rr_res s))[n := Some (stored ?c)]
      = ?done (take (Suc n) (pl_chunks P)) @ replicate (parts_of P - Suc n) None"
  proof -
    have "replicate (parts_of P - n) None = None # replicate (parts_of P - Suc n) (None :: packet option)"
      using nN by (simp add: replicate_Suc [symmetric] Suc_diff_Suc del: replicate_Suc)
    then show ?thesis
      using s nN by (simp add: receiver_at_def Let_def list_update_append take_Suc_conv_app_nth)
  qed
  have "drop (Suc n) ((r_parts (rr_res s))[n := Some (stored ?c)]) = replicate (parts_of P - Suc n) None"
    unfolding parts using nN by simp
  then have "completed_from (drop (Suc n) ((r_parts (rr_res s))[n := Some (stored ?c)])) (Suc n) = Suc n"
    by (simp add: completed_replicate_from)
  then show ?thesis
    using s n parts by (simp add: receiver_at_def file_part_def stored_def [symmetric] Let_def window_ok_def nat_add_distrib)
qed

lemma filed_window_at:
  assumes P: "plan_ok (re_lib E) t P" and s: "receiver_at P t n h out wait s" and n: "n < h" and p: "p_data p = pl_chunks P ! n"
  shows "receiver_at P t (Suc n) h (out - 1) wait (filed_window E p s)"
    and "sends (rr_events s) [] (rr_events (filed_window E p s))"
proof -
  define s2 where "s2 = upd (\<lambda>r. r\<lparr>r_status := R_TRANSFERRING, r_receive_lock := True\<rparr>) s"
  have s2: "receiver_at P t n h out wait s2" using s by (simp add: receiver_at_def s2_def Let_def window_ok_def)
  note f = receiver_at_fields [OF s2]
  have nN: "n < parts_of P" using f(3) n by simp
  define x where "x = pl_hashes P ! n"
  have hash: "map_hash (re_lib E) (rr_res s2) (p_data p) = x"
    using plan_okD(5) [OF P nN] f(9) by (simp add: map_hash_def p x_def)
  have cci: "nat (r_consecutive_completed_height (rr_res s2)) = n - 1" using f(10) by simp
  define e where "e = min (n - 1 + r_window (rr_res s2)) (parts_of P)"
  have e: "n < e" using f(4) nN by (auto simp: e_def window_ok_def)
  have split: "[n - 1..<e] = [n - 1..<n] @ n # [Suc n..<e]"
    using e upt_split [of "n - 1" n e] by (simp add: upt_rec [of n e])
  have pre: "fold (match_slot (p_data p) x) [n - 1..<n] s2 = s2"
    by (rule match_skip) (use receiver_part_slot [OF s2] nN in auto)
  have at: "map_hash_at (rr_res s2) n = x" using known_hashmap_at [OF P f(6,3) nN] n by (simp add: x_def)
  define s3 where "s3 = upd (file_part (pl_chunks P ! n) n) s2"
  have s3: "receiver_at P t (Suc n) h (out - 1) wait s3" unfolding s3_def by (rule receiver_at_filed [OF s2 n])
  define s4 where "s4 = (if r_progress_callback (rr_res s3) then emit [Progress_callback] s3 else s3)"
  have one: "match_slot (p_data p) x n s2 = s4"
    using at receiver_part_slot [OF s2 nN] by (simp add: match_slot_def p s4_def s3_def Let_def)
  have s4: "receiver_at P t (Suc n) h (out - 1) wait s4" "rr_res s4 = rr_res s3"
    using s3 by (simp_all add: s4_def receiver_at_def Let_def)
  have post: "fold (match_slot (p_data p) x) [Suc n..<e] s4 = s4"
  proof (rule match_skip, rule ballI, rule disjI1)
    fix i assume i: "i \<in> set [Suc n..<e]"
    then have iN: "i < parts_of P" by (simp add: e_def)
    have "map_hash_at (rr_res s4) i = (if i < h then pl_hashes P ! i else zero_hash)"
      using known_hashmap_at [OF P receiver_at_fields(6,3) [OF s4(1)] iN] .
    then show "map_hash_at (rr_res s4) i \<noteq> x"
      using i plan_okD(3) [OF P iN nN] plan_okD(4) [OF P nN] by (auto simp: x_def)
  qed
  have eq: "filed_window E p s = s4"
    unfolding filed_window_def Let_def s2_def [symmetric] hash cci f(7) e_def [symmetric] split
    by (simp only: fold_append fold_simps o_apply pre one post)
  show "receiver_at P t (Suc n) h (out - 1) wait (filed_window E p s)" using s4(1) eq by simp
  show "sends (rr_events s) [] (rr_events (filed_window E p s))"
    unfolding eq by (simp add: s4_def s3_def s2_def)
qed

subsection \<open>After a part\<close>

text \<open>The window and the rates do not matter to where the receiver is.\<close>

definition stage :: "resource \<Rightarrow> _" where
  "stage r = ((r_initiator r, r_status r, r_assembly_lock r, r_encrypted r, r_compressed r),
     (r_hash r, r_random_hash r, r_segment_index r, r_total_segments r, r_total_parts r),
     (r_parts r, r_hashmap r, r_hashmap_height r, r_received_count r, r_consecutive_completed_height r),
     (r_outstanding_parts r, r_waiting_for_hmu r, r_request_id r, r_is_response r))"

lemma stage_steps [simp]:
  "stage (grow_window r) = stage r" "stage (fast_round x r) = stage r" "stage (very_slow_round r) = stage r"
  "stage (update_eifr l r) = stage r" "stage (r\<lparr>r_rtt_rxd_bytes_at_part_req := v\<rparr>) = stage r"
  "stage (r\<lparr>r_req_data_rtt_rate := x\<rparr>) = stage r"
  by (simp_all add: stage_def grow_window_def fast_round_def very_slow_round_def update_eifr_def Let_def)

lemma receiver_at_stage:
  assumes "receiver_at P t n h out wait s" and "stage (f (rr_res s)) = stage (rr_res s)" and "window_ok (f (rr_res s))"
  shows "receiver_at P t n h out wait (upd f s)"
  using assms by (simp add: receiver_at_def stage_def Let_def)

lemma receiver_at_window:
  assumes s: "receiver_at P t n h out wait s"
  shows "receiver_at P t n h out wait (upd (\<lambda>r. window_rate now l (grow_window r)) s)"
proof (rule receiver_at_stage [OF s])
  have g: "window_ok (grow_window (rr_res s))" by (rule window_ok_steps(1) [OF receiver_at_fields(4) [OF s]])
  have e: "window_ok (update_eifr l r) = window_ok r" for r by (simp add: update_eifr_def window_ok_def Let_def)
  have "window_ok (r\<lparr>r_rtt_rxd_bytes_at_part_req := v\<rparr>) = window_ok r" "window_ok (r\<lparr>r_req_data_rtt_rate := x\<rparr>) = window_ok r"
    for r v x by (simp_all add: window_ok_def)
  then show "window_ok (window_rate now l (grow_window (rr_res s)))"
    using g by (simp add: window_rate_def Let_def window_ok_steps(3,4) e)
  show "stage (window_rate now l (grow_window (rr_res s))) = stage (rr_res s)"
    by (simp add: window_rate_def Let_def)
qed

lemma receiver_at_lock [simp]: "receiver_at P t n h out wait (upd (\<lambda>r. r\<lparr>r_receive_lock := b\<rparr>) s) = receiver_at P t n h out wait s"
  by (simp add: receiver_at_def Let_def window_ok_def)

text \<open>The transfer is complete at the receiver, and its proof is on the way.\<close>

definition proof_packet :: "resource_env \<Rightarrow> plan \<Rightarrow> packet \<Rightarrow> bool" where
  "proof_packet E P p \<longleftrightarrow> p_packet_type (arrives (re_lib E) p) = PROOF \<and> p_context (arrives (re_lib E) p) = RESOURCE_PRF
     \<and> p_data (arrives (re_lib E) p) = pl_hash P @ pl_proof P"

definition receiver_done :: "plan \<Rightarrow> token \<Rightarrow> rrun \<Rightarrow> bool" where
  "receiver_done P t s \<longleftrightarrow> r_status (rr_res s) = R_COMPLETE \<and> r_data (rr_res s) = pl_data P \<and> link_fit t (rr_link s) \<and>
     r_request_id (rr_res s) = pl_request_id P \<and> r_is_response (rr_res s) = pl_is_response P"

lemma received_stream_at:
  assumes "receiver_at P t (parts_of P) h out wait s"
  shows "received_stream (rr_res s) = concat (pl_chunks P)"
  using assms by (simp add: receiver_at_def received_stream_def Let_def comp_def stored_def)

lemma assemble_at:
  assumes P: "plan_ok (re_lib E) t P" and s: "receiver_at P t (parts_of P) h out wait s"
  shows "\<exists>s' p. assemble E now iv (upd (\<lambda>r. r\<lparr>r_assembly_lock := True\<rparr>) s) = Inr s' \<and> receiver_done P t s' \<and>
    finishes (rr_events s) p (rr_events s') \<and> proof_packet E P p"
proof -
  define s0 where "s0 = upd (\<lambda>r. r\<lparr>r_assembly_lock := True\<rparr>) s"
  define s1 where "s1 = upd (\<lambda>r. r\<lparr>r_status := R_ASSEMBLING\<rparr>) s0"
  have stream: "received_stream (rr_res s1) = concat (pl_chunks P)"
    using received_stream_at [OF s] by (simp add: s1_def s0_def received_stream_def)
  define s2 where "s2 = s1\<lparr>rr_link := (rr_link s)\<lparr>l_token := Some t\<rparr>\<rparr>"
  have l: "link_fit t (rr_link s)" by (rule receiver_at_fields(1) [OF s])
  have s2: "rr_res s2 = rr_res s1" by (simp add: s2_def)
  have fields: "r_encrypted (rr_res s1)" "\<not> r_compressed (rr_res s1)" "\<not> r_compressed (rr_res s2)" "r_hash (rr_res s2) = pl_hash P" "r_random_hash (rr_res s2) = pl_random P"
    "r_status (rr_res s0) \<noteq> R_FAILED"
    using s by (simp_all add: receiver_at_def s0_def s1_def s2_def Let_def)
  have plan: "token_decrypt (re_lib E) t (concat (pl_chunks P)) = Inr (pl_random P @ pl_data P)"
    "pl_hash P = full_hash (re_lib E) (pl_data P @ pl_random P)" "pl_proof P = full_hash (re_lib E) (pl_data P @ pl_hash P)"
    using P unfolding plan_ok_def by blast+
  have dec: "link_decrypt (re_lib E) (rr_link s1) (received_stream (rr_res s1))
      = Inr (pl_random P @ pl_data P, (rr_link s)\<lparr>l_token := Some t\<rparr>)"
    unfolding stream using l plan(1) by (simp add: link_decrypt_def link_fit_def s1_def s0_def)
  have dat: "mid_end (pl_random P @ pl_data P) RANDOM_HASH_SIZE = pl_data P"
    using plan_okD(7) [OF P] by (simp add: mid_end_drop)
  define s3 where "s3 = upd (\<lambda>r. r\<lparr>r_data := pl_data P, r_status := R_COMPLETE\<rparr>) s2"
  have s3: "link_fit t (rr_link s3)" using l by (simp add: s3_def s2_def)
  have len: "length (pl_hash P @ pl_proof P) \<le> MDU" using plan_okD(6,8) [OF P] by (simp add: wire_sizes)
  obtain p l' where p: "res_send E now (iv 0) PROOF RESOURCE_PRF (pl_hash P @ pl_proof P) s3
      = (Inr p, emit [Transmit p] (s3\<lparr>rr_link := l'\<rparr>))" "proof_packet E P p" "link_fit t l'"
    using res_send_proof [OF s3 len, of E now "iv 0"] unfolding proof_packet_def by auto
  have "prove_resource E now iv s3 = emit [Cache p] (emit [Transmit p] (s3\<lparr>rr_link := l'\<rparr>))"
    using p(1) fields(4) plan(3) by (simp add: prove_resource_def Let_def s3_def)
  moreover have "assemble E now iv s0 = Inr (conclude (prove_resource E now iv s3))"
    using fields plan(2) unfolding assemble_def s1_def [symmetric] Let_def
    by (simp add: dec dat s2_def [symmetric] s2) (simp add: s3_def s2)
  moreover have "finishes (rr_events s) p (rr_events (conclude (prove_resource E now iv s3)))"
    unfolding finishes_def calculation(1) conclude_def
    by (intro exI [of _ "[]"] exI [of _ "if r_segment_index (rr_res s) = r_total_segments (rr_res s) \<and> r_concluded_callback (rr_res s)
          then [Concluded_callback] else []"]) (simp add: s3_def s2_def s1_def s0_def Let_def)
  moreover have "receiver_done P t (conclude (prove_resource E now iv s3))"
    unfolding calculation(1)
    using s p(3) by (simp add: receiver_done_def receiver_at_def conclude_def s3_def s2_def s1_def s0_def Let_def)
  ultimately show ?thesis unfolding s0_def [symmetric] using p(2) by blast
qed

lemma receive_part_at:
  fixes now :: real
  assumes P: "plan_ok (re_lib E) t P" and s: "receiver_at P t n h out wait s" "\<not> r_receive_lock (rr_res s)"
    and n: "n < h" and p: "p_data p = pl_chunks P ! n"
  defines "s3 \<equiv> filed_window E p (part_arrived now p s)"
  shows "receive_part E now iv p s = res_bind (window_done E now iv s3) (\<lambda>s4. Inr (upd (\<lambda>r. r\<lparr>r_receive_lock := False\<rparr>) s4))"
    and "receiver_at P t (Suc n) h (out - 1) wait s3" and "sends (rr_events s) [] (rr_events s3)"
proof -
  have a: "receiver_at P t n h out wait (part_arrived now p s)" by (rule receiver_at_arrived [OF s(1)])
  note f = filed_window_at [OF P a n p]
  show "receiver_at P t (Suc n) h (out - 1) wait s3"
    using f(1) by (simp_all add: s3_def)
  show "sends (rr_events s) [] (rr_events s3)" using f(2) by (simp add: s3_def)
  show "receive_part E now iv p s = res_bind (window_done E now iv s3) (\<lambda>s4. Inr (upd (\<lambda>r. r\<lparr>r_receive_lock := False\<rparr>) s4))"
    using s(2) receiver_at_fields(5) [OF a] by (simp add: receive_part_eq s3_def)
qed

text \<open>A part that is not the last of its window, or the last while map hashes are awaited.\<close>

lemma part_more:
  assumes P: "plan_ok (re_lib E) t P" and s: "receiver_at P t n h out wait s" "\<not> r_receive_lock (rr_res s)"
    and n: "n < h" "Suc n < parts_of P" and p: "p_data p = pl_chunks P ! n" and out: "out > 1 \<or> wait"
  shows "\<exists>s'. receive_part E now iv p s = Inr s' \<and> receiver_at P t (Suc n) h (out - 1) wait s' \<and>
    \<not> r_receive_lock (rr_res s') \<and> sends (rr_events s) [] (rr_events s')"
proof -
  define s3 where "s3 = filed_window E p (part_arrived now p s)"
  note r = receive_part_at [OF P s n(1) p, where now = now, folded s3_def]
  have c: "r_received_count (rr_res s3) \<noteq> r_total_parts (rr_res s3)" "r_outstanding_parts (rr_res s3) = out - 1"
    "r_waiting_for_hmu (rr_res s3) = wait"
    using r(2) n(2) by (simp_all add: receiver_at_def Let_def)
  define s4 where "s4 = (if out - 1 = 0 then upd (\<lambda>r. window_rate now (rr_link s3) (grow_window r)) s3 else s3)"
  have s4: "receiver_at P t (Suc n) h (out - 1) wait s4"
  proof (cases "out - 1 = 0")
    case True
    then show ?thesis using receiver_at_window [OF r(2)] unfolding s4_def True by simp
  qed (use r(2) in \<open>simp add: s4_def\<close>)
  have ev: "rr_events s4 = rr_events s3" by (simp add: s4_def)
  have "request_next E now iv s4 = s4" if "wait"
    using that s4 by (simp add: request_next_def receiver_at_def Let_def)
  then have "window_done E now iv s3 = Inr s4" using c out by (auto simp: window_done_def s4_def)
  then show ?thesis using r(1,3) s4 ev by (intro exI [of _ "upd (\<lambda>r. r\<lparr>r_receive_lock := False\<rparr>) s4"]) simp
qed

text \<open>The last outstanding part: the next window is requested.\<close>

lemma part_last:
  assumes lib: "crypto_ok (re_lib E)" and tok: "new_token key MODE_AES = Inr t" and iv: "\<And>i. length (iv i) = 16"
    and P: "plan_ok (re_lib E) t P" and s: "receiver_at P t n h 1 False s" "\<not> r_receive_lock (rr_res s)"
    and n: "n < h" "Suc n < parts_of P" and p: "p_data p = pl_chunks P ! n" and dvd: "h < parts_of P \<Longrightarrow> HASHMAP_MAX_LEN dvd h"
  shows "\<exists>s' q k ex. receive_part E now iv p s = Inr s' \<and> receiver_at P t (Suc n) h k ex s' \<and> request_ok P (Suc n) k h ex \<and>
    \<not> r_receive_lock (rr_res s') \<and> sends (rr_events s) [q] (rr_events s') \<and>
    request_packet E P t (Suc n) k h ex q"
proof -
  define s3 where "s3 = filed_window E p (part_arrived now p s)"
  note r = receive_part_at [OF P s n(1) p, where now = now, folded s3_def]
  have c: "r_received_count (rr_res s3) \<noteq> r_total_parts (rr_res s3)" "r_outstanding_parts (rr_res s3) = 0"
    using r(2) n(2) by (simp_all add: receiver_at_def Let_def)
  define s4 where "s4 = upd (\<lambda>r. window_rate now (rr_link s3) (grow_window r)) s3"
  have s4: "receiver_at P t (Suc n) h 0 False s4" "rr_events s4 = rr_events s3"
    using receiver_at_window [OF r(2)] by (simp_all add: s4_def)
  obtain q s5 k ex where s5: "request_next E now iv s4 = s5" "receiver_at P t (Suc n) h k ex s5" "request_ok P (Suc n) k h ex"
    "sends (rr_events s4) [q] (rr_events s5)" "request_packet E P t (Suc n) k h ex q"
    using request_next_at [where now = now and iv = iv, OF lib tok iv P s4(1) n(2) dvd] n(1) by auto
  have "window_done E now iv s3 = Inr s5" using c s5(1) by (simp add: window_done_def s4_def)
  then show ?thesis
    using r(1) s4(2) s5(2-5) sends_trans [OF r(3), of "[q]" "rr_events s5"]
    by (intro exI [of _ "upd (\<lambda>r. r\<lparr>r_receive_lock := False\<rparr>) s5"] exI [of _ q] exI [of _ k] exI [of _ ex]) simp
qed

text \<open>The last part of all.\<close>

lemma part_final:
  assumes P: "plan_ok (re_lib E) t P" and s: "receiver_at P t n h out wait s" "\<not> r_receive_lock (rr_res s)"
    and n: "n < h" "Suc n = parts_of P" and p: "p_data p = pl_chunks P ! n"
  shows "\<exists>s' q. receive_part E now iv p s = Inr s' \<and> receiver_done P t s' \<and>
    finishes (rr_events s) q (rr_events s') \<and> proof_packet E P q"
proof -
  define s3 where "s3 = filed_window E p (part_arrived now p s)"
  note r = receive_part_at [OF P s n(1) p, where now = now, folded s3_def]
  define s4 where "s4 = upd (\<lambda>r. r\<lparr>r_assembly_lock := True\<rparr>) s3"
  have c: "r_received_count (rr_res s3) = r_total_parts (rr_res s3)" "\<not> r_assembly_lock (rr_res s3)"
    using r(2) n(2) by (simp_all add: receiver_at_def Let_def)
  have "receiver_at P t (parts_of P) h (out - 1) wait s3" using r(2) n(2) by simp
  then obtain s5 q where s5: "assemble E now iv s4 = Inr s5" "receiver_done P t s5"
    "finishes (rr_events s4) q (rr_events s5)" "proof_packet E P q"
    using assemble_at [OF P, of h "out - 1" wait s3 now iv] by (auto simp: s4_def)
  have "window_done E now iv s3 = Inr s5" using c s5(1) by (simp add: window_done_def s4_def)
  then show ?thesis
    using r(1) s5(2-4) sends_finishes [OF r(3), of q "rr_events s5"]
    by (intro exI [of _ "upd (\<lambda>r. r\<lparr>r_receive_lock := False\<rparr>) s5"] exI [of _ q]) (simp add: receiver_done_def s4_def)
qed

subsection \<open>Map hashes\<close>

lemma length_known_prefix:
  "plan_ok lib t P \<Longrightarrow> h \<le> parts_of P \<Longrightarrow> length (concat (take h (pl_hashes P))) = h * MAPHASH_LEN"
  using length_concat_uniform [of "take h (pl_hashes P)" MAPHASH_LEN] plan_okD(1,2) [of lib t P]
  by (auto dest: in_set_takeD)

lemma set_map_hash_known:
  assumes P: "plan_ok lib t P" and h: "h < parts_of P"
    and r: "r_hashmap r = known_hashmap P h" "r_hashmap_height r = h"
  shows "set_map_hash h (pl_hashes P ! h) r = r\<lparr>r_hashmap := known_hashmap P (Suc h), r_hashmap_height := Suc h\<rparr>"
proof -
  have z: "map_hash_at r h = zero_hash" using known_hashmap_at [OF P r(1)] h by simp
  have len: "length (concat (take h (pl_hashes P))) = h * 4" using length_known_prefix [OF P] h by simp
  have "left (known_hashmap P h) (h * 4) = concat (take h (pl_hashes P))"
    unfolding known_hashmap_def left_def using len by simp
  moreover have "mid_end (known_hashmap P h) ((h + 1) * 4) = replicate ((parts_of P - Suc h) * 4) 0"
    using h len by (simp add: known_hashmap_def mid_end_drop drop_replicate diff_mult_distrib)
  moreover have "take (Suc h) (pl_hashes P) = take h (pl_hashes P) @ [pl_hashes P ! h]"
    using h plan_okD(1) [OF P] by (simp add: take_Suc_conv_app_nth)
  ultimately show ?thesis
    using z r by (simp add: set_map_hash_def known_hashmap_def)
qed

lemma segment_at:
  assumes P: "plan_ok lib t P" and i: "i < HASHMAP_MAX_LEN" "h + i < parts_of P"
  shows "mid (hashmap_segment P h) (i * MAPHASH_LEN) MAPHASH_LEN = pl_hashes P ! (h + i)"
proof -
  have "take 4 (drop (i * 4) (concat (take 74 (drop h (pl_hashes P))) @ [])) = take 74 (drop h (pl_hashes P)) ! i"
    by (rule concat_uniform) (use plan_okD(1,2) [OF P] i in \<open>auto dest!: in_set_takeD in_set_dropD\<close>)
  then show ?thesis using i plan_okD(1) [OF P] by (simp add: hashmap_segment_def mid_take_drop)
qed

lemma apply_hashmap_known:
  assumes P: "plan_ok lib t P" and h: "HASHMAP_MAX_LEN dvd h" "h < parts_of P"
    and r: "r_hashmap r = known_hashmap P h" "r_hashmap_height r = h" "r_total_parts r = parts_of P"
  shows "apply_hashmap (h div HASHMAP_MAX_LEN) (hashmap_segment P h) r
    = r\<lparr>r_hashmap := known_hashmap P (next_height P h True), r_hashmap_height := next_height P h True\<rparr>"
proof -
  define m where "m = next_height P h True - h"
  have base: "h div HASHMAP_MAX_LEN * HASHMAP_MAX_LEN = h" using h(1) by simp
  have len: "length (hashmap_segment P h) = min HASHMAP_MAX_LEN (parts_of P - h) * MAPHASH_LEN"
  proof -
    have "\<forall>x \<in> set (take HASHMAP_MAX_LEN (drop h (pl_hashes P))). length x = MAPHASH_LEN"
      by (auto dest!: in_set_takeD in_set_dropD plan_okD(2) [OF P])
    from length_concat_uniform [OF this] show ?thesis
      unfolding hashmap_segment_def using plan_okD(1) [OF P] by (simp add: min.commute)
  qed
  have m: "min (length (hashmap_segment P h) div MAPHASH_LEN) (parts_of P - h) = m" "h + m = next_height P h True"
    using len h(2) by (auto simp: m_def next_height_def min_def)
  have "fold (\<lambda>i. set_map_hash (h + i) (mid (hashmap_segment P h) (i * MAPHASH_LEN) MAPHASH_LEN)) [0..<j] r
      = r\<lparr>r_hashmap := known_hashmap P (h + j), r_hashmap_height := h + j\<rparr>" if "j \<le> m" for j
    using that
  proof (induction j)
    case 0
    then show ?case using r by simp
  next
    case (Suc j)
    let ?r = "r\<lparr>r_hashmap := known_hashmap P (h + j), r_hashmap_height := h + j\<rparr>"
    have j: "h + j < parts_of P" "j < HASHMAP_MAX_LEN" using Suc.prems m(2) h(2) by (auto simp: m_def next_height_def)
    have "set_map_hash (h + j) (pl_hashes P ! (h + j)) ?r
        = ?r\<lparr>r_hashmap := known_hashmap P (Suc (h + j)), r_hashmap_height := Suc (h + j)\<rparr>"
      by (rule set_map_hash_known [OF P j(1)]) simp_all
    then show ?case using Suc segment_at [OF P j(2,1)] by simp
  qed
  from this [of m] show ?thesis
    unfolding apply_hashmap_def Let_def base r(3) m(1) by (simp add: m(2))
qed

text \<open>The next map hashes: the receiver requests more parts.\<close>

lemma receiver_at_hashmap:
  assumes P: "plan_ok (re_lib E) t P" and s: "receiver_at P t n h out wait s"
    and h: "HASHMAP_MAX_LEN dvd h" "h < parts_of P"
  shows "receiver_at P t n (next_height P h True) out False
    (upd (\<lambda>r. (apply_hashmap (h div HASHMAP_MAX_LEN) (hashmap_segment P h) (r\<lparr>r_status := R_TRANSFERRING\<rparr>))\<lparr>r_waiting_for_hmu := False\<rparr>) s)"
proof -
  have f: "r_hashmap (rr_res s) = known_hashmap P h" "r_hashmap_height (rr_res s) = h" "r_total_parts (rr_res s) = parts_of P"
    using s by (simp_all add: receiver_at_def Let_def)
  have "apply_hashmap (h div HASHMAP_MAX_LEN) (hashmap_segment P h) ((rr_res s)\<lparr>r_status := R_TRANSFERRING\<rparr>)
      = (rr_res s)\<lparr>r_status := R_TRANSFERRING, r_hashmap := known_hashmap P (next_height P h True),
          r_hashmap_height := next_height P h True\<rparr>"
    by (subst apply_hashmap_known [OF P h]) (simp_all add: f)
  then show ?thesis
    using s h by (simp add: receiver_at_def Let_def window_ok_def next_height_def)
qed

lemma next_height_dvd: "HASHMAP_MAX_LEN dvd h \<Longrightarrow> next_height P h ex < parts_of P \<Longrightarrow> HASHMAP_MAX_LEN dvd next_height P h ex"
  by (auto simp: next_height_def min_def dvd_add_triv_right_iff split: if_splits)

lemma hashmap_update_at:
  assumes lib: "crypto_ok (re_lib E)" and tok: "new_token key MODE_AES = Inr t" and iv: "\<And>i. length (iv i) = 16"
    and P: "plan_ok (re_lib E) t P" and s: "receiver_at P t n h out wait s"
    and h: "HASHMAP_MAX_LEN dvd h" "h < parts_of P"
  shows "\<exists>s' q k ex. hashmap_update E now iv (h div HASHMAP_MAX_LEN) (hashmap_segment P h) s = s' \<and>
    receiver_at P t n (next_height P h True) k ex s' \<and> request_ok P n k (next_height P h True) ex \<and>
    sends (rr_events s) [q] (rr_events s') \<and> request_packet E P t n k (next_height P h True) ex q"
proof -
  define s1 where "s1 = upd (\<lambda>r. (apply_hashmap (h div HASHMAP_MAX_LEN) (hashmap_segment P h) (r\<lparr>r_status := R_TRANSFERRING\<rparr>))
    \<lparr>r_waiting_for_hmu := False\<rparr>) s"
  have s1: "receiver_at P t n (next_height P h True) out False s1"
    unfolding s1_def by (rule receiver_at_hashmap [OF P s h])
  have nh: "n < parts_of P" "0 < next_height P h True"
    using receiver_at_fields(2) [OF s] h(2) by (auto simp: next_height_def)
  have "hashmap_update E now iv (h div HASHMAP_MAX_LEN) (hashmap_segment P h) s = request_next E now iv s1"
    using receiver_at_fields(5) [OF s] by (simp add: hashmap_update_def s1_def)
  moreover have "rr_events s1 = rr_events s" by (simp add: s1_def)
  ultimately show ?thesis
    using request_next_at [where now = now and iv = iv, OF lib tok iv P s1 nh(1) next_height_dvd [OF h(1)] nh(2)] by auto
qed

lemma hashmap_packet_at:
  assumes lib: "crypto_ok (re_lib E)" and M: "msgpack_ok (re_msgpack E)" and tok: "new_token key MODE_AES = Inr t"
    and iv: "\<And>i. length (iv i) = 16" and P: "plan_ok (re_lib E) t P" and s: "receiver_at P t n h out wait s"
    and h: "HASHMAP_MAX_LEN dvd h" "h < parts_of P"
  shows "\<exists>s' q k ex. hashmap_update_packet E now iv (hmu_payload (re_msgpack E) P h) s = s' \<and>
    receiver_at P t n (next_height P h True) k ex s' \<and> request_ok P n k (next_height P h True) ex \<and>
    sends (rr_events s) [q] (rr_events s') \<and> request_packet E P t n k (next_height P h True) ex q"
proof -
  let ?M = "re_msgpack E" and ?seg = "h div HASHMAP_MAX_LEN"
  let ?items = "[MP_array 2, MP_uint ?seg, MP_bin (hashmap_segment P h)]"
  define s1 where "s1 = upd (\<lambda>r. r\<lparr>r_last_activity := now, r_retries_left := r_max_retries r\<rparr>) s"
  have s1: "receiver_at P t n h out wait s1" "rr_events s1 = rr_events s"
    using s by (simp_all add: s1_def receiver_at_def Let_def window_ok_def)
  have seg: "?seg < 2 ^ 16"
    using h(2) plan_okD(10) [OF P] div_le_dividend [of h HASHMAP_MAX_LEN] by linarith
  then have seg64: "?seg < 2 ^ 64" "?seg < 2 ^ 32" "?seg mod 2 ^ 16 = ?seg" by simp_all
  have "length (hashmap_segment P h) < 2 ^ 32" using length_segment [OF P, of h] by simp
  then have wf: "list_all (mp_wf (mp_double ?M)) ?items" using seg64(1) by simp
  have feed: "mp_feed ?M (mp_pack ?M ?items) = ?items" by (rule msgpack_okD(3) [OF M wf])
  have "length (mp_pack ?M ?items) > 0" using msgpack_okD(2) [OF M, of ?items] by simp
  then have len: "\<not> length (hmu_payload ?M P h) \<le> 256 div 8" "mid_end (hmu_payload ?M P h) (256 div 8) = mp_pack ?M ?items"
    using plan_okD(6) [OF P] by (simp_all add: hmu_payload_def mid_end_drop)
  have u: "mp_uint ?M 32 (MP_uint ?seg # MP_bin (hashmap_segment P h) # []) = (?seg, [MP_bin (hashmap_segment P h)])"
    "mp_bin ?M [MP_bin (hashmap_segment P h)] = (hashmap_segment P h, [])"
    using mp_read_simps(1,2) seg64(2) by blast+
  have "hashmap_update_packet E now iv (hmu_payload ?M P h) s = hashmap_update E now iv ?seg (hashmap_segment P h) s1"
    using receiver_at_fields(5) [OF s] len(1)
    unfolding hashmap_update_packet_def s1_def [symmetric] Let_def len(2) feed
    by (simp only: u seg64(3) prod.case mp_item.case list.case) simp
  then show ?thesis using hashmap_update_at [where now = now and iv = iv, OF lib tok iv P s1(1) h] s1(2) by simp
qed

end
