(* ===== verification/Link_Transfer.thy ===== *)
theory Link_Transfer
  imports Resource_Transfer
begin

text \<open>
  A whole transfer between two links: each packet one end sends is unpacked by the other end and
  dispatched by its link, until the receiving resource holds the data and the sending one is proved.
\<close>

section \<open>Two links\<close>

text \<open>What the environment chooses for the reception of one packet.\<close>

record moment =
  m_now :: real
  m_rnd :: bytes
  m_iv :: "nat \<Rightarrow> nat \<Rightarrow> bytes"
  m_rtt :: "bytes \<Rightarrow> real"
  m_prove :: bool

fun sent_of :: "end_event list \<Rightarrow> packet list" where
  "sent_of [] = []"
| "sent_of (Sent p # es) = p # sent_of es"
| "sent_of (_ # es) = sent_of es"

primrec deliver :: "resource_env \<Rightarrow> (nat \<Rightarrow> moment) \<Rightarrow> nat \<Rightarrow> packet list \<Rightarrow> link_end \<Rightarrow> link_end result" where
  "deliver E w i [] le = Inr le"
| "deliver E w i (p # ps) le =
     res_bind (end_receive E (m_rtt (w i)) (m_prove (w i)) (m_now (w i)) (m_rnd (w i)) (m_iv (w i))
                 (l_attached_interface (le_link le)) (arrives (re_lib E) p) le)
       (deliver E w (Suc i) ps)"

record session =
  ss_initiator :: link_end
  ss_receiver :: link_end
  ss_log :: "packet list"

text \<open>The receiver gets what the initiator has sent, and the initiator what the receiver sends then.\<close>

definition transfer_round :: "resource_env \<Rightarrow> (nat \<Rightarrow> moment) \<Rightarrow> (nat \<Rightarrow> moment) \<Rightarrow> session \<Rightarrow> session result" where
  "transfer_round E v w s =
     (let a = ss_initiator s
      in res_bind (deliver E v 0 (sent_of (le_events a)) (ss_receiver s)) (\<lambda>b.
         let qs = sent_of (le_events b)
         in res_bind (deliver E w 0 qs (a\<lparr>le_events := []\<rparr>)) (\<lambda>a1.
              Inr \<lparr>ss_initiator = a1, ss_receiver = b\<lparr>le_events := []\<rparr>, ss_log = ss_log s @ qs\<rparr>)))"

primrec transfer_rounds :: "resource_env \<Rightarrow> (nat \<Rightarrow> nat \<Rightarrow> moment) \<Rightarrow> nat \<Rightarrow> session \<Rightarrow> session result" where
  "transfer_rounds E w 0 s = Inr s"
| "transfer_rounds E w (Suc n) s = res_bind (transfer_rounds E w n s) (transfer_round E (w (2 * n)) (w (2 * n + 1)))"

text \<open>Two different packets of the log with the same packet hash.\<close>

definition hash_collision :: "crypto_lib \<Rightarrow> packet list \<Rightarrow> bool" where
  "hash_collision lib ps \<longleftrightarrow>
     (\<exists>p \<in> set ps. \<exists>q \<in> set ps. p_raw p \<noteq> p_raw q \<and> p_packet_hash (arrives lib p) = p_packet_hash (arrives lib q))"

section \<open>Operations of quiet events\<close>

definition run_of :: "nat \<Rightarrow> link_end \<Rightarrow> rrun" where
  "run_of k le = \<lparr>rr_res = object le k, rr_link = le_link le, rr_events = []\<rparr>"

lemma run_of_fields [simp]:
  "rr_res (run_of k le) = object le k" "rr_link (run_of k le) = le_link le" "rr_events (run_of k le) = []"
  by (simp_all add: run_of_def)

definition updated :: "nat \<Rightarrow> rrun \<Rightarrow> end_event list \<Rightarrow> link_end \<Rightarrow> link_end" where
  "updated k s es le =
     report es (le\<lparr>le_link := rr_link s, le_objects := (le_objects le)(k := Some (rr_res s))\<rparr>)"

lemma updated_fields [simp]:
  "le_link (updated k s es le) = rr_link s" "object (updated k s es le) k = rr_res s"
  "le_incoming (updated k s es le) = le_incoming le" "le_outgoing (updated k s es le) = le_outgoing le"
  "le_pending (updated k s es le) = le_pending le" "le_receipts (updated k s es le) = le_receipts le"
  "le_handlers (updated k s es le) = le_handlers le" "le_next (updated k s es le) = le_next le"
  "le_events (updated k s es le) = le_events le @ es"
  by (simp_all add: updated_def report_def object_def)

lemma sent_of_append [simp]: "sent_of (xs @ ys) = sent_of xs @ sent_of ys"
  by (induction xs rule: sent_of.induct) simp_all

lemma settle_append:
  "settle E now rnd iv k (xs @ ys) le = res_bind (settle E now rnd iv k xs le) (settle E now rnd iv k ys)"
  by (induction xs arbitrary: le) (auto simp: res_bind_def split: sum.splits)

lemma settle_quiet:
  "quiet evs \<Longrightarrow> \<exists>es. settle E now rnd iv k evs le = Inr (report es le) \<and> sent_of es = transmitted evs"
proof (induction evs arbitrary: le)
  case Nil
  then show ?case by (intro exI [of _ "[]"]) (simp add: report_def)
next
  case (Cons e evs)
  have e: "e = Progress_callback \<or> (\<exists>p. e = Transmit p)" and q: "quiet evs" using Cons.prems by (simp_all add: quiet_def)
  obtain x where x: "settle_event E now rnd iv k e le = Inr (report [x] le)" "sent_of [x] = transmitted [e]"
    using e by (auto simp: settle_event_def)
  obtain es where es: "settle E now rnd iv k evs (report [x] le) = Inr (report es (report [x] le))" "sent_of es = transmitted evs"
    using Cons.IH [OF q] by blast
  have "transmitted (e # evs) = transmitted [e] @ transmitted evs" using e by auto
  moreover have "sent_of (x # es) = sent_of [x] @ sent_of es" using sent_of_append [of "[x]" es] by simp
  ultimately show ?case using x es by (intro exI [of _ "x # es"]) (simp add: report_def)
qed

lemma operate_quiet:
  assumes "f k (run_of k le) = Inr s" and "sends [] ps (rr_events s)"
  shows "\<exists>es. operate E now rnd iv f k le = Inr (updated k s es le) \<and> sent_of es = ps"
proof -
  have "on_object (f k) k le = Inr (rr_events s, le\<lparr>le_link := rr_link s, le_objects := (le_objects le)(k := Some (rr_res s))\<rparr>)"
    using assms(1) by (simp add: on_object_def run_of_def)
  then show ?thesis
    using settle_quiet [of "rr_events s" E now rnd iv k] assms(2)
    by (fastforce simp: operate_def updated_def sends_empty)
qed

section \<open>What the link makes of a packet\<close>

lemma link_fit_active: "link_fit t l \<Longrightarrow> l_status l = LACTIVE"
  by (simp add: link_fit_def)

definition received_by :: "real \<Rightarrow> packet \<Rightarrow> link \<Rightarrow> link" where
  "received_by now p l = l\<lparr>l_last_inbound := now, l_last_data := now, l_rx := (l_rx l + 1) mod 2 ^ 16,
     l_rxbytes := (l_rxbytes l + length (p_data p)) mod 2 ^ 16, l_status := LACTIVE\<rparr>"

lemma received_by_fit [simp]: "link_fit t l \<Longrightarrow> link_fit t (received_by now p l)"
  by (simp add: received_by_def link_fit_def link_token_def split: option.splits)

lemma link_receive_head:
  assumes "link_fit t l" and "p_context p \<noteq> KEEPALIVE"
  shows "link_receive lib u pr now (l_attached_interface l) p l =
    (if p_packet_type p = DATA then receive_data lib u pr now p (received_by now p l)
     else if p_packet_type p = PROOF then
       Inr (received_by now p l, if p_context p = RESOURCE_PRF then [Resource_input RESOURCE_PRF (p_data p)] else [])
     else Inr (received_by now p l, []))"
  using assms by (simp add: link_receive_def link_fit_def received_by_def Let_def)

lemma link_receive_message:
  assumes l: "link_fit t l" and p: "p_packet_type p = DATA" "p_context p = ctx"
    and ctx: "ctx = RESOURCE_ADV \<or> ctx = RESOURCE_REQ \<or> ctx = RESOURCE_HMU"
    and d: "\<And>m. link_fit t m \<Longrightarrow> link_decrypt lib m (p_data p) = Inr (dat, m\<lparr>l_token := Some t\<rparr>)" and ne: "dat \<noteq> []"
  shows "\<exists>l'. link_receive lib u pr now (l_attached_interface l) p l = Inr (l', [Resource_input ctx dat]) \<and> link_fit t l'"
proof -
  let ?m = "received_by now p l"
  have m: "link_fit t ?m" using l by simp
  have k: "p_context p \<noteq> KEEPALIVE" using p(2) ctx by auto
  have "receive_data lib u pr now p ?m = decrypt_input lib p (\<lambda>pt. [Resource_input ctx pt]) ?m"
    using ctx p(2) by (elim disjE) (simp_all add: receive_data_def)
  then have "receive_data lib u pr now p ?m = Inr (?m\<lparr>l_token := Some t\<rparr>, [Resource_input ctx dat])"
    using ne by (simp add: decrypt_input_def d [OF m])
  then show ?thesis using link_receive_head [OF l k, of lib u pr now] p(1) link_fit_fields(2) [OF m] by simp
qed

lemma link_receive_part:
  assumes l: "link_fit t l" and p: "p_packet_type p = DATA" "p_context p = RESOURCE"
  shows "\<exists>l'. link_receive lib u pr now (l_attached_interface l) p l = Inr (l', [Resource_input RESOURCE (p_data p)]) \<and> link_fit t l'"
  using link_receive_head [OF l, of p lib u pr now] p l by (simp add: receive_data_def)

lemma link_receive_proof:
  assumes l: "link_fit t l" and p: "p_packet_type p = PROOF" "p_context p = RESOURCE_PRF"
  shows "\<exists>l'. link_receive lib u pr now (l_attached_interface l) p l = Inr (l', [Resource_input RESOURCE_PRF (p_data p)]) \<and> link_fit t l'"
  using link_receive_head [OF l, of p lib u pr now] p l by simp

text \<open>One input, handled by one object.\<close>

lemma end_receive_input:
  assumes "link_receive (re_lib E) u pr now iface p (le_link le) = Inr (l, [Resource_input ctx pt])"
  shows "end_receive E u pr now rnd iv iface p le = resource_input E now rnd iv p ctx pt (le\<lparr>le_link := l\<rparr>)"
  using assms by (simp add: end_receive_def) (simp add: res_bind_def split: sum.split)

lemma run_of_simps [simp]:
  "run_of k (updated k s es le) = s\<lparr>rr_events := []\<rparr>" "run_of k (le\<lparr>le_link := l\<rparr>) = (run_of k le)\<lparr>rr_link := l\<rparr>"
  "run_of k (le\<lparr>le_events := es\<rparr>) = run_of k le" "object (le\<lparr>le_link := l\<rparr>) k = object le k"
  "object (le\<lparr>le_events := es\<rparr>) k = object le k"
  by (simp_all add: run_of_def object_def updated_def report_def)

lemma each_one: "res_bind x (each f []) = x"
  by (simp add: res_bind_def split: sum.split)

text \<open>An operation on the only object, with its packets.\<close>

lemma operate_only:
  assumes "f k (run_of k le) = Inr s" and "sends [] ps (rr_events s)"
  shows "\<exists>le'. each (operate E now rnd iv f) [k] le = Inr le' \<and> run_of k le' = s\<lparr>rr_events := []\<rparr> \<and>
    le_incoming le' = le_incoming le \<and> le_outgoing le' = le_outgoing le \<and>
    sent_of (le_events le') = sent_of (le_events le) @ ps"
proof -
  obtain es where "operate E now rnd iv f k le = Inr (updated k s es le)" "sent_of es = ps"
    using operate_quiet [of f k le s ps E now rnd iv] assms by blast
  then show ?thesis by (intro exI [of _ "updated k s es le"]) simp
qed

section \<open>The receiving end\<close>

definition recv_end :: "plan \<Rightarrow> token \<Rightarrow> nat \<Rightarrow> nat \<Rightarrow> nat \<Rightarrow> bool \<Rightarrow> nat \<Rightarrow> link_end \<Rightarrow> bool" where
  "recv_end P t n h out wait k b \<longleftrightarrow> le_incoming b = [k] \<and> le_outgoing b = [] \<and> receiver_at P t n h out wait (run_of k b) \<and>
     \<not> r_receive_lock (object b k)"

lemma receiver_at_frame:
  "receiver_at P t n h out wait (s\<lparr>rr_events := es\<rparr>) = receiver_at P t n h out wait s"
  "receiver_at P t n h out wait s \<Longrightarrow> link_fit t l \<Longrightarrow> receiver_at P t n h out wait (s\<lparr>rr_link := l\<rparr>)"
  by (simp_all add: receiver_at_def Let_def)

lemma recv_end_fit: "recv_end P t n h out wait k b \<Longrightarrow> link_fit t (le_link b)"
  using receiver_at_fields(1) [of P t n h out wait "run_of k b"] by (simp add: recv_end_def)

abbreviation at_moment :: "resource_env \<Rightarrow> moment \<Rightarrow> packet \<Rightarrow> link_end \<Rightarrow> link_end result" where
  "at_moment E w p b \<equiv> end_receive E (m_rtt w) (m_prove w) (m_now w) (m_rnd w) (m_iv w) (l_attached_interface (le_link b)) p b"

lemma receive_part_op:
  "resource_input E now rnd iv p RESOURCE pt le = each (operate E now rnd iv (\<lambda>k. receive_part E now (iv k) p)) (le_incoming le) le"
  by (simp add: resource_inputs Let_def)

text \<open>A packet for the only incoming resource.\<close>

lemma recv_step:
  assumes b: "recv_end P t n h out wait k b"
    and l: "link_receive (re_lib E) (m_rtt w) (m_prove w) (m_now w) (l_attached_interface (le_link b)) p (le_link b)
      = Inr (l, [Resource_input ctx pt])" "link_fit t l"
    and op: "resource_input E (m_now w) (m_rnd w) (m_iv w) p ctx pt (b\<lparr>le_link := l\<rparr>)
      = each (operate E (m_now w) (m_rnd w) (m_iv w) f) [k] (b\<lparr>le_link := l\<rparr>)"
    and s: "f k ((run_of k b)\<lparr>rr_link := l\<rparr>) = Inr s" "sends [] ps (rr_events s)" "\<not> r_receive_lock (rr_res s)"
      "receiver_at P t n' h' out' wait' s"
  shows "\<exists>b'. at_moment E w p b = Inr b' \<and> recv_end P t n' h' out' wait' k b' \<and> sent_of (le_events b') = sent_of (le_events b) @ ps"
proof -
  have tab: "le_incoming b = [k]" "le_outgoing b = []" using b by (simp_all add: recv_end_def)
  obtain b' where b': "each (operate E (m_now w) (m_rnd w) (m_iv w) f) [k] (b\<lparr>le_link := l\<rparr>) = Inr b'"
    "run_of k b' = s\<lparr>rr_events := []\<rparr>" "le_incoming b' = [k]" "le_outgoing b' = []"
    "sent_of (le_events b') = sent_of (le_events b) @ ps"
    using operate_only [of f k "b\<lparr>le_link := l\<rparr>" s ps E "m_now w" "m_rnd w" "m_iv w"] s(1,2) tab by auto
  have "object b' k = rr_res s" using arg_cong [OF b'(2), of rr_res] by simp
  then have "recv_end P t n' h' out' wait' k b'"
    using b'(2-4) s(3,4) by (simp add: recv_end_def receiver_at_frame(1))
  then show ?thesis using b' unfolding end_receive_input [OF l(1)] op by blast
qed

lemma recv_part:
  assumes b: "recv_end P t n h out wait k b" and p: "part_of (re_lib E) c q"
  obtains l where "link_fit t l"
    and "receiver_at P t n h out wait ((run_of k b)\<lparr>rr_link := l\<rparr>)" "\<not> r_receive_lock (rr_res ((run_of k b)\<lparr>rr_link := l\<rparr>))"
    and "link_receive (re_lib E) (m_rtt w) (m_prove w) (m_now w) (l_attached_interface (le_link b)) (arrives (re_lib E) q) (le_link b)
      = Inr (l, [Resource_input RESOURCE c])"
    and "resource_input E (m_now w) (m_rnd w) (m_iv w) (arrives (re_lib E) q) RESOURCE c (b\<lparr>le_link := l\<rparr>)
      = each (operate E (m_now w) (m_rnd w) (m_iv w) (\<lambda>k. receive_part E (m_now w) (m_iv w k) (arrives (re_lib E) q))) [k] (b\<lparr>le_link := l\<rparr>)"
proof -
  let ?p = "arrives (re_lib E) q"
  have p: "p_packet_type ?p = DATA" "p_context ?p = RESOURCE" "p_data ?p = c" using p by (simp_all add: part_of_def)
  obtain l where l: "link_receive (re_lib E) (m_rtt w) (m_prove w) (m_now w) (l_attached_interface (le_link b)) ?p (le_link b)
      = Inr (l, [Resource_input RESOURCE c])" "link_fit t l"
    using link_receive_part [OF recv_end_fit [OF b] p(1,2)] p(3) by metis
  show ?thesis
    by (rule that [OF l(2) _ _ l(1)])
      (use b receiver_at_frame(2) [OF _ l(2)] in \<open>simp_all add: recv_end_def resource_inputs Let_def\<close>)
qed

lemma recv_part_more:
  assumes P: "plan_ok (re_lib E) t P" and b: "recv_end P t n h out wait k b" and q: "part_of (re_lib E) (pl_chunks P ! n) q"
    and n: "n < h" "Suc n < parts_of P" and out: "out > 1 \<or> wait"
  shows "\<exists>b'. at_moment E w (arrives (re_lib E) q) b = Inr b' \<and> recv_end P t (Suc n) h (out - 1) wait k b' \<and>
    sent_of (le_events b') = sent_of (le_events b)"
proof -
  obtain l where l: "link_fit t l" and at: "receiver_at P t n h out wait ((run_of k b)\<lparr>rr_link := l\<rparr>)"
      "\<not> r_receive_lock (rr_res ((run_of k b)\<lparr>rr_link := l\<rparr>))"
    and lr: "link_receive (re_lib E) (m_rtt w) (m_prove w) (m_now w) (l_attached_interface (le_link b)) (arrives (re_lib E) q) (le_link b)
      = Inr (l, [Resource_input RESOURCE (pl_chunks P ! n)])"
    and op: "resource_input E (m_now w) (m_rnd w) (m_iv w) (arrives (re_lib E) q) RESOURCE (pl_chunks P ! n) (b\<lparr>le_link := l\<rparr>)
      = each (operate E (m_now w) (m_rnd w) (m_iv w) (\<lambda>k. receive_part E (m_now w) (m_iv w k) (arrives (re_lib E) q))) [k] (b\<lparr>le_link := l\<rparr>)"
    by (rule recv_part [OF b q])
  have d: "p_data (arrives (re_lib E) q) = pl_chunks P ! n" using q by (simp add: part_of_def)
  obtain s where s: "receive_part E (m_now w) (m_iv w k) (arrives (re_lib E) q) ((run_of k b)\<lparr>rr_link := l\<rparr>) = Inr s"
    "receiver_at P t (Suc n) h (out - 1) wait s" "\<not> r_receive_lock (rr_res s)" "sends [] [] (rr_events s)"
    using part_more [OF P at n d out, of "m_now w" "m_iv w k"] by auto
  show ?thesis using recv_step [OF b lr l op s(1,4,3,2)] by simp
qed

lemma recv_part_last:
  assumes lib: "crypto_ok (re_lib E)" and tok: "new_token key MODE_AES = Inr t" and iv: "\<And>i j. length (m_iv w i j) = 16"
    and P: "plan_ok (re_lib E) t P" and b: "recv_end P t n h 1 False k b" and q: "part_of (re_lib E) (pl_chunks P ! n) q"
    and n: "n < h" "Suc n < parts_of P" and dvd: "h < parts_of P \<Longrightarrow> HASHMAP_MAX_LEN dvd h"
  shows "\<exists>b' r m ex. at_moment E w (arrives (re_lib E) q) b = Inr b' \<and> recv_end P t (Suc n) h m ex k b' \<and>
    request_ok P (Suc n) m h ex \<and> sent_of (le_events b') = sent_of (le_events b) @ [r] \<and> request_packet E P t (Suc n) m h ex r"
proof -
  obtain l where l: "link_fit t l" and at: "receiver_at P t n h 1 False ((run_of k b)\<lparr>rr_link := l\<rparr>)"
      "\<not> r_receive_lock (rr_res ((run_of k b)\<lparr>rr_link := l\<rparr>))"
    and lr: "link_receive (re_lib E) (m_rtt w) (m_prove w) (m_now w) (l_attached_interface (le_link b)) (arrives (re_lib E) q) (le_link b)
      = Inr (l, [Resource_input RESOURCE (pl_chunks P ! n)])"
    and op: "resource_input E (m_now w) (m_rnd w) (m_iv w) (arrives (re_lib E) q) RESOURCE (pl_chunks P ! n) (b\<lparr>le_link := l\<rparr>)
      = each (operate E (m_now w) (m_rnd w) (m_iv w) (\<lambda>k. receive_part E (m_now w) (m_iv w k) (arrives (re_lib E) q))) [k] (b\<lparr>le_link := l\<rparr>)"
    by (rule recv_part [OF b q])
  have d: "p_data (arrives (re_lib E) q) = pl_chunks P ! n" using q by (simp add: part_of_def)
  obtain s r m ex where s: "receive_part E (m_now w) (m_iv w k) (arrives (re_lib E) q) ((run_of k b)\<lparr>rr_link := l\<rparr>) = Inr s"
    "receiver_at P t (Suc n) h m ex s" "\<not> r_receive_lock (rr_res s)" "sends [] [r] (rr_events s)"
    "request_ok P (Suc n) m h ex" "request_packet E P t (Suc n) m h ex r"
    using part_last [where now = "m_now w" and iv = "m_iv w k", OF lib tok iv P at n d dvd] by auto
  show ?thesis using recv_step [OF b lr l op s(1,4,3,2)] s(5,6) by blast
qed

text \<open>The last part: the resource is concluded and its proof sent.\<close>

lemma operate_finishes:
  assumes "f k (run_of k le) = Inr s" and "finishes [] p (rr_events s)"
  shows "\<exists>es cb. operate E now rnd iv f k le
      = res_bind (resource_concluded E now rnd iv k (updated k s es le)) (settle E now rnd iv k cb) \<and>
    sent_of es = [p] \<and> (cb = [] \<or> cb = [Concluded_callback])"
proof -
  obtain evs cb where e: "rr_events s = evs @ [Transmit p, Cache p, Link_concluded] @ cb" "quiet evs" "transmitted evs = []"
    "cb = [] \<or> cb = [Concluded_callback]"
    using assms(2) unfolding finishes_def by auto
  let ?le = "le\<lparr>le_link := rr_link s, le_objects := (le_objects le)(k := Some (rr_res s))\<rparr>"
  obtain es where es: "settle E now rnd iv k evs ?le = Inr (report es ?le)" "sent_of es = []"
    using settle_quiet [OF e(2)] e(3) by metis
  have "on_object (f k) k le = Inr (rr_events s, ?le)" using assms(1) by (simp add: on_object_def run_of_def)
  then have "operate E now rnd iv f k le = settle E now rnd iv k ([Transmit p, Cache p, Link_concluded] @ cb) (report es ?le)"
    using es(1) by (simp only: operate_def res_bind_simps prod.case e(1) settle_append)
  also have "\<dots> = res_bind (resource_concluded E now rnd iv k (updated k s (es @ [Sent p, Cached p]) le)) (settle E now rnd iv k cb)"
    by (simp add: settle_event_def report_def updated_def)
  finally show ?thesis using es(2) e(4) by (intro exI [of _ "es @ [Sent p, Cached p]"] exI [of _ cb]) simp
qed

definition recv_complete :: "plan \<Rightarrow> token \<Rightarrow> nat \<Rightarrow> link_end \<Rightarrow> bool" where
  "recv_complete P t k b \<longleftrightarrow> le_incoming b = [] \<and> le_outgoing b = [] \<and> r_status (object b k) = R_COMPLETE \<and>
     r_data (object b k) = pl_data P \<and> link_fit t (le_link b)"

lemma object_tables [simp]:
  "object (le\<lparr>le_incoming := xs\<rparr>) k = object le k" "object (le\<lparr>le_outgoing := xs\<rparr>) k = object le k"
  "object (report es le) k = object le k" "le_events (report es le) = le_events le @ es"
  "le_incoming (report es le) = le_incoming le" "le_outgoing (report es le) = le_outgoing le" "le_link (report es le) = le_link le"
  by (simp_all add: object_def report_def)

lemma recv_part_final:
  assumes P: "plan_ok (re_lib E) t P" and b: "recv_end P t n h out wait k b" and q: "part_of (re_lib E) (pl_chunks P ! n) q"
    and n: "n < h" "Suc n = parts_of P" and rid: "pl_request_id P = []"
  shows "\<exists>b' r. at_moment E w (arrives (re_lib E) q) b = Inr b' \<and> recv_complete P t k b' \<and>
    sent_of (le_events b') = sent_of (le_events b) @ [r] \<and> proof_packet E P r"
proof -
  obtain l where l: "link_fit t l" and at: "receiver_at P t n h out wait ((run_of k b)\<lparr>rr_link := l\<rparr>)"
      "\<not> r_receive_lock (rr_res ((run_of k b)\<lparr>rr_link := l\<rparr>))"
    and lr: "link_receive (re_lib E) (m_rtt w) (m_prove w) (m_now w) (l_attached_interface (le_link b)) (arrives (re_lib E) q) (le_link b)
      = Inr (l, [Resource_input RESOURCE (pl_chunks P ! n)])"
    and op: "resource_input E (m_now w) (m_rnd w) (m_iv w) (arrives (re_lib E) q) RESOURCE (pl_chunks P ! n) (b\<lparr>le_link := l\<rparr>)
      = each (operate E (m_now w) (m_rnd w) (m_iv w) (\<lambda>k. receive_part E (m_now w) (m_iv w k) (arrives (re_lib E) q))) [k] (b\<lparr>le_link := l\<rparr>)"
    by (rule recv_part [OF b q])
  have d: "p_data (arrives (re_lib E) q) = pl_chunks P ! n" using q by (simp add: part_of_def)
  obtain s r where s: "receive_part E (m_now w) (m_iv w k) (arrives (re_lib E) q) ((run_of k b)\<lparr>rr_link := l\<rparr>) = Inr s"
    "receiver_done P t s" "finishes [] r (rr_events s)" "proof_packet E P r"
    using part_final [OF P at n d, of "m_now w" "m_iv w k"] by auto
  obtain es cb where es: "operate E (m_now w) (m_rnd w) (m_iv w) (\<lambda>k. receive_part E (m_now w) (m_iv w k) (arrives (re_lib E) q)) k (b\<lparr>le_link := l\<rparr>)
      = res_bind (resource_concluded E (m_now w) (m_rnd w) (m_iv w) k (updated k s es (b\<lparr>le_link := l\<rparr>))) (settle E (m_now w) (m_rnd w) (m_iv w) k cb)"
    "sent_of es = [r]" "cb = [] \<or> cb = [Concluded_callback]"
    using operate_finishes [where f = "\<lambda>k. receive_part E (m_now w) (m_iv w k) (arrives (re_lib E) q)" and k = k
        and le = "b\<lparr>le_link := l\<rparr>" and s = s and p = r and E = E and now = "m_now w" and rnd = "m_rnd w" and iv = "m_iv w"]
      s(1,3) by auto
  define b1 where "b1 = table_event k Link_concluded (updated k s es (b\<lparr>le_link := l\<rparr>))"
  have c: "resource_concluded E (m_now w) (m_rnd w) (m_iv w) k (updated k s es (b\<lparr>le_link := l\<rparr>)) = Inr b1"
    using s(2) rid by (simp add: resource_concluded_def receiver_done_def Let_def b1_def)
  define b2 where "b2 = table_events k cb b1"
  have "settle E (m_now w) (m_rnd w) (m_iv w) k cb b1 = Inr b2"
    using es(3) by (auto simp: b2_def table_events_def settle_event_def)
  then have "at_moment E w (arrives (re_lib E) q) b = Inr b2"
    unfolding end_receive_input [OF lr] op by (simp add: es(1) c)
  moreover have "recv_complete P t k b2 \<and> sent_of (le_events b2) = sent_of (le_events b) @ [r]"
    using es(2,3) s(2) b by (auto simp: b2_def b1_def table_events_def recv_complete_def receiver_done_def recv_end_def)
  ultimately show ?thesis using s(4) by blast
qed

text \<open>A hashmap update.\<close>

lemma apply_hashmap_lock [simp]: "r_receive_lock (apply_hashmap segment m r) = r_receive_lock r"
proof -
  have "r_receive_lock (fold (\<lambda>i. set_map_hash (f i) (g i)) is r) = r_receive_lock r" for f g "is"
    by (induction "is" arbitrary: r) (simp_all add: set_map_hash_def Let_def)
  then show ?thesis unfolding apply_hashmap_def Let_def .
qed

lemma hashmap_update_packet_lock:
  "r_receive_lock (rr_res (hashmap_update_packet E now iv pt s)) = r_receive_lock (rr_res s)"
  by (simp add: hashmap_update_packet_def hashmap_update_def Let_def split_beta split: list.split mp_item.split)

lemma recv_hashmap:
  assumes lib: "crypto_ok (re_lib E)" and M: "msgpack_ok (re_msgpack E)" and tok: "new_token key MODE_AES = Inr t"
    and iv: "\<And>i j. length (m_iv w i j) = 16" and P: "plan_ok (re_lib E) t P" and b: "recv_end P t n h out wait k b"
    and q: "hmu_packet E P t h q" and h: "HASHMAP_MAX_LEN dvd h" "h < parts_of P"
  shows "\<exists>b' r m ex. at_moment E w (arrives (re_lib E) q) b = Inr b' \<and> recv_end P t n (next_height P h True) m ex k b' \<and>
    request_ok P n m (next_height P h True) ex \<and> sent_of (le_events b') = sent_of (le_events b) @ [r] \<and>
    request_packet E P t n m (next_height P h True) ex r"
proof -
  let ?p = "arrives (re_lib E) q" and ?pt = "hmu_payload (re_msgpack E) P h"
  have len: "length (pl_hash P) = 32" by (rule plan_okD(6) [OF P])
  then have pt: "?pt \<noteq> []" "\<not> length ?pt < 256 div 8" "left ?pt (256 div 8) = pl_hash P"
    by (auto simp: hmu_payload_def left_def)
  obtain l where l: "link_receive (re_lib E) (m_rtt w) (m_prove w) (m_now w) (l_attached_interface (le_link b)) ?p (le_link b)
      = Inr (l, [Resource_input RESOURCE_HMU ?pt])" "link_fit t l"
    using link_receive_message [OF recv_end_fit [OF b], of ?p RESOURCE_HMU "re_lib E" ?pt] q pt(1) unfolding hmu_packet_def by blast
  have tab: "le_incoming b = [k]" "r_hash (object b k) = pl_hash P"
    using b by (simp_all add: recv_end_def receiver_at_def Let_def)
  have op: "resource_input E (m_now w) (m_rnd w) (m_iv w) ?p RESOURCE_HMU ?pt (b\<lparr>le_link := l\<rparr>)
      = each (operate E (m_now w) (m_rnd w) (m_iv w) (\<lambda>k s. Inr (hashmap_update_packet E (m_now w) (m_iv w k) ?pt s))) [k] (b\<lparr>le_link := l\<rparr>)"
    unfolding resource_inputs Let_def pt(3) using pt(2) tab by (simp add: with_hash_def)
  have at: "receiver_at P t n h out wait ((run_of k b)\<lparr>rr_link := l\<rparr>)" "\<not> r_receive_lock (object b k)"
    using b receiver_at_frame(2) [OF _ l(2)] by (simp_all add: recv_end_def)
  obtain s r m ex where s: "hashmap_update_packet E (m_now w) (m_iv w k) ?pt ((run_of k b)\<lparr>rr_link := l\<rparr>) = s"
    "receiver_at P t n (next_height P h True) m ex s" "request_ok P n m (next_height P h True) ex"
    "sends [] [r] (rr_events s)" "request_packet E P t n m (next_height P h True) ex r"
    using hashmap_packet_at [where now = "m_now w" and iv = "m_iv w k", OF lib M tok iv P at(1) h] by auto
  have "\<not> r_receive_lock (rr_res s)"
    using at s(1) hashmap_update_packet_lock [of E "m_now w" "m_iv w k" ?pt "(run_of k b)\<lparr>rr_link := l\<rparr>"] by simp
  then show ?thesis
    using recv_step [where f = "\<lambda>k s. Inr (hashmap_update_packet E (m_now w) (m_iv w k) ?pt s)", OF b l op _ s(4) _ s(2)] s(1,3,5) by blast
qed

text \<open>Several parts of a window that goes on.\<close>

lemma deliver_parts:
  assumes P: "plan_ok (re_lib E) t P"
  shows "recv_end P t n h out wait k b \<Longrightarrow> list_all2 (part_of (re_lib E)) (take m (drop n (pl_chunks P))) qs \<Longrightarrow>
    n + m \<le> h \<Longrightarrow> n + m < parts_of P \<Longrightarrow> m < out \<or> wait \<Longrightarrow>
    \<exists>b'. (\<forall>rest. deliver E w i (qs @ rest) b = deliver E w (i + m) rest b') \<and> recv_end P t (n + m) h (out - m) wait k b' \<and>
      sent_of (le_events b') = sent_of (le_events b)"
proof (induction m arbitrary: n out b i qs)
  case 0
  then show ?case by (intro exI [of _ b]) simp
next
  case (Suc m)
  have "take (Suc m) (drop n (pl_chunks P)) = pl_chunks P ! n # take m (drop (Suc n) (pl_chunks P))"
    using Suc.prems(4) by (simp add: Cons_nth_drop_Suc [symmetric])
  then obtain q qs' where q: "qs = q # qs'" "part_of (re_lib E) (pl_chunks P ! n) q"
    "list_all2 (part_of (re_lib E)) (take m (drop (Suc n) (pl_chunks P))) qs'"
    using Suc.prems(2) by (auto simp: list_all2_Cons1)
  obtain b1 where b1: "at_moment E (w i) (arrives (re_lib E) q) b = Inr b1" "recv_end P t (Suc n) h (out - 1) wait k b1"
    "sent_of (le_events b1) = sent_of (le_events b)"
    using recv_part_more [OF P Suc.prems(1) q(2), where w = "w i"] Suc.prems(3-5) by fastforce
  have "m < out - 1 \<or> wait" using Suc.prems(5) by auto
  from Suc.IH [OF b1(2) q(3) _ _ this, of "Suc i"] Suc.prems(3,4) obtain b' where
    "\<forall>rest. deliver E w (Suc i) (qs' @ rest) b1 = deliver E w (Suc i + m) rest b'"
    "recv_end P t (Suc n + m) h (out - 1 - m) wait k b'" "sent_of (le_events b') = sent_of (le_events b1)"
    by auto
  then show ?case using b1 q(1) by (intro exI [of _ b']) simp
qed

section \<open>The sending end\<close>

definition init_end :: "plan \<Rightarrow> token \<Rightarrow> packet list \<Rightarrow> nat \<Rightarrow> nat \<Rightarrow> nat \<Rightarrow> link_end \<Rightarrow> bool" where
  "init_end P t ps n h j a \<longleftrightarrow> le_outgoing a = [j] \<and> le_incoming a = [] \<and> sender_at P t ps n h (run_of j a)"

definition init_done :: "plan \<Rightarrow> token \<Rightarrow> nat \<Rightarrow> link_end \<Rightarrow> bool" where
  "init_done P t j a \<longleftrightarrow> le_outgoing a = [j] \<and> le_incoming a = [] \<and> sender_done P t (run_of j a)"

lemma sender_frame [simp]:
  "sender_at P t ps n h (s\<lparr>rr_events := es\<rparr>) = sender_at P t ps n h s"
  "sender_done P t (s\<lparr>rr_events := es\<rparr>) = sender_done P t s"
  by (simp_all add: sender_at_def sender_done_def Let_def)

lemma sender_link:
  "sender_at P t ps n h s \<Longrightarrow> link_fit t l \<Longrightarrow> sender_at P t ps n h (s\<lparr>rr_link := l\<rparr>)"
  "sender_done P t s \<Longrightarrow> link_fit t l \<Longrightarrow> sender_done P t (s\<lparr>rr_link := l\<rparr>)"
  by (simp_all add: sender_at_def sender_done_def Let_def)

lemma requested_hash_for:
  assumes "plan_ok lib t P" and "ex \<Longrightarrow> 0 < h \<and> h \<le> parts_of P"
  shows "requested_hash (request_for P n k h ex) = pl_hash P" and "request_for P n k h ex \<noteq> []"
proof -
  have len: "length (pl_hash P) = 32" by (rule plan_okD(6) [OF assms(1)])
  have "ex \<Longrightarrow> length (pl_hashes P ! (h - 1)) = 4"
    using assms(2) plan_okD(2) [OF assms(1) nth_mem, of "h - 1"] plan_okD(1) [OF assms(1)] by auto
  then show "requested_hash (request_for P n k h ex) = pl_hash P"
    using len by (cases ex) (simp_all add: requested_hash_def request_for_def mid_take_drop)
qed (simp add: request_for_def)

text \<open>Requests leave the list of seen requests alone.\<close>

abbreviation seen :: "rrun \<Rightarrow> bytes list" where "seen s \<equiv> r_req_hashlist (rr_res s)"

lemma seen_cancel [simp]: "seen (cancel E now iv s) = seen s"
  by (subst cancel_res(1)) simp

lemma seen_serve: "serve_parts E now iv wanted is s = Inr (ok, s') \<Longrightarrow> seen s' = seen s"
proof (induction "is" arbitrary: s)
  case (Cons i "is")
  have one: "seen s1 = seen s" if "serve_part E now iv wanted i s = Inr (x, s1)" for x s1
  proof (cases "r_parts (rr_res s) ! i")
    case (Some p)
    have "rr_res (snd (send_part E now p s)) = rr_res s" by (simp add: send_part_def Let_def split: sum.split)
    then show ?thesis using that Some by (cases "send_part E now p s") (auto simp: serve_part_def split: if_splits sum.splits)
  qed (use that in \<open>auto simp: serve_part_def split: if_splits\<close>)
  from Cons.prems obtain x s1 where "serve_part E now iv wanted i s = Inr (x, s1)"
    "(if x then serve_parts E now iv wanted is s1 else Inr (False, s1)) = Inr (ok, s')"
    by (auto simp: res_bind_eq_Inr)
  then show ?case using one Cons.IH by (cases x) auto
qed simp

lemma seen_request: "request E now iv pt s = Inr s' \<Longrightarrow> seen s' = seen s"
proof -
  have hm: "seen s2 = seen s1" if "send_hashmap E now iv' x is s1 = (ok, s2)" for iv' x "is" s1 ok s2
  proof -
    define s0 where "s0 = upd (\<lambda>r. r\<lparr>r_receiver_min_consecutive_height := r_receiver_min_consecutive_height (rr_res s1) + seen_entries (rr_res s1) x is - 1 - WINDOW_MAX\<rparr>) s1"
    have s0: "seen s0 = seen s1" by (simp add: s0_def)
    have "seen s3 = seen s1" if "res_send E now i ty ctx dat s0 = (y, s3)" for i ty ctx dat y s3
      using res_send_resD [OF that] s0 by simp
    then show ?thesis
      using that s0 unfolding send_hashmap_def Let_def s0_def [symmetric] by (auto split: if_splits prod.splits sum.splits)
  qed
  have fin: "seen (finish_request s1) = seen s1" for s1 by (simp add: finish_request_def Let_def)
  assume a: "request E now iv pt s = Inr s'"
  define s1 where "s1 = upd (\<lambda>r. r\<lparr>r_rtt := (if r_rtt r = 0 then now - r_adv_sent r else r_rtt r),
                            r_status := R_TRANSFERRING, r_retries_left := r_max_retries r\<rparr>) s"
  have s1: "seen s1 = seen s" by (simp add: s1_def)
  show ?thesis
    using a s1 hm fin seen_serve unfolding request_def Let_def s1_def [symmetric]
    by (auto simp: res_bind_eq_Inr split: if_splits prod.splits bool.splits) (metis+)?
qed

lemma init_request:
  assumes lib: "crypto_ok (re_lib E)" and M: "msgpack_ok (re_msgpack E)" and tok: "new_token key MODE_AES = Inr t"
    and iv: "\<And>i j. length (m_iv w i j) = 16" and P: "plan_ok (re_lib E) t P"
    and ps: "\<forall>p \<in> set ps. \<not> p_sent p" "length ps = parts_of P"
    and a: "init_end P t ps n h j a" "le_events a = []" and req: "request_ok P n k h ex" "request_packet E P t n k h ex q"
    and new: "p_packet_hash (arrives (re_lib E) q) \<notin> set (r_req_hashlist (object a j))"
  shows "\<exists>a' hmu. at_moment E w (arrives (re_lib E) q) a = Inr a' \<and> sent_of (le_events a') = take k (drop n ps) @ hmu \<and>
    (if ex then \<exists>p. hmu = [p] \<and> hmu_packet E P t h p else hmu = []) \<and>
    (if n + k = parts_of P then init_done P t j a' else init_end P t ps (n + k) (next_height P h ex) j a') \<and>
    r_req_hashlist (object a' j) = r_req_hashlist (object a j) @ [p_packet_hash (arrives (re_lib E) q)]"
proof -
  let ?p = "arrives (re_lib E) q" and ?pt = "request_for P n k h ex"
  have ex: "ex \<Longrightarrow> 0 < h \<and> h \<le> parts_of P" using req(1) by (simp add: request_ok_def)
  have rh: "requested_hash ?pt = pl_hash P" "?pt \<noteq> []"
    using requested_hash_for [OF P, of ex h n k] ex by blast+
  have tab: "le_outgoing a = [j]" "le_incoming a = []" "r_hash (object a j) = pl_hash P" "link_fit t (le_link a)"
    using a(1) by (simp_all add: init_end_def sender_at_def Let_def)
  obtain l where l: "link_receive (re_lib E) (m_rtt w) (m_prove w) (m_now w) (l_attached_interface (le_link a)) ?p (le_link a)
      = Inr (l, [Resource_input RESOURCE_REQ ?pt])" "link_fit t l"
    using link_receive_message [OF tab(4), of ?p RESOURCE_REQ "re_lib E" ?pt] req(2) rh(2) unfolding request_packet_def by blast
  let ?f = "\<lambda>j. new_request E (m_now w) (m_iv w j) (p_packet_hash ?p) ?pt"
  have ne: "pl_hash P \<noteq> []" using plan_okD(6) [OF P] by auto
  have op: "resource_input E (m_now w) (m_rnd w) (m_iv w) ?p RESOURCE_REQ ?pt (a\<lparr>le_link := l\<rparr>)
      = each (operate E (m_now w) (m_rnd w) (m_iv w) ?f) [j] (a\<lparr>le_link := l\<rparr>)"
    unfolding resource_inputs Let_def rh(1) using tab ne by (simp add: with_hash_def)
  define s0 where "s0 = upd (\<lambda>r. r\<lparr>r_req_hashlist := r_req_hashlist r @ [p_packet_hash ?p]\<rparr>) ((run_of j a)\<lparr>rr_link := l\<rparr>)"
  have s0: "sender_at P t ps n h s0" "rr_events s0 = []"
    using a(1) l(2) by (simp_all add: s0_def init_end_def sender_at_def Let_def)
  obtain s hmu where s: "request E (m_now w) (m_iv w j) ?pt s0 = Inr s" "transmitted (rr_events s) = take k (drop n ps) @ hmu"
    "quiet (rr_events s)" "if ex then \<exists>p. hmu = [p] \<and> hmu_packet E P t h p else hmu = []"
    "if n + k = parts_of P then sender_done P t s else sender_at P t ps (n + k) (next_height P h ex) s"
    using request_ok_answer [where now = "m_now w" and iv = "m_iv w j", OF lib M tok iv P ps s0 req(1)] by blast
  have f: "?f j ((run_of j a)\<lparr>rr_link := l\<rparr>) = Inr s"
    using new s(1) by (simp add: new_request_def s0_def)
  have sd: "sends [] (take k (drop n ps) @ hmu) (rr_events s)" using s(2,3) by (simp add: sends_empty)
  obtain a' where a': "each (operate E (m_now w) (m_rnd w) (m_iv w) ?f) [j] (a\<lparr>le_link := l\<rparr>) = Inr a'"
    "run_of j a' = s\<lparr>rr_events := []\<rparr>" "le_incoming a' = []" "le_outgoing a' = [j]"
    "sent_of (le_events a') = take k (drop n ps) @ hmu"
    using operate_only [of ?f j "a\<lparr>le_link := l\<rparr>" s "take k (drop n ps) @ hmu" E "m_now w" "m_rnd w" "m_iv w"] f sd tab(1,2) a(2)
    by auto
  have "object a' j = rr_res s" using arg_cong [OF a'(2), of rr_res] by simp
  then have "r_req_hashlist (object a' j) = r_req_hashlist (object a j) @ [p_packet_hash ?p]"
    using seen_request [OF s(1)] by (simp add: s0_def)
  moreover have "if n + k = parts_of P then init_done P t j a' else init_end P t ps (n + k) (next_height P h ex) j a'"
    using s(5) a'(2-4) by (simp add: init_done_def init_end_def split: if_splits)
  ultimately show ?thesis
    unfolding end_receive_input [OF l(1)] op using a'(1,5) s(4) by blast
qed

definition init_complete :: "nat \<Rightarrow> link_end \<Rightarrow> bool" where
  "init_complete j a \<longleftrightarrow> le_outgoing a = [] \<and> le_incoming a = [] \<and> r_status (object a j) = R_COMPLETE"

lemma init_proof:
  assumes P: "plan_ok (re_lib E) t P" and a: "init_done P t j a" and q: "proof_packet E P q"
  shows "\<exists>a'. at_moment E w (arrives (re_lib E) q) a = Inr a' \<and> init_complete j a'"
proof -
  let ?p = "arrives (re_lib E) q" and ?pt = "pl_hash P @ pl_proof P"
  have len: "length (pl_hash P) = 32" "length (pl_proof P) = 32" by (rule plan_okD(6,8) [OF P])+
  have tab: "le_outgoing a = [j]" "le_incoming a = []" "r_hash (object a j) = pl_hash P" "link_fit t (le_link a)"
    "r_status (object a j) = R_AWAITING_PROOF" "r_expected_proof (object a j) = pl_proof P"
    using a by (simp_all add: init_done_def sender_done_def)
  obtain l where l: "link_receive (re_lib E) (m_rtt w) (m_prove w) (m_now w) (l_attached_interface (le_link a)) ?p (le_link a)
      = Inr (l, [Resource_input RESOURCE_PRF ?pt])" "link_fit t l"
    using link_receive_proof [OF tab(4), of ?p "re_lib E"] q unfolding proof_packet_def by metis
  have op: "resource_input E (m_now w) (m_rnd w) (m_iv w) ?p RESOURCE_PRF ?pt (a\<lparr>le_link := l\<rparr>)
      = operate E (m_now w) (m_rnd w) (m_iv w) (\<lambda>k s. Inr (validate_resource_proof ?pt s)) j (a\<lparr>le_link := l\<rparr>)"
    unfolding resource_inputs Let_def using len tab by (simp add: with_hash_def left_def each_one)
  define s where "s = validate_resource_proof ?pt (run_of j (a\<lparr>le_link := l\<rparr>))"
  have s: "r_status (rr_res s) = R_COMPLETE" "rr_events s = [Link_concluded] \<or> rr_events s = [Link_concluded, Concluded_callback]"
    using len tab by (simp_all add: s_def validate_resource_proof_def mid_end_drop Let_def)
  define a1 where "a1 = a\<lparr>le_link := rr_link s, le_objects := (le_objects a)(j := Some (rr_res s))\<rparr>"
  have on: "on_object (\<lambda>s. Inr (validate_resource_proof ?pt s)) j (a\<lparr>le_link := l\<rparr>) = Inr (rr_events s, a1)"
    by (simp add: on_object_def s_def a1_def run_of_def)
  have obj: "object a1 j = rr_res s" by (simp add: a1_def object_def)
  have "j \<notin> set (le_incoming a1)" using tab(2) by (simp add: a1_def)
  then have c: "resource_concluded E (m_now w) (m_rnd w) (m_iv w) j a1 = Inr (table_event j Link_concluded a1)"
    by (simp add: resource_concluded_def)
  have "settle E (m_now w) (m_rnd w) (m_iv w) j (rr_events s) a1
      = Inr (table_events j (rr_events s) a1)"
    using s(2) by (auto simp: settle_event_def c table_events_def)
  moreover have "init_complete j (table_events j (rr_events s) a1)"
    using s obj tab(1,2) by (auto simp: init_complete_def table_events_def a1_def)
  ultimately show ?thesis unfolding end_receive_input [OF l(1)] op by (simp add: operate_def on)
qed

text \<open>A request that looks like one seen before is dropped.\<close>

lemma init_request_seen:
  assumes P: "plan_ok (re_lib E) t P" and a: "init_end P t ps n h j a"
    and req: "request_ok P n k h ex" "request_packet E P t n k h ex q"
    and seen: "p_packet_hash (arrives (re_lib E) q) \<in> set (r_req_hashlist (object a j))"
  shows "\<exists>a'. at_moment E w (arrives (re_lib E) q) a = Inr a'"
proof -
  let ?p = "arrives (re_lib E) q" and ?pt = "request_for P n k h ex"
  have ex: "ex \<Longrightarrow> 0 < h \<and> h \<le> parts_of P" using req(1) by (simp add: request_ok_def)
  have rh: "requested_hash ?pt = pl_hash P" "?pt \<noteq> []"
    using requested_hash_for [OF P, of ex h n k] ex by blast+
  have tab: "le_outgoing a = [j]" "r_hash (object a j) = pl_hash P" "link_fit t (le_link a)"
    using a by (simp_all add: init_end_def sender_at_def Let_def)
  obtain l where l: "link_receive (re_lib E) (m_rtt w) (m_prove w) (m_now w) (l_attached_interface (le_link a)) ?p (le_link a)
      = Inr (l, [Resource_input RESOURCE_REQ ?pt])" "link_fit t l"
    using link_receive_message [OF tab(3), of ?p RESOURCE_REQ "re_lib E" ?pt] req(2) rh(2) unfolding request_packet_def by blast
  let ?f = "\<lambda>j. new_request E (m_now w) (m_iv w j) (p_packet_hash ?p) ?pt"
  have ne: "pl_hash P \<noteq> []" using plan_okD(6) [OF P] by auto
  have op: "resource_input E (m_now w) (m_rnd w) (m_iv w) ?p RESOURCE_REQ ?pt (a\<lparr>le_link := l\<rparr>)
      = each (operate E (m_now w) (m_rnd w) (m_iv w) ?f) [j] (a\<lparr>le_link := l\<rparr>)"
    unfolding resource_inputs Let_def rh(1) using tab ne by (simp add: with_hash_def)
  have "?f j (run_of j (a\<lparr>le_link := l\<rparr>)) = Inr (run_of j (a\<lparr>le_link := l\<rparr>))" using seen by (simp add: new_request_def)
  from operate_only [where f = ?f and k = j, OF this, of "[]" E "m_now w" "m_rnd w" "m_iv w"] obtain a' where
    "each (operate E (m_now w) (m_rnd w) (m_iv w) ?f) [j] (a\<lparr>le_link := l\<rparr>) = Inr a'" by auto
  then show ?thesis unfolding end_receive_input [OF l(1)] op by blast
qed

section \<open>Rounds\<close>

text \<open>The receiver gets a window, and the map hashes it asked for.\<close>

lemma recv_window:
  assumes lib: "crypto_ok (re_lib E)" and M: "msgpack_ok (re_msgpack E)" and tok: "new_token key MODE_AES = Inr t"
    and iv: "\<And>r i j. length (m_iv (w r) i j) = 16" and P: "plan_ok (re_lib E) t P" and rid: "pl_request_id P = []"
    and b: "recv_end P t n h m ex k b" "sent_of (le_events b) = []" and req: "request_ok P n m h ex"
    and hd: "h < parts_of P \<Longrightarrow> HASHMAP_MAX_LEN dvd h"
    and qs: "list_all2 (part_of (re_lib E)) (take m (drop n (pl_chunks P))) qs"
    and hmu: "if ex then \<exists>p. hmu = [p] \<and> hmu_packet E P t h p else hmu = []"
  shows "\<exists>b' r. deliver E w 0 (qs @ hmu) b = Inr b' \<and> sent_of (le_events b') = [r] \<and>
    (if n + m = parts_of P then recv_complete P t k b' \<and> proof_packet E P r
     else \<exists>m' ex'. recv_end P t (n + m) (next_height P h ex) m' ex' k b' \<and>
       request_ok P (n + m) m' (next_height P h ex) ex' \<and> request_packet E P t (n + m) m' (next_height P h ex) ex' r)"
proof (cases ex)
  case True
  then have x: "n + m = h" "h < parts_of P" "HASHMAP_MAX_LEN dvd h" using req by (simp_all add: request_ok_def)
  obtain p where p: "hmu = [p]" "hmu_packet E P t h p" using hmu True by auto
  obtain b1 where b1: "\<forall>rest. deliver E w 0 (qs @ rest) b = deliver E w (0 + m) rest b1" "recv_end P t h h 0 True k b1"
    "sent_of (le_events b1) = []"
    using deliver_parts [OF P b(1) qs, of w 0] x b(2) True by auto
  have ivm: "\<And>i j. length (m_iv (w (0 + m)) i j) = 16" using iv by simp
  from recv_hashmap [OF lib M tok ivm P b1(2) p(2) x(3,2)] obtain b' r m' ex' where
    "at_moment E (w (0 + m)) (arrives (re_lib E) p) b1 = Inr b'" "recv_end P t h (next_height P h True) m' ex' k b'"
    "request_ok P h m' (next_height P h True) ex'" "sent_of (le_events b') = sent_of (le_events b1) @ [r]"
    "request_packet E P t h m' (next_height P h True) ex' r" by blast
  then show ?thesis using b1 p(1) x True by (intro exI [of _ b'] exI [of _ r]) auto
next
  case False
  then have m: "m > 0" "n + m \<le> h" "hmu = []" "h \<le> parts_of P" using req hmu by (auto simp: request_ok_def)
  obtain m1 where m1: "m = Suc m1" using m(1) by (cases m) auto
  have nm: "n + m1 < parts_of P" "n + m1 < h" using m m1 by simp_all
  have "take m (drop n (pl_chunks P)) = take m1 (drop n (pl_chunks P)) @ [pl_chunks P ! (n + m1)]"
    using m1 nm(1) by (simp add: take_Suc_conv_app_nth)
  then obtain qs1 q where q: "qs = qs1 @ [q]" "list_all2 (part_of (re_lib E)) (take m1 (drop n (pl_chunks P))) qs1"
    "part_of (re_lib E) (pl_chunks P ! (n + m1)) q"
    using qs by (auto simp: list_all2_append1 list_all2_Cons1)
  obtain b1 where b1: "\<forall>rest. deliver E w 0 (qs1 @ rest) b = deliver E w (0 + m1) rest b1" "recv_end P t (n + m1) h 1 False k b1"
    "sent_of (le_events b1) = []"
    using deliver_parts [OF P b(1) q(2), of w 0] nm m1 b(2) False by auto
  have d: "deliver E w 0 (qs @ hmu) b = at_moment E (w (0 + m1)) (arrives (re_lib E) q) b1"
    using b1(1) q(1) m(3) by (simp add: res_bind_def split: sum.split)
  show ?thesis
  proof (cases "n + m = parts_of P")
    case True
    then show ?thesis
      using recv_part_final [OF P b1(2) q(3) nm(2) _ rid, of "w (0 + m1)"] m1 b1(3) d by auto
  next
    case f: False
    have ivm: "\<And>i j. length (m_iv (w (0 + m1)) i j) = 16" using iv by simp
    have lt: "Suc (n + m1) < parts_of P" using f m m1 by simp
    from recv_part_last [OF lib tok ivm P b1(2) q(3) nm(2) lt hd] show ?thesis
      using f m1 b1(3) d False by (auto simp: next_height_def)
  qed
qed

text \<open>Different requests are different octets.\<close>

lemma request_for_inj:
  assumes P: "plan_ok lib t P" and r: "request_ok P n k h ex" "request_ok P n' k' h' ex'"
    and eq: "request_for P n k h ex = request_for P n' k' h' ex'"
  shows "n = n' \<and> (ex = ex') \<and> (ex \<longrightarrow> h = h')"
proof -
  have lenh: "length (pl_hashes P) = parts_of P" by (rule plan_okD(1) [OF P])
  have four: "\<forall>x \<in> set (take i (drop j (pl_hashes P))). length x = 4" for i j
    by (auto dest!: in_set_takeD in_set_dropD plan_okD(2) [OF P])
  have len4: "i < parts_of P \<Longrightarrow> length (pl_hashes P ! i) = 4" for i using plan_okD(2) [OF P nth_mem] lenh by simp
  have e: "ex = ex'" using eq by (auto simp: request_for_def split: if_splits)
  have k: "n + k \<le> parts_of P" "n' + k' \<le> parts_of P" using r by (simp_all add: request_ok_def)
  have lists: "take k (drop n (pl_hashes P)) = take k' (drop n' (pl_hashes P))"
    if "concat (take k (drop n (pl_hashes P))) = concat (take k' (drop n' (pl_hashes P)))"
    using arg_cong [OF that, of "chop 4"] chop_concat [OF _ four] by simp
  show ?thesis
  proof (cases ex)
    case True
    have h: "0 < h" "h < parts_of P" "0 < h'" "h' < parts_of P" "n + k = h" "n' + k' = h'"
      using r True e by (simp_all add: request_ok_def)
    have l: "length (pl_hashes P ! (h - 1)) = 4" "length (pl_hashes P ! (h' - 1)) = 4" using len4 h by simp_all
    have "pl_hashes P ! (h - 1) @ pl_hash P @ concat (take k (drop n (pl_hashes P)))
        = pl_hashes P ! (h' - 1) @ pl_hash P @ concat (take k' (drop n' (pl_hashes P)))"
      using eq True e by (simp add: request_for_def)
    then have s: "pl_hashes P ! (h - 1) = pl_hashes P ! (h' - 1)"
      "concat (take k (drop n (pl_hashes P))) = concat (take k' (drop n' (pl_hashes P)))" using l by auto
    have "h = h'" using plan_okD(3) [OF P, of "h - 1" "h' - 1"] s(1) h by auto
    moreover have "k = k'" using arg_cong [OF lists [OF s(2)], of length] k lenh by simp
    ultimately show ?thesis using h e by simp
  next
    case False
    then have "concat (take k (drop n (pl_hashes P))) = concat (take k' (drop n' (pl_hashes P)))" "k > 0" "k' > 0"
      using eq e r by (auto simp: request_for_def request_ok_def)
    then have "take k (drop n (pl_hashes P)) ! 0 = take k' (drop n' (pl_hashes P)) ! 0" using lists by simp
    then have "pl_hashes P ! n = pl_hashes P ! n'" using \<open>k > 0\<close> \<open>k' > 0\<close> k lenh by simp
    then show ?thesis using plan_okD(3) [OF P, of n n'] \<open>k > 0\<close> \<open>k' > 0\<close> k e False by simp
  qed
qed

text \<open>
  The invariant of the rounds: \<open>m\<close> parts from \<open>n\<close> on are on the way, with the map hashes after \<open>h\<close>
  if \<open>ex\<close>; every request the initiator has seen came before.
\<close>

definition was_requested :: "resource_env \<Rightarrow> plan \<Rightarrow> token \<Rightarrow> packet list \<Rightarrow> nat \<Rightarrow> nat \<Rightarrow> bytes \<Rightarrow> bool" where
  "was_requested E P t lg n h x \<longleftrightarrow> (\<exists>q \<in> set lg. p_packet_hash (arrives (re_lib E) q) = x \<and>
     (\<exists>n' m' h' ex'. request_ok P n' m' h' ex' \<and> request_packet E P t n' m' h' ex' q \<and> (n' < n \<or> ex' \<and> h' < h)))"

definition going :: "resource_env \<Rightarrow> plan \<Rightarrow> token \<Rightarrow> packet list \<Rightarrow> nat \<Rightarrow> nat \<Rightarrow> nat \<Rightarrow> nat \<Rightarrow> nat \<Rightarrow> bool \<Rightarrow> session \<Rightarrow> bool" where
  "going E P t ps j k n h m ex s \<longleftrightarrow> (let a = ss_initiator s; b = ss_receiver s in
     (\<exists>hmu. sent_of (le_events a) = take m (drop n ps) @ hmu \<and>
        (if ex then \<exists>p. hmu = [p] \<and> hmu_packet E P t h p else hmu = [])) \<and>
     (if n + m = parts_of P then init_done P t j a else init_end P t ps (n + m) (next_height P h ex) j a) \<and>
     recv_end P t n h m ex k b \<and> le_events b = [] \<and> request_ok P n m h ex \<and> (h < parts_of P \<longrightarrow> HASHMAP_MAX_LEN dvd h) \<and>
     (\<forall>x \<in> set (r_req_hashlist (object a j)). was_requested E P t (ss_log s) (n + m) (next_height P h ex) x))"

definition finished :: "plan \<Rightarrow> token \<Rightarrow> nat \<Rightarrow> nat \<Rightarrow> session \<Rightarrow> bool" where
  "finished P t j k s \<longleftrightarrow> init_complete j (ss_initiator s) \<and> recv_complete P t k (ss_receiver s)"

lemma was_requested_mono:
  "was_requested E P t lg n h x \<Longrightarrow> n \<le> n2 \<Longrightarrow> h \<le> h2 \<Longrightarrow> was_requested E P t (lg @ qs) n2 h2 x"
  unfolding was_requested_def by (fastforce intro: less_le_trans)

lemma seen_is_collision:
  assumes P: "plan_ok (re_lib E) t P" and l: "link_fit t l" and r: "request_ok P n m h ex" "request_packet E P t n m h ex q"
    and w: "was_requested E P t lg n h (p_packet_hash (arrives (re_lib E) q))"
  shows "hash_collision (re_lib E) (lg @ [q])"
proof -
  obtain q' n' m' h' ex' where q': "q' \<in> set lg" "p_packet_hash (arrives (re_lib E) q') = p_packet_hash (arrives (re_lib E) q)"
    "request_ok P n' m' h' ex'" "request_packet E P t n' m' h' ex' q'" "n' < n \<or> ex' \<and> h' < h"
    using w unfolding was_requested_def by blast
  have "p_raw q' \<noteq> p_raw q"
  proof
    assume "p_raw q' = p_raw q"
    then have "arrives (re_lib E) q' = arrives (re_lib E) q" by (simp add: arrives_def)
    then have "request_for P n' m' h' ex' = request_for P n m h ex"
      using q'(4) r(2) l unfolding request_packet_def by fastforce
    from request_for_inj [OF P q'(3) r(1) this] q'(5) show False by auto
  qed
  then show ?thesis using q'(1,2) unfolding hash_collision_def by auto
qed

lemma going_request:
  assumes lib: "crypto_ok (re_lib E)" and M: "msgpack_ok (re_msgpack E)" and tok: "new_token key MODE_AES = Inr t"
    and iv: "\<And>r i j. length (m_iv (w r) i j) = 16" and P: "plan_ok (re_lib E) t P"
    and ps: "\<forall>p \<in> set ps. \<not> p_sent p" "length ps = parts_of P"
    and a: "init_end P t ps n h j a" "le_events a = []"
    and b: "recv_end P t n h m ex k b" "sent_of (le_events b) = [q]"
    and r: "request_ok P n m h ex" "request_packet E P t n m h ex q" "h < parts_of P \<Longrightarrow> HASHMAP_MAX_LEN dvd h"
    and lg: "\<forall>x \<in> set (r_req_hashlist (object a j)). was_requested E P t lg n h x"
  shows "\<exists>a'. deliver E w 0 [q] a = Inr a' \<and>
    (let s = \<lparr>ss_initiator = a', ss_receiver = b\<lparr>le_events := []\<rparr>, ss_log = lg @ [q]\<rparr>
     in hash_collision (re_lib E) (ss_log s) \<or> going E P t ps j k n h m ex s)"
proof (cases "p_packet_hash (arrives (re_lib E) q) \<in> set (r_req_hashlist (object a j))")
  case True
  have "hash_collision (re_lib E) (lg @ [q])"
    by (rule seen_is_collision [OF P recv_end_fit [OF b(1)] r(1,2)]) (use lg True in blast)
  moreover obtain a' where "at_moment E (w 0) (arrives (re_lib E) q) a = Inr a'"
    using init_request_seen [OF P a(1) r(1,2) True] by blast
  ultimately show ?thesis by (intro exI [of _ a']) (simp add: Let_def)
next
  case False
  have ivm: "\<And>i j. length (m_iv (w 0) i j) = 16" using iv by simp
  obtain a' hmu where a': "at_moment E (w 0) (arrives (re_lib E) q) a = Inr a'" "sent_of (le_events a') = take m (drop n ps) @ hmu"
    "if ex then \<exists>p. hmu = [p] \<and> hmu_packet E P t h p else hmu = []"
    "if n + m = parts_of P then init_done P t j a' else init_end P t ps (n + m) (next_height P h ex) j a'"
    "r_req_hashlist (object a' j) = r_req_hashlist (object a j) @ [p_packet_hash (arrives (re_lib E) q)]"
    using init_request [OF lib M tok ivm P ps a r(1,2) False] by blast
  have h: "h \<le> next_height P h ex" using r(1) by (simp add: request_ok_def next_height_def)
  have "n < n + m \<or> ex \<and> h < next_height P h ex" using r(1) by (auto simp: request_ok_def next_height_def)
  then have "was_requested E P t (lg @ [q]) (n + m) (next_height P h ex) (p_packet_hash (arrives (re_lib E) q))"
    unfolding was_requested_def using r(1,2) by (intro bexI [of _ q]) (blast, simp)
  moreover have "\<forall>x \<in> set (r_req_hashlist (object a j)). was_requested E P t (lg @ [q]) (n + m) (next_height P h ex) x"
    using lg was_requested_mono [OF _ _ h, of E P t lg n _ "n + m" "[q]"] by simp
  ultimately have "going E P t ps j k n h m ex \<lparr>ss_initiator = a', ss_receiver = b\<lparr>le_events := []\<rparr>, ss_log = lg @ [q]\<rparr>"
    using a'(2-5) b(1) r(1,3) by (simp add: going_def recv_end_def Let_def)
  then show ?thesis using a'(1) by (intro exI [of _ a']) (simp add: Let_def)
qed

lemma going_round:
  assumes lib: "crypto_ok (re_lib E)" and M: "msgpack_ok (re_msgpack E)" and tok: "new_token key MODE_AES = Inr t"
    and iv: "\<And>r i j. length (m_iv (v r) i j) = 16" "\<And>r i j. length (m_iv (w r) i j) = 16"
    and P: "plan_ok (re_lib E) t P" and rid: "pl_request_id P = []"
    and ps: "\<forall>p \<in> set ps. \<not> p_sent p" "list_all2 (part_of (re_lib E)) (pl_chunks P) ps"
    and s: "going E P t ps j k n h m ex s"
  shows "\<exists>s'. transfer_round E v w s = Inr s' \<and> (finished P t j k s' \<or> hash_collision (re_lib E) (ss_log s') \<or>
    (\<exists>m' ex'. going E P t ps j k (n + m) (next_height P h ex) m' ex' s' \<and> n + m < parts_of P))"
proof -
  define a where "a = ss_initiator s"
  define b where "b = ss_receiver s"
  obtain hmu where hmu: "sent_of (le_events a) = take m (drop n ps) @ hmu"
    "if ex then \<exists>p. hmu = [p] \<and> hmu_packet E P t h p else hmu = []"
    using s unfolding going_def Let_def a_def by blast
  have g: "if n + m = parts_of P then init_done P t j a else init_end P t ps (n + m) (next_height P h ex) j a"
    "recv_end P t n h m ex k b" "sent_of (le_events b) = []" "request_ok P n m h ex" "h < parts_of P \<Longrightarrow> HASHMAP_MAX_LEN dvd h"
    "\<forall>x \<in> set (r_req_hashlist (object a j)). was_requested E P t (ss_log s) (n + m) (next_height P h ex) x"
    using s by (simp_all add: going_def Let_def a_def b_def)
  have len: "length ps = parts_of P" using ps(2) by (simp add: list_all2_lengthD)
  have qs: "list_all2 (part_of (re_lib E)) (take m (drop n (pl_chunks P))) (take m (drop n ps))"
    using ps(2) by (intro list_all2_takeI list_all2_dropI)
  obtain b' r where b': "deliver E v 0 (take m (drop n ps) @ hmu) b = Inr b'" "sent_of (le_events b') = [r]"
    and nx: "if n + m = parts_of P then recv_complete P t k b' \<and> proof_packet E P r
     else \<exists>m' ex'. recv_end P t (n + m) (next_height P h ex) m' ex' k b' \<and>
       request_ok P (n + m) m' (next_height P h ex) ex' \<and> request_packet E P t (n + m) m' (next_height P h ex) ex' r"
    using recv_window [where w = v, OF lib M tok iv(1) P rid g(2-4) _ qs hmu(2)] g(5) by blast
  define a0 where "a0 = a\<lparr>le_events := []\<rparr>"
  have round: "transfer_round E v w s = res_bind (deliver E w 0 [r] a0)
      (\<lambda>a1. Inr \<lparr>ss_initiator = a1, ss_receiver = b'\<lparr>le_events := []\<rparr>, ss_log = ss_log s @ [r]\<rparr>)"
    unfolding transfer_round_def Let_def a_def [symmetric] b_def [symmetric] hmu(1) by (simp add: b' a0_def)
  show ?thesis
  proof (cases "n + m = parts_of P")
    case True
    have "init_done P t j a0" using g(1) True by (simp add: init_done_def a0_def)
    from init_proof [OF P this] nx True obtain a1 where a1: "at_moment E (w 0) (arrives (re_lib E) r) a0 = Inr a1" "init_complete j a1"
      by auto
    then show ?thesis
      using nx True unfolding round by (simp add: finished_def recv_complete_def)
  next
    case False
    then obtain m' ex' where x: "recv_end P t (n + m) (next_height P h ex) m' ex' k b'"
      "request_ok P (n + m) m' (next_height P h ex) ex'" "request_packet E P t (n + m) m' (next_height P h ex) ex' r"
      using nx by auto
    have a0: "init_end P t ps (n + m) (next_height P h ex) j a0" "le_events a0 = []" "object a0 j = object a j"
      using g(1) False by (simp_all add: init_end_def a0_def)
    have hd: "next_height P h ex < parts_of P \<Longrightarrow> HASHMAP_MAX_LEN dvd next_height P h ex"
      using g(4,5) next_height_dvd [of h P ex] by (cases ex) (auto simp: request_ok_def next_height_def)
    have lt: "n + m < parts_of P" using False g(4) by (simp add: request_ok_def)
    obtain a1 where "deliver E w 0 [r] a0 = Inr a1"
      "let s = \<lparr>ss_initiator = a1, ss_receiver = b'\<lparr>le_events := []\<rparr>, ss_log = ss_log s @ [r]\<rparr>
       in hash_collision (re_lib E) (ss_log s) \<or> going E P t ps j k (n + m) (next_height P h ex) m' ex' s"
      using going_request [where w = w, OF lib M tok iv(2) P ps(1) len a0(1,2) x(1) b'(2) x(2,3) _, of "ss_log s"] hd g(6) a0(3) by auto
    then show ?thesis unfolding round using lt by (auto simp: Let_def)
  qed
qed

lemma rounds_finish:
  assumes lib: "crypto_ok (re_lib E)" and M: "msgpack_ok (re_msgpack E)" and tok: "new_token key MODE_AES = Inr t"
    and iv: "\<And>i r x y. length (m_iv (w i r) x y) = 16"
    and P: "plan_ok (re_lib E) t P" and rid: "pl_request_id P = []"
    and ps: "\<forall>p \<in> set ps. \<not> p_sent p" "list_all2 (part_of (re_lib E)) (pl_chunks P) ps"
  shows "transfer_rounds E w i s0 = Inr s \<Longrightarrow> going E P t ps j k n h m ex s \<Longrightarrow>
    \<exists>i' s'. transfer_rounds E w i' s0 = Inr s' \<and> i' \<le> i + (2 * parts_of P - n - h) + 1 \<and>
      (finished P t j k s' \<or> hash_collision (re_lib E) (ss_log s'))"
proof (induction "2 * parts_of P - n - h" arbitrary: i s n h m ex rule: less_induct)
  case less
  obtain s1 where s1: "transfer_round E (w (2 * i)) (w (2 * i + 1)) s = Inr s1"
    "finished P t j k s1 \<or> hash_collision (re_lib E) (ss_log s1) \<or>
      (\<exists>m' ex'. going E P t ps j k (n + m) (next_height P h ex) m' ex' s1 \<and> n + m < parts_of P)"
    using going_round [where v = "w (2 * i)" and w = "w (2 * i + 1)", OF lib M tok iv iv P rid ps less.prems(2)] by blast
  have e: "transfer_rounds E w (Suc i) s0 = Inr s1" using less.prems(1) s1(1) by simp
  show ?case
  proof (cases "finished P t j k s1 \<or> hash_collision (re_lib E) (ss_log s1)")
    case True
    then show ?thesis using e by (intro exI [of _ "Suc i"] exI [of _ s1]) simp
  next
    case False
    then obtain m' ex' where g: "going E P t ps j k (n + m) (next_height P h ex) m' ex' s1" "n + m < parts_of P" using s1(2) by blast
    have r: "request_ok P n m h ex" using less.prems(2) by (simp add: going_def Let_def)
    have r': "next_height P h ex \<le> parts_of P" using r by (simp add: request_ok_def next_height_def)
    have d: "2 * parts_of P - (n + m) - next_height P h ex < 2 * parts_of P - n - h"
      using r g(2) r' by (auto simp: request_ok_def next_height_def)
    from less.hyps [OF d e g(1)] obtain i' s' where "transfer_rounds E w i' s0 = Inr s'"
      "i' \<le> Suc i + (2 * parts_of P - (n + m) - next_height P h ex) + 1"
      "finished P t j k s' \<or> hash_collision (re_lib E) (ss_log s')" by blast
    then show ?thesis using d by (intro exI [of _ i'] exI [of _ s']) simp
  qed
qed

end
