(* ===== verification/Resource_Delivery.thy ===== *)
theory Resource_Delivery
  imports Link_Transfer
begin

text \<open>
  The transfer from its start: the initiator encrypts, cuts and advertises the data, the receiver
  accepts the advertisement, and the rounds of \<open>Link_Transfer\<close> bring the parts over.
\<close>

section \<open>The start\<close>

text \<open>What the initiator has in common with the receiver when it starts.\<close>

definition started_plan :: "crypto_lib \<Rightarrow> nat \<Rightarrow> bytes \<Rightarrow> bytes \<Rightarrow> bytes \<Rightarrow> plan" where
  "started_plan lib n stream random dat =
     (let cs = map (chunk MDU stream) [0..<n]; h = full_hash lib (dat @ random)
      in \<lparr>pl_chunks = cs, pl_hashes = map (\<lambda>c. left (full_hash lib (c @ random)) MAPHASH_LEN) cs, pl_hash = h,
          pl_random = random, pl_data = dat, pl_proof = full_hash lib (dat @ h), pl_request_id = [], pl_is_response = False\<rparr>)"

text \<open>The random hash and the plan of a transfer with the octets \<open>rnd\<close> and \<open>iv\<close>.\<close>

definition random_of :: "crypto_lib \<Rightarrow> bytes \<Rightarrow> bytes" where
  "random_of lib rnd = left (truncated_hash lib rnd) RANDOM_HASH_SIZE"

definition plan_of :: "crypto_lib \<Rightarrow> token \<Rightarrow> bytes \<Rightarrow> bytes \<Rightarrow> bytes \<Rightarrow> plan" where
  "plan_of lib t iv rnd dat =
     (case token_encrypt lib iv t (random_of lib rnd @ dat) of
        Inr stream \<Rightarrow> started_plan lib (part_count (length stream) MDU) stream (random_of lib rnd) dat
      | Inl _ \<Rightarrow> started_plan lib 0 [] (random_of lib rnd) dat)"

definition advertises :: "resource_env \<Rightarrow> token \<Rightarrow> bytes \<Rightarrow> packet \<Rightarrow> bool" where
  "advertises E t adv p \<longleftrightarrow>
     p_packet_type (arrives (re_lib E) p) = DATA \<and> p_context (arrives (re_lib E) p) = RESOURCE_ADV \<and>
     (\<forall>m. link_fit t m \<longrightarrow> link_decrypt (re_lib E) m (p_data (arrives (re_lib E) p)) = Inr (adv, m\<lparr>l_token := Some t\<rparr>))"

text \<open>The advertised resource.\<close>

definition advertised :: "plan \<Rightarrow> bytes \<Rightarrow> resource \<Rightarrow> bool" where
  "advertised P stream r \<longleftrightarrow> r_size r = length stream \<and> r_total_size r = length (pl_data P) \<and> length (r_parts r) = parts_of P \<and>
     r_hash r = pl_hash P \<and> r_original_hash r = pl_hash P \<and> r_random_hash r = pl_random P \<and> r_request_id r = [] \<and>
     \<not> r_is_response r \<and> r_segment_index r = 1 \<and> r_total_segments r = 1 \<and> r_encrypted r \<and> \<not> r_compressed r \<and>
     r_hashmap r = concat (pl_hashes P)"

lemma sdu_of_fit: "link_fit t l \<Longrightarrow> sdu_of l = MDU"
  by (simp add: sdu_of_def link_fit_def wire_sizes)

lemma length_left4: "n \<le> length b \<Longrightarrow> length (left b n) = n"
  by (simp add: left_def)

lemma started_plan_ok:
  assumes lib: "crypto_ok lib" and len: "length stream \<le> 30001000" "stream \<noteq> []"
    and dec: "token_decrypt lib t stream = Inr (random @ dat)" and random: "length random = RANDOM_HASH_SIZE"
    and P: "P = started_plan lib (part_count (length stream) MDU) stream random dat"
    and hs: "distinct (pl_hashes P)" "zero_hash \<notin> set (pl_hashes P)"
  shows "plan_ok lib t P" and "parts_of P = part_count (length stream) MDU" and "\<forall>c \<in> set (pl_chunks P). length c \<le> MDU"
proof -
  have cc: "concat (map (chunk MDU stream) [0..<part_count (length stream) MDU]) = stream"
    "part_count (length stream) MDU = (length stream + MDU - 1) div MDU"
    using concat_chunks [of MDU stream] len(1) by (simp_all add: wire_sizes)
  have f: "pl_chunks P = map (chunk MDU stream) [0..<part_count (length stream) MDU]" "pl_random P = random" "pl_data P = dat"
    "pl_hash P = full_hash lib (dat @ random)" "pl_proof P = full_hash lib (dat @ pl_hash P)"
    "pl_hashes P = map (\<lambda>c. left (full_hash lib (c @ random)) MAPHASH_LEN) (pl_chunks P)"
    by (simp_all add: P started_plan_def Let_def)
  show n: "parts_of P = part_count (length stream) MDU" by (simp add: f(1))
  have "(length stream + MDU - 1) div MDU \<le> (30001000 + MDU - 1) div MDU" using len(1) by (intro div_le_mono) simp
  also have "\<dots> < 2 ^ 16" by (simp add: wire_sizes)
  finally have lt: "parts_of P < 2 ^ 16" using n cc(2) by simp
  have "0 < length stream" using len(2) by simp
  then have "MDU \<le> length stream + MDU - 1" by linarith
  then have "0 < (length stream + MDU - 1) div MDU" by (simp add: div_greater_zero_iff wire_sizes)
  then have gt: "0 < parts_of P" using n cc(2) by simp
  have h: "length (full_hash lib x) = 32" for x using lib by (simp add: full_hash_def sha256_def crypto_okD)
  show "\<forall>c \<in> set (pl_chunks P). length c \<le> MDU" using length_chunk by (auto simp: f(1))
  have "\<forall>x \<in> set (pl_hashes P). length x = MAPHASH_LEN" using h by (auto simp: f(6) length_left4)
  then show "plan_ok lib t P"
    unfolding plan_ok_def using hs lt gt h random dec f cc(1) by (simp add: f(1)) 
qed

lemma adv_of_advertised:
  assumes "advertised P stream r" and "length stream < 2 ^ 32" and "length (pl_data P) < 2 ^ 32" and P: "plan_ok lib t P"
    and M: "msgpack_ok M"
  shows "length (adv_pack M 0 (advertisement_of r)) \<le> LINK_MDU"
    and "adv_unpack M (adv_pack M 0 (advertisement_of r)) = (advertisement_of r)\<lparr>adv_m := hashmap_segment P 0\<rparr>"
    and "adv_pack M 0 (advertisement_of r) \<noteq> []"
proof -
  note a = assms(1) [unfolded advertised_def]
  have len: "length (pl_hash P) = 32" "length (pl_random P) = RANDOM_HASH_SIZE" "parts_of P < 2 ^ 16" by (rule plan_okD(6,7,10) [OF P])+
  from advertisement_size [OF M, of r] a assms(2,3) len show "length (adv_pack M 0 (advertisement_of r)) \<le> LINK_MDU" by simp
  have w: "adv_wf (advertisement_of r)"
    using a assms(2,3) len unfolding adv_wf_def by (simp add: advertisement_of_def Let_def)
  have hm: "length (r_hashmap r) = length (r_parts r) * MAPHASH_LEN"
    using a length_known [OF P, of "parts_of P"] known_all [OF P] by simp
  have "take (HASHMAP_MAX_LEN * MAPHASH_LEN) (concat (pl_hashes P)) = hashmap_segment P 0"
    using segment_slice [OF P, of 0 HASHMAP_MAX_LEN] by (simp add: mid_take_drop hashmap_segment_def)
  then show "adv_unpack M (adv_pack M 0 (advertisement_of r)) = (advertisement_of r)\<lparr>adv_m := hashmap_segment P 0\<rparr>"
    using adv_unpack_pack [OF M w, of 0] decoded_advertisement [OF hm] a by simp
  have "length (adv_pack M 0 (advertisement_of r)) > 0" by (simp add: adv_pack_def msgpack_okD(2) [OF M]) (simp add: adv_items_def)
  then show "adv_pack M 0 (advertisement_of r) \<noteq> []" by auto
qed

text \<open>The advertisement goes out and the resource is registered.\<close>

lemma advertise_job_ok:
  assumes lib: "crypto_ok (re_lib E)" and M: "msgpack_ok (re_msgpack E)" and tok: "new_token key MODE_AES = Inr t"
    and iv: "length (iv 0) = 16" and P: "plan_ok (re_lib E) t P" and l: "link_fit t (rr_link s)"
    and r: "advertised P stream (rr_res s)" "length stream < 2 ^ 32" "length (pl_data P) < 2 ^ 32"
  shows "\<exists>p l'. advertise_job E now iv True s = emit [Transmit p, Register_outgoing]
      (s\<lparr>rr_link := l', rr_res := (rr_res s)\<lparr>r_advertisement := adv_pack (re_msgpack E) 0 (advertisement_of (rr_res s)),
        r_last_activity := now, r_started_transferring := now, r_adv_sent := now, r_rtt := 0, r_status := R_ADVERTISED,
        r_retries_left := r_max_adv_retries (rr_res s)\<rparr>\<rparr>) \<and>
    link_fit t l' \<and> advertises E t (adv_pack (re_msgpack E) 0 (advertisement_of (rr_res s))) p"
proof -
  define adv where "adv = adv_pack (re_msgpack E) 0 (advertisement_of (rr_res s))"
  define s1 where "s1 = upd (\<lambda>r. r\<lparr>r_advertisement := adv\<rparr>) s"
  have len: "length adv \<le> LINK_MDU" unfolding adv_def by (rule adv_of_advertised(1) [OF r P M])
  have l1: "link_fit t (rr_link s1)" using l by (simp add: s1_def)
  obtain p l' where p: "res_send E now (iv 0) DATA RESOURCE_ADV adv s1 = (Inr p, emit [Transmit p] (s1\<lparr>rr_link := l'\<rparr>))"
    "link_fit t l'" "advertises E t adv p"
    using res_send_encrypted [OF lib l1 tok iv len, of RESOURCE_ADV now] unfolding advertises_def by auto
  have "advertise_job E now iv True s = emit [Transmit p, Register_outgoing]
      (s\<lparr>rr_link := l', rr_res := (rr_res s)\<lparr>r_advertisement := adv,
        r_last_activity := now, r_started_transferring := now, r_adv_sent := now, r_rtt := 0, r_status := R_ADVERTISED,
        r_retries_left := r_max_adv_retries (rr_res s)\<rparr>\<rparr>)"
    using p(1) by (simp add: advertise_job_def send_advertisement_def Let_def adv_def [symmetric] s1_def [symmetric])
      (simp add: s1_def emit_def)
  then show ?thesis using p(2,3) unfolding adv_def by blast
qed

lemma start_ok:
  assumes lib: "crypto_ok (re_lib E)" and M: "msgpack_ok (re_msgpack E)" and tok: "new_token key MODE_AES = Inr t"
    and iv: "\<And>i. length (iv i) = 16" and l: "link_fit t l" and dat: "dat \<noteq> []" "length dat \<le> 30000000"
    and r0: "r0 = (new_resource dat l)\<lparr>r_concluded_callback := cbc, r_progress_callback := cbp\<rparr>"
    and P: "P = plan_of (re_lib E) t (iv 0) rnd dat"
    and hs: "distinct (pl_hashes P)" "zero_hash \<notin> set (pl_hashes P)"
  shows "plan_ok (re_lib E) t P \<and> pl_data P = dat \<and> pl_request_id P = [] \<and> \<not> pl_is_response P \<and>
    (\<exists>s' p ps stream. start E now rnd iv True \<lparr>rr_res = r0, rr_link = l, rr_events = []\<rparr> = Inr s' \<and>
      rr_events s' = [Transmit p, Register_outgoing] \<and> sender_at P t ps 0 (next_height P 0 True) s' \<and>
      (\<forall>p \<in> set ps. \<not> p_sent p) \<and> list_all2 (part_of (re_lib E)) (pl_chunks P) ps \<and>
      advertised P stream (rr_res s') \<and> length stream < 2 ^ 32 \<and> part_count (length stream) MDU = parts_of P \<and>
      advertises E t (adv_pack (re_msgpack E) 0 (advertisement_of (rr_res s'))) p \<and> r_req_hashlist (rr_res s') = [])"
proof -
  let ?lib = "re_lib E"
  define random where "random = random_of ?lib rnd"
  have lr: "length random = RANDOM_HASH_SIZE" using length_truncated_hash [OF lib, of rnd] by (simp add: random_def random_of_def left_def)
  obtain stream where stream: "token_encrypt ?lib (iv 0) t (random @ dat) = Inr stream" "token_decrypt ?lib t stream = Inr (random @ dat)"
    "length stream = 16 * (length (random @ dat) div 16 + 1) + 48"
    using token_encrypt_decrypt [OF lib iv tok, of 0 "random @ dat"] by blast
  have len: "length stream \<le> 30001000" "stream \<noteq> []" using stream(3) dat(2) lr by auto
  have small: "length stream < 2 ^ 32" "length dat < 2 ^ 32" using len(1) dat(2) by simp_all
  have P': "P = started_plan ?lib (part_count (length stream) MDU) stream random dat"
    using P stream(1) by (simp add: plan_of_def random_def)
  note ok = started_plan_ok [OF lib len stream(2) lr P' hs]
  have f: "pl_data P = dat" "pl_request_id P = []" "\<not> pl_is_response P" "pl_random P = random"
    "pl_hash P = full_hash ?lib (dat @ random)" "pl_proof P = full_hash ?lib (dat @ pl_hash P)"
    "pl_chunks P = map (chunk MDU stream) [0..<part_count (length stream) MDU]"
    "pl_hashes P = map (\<lambda>c. left (full_hash ?lib (c @ random)) MAPHASH_LEN) (pl_chunks P)"
    by (simp_all add: P' started_plan_def Let_def)
  define l1 where "l1 = l\<lparr>l_token := Some t\<rparr>"
  have l1: "link_fit t l1" using l by (simp add: l1_def)
  have enc: "link_encrypt ?lib (iv 0) l (random @ dat) = Inr (stream, l1)"
    using l stream(1) by (simp add: link_encrypt_def link_fit_def l1_def)
  obtain ps where ps: "pack_parts ?lib l1 (pl_chunks P) = Inr (map Some ps)" "list_all2 (part_of ?lib) (pl_chunks P) ps"
    using pack_parts_ok [OF l1 ok(3)] by blast
  have un: "\<forall>p \<in> set ps. \<not> p_sent p" using ps(2) by (auto simp: list_all2_conv_all_nth in_set_conv_nth part_of_def)
  have lps: "length ps = parts_of P" using ps(2) by (simp add: list_all2_lengthD)
  define r1 where "r1 = r0\<lparr>r_initiator := True, r_data := [], r_uncompressed_size := length dat,
      r_total_size := length dat + r_metadata_size r0, r_random_hash := random, r_compressed := False, r_hash := pl_hash P,
      r_truncated_hash := truncated_hash ?lib (dat @ random), r_expected_proof := pl_proof P,
      r_original_hash := (if r_original_hash r0 = [] then pl_hash P else r_original_hash r0)\<rparr>"
  define r2 where "r2 = r1\<lparr>r_encrypted := True, r_size := length stream, r_total_parts := parts_of P, r_sent_parts := 0,
      r_parts := map Some ps, r_hashmap := concat (pl_hashes P)\<rparr>"
  define s2 where "s2 = \<lparr>rr_res = r2, rr_link = l1, rr_events = []\<rparr>"
  have init: "r_data r0 = dat" "r_sdu r0 = MDU" "r_metadata_size r0 = 0" "r_original_hash r0 = []" "r_request_id r0 = []"
    "\<not> r_is_response r0" "r_segment_index r0 = 1" "r_total_segments r0 = 1" "r_receiver_min_consecutive_height r0 = 0" "r_req_hashlist r0 = []"
    using sdu_of_fit [OF l] by (simp_all add: r0 new_resource_def resource_data_def)
  have hm: "concat (map (map_hash ?lib r1) (pl_chunks P)) = concat (pl_hashes P)"
  proof -
    have "map_hash ?lib r1 = (\<lambda>c. left (full_hash ?lib (c @ random)) MAPHASH_LEN)"
      by (rule ext) (simp add: map_hash_def r1_def)
    then show ?thesis unfolding f(8) by simp
  qed
  have adv: "advertised P stream r2"
    using init f(1,4) lps by (simp add: advertised_def r2_def r1_def)
  have start: "start E now rnd iv True \<lparr>rr_res = r0, rr_link = l, rr_events = []\<rparr> = Inr (advertise_job E now (\<lambda>k. iv (k + 1)) True s2)"
    unfolding start_def Let_def rrun.simps init(1) random_of_def [symmetric] random_def [symmetric] f(5) [symmetric] f(6) [symmetric]
      enc res_bind_simps prod.case init(2) r1_def [symmetric] f(7) [symmetric] ps(1) hm
    using dat(1) ok(2) by (simp add: wire_sizes s2_def r2_def)
  have a: "link_fit t (rr_link s2)" "advertised P stream (rr_res s2)" "length (pl_data P) < 2 ^ 32"
    using l1 adv small(2) f(1) by (simp_all add: s2_def)
  obtain p l' where p: "advertise_job E now (\<lambda>k. iv (k + 1)) True s2 = emit [Transmit p, Register_outgoing]
      (s2\<lparr>rr_link := l', rr_res := (rr_res s2)\<lparr>r_advertisement := adv_pack (re_msgpack E) 0 (advertisement_of (rr_res s2)),
        r_last_activity := now, r_started_transferring := now, r_adv_sent := now, r_rtt := 0, r_status := R_ADVERTISED,
        r_retries_left := r_max_adv_retries (rr_res s2)\<rparr>\<rparr>)" "link_fit t l'"
    "advertises E t (adv_pack (re_msgpack E) 0 (advertisement_of (rr_res s2))) p"
    using advertise_job_ok [OF lib M tok _ ok(1) a(1,2) small(1) a(3), of "\<lambda>k. iv (k + 1)" now] iv by auto
  obtain s' where s': "advertise_job E now (\<lambda>k. iv (k + 1)) True s2 = s'" by blast
  note eq = p(1) [unfolded s']
  have gt: "0 < parts_of P" by (rule plan_okD(9) [OF ok(1)])
  have same: "advertisement_of (rr_res s') = advertisement_of (rr_res s2)"
    unfolding eq by (simp add: advertisement_of_def Let_def)
  have "sender_at P t ps 0 (next_height P 0 True) s'"
    unfolding eq using p(2) init lps gt
    by (simp add: sender_at_def s2_def r2_def r1_def next_height_def Let_def)
  moreover have "advertised P stream (rr_res s')" "r_req_hashlist (rr_res s') = []" "rr_events s' = [Transmit p, Register_outgoing]"
    unfolding eq using adv init(10) by (simp_all add: s2_def r2_def r1_def advertised_def)
  ultimately show ?thesis
    using start [unfolded s'] ok(1,2) f(1-3) un ps(2) small(1) p(3) [folded same]
    by (intro conjI exI [of _ s'] exI [of _ p] exI [of _ ps] exI [of _ stream]) simp_all
qed

lemma start_transfer_ok:
  assumes lib: "crypto_ok (re_lib E)" and M: "msgpack_ok (re_msgpack E)" and tok: "new_token key MODE_AES = Inr t"
    and iv: "\<And>i j. length (iv i j) = 16" and a: "link_fit t (le_link a)" "le_incoming a = []" "le_outgoing a = []" "le_events a = []"
    and dat: "dat \<noteq> []" "length dat \<le> 30000000" and P: "P = plan_of (re_lib E) t (iv (le_next a) 0) rnd dat"
    and hs: "distinct (pl_hashes P)" "zero_hash \<notin> set (pl_hashes P)"
  shows "plan_ok (re_lib E) t P \<and> pl_data P = dat \<and> pl_request_id P = [] \<and> \<not> pl_is_response P \<and>
    (\<exists>a1 p ps stream. start_transfer E now rnd iv cbc cbp dat a = Inr (le_next a, a1) \<and> sent_of (le_events a1) = [p] \<and>
      init_end P t ps 0 (next_height P 0 True) (le_next a) a1 \<and> (\<forall>p \<in> set ps. \<not> p_sent p) \<and>
      list_all2 (part_of (re_lib E)) (pl_chunks P) ps \<and> r_req_hashlist (object a1 (le_next a)) = [] \<and>
      advertised P stream (object a1 (le_next a)) \<and> length stream < 2 ^ 32 \<and> part_count (length stream) MDU = parts_of P \<and>
      advertises E t (adv_pack (re_msgpack E) 0 (advertisement_of (object a1 (le_next a)))) p)"
proof -
  define j where "j = le_next a"
  define r0 where "r0 = (new_resource dat (le_link a))\<lparr>r_concluded_callback := cbc, r_progress_callback := cbp\<rparr>"
  have ivj: "\<And>i. length (iv j i) = 16" using iv by simp
  note st = start_ok [where now = now and iv = "iv j", OF lib M tok ivj a(1) dat r0_def P [folded j_def] hs]
  obtain s' p ps stream where s': "start E now rnd (iv j) True \<lparr>rr_res = r0, rr_link = le_link a, rr_events = []\<rparr> = Inr s'"
    "rr_events s' = [Transmit p, Register_outgoing]" "sender_at P t ps 0 (next_height P 0 True) s'"
    "\<forall>p \<in> set ps. \<not> p_sent p" "list_all2 (part_of (re_lib E)) (pl_chunks P) ps"
    "advertised P stream (rr_res s')" "length stream < 2 ^ 32" "part_count (length stream) MDU = parts_of P"
    "advertises E t (adv_pack (re_msgpack E) 0 (advertisement_of (rr_res s'))) p" "r_req_hashlist (rr_res s') = []"
    using st by blast
  define a0 where "a0 = a\<lparr>le_next := j + 1, le_objects := (le_objects a)(j := Some r0)\<rparr>"
  define a1 where "a1 = table_event j Register_outgoing (table_event j (Transmit p)
      (a0\<lparr>le_link := rr_link s', le_objects := (le_objects a0)(j := Some (rr_res s'))\<rparr>))"
  have "on_object (start E now rnd (iv j) (le_outgoing a0 = [])) j a0
      = Inr ([Transmit p, Register_outgoing], a0\<lparr>le_link := rr_link s', le_objects := (le_objects a0)(j := Some (rr_res s'))\<rparr>)"
    using s'(1,2) a(3) by (simp add: on_object_def a0_def object_def)
  then have "start_transfer E now rnd iv cbc cbp dat a = Inr (j, a1)"
    unfolding start_transfer_def Let_def j_def [symmetric] r0_def [symmetric] a0_def [symmetric]
    by (simp add: settle_event_def a1_def)
  moreover have obj: "object a1 j = rr_res s'" "le_link a1 = rr_link s'" "le_outgoing a1 = [j]" "le_incoming a1 = []"
    "sent_of (le_events a1) = [p]"
    using a(2-4) by (simp_all add: a1_def a0_def object_def report_def insort_insert_key_def)
  moreover have "init_end P t ps 0 (next_height P 0 True) j a1"
    using s'(3) obj(1-4) by (simp add: init_end_def run_of_def sender_at_def Let_def)
  ultimately show ?thesis
    using st s'(4-10) unfolding j_def [symmetric]
    by (intro conjI exI [of _ a1] exI [of _ p] exI [of _ ps] exI [of _ stream]) simp_all
qed

section \<open>The receiver accepts\<close>

lemma receiver_at_accepted:
  assumes P: "plan_ok lib t P" and l: "link_fit t l" and r: "advertised P stream r" "part_count (length stream) MDU = parts_of P"
    and rid: "pl_request_id P = []" "\<not> pl_is_response P"
    and adv: "a = (advertisement_of r)\<lparr>adv_m := m\<rparr>"
  shows "receiver_at P t 0 0 0 False \<lparr>rr_res = accepted_resource l now pt a cbc cbp [], rr_link = l, rr_events = es\<rparr>"
    and "r_hashmap_raw (accepted_resource l now pt a cbc cbp []) = m" and "adv_h a = pl_hash P"
    and "\<not> r_receive_lock (accepted_resource l now pt a cbc cbp [])"
proof -
  have f: "adv_t a = length stream" "adv_h a = pl_hash P" "adv_r a = pl_random P" "adv_e a" "\<not> adv_c a" "\<not> adv_p a" "adv_i a = adv_l a" "adv_m a = m"
    using r(1) by (simp_all add: adv advertised_def advertisement_of_def Let_def)
  have hm: "known_hashmap P 0 = replicate (parts_of P * MAPHASH_LEN) 0" by (simp add: known_hashmap_def)
  show "receiver_at P t 0 0 0 False \<lparr>rr_res = accepted_resource l now pt a cbc cbp [], rr_link = l, rr_events = es\<rparr>"
    using l f rid r(2) sdu_of_fit [OF l]
    by (simp add: receiver_at_def accepted_resource_def new_resource_def resource_data_def window_ok_def hm Let_def)
  show "r_hashmap_raw (accepted_resource l now pt a cbc cbp []) = m" "adv_h a = pl_hash P"
    "\<not> r_receive_lock (accepted_resource l now pt a cbc cbp [])"
    using f by (simp_all add: accepted_resource_def new_resource_def resource_data_def Let_def)
qed

lemma settle_accept:
  assumes "sends (Register_incoming # (if cbs then [Started_callback] else [])) ps evs"
  shows "\<exists>es. settle E now rnd iv k evs le = Inr (report es (le\<lparr>le_incoming := insort_insert k (le_incoming le)\<rparr>)) \<and> sent_of es = ps"
proof -
  obtain q where q: "evs = (Register_incoming # (if cbs then [Started_callback] else [])) @ q" "quiet q" "transmitted q = ps"
    using assms unfolding sends_def by blast
  let ?le = "report (if cbs then [App_started k] else []) (le\<lparr>le_incoming := insort_insert k (le_incoming le)\<rparr>)"
  obtain es where es: "settle E now rnd iv k q ?le = Inr (report es ?le)" "sent_of es = ps"
    using settle_quiet [OF q(2)] q(3) by metis
  have "settle E now rnd iv k evs le = settle E now rnd iv k q ?le"
    by (simp add: q(1) settle_event_def report_def)
  then show ?thesis
    using es by (intro exI [of _ "(if cbs then [App_started k] else []) @ es"]) (simp add: report_def)
qed

lemma accept_at:
  assumes lib: "crypto_ok (re_lib E)" and M: "msgpack_ok (re_msgpack E)" and tok: "new_token key MODE_AES = Inr t"
    and iv: "\<And>i j. length (m_iv w i j) = 16" and P: "plan_ok (re_lib E) t P"
    and b: "link_fit t (le_link b)" "le_incoming b = []" "le_outgoing b = []" "le_events b = []" "le_strategy b = ACCEPT_ALL"
    and r: "advertised P stream r" "length stream < 2 ^ 32" "length (pl_data P) < 2 ^ 32" "part_count (length stream) MDU = parts_of P"
    and rid: "pl_request_id P = []" "\<not> pl_is_response P"
    and p: "advertises E t (adv_pack (re_msgpack E) 0 (advertisement_of r)) p"
  shows "\<exists>b' q m ex. at_moment E w (arrives (re_lib E) p) b = Inr b' \<and>
    recv_end P t 0 (next_height P 0 True) m ex (le_next b) b' \<and> request_ok P 0 m (next_height P 0 True) ex \<and>
    sent_of (le_events b') = [q] \<and> request_packet E P t 0 m (next_height P 0 True) ex q"
proof -
  let ?M = "re_msgpack E" and ?p = "arrives (re_lib E) p" and ?k = "le_next b"
  define pt where "pt = adv_pack ?M 0 (advertisement_of r)"
  note av = adv_of_advertised [OF r(1-3) P M, folded pt_def]
  obtain l where l: "link_receive (re_lib E) (m_rtt w) (m_prove w) (m_now w) (l_attached_interface (le_link b)) ?p (le_link b)
      = Inr (l, [Resource_input RESOURCE_ADV pt])" "link_fit t l"
    using link_receive_message [OF b(1), of ?p RESOURCE_ADV "re_lib E" pt] p av(3) unfolding advertises_def pt_def by blast
  define a where "a = adv_unpack ?M pt"
  have q: "adv_q a = []" using r(1) by (simp add: a_def av(2) advertised_def advertisement_of_def Let_def)
  define b1 where "b1 = b\<lparr>le_link := l\<rparr>"
  have inp: "resource_input E (m_now w) (m_rnd w) (m_iv w) ?p RESOURCE_ADV pt b1
      = res_bind (accept_resource E (m_now w) (m_rnd w) (m_iv w) (le_concluded_callback b) [] pt b1) (\<lambda>(_, le1). Inr le1)"
    using b(5) q unfolding a_def
    by (simp add: resource_inputs advertisement_input_def is_request_def is_response_def b1_def Let_def)
  define r0 where "r0 = accepted_resource l (m_now w) pt a (le_concluded_callback b) False []"
  define es where "es = Register_incoming # (if le_started_callback b then [Started_callback] else [])"
  have adv: "a = (advertisement_of r)\<lparr>adv_m := hashmap_segment P 0\<rparr>" unfolding a_def by (rule av(2))
  have acc: "receiver_at P t 0 0 0 False \<lparr>rr_res = r0, rr_link = l, rr_events = es\<rparr>" "r_hashmap_raw r0 = hashmap_segment P 0"
    "adv_h a = pl_hash P" "\<not> r_receive_lock r0"
    unfolding r0_def by (rule receiver_at_accepted [OF P l(2) r(1,4) rid adv])+
  have z: "HASHMAP_MAX_LEN dvd 0" "0 < parts_of P" using plan_okD(9) [OF P] by simp_all
  have ivk: "\<And>j. length (m_iv w ?k j) = 16" using iv by simp
  obtain s qq m ex where s: "hashmap_update E (m_now w) (m_iv w ?k) 0 (hashmap_segment P 0) \<lparr>rr_res = r0, rr_link = l, rr_events = es\<rparr> = s"
    "receiver_at P t 0 (next_height P 0 True) m ex s" "request_ok P 0 m (next_height P 0 True) ex"
    "sends es [qq] (rr_events s)" "request_packet E P t 0 m (next_height P 0 True) ex qq"
    using hashmap_update_at [where now = "m_now w" and iv = "m_iv w ?k", OF lib tok ivk P acc(1) z] by auto
  have ne: "pl_hash P \<noteq> []" using plan_okD(6) [OF P] by auto
  have "accept E (m_now w) (m_iv w ?k) [] (le_concluded_callback b) False (le_started_callback b) [] pt l = Inr (Some s)"
    using acc(2,3) ne sdu_of_fit [OF l(2)] s(1)
    by (simp add: accept_def a_def [symmetric] r0_def [symmetric] es_def wire_sizes Let_def)
  moreover define b2 where "b2 = b1\<lparr>le_next := ?k + 1, le_link := rr_link s, le_objects := (le_objects b1)(?k := Some (rr_res s))\<rparr>"
  moreover obtain es' where es': "settle E (m_now w) (m_rnd w) (m_iv w) ?k (rr_events s) b2
      = Inr (report es' (b2\<lparr>le_incoming := insort_insert ?k (le_incoming b2)\<rparr>))" "sent_of es' = [qq]"
    using settle_accept s(4) unfolding es_def by blast
  ultimately have res: "accept_resource E (m_now w) (m_rnd w) (m_iv w) (le_concluded_callback b) [] pt b1
      = Inr (Some ?k, report es' (b2\<lparr>le_incoming := [?k]\<rparr>))"
    using b(2) by (simp add: accept_resource_def b1_def Let_def insort_insert_key_def)
  have lock: "\<not> r_receive_lock (rr_res s)"
    using acc(4) s(1) by (auto simp: hashmap_update_def split: if_splits)
  have "recv_end P t 0 (next_height P 0 True) m ex ?k (report es' (b2\<lparr>le_incoming := [?k]\<rparr>))"
    using s(2) lock b(3)
    by (simp add: recv_end_def b2_def b1_def object_def report_def run_of_def receiver_at_def Let_def)
  moreover have "at_moment E w ?p b = Inr (report es' (b2\<lparr>le_incoming := [?k]\<rparr>))"
    unfolding end_receive_input [OF l(1), folded b1_def] inp res by simp
  moreover have "sent_of (le_events (report es' (b2\<lparr>le_incoming := [?k]\<rparr>))) = [qq]"
    using es'(2) b(4) by (simp add: b2_def b1_def)
  ultimately show ?thesis using s(3,5) by blast
qed

section \<open>The transfer\<close>

text \<open>The first round: the advertisement is accepted and the first request answered.\<close>

lemma first_round:
  assumes lib: "crypto_ok (re_lib E)" and M: "msgpack_ok (re_msgpack E)" and tok: "new_token key MODE_AES = Inr t"
    and iv: "\<And>r i j. length (m_iv (v r) i j) = 16" "\<And>r i j. length (m_iv (w r) i j) = 16" and P: "plan_ok (re_lib E) t P"
    and b: "link_fit t (le_link b)" "le_incoming b = []" "le_outgoing b = []" "le_events b = []" "le_strategy b = ACCEPT_ALL"
    and a: "sent_of (le_events a) = [p]" "init_end P t ps 0 (next_height P 0 True) j a" "r_req_hashlist (object a j) = []"
    and ps: "\<forall>p \<in> set ps. \<not> p_sent p" "length ps = parts_of P"
    and r: "advertised P stream r" "length stream < 2 ^ 32" "length (pl_data P) < 2 ^ 32" "part_count (length stream) MDU = parts_of P"
    and rid: "pl_request_id P = []" "\<not> pl_is_response P"
    and p: "advertises E t (adv_pack (re_msgpack E) 0 (advertisement_of r)) p"
  shows "\<exists>s. transfer_round E v w \<lparr>ss_initiator = a, ss_receiver = b, ss_log = []\<rparr> = Inr s \<and>
    (hash_collision (re_lib E) (ss_log s) \<or> (\<exists>m ex. going E P t ps j (le_next b) 0 (next_height P 0 True) m ex s))"
proof -
  define h where "h = next_height P 0 True"
  have ivm: "\<And>i j. length (m_iv (v 0) i j) = 16" using iv by simp
  obtain b' q m ex where b': "at_moment E (v 0) (arrives (re_lib E) p) b = Inr b'" "recv_end P t 0 h m ex (le_next b) b'"
    "request_ok P 0 m h ex" "sent_of (le_events b') = [q]" "request_packet E P t 0 m h ex q"
    using accept_at [OF lib M tok ivm P b r rid p] unfolding h_def by blast
  define a0 where "a0 = a\<lparr>le_events := []\<rparr>"
  have a0: "init_end P t ps 0 h j a0" "le_events a0 = []" "object a0 j = object a j"
    using a(2) by (simp_all add: init_end_def a0_def h_def)
  have dvd: "h < parts_of P \<Longrightarrow> HASHMAP_MAX_LEN dvd h" unfolding h_def by (rule next_height_dvd) simp_all
  obtain a' where "deliver E w 0 [q] a0 = Inr a'"
    "let s = \<lparr>ss_initiator = a', ss_receiver = b'\<lparr>le_events := []\<rparr>, ss_log = [] @ [q]\<rparr>
     in hash_collision (re_lib E) (ss_log s) \<or> going E P t ps j (le_next b) 0 h m ex s"
    using going_request [where w = w and lg = "[]", OF lib M tok iv(2) P ps a0(1,2) b'(2,4,3,5)] dvd a(3) a0(3) by auto
  moreover have "transfer_round E v w \<lparr>ss_initiator = a, ss_receiver = b, ss_log = []\<rparr> = res_bind (deliver E w 0 [q] a0)
      (\<lambda>a1. Inr \<lparr>ss_initiator = a1, ss_receiver = b'\<lparr>le_events := []\<rparr>, ss_log = [q]\<rparr>)"
    unfolding transfer_round_def Let_def by (simp add: a(1) b'(1,4) a0_def)
  ultimately show ?thesis unfolding h_def by (auto simp: Let_def)
qed

lemma transfer_completes:
  assumes lib: "crypto_ok (re_lib E)" and M: "msgpack_ok (re_msgpack E)" and tok: "new_token key MODE_AES = Inr t"
    and iv: "\<And>i j. length (iv i j) = 16" "\<And>n r i j. length (m_iv (w n r) i j) = 16"
    and a: "link_fit t (le_link a)" "le_incoming a = []" "le_outgoing a = []" "le_events a = []"
    and b: "link_fit t (le_link b)" "le_incoming b = []" "le_outgoing b = []" "le_events b = []" "le_strategy b = ACCEPT_ALL"
    and dat: "dat \<noteq> []" "length dat \<le> 30000000"
    and hs: "distinct (pl_hashes (plan_of (re_lib E) t (iv (le_next a) 0) rnd dat))"
      "zero_hash \<notin> set (pl_hashes (plan_of (re_lib E) t (iv (le_next a) 0) rnd dat))"
  shows "\<exists>j k a1 n s. start_transfer E now rnd iv cbc cbp dat a = Inr (j, a1) \<and>
    transfer_rounds E w n \<lparr>ss_initiator = a1, ss_receiver = b, ss_log = []\<rparr> = Inr s \<and>
    n \<le> 2 * parts_of (plan_of (re_lib E) t (iv (le_next a) 0) rnd dat) + 1 \<and>
    (hash_collision (re_lib E) (ss_log s) \<or>
     r_status (object (ss_receiver s) k) = R_COMPLETE \<and> r_data (object (ss_receiver s) k) = dat \<and>
     le_incoming (ss_receiver s) = [] \<and> r_status (object (ss_initiator s) j) = R_COMPLETE \<and> le_outgoing (ss_initiator s) = [])"
proof -
  define P where "P = plan_of (re_lib E) t (iv (le_next a) 0) rnd dat"
  note st = start_transfer_ok [where now = now and cbc = cbc and cbp = cbp and iv = iv, OF lib M tok iv(1) a dat P_def hs [folded P_def]]
  then have P: "plan_ok (re_lib E) t P" "pl_data P = dat" "pl_request_id P = []" "\<not> pl_is_response P" by blast+
  obtain a1 p ps stream where a1: "start_transfer E now rnd iv cbc cbp dat a = Inr (le_next a, a1)" "sent_of (le_events a1) = [p]"
    "init_end P t ps 0 (next_height P 0 True) (le_next a) a1" "\<forall>p \<in> set ps. \<not> p_sent p"
    "list_all2 (part_of (re_lib E)) (pl_chunks P) ps" "r_req_hashlist (object a1 (le_next a)) = []"
    "advertised P stream (object a1 (le_next a))" "length stream < 2 ^ 32" "part_count (length stream) MDU = parts_of P"
    "advertises E t (adv_pack (re_msgpack E) 0 (advertisement_of (object a1 (le_next a)))) p"
    using st by blast
  let ?s0 = "\<lparr>ss_initiator = a1, ss_receiver = b, ss_log = []\<rparr>"
  have len: "length ps = parts_of P" "length (pl_data P) < 2 ^ 32" using a1(5) dat(2) P(2) by (simp_all add: list_all2_lengthD)
  obtain s1 where s1: "transfer_round E (w 0) (w 1) ?s0 = Inr s1"
    "hash_collision (re_lib E) (ss_log s1) \<or> (\<exists>m ex. going E P t ps (le_next a) (le_next b) 0 (next_height P 0 True) m ex s1)"
    using first_round [where v = "w 0" and w = "w 1", OF lib M tok iv(2) iv(2) P(1) b a1(2,3,6,4) len(1) a1(7,8) len(2) a1(9) P(3,4) a1(10)] by blast
  have e: "transfer_rounds E w 1 ?s0 = Inr s1" using s1(1) by simp
  show ?thesis
  proof (cases "hash_collision (re_lib E) (ss_log s1)")
    case True
    then show ?thesis using a1(1) e by (intro exI [of _ "le_next a"] exI [of _ 0] exI [of _ a1] exI [of _ 1] exI [of _ s1]) simp
  next
    case False
    then obtain m ex where g: "going E P t ps (le_next a) (le_next b) 0 (next_height P 0 True) m ex s1" using s1(2) by blast
    obtain n s where s: "transfer_rounds E w n ?s0 = Inr s" "n \<le> 1 + (2 * parts_of P - 0 - next_height P 0 True) + 1"
      "finished P t (le_next a) (le_next b) s \<or> hash_collision (re_lib E) (ss_log s)"
      using rounds_finish [OF lib M tok iv(2) P(1,3) a1(4,5) e g] by blast
    have "next_height P 0 True > 0" using plan_okD(9) [OF P(1)] by (simp add: next_height_def)
    moreover have "parts_of P > 0" "next_height P 0 True \<le> parts_of P" using plan_okD(9) [OF P(1)] by (simp_all add: next_height_def)
    ultimately have "n \<le> 2 * parts_of P + 1" using s(2) by linarith
    then show ?thesis
      using a1(1) s(1,3) P(2) unfolding P_def [symmetric]
      by (intro exI [of _ "le_next a"] exI [of _ "le_next b"] exI [of _ a1] exI [of _ n] exI [of _ s])
        (auto simp: finished_def init_complete_def recv_complete_def)
  qed
qed

section \<open>Properties\<close>

text \<open>
  C4. Data of up to 30 million octets sent as a resource over an active link with the standard MTU of 500
  octets at both ends, on which nothing else is transferred and whose receiving end accepts all resources,
  arrives: after at most \<open>2 n + 1\<close> rounds for \<open>n\<close> parts the receiver holds exactly the data and the initiator
  has its proof, for every clock and every choice of random octets under which the map hashes of the parts
  are different and not zero.  Only two different packets of the receiver with the same packet hash can
  prevent it.  (Over a larger MTU the parts are cut, see \<open>large_mtu_truncates_parts\<close>.)
\<close>

theorem resource_transfer:
  assumes "crypto_ok (re_lib E)" and "msgpack_ok (re_msgpack E)" and "new_token key MODE_AES = Inr t"
    and "\<And>i j. length (iv i j) = 16" and "\<And>n r i j. length (m_iv (w n r) i j) = 16"
    and "link_fit t (le_link a)" and "le_incoming a = []" and "le_outgoing a = []" and "le_events a = []"
    and "link_fit t (le_link b)" and "le_incoming b = []" and "le_outgoing b = []" and "le_events b = []"
    and "le_strategy b = ACCEPT_ALL" and "dat \<noteq> []" and "length dat \<le> 30000000"
    and "distinct (pl_hashes (plan_of (re_lib E) t (iv (le_next a) 0) rnd dat))"
    and "zero_hash \<notin> set (pl_hashes (plan_of (re_lib E) t (iv (le_next a) 0) rnd dat))"
  shows "\<exists>j k a1 n s. start_transfer E now rnd iv cbc cbp dat a = Inr (j, a1) \<and>
    transfer_rounds E w n \<lparr>ss_initiator = a1, ss_receiver = b, ss_log = []\<rparr> = Inr s \<and>
    n \<le> 2 * parts_of (plan_of (re_lib E) t (iv (le_next a) 0) rnd dat) + 1 \<and>
    (hash_collision (re_lib E) (ss_log s) \<or>
     r_status (object (ss_receiver s) k) = R_COMPLETE \<and> r_data (object (ss_receiver s) k) = dat \<and>
     le_incoming (ss_receiver s) = [] \<and> r_status (object (ss_initiator s) j) = R_COMPLETE \<and> le_outgoing (ss_initiator s) = [])"
  by (rule transfer_completes [where iv = iv and w = w, OF assms])

definition demo_resources :: resource_env where
  "demo_resources = \<lparr>re_lib = demo_lib, re_msgpack = demo_msgpack, re_outbound = (\<lambda>_. True)\<rparr>"

definition demo_moment :: moment where
  "demo_moment = \<lparr>m_now = 1, m_rnd = [], m_iv = (\<lambda>_ _. replicate 16 0), m_rtt = (\<lambda>_. 0), m_prove = False\<rparr>"

definition demo_active :: "token \<Rightarrow> link" where
  "demo_active t = new_link_data\<lparr>l_status := LACTIVE, l_link_id := replicate 16 1, l_token := Some t\<rparr>"

lemma demo_active_fit: "link_fit t (demo_active t)"
  by (simp add: link_fit_def link_token_def demo_active_def new_link_data_def)

lemma demo_hash: "length (x # xs) = n \<Longrightarrow> full_hash demo_lib (x # xs) = replicate 32 (word_of_nat n XOR x)"
  by (simp add: full_hash_def sha256_def demo_lib_def demo_tag_def)

lemma demo_plan_hashes:
  assumes "new_token key MODE_AES = Inr t"
  shows "pl_hashes (plan_of demo_lib t (replicate 16 0) [] [7]) = [[68, 68, 68, 68]]"
proof -
  let ?r = "random_of demo_lib []"
  have lr: "length ?r = 4" using length_truncated_hash [OF demo_lib_ok, of "[]"] by (simp add: random_of_def left_def)
  obtain stream where s: "token_encrypt demo_lib (replicate 16 0) t (?r @ [7]) = Inr stream" "length stream = 64"
    using token_encrypt_decrypt [OF demo_lib_ok _ assms, of "replicate 16 0" "?r @ [7]"] lr by auto
  obtain rest where rest: "stream = 0 # rest"
    using s(1) by (auto simp: token_encrypt_def res_bind_eq_Inr Let_def eval_nat_numeral)
  have pc: "part_count (length stream) MDU = 1" using s(2) by (simp add: part_count_def wire_sizes)
  have c: "chunk MDU stream 0 = stream" using s(2) by (simp add: chunk_eq wire_sizes)
  have "full_hash demo_lib (stream @ ?r) = replicate 32 (word_of_nat 68 XOR 0)"
    unfolding rest append_Cons by (rule demo_hash) (use rest s(2) lr in simp)
  then have "left (full_hash demo_lib (stream @ ?r)) 4 = [68, 68, 68, 68]" by (simp add: left_def eval_nat_numeral)
  then show ?thesis
    using s(1) by (simp add: plan_of_def started_plan_def pc c Let_def)
qed

theorem resource_transfer_witness:
  "\<exists>t j k a1 n s. let b = (new_end (demo_active t))\<lparr>le_strategy := ACCEPT_ALL\<rparr> in
     start_transfer demo_resources 1 [] (\<lambda>_ _. replicate 16 0) True True [7] (new_end (demo_active t)) = Inr (j, a1) \<and>
     transfer_rounds demo_resources (\<lambda>_ _. demo_moment) n \<lparr>ss_initiator = a1, ss_receiver = b, ss_log = []\<rparr> = Inr s \<and> n \<le> 3 \<and>
     (hash_collision demo_lib (ss_log s) \<or>
      r_status (object (ss_receiver s) k) = R_COMPLETE \<and> r_data (object (ss_receiver s) k) = [7] \<and>
      r_status (object (ss_initiator s) j) = R_COMPLETE)"
proof -
  obtain t where t: "new_token (replicate 64 1) MODE_AES = Inr t" using new_token_64 [of "replicate 64 1"] by auto
  let ?a = "new_end (demo_active t)" and ?b = "(new_end (demo_active t))\<lparr>le_strategy := ACCEPT_ALL\<rparr>"
  have lib: "re_lib demo_resources = demo_lib" "re_msgpack demo_resources = demo_msgpack" by (simp_all add: demo_resources_def)
  note hs = demo_plan_hashes [OF t]
  have one: "parts_of (plan_of demo_lib t (replicate 16 0) [] [7]) = 1"
  proof -
    have "length (pl_hashes (plan_of demo_lib t iv r d)) = parts_of (plan_of demo_lib t iv r d)" for iv r d
      by (simp add: plan_of_def started_plan_def Let_def split: sum.split)
    then show ?thesis using hs by (metis length_Cons list.size(3) One_nat_def)
  qed
  have "\<exists>j k a1 n s. start_transfer demo_resources 1 [] (\<lambda>_ _. replicate 16 0) True True [7] ?a = Inr (j, a1) \<and>
    transfer_rounds demo_resources (\<lambda>_ _. demo_moment) n \<lparr>ss_initiator = a1, ss_receiver = ?b, ss_log = []\<rparr> = Inr s \<and>
    n \<le> 2 * parts_of (plan_of (re_lib demo_resources) t (replicate 16 0) [] [7]) + 1 \<and>
    (hash_collision (re_lib demo_resources) (ss_log s) \<or>
     r_status (object (ss_receiver s) k) = R_COMPLETE \<and> r_data (object (ss_receiver s) k) = [7] \<and>
     le_incoming (ss_receiver s) = [] \<and> r_status (object (ss_initiator s) j) = R_COMPLETE \<and> le_outgoing (ss_initiator s) = [])"
    by (rule resource_transfer [where iv = "\<lambda>_ _. replicate 16 0" and w = "\<lambda>_ _. demo_moment" and t = t and key = "replicate 64 1"])
      (simp_all add: lib demo_lib_ok demo_msgpack_ok t hs demo_active_fit new_end_def demo_moment_def)
  then show ?thesis unfolding lib one Let_def by (metis (no_types, lifting) Suc_eq_plus1 mult.right_neutral numeral_2_eq_2 numeral_3_eq_3)
qed

section \<open>Links with a larger MTU\<close>

text \<open>A packet object holds at most 464 octets; the packet of a part that is larger is cut off.\<close>

lemma part_packet_arrives:
  assumes l: "MTU \<le> l_mtu l" "length (l_link_id l) = 16"
  shows "\<exists>p. part_packet lib l c = Inr p \<and> p_data (arrives lib p) = left c MDU"
proof -
  let ?v = "link_view_of lib [] l" and ?c = "left c MDU"
  have v: "length (lv_id ?v) = 16" "MTU \<le> lv_mtu ?v" using l by (simp_all add: link_view_of_def)
  obtain p0 p where b: "packet_to_link ?v c = Inr p0" "set_context RESOURCE p0 = Inr p" "link_object ?v DATA RESOURCE ?c p"
  proof (cases "MDU < length c")
    case True
    then show ?thesis using that
      by (simp add: packet_to_link_def packet_to_destination_def new_object_def Let_def with_flags_def link_destination_def
          get_packed_flags_def set_context_def link_object_def resize_vec_def left_def)
  next
    case False
    then show ?thesis using that link_object_build(2) [of c RESOURCE ?v] by (auto simp: left_def)
  qed
  have "sent_in_clear p (link_destination ?v)" using b(3) by (simp add: sent_in_clear_def link_object_def)
  moreover have "19 + length ?c \<le> lv_mtu ?v" using v(2) by (simp add: left_def wire_sizes)
  ultimately obtain q where q: "pack lib p = Inr q" "p_ciphertext q = ?c"
    using link_object_pack(1) [OF b(3) _ _ _ v(1)] by auto
  then show ?thesis using b link_object_wire(3) [OF b(3) _ v(1) q(1)] by (simp add: part_packet_def)
qed

lemma pack_parts_at:
  assumes "MTU \<le> l_mtu l" and "length (l_link_id l) = 16"
  shows "\<exists>ps. pack_parts lib l cs = Inr ps \<and> length ps = length cs \<and>
    (\<forall>i < length cs. \<exists>p. ps ! i = Some p \<and> p_data (arrives lib p) = left (cs ! i) MDU)"
proof (induction cs)
  case (Cons c cs)
  then obtain ps where ps: "pack_parts lib l cs = Inr ps" "length ps = length cs"
    "\<forall>i < length cs. \<exists>p. ps ! i = Some p \<and> p_data (arrives lib p) = left (cs ! i) MDU" by blast
  obtain p where p: "part_packet lib l c = Inr p" "p_data (arrives lib p) = left c MDU"
    using part_packet_arrives [OF assms] by blast
  show ?case using ps p by (auto simp: nth_Cons split: nat.split)
qed simp

text \<open>What \<open>start\<close> leaves in the resource, whether the advertisement could be sent or not.\<close>

definition shape :: "resource \<Rightarrow> packet option list \<times> bytes \<times> nat \<times> nat \<times> bytes" where
  "shape r = (r_parts r, r_hashmap r, r_size r, r_total_parts r, r_random_hash r)"

lemma shape_updates [simp]:
  "shape (r\<lparr>r_advertisement := a\<rparr>) = shape r" "shape (r\<lparr>r_status := st\<rparr>) = shape r"
  "shape (r\<lparr>r_advertisement := a, r_status := st\<rparr>) = shape r"
  "shape (r\<lparr>r_last_activity := x, r_started_transferring := x, r_adv_sent := x, r_rtt := y, r_status := st, r_retries_left := n\<rparr>) = shape r"
  by (simp_all add: shape_def)

lemma shape_cancel [simp]: "shape (rr_res (cancel E now iv s)) = shape (rr_res s)"
  by (subst cancel_res(1)) simp

lemma shape_send_advertisement: "send_advertisement E now iv s = (x, s1) \<Longrightarrow> shape (rr_res s1) = shape (rr_res s)"
  by (auto simp: send_advertisement_def Let_def dest!: res_send_resD)

lemma shape_advertise_job: "shape (rr_res (advertise_job E now iv ready s)) = shape (rr_res s)"
proof (cases "send_advertisement E now (iv 0) s")
  case (Pair x s1)
  have "shape (rr_res s1) = shape (rr_res s)" using Pair by (rule shape_send_advertisement)
  then show ?thesis using Pair
    by (cases x; cases ready) (simp_all add: advertise_job_def)
qed

lemma start_result:
  assumes "r_data (rr_res s) \<noteq> []" and "r_sdu (rr_res s) \<noteq> 0"
    and "link_encrypt (re_lib E) (iv 0) (rr_link s)
        (left (truncated_hash (re_lib E) rnd) RANDOM_HASH_SIZE @ r_data (rr_res s)) = Inr (stream, l)"
    and "n = part_count (length stream) (r_sdu (rr_res s))" and "cs = map (chunk (r_sdu (rr_res s)) stream) [0..<n]"
    and "pack_parts (re_lib E) l cs = Inr ps"
  shows "\<exists>s'. start E now rnd iv ready s = Inr s' \<and> r_parts (rr_res s') = ps \<and> r_total_parts (rr_res s') = n \<and>
    r_hashmap (rr_res s') = concat (map (map_hash (re_lib E) (rr_res s')) cs) \<and> r_size (rr_res s') = length stream"
proof -
  let ?lib = "re_lib E"
  define random where "random = left (truncated_hash ?lib rnd) RANDOM_HASH_SIZE"
  note e = assms(3) [folded random_def] and ps = assms(6) [unfolded assms(4,5)]
  have "\<exists>r. start E now rnd iv ready s = Inr (advertise_job E now (\<lambda>k. iv (k + 1)) ready
      (s\<lparr>rr_link := l, rr_res := r\<lparr>r_encrypted := True, r_size := length stream, r_total_parts := n, r_sent_parts := 0,
        r_parts := ps, r_hashmap := concat (map (map_hash ?lib r) cs)\<rparr>\<rparr>)) \<and> r_random_hash r = random"
    unfolding start_def Let_def random_def [symmetric] assms(4,5)
    by (rule exI, rule conjI) (simp only: assms(1,2) e ps res_bind_simps prod.case if_False, simp)
  then obtain r where st: "start E now rnd iv ready s = Inr (advertise_job E now (\<lambda>k. iv (k + 1)) ready
      (s\<lparr>rr_link := l, rr_res := r\<lparr>r_encrypted := True, r_size := length stream, r_total_parts := n, r_sent_parts := 0,
        r_parts := ps, r_hashmap := concat (map (map_hash ?lib r) cs)\<rparr>\<rparr>))" and r: "r_random_hash r = random" by blast
  obtain s' where s': "start E now rnd iv ready s = Inr s'"
    and "shape (rr_res s') = shape (r\<lparr>r_encrypted := True, r_size := length stream, r_total_parts := n, r_sent_parts := 0,
        r_parts := ps, r_hashmap := concat (map (map_hash ?lib r) cs)\<rparr>)"
    unfolding st by (simp add: shape_advertise_job)
  then have sh: "shape (rr_res s') = (ps, concat (map (map_hash ?lib r) cs), length stream, n, random)"
    using r by (simp add: shape_def)
  then have "map_hash ?lib r = map_hash ?lib (rr_res s')" using r by (simp add: shape_def fun_eq_iff map_hash_def)
  then show ?thesis using s' sh by (simp add: shape_def)
qed

lemma map_hash_at_concat:
  assumes "crypto_ok lib" and "r_hashmap r = concat (map (map_hash lib r0) cs)" and "i < length cs"
  shows "map_hash_at r i = map_hash lib r0 (cs ! i)"
proof -
  have "\<forall>h \<in> set (map (map_hash lib r0) cs). length h = MAPHASH_LEN"
    using crypto_okD [OF assms(1)] by (simp add: map_hash_def left_def full_hash_def sha256_def)
  from concat_uniform [OF this, of i "[]"] show ?thesis using assms(2,3) by (simp add: map_hash_at_def mid_take_drop)
qed

text \<open>
  C39. Over a link with an MTU above 500 a resource is cut into parts of the MTU of the link less 36 octets,
  but a packet object holds no more than 464: every full part, of which there is at least one when the data
  is longer than the MTU, reaches the peer cut off, while the hash map holds the hash of the whole part.
\<close>

theorem large_mtu_truncates_parts:
  assumes "crypto_ok (re_lib E)" and "new_token key MODE_AES = Inr t" and "length (iv 0) = 16"
    and "l_status l = LACTIVE" and "l_token l = Some t" and "length (l_link_id l) = 16" and "MTU < l_mtu l" and "l_mtu l < 2 ^ 16"
    and "l_mtu l < length dat" and "length dat \<le> 30000000"
  shows "\<exists>s stream. start E now rnd iv ready \<lparr>rr_res = new_resource dat l, rr_link = l, rr_events = []\<rparr> = Inr s \<and>
    r_size (rr_res s) = length stream \<and> l_mtu l - 36 \<le> length stream \<and> MDU < l_mtu l - 36 \<and>
    (\<forall>i. (i + 1) * (l_mtu l - 36) \<le> length stream \<longrightarrow>
       (\<exists>p whole. whole = take (l_mtu l - 36) (drop (i * (l_mtu l - 36)) stream) \<and> length whole = l_mtu l - 36 \<and>
          r_parts (rr_res s) ! i = Some p \<and> p_data (arrives (re_lib E) p) = left whole MDU \<and>
          map_hash_at (rr_res s) i = map_hash (re_lib E) (rr_res s) whole))"
proof -
  let ?lib = "re_lib E" and ?sdu = "l_mtu l - 36"
  let ?random = "left (truncated_hash ?lib rnd) RANDOM_HASH_SIZE"
  have sdu: "r_sdu (new_resource dat l) = ?sdu" "r_data (new_resource dat l) = dat" "?sdu > 464"
    using assms(4,7,8) by (simp_all add: new_resource_def sdu_of_def wire_sizes nat_mod_distrib)
  obtain stream where stream: "token_encrypt ?lib (iv 0) t (?random @ dat) = Inr stream"
    "length stream = 16 * (length (?random @ dat) div 16 + 1) + 48"
    using token_encrypt_decrypt [OF assms(1,3,2), of "?random @ dat"] by blast
  define n where "n = part_count (length stream) ?sdu"
  define cs where "cs = map (chunk ?sdu stream) [0..<n]"
  have "length ?random \<le> 4" by (simp add: left_def)
  then have "length (?random @ dat) div 16 \<le> 1875000" "length dat div 16 \<le> length (?random @ dat) div 16"
    using assms(10) by (auto intro: div_le_mono)
  moreover have "length dat < 16 * (length dat div 16 + 1)" using dividend_less_div_times [of 16 "length dat"] by simp
  ultimately have len: "?sdu \<le> length stream" "length stream \<le> 30000064" using stream(2) assms(9) by simp_all
  have full: "i < n" if i: "(i + 1) * ?sdu \<le> length stream" for i
  proof -
    have "n = (length stream + ?sdu - 1) div ?sdu"
      unfolding n_def by (rule concat_chunks(2)) (use len(2) assms(8) sdu(3) in simp_all)
    moreover have "(i + 1) * ?sdu \<le> length stream + ?sdu - 1" using i sdu(3) by linarith
    ultimately show ?thesis using sdu(3) by (simp only: less_eq_div_iff_mult_less_eq Suc_le_eq [symmetric] Suc_eq_plus1)
  qed
  obtain ps where ps: "pack_parts ?lib l cs = Inr ps" "length ps = length cs"
    "\<forall>i < length cs. \<exists>p. ps ! i = Some p \<and> p_data (arrives ?lib p) = left (cs ! i) MDU"
    using pack_parts_at [OF _ assms(6)] assms(7) by (meson less_imp_le)
  have e: "link_encrypt ?lib (iv 0) l (?random @ dat) = Inr (stream, l)"
    using stream(1) assms(5) by (simp add: link_encrypt_def link_token_def)
  obtain s where s: "start E now rnd iv ready \<lparr>rr_res = new_resource dat l, rr_link = l, rr_events = []\<rparr> = Inr s"
    "r_parts (rr_res s) = ps" "r_hashmap (rr_res s) = concat (map (map_hash ?lib (rr_res s)) cs)" "r_size (rr_res s) = length stream"
  proof -
    have "dat \<noteq> []" "?sdu \<noteq> 0" using assms(9) sdu(3) by auto
    then show ?thesis
      using that start_result [of "\<lparr>rr_res = new_resource dat l, rr_link = l, rr_events = []\<rparr>" E iv rnd stream l n cs ps now ready]
        sdu(1,2) e ps(1) n_def cs_def by auto
  qed
  have "\<exists>p whole. whole = take ?sdu (drop (i * ?sdu) stream) \<and> length whole = ?sdu \<and> r_parts (rr_res s) ! i = Some p \<and>
      p_data (arrives ?lib p) = left whole MDU \<and> map_hash_at (rr_res s) i = map_hash ?lib (rr_res s) whole"
    if i: "(i + 1) * ?sdu \<le> length stream" for i
  proof -
    have l: "i < length cs" and c: "cs ! i = take ?sdu (drop (i * ?sdu) stream)"
      using full [OF i] by (simp_all add: cs_def chunk_eq)
    have "length (cs ! i) = ?sdu" unfolding c using i by simp
    with l c ps(3) s(2) map_hash_at_concat [OF assms(1) s(3) l] show ?thesis by auto
  qed
  moreover have "MDU < ?sdu" using sdu(3) by (simp add: wire_sizes)
  ultimately show ?thesis using s(1,4) len(1) by (intro exI [of _ s] exI [of _ stream]) blast
qed

definition demo_wide :: "token \<Rightarrow> link" where
  "demo_wide t = (demo_active t)\<lparr>l_mtu := 600\<rparr>"

theorem large_mtu_truncates_parts_witness:
  "\<exists>t s p whole. start demo_resources 1 [] (\<lambda>_. replicate 16 0) True
      \<lparr>rr_res = new_resource (replicate 601 7) (demo_wide t), rr_link = demo_wide t, rr_events = []\<rparr> = Inr s \<and>
    r_parts (rr_res s) ! 0 = Some p \<and> p_data (arrives demo_lib p) = left whole MDU \<and> length whole = 564 \<and> MDU < length whole"
proof -
  obtain t where t: "new_token (replicate 64 1) MODE_AES = Inr t" using new_token_64 [of "replicate 64 1"] by auto
  have lib: "re_lib demo_resources = demo_lib" by (simp add: demo_resources_def)
  have l: "l_status (demo_wide t) = LACTIVE" "l_mtu (demo_wide t) = 600" "length (l_link_id (demo_wide t)) = 16"
    "l_token (demo_wide t) = Some t"
    by (simp_all add: demo_wide_def demo_active_def)
  obtain s stream where s: "start demo_resources 1 [] (\<lambda>_. replicate 16 0) True
      \<lparr>rr_res = new_resource (replicate 601 7) (demo_wide t), rr_link = demo_wide t, rr_events = []\<rparr> = Inr s" "564 \<le> length stream"
    and parts: "\<And>i. (i + 1) * 564 \<le> length stream \<Longrightarrow> \<exists>p whole. whole = take 564 (drop (i * 564) stream) \<and> length whole = 564 \<and>
      r_parts (rr_res s) ! i = Some p \<and> p_data (arrives demo_lib p) = left whole MDU \<and>
      map_hash_at (rr_res s) i = map_hash demo_lib (rr_res s) whole"
    using large_mtu_truncates_parts [of demo_resources "replicate 64 1" t "\<lambda>_. replicate 16 0" "demo_wide t" "replicate 601 7" 1 "[]" True]
      demo_lib_ok t by (auto simp: l lib wire_sizes)
  have "(0 + 1) * 564 \<le> length stream" using s(2) by simp
  from parts [OF this] obtain p whole where
    "length whole = 564" "r_parts (rr_res s) ! 0 = Some p" "p_data (arrives demo_lib p) = left whole MDU" by blast
  moreover have "MDU < (564 :: nat)" by (simp add: wire_sizes)
  ultimately show ?thesis using s(1) by (intro exI [of _ t] exI [of _ s] exI [of _ p] exI [of _ whole]) simp
qed

end
