(* ===== verification/Provision_Values.thy ===== *)
theory Provision_Values
  imports Msgpack
begin

text \<open>
  The values and fields of the configuration interface: \<open>Provisioning/Value.h\<close>, \<open>Provisioning/Field.h\<close>,
  \<open>Field::validate\<close>, and the part of \<open>Provisioning/Codec.cpp\<close> that writes and reads one value.  A field
  may have a setter and a getter; both are functions of the application's state \<open>'w\<close>.  A setter may throw.
  A 64 bit integer is an \<open>int\<close> and a \<open>double\<close> a \<open>real\<close>, which has no NaN and no infinities: what is
  proved of values says nothing of a NaN, which the range check of \<open>Field::validate\<close> lets pass.
\<close>

section \<open>Values\<close>

type_synonym nid = "16 word"
type_synonym fid = "16 word"
type_synonym fflags = "8 word"

datatype vtype = None_t | Bool_t | Int_t | Float_t | String_t | Bytes_t | Enum_t | BytesList_t | Void_t

datatype pvalue =
    None_v | Bool_v bool | Int_v int | Float_v real | String_v bytes | Bytes_v bytes | Enum_v int
  | BytesList_v "bytes list" | Void_v

fun vtype_of :: "pvalue \<Rightarrow> vtype" where
  "vtype_of None_v = None_t"
| "vtype_of (Bool_v _) = Bool_t"
| "vtype_of (Int_v _) = Int_t"
| "vtype_of (Float_v _) = Float_t"
| "vtype_of (String_v _) = String_t"
| "vtype_of (Bytes_v _) = Bytes_t"
| "vtype_of (Enum_v _) = Enum_t"
| "vtype_of (BytesList_v _) = BytesList_t"
| "vtype_of Void_v = Void_t"

fun as_int :: "pvalue \<Rightarrow> int" where
  "as_int (Bool_v b) = (if b then 1 else 0)"
| "as_int (Int_v i) = i"
| "as_int (Enum_v i) = i"
| "as_int _ = 0"

definition as_bool :: "pvalue \<Rightarrow> bool" where
  "as_bool v = (as_int v \<noteq> 0)"

fun as_float :: "pvalue \<Rightarrow> real" where
  "as_float (Float_v d) = d"
| "as_float _ = 0"

fun as_string :: "pvalue \<Rightarrow> bytes" where
  "as_string (String_v s) = s"
| "as_string _ = []"

fun as_bytes :: "pvalue \<Rightarrow> bytes" where
  "as_bytes (Bytes_v b) = b"
| "as_bytes _ = []"

fun as_bytes_list :: "pvalue \<Rightarrow> bytes list" where
  "as_bytes_list (BytesList_v l) = l"
| "as_bytes_list _ = []"

definition is_none :: "pvalue \<Rightarrow> bool" where
  "is_none v = (vtype_of v = None_t)"

text \<open>\<open>operator==\<close>: the type tags first, then the payload the tag selects.\<close>

definition same_value :: "pvalue \<Rightarrow> pvalue \<Rightarrow> bool" where
  "same_value a b =
     (if vtype_of a \<noteq> vtype_of b then False
      else case vtype_of a of
        None_t \<Rightarrow> True
      | Bool_t \<Rightarrow> as_int a = as_int b
      | Int_t \<Rightarrow> as_int a = as_int b
      | Enum_t \<Rightarrow> as_int a = as_int b
      | Float_t \<Rightarrow> as_float a = as_float b
      | String_t \<Rightarrow> as_string a = as_string b
      | Bytes_t \<Rightarrow> as_bytes a = as_bytes b
      | BytesList_t \<Rightarrow> as_bytes_list a = as_bytes_list b
      | Void_t \<Rightarrow> True)"

lemma is_none_iff [simp]: "is_none v \<longleftrightarrow> v = None_v"
  by (cases v) (simp_all add: is_none_def)

lemma same_value_iff [simp]: "same_value a b \<longleftrightarrow> a = b"
  by (cases a; cases b) (auto simp: same_value_def)

section \<open>Fields\<close>

abbreviation FF_LIVE_APPLY :: fflags where "FF_LIVE_APPLY \<equiv> 1"
abbreviation FF_REBOOT_REQUIRED :: fflags where "FF_REBOOT_REQUIRED \<equiv> 2"
abbreviation FF_READ_ONLY :: fflags where "FF_READ_ONLY \<equiv> 4"
abbreviation FF_SECRET :: fflags where "FF_SECRET \<equiv> 8"
abbreviation FF_WRITE_ONLY :: fflags where "FF_WRITE_ONLY \<equiv> 16"

record constraint =
  c_has_range :: bool
  c_imin :: int
  c_imax :: int
  c_fmin :: real
  c_fmax :: real
  c_max_len :: nat
  c_element_size :: nat
  c_max_count :: nat
  c_enum_values :: "int list"
  c_enum_labels :: "bytes list"

definition no_constraint :: constraint where
  "no_constraint =
     \<lparr>c_has_range = False, c_imin = 0, c_imax = 0, c_fmin = 0, c_fmax = 0, c_max_len = 0,
      c_element_size = 0, c_max_count = 0, c_enum_values = [], c_enum_labels = []\<rparr>"

type_synonym 'w setter = "pvalue \<Rightarrow> 'w \<Rightarrow> bool result \<times> 'w"
type_synonym 'w getter = "'w \<Rightarrow> pvalue"

record 'w pfield =
  f_id :: fid
  f_name :: bytes
  f_type :: vtype
  f_flags :: fflags
  f_constraint :: constraint
  f_default :: pvalue
  f_setter :: "'w setter option"
  f_getter :: "'w getter option"

definition has_flag :: "'w pfield \<Rightarrow> fflags \<Rightarrow> bool" where
  "has_flag f x \<longleftrightarrow> f_flags f AND x \<noteq> 0"

definition validate :: "'w pfield \<Rightarrow> pvalue \<Rightarrow> bool" where
  "validate f v =
     (let c = f_constraint f
      in if vtype_of v \<noteq> f_type f then False
         else case f_type f of
           None_t \<Rightarrow> False
         | Bool_t \<Rightarrow> True
         | Int_t \<Rightarrow> \<not> (c_has_range c \<and> (as_int v < c_imin c \<or> as_int v > c_imax c))
         | Float_t \<Rightarrow> \<not> (c_has_range c \<and> (as_float v < c_fmin c \<or> as_float v > c_fmax c))
         | String_t \<Rightarrow> \<not> (c_max_len c > 0 \<and> length (as_string v) > c_max_len c)
         | Bytes_t \<Rightarrow> \<not> (c_max_len c > 0 \<and> length (as_bytes v) > c_max_len c)
         | Enum_t \<Rightarrow> (if c_enum_values c \<noteq> [] then as_int v \<in> set (c_enum_values c) else True)
         | BytesList_t \<Rightarrow>
             \<not> (c_max_count c > 0 \<and> length (as_bytes_list v) > c_max_count c) \<and>
             \<not> (c_element_size c > 0 \<and> list_ex (\<lambda>e. length e \<noteq> c_element_size c) (as_bytes_list v))
         | Void_t \<Rightarrow> vtype_of v = Void_t)"

lemma validate_type: "validate f v \<Longrightarrow> vtype_of v = f_type f"
  unfolding validate_def Let_def by (cases "vtype_of v = f_type f") simp_all

lemma validate_not_none: "validate f v \<Longrightarrow> v \<noteq> None_v"
  unfolding validate_def Let_def by (cases "f_type f") auto

section \<open>One value on the wire\<close>

text \<open>A string handed over as \<open>c_str()\<close> ends at its first zero octet.\<close>

definition c_str :: "bytes \<Rightarrow> bytes" where
  "c_str s = takeWhile (\<lambda>c. c \<noteq> 0) s"

definition pack_bins :: "bytes list \<Rightarrow> mp_item list" where
  "pack_bins l = MP_array (length l) # map MP_bin l"

definition pack_value :: "pvalue \<Rightarrow> mp_item list" where
  "pack_value v =
     (case v of
        None_v \<Rightarrow> []
      | Bool_v b \<Rightarrow> [MP_bool b]
      | Int_v i \<Rightarrow> [mp_signed i]
      | Enum_v i \<Rightarrow> [mp_signed i]
      | Float_v d \<Rightarrow> [MP_float64 d]
      | String_v s \<Rightarrow> [MP_str (c_str s)]
      | Bytes_v b \<Rightarrow> [MP_bin b]
      | BytesList_v l \<Rightarrow> pack_bins l
      | Void_v \<Rightarrow> [MP_nil])"

text \<open>What the cursor stands on; nothing, once the input is used up.\<close>

definition mp_is_bool :: "mp_item list \<Rightarrow> bool" where
  "mp_is_bool s = (case s of MP_bool _ # _ \<Rightarrow> True | _ \<Rightarrow> False)"

definition mp_is_num :: "mp_item list \<Rightarrow> bool" where
  "mp_is_num s = (case s of MP_float32 _ # _ \<Rightarrow> True | MP_float64 _ # _ \<Rightarrow> True | _ \<Rightarrow> mp_is_int s)"

definition mp_is_str :: "mp_item list \<Rightarrow> bool" where
  "mp_is_str s = (case s of MP_str _ # _ \<Rightarrow> True | _ \<Rightarrow> False)"

definition mp_is_bin :: "mp_item list \<Rightarrow> bool" where
  "mp_is_bin s = (case s of MP_bin _ # _ \<Rightarrow> True | _ \<Rightarrow> False)"

definition mp_is_map :: "mp_item list \<Rightarrow> bool" where
  "mp_is_map s = (case s of MP_map _ # _ \<Rightarrow> True | _ \<Rightarrow> False)"

definition mp_is_array :: "mp_item list \<Rightarrow> bool" where
  "mp_is_array s = (case s of MP_array _ # _ \<Rightarrow> True | _ \<Rightarrow> False)"

text \<open>\<open>unpackMapSize\<close>, \<open>unpackArraySize\<close> and the value of a flag, read where the cursor stands on one.\<close>

definition mp_map_size :: "mp_item list \<Rightarrow> nat \<times> mp_item list" where
  "mp_map_size s = (case s of MP_map n # r \<Rightarrow> (n, r) | _ \<Rightarrow> (0, s))"

definition mp_array_size :: "mp_item list \<Rightarrow> nat \<times> mp_item list" where
  "mp_array_size s = (case s of MP_array n # r \<Rightarrow> (n, r) | _ \<Rightarrow> (0, s))"

definition mp_bool :: "mp_item list \<Rightarrow> bool \<times> mp_item list" where
  "mp_bool s = (case s of MP_bool b # r \<Rightarrow> (b, r) | _ \<Rightarrow> (False, s))"

text \<open>The elements of a list; an element of another type ends the reading where it stands.\<close>

fun read_bins :: "nat \<Rightarrow> bytes list \<Rightarrow> mp_item list \<Rightarrow> bytes list option \<times> mp_item list" where
  "read_bins 0 acc s = (Some acc, s)"
| "read_bins (Suc n) acc (MP_bin b # r) = read_bins n (acc @ [b]) r"
| "read_bins (Suc n) acc s = (None, s)"

definition unpack_value :: "msgpack \<Rightarrow> vtype \<Rightarrow> mp_item list \<Rightarrow> pvalue option \<times> mp_item list" where
  "unpack_value M t s =
     (case t of
        None_t \<Rightarrow> (None, s)
      | Bool_t \<Rightarrow> if \<not> mp_is_bool s then (None, s) else (case mp_bool s of (b, r) \<Rightarrow> (Some (Bool_v b), r))
      | Int_t \<Rightarrow> if \<not> mp_is_int s then (None, s) else (case mp_int M s of (i, r) \<Rightarrow> (Some (Int_v i), r))
      | Enum_t \<Rightarrow> if \<not> mp_is_int s then (None, s) else (case mp_int M s of (i, r) \<Rightarrow> (Some (Enum_v i), r))
      | Float_t \<Rightarrow> if mp_is_num s then (case mp_real M s of (d, r) \<Rightarrow> (Some (Float_v d), r)) else (None, s)
      | String_t \<Rightarrow> if \<not> mp_is_str s then (None, s)
          else (case mp_str M s of (b, r) \<Rightarrow> (map_option String_v b, r))
      | Bytes_t \<Rightarrow> if \<not> mp_is_bin s then (None, s) else (case mp_bin M s of (b, r) \<Rightarrow> (Some (Bytes_v b), r))
      | BytesList_t \<Rightarrow> if \<not> mp_is_array s then (None, s)
          else (case mp_array_size s of (n, r) \<Rightarrow>
                  case read_bins n [] r of (l, r') \<Rightarrow> (map_option BytesList_v l, r'))
      | Void_t \<Rightarrow> (case s of MP_nil # r \<Rightarrow> (Some Void_v, r) | _ \<Rightarrow> (None, s)))"

text \<open>
  \<open>skip_value\<close> \<open>k\<close> times: an array adds its elements, a map its keys and values to what is to be skipped.
  At the end of the input the calls do nothing.
\<close>

fun skip_values :: "nat \<Rightarrow> mp_item list \<Rightarrow> mp_item list" where
  "skip_values 0 s = s"
| "skip_values (Suc k) [] = []"
| "skip_values (Suc k) (MP_array n # r) = skip_values (n + k) r"
| "skip_values (Suc k) (MP_map n # r) = skip_values (2 * n + k) r"
| "skip_values (Suc k) (_ # r) = skip_values k r"

abbreviation skip_value :: "mp_item list \<Rightarrow> mp_item list" where
  "skip_value \<equiv> skip_values 1"

section \<open>Lemmas\<close>

text \<open>The values that survive the wire: integers of 64 bits, doubles the codec keeps, strings without zeros.\<close>

definition wire_ok :: "msgpack \<Rightarrow> pvalue \<Rightarrow> bool" where
  "wire_ok M v =
     (case v of
        None_v \<Rightarrow> False
      | Int_v i \<Rightarrow> - (2 ^ 63) \<le> i \<and> i < 2 ^ 63
      | Enum_v i \<Rightarrow> - (2 ^ 63) \<le> i \<and> i < 2 ^ 63
      | Float_v d \<Rightarrow> mp_double M d
      | String_v s \<Rightarrow> 0 \<notin> set s \<and> length s < 2 ^ 32
      | Bytes_v b \<Rightarrow> length b < 2 ^ 32
      | BytesList_v l \<Rightarrow> length l < 2 ^ 32 \<and> list_all (\<lambda>b. length b < 2 ^ 32) l
      | _ \<Rightarrow> True)"

lemma c_str_id: "0 \<notin> set s \<Longrightarrow> c_str s = s"
  unfolding c_str_def by (rule takeWhile_eq_all_conv [THEN iffD2]) auto

lemma read_bins_append: "read_bins (length l) acc (map MP_bin l @ r) = (Some (acc @ l), r)"
  by (induction l arbitrary: acc) simp_all

lemma skip_pack_value:
  assumes "v \<noteq> None_v"
  shows "skip_values (Suc k) (pack_value v @ r) = skip_values k r"
proof -
  have bins: "skip_values (length l + k) (map MP_bin l @ r) = skip_values k r" for l
    by (induction l) simp_all
  show ?thesis using assms by (cases v) (simp_all add: pack_value_def pack_bins_def mp_signed_def bins)
qed

lemma unpack_pack_value:
  assumes "wire_ok M v" and "vtype_of v = t"
  shows "unpack_value M t (pack_value v @ r) = (Some v, r)"
  using assms mp_signed_read(1) [where M = M and r = r] mp_signed_read(2) [where r = r]
  by (cases v)
    (simp_all add: wire_ok_def unpack_value_def pack_value_def pack_bins_def mp_is_bool_def mp_bool_def mp_is_num_def
      mp_is_str_def mp_is_bin_def mp_is_array_def mp_array_size_def read_bins_append c_str_id)

lemma mp_wf_signed: "- (2 ^ 63) \<le> i \<Longrightarrow> i < 2 ^ 63 \<Longrightarrow> mp_wf f (mp_signed i)"
  by (auto simp: mp_signed_def nat_less_iff)

lemma length_c_str: "length (c_str s) \<le> length s"
  by (simp add: c_str_def length_takeWhile_le)

lemma mp_wf_pack_value: "wire_ok M v \<Longrightarrow> list_all (mp_wf (mp_double M)) (pack_value v)"
  by (cases v) (auto simp: wire_ok_def pack_value_def pack_bins_def mp_wf_signed c_str_id list.pred_map comp_def)

lemma unpack_value_type: "unpack_value M t s = (Some v, r) \<Longrightarrow> vtype_of v = t \<and> v \<noteq> None_v"
  by (cases t) (auto simp: unpack_value_def split: if_splits prod.splits list.splits mp_item.splits)

end
