(* ===== verification/Provision_Namespace.thy ===== *)
theory Provision_Namespace
  imports Provision_Values Std_Map
begin

text \<open>
  Namespaces and their registry: \<open>Provisioning/Namespace.cpp\<close>, \<open>Registry.cpp\<close>, and the part of \<open>Codec.cpp\<close>
  that writes and reads the persistent values of a namespace.  A pointer to a field or a namespace is its
  position: neither is ever removed but by \<open>clear\<close>.  A commit hook reads the drafts and the application
  state and answers with the edits it makes to the drafts; it may end in an exception, which its caller
  catches.
\<close>

section \<open>Namespaces\<close>

datatype draft_edit = Edit_set fid pvalue | Edit_clear fid | Edit_clear_all

type_synonym 'w commit_hook = "(fid, pvalue) table \<Rightarrow> 'w \<Rightarrow> draft_edit list \<times> 'w"

record 'w namespace =
  ns_id :: nid
  ns_name :: bytes
  ns_parent :: nid
  ns_fields :: "'w pfield list"
  ns_id_index :: "(fid, nat) table"
  ns_name_index :: "(bytes, nat) table"
  ns_working :: "(fid, pvalue) table"
  ns_draft :: "(fid, pvalue) table"
  ns_on_commit :: "'w commit_hook option"
  ns_schema_hash :: "32 word"
  ns_dirty :: bool

definition new_namespace :: "nid \<Rightarrow> bytes option \<Rightarrow> nid \<Rightarrow> 'w namespace" where
  "new_namespace k name parent =
     \<lparr>ns_id = k, ns_name = (case name of None \<Rightarrow> [] | Some s \<Rightarrow> s), ns_parent = parent, ns_fields = [],
      ns_id_index = [], ns_name_index = [], ns_working = [], ns_draft = [], ns_on_commit = None,
      ns_schema_hash = 0, ns_dirty = False\<rparr>"

definition add_field :: "'w \<Rightarrow> 'w pfield \<Rightarrow> 'w namespace \<Rightarrow> bool \<times> 'w namespace" where
  "add_field w f ns =
     (if tab_find (f_id f) (ns_id_index ns) \<noteq> None then (False, ns)
      else if f_name f \<noteq> [] \<and> tab_find (f_name f) (ns_name_index ns) \<noteq> None then (False, ns)
      else let idx = length (ns_fields ns)
           in (True, ns\<lparr>ns_id_index := tab_assign (f_id f) idx (ns_id_index ns),
                        ns_name_index := (if f_name f \<noteq> [] then tab_assign (f_name f) idx (ns_name_index ns)
                                          else ns_name_index ns),
                        ns_working := tab_assign (f_id f)
                          (case f_getter f of Some g \<Rightarrow> g w | None \<Rightarrow> f_default f) (ns_working ns),
                        ns_fields := ns_fields ns @ [f]\<rparr>))"

definition find_field :: "fid \<Rightarrow> 'w namespace \<Rightarrow> 'w pfield option" where
  "find_field k ns = (case tab_find k (ns_id_index ns) of None \<Rightarrow> None | Some i \<Rightarrow> Some (ns_fields ns ! i))"

definition find_field_named :: "bytes option \<Rightarrow> 'w namespace \<Rightarrow> 'w pfield option" where
  "find_field_named name ns =
     (case name of
        None \<Rightarrow> None
      | Some s \<Rightarrow> (case tab_find s (ns_name_index ns) of None \<Rightarrow> None | Some i \<Rightarrow> Some (ns_fields ns ! i)))"

definition working :: "fid \<Rightarrow> 'w namespace \<Rightarrow> pvalue" where
  "working k ns = (case tab_find k (ns_working ns) of None \<Rightarrow> None_v | Some v \<Rightarrow> v)"

definition effective :: "'w \<Rightarrow> fid \<Rightarrow> 'w namespace \<Rightarrow> pvalue" where
  "effective w k ns =
     (case find_field k ns of
        None \<Rightarrow> None_v
      | Some f \<Rightarrow>
          if has_flag f FF_WRITE_ONLY then None_v
          else case f_getter f of Some g \<Rightarrow> g w | None \<Rightarrow> working k ns)"

definition draft :: "fid \<Rightarrow> 'w namespace \<Rightarrow> pvalue option" where
  "draft k ns = tab_find k (ns_draft ns)"

definition has_draft :: "fid \<Rightarrow> 'w namespace \<Rightarrow> bool" where
  "has_draft k ns = (tab_find k (ns_draft ns) \<noteq> None)"

definition has_any_draft :: "'w namespace \<Rightarrow> bool" where
  "has_any_draft ns = (ns_draft ns \<noteq> [])"

definition set_draft :: "'w \<Rightarrow> fid \<Rightarrow> pvalue \<Rightarrow> 'w namespace \<Rightarrow> bool \<times> 'w namespace" where
  "set_draft w k v ns =
     (case find_field k ns of
        None \<Rightarrow> (False, ns)
      | Some f \<Rightarrow>
          if has_flag f FF_READ_ONLY then (False, ns)
          else if \<not> validate f v then (False, ns)
          else if \<not> has_flag f FF_WRITE_ONLY \<and>
            same_value (if has_flag f FF_REBOOT_REQUIRED then working k ns else effective w k ns) v
          then (True, ns\<lparr>ns_draft := tab_erase k (ns_draft ns)\<rparr>)
          else (True, ns\<lparr>ns_draft := tab_assign k v (ns_draft ns)\<rparr>))"

definition clear_draft :: "fid \<Rightarrow> 'w namespace \<Rightarrow> 'w namespace" where
  "clear_draft k ns = ns\<lparr>ns_draft := tab_erase k (ns_draft ns)\<rparr>"

definition clear_drafts :: "'w namespace \<Rightarrow> 'w namespace" where
  "clear_drafts ns = ns\<lparr>ns_draft := []\<rparr>"

definition draft_has_reboot :: "'w namespace \<Rightarrow> bool" where
  "draft_has_reboot ns =
     list_ex (\<lambda>(k, _). case find_field k ns of None \<Rightarrow> False | Some f \<Rightarrow> has_flag f FF_REBOOT_REQUIRED) (ns_draft ns)"

definition put_working :: "fid \<Rightarrow> pvalue \<Rightarrow> 'w namespace \<Rightarrow> 'w namespace" where
  "put_working k v ns = ns\<lparr>ns_working := tab_assign k v (ns_working ns), ns_dirty := True\<rparr>"

definition mark_clean :: "'w namespace \<Rightarrow> 'w namespace" where
  "mark_clean ns = ns\<lparr>ns_dirty := False\<rparr>"

datatype commit_outcome =
    No_change | Applied_live | Applied_reboot | Invalid_value | Unknown_field | Read_only | Setter_failed

text \<open>A setter that throws ends \<open>commit_one\<close> with its exception; what was done before stays done.\<close>

definition call_setter :: "'w setter \<Rightarrow> pvalue \<Rightarrow> 'w namespace \<Rightarrow> 'w \<Rightarrow> commit_outcome result \<times> 'w namespace \<times> 'w" where
  "call_setter g v ns w =
     (case g v w of
        (Inl e, w') \<Rightarrow> (Inl e, ns, w')
      | (Inr ok, w') \<Rightarrow> (Inr (if ok then Applied_live else Setter_failed), ns, w'))"

definition commit_one :: "fid \<Rightarrow> 'w namespace \<Rightarrow> 'w \<Rightarrow> commit_outcome result \<times> 'w namespace \<times> 'w" where
  "commit_one k ns w =
     (case find_field k ns of
        None \<Rightarrow> (Inr Unknown_field, ns, w)
      | Some f \<Rightarrow>
          (case draft k ns of
             None \<Rightarrow> (Inr No_change, ns, w)
           | Some v \<Rightarrow>
               if has_flag f FF_READ_ONLY then (Inr Read_only, clear_draft k ns, w)
               else if \<not> validate f v then (Inr Invalid_value, ns, w)
               else let ns1 = clear_draft k ns
                    in if has_flag f FF_WRITE_ONLY
                       then (case f_setter f of
                               None \<Rightarrow> (Inr Applied_live, ns1, w)
                             | Some g \<Rightarrow> call_setter g v ns1 w)
                       else let ns2 = put_working k v ns1
                            in case (if has_flag f FF_LIVE_APPLY then f_setter f else None) of
                                 Some g \<Rightarrow> call_setter g v ns2 w
                               | None \<Rightarrow>
                                   (Inr (if has_flag f FF_REBOOT_REQUIRED then Applied_reboot else Applied_live),
                                    ns2, w)))"

text \<open>
  One namespace of a commit: the hook, then the drafts in the order of the fields.  Both \<open>Provisioner::commit\<close>
  and \<open>op_commit\<close> contain this code.
\<close>

definition apply_edit :: "'w \<Rightarrow> draft_edit \<Rightarrow> 'w namespace \<Rightarrow> 'w namespace" where
  "apply_edit w e ns =
     (case e of
        Edit_set k v \<Rightarrow> snd (set_draft w k v ns)
      | Edit_clear k \<Rightarrow> clear_draft k ns
      | Edit_clear_all \<Rightarrow> clear_drafts ns)"

definition run_hook :: "'w namespace \<Rightarrow> 'w \<Rightarrow> 'w namespace \<times> 'w" where
  "run_hook ns w =
     (case ns_on_commit ns of
        Some h \<Rightarrow>
          if has_any_draft ns
          then (case h (ns_draft ns) w of (es, w') \<Rightarrow> (fold (apply_edit w') es ns, w'))
          else (ns, w)
      | None \<Rightarrow> (ns, w))"

definition draft_ids :: "'w namespace \<Rightarrow> fid list" where
  "draft_ids ns = map f_id (filter (\<lambda>f. has_draft (f_id f) ns) (ns_fields ns))"

fun commit_ids :: "fid list \<Rightarrow> commit_outcome list \<Rightarrow> 'w namespace \<Rightarrow> 'w \<Rightarrow>
    commit_outcome list result \<times> 'w namespace \<times> 'w" where
  "commit_ids [] os ns w = (Inr os, ns, w)"
| "commit_ids (k # ids) os ns w =
     (case commit_one k ns w of
        (Inl e, ns', w') \<Rightarrow> (Inl e, ns', w')
      | (Inr out, ns', w') \<Rightarrow> commit_ids ids (os @ [out]) ns' w')"

definition commit_namespace :: "'w namespace \<Rightarrow> 'w \<Rightarrow> commit_outcome list result \<times> 'w namespace \<times> 'w" where
  "commit_namespace ns w = (case run_hook ns w of (ns', w') \<Rightarrow> commit_ids (draft_ids ns') [] ns' w')"

section \<open>Persistent form\<close>

definition persist_value :: "'w \<Rightarrow> 'w namespace \<Rightarrow> 'w pfield \<Rightarrow> pvalue" where
  "persist_value w ns f = (if has_flag f FF_REBOOT_REQUIRED then working (f_id f) ns else effective w (f_id f) ns)"

definition not_persisted :: "'w pfield \<Rightarrow> bool" where
  "not_persisted f \<longleftrightarrow> has_flag f FF_READ_ONLY \<or> has_flag f FF_WRITE_ONLY"

definition pack_fields :: "('w pfield \<Rightarrow> bool) \<Rightarrow> ('w pfield \<Rightarrow> pvalue) \<Rightarrow> 'w pfield list \<Rightarrow> mp_item list" where
  "pack_fields keep val fs =
     MP_map (length (filter (\<lambda>f. keep f \<and> \<not> is_none (val f)) fs)) #
     concat (map (\<lambda>f. MP_uint (unat (f_id f)) # pack_value (val f)) (filter (\<lambda>f. keep f \<and> \<not> is_none (val f)) fs))"

definition pack_namespace_working :: "'w \<Rightarrow> 'w namespace \<Rightarrow> mp_item list" where
  "pack_namespace_working w ns = pack_fields (\<lambda>f. \<not> not_persisted f) (persist_value w ns) (ns_fields ns)"

fun unpack_entries :: "msgpack \<Rightarrow> nat \<Rightarrow> mp_item list \<Rightarrow> 'w namespace \<Rightarrow> 'w namespace" where
  "unpack_entries M 0 s ns = ns"
| "unpack_entries M (Suc n) s ns =
     (if \<not> mp_is_int s then unpack_entries M n (skip_value (skip_value s)) ns
      else case mp_int M s of (key, s1) \<Rightarrow>
        let k = word_of_int key :: fid
        in case find_field k ns of
             None \<Rightarrow> unpack_entries M n (skip_value s1) ns
           | Some f \<Rightarrow>
               (case unpack_value M (f_type f) s1 of
                  (None, s2) \<Rightarrow> unpack_entries M n s2 ns
                | (Some v, s2) \<Rightarrow>
                    if \<not> validate f v then unpack_entries M n s2 ns
                    else unpack_entries M n s2 (put_working k v ns)))"

definition unpack_namespace_working :: "msgpack \<Rightarrow> mp_item list \<Rightarrow> 'w namespace \<Rightarrow> bool \<times> 'w namespace" where
  "unpack_namespace_working M s ns =
     (if \<not> mp_is_map s then (False, ns)
      else case mp_map_size s of (n, s1) \<Rightarrow> (True, unpack_entries M n s1 ns))"

section \<open>The registry\<close>

record 'w registry =
  rg_namespaces :: "'w namespace list"
  rg_id_index :: "(nid, nat) table"
  rg_name_index :: "(bytes, nat) table"

definition empty_registry :: "'w registry" where
  "empty_registry = \<lparr>rg_namespaces = [], rg_id_index = [], rg_name_index = []\<rparr>"

text \<open>
  The walk up the chain of parents: \<open>True\<close> at a root, \<open>False\<close> at \<open>id\<close> itself or where a parent does not exist.
  On a chain that closes on itself the loop of the source never ends.
\<close>

partial_function (option) parent_walk :: "'w registry \<Rightarrow> nid \<Rightarrow> nid \<Rightarrow> bool option" where
  "parent_walk R k hop =
     (if hop = 0 then Some True
      else if hop = k then Some False
      else case tab_find hop (rg_id_index R) of
        None \<Rightarrow> Some False
      | Some i \<Rightarrow> parent_walk R k (ns_parent (rg_namespaces R ! i)))"

definition add_namespace :: "nid \<Rightarrow> bytes option \<Rightarrow> nid \<Rightarrow> 'w registry \<Rightarrow> (nat option \<times> 'w registry) option" where
  "add_namespace k name parent R =
     (let sname = (case name of None \<Rightarrow> [] | Some s \<Rightarrow> s)
      in if tab_find k (rg_id_index R) \<noteq> None then Some (None, R)
         else if sname \<noteq> [] \<and> parent = 0 \<and> tab_find sname (rg_name_index R) \<noteq> None then Some (None, R)
         else case parent_walk R k parent of
           None \<Rightarrow> None
         | Some False \<Rightarrow> Some (None, R)
         | Some True \<Rightarrow>
             let idx = length (rg_namespaces R)
             in Some (Some idx,
                  R\<lparr>rg_namespaces := rg_namespaces R @ [new_namespace k name parent],
                    rg_id_index := tab_assign k idx (rg_id_index R),
                    rg_name_index := (if sname \<noteq> [] \<and> parent = 0 then tab_assign sname idx (rg_name_index R)
                                      else rg_name_index R)\<rparr>))"

definition find_ns :: "nid \<Rightarrow> 'w registry \<Rightarrow> nat option" where
  "find_ns k R = tab_find k (rg_id_index R)"

definition find_ns_named :: "bytes option \<Rightarrow> 'w registry \<Rightarrow> nat option" where
  "find_ns_named name R = (case name of None \<Rightarrow> None | Some s \<Rightarrow> tab_find s (rg_name_index R))"

definition children_of :: "nid \<Rightarrow> 'w registry \<Rightarrow> 'w namespace list" where
  "children_of parent R = filter (\<lambda>ns. ns_parent ns = parent) (rg_namespaces R)"

section \<open>Indexes\<close>

text \<open>An index maps a key to the position of the element that has it; only elements with \<open>P\<close> are entered.\<close>

definition indexed :: "('a \<Rightarrow> bool) \<Rightarrow> ('a \<Rightarrow> 'k::linorder) \<Rightarrow> 'a list \<Rightarrow> ('k, nat) table \<Rightarrow> bool" where
  "indexed P key xs idx \<longleftrightarrow> (\<forall>k i. tab_find k idx = Some i \<longleftrightarrow> i < length xs \<and> P (xs ! i) \<and> key (xs ! i) = k)"

lemma indexed_Nil [simp]: "indexed P key [] []"
  by (simp add: indexed_def)

lemma indexed_append:
  assumes "indexed P key xs idx" and "tab_find (key x) idx = None"
  shows "indexed P key (xs @ [x]) (if P x then tab_assign (key x) (length xs) idx else idx)"
proof -
  have no: "\<not> (i < length xs \<and> P (xs ! i) \<and> key (xs ! i) = key x)" for i
    using assms unfolding indexed_def by (metis option.distinct(1))
  show ?thesis
    using assms(1) no unfolding indexed_def by (auto simp: tab_find_assign nth_append less_Suc_eq)
qed

lemma indexed_append_None:
  assumes "indexed P key xs idx" and "\<not> P x"
  shows "indexed P key (xs @ [x]) idx"
  using assms unfolding indexed_def by (auto simp: nth_append less_Suc_eq)

lemma indexed_update:
  assumes "indexed P key xs idx" and "i < length xs" and "P y = P (xs ! i)" and "key y = key (xs ! i)"
  shows "indexed P key (xs[i := y]) idx"
proof -
  have "P (xs[i := y] ! j) = P (xs ! j)" "key (xs[i := y] ! j) = key (xs ! j)" for j
    using assms(2-4) by (cases "j = i"; simp)+
  then show ?thesis using assms(1) unfolding indexed_def by simp
qed

lemma indexedD:
  assumes "indexed P key xs idx" and "tab_find k idx = Some i"
  shows "i < length xs" "P (xs ! i)" "key (xs ! i) = k" "xs ! i \<in> set xs"
  using assms unfolding indexed_def by (metis nth_mem)+

lemma indexed_pos: "indexed P key xs idx \<Longrightarrow> i < length xs \<Longrightarrow> P (xs ! i) \<Longrightarrow> tab_find (key (xs ! i)) idx = Some i"
  by (simp add: indexed_def)

lemma indexed_find:
  assumes "indexed P key xs idx"
  shows "map_option ((!) xs) (tab_find k idx) = List.find (\<lambda>x. P x \<and> key x = k) xs"
proof (cases "tab_find k idx")
  case None
  have "\<not> (P x \<and> key x = k)" if x: "x \<in> set xs" for x
  proof
    assume p: "P x \<and> key x = k"
    obtain i where "i < length xs" "xs ! i = x" using x by (auto simp: in_set_conv_nth)
    with p have "tab_find k idx = Some i" using indexed_pos [OF assms, of i] by simp
    with None show False by simp
  qed
  then have "List.find (\<lambda>x. P x \<and> key x = k) xs = None" by (auto simp: find_None_iff)
  with None show ?thesis by simp
next
  case (Some i)
  note i = indexedD [OF assms Some]
  have unique: "j = i" if j: "j < length xs" "P (xs ! j)" "key (xs ! j) = k" for j
  proof -
    have "tab_find k idx = Some j" using indexed_pos [OF assms j(1,2)] j(3) by simp
    with Some show ?thesis by simp
  qed
  have "List.find (\<lambda>x. P x \<and> key x = k) xs = Some (xs ! i)"
    unfolding find_Some_iff
  proof (intro exI conjI allI impI)
    show "i < length xs" "P (xs ! i)" "key (xs ! i) = k" "xs ! i = xs ! i" using i by simp_all
    fix j assume "j < i"
    then show "\<not> (P (xs ! j) \<and> key (xs ! j) = k)" using unique [of j] i(1) by auto
  qed
  with Some show ?thesis by simp
qed

section \<open>The invariant of a namespace\<close>

definition field_ok :: "'w pfield \<Rightarrow> bool" where
  "field_ok f \<longleftrightarrow> vtype_of (f_default f) = f_type f \<and> (\<forall>g w. f_getter f = Some g \<longrightarrow> vtype_of (g w) = f_type f)"

definition draft_valid :: "'w namespace \<Rightarrow> fid \<Rightarrow> pvalue \<Rightarrow> bool" where
  "draft_valid ns k v \<longleftrightarrow> (\<exists>f. find_field k ns = Some f \<and> \<not> has_flag f FF_READ_ONLY \<and> validate f v)"

definition working_typed :: "'w namespace \<Rightarrow> fid \<Rightarrow> pvalue \<Rightarrow> bool" where
  "working_typed ns k v \<longleftrightarrow> (\<exists>f. find_field k ns = Some f \<and> vtype_of v = f_type f)"

definition ns_ok :: "'w namespace \<Rightarrow> bool" where
  "ns_ok ns \<longleftrightarrow>
     indexed (\<lambda>_. True) f_id (ns_fields ns) (ns_id_index ns) \<and>
     indexed (\<lambda>f. f_name f \<noteq> []) f_name (ns_fields ns) (ns_name_index ns) \<and>
     list_all field_ok (ns_fields ns) \<and>
     (\<forall>k v. tab_find k (ns_draft ns) = Some v \<longrightarrow> draft_valid ns k v) \<and>
     (\<forall>k v. tab_find k (ns_working ns) = Some v \<longrightarrow> working_typed ns k v)"

text \<open>What only registration changes.\<close>

definition ns_shape ::
    "'w namespace \<Rightarrow> nid \<times> bytes \<times> nid \<times> 'w pfield list \<times> (fid, nat) table \<times> (bytes, nat) table" where
  "ns_shape ns = (ns_id ns, ns_name ns, ns_parent ns, ns_fields ns, ns_id_index ns, ns_name_index ns)"

lemma find_field_shape: "ns_shape a = ns_shape b \<Longrightarrow> find_field k a = find_field k b"
  by (simp add: ns_shape_def find_field_def cong: option.case_cong)

lemma ns_shapeD:
  assumes "ns_shape a = ns_shape b"
  shows "ns_id a = ns_id b" "ns_parent a = ns_parent b" "ns_fields a = ns_fields b" "ns_name a = ns_name b"
    "draft_valid a = draft_valid b" "working_typed a = working_typed b"
  using assms find_field_shape [OF assms] by (simp_all add: ns_shape_def fun_eq_iff draft_valid_def working_typed_def)

lemma shape_simps [simp]:
  "ns_shape (clear_draft k ns) = ns_shape ns" "ns_shape (clear_drafts ns) = ns_shape ns"
  "ns_shape (put_working k v ns) = ns_shape ns" "ns_shape (mark_clean ns) = ns_shape ns"
  "ns_shape (ns\<lparr>ns_schema_hash := h\<rparr>) = ns_shape ns" "ns_shape (ns\<lparr>ns_on_commit := c\<rparr>) = ns_shape ns"
  by (simp_all add: ns_shape_def clear_draft_def clear_drafts_def put_working_def mark_clean_def)

lemma shape_set_draft [simp]: "ns_shape (snd (set_draft w k v ns)) = ns_shape ns"
  by (simp add: set_draft_def ns_shape_def split: option.split)

lemma find_field_in: "ns_ok ns \<Longrightarrow> find_field k ns = Some f \<Longrightarrow> f \<in> set (ns_fields ns) \<and> f_id f = k"
  unfolding ns_ok_def find_field_def by (auto split: option.splits dest: indexedD)

lemma find_field_pos: "ns_ok ns \<Longrightarrow> f \<in> set (ns_fields ns) \<Longrightarrow> find_field (f_id f) ns = Some f"
  unfolding ns_ok_def find_field_def by (auto simp: in_set_conv_nth dest!: indexed_pos)

lemma find_field_linear: "ns_ok ns \<Longrightarrow> find_field k ns = List.find (\<lambda>f. f_id f = k) (ns_fields ns)"
  using indexed_find [of "\<lambda>_. True" f_id "ns_fields ns" "ns_id_index ns" k]
  by (simp add: ns_ok_def find_field_def map_option_case)

text \<open>The drafts and the working values decide; the rest follows the shape.\<close>

lemma ns_ok_values:
  assumes "ns_ok ns" and "ns_shape ns' = ns_shape ns"
    and "\<And>k v. tab_find k (ns_draft ns') = Some v \<Longrightarrow> tab_find k (ns_draft ns) = Some v \<or> draft_valid ns k v"
    and "\<And>k v. tab_find k (ns_working ns') = Some v \<Longrightarrow> tab_find k (ns_working ns) = Some v \<or> working_typed ns k v"
  shows "ns_ok ns'"
  using assms(1) assms(3,4) ns_shapeD [OF assms(2)] assms(2) unfolding ns_ok_def ns_shape_def by auto blast+

lemma ns_ok_new: "ns_ok (new_namespace k name parent)"
  by (simp add: ns_ok_def new_namespace_def)

lemma ns_ok_add_field:
  assumes "ns_ok ns" and "field_ok f"
  shows "ns_ok (snd (add_field w f ns))"
proof (cases "fst (add_field w f ns)")
  case False
  then have "snd (add_field w f ns) = ns" by (auto simp: add_field_def Let_def split: if_splits)
  then show ?thesis using assms by simp
next
  case True
  then have fresh: "tab_find (f_id f) (ns_id_index ns) = None"
      "f_name f \<noteq> [] \<Longrightarrow> tab_find (f_name f) (ns_name_index ns) = None"
    by (auto simp: add_field_def split: if_splits)
  let ?v = "case f_getter f of Some g \<Rightarrow> g w | None \<Rightarrow> f_default f"
  let ?n = "snd (add_field w f ns)"
  have n: "?n = ns\<lparr>ns_id_index := tab_assign (f_id f) (length (ns_fields ns)) (ns_id_index ns),
      ns_name_index := (if f_name f \<noteq> [] then tab_assign (f_name f) (length (ns_fields ns)) (ns_name_index ns) else ns_name_index ns),
      ns_working := tab_assign (f_id f) ?v (ns_working ns), ns_fields := ns_fields ns @ [f]\<rparr>"
    using fresh by (auto simp: add_field_def Let_def)
  have ids: "indexed (\<lambda>_. True) f_id (ns_fields ?n) (ns_id_index ?n)"
    using assms(1) fresh(1) indexed_append [of "\<lambda>_. True" f_id "ns_fields ns" "ns_id_index ns" f] by (simp add: n ns_ok_def)
  have names: "indexed (\<lambda>f. f_name f \<noteq> []) f_name (ns_fields ?n) (ns_name_index ?n)"
  proof (cases "f_name f = []")
    case True
    then show ?thesis
      using assms(1) indexed_append_None [of "\<lambda>f. f_name f \<noteq> []" f_name "ns_fields ns" "ns_name_index ns" f]
      by (simp add: n ns_ok_def)
  next
    case False
    then show ?thesis
      using assms(1) fresh(2) indexed_append [of "\<lambda>f. f_name f \<noteq> []" f_name "ns_fields ns" "ns_name_index ns" f]
      by (simp add: n ns_ok_def)
  qed
  have old: "find_field k ?n = Some h" if "find_field k ns = Some h" for k h
  proof -
    obtain i where "tab_find k (ns_id_index ns) = Some i" "h = ns_fields ns ! i"
      using \<open>find_field k ns = Some h\<close> by (auto simp: find_field_def split: option.splits)
    moreover have "i < length (ns_fields ns)" using assms(1) calculation by (auto simp: ns_ok_def dest: indexedD)
    ultimately show ?thesis using fresh(1) by (auto simp: n find_field_def tab_find_assign nth_append)
  qed
  have "find_field (f_id f) ?n = Some f" by (simp add: n find_field_def tab_find_assign)
  moreover have "vtype_of ?v = f_type f" using assms(2) by (auto simp: field_ok_def split: option.split)
  ultimately have "working_typed ?n (f_id f) ?v" by (simp add: working_typed_def)
  moreover have "working_typed ?n k v" if "tab_find k (ns_working ns) = Some v" for k v
    using assms(1) that old unfolding ns_ok_def working_typed_def by blast
  ultimately have wk: "working_typed ?n k v" if "tab_find k (ns_working ?n) = Some v" for k v
    using that by (auto simp: n tab_find_assign split: if_splits)
  have "draft_valid ?n k v" if "tab_find k (ns_draft ?n) = Some v" for k v
  proof -
    have "tab_find k (ns_draft ns) = Some v" using that by (simp add: n)
    then obtain h where "find_field k ns = Some h" "\<not> has_flag h FF_READ_ONLY" "validate h v"
      using assms(1) unfolding ns_ok_def draft_valid_def by blast
    then show ?thesis using old unfolding draft_valid_def by blast
  qed
  then show ?thesis using ids names wk assms unfolding ns_ok_def by (simp add: n)
qed

section \<open>Every operation keeps the invariant\<close>

lemma ns_ok_set_draft [inv_intros]: "ns_ok ns \<Longrightarrow> ns_ok (snd (set_draft w k v ns))"
  by (rule ns_ok_values [OF _ shape_set_draft], assumption)
    (auto simp: set_draft_def tab_find_erase tab_find_assign draft_valid_def split: option.splits if_splits)

lemma ns_ok_clear_draft [inv_intros]: "ns_ok ns \<Longrightarrow> ns_ok (clear_draft k ns)"
  by (rule ns_ok_values, assumption) (auto simp: clear_draft_def ns_shape_def tab_find_erase split: if_splits)

lemma ns_ok_clear_drafts [inv_intros]: "ns_ok ns \<Longrightarrow> ns_ok (clear_drafts ns)"
  by (rule ns_ok_values, assumption) (auto simp: clear_drafts_def ns_shape_def)

lemma ns_ok_mark_clean [inv_intros]: "ns_ok ns \<Longrightarrow> ns_ok (mark_clean ns)"
  by (rule ns_ok_values, assumption) (auto simp: mark_clean_def ns_shape_def)

lemma ns_ok_schema_hash [inv_intros]: "ns_ok ns \<Longrightarrow> ns_ok (ns\<lparr>ns_schema_hash := h\<rparr>)"
  by (rule ns_ok_values, assumption) (auto simp: ns_shape_def)

lemma ns_ok_put_working [inv_intros]: "ns_ok ns \<Longrightarrow> working_typed ns k v \<Longrightarrow> ns_ok (put_working k v ns)"
  by (rule ns_ok_values, assumption) (auto simp: put_working_def ns_shape_def tab_find_assign split: if_splits)

lemma ns_ok_on_commit [inv_intros]: "ns_ok ns \<Longrightarrow> ns_ok (ns\<lparr>ns_on_commit := h\<rparr>)"
  unfolding ns_ok_def draft_valid_def working_typed_def find_field_def by (simp cong: option.case_cong)

lemma ns_ok_draftD:
  assumes "ns_ok ns" and "draft k ns = Some v"
  obtains f where "find_field k ns = Some f" "\<not> has_flag f FF_READ_ONLY" "validate f v"
  using assms unfolding ns_ok_def draft_def draft_valid_def by blast

lemma ns_ok_edit: "ns_ok ns \<Longrightarrow> ns_ok (apply_edit w e ns) \<and> ns_shape (apply_edit w e ns) = ns_shape ns"
  by (cases e) (simp_all add: apply_edit_def inv_intros)

lemma ns_ok_edits: "ns_ok ns \<Longrightarrow> ns_ok (fold (apply_edit w) es ns) \<and> ns_shape (fold (apply_edit w) es ns) = ns_shape ns"
proof (induction es arbitrary: ns)
  case (Cons e es)
  then show ?case using ns_ok_edit [of ns w e] Cons.IH [of "apply_edit w e ns"] by simp
qed simp

lemma ns_ok_hook:
  assumes "ns_ok ns" and "run_hook ns w = (ns', w')"
  shows "ns_ok ns' \<and> ns_shape ns' = ns_shape ns"
  using assms ns_ok_edits [OF assms(1)]
  by (auto simp: run_hook_def split: option.splits if_splits prod.splits)

text \<open>A commit has the same effect on the namespace whatever its setter answers.\<close>

definition promote :: "'w pfield \<Rightarrow> fid \<Rightarrow> pvalue \<Rightarrow> 'w namespace \<Rightarrow> 'w namespace" where
  "promote f k v ns = (if has_flag f FF_WRITE_ONLY then clear_draft k ns else put_working k v (clear_draft k ns))"

lemma commit_one_effect:
  assumes "ns_ok ns" and "find_field k ns = Some f" and "draft k ns = Some v"
  shows "fst (snd (commit_one k ns w)) = promote f k v ns"
proof -
  have "\<not> has_flag f FF_READ_ONLY" "validate f v" using ns_ok_draftD [OF assms(1,3)] assms(2) by force+
  then show ?thesis
    using assms by (simp add: commit_one_def promote_def Let_def call_setter_def split: option.split prod.split sum.split)
qed

lemma commit_one_no_draft: "draft k ns = None \<Longrightarrow> fst (snd (commit_one k ns w)) = ns"
  by (simp add: commit_one_def split: option.split)

lemma ns_ok_promote:
  assumes "ns_ok ns" and "find_field k ns = Some f" and "validate f v"
  shows "ns_ok (promote f k v ns) \<and> ns_shape (promote f k v ns) = ns_shape ns"
proof -
  have "working_typed (clear_draft k ns) k v"
    using assms(2,3) find_field_shape [of "clear_draft k ns" ns k] by (simp add: working_typed_def validate_type)
  with assms(1) show ?thesis by (simp add: promote_def inv_intros)
qed

lemma ns_ok_commit_one:
  assumes "ns_ok ns"
  shows "ns_ok (fst (snd (commit_one k ns w))) \<and> ns_shape (fst (snd (commit_one k ns w))) = ns_shape ns"
proof (cases "draft k ns")
  case (Some v)
  then obtain f where "find_field k ns = Some f" "validate f v" by (rule ns_ok_draftD [OF assms])
  then show ?thesis using commit_one_effect [OF assms _ Some] ns_ok_promote [OF assms] by simp
qed (simp add: commit_one_no_draft assms)

lemma ns_ok_commit_ids:
  assumes "ns_ok ns" and "commit_ids ks os ns w = (r, ns', w')"
  shows "ns_ok ns' \<and> ns_shape ns' = ns_shape ns"
  using assms
proof (induction ks arbitrary: os ns w)
  case (Cons k ks)
  obtain r1 n1 w1 where c: "commit_one k ns w = (r1, n1, w1)" by (metis prod_cases3)
  then have n1: "ns_ok n1" "ns_shape n1 = ns_shape ns" using ns_ok_commit_one [OF Cons.prems(1), of k w] by simp_all
  show ?case
  proof (cases r1)
    case (Inl e)
    then show ?thesis using Cons.prems c n1 by simp
  next
    case (Inr out)
    then show ?thesis using Cons.IH [OF n1(1)] Cons.prems(2) c n1 by simp
  qed
qed simp

lemma ns_ok_commit_namespace:
  assumes "ns_ok ns" and "commit_namespace ns w = (r, ns', w')"
  shows "ns_ok ns' \<and> ns_shape ns' = ns_shape ns"
proof -
  obtain n1 w1 where h: "run_hook ns w = (n1, w1)" by (metis surj_pair)
  then have "commit_ids (draft_ids n1) [] n1 w1 = (r, ns', w')" using assms(2) by (simp add: commit_namespace_def)
  then show ?thesis using ns_ok_hook [OF assms(1) h] ns_ok_commit_ids by metis
qed

lemma ns_ok_unpack_entries: "ns_ok ns \<Longrightarrow> ns_ok (unpack_entries M n s ns) \<and> ns_shape (unpack_entries M n s ns) = ns_shape ns"
proof (induction n arbitrary: s ns)
  case (Suc n)
  have put: "ns_ok (put_working k v ns)" if "find_field k ns = Some f" "validate f v" for k v f
    using Suc.prems that by (intro ns_ok_put_working) (auto simp: working_typed_def validate_type)
  show ?case using Suc by (auto simp: Let_def put split: prod.split option.split)
qed simp

section \<open>What a commit does\<close>

text \<open>
  The contract of a commit in terms of two maps, the drafts and the working values: every draft of a field
  that is not a command becomes the working value, and no draft is left.
\<close>

type_synonym ns_view = "(fid \<Rightarrow> pvalue option) \<times> (fid \<Rightarrow> pvalue)"

definition ns_abs :: "'w namespace \<Rightarrow> ns_view" where
  "ns_abs ns = ((\<lambda>k. draft k ns), (\<lambda>k. working k ns))"

definition is_command :: "'w namespace \<Rightarrow> fid \<Rightarrow> bool" where
  "is_command ns k \<longleftrightarrow> (case find_field k ns of None \<Rightarrow> False | Some f \<Rightarrow> has_flag f FF_WRITE_ONLY)"

definition spec_commit :: "(fid \<Rightarrow> bool) \<Rightarrow> ns_view \<Rightarrow> ns_view" where
  "spec_commit command = (\<lambda>(d, u).
     ((\<lambda>_. None), (\<lambda>k. case d k of None \<Rightarrow> u k | Some v \<Rightarrow> if command k then u k else v)))"

lemma distinct_field_ids: "ns_ok ns \<Longrightarrow> distinct (map f_id (ns_fields ns))"
  unfolding ns_ok_def distinct_conv_nth by (metis indexed_pos length_map nth_map option.inject)

lemma distinct_draft_ids: "ns_ok ns \<Longrightarrow> distinct (draft_ids ns)"
  unfolding draft_ids_def by (rule distinct_map_filter [OF distinct_field_ids])

lemma set_draft_ids: "ns_ok ns \<Longrightarrow> set (draft_ids ns) = {k. draft k ns \<noteq> None}"
proof (intro set_eqI iffI)
  fix k assume ok: "ns_ok ns" and "k \<in> {k. draft k ns \<noteq> None}"
  then obtain v where v: "draft k ns = Some v" by auto
  then obtain f where "find_field k ns = Some f" by (rule ns_ok_draftD [OF ok])
  then show "k \<in> set (draft_ids ns)"
    using find_field_in [OF ok] v by (auto simp: draft_ids_def has_draft_def draft_def image_iff)
qed (auto simp: draft_ids_def has_draft_def draft_def)

lemma promote_values:
  "draft j (promote f k v ns) = (if j = k then None else draft j ns)"
  "working j (promote f k v ns) = (if j = k \<and> \<not> has_flag f FF_WRITE_ONLY then v else working j ns)"
  by (simp_all add: promote_def draft_def working_def clear_draft_def put_working_def tab_find_erase tab_find_assign)

lemma commit_ids_values:
  assumes "ns_ok ns" and "distinct ks" and "set ks \<subseteq> {k. draft k ns \<noteq> None}"
    and "commit_ids ks os ns w = (Inr os', ns', w')"
  shows "draft j ns' = (if j \<in> set ks then None else draft j ns) \<and>
    working j ns' = (if j \<in> set ks \<and> \<not> is_command ns j then the (draft j ns) else working j ns) \<and>
    length os' = length os + length ks"
  using assms
proof (induction ks arbitrary: os ns w)
  case (Cons k ks)
  obtain v where v: "draft k ns = Some v" using Cons.prems(3) by auto
  obtain f where f: "find_field k ns = Some f" "validate f v" by (rule ns_ok_draftD [OF Cons.prems(1) v])
  obtain r1 n1 w1 where c: "commit_one k ns w = (r1, n1, w1)" by (metis prod_cases3)
  with commit_one_effect [OF Cons.prems(1) f(1) v, of w] have n1: "n1 = promote f k v ns" by simp
  obtain out where r1: "r1 = Inr out" "commit_ids ks (os @ [out]) n1 w1 = (Inr os', ns', w')"
    using Cons.prems(4) c by (cases r1) auto
  have ok: "ns_ok n1" "ns_shape n1 = ns_shape ns" using ns_ok_promote [OF Cons.prems(1) f] n1 by simp_all
  have cmd: "is_command n1 j = is_command ns j" "is_command ns k = has_flag f FF_WRITE_ONLY"
    using find_field_shape [OF ok(2), of j] f(1) by (simp_all add: is_command_def)
  have sub: "set ks \<subseteq> {k. draft k n1 \<noteq> None}" using Cons.prems(2,3) by (auto simp: n1 promote_values)
  note ih = Cons.IH [OF ok(1) _ sub r1(2)]
  show ?case using ih Cons.prems(2) v cmd by (auto simp: n1 promote_values)
qed simp

lemma ns_no_draft_iff: "ns_draft ns = [] \<longleftrightarrow> (\<forall>k. draft k ns = None)"
proof
  assume n: "\<forall>k. draft k ns = None"
  show "ns_draft ns = []"
  proof (cases "ns_draft ns")
    case (Cons e es)
    then have "draft (fst e) ns = Some (snd e)" by (cases e) (simp add: draft_def)
    with n show ?thesis by simp
  qed
qed (simp add: draft_def)

lemma commit_all_refines:
  assumes "ns_ok ns" and "commit_ids (draft_ids ns) [] ns w = (Inr os, ns', w')"
  shows "ns_abs ns' = spec_commit (is_command ns) (ns_abs ns)" and "ns_draft ns' = []"
    and "length os = length (draft_ids ns)"
proof -
  note v = commit_ids_values [OF assms(1) distinct_draft_ids [OF assms(1)] _ assms(2), simplified set_draft_ids [OF assms(1)]]
  show "ns_abs ns' = spec_commit (is_command ns) (ns_abs ns)"
    unfolding ns_abs_def spec_commit_def using v by (auto simp: fun_eq_iff split: option.split)
  show "ns_draft ns' = []" unfolding ns_no_draft_iff using v by auto
  show "length os = length (draft_ids ns)" using v by simp
qed

section \<open>The invariant of the registry\<close>

text \<open>Ids are unique, root names are unique, and a parent was registered before its children.\<close>

definition parents_first :: "'w namespace list \<Rightarrow> bool" where
  "parents_first nss \<longleftrightarrow>
     (\<forall>i < length nss. ns_parent (nss ! i) \<noteq> 0 \<longrightarrow> (\<exists>j < i. ns_id (nss ! j) = ns_parent (nss ! i)))"

definition rg_ok :: "'w registry \<Rightarrow> bool" where
  "rg_ok R \<longleftrightarrow>
     indexed (\<lambda>_. True) ns_id (rg_namespaces R) (rg_id_index R) \<and>
     indexed (\<lambda>ns. ns_name ns \<noteq> [] \<and> ns_parent ns = 0) ns_name (rg_namespaces R) (rg_name_index R) \<and>
     list_all ns_ok (rg_namespaces R) \<and> parents_first (rg_namespaces R)"

definition rg_update :: "nat \<Rightarrow> 'w namespace \<Rightarrow> 'w registry \<Rightarrow> 'w registry" where
  "rg_update i ns R = R\<lparr>rg_namespaces := (rg_namespaces R)[i := ns]\<rparr>"

lemma rg_ok_empty [simp]: "rg_ok empty_registry"
  by (simp add: rg_ok_def empty_registry_def parents_first_def)

lemma rg_okD:
  assumes "rg_ok R"
  shows "i < length (rg_namespaces R) \<Longrightarrow> ns_ok (rg_namespaces R ! i)"
    and "find_ns k R = Some i \<Longrightarrow> i < length (rg_namespaces R) \<and> ns_id (rg_namespaces R ! i) = k"
    and "find_ns_named name R = Some i \<Longrightarrow> i < length (rg_namespaces R)"
  using assms unfolding rg_ok_def find_ns_def find_ns_named_def
  by (auto simp: list_all_length split: option.splits dest: indexedD)

lemma rg_ok_update:
  assumes "rg_ok R" and "i < length (rg_namespaces R)" and "ns_ok ns"
    and "ns_id ns = ns_id (rg_namespaces R ! i)" and "ns_name ns = ns_name (rg_namespaces R ! i)"
    and "ns_parent ns = ns_parent (rg_namespaces R ! i)"
  shows "rg_ok (rg_update i ns R)"
proof -
  have "ns_id ((rg_namespaces R)[i := ns] ! j) = ns_id (rg_namespaces R ! j)"
      "ns_parent ((rg_namespaces R)[i := ns] ! j) = ns_parent (rg_namespaces R ! j)" for j
    using assms(2,4,6) by (cases "j = i"; simp)+
  then have "parents_first ((rg_namespaces R)[i := ns])" using assms(1) by (simp add: rg_ok_def parents_first_def)
  moreover have "list_all ns_ok ((rg_namespaces R)[i := ns])"
    using assms(1,2,3) by (simp add: rg_ok_def list_all_length nth_list_update)
  ultimately show ?thesis
    using assms(1,2,4-6) indexed_update [of "\<lambda>_. True" ns_id "rg_namespaces R" "rg_id_index R" i ns]
      indexed_update [of "\<lambda>ns. ns_name ns \<noteq> [] \<and> ns_parent ns = 0" ns_name "rg_namespaces R" "rg_name_index R" i ns]
    by (simp add: rg_ok_def rg_update_def)
qed

text \<open>In such a registry the walk ends: every step goes to an earlier namespace.\<close>

lemma parent_walk_root [simp]: "parent_walk R k 0 = Some True"
  by (simp add: parent_walk.simps)

lemma parent_walk_ends:
  assumes "rg_ok R" and "i < length (rg_namespaces R)" and "tab_find k (rg_id_index R) = None"
  shows "parent_walk R k (ns_id (rg_namespaces R ! i)) = Some True"
  using assms(2)
proof (induction i rule: less_induct)
  case (less i)
  let ?hop = "ns_id (rg_namespaces R ! i)"
  have t: "tab_find ?hop (rg_id_index R) = Some i"
    using assms(1) less.prems indexed_pos [of "\<lambda>_. True" ns_id "rg_namespaces R" "rg_id_index R" i] by (simp add: rg_ok_def)
  show ?case
  proof (cases "ns_parent (rg_namespaces R ! i) = 0")
    case True
    then show ?thesis using t assms(3) by (subst parent_walk.simps) auto
  next
    case False
    then obtain j where "j < i" "ns_id (rg_namespaces R ! j) = ns_parent (rg_namespaces R ! i)"
      using assms(1) less.prems by (auto simp: rg_ok_def parents_first_def)
    then show ?thesis using t assms(3) less.IH [of j] less.prems by (subst parent_walk.simps) auto
  qed
qed

lemma parent_walk_fresh:
  assumes "rg_ok R" and "tab_find k (rg_id_index R) = None"
  shows "parent_walk R k parent = Some (parent = 0 \<or> tab_find parent (rg_id_index R) \<noteq> None)"
proof (cases "tab_find parent (rg_id_index R)")
  case None
  then show ?thesis by (subst parent_walk.simps) auto
next
  case (Some i)
  then have "i < length (rg_namespaces R)" "ns_id (rg_namespaces R ! i) = parent"
    using assms(1) by (auto simp: rg_ok_def dest: indexedD)
  then show ?thesis using parent_walk_ends [OF assms(1) _ assms(2)] Some by auto
qed

text \<open>When a namespace is accepted; the search for a cycle never finds one.\<close>

definition accepts :: "'w registry \<Rightarrow> nid \<Rightarrow> bytes option \<Rightarrow> nid \<Rightarrow> bool" where
  "accepts R k name parent \<longleftrightarrow>
     find_ns k R = None \<and> (parent = 0 \<or> find_ns parent R \<noteq> None) \<and>
     \<not> (parent = 0 \<and> name \<noteq> None \<and> name \<noteq> Some [] \<and> find_ns_named name R \<noteq> None)"

lemma add_namespace_result:
  assumes "rg_ok R"
  shows "add_namespace k name parent R =
    Some (if accepts R k name parent
          then let n = length (rg_namespaces R); s = (case name of None \<Rightarrow> [] | Some s \<Rightarrow> s)
               in (Some n, \<lparr>rg_namespaces = rg_namespaces R @ [new_namespace k name parent],
                     rg_id_index = tab_assign k n (rg_id_index R),
                     rg_name_index = (if s \<noteq> [] \<and> parent = 0 then tab_assign s n (rg_name_index R) else rg_name_index R)\<rparr>)
          else (None, R))"
proof (cases "tab_find k (rg_id_index R) = None")
  case True
  show ?thesis
    using parent_walk_fresh [OF assms True, of parent] True
    by (cases name) (auto simp: add_namespace_def accepts_def find_ns_def find_ns_named_def Let_def)
qed (auto simp: add_namespace_def accepts_def find_ns_def)

lemma ns_new_simps [simp]:
  "ns_id (new_namespace k name parent) = k" "ns_parent (new_namespace k name parent) = parent"
  "ns_name (new_namespace k name parent) = (case name of None \<Rightarrow> [] | Some s \<Rightarrow> s)"
  by (simp_all add: new_namespace_def)

lemma parents_first_append:
  assumes "parents_first xs" and "ns_parent x \<noteq> 0 \<Longrightarrow> \<exists>j < length xs. ns_id (xs ! j) = ns_parent x"
  shows "parents_first (xs @ [x])"
  unfolding parents_first_def
proof (intro allI impI)
  fix i assume i: "i < length (xs @ [x])" "ns_parent ((xs @ [x]) ! i) \<noteq> 0"
  show "\<exists>j < i. ns_id ((xs @ [x]) ! j) = ns_parent ((xs @ [x]) ! i)"
  proof (cases "i < length xs")
    case True
    then obtain j where "j < i" "ns_id (xs ! j) = ns_parent (xs ! i)"
      using assms(1) i(2) by (auto simp: parents_first_def nth_append)
    then show ?thesis using True by (intro exI [of _ j]) (simp add: nth_append)
  next
    case False
    then have "i = length xs" using i(1) by simp
    then show ?thesis using assms(2) i(2) by (auto simp: nth_append)
  qed
qed

lemma rg_ok_add_namespace:
  assumes "rg_ok R" and "add_namespace k name parent R = Some (r, R')"
  shows "rg_ok R'"
proof (cases "accepts R k name parent")
  case False
  then show ?thesis using assms add_namespace_result [OF assms(1), of k name parent] by simp
next
  case True
  let ?ns = "new_namespace k name parent :: 'a namespace"
  let ?P = "\<lambda>ns. ns_name ns \<noteq> [] \<and> ns_parent ns = (0 :: nid)"
  let ?n = "length (rg_namespaces R)"
  have R': "rg_namespaces R' = rg_namespaces R @ [?ns]" "rg_id_index R' = tab_assign k ?n (rg_id_index R)"
    "rg_name_index R' = (if ?P ?ns then tab_assign (ns_name ?ns) ?n (rg_name_index R) else rg_name_index R)"
    using assms add_namespace_result [OF assms(1), of k name parent] True by (auto simp: Let_def)
  have k: "tab_find (ns_id ?ns) (rg_id_index R) = None" using True by (simp add: accepts_def find_ns_def)
  have ids: "indexed (\<lambda>_. True) ns_id (rg_namespaces R') (rg_id_index R')"
    using assms(1) k indexed_append [of "\<lambda>_. True" ns_id "rg_namespaces R" "rg_id_index R" ?ns] by (simp add: R' rg_ok_def)
  have names: "indexed ?P ns_name (rg_namespaces R') (rg_name_index R')"
  proof (cases "?P ?ns")
    case False
    have "indexed ?P ns_name (rg_namespaces R) (rg_name_index R)" using assms(1) by (simp add: rg_ok_def)
    from indexed_append_None [OF this False] show ?thesis unfolding R' if_not_P [OF False] .
  next
    case new: True
    then have "tab_find (ns_name ?ns) (rg_name_index R) = None"
      using True by (auto simp: accepts_def find_ns_named_def split: option.splits)
    moreover have "indexed ?P ns_name (rg_namespaces R) (rg_name_index R)" using assms(1) by (simp add: rg_ok_def)
    ultimately show ?thesis unfolding R' by (intro indexed_append)
  qed
  have "\<exists>j < ?n. ns_id (rg_namespaces R ! j) = parent" if p: "parent \<noteq> 0"
  proof -
    obtain j where "find_ns parent R = Some j" using p True by (auto simp: accepts_def)
    then show ?thesis using rg_okD(2) [OF assms(1)] by blast
  qed
  then have "parents_first (rg_namespaces R')"
    using assms(1) parents_first_append [of "rg_namespaces R" ?ns] by (simp add: R' rg_ok_def)
  then show ?thesis using ids names assms(1) unfolding rg_ok_def by (simp add: R'(1) ns_ok_new)
qed

text \<open>An operation that keeps the shape of every namespace keeps the registry in order.\<close>

definition keeps :: "'w namespace \<Rightarrow> 'w namespace \<Rightarrow> bool" where
  "keeps ns ns' \<longleftrightarrow> (ns_ok ns \<longrightarrow> ns_ok ns' \<and> ns_shape ns' = ns_shape ns)"

lemma keepsD: "keeps ns ns' \<Longrightarrow> ns_ok ns \<Longrightarrow> ns_ok ns'" "keeps ns ns' \<Longrightarrow> ns_ok ns \<Longrightarrow> ns_shape ns' = ns_shape ns"
  by (simp_all add: keeps_def)

lemma keeps_refl [simp]: "keeps ns ns"
  by (simp add: keeps_def)

lemma ns_keeps_trans: "keeps a b \<Longrightarrow> keeps b c \<Longrightarrow> keeps a c"
  by (simp add: keeps_def)

lemma keeps_simps [simp]:
  "keeps ns (clear_drafts ns)" "keeps ns (clear_draft k ns)" "keeps ns (mark_clean ns)"
  "keeps ns (snd (set_draft w k v ns))" "keeps ns (ns\<lparr>ns_schema_hash := h\<rparr>)" "keeps ns (unpack_entries M n s ns)"
  "keeps ns (ns\<lparr>ns_on_commit := c\<rparr>)"
  by (simp_all add: keeps_def inv_intros ns_ok_unpack_entries)

lemma keeps_commit: "commit_namespace ns w = (r, ns', w') \<Longrightarrow> keeps ns ns'"
  using ns_ok_commit_namespace unfolding keeps_def by metis

lemma indexed_cong:
  assumes "length ys = length xs" and "\<And>i. i < length xs \<Longrightarrow> P (ys ! i) = P (xs ! i) \<and> key (ys ! i) = key (xs ! i)"
  shows "indexed P key ys idx = indexed P key xs idx"
proof -
  have "(i < length ys \<and> P (ys ! i) \<and> key (ys ! i) = k) = (i < length xs \<and> P (xs ! i) \<and> key (xs ! i) = k)" for i k
    using assms by (cases "i < length xs") auto
  then show ?thesis by (simp add: indexed_def)
qed

lemma rg_ok_values:
  assumes "rg_ok R" and "list_all2 keeps (rg_namespaces R) nss"
  shows "rg_ok (R\<lparr>rg_namespaces := nss\<rparr>)"
proof -
  let ?old = "rg_namespaces R"
  have len: "length nss = length ?old" using assms(2) by (simp add: list_all2_lengthD)
  have ok: "ns_ok (nss ! i)" and sh: "ns_shape (nss ! i) = ns_shape (?old ! i)" if "i < length ?old" for i
    using rg_okD(1) [OF assms(1) that] keepsD list_all2_nthD [OF assms(2) that] by blast+
  note s = ns_shapeD [OF sh]
  have "indexed (\<lambda>_. True) ns_id nss (rg_id_index R)"
    using assms(1) indexed_cong [OF len, of "\<lambda>_. True" ns_id] s(1) by (simp add: rg_ok_def)
  moreover have "indexed (\<lambda>ns. ns_name ns \<noteq> [] \<and> ns_parent ns = 0) ns_name nss (rg_name_index R)"
    using assms(1) indexed_cong [OF len, of "\<lambda>ns. ns_name ns \<noteq> [] \<and> ns_parent ns = 0" ns_name] s(2,4) by (simp add: rg_ok_def)
  moreover have "parents_first nss"
    unfolding parents_first_def
  proof (intro allI impI)
    fix i assume i: "i < length nss" "ns_parent (nss ! i) \<noteq> 0"
    then obtain j where "j < i" "ns_id (?old ! j) = ns_parent (?old ! i)"
      using assms(1) s(2) len by (auto simp: rg_ok_def parents_first_def)
    then show "\<exists>j<i. ns_id (nss ! j) = ns_parent (nss ! i)" using s(1,2) i(1) len by (intro exI [of _ j]) simp
  qed
  moreover have "list_all ns_ok nss" using ok len by (simp add: list_all_length)
  ultimately show ?thesis by (simp add: rg_ok_def)
qed

end
