(* ===== verification/Provision_Storage.thy ===== *)
theory Provision_Storage
  imports Provision_Namespace
begin

text \<open>
  The configuration files: \<open>Provisioning/Storage.cpp\<close> and the file functions of \<open>Utilities/OS.h\<close>.  The file
  system of the \<open>microStore\<close> package is a parameter: a record of operations on the state \<open>'w\<close>.  Without
  a registered file system every function of \<open>OS\<close> throws.  A namespace \<open>k\<close> lives in \<open>nsk.msgpack\<close>
  under the root directory and is written by way of \<open>nsk.msgpack.tmp\<close>.
\<close>

section \<open>The file system\<close>

record 'w fsys =
  fs_registered :: "'w \<Rightarrow> bool"
  fs_exists :: "bytes \<Rightarrow> 'w \<Rightarrow> bool"
  fs_size :: "bytes \<Rightarrow> 'w \<Rightarrow> nat"
  fs_read :: "bytes \<Rightarrow> nat \<Rightarrow> 'w \<Rightarrow> bytes"
  fs_write :: "bytes \<Rightarrow> bytes \<Rightarrow> 'w \<Rightarrow> nat \<times> 'w"
  fs_remove :: "bytes \<Rightarrow> 'w \<Rightarrow> bool \<times> 'w"
  fs_rename :: "bytes \<Rightarrow> bytes \<Rightarrow> 'w \<Rightarrow> bool \<times> 'w"
  fs_is_directory :: "bytes \<Rightarrow> 'w \<Rightarrow> bool"
  fs_mkdir :: "bytes \<Rightarrow> 'w \<Rightarrow> bool \<times> 'w"

definition file_exists :: "'w fsys \<Rightarrow> bytes \<Rightarrow> 'w \<Rightarrow> bool result" where
  "file_exists F path w = (if \<not> fs_registered F w then Inl Runtime_error else Inr (fs_exists F path w))"

definition read_file :: "'w fsys \<Rightarrow> bytes \<Rightarrow> 'w \<Rightarrow> bytes result" where
  "read_file F path w =
     (if \<not> fs_registered F w then Inl Runtime_error
      else let size = fs_size F path w
           in if size = 0 then Inr [] else Inr (fs_read F path size w))"

definition write_file :: "'w fsys \<Rightarrow> bytes \<Rightarrow> bytes \<Rightarrow> 'w \<Rightarrow> nat result \<times> 'w" where
  "write_file F path dat w =
     (if \<not> fs_registered F w then (Inl Runtime_error, w)
      else case fs_write F path dat w of (n, w') \<Rightarrow> (Inr n, w'))"

definition remove_file :: "'w fsys \<Rightarrow> bytes \<Rightarrow> 'w \<Rightarrow> bool result \<times> 'w" where
  "remove_file F path w =
     (if \<not> fs_registered F w then (Inl Runtime_error, w)
      else case fs_remove F path w of (ok, w') \<Rightarrow> (Inr ok, w'))"

definition rename_file :: "'w fsys \<Rightarrow> bytes \<Rightarrow> bytes \<Rightarrow> 'w \<Rightarrow> bool result \<times> 'w" where
  "rename_file F source target w =
     (if \<not> fs_registered F w then (Inl Runtime_error, w)
      else case fs_rename F source target w of (ok, w') \<Rightarrow> (Inr ok, w'))"

definition directory_exists :: "'w fsys \<Rightarrow> bytes \<Rightarrow> 'w \<Rightarrow> bool result" where
  "directory_exists F path w = (if \<not> fs_registered F w then Inl Runtime_error else Inr (fs_is_directory F path w))"

definition create_directory :: "'w fsys \<Rightarrow> bytes \<Rightarrow> 'w \<Rightarrow> bool result \<times> 'w" where
  "create_directory F path w =
     (if \<not> fs_registered F w then (Inl Runtime_error, w)
      else case fs_mkdir F path w of (ok, w') \<Rightarrow> (Inr ok, w'))"

lemmas os_defs = file_exists_def read_file_def write_file_def remove_file_def rename_file_def
  directory_exists_def create_directory_def

section \<open>Storage\<close>

text \<open>\<open>std::to_string\<close> of an unsigned number.\<close>

fun decimal :: "nat \<Rightarrow> bytes" where
  "decimal n = (if n < 10 then [word_of_nat (0x30 + n)] else decimal (n div 10) @ [word_of_nat (0x30 + n mod 10)])"

declare decimal.simps [simp del]

definition file_path :: "bytes \<Rightarrow> 'w namespace \<Rightarrow> bytes" where
  "file_path dir ns = dir @ ascii ''/ns'' @ decimal (unat (ns_id ns)) @ ascii ''.msgpack''"

definition tmp_path :: "bytes \<Rightarrow> 'w namespace \<Rightarrow> bytes" where
  "tmp_path dir ns = dir @ ascii ''/ns'' @ decimal (unat (ns_id ns)) @ ascii ''.msgpack.tmp''"

definition ensure_directory :: "'w fsys \<Rightarrow> bytes \<Rightarrow> 'w \<Rightarrow> bool \<times> 'w" where
  "ensure_directory F dir w =
     (case directory_exists F dir w of
        Inl _ \<Rightarrow> (False, w)
      | Inr True \<Rightarrow> (True, w)
      | Inr False \<Rightarrow>
          (case create_directory F dir w of
             (Inl _, w') \<Rightarrow> (False, w')
           | (Inr ok, w') \<Rightarrow> (ok, w')))"

definition load_namespace :: "msgpack \<Rightarrow> 'w fsys \<Rightarrow> bytes \<Rightarrow> 'w namespace \<Rightarrow> 'w \<Rightarrow> bool \<times> 'w namespace \<times> 'w" where
  "load_namespace M F dir ns w =
     (let tmp = tmp_path dir ns; final = file_path dir ns;
          w1 = (case file_exists F tmp w of Inr True \<Rightarrow> snd (remove_file F tmp w) | _ \<Rightarrow> w)
      in case file_exists F final w1 of
           Inl _ \<Rightarrow> (False, ns, w1)
         | Inr False \<Rightarrow> (False, ns, w1)
         | Inr True \<Rightarrow>
             (case read_file F final w1 of
                Inl _ \<Rightarrow> (False, ns, w1)
              | Inr raw \<Rightarrow>
                  if raw = [] then (False, ns, w1)
                  else case unpack_namespace_working M (mp_feed M raw) ns of
                         (False, ns') \<Rightarrow> (False, ns', w1)
                       | (True, ns') \<Rightarrow> (True, mark_clean ns', w1)))"

fun load_list :: "msgpack \<Rightarrow> 'w fsys \<Rightarrow> bytes \<Rightarrow> 'w namespace list \<Rightarrow> 'w \<Rightarrow> nat \<times> 'w namespace list \<times> 'w" where
  "load_list M F dir [] w = (0, [], w)"
| "load_list M F dir (ns # nss) w =
     (case load_namespace M F dir ns w of
        (ok, ns', w1) \<Rightarrow>
          case load_list M F dir nss w1 of
            (n, nss', w2) \<Rightarrow> ((if ok then n + 1 else n), ns' # nss', w2))"

definition load_all :: "msgpack \<Rightarrow> 'w fsys \<Rightarrow> bytes \<Rightarrow> 'w registry \<Rightarrow> 'w \<Rightarrow> nat \<times> 'w registry \<times> 'w" where
  "load_all M F dir R w =
     (case ensure_directory F dir w of
        (False, w1) \<Rightarrow> (0, R, w1)
      | (True, w1) \<Rightarrow>
          (case load_list M F dir (rg_namespaces R) w1 of
             (n, nss, w2) \<Rightarrow> (n, R\<lparr>rg_namespaces := nss\<rparr>, w2)))"

text \<open>The two attempts to put the new file in the place of the old one.\<close>

definition replace_file :: "'w fsys \<Rightarrow> bytes \<Rightarrow> bytes \<Rightarrow> 'w \<Rightarrow> bool \<times> 'w" where
  "replace_file F tmp final w =
     (case rename_file F tmp final w of
        (Inl _, w1) \<Rightarrow> (False, w1)
      | (Inr True, w1) \<Rightarrow> (True, w1)
      | (Inr False, w1) \<Rightarrow>
          (let w2 = snd (remove_file F final w1)
           in case rename_file F tmp final w2 of
                (Inl _, w3) \<Rightarrow> (False, w3)
              | (Inr True, w3) \<Rightarrow> (True, w3)
              | (Inr False, w3) \<Rightarrow> (False, snd (remove_file F tmp w3))))"

definition save_namespace_force ::
    "msgpack \<Rightarrow> 'w fsys \<Rightarrow> bytes \<Rightarrow> 'w namespace \<Rightarrow> 'w \<Rightarrow> bool \<times> 'w namespace \<times> 'w" where
  "save_namespace_force M F dir ns w =
     (case ensure_directory F dir w of
        (False, w1) \<Rightarrow> (False, ns, w1)
      | (True, w1) \<Rightarrow>
          (let encoded = mp_pack M (pack_namespace_working w1 ns);
               tmp = tmp_path dir ns; final = file_path dir ns
           in case write_file F tmp encoded w1 of
                (Inl _, w2) \<Rightarrow> (False, ns, w2)
              | (Inr wrote, w2) \<Rightarrow>
                  if wrote \<noteq> length encoded then (False, ns, snd (remove_file F tmp w2))
                  else case replace_file F tmp final w2 of
                         (False, w3) \<Rightarrow> (False, ns, w3)
                       | (True, w3) \<Rightarrow> (True, mark_clean ns, w3)))"

definition save_namespace ::
    "msgpack \<Rightarrow> 'w fsys \<Rightarrow> bytes \<Rightarrow> 'w namespace \<Rightarrow> 'w \<Rightarrow> bool \<times> 'w namespace \<times> 'w" where
  "save_namespace M F dir ns w = (if \<not> ns_dirty ns then (True, ns, w) else save_namespace_force M F dir ns w)"

definition remove_if_there :: "'w fsys \<Rightarrow> bytes \<Rightarrow> 'w \<Rightarrow> bool result \<times> 'w" where
  "remove_if_there F path w =
     (case file_exists F path w of
        Inl e \<Rightarrow> (Inl e, w)
      | Inr False \<Rightarrow> (Inr True, w)
      | Inr True \<Rightarrow> remove_file F path w)"

definition remove_namespace :: "'w fsys \<Rightarrow> bytes \<Rightarrow> 'w namespace \<Rightarrow> 'w \<Rightarrow> bool \<times> 'w" where
  "remove_namespace F dir ns w =
     (case remove_if_there F (tmp_path dir ns) w of
        (Inl _, w1) \<Rightarrow> (False, w1)
      | (Inr ok1, w1) \<Rightarrow>
          (case remove_if_there F (file_path dir ns) w1 of
             (Inl _, w2) \<Rightarrow> (False, w2)
           | (Inr ok2, w2) \<Rightarrow> (ok2 \<and> ok1, w2)))"

fun storage_factory_reset :: "'w fsys \<Rightarrow> bytes \<Rightarrow> bool \<Rightarrow> 'w namespace list \<Rightarrow> 'w \<Rightarrow> bool \<times> 'w" where
  "storage_factory_reset F dir ok [] w = (ok, w)"
| "storage_factory_reset F dir ok (ns # nss) w =
     (case remove_namespace F dir ns w of
        (r, w') \<Rightarrow> storage_factory_reset F dir (r \<and> ok) nss w')"

section \<open>The files stay apart\<close>

text \<open>
  Documented behaviour of the file system, in terms of the contents \<open>C w\<close> of the files: what is written is
  read back, a rename moves the contents, a removal removes, an operation that fails changes nothing and
  none touches the other files.
\<close>

definition fs_laws :: "'w fsys \<Rightarrow> ('w \<Rightarrow> bytes \<Rightarrow> bytes option) \<Rightarrow> bool" where
  "fs_laws F C \<longleftrightarrow> (\<forall>w. fs_registered F w \<longrightarrow>
     (\<forall>p. fs_exists F p w = (C w p \<noteq> None)) \<and>
     (\<forall>p d. C w p = Some d \<longrightarrow> fs_size F p w = length d \<and> fs_read F p (length d) w = d) \<and>
     (\<forall>p d w'. fs_write F p d w = (length d, w') \<longrightarrow> fs_registered F w' \<and> C w' = (C w)(p := Some d)) \<and>
     (\<forall>p ok w'. fs_remove F p w = (ok, w') \<longrightarrow> fs_registered F w' \<and> C w' = (if ok then (C w)(p := None) else C w)) \<and>
     (\<forall>p q ok w'. fs_rename F p q w = (ok, w') \<longrightarrow>
        fs_registered F w' \<and> C w' = (if ok then (C w)(q := C w p, p := None) else C w)))"

lemma fs_lawsD:
  assumes "fs_laws F C" and "fs_registered F w"
  shows "fs_exists F p w = (C w p \<noteq> None)"
    and "C w p = Some d \<Longrightarrow> fs_size F p w = length d"
    and "C w p = Some d \<Longrightarrow> fs_read F p (length d) w = d"
    and "fs_write F p d w = (length d, w') \<Longrightarrow> fs_registered F w'"
    and "fs_write F p d w = (length d, w') \<Longrightarrow> C w' = (C w)(p := Some d)"
    and "fs_remove F p w = (ok, w') \<Longrightarrow> fs_registered F w'"
    and "fs_remove F p w = (ok, w') \<Longrightarrow> C w' = (if ok then (C w)(p := None) else C w)"
    and "fs_rename F p q w = (ok, w') \<Longrightarrow> fs_registered F w'"
    and "fs_rename F p q w = (ok, w') \<Longrightarrow> C w' = (if ok then (C w)(q := C w p, p := None) else C w)"
  using assms unfolding fs_laws_def by blast+

lemma tmp_not_final: "tmp_path dir ns \<noteq> file_path dir ns"
proof
  assume "tmp_path dir ns = file_path dir ns"
  then have "length (tmp_path dir ns) = length (file_path dir ns)" by simp
  then show False by (simp add: tmp_path_def file_path_def ascii_def)
qed

lemma replace_file_ok:
  assumes "fs_laws F C" and "fs_registered F w" and "tmp \<noteq> final" and "replace_file F tmp final w = (True, w')"
  shows "fs_registered F w' \<and> C w' = (C w)(final := C w tmp, tmp := None)"
proof -
  obtain ok w1 where r: "fs_rename F tmp final w = (ok, w1)" by (metis surj_pair)
  note r1 = fs_lawsD(8,9) [OF assms(1,2) r]
  show ?thesis
  proof (cases ok)
    case True
    then have "w' = w1" using assms(2,4) r by (simp add: replace_file_def rename_file_def)
    then show ?thesis using r1 True by simp
  next
    case False
    obtain ok2 w2 where d: "fs_remove F final w1 = (ok2, w2)" by (metis surj_pair)
    note d1 = fs_lawsD(6,7) [OF assms(1) r1(1) d]
    obtain ok3 w3 where r3: "fs_rename F tmp final w2 = (ok3, w3)" by (metis surj_pair)
    note r4 = fs_lawsD(8,9) [OF assms(1) d1(1) r3]
    have "ok3 \<and> w' = w3"
      using assms(2,4) r r1(1) d d1(1) r3 False
      by (simp add: replace_file_def rename_file_def remove_file_def Let_def split: bool.splits)
    then show ?thesis using r1 d1 r4 False assms(3) by (auto simp: fun_eq_iff)
  qed
qed

lemma save_writes:
  assumes "fs_laws F C" and "fs_registered F w" and "fs_is_directory F dir w"
    and "save_namespace_force M F dir ns w = (True, ns', w')"
  shows "ns' = mark_clean ns" and "fs_registered F w'"
    and "C w' = (C w)(file_path dir ns := Some (mp_pack M (pack_namespace_working w ns)), tmp_path dir ns := None)"
proof -
  let ?enc = "mp_pack M (pack_namespace_working w ns)"
  obtain n w2 where wr: "fs_write F (tmp_path dir ns) ?enc w = (n, w2)" by (metis surj_pair)
  obtain ok w3 where rp: "replace_file F (tmp_path dir ns) (file_path dir ns) w2 = (ok, w3)" by (metis surj_pair)
  have r: "n = length ?enc \<and> ok \<and> ns' = mark_clean ns \<and> w' = w3"
    using assms(2-4) wr rp
    by (simp add: save_namespace_force_def ensure_directory_def directory_exists_def write_file_def Let_def
        split: if_splits bool.splits)
  note w2 = fs_lawsD(4,5) [OF assms(1,2) wr [unfolded r [THEN conjunct1]]]
  have "fs_registered F w3 \<and> C w3 = (C w2)(file_path dir ns := C w2 (tmp_path dir ns), tmp_path dir ns := None)"
    using replace_file_ok [OF assms(1) w2(1) tmp_not_final] rp r by simp
  then show "ns' = mark_clean ns" "fs_registered F w'"
    "C w' = (C w)(file_path dir ns := Some ?enc, tmp_path dir ns := None)"
    using r w2(2) by auto
qed

section \<open>What is saved is loaded\<close>

lemma working_mark_clean: "working k (mark_clean ns) = working k ns"
  by (simp add: working_def mark_clean_def)

lemma unpack_entries_pack:
  assumes "\<And>f. f \<in> set fs \<Longrightarrow> find_field (f_id f) ns = Some f \<and> wire_ok M (val f) \<and> vtype_of (val f) = f_type f"
  shows "unpack_entries M (length fs) (concat (map (\<lambda>f. MP_uint (unat (f_id f)) # pack_value (val f)) fs) @ r) ns =
    fold (\<lambda>f ns. if validate f (val f) then put_working (f_id f) (val f) ns else ns) fs ns"
  using assms
proof (induction fs arbitrary: ns)
  case (Cons f fs)
  have f: "find_field (f_id f) ns = Some f" "wire_ok M (val f)" "vtype_of (val f) = f_type f" using Cons.prems by auto
  have id: "unat (f_id f) < 2 ^ 63" by (rule less_trans [OF unsigned_less]) simp
  have keep: "find_field k (put_working j v ns) = find_field k ns" for k j v by (rule find_field_shape) simp
  show ?case
    using Cons.IH [of ns] Cons.IH [of "put_working (f_id f) (val f) ns"] Cons.prems f id
    by (simp add: mp_is_int_def keep unpack_pack_value)
qed simp

lemma shape_fold_put:
  "ns_shape (fold (\<lambda>f ns. if validate f (val f) then put_working (f_id f) (val f) ns else ns) fs ns) = ns_shape ns"
  by (induction fs arbitrary: ns) simp_all

lemma fold_put_working:
  assumes "distinct (map f_id fs)"
  shows "working k (fold (\<lambda>f ns. if validate f (val f) then put_working (f_id f) (val f) ns else ns) fs ns) =
    (case List.find (\<lambda>f. f_id f = k) fs of
       None \<Rightarrow> working k ns
     | Some f \<Rightarrow> if validate f (val f) then val f else working k ns)"
  using assms
proof (induction fs arbitrary: ns)
  case (Cons f fs)
  have "f_id f \<notin> f_id ` set fs" using Cons.prems by simp
  then have "List.find (\<lambda>g. f_id g = f_id f) fs = None" unfolding find_None_iff by (metis image_eqI)
  with Cons show ?case
    by (auto simp: working_def put_working_def tab_find_assign split: option.split)
qed simp

definition saved_fields :: "'w \<Rightarrow> 'w namespace \<Rightarrow> 'w pfield list" where
  "saved_fields w ns = filter (\<lambda>f. \<not> not_persisted f \<and> \<not> is_none (persist_value w ns f)) (ns_fields ns)"

lemma persist_value_type:
  assumes "ns_ok ns" and "f \<in> set (saved_fields w ns)"
  shows "vtype_of (persist_value w ns f) = f_type f"
proof -
  have f: "f \<in> set (ns_fields ns)" "persist_value w ns f \<noteq> None_v" using assms(2) by (auto simp: saved_fields_def)
  have ff: "find_field (f_id f) ns = Some f" by (rule find_field_pos [OF assms(1) f(1)])
  have wk: "vtype_of (working (f_id f) ns) = f_type f" if "working (f_id f) ns \<noteq> None_v"
    using assms(1) ff that unfolding ns_ok_def working_typed_def working_def by (force split: option.splits)
  have gt: "vtype_of (g w) = f_type f" if "f_getter f = Some g" for g
    using assms(1) f(1) that by (auto simp: ns_ok_def list_all_iff field_ok_def)
  show ?thesis
    using f(2) ff wk gt unfolding persist_value_def effective_def by (auto split: if_splits option.splits)
qed

lemma save_load_values:
  assumes M: "msgpack_ok M" and laws: "fs_laws F C" "fs_registered F w" "fs_is_directory F dir w"
    and ok: "ns_ok ns" "ns_ok ns0" "ns_shape ns0 = ns_shape ns"
    and wire: "list_all (\<lambda>f. wire_ok M (persist_value w ns f)) (saved_fields w ns)" "length (ns_fields ns) < 2 ^ 32"
    and saved: "save_namespace_force M F dir ns w = (True, ns', w')"
  obtains ns1 where "load_namespace M F dir ns0 w' = (True, ns1, w')"
    and "ns_shape ns1 = ns_shape ns" "\<not> ns_dirty ns1"
    and "\<And>k. working k ns1 = (case List.find (\<lambda>f. f_id f = k) (saved_fields w ns) of
           None \<Rightarrow> working k ns0
         | Some f \<Rightarrow> if validate f (persist_value w ns f) then persist_value w ns f else working k ns0)"
proof -
  let ?fs = "saved_fields w ns" and ?val = "persist_value w ns"
  let ?items = "pack_namespace_working w ns"
  let ?ns1 = "fold (\<lambda>f ns. if validate f (?val f) then put_working (f_id f) (?val f) ns else ns) ?fs ns0"
  have items: "?items = MP_map (length ?fs) # concat (map (\<lambda>f. MP_uint (unat (f_id f)) # pack_value (?val f)) ?fs)"
    by (simp add: pack_namespace_working_def pack_fields_def saved_fields_def)
  have idb: "unat k < 2 ^ 64" for k :: fid by (rule less_trans [OF unsigned_less]) simp
  have "length ?fs < 2 ^ 32" using wire(2) by (simp add: saved_fields_def less_le_trans [OF le_less_trans [OF length_filter_le]])
  then have wf: "list_all (mp_wf (mp_double M)) ?items"
    unfolding items using wire(1) idb by (auto simp: list_all_iff dest: mp_wf_pack_value [unfolded list_all_iff])
  note w' = save_writes [OF laws saved]
  have nonempty: "mp_pack M ?items \<noteq> []"
  proof
    have "mp_size (hd ?items) > 0" "?items = hd ?items # tl ?items" by (simp_all add: items)
    then have "sum_list (map mp_size ?items) > 0" by (metis add_gr_0 list.simps(9) sum_list.Cons)
    moreover assume "mp_pack M ?items = []"
    ultimately show False using msgpack_okD(2) [OF M, of ?items] by (metis less_numeral_extra(3) list.size(3))
  qed
  have fields: "find_field (f_id f) ns0 = Some f \<and> wire_ok M (?val f) \<and> vtype_of (?val f) = f_type f" if "f \<in> set ?fs" for f
    using that wire(1) persist_value_type [OF ok(1) that] find_field_pos [OF ok(1), of f] find_field_shape [OF ok(3)]
    by (auto simp: saved_fields_def list_all_iff)
  have un: "unpack_namespace_working M ?items ns0 = (True, ?ns1)"
    using unpack_entries_pack [of ?fs ns0 M ?val "[]", OF fields]
    by (simp add: unpack_namespace_working_def items mp_is_map_def mp_map_size_def)
  have path: "tmp_path dir ns0 = tmp_path dir ns" "file_path dir ns0 = file_path dir ns"
    using ns_shapeD(1) [OF ok(3)] by (simp_all add: tmp_path_def file_path_def)
  have content: "C w' (file_path dir ns) = Some (mp_pack M ?items)" "C w' (tmp_path dir ns) = None"
    using w'(3) tmp_not_final [of dir ns] by auto
  have "load_namespace M F dir ns0 w' = (True, mark_clean ?ns1, w')"
    using w'(2) content nonempty un fs_lawsD(1-3) [OF laws(1) w'(2)] msgpack_okD(3) [OF M wf]
    by (simp add: load_namespace_def Let_def path file_exists_def read_file_def)
  then show ?thesis
  proof (rule that)
    show "ns_shape (mark_clean ?ns1) = ns_shape ns" using ok(3) by (simp add: shape_fold_put)
    show "\<not> ns_dirty (mark_clean ?ns1)" by (simp add: mark_clean_def)
    have "distinct (map f_id ?fs)"
      unfolding saved_fields_def by (rule distinct_map_filter [OF distinct_field_ids [OF ok(1)]])
    then show "working k (mark_clean ?ns1) = (case List.find (\<lambda>f. f_id f = k) ?fs of
        None \<Rightarrow> working k ns0 | Some f \<Rightarrow> if validate f (?val f) then ?val f else working k ns0)" for k
      by (simp add: working_mark_clean fold_put_working)
  qed
qed

end
