(* ===== verification/Provision_Builder.thy ===== *)
theory Provision_Builder
  imports Provision_Storage
begin

text \<open>
  The state of the class \<open>Provisioner\<close> and the registration of namespaces and fields:
  \<open>Provisioner::register_namespace\<close> and \<open>Provisioning/NamespaceBuilder.cpp\<close>.  The state holds the registry,
  the storage root when there is one, the callbacks and the application state \<open>'w\<close>, on which setters,
  getters, callbacks and the file system act.  A callback may throw; its caller catches that, so a callback
  is a function on \<open>'w\<close>.  Setters and callbacks that call the provisioner again are not modelled.
\<close>

section \<open>State\<close>

record 'w provisioner =
  pv_registry :: "'w registry"
  pv_storage :: "bytes option"
  pv_started :: bool
  pv_needs_reboot :: bool
  pv_schema_hash :: "32 word"
  pv_on_reboot_required :: "('w \<Rightarrow> 'w) option"
  pv_on_reboot :: "('w \<Rightarrow> 'w) option"
  pv_on_factory_reset :: "('w \<Rightarrow> 'w) option"
  pv_scope :: "nat list"
  pv_world :: 'w

abbreviation pv_namespaces :: "'w provisioner \<Rightarrow> 'w namespace list" where
  "pv_namespaces p \<equiv> rg_namespaces (pv_registry p)"

definition new_provisioner :: "'w \<Rightarrow> 'w provisioner" where
  "new_provisioner w =
     \<lparr>pv_registry = empty_registry, pv_storage = None, pv_started = False, pv_needs_reboot = False,
      pv_schema_hash = 0, pv_on_reboot_required = None, pv_on_reboot = None, pv_on_factory_reset = None,
      pv_scope = [], pv_world = w\<rparr>"

definition put_ns :: "nat \<Rightarrow> 'w namespace \<Rightarrow> 'w \<Rightarrow> 'w provisioner \<Rightarrow> 'w provisioner" where
  "put_ns i ns w p = p\<lparr>pv_registry := rg_update i ns (pv_registry p), pv_world := w\<rparr>"

section \<open>Registration\<close>

definition register_namespace :: "bytes option \<Rightarrow> nid \<Rightarrow> 'w provisioner \<Rightarrow> 'w provisioner option" where
  "register_namespace name k p =
     (let parent = (if pv_scope p = [] then 0 else ns_id (pv_namespaces p ! last (pv_scope p)))
      in case add_namespace k name parent (pv_registry p) of
           None \<Rightarrow> None
         | Some (r, R) \<Rightarrow>
             (case (case r of
                      Some i \<Rightarrow> Some i
                    | None \<Rightarrow> (case find_ns k R of Some i \<Rightarrow> Some i | None \<Rightarrow> find_ns_named name R)) of
                Some i \<Rightarrow> Some (p\<lparr>pv_registry := R, pv_scope := pv_scope p @ [i]\<rparr>)
              | None \<Rightarrow> Some (p\<lparr>pv_registry := R\<rparr>)))"

text \<open>\<open>NamespaceBuilder::end\<close>.\<close>

definition end_scope :: "'w provisioner \<Rightarrow> 'w provisioner" where
  "end_scope p = (if pv_scope p \<noteq> [] then p\<lparr>pv_scope := butlast (pv_scope p)\<rparr> else p)"

definition add_to_scope :: "'w pfield \<Rightarrow> 'w provisioner \<Rightarrow> 'w provisioner" where
  "add_to_scope f p =
     (if pv_scope p = [] then p
      else let i = last (pv_scope p)
           in put_ns i (snd (add_field (pv_world p) f (pv_namespaces p ! i))) (pv_world p) p)"

definition base_field :: "bytes option \<Rightarrow> fid \<Rightarrow> vtype \<Rightarrow> fflags \<Rightarrow> pvalue \<Rightarrow> 'w setter option \<Rightarrow> 'w getter option \<Rightarrow> 'w pfield" where
  "base_field name k t flags dflt s g =
     \<lparr>f_id = k, f_name = (case name of None \<Rightarrow> [] | Some n \<Rightarrow> n), f_type = t, f_flags = flags,
      f_constraint = no_constraint, f_default = dflt, f_setter = s, f_getter = g\<rparr>"

definition wrap_getter :: "('a \<Rightarrow> pvalue) \<Rightarrow> ('w \<Rightarrow> 'a) option \<Rightarrow> 'w getter option" where
  "wrap_getter c g = map_option (\<lambda>h w. c (h w)) g"

definition field_bool where
  "field_bool name k flags dflt s g p =
     add_to_scope (base_field name k Bool_t flags (Bool_v dflt) s (wrap_getter Bool_v g)) p"

definition field_int_range where
  "field_int_range name k flags dflt imin imax s g p =
     add_to_scope ((base_field name k Int_t flags (Int_v dflt) s (wrap_getter Int_v g))
       \<lparr>f_constraint := no_constraint\<lparr>c_has_range := True, c_imin := imin, c_imax := imax\<rparr>\<rparr>) p"

definition field_int where
  "field_int name k flags dflt s g p =
     add_to_scope (base_field name k Int_t flags (Int_v dflt) s (wrap_getter Int_v g)) p"

definition field_float_range where
  "field_float_range name k flags dflt fmin fmax s g p =
     add_to_scope ((base_field name k Float_t flags (Float_v dflt) s (wrap_getter Float_v g))
       \<lparr>f_constraint := no_constraint\<lparr>c_has_range := True, c_fmin := fmin, c_fmax := fmax\<rparr>\<rparr>) p"

definition field_float where
  "field_float name k flags dflt s g p =
     add_to_scope (base_field name k Float_t flags (Float_v dflt) s (wrap_getter Float_v g)) p"

definition field_string where
  "field_string name k flags dflt max_len s g p =
     add_to_scope ((base_field name k String_t flags (String_v (case dflt of None \<Rightarrow> [] | Some d \<Rightarrow> d)) s
       (wrap_getter String_v g))\<lparr>f_constraint := no_constraint\<lparr>c_max_len := max_len\<rparr>\<rparr>) p"

definition field_bytes where
  "field_bytes name k flags dflt max_len s g p =
     add_to_scope ((base_field name k Bytes_t flags (Bytes_v dflt) s (wrap_getter Bytes_v g))
       \<lparr>f_constraint := no_constraint\<lparr>c_max_len := max_len\<rparr>\<rparr>) p"

definition field_bytes_list where
  "field_bytes_list name k flags dflt element_size max_count s g p =
     add_to_scope ((base_field name k BytesList_t flags (BytesList_v dflt) s (wrap_getter BytesList_v g))
       \<lparr>f_constraint := no_constraint\<lparr>c_element_size := element_size, c_max_count := max_count\<rparr>\<rparr>) p"

definition field_enum where
  "field_enum name k flags dflt values labels s g p =
     add_to_scope ((base_field name k Enum_t flags (Enum_v dflt) s (wrap_getter Enum_v g))
       \<lparr>f_constraint := no_constraint\<lparr>c_enum_values := values, c_enum_labels := labels\<rparr>\<rparr>) p"

definition metric_bool where
  "metric_bool name k g p = field_bool name k FF_READ_ONLY False None g p"

definition metric_int where
  "metric_int name k g p = field_int name k FF_READ_ONLY 0 None g p"

definition metric_float where
  "metric_float name k g p = field_float name k FF_READ_ONLY 0 None g p"

definition metric_string where
  "metric_string name k g p = field_string name k FF_READ_ONLY (Some []) 0 None g p"

definition metric_bytes where
  "metric_bytes name k g p = field_bytes name k FF_READ_ONLY [] 0 None g p"

definition command_bool where
  "command_bool name k s p = field_bool name k FF_WRITE_ONLY False s None p"

definition command_int where
  "command_int name k imin imax s p = field_int_range name k FF_WRITE_ONLY 0 imin imax s None p"

definition command_float where
  "command_float name k fmin fmax s p = field_float_range name k FF_WRITE_ONLY 0 fmin fmax s None p"

definition command_string where
  "command_string name k max_len s p = field_string name k FF_WRITE_ONLY (Some []) max_len s None p"

definition command_bytes where
  "command_bytes name k max_len s p = field_bytes name k FF_WRITE_ONLY [] max_len s None p"

definition command_void :: "bytes option \<Rightarrow> fid \<Rightarrow> ('w \<Rightarrow> bool result \<times> 'w) option \<Rightarrow> 'w provisioner \<Rightarrow> 'w provisioner" where
  "command_void name k s p =
     add_to_scope (base_field name k Void_t FF_WRITE_ONLY Void_v (map_option (\<lambda>h v. h) s) None) p"

definition on_commit :: "'w commit_hook option \<Rightarrow> 'w provisioner \<Rightarrow> 'w provisioner" where
  "on_commit h p =
     (if pv_scope p = [] then p
      else let i = last (pv_scope p)
           in put_ns i ((pv_namespaces p ! i)\<lparr>ns_on_commit := h\<rparr>) (pv_world p) p)"

section \<open>The invariant\<close>

text \<open>The registry is in order and the scopes under construction are namespaces of it.\<close>

definition pv_ok :: "'w provisioner \<Rightarrow> bool" where
  "pv_ok p \<longleftrightarrow> rg_ok (pv_registry p) \<and> list_all (\<lambda>i. i < length (pv_namespaces p)) (pv_scope p)"

lemma pv_ok_new: "pv_ok (new_provisioner w)"
  by (simp add: pv_ok_def new_provisioner_def)

lemma pv_okD:
  assumes "pv_ok p"
  shows "i < length (pv_namespaces p) \<Longrightarrow> ns_ok (pv_namespaces p ! i)"
    and "find_ns n (pv_registry p) = Some i \<Longrightarrow> i < length (pv_namespaces p) \<and> ns_id (pv_namespaces p ! i) = n"
    and "find_ns_named name (pv_registry p) = Some i \<Longrightarrow> i < length (pv_namespaces p)"
    and "pv_scope p \<noteq> [] \<Longrightarrow> last (pv_scope p) < length (pv_namespaces p)"
  using assms rg_okD [of "pv_registry p"] by (auto simp: pv_ok_def list_all_iff)

lemma put_ns_simps [simp]:
  "pv_namespaces (put_ns i ns w p) = (pv_namespaces p)[i := ns]"
  "rg_id_index (pv_registry (put_ns i ns w p)) = rg_id_index (pv_registry p)"
  "rg_name_index (pv_registry (put_ns i ns w p)) = rg_name_index (pv_registry p)"
  "pv_world (put_ns i ns w p) = w" "pv_scope (put_ns i ns w p) = pv_scope p"
  "pv_storage (put_ns i ns w p) = pv_storage p" "pv_needs_reboot (put_ns i ns w p) = pv_needs_reboot p"
  "pv_started (put_ns i ns w p) = pv_started p"
  "find_ns n (pv_registry (put_ns i ns w p)) = find_ns n (pv_registry p)"
  by (simp_all add: put_ns_def rg_update_def find_ns_def)

lemma pv_ok_values:
  assumes "pv_ok p" and "list_all2 keeps (pv_namespaces p) nss" and "pv_scope p' = pv_scope p"
    and "pv_registry p' = (pv_registry p)\<lparr>rg_namespaces := nss\<rparr>"
  shows "pv_ok p'"
  using assms rg_ok_values [of "pv_registry p" nss] list_all2_lengthD [OF assms(2)] by (simp add: pv_ok_def)

lemma pv_ok_put_ns:
  assumes "pv_ok p" and "i < length (pv_namespaces p)" and "keeps (pv_namespaces p ! i) ns"
  shows "pv_ok (put_ns i ns w p)"
  using assms rg_ok_update [of "pv_registry p" i ns] keepsD(1) [OF assms(3) pv_okD(1) [OF assms(1,2)]]
    ns_shapeD [OF keepsD(2) [OF assms(3) pv_okD(1) [OF assms(1,2)]]]
  by (simp add: pv_ok_def put_ns_def) (simp add: rg_update_def)

lemma pv_ok_same: "pv_ok p \<Longrightarrow> pv_registry p' = pv_registry p \<Longrightarrow> pv_scope p' = pv_scope p \<Longrightarrow> pv_ok p'"
  by (simp add: pv_ok_def)

lemma pv_ok_field_simps [simp]:
  "pv_ok (p\<lparr>pv_world := w\<rparr>) = pv_ok p" "pv_ok (p\<lparr>pv_storage := s\<rparr>) = pv_ok p"
  "pv_ok (p\<lparr>pv_needs_reboot := b\<rparr>) = pv_ok p" "pv_ok (p\<lparr>pv_started := b\<rparr>) = pv_ok p"
  "pv_ok (p\<lparr>pv_schema_hash := h\<rparr>) = pv_ok p" "pv_ok (p\<lparr>pv_on_reboot_required := c\<rparr>) = pv_ok p"
  "pv_ok (p\<lparr>pv_on_reboot := c\<rparr>) = pv_ok p" "pv_ok (p\<lparr>pv_on_factory_reset := c\<rparr>) = pv_ok p"
  by (simp_all add: pv_ok_def)

lemma pv_ok_register:
  assumes "pv_ok p" and "register_namespace name k p = Some p'"
  shows "pv_ok p'"
proof -
  let ?parent = "if pv_scope p = [] then 0 else ns_id (pv_namespaces p ! last (pv_scope p))"
  have rg: "rg_ok (pv_registry p)" using assms(1) by (simp add: pv_ok_def)
  obtain r R where a: "add_namespace k name ?parent (pv_registry p) = Some (r, R)"
    using add_namespace_result [OF rg, of k name ?parent] by (metis surj_pair)
  have R: "rg_ok R" by (rule rg_ok_add_namespace [OF rg a])
  have len: "length (pv_namespaces p) \<le> length (rg_namespaces R) \<and> (\<forall>i. r = Some i \<longrightarrow> i < length (rg_namespaces R))"
    using a add_namespace_result [OF rg, of k name ?parent] by (auto simp: Let_def split: if_splits)
  then have scope: "list_all (\<lambda>i. i < length (rg_namespaces R)) (pv_scope p)"
    using assms(1) by (auto simp: pv_ok_def list_all_iff)
  show ?thesis
    using assms(2) a R scope len rg_okD(2,3) [OF R]
    by (auto simp: register_namespace_def Let_def pv_ok_def split: option.splits)
qed

lemma register_returns:
  assumes "pv_ok p"
  shows "\<exists>p'. register_namespace name k p = Some p'"
proof -
  let ?parent = "if pv_scope p = [] then 0 else ns_id (pv_namespaces p ! last (pv_scope p))"
  have "rg_ok (pv_registry p)" using assms by (simp add: pv_ok_def)
  then obtain r R where a: "add_namespace k name ?parent (pv_registry p) = Some (r, R)"
    using add_namespace_result [of "pv_registry p" k name ?parent] by (metis surj_pair)
  show ?thesis
    unfolding register_namespace_def Let_def a option.case prod.case by (simp split: option.split)
qed

lemma pv_ok_end_scope [inv_intros]: "pv_ok p \<Longrightarrow> pv_ok (end_scope p)"
  by (auto simp: pv_ok_def end_scope_def list_all_iff dest: in_set_butlastD)

lemma pv_ok_on_commit [inv_intros]: "pv_ok p \<Longrightarrow> pv_ok (on_commit h p)"
  using pv_okD(4) [of p] by (auto simp: on_commit_def Let_def intro!: pv_ok_put_ns)

subsection \<open>The builder registers well-formed fields\<close>

lemma field_ok_base:
  "vtype_of d = t \<Longrightarrow> (\<And>x. vtype_of (c x) = t) \<Longrightarrow> field_ok (base_field name k t flags d s (wrap_getter c g))"
  by (auto simp: field_ok_def base_field_def wrap_getter_def)

lemma field_ok_constraint [simp]: "field_ok (f\<lparr>f_constraint := c\<rparr>) = field_ok f"
  by (simp add: field_ok_def)

lemma pv_ok_add_to_scope:
  assumes "pv_ok p" and "field_ok f"
  shows "pv_ok (add_to_scope f p)"
proof (cases "pv_scope p = []")
  case False
  let ?i = "last (pv_scope p)"
  let ?ns = "snd (add_field (pv_world p) f (pv_namespaces p ! ?i))"
  have i: "?i < length (pv_namespaces p)" by (rule pv_okD(4) [OF assms(1) False])
  have "ns_ok ?ns" by (rule ns_ok_add_field [OF pv_okD(1) [OF assms(1) i] assms(2)])
  then have "rg_ok (rg_update ?i ?ns (pv_registry p))"
    using assms(1) i by (intro rg_ok_update) (simp_all add: pv_ok_def add_field_def Let_def)
  then show ?thesis using assms(1) False by (simp add: add_to_scope_def Let_def pv_ok_def put_ns_def) (simp add: rg_update_def)
qed (use assms in \<open>simp add: add_to_scope_def\<close>)

lemma pv_ok_builders [inv_intros]:
  assumes "pv_ok p"
  shows "pv_ok (field_bool name k flags b s gb p)"
    and "pv_ok (field_int_range name k flags i imin imax s gi p)"
    and "pv_ok (field_int name k flags i s gi p)"
    and "pv_ok (field_float_range name k flags x fmin fmax s gx p)"
    and "pv_ok (field_float name k flags x s gx p)"
    and "pv_ok (field_string name k flags c max_len s gc p)"
    and "pv_ok (field_bytes name k flags c' max_len s gc p)"
    and "pv_ok (field_bytes_list name k flags l element_size max_count s gl p)"
    and "pv_ok (field_enum name k flags i values labels s gi p)"
  unfolding field_bool_def field_int_range_def field_int_def field_float_range_def field_float_def field_string_def
    field_bytes_def field_bytes_list_def field_enum_def
  by (rule pv_ok_add_to_scope [OF assms], simp add: field_ok_base)+

lemma pv_ok_command_void [inv_intros]: "pv_ok p \<Longrightarrow> pv_ok (command_void name k s p)"
  unfolding command_void_def by (rule pv_ok_add_to_scope) (simp_all add: field_ok_def base_field_def)

end
