(* ===== verification/Provision_Builtin.thy ===== *)
theory Provision_Builtin
  imports Provision_Builder
begin

text \<open>
  The namespaces every node registers at start: \<open>Provisioning/BuiltinNamespaces.cpp\<close> with the numbers of
  \<open>Provisioning/Ids.h\<close>, for a build without \<open>ESP32\<close>.  \<open>runtime\<close> is the rest of the program as these fields
  see it: static members of \<open>Reticulum\<close>, \<open>Transport\<close>, \<open>Identity\<close> and \<open>Memory\<close>.  A counter is named by the
  function that reads it.  A percentage of a memory of size 0 is a division the source does not guard; it
  is 0 here.  \<open>rt_clear_provisioning\<close> stands for the call of \<open>Provisioner::clear_storage\<close> from within a setter.
\<close>

section \<open>The rest of the program\<close>

datatype cfg_bool = Transport_enabled | Link_mtu_discovery | Remote_management_enabled | Probe_destination_enabled

datatype cfg_int =
    Persist_interval | Clean_interval | Path_table_maxsize | Announce_table_maxsize | Hashlist_maxsize | Max_pr_tags
  | Known_destinations_maxsize

record 'w runtime =
  rt_get_bool :: "cfg_bool \<Rightarrow> 'w \<Rightarrow> bool"
  rt_set_bool :: "cfg_bool \<Rightarrow> bool \<Rightarrow> 'w \<Rightarrow> 'w"
  rt_get_int :: "cfg_int \<Rightarrow> 'w \<Rightarrow> 16 word"
  rt_set_int :: "cfg_int \<Rightarrow> 16 word \<Rightarrow> 'w \<Rightarrow> 'w"
  rt_get_identity_prv :: "'w \<Rightarrow> bytes option"
  rt_set_identity_prv :: "bytes \<Rightarrow> 'w \<Rightarrow> 'w"
  rt_get_allowed :: "'w \<Rightarrow> bytes list"
  rt_set_allowed :: "bytes list \<Rightarrow> 'w \<Rightarrow> 'w"
  rt_clear_provisioning :: "'w \<Rightarrow> bool \<times> 'w"
  rt_clear_storage :: "'w \<Rightarrow> 'w"
  rt_count :: "string \<Rightarrow> 'w \<Rightarrow> int"
  rt_path_responses :: "'w \<Rightarrow> nat list"
  rt_announce_queues :: "'w \<Rightarrow> nat list"
  rt_hash :: "string \<Rightarrow> 'w \<Rightarrow> bytes option"
  rt_heap_pool :: "'w \<Rightarrow> bool"
  rt_psram_pool :: "'w \<Rightarrow> bool"
  rt_neighbor_probing :: bool

text \<open>A \<open>std::set\<close> of byte strings, as the sorted list of its elements.\<close>

definition bytes_set :: "bytes list \<Rightarrow> bytes list" where
  "bytes_set l = map fst (fold (\<lambda>b m. tab_insert b () m) l [])"

definition percent :: "int \<Rightarrow> int \<Rightarrow> int" where
  "percent a b = \<lfloor>real_of_int a / real_of_int b * 100\<rfloor>"

section \<open>Fields\<close>

definition nm :: "string \<Rightarrow> bytes option" where
  "nm s = Some (ascii s)"

definition cfg_bool_field :: "'w runtime \<Rightarrow> string \<Rightarrow> fid \<Rightarrow> cfg_bool \<Rightarrow> 'w provisioner \<Rightarrow> 'w provisioner" where
  "cfg_bool_field T name k c p =
     field_bool (nm name) k FF_REBOOT_REQUIRED (rt_get_bool T c (pv_world p))
       (Some (\<lambda>v w. (Inr True, rt_set_bool T c (as_bool v) w))) (Some (rt_get_bool T c)) p"

text \<open>The setter casts to 16 bits.\<close>

definition cfg_int_field :: "'w runtime \<Rightarrow> string \<Rightarrow> fid \<Rightarrow> cfg_int \<Rightarrow> int \<Rightarrow> int \<Rightarrow> 'w provisioner \<Rightarrow> 'w provisioner" where
  "cfg_int_field T name k c imin imax p =
     field_int_range (nm name) k FF_LIVE_APPLY (uint (rt_get_int T c (pv_world p))) imin imax
       (Some (\<lambda>v w. (Inr True, rt_set_int T c (word_of_int (as_int v)) w))) (Some (\<lambda>w. uint (rt_get_int T c w))) p"

definition identity_field :: "'w runtime \<Rightarrow> 'w provisioner \<Rightarrow> 'w provisioner" where
  "identity_field T =
     field_bytes (nm ''Transport Identity'') 9 (FF_REBOOT_REQUIRED OR FF_SECRET) [] 64
       (Some (\<lambda>v w. if length (as_bytes v) = 0 then (Inr True, w)
                    else (Inr True, rt_set_identity_prv T (as_bytes v) w)))
       (Some (\<lambda>w. case rt_get_identity_prv T w of None \<Rightarrow> [] | Some k \<Rightarrow> k))"

definition allowed_field :: "'w runtime \<Rightarrow> 'w provisioner \<Rightarrow> 'w provisioner" where
  "allowed_field T =
     field_bytes_list (nm ''Remote Management Allowed'') 8 FF_REBOOT_REQUIRED [] 16 32
       (Some (\<lambda>v w. (Inr True, rt_set_allowed T (bytes_set (as_bytes_list v)) w))) (Some (rt_get_allowed T))"

definition count_field :: "'w runtime \<Rightarrow> string \<Rightarrow> fid \<Rightarrow> string \<Rightarrow> 'w provisioner \<Rightarrow> 'w provisioner" where
  "count_field T name k c = metric_int (nm name) k (Some (rt_count T c))"

definition hash_field :: "'w runtime \<Rightarrow> string \<Rightarrow> fid \<Rightarrow> string \<Rightarrow> 'w provisioner \<Rightarrow> 'w provisioner" where
  "hash_field T name k c = metric_bytes (nm name) k (Some (\<lambda>w. case rt_hash T c w of None \<Rightarrow> [] | Some h \<Rightarrow> h))"

section \<open>Namespaces\<close>

text \<open>A chain of builder calls; opening a namespace may fail to return, a field never does.\<close>

type_synonym 'w step = "'w provisioner \<Rightarrow> 'w provisioner option"

definition opens :: "string \<Rightarrow> nid \<Rightarrow> 'w step" where
  "opens name k = register_namespace (nm name) k"

definition adds :: "('w provisioner \<Rightarrow> 'w provisioner) \<Rightarrow> 'w step" where
  "adds f p = Some (f p)"

fun chain :: "'w step list \<Rightarrow> 'w step" where
  "chain [] p = Some p"
| "chain (f # fs) p = (case f p of None \<Rightarrow> None | Some p1 \<Rightarrow> chain fs p1)"

text \<open>\<open>if (!p.registry().find(id))\<close> around the calls for one namespace.\<close>

definition unless_registered :: "nid \<Rightarrow> 'w step list \<Rightarrow> 'w step" where
  "unless_registered k fs p = (if find_ns k (pv_registry p) = None then chain fs p else Some p)"

definition general_config :: "'w runtime \<Rightarrow> 'w step" where
  "general_config T = unless_registered 1
     [opens ''uReticulum General Config'' 1,
      adds (cfg_bool_field T ''Transport Enabled'' 1 Transport_enabled),
      adds (cfg_bool_field T ''Link MTU Discovery Enabled'' 2 Link_mtu_discovery),
      adds (cfg_bool_field T ''Remote Management Enabled'' 3 Remote_management_enabled),
      adds (cfg_bool_field T ''Probe Destination Enabled'' 4 Probe_destination_enabled),
      adds (cfg_int_field T ''Persist Interval'' 6 Persist_interval 30 86400),
      adds (cfg_int_field T ''Clean Interval'' 7 Clean_interval 60 86400),
      adds (identity_field T), adds (allowed_field T),
      adds (command_void (nm ''Clear Provisioning'') 100
        (Some (\<lambda>w. case rt_clear_provisioning T w of (ok, w') \<Rightarrow> (Inr ok, w')))),
      adds end_scope]"

definition transport_config :: "'w runtime \<Rightarrow> 'w step" where
  "transport_config T = unless_registered 2
     [opens ''uReticulum Transport Config'' 2,
      adds (cfg_int_field T ''Path Table Max Size'' 1 Path_table_maxsize 1 65535),
      adds (cfg_int_field T ''Announce Table Max Size'' 2 Announce_table_maxsize 1 65535),
      adds (cfg_int_field T ''Hashlist Max Size'' 3 Hashlist_maxsize 1 65535),
      adds (cfg_int_field T ''Max PR Tags'' 4 Max_pr_tags 1 65535),
      adds (cfg_int_field T ''Known Destinations Max Size'' 6 Known_destinations_maxsize 1 65535),
      adds (command_void (nm ''Clear Storage'') 100 (Some (\<lambda>w. (Inr True, rt_clear_storage T w)))),
      adds end_scope]"

definition storage_metrics :: "'w runtime \<Rightarrow> 'w step" where
  "storage_metrics T = unless_registered 59
     ([opens ''uReticulum Storage'' 59] @
      map (\<lambda>(name, k, c). adds (count_field T name k c))
        [(''Paths'', 1, ''new_path_table''), (''Known Destinations'', 18, ''known_destinations''),
         (''Packet Hashes'', 11, ''packet_hashlist''), (''Destinations'', 2, ''destinations''),
         (''Announces'', 3, ''announce_table''), (''Held Announces'', 4, ''held_announces''),
         (''Path Requests'', 5, ''path_requests''), (''Discovery Path Requests'', 6, ''discovery_path_requests''),
         (''Pending Local Path Requests'', 7, ''pending_local_path_requests''),
         (''Discovery PR Tags'', 8, ''discovery_pr_tags''), (''Control Destinations'', 9, ''control_destinations''),
         (''Control Hashes'', 10, ''control_hashes''), (''Reverse Hashes'', 12, ''reverse_table''),
         (''Receipts'', 13, ''receipts''), (''Links'', 14, ''link_table''), (''Pending Links'', 15, ''pending_links''),
         (''Active Links'', 16, ''active_links''), (''Tunnels'', 17, ''tunnels'')] @
      [adds (metric_int (nm ''Destination Path Responses'') 19
        (Some (\<lambda>w. int (sum_list (rt_path_responses T w)) mod 2 ^ 32))),
       adds (metric_int (nm ''Queued Announces'') 20 (Some (\<lambda>w. int (sum_list (rt_announce_queues T w)) mod 2 ^ 32))),
       adds end_scope])"

text \<open>The getters of the two fields on responsive paths are the wrong way round in the source.\<close>

definition info_metrics :: "'w runtime \<Rightarrow> 'w step" where
  "info_metrics T = unless_registered 60
     ([opens ''uReticulum Info'' 60, opens ''Addresses'' 61,
       adds (hash_field T ''Transport Identity'' 1 ''identity''),
       adds (hash_field T ''Probe Destination'' 2 ''probe_destination''),
       adds (hash_field T ''Mgmt Destination'' 3 ''remote_management_destination''),
       adds end_scope, opens ''Metrics'' 62] @
      map (\<lambda>(name, k, c). adds (count_field T name k c))
        ([(''Packets Sent'', 1, ''packets_sent''), (''Packets Received'', 2, ''packets_received''),
          (''Announces Received'', 4, ''announces_received''),
          (''Path Requests Received'', 6, ''path_requests_received''), (''Paths Added'', 7, ''paths_added''),
          (''Paths Updated'', 8, ''paths_updated''), (''Paths Failed'', 9, ''paths_failed''),
          (''Paths Unresponsive'', 10, ''paths_responsive''), (''Paths Responsive'', 11, ''paths_unresponsive''),
          (''Paths Unknown'', 12, ''paths_unknown'')] @
         (if rt_neighbor_probing T
          then [(''Probes Received'', 13, ''probes_received''), (''Probes Sent'', 14, ''probes_sent''),
                (''Probes Skipped'', 15, ''probes_skipped''), (''Probes Failed'', 16, ''probes_failed'')]
          else [])) @
      [adds end_scope, adds end_scope])"

definition memory_metrics :: "'w runtime \<Rightarrow> 'w step" where
  "memory_metrics T = unless_registered 50
     [opens ''uReticulum Memory'' 50, opens ''Heap'' 51,
      adds (count_field T ''Size'' 1 ''heap_size''), adds (count_field T ''Free'' 2 ''heap_available''),
      adds (metric_int (nm ''Free (%)'') 3
        (Some (\<lambda>w. percent (rt_count T ''heap_available'' w) (rt_count T ''heap_size'' w) mod 2 ^ 32))),
      adds end_scope, opens ''Flash'' 53,
      adds (count_field T ''Size'' 1 ''storage_size''), adds (count_field T ''Free'' 2 ''storage_available''),
      adds (metric_int (nm ''Free (%)'') 3
        (Some (\<lambda>w. if rt_count T ''storage_size'' w > 0
                    then percent (rt_count T ''storage_available'' w) (rt_count T ''storage_size'' w) mod 2 ^ 8 else 0))),
      adds end_scope, adds end_scope]"

definition pool_metrics :: "'w runtime \<Rightarrow> string \<Rightarrow> nid \<Rightarrow> string \<Rightarrow> string \<Rightarrow> 'w step list" where
  "pool_metrics T name k whole free =
     [opens name k,
      adds (count_field T ''Size'' 1 whole), adds (count_field T ''Free'' 2 free),
      adds (metric_int (nm ''Free (%)'') 3 (Some (\<lambda>w. percent (rt_count T free w) (rt_count T whole w) mod 2 ^ 8))),
      adds (count_field T ''Fragmented (%)'' 4 ''heap_pool_fragmented''),
      adds end_scope]"

definition allocator_metrics :: "'w runtime \<Rightarrow> 'w step" where
  "allocator_metrics T p = unless_registered 54
     ([opens ''uReticulum Allocator'' 54] @
      (if rt_heap_pool T (pv_world p) then pool_metrics T ''Heap Pool'' 55 ''heap_pool_size'' ''heap_pool_free'' else []) @
      (if rt_psram_pool T (pv_world p) then pool_metrics T ''PSRAM Pool'' 56 ''psram_pool_size'' ''psram_pool_free''
       else []) @
      [opens ''Default Allocator'' 57,
       adds (metric_int (nm ''Active'') 1
         (Some (\<lambda>w. rt_count T ''default_allocator_alloc'' w - rt_count T ''default_allocator_free'' w))),
       adds end_scope, opens ''Container Allocator'' 58,
       adds (metric_int (nm ''Active'') 1
         (Some (\<lambda>w. rt_count T ''container_allocator_alloc'' w - rt_count T ''container_allocator_free'' w))),
       adds end_scope, adds end_scope]) p"

definition register_builtin_namespaces :: "'w runtime \<Rightarrow> 'w step" where
  "register_builtin_namespaces T =
     chain [general_config T, transport_config T, storage_metrics T, info_metrics T, memory_metrics T, allocator_metrics T]"

section \<open>Registration keeps the invariant and returns\<close>

definition sound_step :: "'w step \<Rightarrow> bool" where
  "sound_step f \<longleftrightarrow> (\<forall>p. pv_ok p \<longrightarrow> (\<exists>p'. f p = Some p' \<and> pv_ok p'))"

lemma sound_opens: "sound_step (opens name k)"
  unfolding sound_step_def opens_def
proof (intro allI impI)
  fix p :: "'a provisioner" assume ok: "pv_ok p"
  then obtain p' where "register_namespace (nm name) k p = Some p'" using register_returns by blast
  with ok show "\<exists>p'. register_namespace (nm name) k p = Some p' \<and> pv_ok p'" by (blast intro: pv_ok_register)
qed

lemma sound_adds: "(\<And>p. pv_ok p \<Longrightarrow> pv_ok (f p)) \<Longrightarrow> sound_step (adds f)"
  by (simp add: sound_step_def adds_def)

lemma sound_chain: "list_all sound_step fs \<Longrightarrow> sound_step (chain fs)"
proof (induction fs)
  case (Cons f fs)
  then have f: "sound_step f" and fs: "sound_step (chain fs)" by simp_all
  show ?case
    unfolding sound_step_def
  proof (intro allI impI)
    fix p :: "'a provisioner" assume "pv_ok p"
    then obtain p1 where "f p = Some p1" "pv_ok p1" using f unfolding sound_step_def by blast
    then show "\<exists>p'. chain (f # fs) p = Some p' \<and> pv_ok p'" using fs unfolding sound_step_def by simp
  qed
qed (simp add: sound_step_def)

lemma sound_unless: "list_all sound_step fs \<Longrightarrow> sound_step (unless_registered k fs)"
  using sound_chain [of fs] by (simp add: sound_step_def unless_registered_def)

lemma sound_unless_at: "list_all sound_step fs \<Longrightarrow> pv_ok p \<Longrightarrow> \<exists>p'. unless_registered k fs p = Some p' \<and> pv_ok p'"
  using sound_unless unfolding sound_step_def by blast

lemma sound_fields:
  "sound_step (adds (cfg_bool_field T name k c))" "sound_step (adds (cfg_int_field T name k d imin imax))"
  "sound_step (adds (identity_field T))" "sound_step (adds (allowed_field T))"
  "sound_step (adds (count_field T name k e))" "sound_step (adds (hash_field T name k e))"
  "sound_step (adds (metric_int n k g))" "sound_step (adds (command_void n k s))" "sound_step (adds end_scope)"
  by (simp_all add: sound_adds inv_intros cfg_bool_field_def cfg_int_field_def identity_field_def allowed_field_def
      count_field_def hash_field_def metric_int_def metric_bytes_def)

lemma sound_counts: "list_all sound_step (map (\<lambda>(name, k, c). adds (count_field T name k c)) l)"
  by (simp add: list.pred_map list_all_iff sound_fields split_beta)

lemma sound_pool: "list_all sound_step (pool_metrics T name k whole free)"
  by (simp add: pool_metrics_def sound_fields sound_opens)

lemma sound_configs: "sound_step (general_config T)" "sound_step (transport_config T)" "sound_step (memory_metrics T)"
  unfolding general_config_def transport_config_def memory_metrics_def
  by (intro sound_unless, simp add: sound_fields sound_opens)+

lemma sound_builtins: "sound_step (register_builtin_namespaces T)"
  unfolding register_builtin_namespaces_def
proof (intro sound_chain)
  note sound_configs [of T]
  moreover have "sound_step (storage_metrics T)" "sound_step (info_metrics T)"
    unfolding storage_metrics_def info_metrics_def list.map
    by (intro sound_unless, simp only: list_all_append sound_counts, simp add: sound_fields sound_opens)+
  moreover have "sound_step (allocator_metrics T)"
    unfolding sound_step_def allocator_metrics_def
    by (intro allI impI, rule sound_unless_at) (simp_all add: sound_fields sound_opens sound_pool)
  ultimately show "list_all sound_step [general_config T, transport_config T, storage_metrics T, info_metrics T,
      memory_metrics T, allocator_metrics T]" by simp
qed

lemma pv_ok_builtins: "pv_ok p \<Longrightarrow> register_builtin_namespaces T p = Some p' \<Longrightarrow> pv_ok p'"
  using sound_builtins [of T] unfolding sound_step_def by fastforce

lemma builtins_return: "pv_ok p \<Longrightarrow> \<exists>p'. register_builtin_namespaces T p = Some p'"
  using sound_builtins [of T] unfolding sound_step_def by blast

end
