(* ===== verification/Crc.thy ===== *)
theory Crc
  imports Prelude
begin

text \<open>
  The checksum of \<open>Utilities/Crc.cpp\<close>: CRC-32 with the reflected polynomial \<open>0xEDB88320\<close>, bit by bit.
  The pointer of the source may be null, which is \<open>None\<close> here.
\<close>

unbundle bit_operations_syntax

definition crc_bit :: "32 word \<Rightarrow> 32 word" where
  "crc_bit c = (if c AND 1 \<noteq> 0 then drop_bit 1 c XOR 0xEDB88320 else drop_bit 1 c)"

definition crc_octet :: "byte \<Rightarrow> 32 word \<Rightarrow> 32 word" where
  "crc_octet b c = (crc_bit ^^ 8) (c XOR ucast b)"

definition crc32 :: "32 word \<Rightarrow> bytes option \<Rightarrow> 32 word" where
  "crc32 crc buf =
     (case buf of
        None \<Rightarrow> 0
      | Some dat \<Rightarrow> fold crc_octet dat (crc XOR 0xFFFFFFFF) XOR 0xFFFFFFFF)"

section \<open>One bit and one octet are injective\<close>

lemma xor_cancel: "(a XOR k = b XOR k) = (a = b)" for a b k :: "'a::len word"
  by (metis xor.assoc xor.right_neutral xor_self_eq)

lemma crc_bit_eq: "crc_bit c = (if bit c 0 then drop_bit 1 c XOR 0xEDB88320 else drop_bit 1 c)"
  by (simp add: crc_bit_def and_one_eq bit_0 odd_iff_mod_2_eq_one)

lemma crc_bit_top: "bit (crc_bit c) 31 \<longleftrightarrow> bit c 0"
proof -
  have "bit (0xEDB88320 :: 32 word) 31" by simp
  moreover have "\<not> bit (drop_bit 1 c) 31" using bit_imp_le_length [of c 32] by (auto simp: bit_drop_bit_eq)
  ultimately show ?thesis unfolding crc_bit_eq by (auto simp: bit_xor_iff)
qed

lemma crc_bit_inj: "inj crc_bit"
proof (rule injI)
  fix c d assume e: "crc_bit c = crc_bit d"
  then have low: "bit c 0 \<longleftrightarrow> bit d 0" using crc_bit_top [of c] crc_bit_top [of d] by simp
  then have "drop_bit 1 c = drop_bit 1 d"
    using e unfolding crc_bit_eq by (cases "bit c 0") (simp_all only: if_True if_False xor_cancel)
  then have "bit c (Suc n) = bit d (Suc n)" for n by (metis bit_drop_bit_eq comp_apply plus_1_eq_Suc)
  with low show "c = d" by (intro bit_eqI) (metis not0_implies_Suc)
qed

lemma crc_bits_inj: "((crc_bit ^^ n) c = (crc_bit ^^ n) d) = (c = d)"
  by (rule inj_eq [OF inj_fn [OF crc_bit_inj]])

lemma crc_octet_same: "(crc_octet b c = crc_octet b d) = (c = d)"
  unfolding crc_octet_def crc_bits_inj xor_cancel ..

lemma crc_octet_differs: "(crc_octet x c = crc_octet y c) = (x = y)"
proof -
  have "(ucast x = (ucast y :: 32 word)) = (x = y)"
    using unat_byte_lt [of x] unat_byte_lt [of y]
    by (simp add: word_unat_eq_iff unsigned_ucast_eq take_bit_nat_eq_self less_trans [of _ 256] del: unat_byte_lt)
  then show ?thesis
    unfolding crc_octet_def crc_bits_inj xor.commute [of c] xor_cancel .
qed

lemma crc_octets_same: "(fold crc_octet dat c = fold crc_octet dat d) = (c = d)"
  by (induction dat arbitrary: c d) (simp_all add: crc_octet_same)

section \<open>Properties\<close>

text \<open>A checksum may be computed piece by piece.\<close>

lemma crc32_append: "crc32 (crc32 c (Some a)) (Some b) = crc32 c (Some (a @ b))"
  by (simp add: crc32_def xor.assoc)

lemma crc32_nothing: "crc32 0 (Some []) = 0" "crc32 c None = 0"
  by (simp_all add: crc32_def)

text \<open>
  One changed octet always changes the checksum, wherever it is and whatever stands around it.
\<close>

lemma crc32_detects_octet:
  "crc32 c (Some (pre @ x # post)) = crc32 c (Some (pre @ y # post)) \<longleftrightarrow> x = y"
  by (simp add: crc32_def xor_cancel crc_octets_same crc_octet_differs)

end
