(* ===== verification/Provisioner.thy ===== *)
theory Provisioner
  imports Provision_Builtin Crc
begin

text \<open>
  The class \<open>Provisioner\<close> without its wire interface (\<open>Provisioning/Provisioning.cpp\<close>): the schema and its
  checksums, start and end, direct access to fields, commit, discard and factory reset.  \<open>penv\<close> holds what
  stays fixed: the MessagePack library, the file system, the compressor, the build option \<open>RNS_USE_FS\<close> and
  the rest of the program that the built-in namespaces read and write.
\<close>

record 'w penv =
  pe_msgpack :: msgpack
  pe_fs :: "'w fsys"
  pe_compress :: "bytes \<Rightarrow> bytes"
  pe_use_fs :: bool
  pe_runtime :: "'w runtime"

section \<open>The schema\<close>

definition key :: "nat \<Rightarrow> mp_item" where
  "key n = MP_uint n"

definition type_code :: "vtype \<Rightarrow> nat" where
  "type_code t =
     (case t of None_t \<Rightarrow> 0 | Bool_t \<Rightarrow> 1 | Int_t \<Rightarrow> 2 | Float_t \<Rightarrow> 3 | String_t \<Rightarrow> 4 | Bytes_t \<Rightarrow> 5 | Enum_t \<Rightarrow> 6
      | BytesList_t \<Rightarrow> 7 | Void_t \<Rightarrow> 8)"

definition pack_field_default :: "'w pfield \<Rightarrow> mp_item list" where
  "pack_field_default f =
     (let d = f_default f
      in case f_type f of
           None_t \<Rightarrow> [MP_nil]
         | Bool_t \<Rightarrow> [MP_bool (as_bool d)]
         | Int_t \<Rightarrow> [mp_signed (as_int d)]
         | Enum_t \<Rightarrow> [mp_signed (as_int d)]
         | Float_t \<Rightarrow> [MP_float64 (as_float d)]
         | String_t \<Rightarrow> [MP_str (c_str (as_string d))]
         | Bytes_t \<Rightarrow> [MP_bin (as_bytes d)]
         | BytesList_t \<Rightarrow> pack_bins (as_bytes_list d)
         | Void_t \<Rightarrow> [MP_nil])"

definition schema_field_entries :: "'w pfield \<Rightarrow> nat" where
  "schema_field_entries f =
     (let c = f_constraint f; t = f_type f
      in 5 + (if t = Int_t \<and> c_has_range c then 2 else 0)
           + (if t = Float_t \<and> c_has_range c then 2 else 0)
           + (if (t = String_t \<or> t = Bytes_t) \<and> c_max_len c > 0 then 1 else 0)
           + (if t = Enum_t then (if c_enum_values c \<noteq> [] then 1 else 0) + (if c_enum_labels c \<noteq> [] then 1 else 0) else 0)
           + (if t = BytesList_t then (if c_element_size c > 0 then 1 else 0) + (if c_max_count c > 0 then 1 else 0)
              else 0))"

definition pack_field_schema :: "'w pfield \<Rightarrow> mp_item list" where
  "pack_field_schema f =
     (let c = f_constraint f; t = f_type f
      in [MP_map (schema_field_entries f), key 1, MP_uint (unat (f_id f)), key 2, MP_str (c_str (f_name f)),
          key 3, MP_uint (type_code t), key 4, MP_uint (unat (f_flags f)), key 12] @ pack_field_default f @
         (if t = Int_t \<and> c_has_range c then [key 5, mp_signed (c_imin c), key 6, mp_signed (c_imax c)] else []) @
         (if t = Float_t \<and> c_has_range c then [key 7, MP_float64 (c_fmin c), key 8, MP_float64 (c_fmax c)] else []) @
         (if (t = String_t \<or> t = Bytes_t) \<and> c_max_len c > 0 then [key 9, MP_uint (c_max_len c)] else []) @
         (if t = Enum_t \<and> c_enum_values c \<noteq> []
          then [key 10, MP_array (length (c_enum_values c))] @ map mp_signed (c_enum_values c) else []) @
         (if t = Enum_t \<and> c_enum_labels c \<noteq> []
          then [key 11, MP_array (length (c_enum_labels c))] @ map (MP_str \<circ> c_str) (c_enum_labels c) else []) @
         (if t = BytesList_t \<and> c_element_size c > 0 then [key 13, MP_uint (c_element_size c)] else []) @
         (if t = BytesList_t \<and> c_max_count c > 0 then [key 14, MP_uint (c_max_count c)] else []))"

definition pack_namespace_schema :: "'w namespace \<Rightarrow> mp_item list" where
  "pack_namespace_schema ns =
     [MP_array 4, MP_uint (unat (ns_id ns)), MP_str (c_str (ns_name ns)), MP_uint (unat (ns_parent ns)),
      MP_array (length (ns_fields ns))] @ concat (map pack_field_schema (ns_fields ns))"

definition pack_schemas :: "'w namespace list \<Rightarrow> mp_item list" where
  "pack_schemas nss = MP_array (length nss) # concat (map pack_namespace_schema nss)"

definition pack_schema_payload :: "'w registry \<Rightarrow> mp_item list" where
  "pack_schema_payload R = pack_schemas (rg_namespaces R)"

section \<open>Start and end\<close>

definition apply_field :: "'w namespace \<Rightarrow> 'w pfield \<Rightarrow> 'w \<Rightarrow> 'w" where
  "apply_field ns f w =
     (if has_flag f FF_READ_ONLY then w
      else if has_flag f FF_WRITE_ONLY then w
      else case f_setter f of
        None \<Rightarrow> w
      | Some s \<Rightarrow>
          let v = working (f_id f) ns; runtime_v = (case f_getter f of Some g \<Rightarrow> g w | None \<Rightarrow> f_default f)
          in if is_none v then w else if same_value v runtime_v then w else snd (s v w))"

definition apply_loaded_to_runtime :: "'w provisioner \<Rightarrow> 'w provisioner" where
  "apply_loaded_to_runtime p =
     p\<lparr>pv_world := fold (\<lambda>ns. fold (apply_field ns) (ns_fields ns)) (pv_namespaces p) (pv_world p)\<rparr>"

definition set_hashes :: "msgpack \<Rightarrow> 'w provisioner \<Rightarrow> 'w provisioner" where
  "set_hashes M p =
     (let R = pv_registry p;
          R' = R\<lparr>rg_namespaces :=
                 map (\<lambda>ns. ns\<lparr>ns_schema_hash := crc32 0 (Some (mp_pack M (pack_namespace_schema ns)))\<rparr>) (rg_namespaces R)\<rparr>
      in p\<lparr>pv_registry := R', pv_schema_hash := crc32 0 (Some (mp_pack M (pack_schema_payload R')))\<rparr>)"

definition mount_storage :: "'w penv \<Rightarrow> bytes option \<Rightarrow> 'w provisioner \<Rightarrow> 'w provisioner" where
  "mount_storage E rootdir p =
     (if \<not> pe_use_fs E then p
      else let dir = (case rootdir of None \<Rightarrow> ascii ''./config'' | Some d \<Rightarrow> d)
           in case load_all (pe_msgpack E) (pe_fs E) dir (pv_registry p) (pv_world p) of
                (_, R, w) \<Rightarrow> apply_loaded_to_runtime (p\<lparr>pv_storage := Some dir, pv_registry := R, pv_world := w\<rparr>))"

definition begin_provisioning :: "'w penv \<Rightarrow> bytes option \<Rightarrow> 'w provisioner \<Rightarrow> 'w provisioner option" where
  "begin_provisioning E rootdir p =
     (if pv_started p then Some p
      else case register_builtin_namespaces (pe_runtime E) p of
        None \<Rightarrow> None
      | Some p1 \<Rightarrow>
          let p2 = mount_storage E rootdir (p1\<lparr>pv_scope := []\<rparr>)
          in Some ((set_hashes (pe_msgpack E) (p2\<lparr>pv_needs_reboot := False\<rparr>))\<lparr>pv_started := True\<rparr>))"

definition end_provisioning :: "'w provisioner \<Rightarrow> 'w provisioner" where
  "end_provisioning p =
     p\<lparr>pv_storage := None, pv_registry := empty_registry, pv_scope := [], pv_needs_reboot := False,
       pv_started := False, pv_on_reboot_required := None, pv_on_reboot := None, pv_on_factory_reset := None\<rparr>"

section \<open>Direct access\<close>

datatype source = Working | Draft | Effective

definition field_of :: "nid \<Rightarrow> fid \<Rightarrow> source \<Rightarrow> 'w provisioner \<Rightarrow> pvalue" where
  "field_of n k src p =
     (case find_ns n (pv_registry p) of
        None \<Rightarrow> None_v
      | Some i \<Rightarrow>
          let ns = pv_namespaces p ! i
          in case src of
               Working \<Rightarrow> effective (pv_world p) k ns
             | Draft \<Rightarrow> (case draft k ns of Some v \<Rightarrow> v | None \<Rightarrow> None_v)
             | Effective \<Rightarrow> (case draft k ns of Some v \<Rightarrow> v | None \<Rightarrow> effective (pv_world p) k ns))"

definition set_field :: "nid \<Rightarrow> fid \<Rightarrow> pvalue \<Rightarrow> 'w provisioner \<Rightarrow> bool \<times> 'w provisioner" where
  "set_field n k v p =
     (case find_ns n (pv_registry p) of
        None \<Rightarrow> (False, p)
      | Some i \<Rightarrow>
          (case set_draft (pv_world p) k v (pv_namespaces p ! i) of
             (ok, ns) \<Rightarrow> (ok, put_ns i ns (pv_world p) p)))"

definition field_named :: "bytes option \<Rightarrow> bytes option \<Rightarrow> source \<Rightarrow> 'w provisioner \<Rightarrow> pvalue" where
  "field_named nsn fldn src p =
     (case find_ns_named nsn (pv_registry p) of
        None \<Rightarrow> None_v
      | Some i \<Rightarrow>
          (case find_field_named fldn (pv_namespaces p ! i) of
             None \<Rightarrow> None_v
           | Some f \<Rightarrow> field_of (ns_id (pv_namespaces p ! i)) (f_id f) src p))"

definition set_field_named :: "bytes option \<Rightarrow> bytes option \<Rightarrow> pvalue \<Rightarrow> 'w provisioner \<Rightarrow> bool \<times> 'w provisioner" where
  "set_field_named nsn fldn v p =
     (case find_ns_named nsn (pv_registry p) of
        None \<Rightarrow> (False, p)
      | Some i \<Rightarrow>
          (case find_field_named fldn (pv_namespaces p ! i) of
             None \<Rightarrow> (False, p)
           | Some f \<Rightarrow>
               (case set_draft (pv_world p) (f_id f) v (pv_namespaces p ! i) of
                  (ok, ns) \<Rightarrow> (ok, put_ns i ns (pv_world p) p))))"

definition set_reboot_flag :: "bool \<Rightarrow> 'w provisioner \<Rightarrow> 'w provisioner" where
  "set_reboot_flag applied p =
     (let was = pv_needs_reboot p;
          p1 = (if applied then p\<lparr>pv_needs_reboot := True\<rparr> else p)
      in if \<not> was \<and> pv_needs_reboot p1
         then (case pv_on_reboot_required p1 of None \<Rightarrow> p1 | Some h \<Rightarrow> p1\<lparr>pv_world := h (pv_world p1)\<rparr>)
         else p1)"

definition save_ns :: "'w penv \<Rightarrow> nat \<Rightarrow> 'w provisioner \<Rightarrow> bool \<times> 'w provisioner" where
  "save_ns E i p =
     (case pv_storage p of
        None \<Rightarrow> (True, p)
      | Some dir \<Rightarrow>
          (case save_namespace (pe_msgpack E) (pe_fs E) dir (pv_namespaces p ! i) (pv_world p) of
             (ok, ns, w) \<Rightarrow> (ok, put_ns i ns w p)))"

text \<open>The local function of \<open>commit\<close>; an exception of a setter leaves the namespace as far as it has come.\<close>

definition commit_do_one :: "'w penv \<Rightarrow> nat \<Rightarrow> 'w provisioner \<Rightarrow> bool result \<times> 'w provisioner" where
  "commit_do_one E i p =
     (case commit_namespace (pv_namespaces p ! i) (pv_world p) of
        (Inl e, ns, w) \<Rightarrow> (Inl e, put_ns i ns w p)
      | (Inr os, ns, w) \<Rightarrow>
          (case save_ns E i (put_ns i ns w p) of
             (ok, p2) \<Rightarrow> (Inr ok, if Applied_reboot \<in> set os then set_reboot_flag True p2 else p2)))"

fun commit_list :: "'w penv \<Rightarrow> bool \<Rightarrow> nat list \<Rightarrow> 'w provisioner \<Rightarrow> bool result \<times> 'w provisioner" where
  "commit_list E ok [] p = (Inr ok, p)"
| "commit_list E ok (i # is) p =
     (case commit_do_one E i p of
        (Inl e, p1) \<Rightarrow> (Inl e, p1)
      | (Inr r, p1) \<Rightarrow> commit_list E (r \<and> ok) is p1)"

definition commit :: "'w penv \<Rightarrow> nid \<Rightarrow> 'w provisioner \<Rightarrow> bool result \<times> 'w provisioner" where
  "commit E n p =
     (if n = 0 then commit_list E True [0..<length (pv_namespaces p)] p
      else case find_ns n (pv_registry p) of
        None \<Rightarrow> (Inr False, p)
      | Some i \<Rightarrow> commit_do_one E i p)"

definition discard :: "nid \<Rightarrow> 'w provisioner \<Rightarrow> bool \<times> 'w provisioner" where
  "discard n p =
     (if n = 0 then
        (True, p\<lparr>pv_registry := (pv_registry p)\<lparr>rg_namespaces := map clear_drafts (pv_namespaces p)\<rparr>\<rparr>)
      else case find_ns n (pv_registry p) of
        None \<Rightarrow> (False, p)
      | Some i \<Rightarrow> (True, put_ns i (clear_drafts (pv_namespaces p ! i)) (pv_world p) p))"

definition commit_named :: "'w penv \<Rightarrow> bytes option \<Rightarrow> 'w provisioner \<Rightarrow> bool result \<times> 'w provisioner" where
  "commit_named E name p =
     (case find_ns_named name (pv_registry p) of
        None \<Rightarrow> (Inr False, p)
      | Some i \<Rightarrow> commit E (ns_id (pv_namespaces p ! i)) p)"

definition discard_named :: "bytes option \<Rightarrow> 'w provisioner \<Rightarrow> bool \<times> 'w provisioner" where
  "discard_named name p =
     (case find_ns_named name (pv_registry p) of
        None \<Rightarrow> (False, p)
      | Some i \<Rightarrow> discard (ns_id (pv_namespaces p ! i)) p)"

definition reset_field :: "'w pfield \<Rightarrow> 'w namespace \<times> 'w \<Rightarrow> 'w namespace \<times> 'w" where
  "reset_field f = (\<lambda>(ns, w).
     (put_working (f_id f) (f_default f) ns,
      if \<not> has_flag f FF_READ_ONLY \<and> \<not> has_flag f FF_WRITE_ONLY \<and> \<not> is_none (f_default f)
      then (case f_setter f of Some s \<Rightarrow> snd (s (f_default f) w) | None \<Rightarrow> w) else w))"

definition reset_namespace :: "'w namespace \<Rightarrow> 'w \<Rightarrow> 'w namespace \<times> 'w" where
  "reset_namespace ns w =
     (case fold reset_field (ns_fields ns) (clear_drafts ns, w) of (ns', w') \<Rightarrow> (mark_clean ns', w'))"

fun reset_list :: "'w namespace list \<Rightarrow> 'w \<Rightarrow> 'w namespace list \<times> 'w" where
  "reset_list [] w = ([], w)"
| "reset_list (ns # nss) w =
     (case reset_namespace ns w of (ns', w1) \<Rightarrow> case reset_list nss w1 of (nss', w2) \<Rightarrow> (ns' # nss', w2))"

definition clear_storage :: "'w penv \<Rightarrow> 'w provisioner \<Rightarrow> bool \<times> 'w provisioner" where
  "clear_storage E p =
     (case pv_storage p of
        None \<Rightarrow> (True, p)
      | Some dir \<Rightarrow>
          (case storage_factory_reset (pe_fs E) dir True (pv_namespaces p) (pv_world p) of
             (ok, w) \<Rightarrow> (ok, p\<lparr>pv_world := w\<rparr>)))"

definition factory_reset :: "'w penv \<Rightarrow> 'w provisioner \<Rightarrow> bool \<times> 'w provisioner" where
  "factory_reset E p =
     (case reset_list (pv_namespaces p) (pv_world p) of
        (nss, w) \<Rightarrow>
          case clear_storage E (p\<lparr>pv_registry := (pv_registry p)\<lparr>rg_namespaces := nss\<rparr>, pv_world := w\<rparr>) of
            (ok, p1) \<Rightarrow>
              let p2 = p1\<lparr>pv_needs_reboot := False\<rparr>
              in (ok, case pv_on_factory_reset p2 of None \<Rightarrow> p2 | Some h \<Rightarrow> p2\<lparr>pv_world := h (pv_world p2)\<rparr>))"

definition any_draft_reboot :: "'w provisioner \<Rightarrow> bool" where
  "any_draft_reboot p = list_ex draft_has_reboot (pv_namespaces p)"

section \<open>The invariant\<close>

lemma pv_ok_apply [inv_intros]: "pv_ok p \<Longrightarrow> pv_ok (apply_loaded_to_runtime p)"
  by (simp add: apply_loaded_to_runtime_def)

lemma pv_ok_set_hashes [inv_intros]: "pv_ok p \<Longrightarrow> pv_ok (set_hashes M p)"
  by (rule pv_ok_values) (auto simp: set_hashes_def Let_def list_all2_conv_all_nth)

lemma load_namespace_keeps: "load_namespace M F dir ns w = (ok, ns', w') \<Longrightarrow> keeps ns ns'"
  by (auto simp: load_namespace_def unpack_namespace_working_def Let_def
      intro: ns_keeps_trans [OF keeps_simps(6) keeps_simps(3)] split: if_splits prod.splits bool.splits sum.splits)

lemma load_list_keeps: "load_list M F dir nss w = (n, nss', w') \<Longrightarrow> list_all2 keeps nss nss'"
  by (induction nss arbitrary: n nss' w w') (auto split: prod.splits dest: load_namespace_keeps)

lemma pv_ok_mount [inv_intros]:
  assumes "pv_ok p"
  shows "pv_ok (mount_storage E rootdir p)"
proof -
  have "pv_ok (p\<lparr>pv_storage := s, pv_registry := R, pv_world := w\<rparr>)"
    if l: "load_all M F dir (pv_registry p) (pv_world p) = (n, R, w)" for M F dir n R w s
  proof (cases "fst (ensure_directory F dir (pv_world p))")
    case True
    then obtain nss where "R = (pv_registry p)\<lparr>rg_namespaces := nss\<rparr>" "list_all2 keeps (pv_namespaces p) nss"
      using l by (auto simp: load_all_def split: prod.splits bool.splits dest: load_list_keeps)
    then show ?thesis by (intro pv_ok_values [OF assms]) simp_all
  next
    case False
    then have "R = pv_registry p" using l by (auto simp: load_all_def split: prod.splits bool.splits)
    then show ?thesis using assms by (simp add: pv_ok_def)
  qed
  then show ?thesis using assms by (auto simp: mount_storage_def Let_def inv_intros split: prod.split)
qed

lemma pv_ok_begin:
  assumes "pv_ok p" and "begin_provisioning E rootdir p = Some p'"
  shows "pv_ok p'"
proof -
  have "pv_ok (p1\<lparr>pv_scope := []\<rparr>)" if "register_builtin_namespaces (pe_runtime E) p = Some p1" for p1
    using pv_ok_builtins [OF assms(1) that] by (simp add: pv_ok_def)
  then show ?thesis using assms
    by (auto simp: begin_provisioning_def Let_def inv_intros split: if_splits option.splits)
qed

lemma pv_ok_end [inv_intros]: "pv_ok (end_provisioning p)"
  by (simp add: end_provisioning_def pv_ok_def)

lemma pv_ok_set_field [inv_intros]: "pv_ok p \<Longrightarrow> pv_ok (snd (set_field n k v p))"
proof (cases "find_ns n (pv_registry p)")
  case (Some i)
  assume ok: "pv_ok p"
  obtain b ns where d: "set_draft (pv_world p) k v (pv_namespaces p ! i) = (b, ns)" by (metis surj_pair)
  then have "keeps (pv_namespaces p ! i) ns" using keeps_simps(4) by (metis snd_conv)
  then have "pv_ok (put_ns i ns (pv_world p) p)" using pv_okD(2) [OF ok Some] by (intro pv_ok_put_ns [OF ok]) simp_all
  with Some d show ?thesis by (simp add: set_field_def)
qed (simp add: set_field_def)

lemma save_keeps: "save_namespace M F dir ns w = (ok, ns', w') \<Longrightarrow> keeps ns ns'"
  by (auto simp: save_namespace_def save_namespace_force_def Let_def split: if_splits prod.splits bool.splits sum.splits)

lemma pv_ok_save_ns:
  assumes "pv_ok p" and "i < length (pv_namespaces p)"
  shows "pv_ok (snd (save_ns E i p)) \<and> length (pv_namespaces (snd (save_ns E i p))) = length (pv_namespaces p)"
  using assms by (auto simp: save_ns_def intro!: pv_ok_put_ns dest: save_keeps split: option.splits prod.splits)

lemma set_reboot_flag_simps [simp]:
  "pv_ok (set_reboot_flag b p) = pv_ok p" "pv_namespaces (set_reboot_flag b p) = pv_namespaces p"
  by (simp_all add: set_reboot_flag_def Let_def split: option.split)

lemma pv_ok_commit_do_one:
  assumes "pv_ok p" and "i < length (pv_namespaces p)"
  shows "pv_ok (snd (commit_do_one E i p)) \<and> length (pv_namespaces (snd (commit_do_one E i p))) = length (pv_namespaces p)"
proof -
  obtain r ns w where c: "commit_namespace (pv_namespaces p ! i) (pv_world p) = (r, ns, w)" by (metis prod_cases3)
  have ok: "pv_ok (put_ns i ns w p)" by (rule pv_ok_put_ns [OF assms keeps_commit [OF c]])
  then have "pv_ok (snd (save_ns E i (put_ns i ns w p))) \<and>
      length (pv_namespaces (snd (save_ns E i (put_ns i ns w p)))) = length (pv_namespaces p)"
    using pv_ok_save_ns [of "put_ns i ns w p" i E] assms(2) by simp
  then show ?thesis using ok c by (auto simp: commit_do_one_def split: sum.split prod.split)
qed

lemma pv_ok_commit_list:
  assumes "pv_ok p" and "list_all (\<lambda>i. i < length (pv_namespaces p)) is"
  shows "pv_ok (snd (commit_list E ok is p))"
  using assms
proof (induction "is" arbitrary: ok p)
  case (Cons i ks)
  obtain r p1 where c: "commit_do_one E i p = (r, p1)" by (metis surj_pair)
  then have "pv_ok p1 \<and> length (pv_namespaces p1) = length (pv_namespaces p)"
    using pv_ok_commit_do_one [OF Cons.prems(1), of i E] Cons.prems(2) by simp
  then show ?case using Cons c by (cases r) simp_all
qed simp

lemma pv_ok_commit [inv_intros]: "pv_ok p \<Longrightarrow> pv_ok (snd (commit E n p))"
  using pv_ok_commit_list [of p "[0..<length (pv_namespaces p)]" E True] pv_okD(2) [of p n] pv_ok_commit_do_one [of p _ E]
  by (auto simp: commit_def list_all_iff split: option.split)

lemma pv_ok_discard [inv_intros]: "pv_ok p \<Longrightarrow> pv_ok (snd (discard n p))"
proof -
  assume ok: "pv_ok p"
  have "pv_ok (p\<lparr>pv_registry := (pv_registry p)\<lparr>rg_namespaces := map clear_drafts (pv_namespaces p)\<rparr>\<rparr>)"
    by (rule pv_ok_values [OF ok]) (auto simp: list_all2_conv_all_nth)
  then show ?thesis using ok pv_okD(2) [OF ok, of n] by (auto simp: discard_def intro!: pv_ok_put_ns split: option.split)
qed

lemma reset_field_keeps:
  assumes "ns_ok ns" and "f \<in> set (ns_fields ns)" and "reset_field f (ns, w) = (ns', w')"
  shows "ns_ok ns' \<and> ns_shape ns' = ns_shape ns"
proof -
  have "field_ok f" using assms(1,2) by (auto simp: ns_ok_def list_all_iff)
  then have "working_typed ns (f_id f) (f_default f)"
    using find_field_pos [OF assms(1,2)] by (simp add: working_typed_def field_ok_def)
  then show ?thesis using assms by (auto simp: reset_field_def inv_intros)
qed

lemma reset_fields_keeps:
  assumes "ns_ok ns" and "set fs \<subseteq> set (ns_fields ns)" and "fold reset_field fs (ns, w) = (ns', w')"
  shows "ns_ok ns' \<and> ns_shape ns' = ns_shape ns"
  using assms
proof (induction fs arbitrary: ns w)
  case (Cons f fs)
  obtain n1 w1 where r: "reset_field f (ns, w) = (n1, w1)" by (metis surj_pair)
  then have n1: "ns_ok n1" "ns_shape n1 = ns_shape ns" using reset_field_keeps [OF Cons.prems(1) _ r] Cons.prems(2) by auto
  then show ?case using Cons.IH [OF n1(1), of w1] Cons.prems r ns_shapeD(3) [OF n1(2)] by simp
qed simp

lemma reset_namespace_keeps: "reset_namespace ns w = (ns', w') \<Longrightarrow> keeps ns ns'"
proof -
  assume r: "reset_namespace ns w = (ns', w')"
  obtain n1 w1 where f: "fold reset_field (ns_fields ns) (clear_drafts ns, w) = (n1, w1)" by (metis surj_pair)
  then have n1: "ns' = mark_clean n1" using r by (simp add: reset_namespace_def)
  have "ns_ok n1 \<and> ns_shape n1 = ns_shape (clear_drafts ns)" if "ns_ok ns"
    using that by (intro reset_fields_keeps [OF _ _ f]) (simp_all add: inv_intros ns_shapeD(3) [of "clear_drafts ns" ns])
  then show ?thesis by (simp add: n1 keeps_def inv_intros)
qed

lemma reset_list_keeps: "reset_list nss w = (nss', w') \<Longrightarrow> list_all2 keeps nss nss'"
  by (induction nss arbitrary: nss' w w') (auto split: prod.splits dest: reset_namespace_keeps)

lemma clear_storage_registry [simp]:
  "pv_registry (snd (clear_storage E p)) = pv_registry p" "pv_scope (snd (clear_storage E p)) = pv_scope p"
  by (simp_all add: clear_storage_def split: option.split prod.split)

lemma pv_ok_clear_storage [inv_intros]: "pv_ok p \<Longrightarrow> pv_ok (snd (clear_storage E p))"
  by (simp add: pv_ok_def)

lemma pv_ok_factory_reset [inv_intros]:
  assumes "pv_ok p"
  shows "pv_ok (snd (factory_reset E p))"
proof -
  obtain nss w where r: "reset_list (pv_namespaces p) (pv_world p) = (nss, w)" by (metis surj_pair)
  let ?p = "p\<lparr>pv_registry := (pv_registry p)\<lparr>rg_namespaces := nss\<rparr>, pv_world := w\<rparr>"
  have "pv_ok ?p" by (rule pv_ok_values [OF assms reset_list_keeps [OF r]]) simp_all
  then have "pv_ok (snd (clear_storage E ?p))" by (rule inv_intros)
  then show ?thesis using r by (auto simp: factory_reset_def Let_def split: prod.split option.split)
qed

end
