(* ===== verification/Provision_Messages.thy ===== *)
theory Provision_Messages
  imports Provisioner
begin

text \<open>
  The wire interface of the provisioner: \<open>handle_message\<close> of \<open>Provisioning/Provisioning.cpp\<close> with its
  operations.  A request and a response are MessagePack arrays of an operation, a sequence number and a
  payload.  A cursor is the list of the objects that are still to be read; \<open>None\<close> is a request without a
  payload.  The numbers are those of \<open>Provisioning/Ops.h\<close>.  An exception of a setter leaves
  \<open>handle_message\<close>; every other error is answered with a message.
\<close>

section \<open>Numbers\<close>

abbreviation Key_CompressedPayload :: nat where "Key_CompressedPayload \<equiv> 101"
abbreviation Op_Ack :: nat where "Op_Ack \<equiv> 100"
abbreviation Op_Error :: nat where "Op_Error \<equiv> 101"

abbreviation E_MalformedRequest :: nat where "E_MalformedRequest \<equiv> 1"
abbreviation E_UnknownOp :: nat where "E_UnknownOp \<equiv> 2"
abbreviation E_UnknownNamespace :: nat where "E_UnknownNamespace \<equiv> 3"
abbreviation E_UnknownField :: nat where "E_UnknownField \<equiv> 4"
abbreviation E_InvalidValue :: nat where "E_InvalidValue \<equiv> 5"
abbreviation E_ConstraintViolation :: nat where "E_ConstraintViolation \<equiv> 6"
abbreviation E_ReadOnly :: nat where "E_ReadOnly \<equiv> 7"
abbreviation E_NotInitialized :: nat where "E_NotInitialized \<equiv> 9"

section \<open>Responses\<close>

abbreviation WRAPPER_OVERHEAD :: nat where "WRAPPER_OVERHEAD \<equiv> 8"

definition pack_response :: "'w penv \<Rightarrow> nat \<Rightarrow> 64 word \<Rightarrow> bool \<Rightarrow> mp_item list \<Rightarrow> bytes" where
  "pack_response E op sq compress items =
     (let M = pe_msgpack E;
          payload = mp_pack M items;
          envelope = [MP_array 3, MP_uint op, MP_uint (unat sq)];
          compressed = pe_compress E payload
      in if compress \<and> compressed \<noteq> [] \<and> length compressed + WRAPPER_OVERHEAD < length payload
         then mp_pack M (envelope @ [MP_map 1, key Key_CompressedPayload, MP_bin compressed])
         else mp_pack M envelope @ payload)"

text \<open>The first argument of the source, the operation that failed, is not used.\<close>

definition encode_error :: "'w penv \<Rightarrow> 64 word \<Rightarrow> nat \<Rightarrow> bytes option \<Rightarrow> bytes" where
  "encode_error E sq code msg =
     pack_response E Op_Error sq False
       ([MP_map (if msg \<noteq> None then 2 else 1), key 1, MP_uint code] @
        (case msg of None \<Rightarrow> [] | Some m \<Rightarrow> [key 2, MP_str m]))"

definition encode_ack :: "'w penv \<Rightarrow> nat \<Rightarrow> 64 word \<Rightarrow> bytes" where
  "encode_ack E op sq = pack_response E op sq False [MP_nil]"

section \<open>Reading a request\<close>

definition read_uint_key :: "msgpack \<Rightarrow> mp_item list \<Rightarrow> nid option \<times> mp_item list" where
  "read_uint_key M s =
     (if \<not> mp_is_int s then (None, s)
      else case mp_int M s of (v, r) \<Rightarrow> (Some (word_of_int v), r))"

record request =
  rq_filter :: "nid list"
  rq_has_filter :: bool
  rq_draft :: bool
  rq_prior :: "32 word option"
  rq_include :: bool
  rq_compress :: bool

definition empty_request :: request where
  "empty_request =
     \<lparr>rq_filter = [], rq_has_filter = False, rq_draft = False, rq_prior = None, rq_include = False, rq_compress = False\<rparr>"

type_synonym key_reader = "request \<Rightarrow> mp_item list \<Rightarrow> request \<times> mp_item list"

fun read_ids :: "msgpack \<Rightarrow> nat \<Rightarrow> nid list \<Rightarrow> mp_item list \<Rightarrow> nid list \<times> mp_item list" where
  "read_ids M 0 acc s = (acc, s)"
| "read_ids M (Suc n) acc s =
     (if mp_is_int s then (case mp_int M s of (v, r) \<Rightarrow> read_ids M n (acc @ [word_of_int v]) r)
      else read_ids M n acc (skip_value s))"

definition read_filter :: "msgpack \<Rightarrow> key_reader" where
  "read_filter M rq s =
     (if mp_is_array s then
        (case mp_array_size s of (n, r) \<Rightarrow>
           case read_ids M n [] r of (ks, r') \<Rightarrow> (rq\<lparr>rq_filter := rq_filter rq @ ks, rq_has_filter := True\<rparr>, r'))
      else (rq, skip_value s))"

definition read_flag :: "(bool \<Rightarrow> request \<Rightarrow> request) \<Rightarrow> key_reader" where
  "read_flag upd rq s =
     (if mp_is_bool s then (case mp_bool s of (b, r) \<Rightarrow> (upd b rq, r)) else (rq, skip_value s))"

definition read_prior :: "msgpack \<Rightarrow> key_reader" where
  "read_prior M rq s =
     (if mp_is_int s then (case mp_int M s of (v, r) \<Rightarrow> (rq\<lparr>rq_prior := Some (word_of_int v)\<rparr>, r))
      else (rq, skip_value s))"

definition read_compress :: key_reader where
  "read_compress = read_flag (\<lambda>b rq. rq\<lparr>rq_compress := b\<rparr>)"

definition skip_key :: key_reader where
  "skip_key rq s = (rq, skip_value s)"

text \<open>The loop over the entries of the payload map; where no number stands, one object is skipped.\<close>

fun request_loop :: "msgpack \<Rightarrow> (nid \<Rightarrow> key_reader) \<Rightarrow> nat \<Rightarrow> request \<Rightarrow> mp_item list \<Rightarrow> request" where
  "request_loop M h 0 rq s = rq"
| "request_loop M h (Suc n) rq s =
     (case read_uint_key M s of
        (None, r) \<Rightarrow> request_loop M h n rq (skip_value r)
      | (Some k, r) \<Rightarrow> (case h k rq r of (rq', r') \<Rightarrow> request_loop M h n rq' r'))"

definition parse_request :: "msgpack \<Rightarrow> (nid \<Rightarrow> key_reader) \<Rightarrow> mp_item list option \<Rightarrow> request" where
  "parse_request M h up =
     (case up of
        None \<Rightarrow> empty_request
      | Some s \<Rightarrow>
          if mp_is_map s then (case mp_map_size s of (n, r) \<Rightarrow> request_loop M h n empty_request r)
          else empty_request)"

definition parse_compress_only :: "msgpack \<Rightarrow> mp_item list option \<Rightarrow> bool" where
  "parse_compress_only M up =
     rq_compress (parse_request M (\<lambda>k. if k = 100 then read_compress else skip_key) up)"

definition parse_get_schema :: "msgpack \<Rightarrow> mp_item list option \<Rightarrow> request" where
  "parse_get_schema M =
     parse_request M (\<lambda>k. if k = 1 then read_filter M else if k = 100 then read_compress else skip_key)"

definition parse_get_state :: "msgpack \<Rightarrow> mp_item list option \<Rightarrow> request" where
  "parse_get_state M =
     parse_request M (\<lambda>k.
       if k = 1 then read_filter M
       else if k = 2 then read_flag (\<lambda>b rq. rq\<lparr>rq_draft := b\<rparr>)
       else if k = 4 then read_prior M
       else if k = 100 then read_compress else skip_key)"

definition parse_commit :: "msgpack \<Rightarrow> mp_item list option \<Rightarrow> request" where
  "parse_commit M =
     parse_request M (\<lambda>k.
       if k = 1 then read_filter M
       else if k = 5 then read_flag (\<lambda>b rq. rq\<lparr>rq_include := b\<rparr>)
       else if k = 100 then read_compress else skip_key)"

section \<open>Operations that only read\<close>

definition op_get_info :: "'w penv \<Rightarrow> 64 word \<Rightarrow> mp_item list option \<Rightarrow> 'w provisioner \<Rightarrow> bytes" where
  "op_get_info E sq up p =
     pack_response E 2 sq (parse_compress_only (pe_msgpack E) up)
       [MP_map 4, key 1, MP_str (ascii ''microReticulum''), key 2, MP_uint 2, key 3, MP_bool (pv_needs_reboot p),
        key 4, MP_uint (unat (pv_schema_hash p))]"

definition op_get_capabilities :: "'w penv \<Rightarrow> 64 word \<Rightarrow> mp_item list option \<Rightarrow> 'w provisioner \<Rightarrow> bytes" where
  "op_get_capabilities E sq up p =
     pack_response E 3 sq (parse_compress_only (pe_msgpack E) up)
       (MP_array (length (pv_namespaces p)) #
        concat (map (\<lambda>ns. [MP_map 5, key 1, MP_uint (unat (ns_id ns)), key 2, MP_str (c_str (ns_name ns)),
          key 4, MP_uint (unat (ns_parent ns)), key 5, MP_uint (length (ns_fields ns)),
          key 6, MP_uint (unat (ns_schema_hash ns))]) (pv_namespaces p)))"

definition op_get_schema :: "'w penv \<Rightarrow> 64 word \<Rightarrow> mp_item list option \<Rightarrow> 'w provisioner \<Rightarrow> bytes" where
  "op_get_schema E sq up p =
     (let rq = parse_get_schema (pe_msgpack E) up
      in pack_response E 1 sq (rq_compress rq)
           (if \<not> rq_has_filter rq then pack_schema_payload (pv_registry p)
            else pack_schemas (filter (\<lambda>ns. ns_id ns \<in> set (rq_filter rq)) (pv_namespaces p))))"

definition base_state_value :: "'w \<Rightarrow> 'w namespace \<Rightarrow> 'w pfield \<Rightarrow> pvalue" where
  "base_state_value w ns f = (if has_flag f FF_REBOOT_REQUIRED then working (f_id f) ns else effective w (f_id f) ns)"

definition readable :: "'w pfield \<Rightarrow> bool" where
  "readable f \<longleftrightarrow> \<not> has_flag f FF_SECRET \<and> \<not> has_flag f FF_WRITE_ONLY"

definition pack_ns_values :: "'w \<Rightarrow> 'w namespace list \<Rightarrow> mp_item list" where
  "pack_ns_values w nss =
     MP_map (length nss) #
     concat (map (\<lambda>ns. MP_uint (unat (ns_id ns)) # pack_fields readable (base_state_value w ns) (ns_fields ns)) nss)"

definition pack_ns_drafts :: "'w namespace list \<Rightarrow> mp_item list" where
  "pack_ns_drafts nss =
     MP_map (length nss) #
     concat (map (\<lambda>ns.
       MP_uint (unat (ns_id ns)) #
       MP_map (length (filter (\<lambda>f. has_draft (f_id f) ns) (ns_fields ns))) #
       concat (map (\<lambda>f. case draft (f_id f) ns of
                 None \<Rightarrow> [] | Some v \<Rightarrow> MP_uint (unat (f_id f)) # pack_value v) (ns_fields ns))) nss)"

text \<open>The body of a \<open>GetState\<close> response, with or without its hash.\<close>

definition pack_content :: "'w \<Rightarrow> 'w namespace list \<Rightarrow> 'w namespace list \<Rightarrow> 32 word option \<Rightarrow> mp_item list" where
  "pack_content w nss drafts hash =
     [MP_map (1 + (if drafts \<noteq> [] then 1 else 0) + (if hash \<noteq> None then 1 else 0)), key 1] @ pack_ns_values w nss @
     (if drafts \<noteq> [] then key 2 # pack_ns_drafts drafts else []) @
     (case hash of None \<Rightarrow> [] | Some h \<Rightarrow> [key 3, MP_uint (unat h)])"

definition content_hash :: "msgpack \<Rightarrow> mp_item list \<Rightarrow> 32 word" where
  "content_hash M items = crc32 0 (Some (mp_pack M items))"

definition scope_of :: "request \<Rightarrow> 'w provisioner \<Rightarrow> 'w namespace list" where
  "scope_of rq p = filter (\<lambda>ns. \<not> (rq_has_filter rq \<and> ns_id ns \<notin> set (rq_filter rq))) (pv_namespaces p)"

definition op_get_state :: "'w penv \<Rightarrow> 64 word \<Rightarrow> mp_item list option \<Rightarrow> 'w provisioner \<Rightarrow> bytes" where
  "op_get_state E sq up p =
     (let M = pe_msgpack E; rq = parse_get_state M up; nss = scope_of rq p;
          drafts = (if rq_draft rq then filter has_any_draft nss else []);
          body_hash = content_hash M (pack_content (pv_world p) nss drafts None)
      in pack_response E 4 sq (rq_compress rq)
           (if rq_prior rq = Some body_hash then [MP_map 1, key 4, MP_bool True]
            else pack_content (pv_world p) nss drafts (Some body_hash)))"

section \<open>SetState\<close>

record set_state =
  st_applied :: nat
  st_errors :: "(nid \<times> fid \<times> nat) list"
  st_include :: bool
  st_compress :: bool
  st_saw :: bool
  st_touched :: "nat list"

definition empty_set_state :: set_state where
  "empty_set_state =
     \<lparr>st_applied = 0, st_errors = [], st_include = False, st_compress = False, st_saw = False, st_touched = []\<rparr>"

definition report :: "nid \<Rightarrow> fid \<Rightarrow> nat \<Rightarrow> set_state \<Rightarrow> set_state" where
  "report n k code st = st\<lparr>st_errors := st_errors st @ [(n, k, code)]\<rparr>"

text \<open>One entry of the inner map: a field id and a value for namespace \<open>n\<close>, found at position \<open>ni\<close>.\<close>

definition set_one :: "msgpack \<Rightarrow> nid \<Rightarrow> nat option \<Rightarrow> mp_item list \<Rightarrow> set_state \<Rightarrow> 'w provisioner \<Rightarrow>
    mp_item list \<times> set_state \<times> 'w provisioner" where
  "set_one M n ni s st p =
     (if \<not> mp_is_int s then (skip_value (skip_value s), st, p)
      else case mp_int M s of (k2, s1) \<Rightarrow>
        let k = word_of_int k2 :: fid
        in case ni of
             None \<Rightarrow> (skip_value s1, report n k E_UnknownNamespace st, p)
           | Some i \<Rightarrow>
               (case find_field k (pv_namespaces p ! i) of
                  None \<Rightarrow> (skip_value s1, report n k E_UnknownField st, p)
                | Some f \<Rightarrow>
                    (case unpack_value M (f_type f) s1 of
                       (None, s2) \<Rightarrow> (s2, report n k E_InvalidValue st, p)
                     | (Some v, s2) \<Rightarrow>
                         if has_flag f FF_READ_ONLY then (s2, report n k E_ReadOnly st, p)
                         else case set_draft (pv_world p) k v (pv_namespaces p ! i) of
                           (False, ns) \<Rightarrow> (s2, report n k E_ConstraintViolation st, put_ns i ns (pv_world p) p)
                         | (True, ns) \<Rightarrow>
                             (s2, st\<lparr>st_applied := st_applied st + 1\<rparr>, put_ns i ns (pv_world p) p))))"

fun set_fields :: "msgpack \<Rightarrow> nid \<Rightarrow> nat option \<Rightarrow> nat \<Rightarrow> mp_item list \<Rightarrow> set_state \<Rightarrow> 'w provisioner \<Rightarrow>
    mp_item list \<times> set_state \<times> 'w provisioner" where
  "set_fields M n ni 0 s st p = (s, st, p)"
| "set_fields M n ni (Suc j) s st p =
     (case set_one M n ni s st p of (s', st', p') \<Rightarrow> set_fields M n ni j s' st' p')"

definition touch :: "nat option \<Rightarrow> set_state \<Rightarrow> set_state" where
  "touch ni st =
     (case ni of
        None \<Rightarrow> st
      | Some i \<Rightarrow> if i \<in> set (st_touched st) then st else st\<lparr>st_touched := st_touched st @ [i]\<rparr>)"

definition set_ns :: "msgpack \<Rightarrow> mp_item list \<Rightarrow> set_state \<Rightarrow> 'w provisioner \<Rightarrow> mp_item list \<times> set_state \<times> 'w provisioner" where
  "set_ns M s st p =
     (if \<not> mp_is_int s then (skip_value (skip_value s), st, p)
      else case mp_int M s of (k1, s1) \<Rightarrow>
        let n = word_of_int k1 :: nid; ni = find_ns n (pv_registry p); st1 = touch ni st
        in if \<not> mp_is_map s1
           then (skip_value s1, report n 0 (if ni = None then E_UnknownNamespace else E_MalformedRequest) st1, p)
           else case mp_map_size s1 of (j, s2) \<Rightarrow> set_fields M n ni j s2 st1 p)"

fun set_nss :: "msgpack \<Rightarrow> nat \<Rightarrow> mp_item list \<Rightarrow> set_state \<Rightarrow> 'w provisioner \<Rightarrow> mp_item list \<times> set_state \<times> 'w provisioner" where
  "set_nss M 0 s st p = (s, st, p)"
| "set_nss M (Suc j) s st p = (case set_ns M s st p of (s', st', p') \<Rightarrow> set_nss M j s' st' p')"

definition set_flag :: "(bool \<Rightarrow> set_state \<Rightarrow> set_state) \<Rightarrow> mp_item list \<Rightarrow> set_state \<Rightarrow> mp_item list \<times> set_state" where
  "set_flag upd s st = (if mp_is_bool s then (case mp_bool s of (b, r) \<Rightarrow> (r, upd b st)) else (skip_value s, st))"

definition set_entry :: "msgpack \<Rightarrow> mp_item list \<Rightarrow> set_state \<Rightarrow> 'w provisioner \<Rightarrow> mp_item list \<times> set_state \<times> 'w provisioner" where
  "set_entry M s st p =
     (case read_uint_key M s of
        (None, s1) \<Rightarrow> (skip_value s1, st, p)
      | (Some k, s1) \<Rightarrow>
          if k = 5 then (case set_flag (\<lambda>b st. st\<lparr>st_include := b\<rparr>) s1 st of (s2, st2) \<Rightarrow> (s2, st2, p))
          else if k = 100 then (case set_flag (\<lambda>b st. st\<lparr>st_compress := b\<rparr>) s1 st of (s2, st2) \<Rightarrow> (s2, st2, p))
          else if k \<noteq> 3 then (skip_value s1, st, p)
          else let st1 = st\<lparr>st_saw := True\<rparr>
               in if \<not> mp_is_map s1 then (skip_value s1, st1, p)
                  else case mp_map_size s1 of (n, s2) \<Rightarrow> set_nss M n s2 st1 p)"

fun set_entries :: "msgpack \<Rightarrow> nat \<Rightarrow> mp_item list \<Rightarrow> set_state \<Rightarrow> 'w provisioner \<Rightarrow> set_state \<times> 'w provisioner" where
  "set_entries M 0 s st p = (st, p)"
| "set_entries M (Suc n) s st p = (case set_entry M s st p of (s', st', p') \<Rightarrow> set_entries M n s' st' p')"

definition set_response :: "msgpack \<Rightarrow> set_state \<Rightarrow> 'w provisioner \<Rightarrow> mp_item list" where
  "set_response M st p =
     (let touched = map ((!) (pv_namespaces p)) (st_touched st);
          drafts = (if st_include st then filter has_any_draft touched else []);
          post = pack_ns_values (pv_world p) touched;
          post_drafts = (if drafts \<noteq> [] then pack_ns_drafts drafts else [])
      in [MP_map (2 + (if st_errors st \<noteq> [] then 1 else 0) +
                  (if st_include st then 2 + (if drafts \<noteq> [] then 1 else 0) else 0)),
          key 1, MP_uint (st_applied st), key 2, MP_bool (any_draft_reboot p)] @
         (if st_errors st \<noteq> []
          then [key 3, MP_array (length (st_errors st))] @
               concat (map (\<lambda>(n, k, c). [MP_array 3, MP_uint (unat n), MP_uint (unat k), MP_uint c]) (st_errors st))
          else []) @
         (if st_include st
          then [key 4] @ post @ (if drafts \<noteq> [] then key 5 # post_drafts else []) @
               [key 6, MP_uint (unat (content_hash M (post @ post_drafts)))]
          else []))"

definition op_set_state :: "'w penv \<Rightarrow> 64 word \<Rightarrow> mp_item list option \<Rightarrow> 'w provisioner \<Rightarrow> bytes \<times> 'w provisioner" where
  "op_set_state E sq up p =
     (case up of
        None \<Rightarrow> (encode_error E sq E_MalformedRequest (Some (ascii ''expected map payload'')), p)
      | Some s \<Rightarrow>
          if \<not> mp_is_map s then (encode_error E sq E_MalformedRequest (Some (ascii ''expected map payload'')), p)
          else case mp_map_size s of (n, s1) \<Rightarrow>
            case set_entries (pe_msgpack E) n s1 empty_set_state p of (st, p1) \<Rightarrow>
              if \<not> st_saw st
              then (encode_error E sq E_MalformedRequest (Some (ascii ''missing State key'')), p1)
              else (pack_response E 5 sq (st_compress st) (set_response (pe_msgpack E) st p1), p1))"

section \<open>Commit, Discard, FactoryReset, Reboot\<close>

record commit_state =
  cs_applied :: nat
  cs_reboot :: bool
  cs_touched :: "nat list"

definition applied_count :: "commit_outcome list \<Rightarrow> nat" where
  "applied_count os = length (filter (\<lambda>c. c = Applied_live \<or> c = Applied_reboot) os)"

definition op_commit_one :: "'w penv \<Rightarrow> request \<Rightarrow> nat \<Rightarrow> commit_state \<Rightarrow> 'w provisioner \<Rightarrow> commit_state result \<times> 'w provisioner" where
  "op_commit_one E rq i cs p =
     (let had_draft = has_any_draft (pv_namespaces p ! i)
      in case commit_namespace (pv_namespaces p ! i) (pv_world p) of
           (Inl e, ns, w) \<Rightarrow> (Inl e, put_ns i ns w p)
         | (Inr os, ns, w) \<Rightarrow>
             (let p2 = snd (save_ns E i (put_ns i ns w p))
              in (Inr \<lparr>cs_applied = cs_applied cs + applied_count os,
                       cs_reboot = (cs_reboot cs \<or> Applied_reboot \<in> set os),
                       cs_touched = (if rq_include rq \<and> (rq_has_filter rq \<or> had_draft) then cs_touched cs @ [i]
                                     else cs_touched cs)\<rparr>, p2)))"

fun op_commit_list :: "'w penv \<Rightarrow> request \<Rightarrow> nat list \<Rightarrow> commit_state \<Rightarrow> 'w provisioner \<Rightarrow> commit_state result \<times> 'w provisioner" where
  "op_commit_list E rq [] cs p = (Inr cs, p)"
| "op_commit_list E rq (i # is) cs p =
     (case op_commit_one E rq i cs p of
        (Inl e, p1) \<Rightarrow> (Inl e, p1)
      | (Inr cs', p1) \<Rightarrow> op_commit_list E rq is cs' p1)"

text \<open>The namespaces a filter names, in its order; without a filter all of them.\<close>

definition selected :: "bool \<Rightarrow> nid list \<Rightarrow> 'w provisioner \<Rightarrow> nat list" where
  "selected has_filter ks p =
     (if has_filter then List.map_filter (\<lambda>n. find_ns n (pv_registry p)) ks else [0..<length (pv_namespaces p)])"

definition commit_response :: "msgpack \<Rightarrow> request \<Rightarrow> commit_state \<Rightarrow> 'w provisioner \<Rightarrow> mp_item list" where
  "commit_response M rq cs p =
     (let touched = map ((!) (pv_namespaces p)) (cs_touched cs); post = pack_ns_values (pv_world p) touched
      in [MP_map (if rq_include rq then 4 else 2), key 1, MP_uint (cs_applied cs), key 2, MP_bool (pv_needs_reboot p)] @
         (if rq_include rq then [key 4] @ post @ [key 6, MP_uint (unat (content_hash M post))] else []))"

definition op_commit :: "'w penv \<Rightarrow> 64 word \<Rightarrow> mp_item list option \<Rightarrow> 'w provisioner \<Rightarrow> bytes result \<times> 'w provisioner" where
  "op_commit E sq up p =
     (let rq = parse_commit (pe_msgpack E) up
      in case op_commit_list E rq (selected (rq_has_filter rq) (rq_filter rq) p)
                \<lparr>cs_applied = 0, cs_reboot = False, cs_touched = []\<rparr> p of
           (Inl e, p1) \<Rightarrow> (Inl e, p1)
         | (Inr cs, p1) \<Rightarrow>
             (let p2 = set_reboot_flag (cs_reboot cs) p1
              in (Inr (pack_response E 6 sq (rq_compress rq) (commit_response (pe_msgpack E) rq cs p2)), p2)))"

definition count_and_clear :: "nat \<Rightarrow> nat \<times> 'w provisioner \<Rightarrow> nat \<times> 'w provisioner" where
  "count_and_clear i = (\<lambda>(n, p).
     (n + length (draft_ids (pv_namespaces p ! i)), put_ns i (clear_drafts (pv_namespaces p ! i)) (pv_world p) p))"

definition op_discard :: "'w penv \<Rightarrow> 64 word \<Rightarrow> mp_item list option \<Rightarrow> 'w provisioner \<Rightarrow> bytes \<times> 'w provisioner" where
  "op_discard E sq up p =
     (let sel = (case up of
                   None \<Rightarrow> selected False [] p
                 | Some s \<Rightarrow>
                     if mp_is_array s
                     then (case mp_array_size s of (n, r) \<Rightarrow> selected True (fst (read_ids (pe_msgpack E) n [] r)) p)
                     else selected False [] p)
      in case fold count_and_clear sel (0, p) of
           (n, p1) \<Rightarrow> (pack_response E 7 sq False [MP_map 1, key 1, MP_uint n], p1))"

definition op_factory_reset :: "'w penv \<Rightarrow> 64 word \<Rightarrow> mp_item list option \<Rightarrow> 'w provisioner \<Rightarrow> bytes \<times> 'w provisioner" where
  "op_factory_reset E sq up p =
     (let compress = parse_compress_only (pe_msgpack E) up; p1 = snd (factory_reset E p)
      in (pack_response E 8 sq compress [MP_map 1, key 2, MP_bool (pv_needs_reboot p1)], p1))"

definition op_reboot :: "'w penv \<Rightarrow> 64 word \<Rightarrow> 'w provisioner \<Rightarrow> bytes \<times> 'w provisioner" where
  "op_reboot E sq p =
     (encode_ack E 9 sq, case pv_on_reboot p of None \<Rightarrow> p | Some h \<Rightarrow> p\<lparr>pv_world := h (pv_world p)\<rparr>)"

section \<open>The entry point\<close>

definition dispatch :: "'w penv \<Rightarrow> 8 word \<Rightarrow> 64 word \<Rightarrow> mp_item list option \<Rightarrow> 'w provisioner \<Rightarrow> bytes result \<times> 'w provisioner" where
  "dispatch E op sq up p =
     (if op = 1 then (Inr (op_get_schema E sq up p), p)
      else if op = 2 then (Inr (op_get_info E sq up p), p)
      else if op = 3 then (Inr (op_get_capabilities E sq up p), p)
      else if op = 4 then (Inr (op_get_state E sq up p), p)
      else if op = 5 then (case op_set_state E sq up p of (r, p1) \<Rightarrow> (Inr r, p1))
      else if op = 6 then op_commit E sq up p
      else if op = 7 then (case op_discard E sq up p of (r, p1) \<Rightarrow> (Inr r, p1))
      else if op = 8 then (case op_factory_reset E sq up p of (r, p1) \<Rightarrow> (Inr r, p1))
      else if op = 9 then (case op_reboot E sq p of (r, p1) \<Rightarrow> (Inr r, p1))
      else (Inr (encode_error E sq E_UnknownOp (Some (ascii ''unrecognised op id''))), p))"

definition handle_message :: "'w penv \<Rightarrow> bytes \<Rightarrow> 'w provisioner \<Rightarrow> bytes result \<times> 'w provisioner" where
  "handle_message E req p =
     (let M = pe_msgpack E; s = mp_feed M req; err = (\<lambda>code msg. (Inr (encode_error E 0 code (Some (ascii msg))), p))
      in if \<not> pv_started p then err E_NotInitialized ''Provisioning::begin not called''
         else if \<not> mp_is_array s then err E_MalformedRequest ''envelope must be array''
         else case mp_array_size s of (n, s1) \<Rightarrow>
           if n < 1 then err E_MalformedRequest ''envelope empty''
           else if \<not> mp_is_int s1 then err E_MalformedRequest ''op id must be uint''
           else case mp_int M s1 of (op_raw, s2) \<Rightarrow>
             let (sq, s3) =
                   (if n \<ge> 2
                    then (if mp_is_int s2 then (case mp_int M s2 of (v, r) \<Rightarrow> (word_of_int v, r)) else (0, skip_value s2))
                    else (0, s2))
             in dispatch E (word_of_int op_raw) sq (if n \<ge> 3 then Some s3 else None) p)"

end
