(* ===== verification/Provision_Wire.thy ===== *)
theory Provision_Wire
  imports Provision_Messages
begin

text \<open>
  What the operations of the wire interface keep, and the provisioner as a machine: registration, direct
  access, start and end, and messages in any order.
\<close>

section \<open>Operations that only edit drafts\<close>

definition drafts_only :: "'w provisioner \<Rightarrow> 'w provisioner \<Rightarrow> bool" where
  "drafts_only p p' \<longleftrightarrow>
     (\<exists>nss. p' = p\<lparr>pv_registry := (pv_registry p)\<lparr>rg_namespaces := nss\<rparr>\<rparr> \<and>
            list_all2 (\<lambda>ns ns'. keeps ns ns' \<and> ns' = ns\<lparr>ns_draft := ns_draft ns'\<rparr>) (pv_namespaces p) nss)"

lemma drafts_only_ok: "drafts_only p p' \<Longrightarrow> pv_ok p \<Longrightarrow> pv_ok p'"
proof -
  assume ok: "pv_ok p" and "drafts_only p p'"
  then obtain nss where n: "p' = p\<lparr>pv_registry := (pv_registry p)\<lparr>rg_namespaces := nss\<rparr>\<rparr>"
      "list_all2 (\<lambda>ns ns'. keeps ns ns' \<and> ns' = ns\<lparr>ns_draft := ns_draft ns'\<rparr>) (pv_namespaces p) nss"
    unfolding drafts_only_def by blast
  then have "list_all2 keeps (pv_namespaces p) nss" by (simp add: list_all2_conv_all_nth)
  then show ?thesis by (rule pv_ok_values [OF ok]) (simp_all add: n)
qed

lemma drafts_only_frame:
  assumes "drafts_only p p'"
  shows "pv_world p' = pv_world p" "pv_storage p' = pv_storage p" "pv_needs_reboot p' = pv_needs_reboot p"
    "length (pv_namespaces p') = length (pv_namespaces p)" "find_ns n (pv_registry p') = find_ns n (pv_registry p)"
    "pv_started p' = pv_started p"
  using assms unfolding drafts_only_def by (auto simp: find_ns_def dest: list_all2_lengthD)

lemma drafts_only_ns:
  assumes "drafts_only p p'" and "i < length (pv_namespaces p)"
  shows "pv_namespaces p' ! i = (pv_namespaces p ! i)\<lparr>ns_draft := ns_draft (pv_namespaces p' ! i)\<rparr>"
  using assms unfolding drafts_only_def by (auto dest: list_all2_nthD)

lemma drafts_only_refl [simp]: "drafts_only p p"
  unfolding drafts_only_def by (intro exI [of _ "pv_namespaces p"]) (simp add: list_all2_refl)

lemma drafts_only_trans:
  assumes "drafts_only a b" and "drafts_only b c"
  shows "drafts_only a c"
proof -
  obtain bs where b: "b = a\<lparr>pv_registry := (pv_registry a)\<lparr>rg_namespaces := bs\<rparr>\<rparr>"
      "list_all2 (\<lambda>ns ns'. keeps ns ns' \<and> ns' = ns\<lparr>ns_draft := ns_draft ns'\<rparr>) (pv_namespaces a) bs"
    using assms(1) unfolding drafts_only_def by blast
  obtain cs where c: "c = b\<lparr>pv_registry := (pv_registry b)\<lparr>rg_namespaces := cs\<rparr>\<rparr>"
      "list_all2 (\<lambda>ns ns'. keeps ns ns' \<and> ns' = ns\<lparr>ns_draft := ns_draft ns'\<rparr>) bs cs"
    using assms(2) b(1) unfolding drafts_only_def by auto
  have "keeps x z \<and> z = x\<lparr>ns_draft := ns_draft z\<rparr>"
    if "keeps x y \<and> y = x\<lparr>ns_draft := ns_draft y\<rparr>" "keeps y z \<and> z = y\<lparr>ns_draft := ns_draft z\<rparr>" for x y z :: "'a namespace"
    using that by (metis ns_keeps_trans namespace.surjective namespace.update_convs(8))
  then have "list_all2 (\<lambda>ns ns'. keeps ns ns' \<and> ns' = ns\<lparr>ns_draft := ns_draft ns'\<rparr>) (pv_namespaces a) cs"
    by (rule list_all2_trans [OF _ b(2) c(2)])
  then show ?thesis unfolding drafts_only_def using b(1) c(1) by (intro exI [of _ cs]) simp
qed

lemma drafts_only_put:
  assumes "i < length (pv_namespaces p)" and "keeps (pv_namespaces p ! i) ns" and "ns = (pv_namespaces p ! i)\<lparr>ns_draft := d\<rparr>"
  shows "drafts_only p (put_ns i ns (pv_world p) p)"
  unfolding drafts_only_def
proof (intro exI conjI)
  show "put_ns i ns (pv_world p) p = p\<lparr>pv_registry := (pv_registry p)\<lparr>rg_namespaces := (pv_namespaces p)[i := ns]\<rparr>\<rparr>"
    by (simp add: put_ns_def rg_update_def)
  show "list_all2 (\<lambda>ns ns'. keeps ns ns' \<and> ns' = ns\<lparr>ns_draft := ns_draft ns'\<rparr>) (pv_namespaces p) ((pv_namespaces p)[i := ns])"
    using assms by (auto simp: list_all2_conv_all_nth nth_list_update)
qed

lemma drafts_only_set_draft:
  assumes "i < length (pv_namespaces p)" and "set_draft (pv_world p) k v (pv_namespaces p ! i) = (ok, ns)"
  shows "drafts_only p (put_ns i ns (pv_world p) p)"
proof (rule drafts_only_put [OF assms(1)])
  show "keeps (pv_namespaces p ! i) ns" using assms(2) keeps_simps(4) by (metis snd_conv)
  show "ns = (pv_namespaces p ! i)\<lparr>ns_draft := ns_draft ns\<rparr>"
    using assms(2) by (auto simp: set_draft_def split: option.splits if_splits)
qed

lemma drafts_only_clear: "i < length (pv_namespaces p) \<Longrightarrow> drafts_only p (put_ns i (clear_drafts (pv_namespaces p ! i)) (pv_world p) p)"
  by (rule drafts_only_put [where d = "[]"]) (simp_all, simp add: clear_drafts_def)

lemma set_one_drafts:
  assumes "\<And>i. ni = Some i \<Longrightarrow> i < length (pv_namespaces p)" and "set_one M n ni s st p = (s', st', p')"
  shows "drafts_only p p'"
  using assms
  by (auto simp: set_one_def Let_def split: if_splits prod.splits option.splits bool.splits intro: drafts_only_set_draft)

lemma set_fields_drafts:
  assumes "\<And>i. ni = Some i \<Longrightarrow> i < length (pv_namespaces p)" and "set_fields M n ni j s st p = (s', st', p')"
  shows "drafts_only p p'"
  using assms
proof (induction j arbitrary: s st p)
  case (Suc j)
  obtain s1 st1 p1 where o: "set_one M n ni s st p = (s1, st1, p1)" by (metis prod_cases3)
  have d: "drafts_only p p1" by (rule set_one_drafts [OF Suc.prems(1) o])
  have "drafts_only p1 p'"
    using Suc.IH [of p1 s1 st1] Suc.prems o drafts_only_frame(4) [OF d] by simp
  then show ?case by (rule drafts_only_trans [OF d])
qed simp

lemma set_ns_drafts:
  assumes "pv_ok p" and "set_ns M s st p = (s', st', p')"
  shows "drafts_only p p'"
  using assms pv_okD(2) [OF assms(1)]
  by (auto simp: set_ns_def Let_def split: if_splits prod.splits intro: set_fields_drafts)

lemma set_nss_drafts:
  assumes "pv_ok p" and "set_nss M j s st p = (s', st', p')"
  shows "drafts_only p p'"
  using assms
proof (induction j arbitrary: s st p)
  case (Suc j)
  obtain s1 st1 p1 where o: "set_ns M s st p = (s1, st1, p1)" by (metis prod_cases3)
  have d: "drafts_only p p1" by (rule set_ns_drafts [OF Suc.prems(1) o])
  show ?case
    using drafts_only_trans [OF d Suc.IH [OF drafts_only_ok [OF d Suc.prems(1)]]] Suc.prems(2) o by simp
qed simp

lemma set_entry_drafts:
  assumes "pv_ok p" and "set_entry M s st p = (s', st', p')"
  shows "drafts_only p p'"
  using assms
  by (auto simp: set_entry_def Let_def split: if_splits prod.splits option.splits intro: set_nss_drafts)

lemma set_entries_drafts:
  assumes "pv_ok p" and "set_entries M j s st p = (st', p')"
  shows "drafts_only p p'"
  using assms
proof (induction j arbitrary: s st p)
  case (Suc j)
  obtain s1 st1 p1 where o: "set_entry M s st p = (s1, st1, p1)" by (metis prod_cases3)
  have d: "drafts_only p p1" by (rule set_entry_drafts [OF Suc.prems(1) o])
  show ?case
    using drafts_only_trans [OF d Suc.IH [OF drafts_only_ok [OF d Suc.prems(1)]]] Suc.prems(2) o by simp
qed simp

lemma op_set_state_drafts:
  assumes "pv_ok p" and "op_set_state E sq up p = (r, p')"
  shows "drafts_only p p'"
  using assms by (auto simp: op_set_state_def split: option.splits if_splits prod.splits intro: set_entries_drafts)

lemma selected_valid: "pv_ok p \<Longrightarrow> i \<in> set (selected b ks p) \<Longrightarrow> i < length (pv_namespaces p)"
  by (auto simp: selected_def List.map_filter_def dest: pv_okD(2) split: if_splits)

lemma count_and_clear_drafts:
  assumes "list_all (\<lambda>i. i < length (pv_namespaces p)) is" and "fold count_and_clear is (n, p) = (n', p')"
  shows "drafts_only p p'"
  using assms
proof (induction "is" arbitrary: n p)
  case (Cons i ks)
  let ?p = "put_ns i (clear_drafts (pv_namespaces p ! i)) (pv_world p) p"
  have d: "drafts_only p ?p" using Cons.prems(1) by (intro drafts_only_clear) simp
  show ?case
    using drafts_only_trans [OF d Cons.IH [of ?p]] Cons.prems by (simp add: count_and_clear_def)
qed simp

lemma op_discard_drafts:
  assumes "pv_ok p" and "op_discard E sq up p = (r, p')"
  shows "drafts_only p p'"
proof -
  obtain sel b ks where sel: "sel = selected b ks p" and f: "\<exists>n. fold count_and_clear sel (0, p) = (n, p')"
    using assms(2) by (auto simp: op_discard_def Let_def split: prod.splits option.splits if_splits)
  then show ?thesis using count_and_clear_drafts selected_valid [OF assms(1)] by (force simp: list_all_iff)
qed

section \<open>Commits\<close>

lemma op_commit_one_ok:
  assumes "pv_ok p" and "i < length (pv_namespaces p)" and "op_commit_one E rq i cs p = (r, p')"
  shows "pv_ok p' \<and> length (pv_namespaces p') = length (pv_namespaces p)"
proof -
  obtain c ns w where c: "commit_namespace (pv_namespaces p ! i) (pv_world p) = (c, ns, w)" by (metis prod_cases3)
  have ok: "pv_ok (put_ns i ns w p)" by (rule pv_ok_put_ns [OF assms(1,2) keeps_commit [OF c]])
  then show ?thesis
    using pv_ok_save_ns [of "put_ns i ns w p" i E] assms(2,3) c by (auto simp: op_commit_one_def Let_def split: sum.splits)
qed

lemma op_commit_list_ok:
  assumes "pv_ok p" and "list_all (\<lambda>i. i < length (pv_namespaces p)) is" and "op_commit_list E rq is cs p = (r, p')"
  shows "pv_ok p'"
  using assms
proof (induction "is" arbitrary: cs p)
  case (Cons i ks)
  obtain r1 p1 where c: "op_commit_one E rq i cs p = (r1, p1)" by (metis surj_pair)
  have "pv_ok p1 \<and> length (pv_namespaces p1) = length (pv_namespaces p)"
    using op_commit_one_ok [OF Cons.prems(1) _ c] Cons.prems(2) by simp
  then show ?case using Cons.IH [of p1] Cons.prems c by (cases r1) auto
qed simp

lemma pv_ok_op_commit [inv_intros]:
  assumes "pv_ok p"
  shows "pv_ok (snd (op_commit E sq up p))"
proof -
  let ?rq = "parse_commit (pe_msgpack E) up"
  obtain r p1 where l: "op_commit_list E ?rq (selected (rq_has_filter ?rq) (rq_filter ?rq) p)
      \<lparr>cs_applied = 0, cs_reboot = False, cs_touched = []\<rparr> p = (r, p1)" by (metis surj_pair)
  have "pv_ok p1"
    using op_commit_list_ok [OF assms _ l] selected_valid [OF assms] by (simp add: list_all_iff)
  then show ?thesis using l by (cases r) (simp_all add: op_commit_def Let_def)
qed

lemma pv_ok_op_reset [inv_intros]: "pv_ok p \<Longrightarrow> pv_ok (snd (op_factory_reset E sq up p))"
  by (simp add: op_factory_reset_def Let_def inv_intros)

lemma pv_ok_op_reboot [inv_intros]: "pv_ok p \<Longrightarrow> pv_ok (snd (op_reboot E sq p))"
  by (simp add: op_reboot_def split: option.split)

lemma pv_ok_dispatch [inv_intros]:
  assumes "pv_ok p"
  shows "pv_ok (snd (dispatch E op sq up p))"
proof -
  have "pv_ok (snd (op_set_state E sq up p))" using op_set_state_drafts [OF assms] drafts_only_ok assms by (metis surj_pair snd_conv)
  moreover have "pv_ok (snd (op_discard E sq up p))" using op_discard_drafts [OF assms] drafts_only_ok assms by (metis surj_pair snd_conv)
  ultimately show ?thesis
    using assms pv_ok_op_commit [OF assms, of E sq up] pv_ok_op_reset [OF assms, of E sq up] pv_ok_op_reboot [OF assms, of E sq]
    unfolding dispatch_def by (simp add: split_beta)
qed

lemma pv_ok_handle_message [inv_intros]: "pv_ok p \<Longrightarrow> pv_ok (snd (handle_message E req p))"
  by (simp add: handle_message_def Let_def split_beta inv_intros)

section \<open>The machine\<close>

datatype 'w pcommand =
    Register "bytes option" nid | End_scope
  | Reg_bool "bytes option" fid fflags bool "'w setter option" "('w \<Rightarrow> bool) option"
  | Reg_int "bytes option" fid fflags int "(int \<times> int) option" "'w setter option" "('w \<Rightarrow> int) option"
  | Reg_float "bytes option" fid fflags real "(real \<times> real) option" "'w setter option" "('w \<Rightarrow> real) option"
  | Reg_string "bytes option" fid fflags "bytes option" nat "'w setter option" "('w \<Rightarrow> bytes) option"
  | Reg_bytes "bytes option" fid fflags bytes nat "'w setter option" "('w \<Rightarrow> bytes) option"
  | Reg_bytes_list "bytes option" fid fflags "bytes list" nat nat "'w setter option" "('w \<Rightarrow> bytes list) option"
  | Reg_enum "bytes option" fid fflags int "int list" "bytes list" "'w setter option" "('w \<Rightarrow> int) option"
  | Reg_void "bytes option" fid "('w \<Rightarrow> bool result \<times> 'w) option"
  | Hook "'w commit_hook option"
  | Begin "bytes option" | End_all | Set_field nid fid pvalue | Commit nid | Discard nid | Factory_reset | Clear_storage
  | Message bytes | Outside "'w \<Rightarrow> 'w"

text \<open>A registration that would not return leaves the state; \<open>provisioning_returns\<close> says there is none.\<close>

fun pstep :: "'w penv \<Rightarrow> 'w pcommand \<Rightarrow> 'w provisioner \<Rightarrow> 'w provisioner" where
  "pstep E (Register name n) p = (case register_namespace name n p of None \<Rightarrow> p | Some p' \<Rightarrow> p')"
| "pstep E End_scope p = end_scope p"
| "pstep E (Reg_bool name k fl d s g) p = field_bool name k fl d s g p"
| "pstep E (Reg_int name k fl d r s g) p =
     (case r of None \<Rightarrow> field_int name k fl d s g p | Some (l, u) \<Rightarrow> field_int_range name k fl d l u s g p)"
| "pstep E (Reg_float name k fl d r s g) p =
     (case r of None \<Rightarrow> field_float name k fl d s g p | Some (l, u) \<Rightarrow> field_float_range name k fl d l u s g p)"
| "pstep E (Reg_string name k fl d m s g) p = field_string name k fl d m s g p"
| "pstep E (Reg_bytes name k fl d m s g) p = field_bytes name k fl d m s g p"
| "pstep E (Reg_bytes_list name k fl d e m s g) p = field_bytes_list name k fl d e m s g p"
| "pstep E (Reg_enum name k fl d vs ls s g) p = field_enum name k fl d vs ls s g p"
| "pstep E (Reg_void name k s) p = command_void name k s p"
| "pstep E (Hook h) p = on_commit h p"
| "pstep E (Begin d) p = (case begin_provisioning E d p of None \<Rightarrow> p | Some p' \<Rightarrow> p')"
| "pstep E End_all p = end_provisioning p"
| "pstep E (Set_field n k v) p = snd (set_field n k v p)"
| "pstep E (Commit n) p = snd (commit E n p)"
| "pstep E (Discard n) p = snd (discard n p)"
| "pstep E Factory_reset p = snd (factory_reset E p)"
| "pstep E Clear_storage p = snd (clear_storage E p)"
| "pstep E (Message b) p = snd (handle_message E b p)"
| "pstep E (Outside f) p = p\<lparr>pv_world := f (pv_world p)\<rparr>"

lemma pstep_ok: "pv_ok p \<Longrightarrow> pv_ok (pstep E c p)"
  by (cases c) (auto simp: inv_intros split: option.split intro: pv_ok_register pv_ok_begin)

interpretation pm: invariant_machine "pstep E" pv_ok for E :: "'w penv"
  by unfold_locales (rule pstep_ok)

definition pv_run :: "'w penv \<Rightarrow> 'w \<Rightarrow> 'w pcommand list \<Rightarrow> 'w provisioner" where
  "pv_run E w cs = fold (pstep E) cs (new_provisioner w)"

lemma pv_run_ok: "pv_ok (pv_run E w cs)"
  unfolding pv_run_def by (rule pm.run_inv [OF pv_ok_new])

end
