(* ===== verification/Provision_Demo.thy ===== *)
theory Provision_Demo
  imports Provision_Wire
begin

text \<open>
  A small application on which the properties of the configuration interface are tried out.  Its state is a
  table of files, a number that a field reads and writes, and a switch that makes renaming fail.
\<close>

section \<open>A small application\<close>

record demo_app =
  da_files :: "(bytes, bytes) table"
  da_number :: int
  da_rename :: bool

definition demo_fs :: "demo_app fsys" where
  "demo_fs =
     \<lparr>fs_registered = (\<lambda>w. True), fs_exists = (\<lambda>p w. tab_find p (da_files w) \<noteq> None),
      fs_size = (\<lambda>p w. case tab_find p (da_files w) of None \<Rightarrow> 0 | Some d \<Rightarrow> length d),
      fs_read = (\<lambda>p n w. case tab_find p (da_files w) of None \<Rightarrow> [] | Some d \<Rightarrow> take n d),
      fs_write = (\<lambda>p d w. (length d, w\<lparr>da_files := tab_assign p d (da_files w)\<rparr>)),
      fs_remove = (\<lambda>p w. (True, w\<lparr>da_files := tab_erase p (da_files w)\<rparr>)),
      fs_rename = (\<lambda>p q w. if da_rename w \<and> p \<noteq> q
          then (True, w\<lparr>da_files := tab_erase p (case tab_find p (da_files w) of
                 None \<Rightarrow> tab_erase q (da_files w) | Some d \<Rightarrow> tab_assign q d (da_files w))\<rparr>)
          else (False, w)),
      fs_is_directory = (\<lambda>p w. True), fs_mkdir = (\<lambda>p w. (True, w))\<rparr>"

definition demo_contents :: "demo_app \<Rightarrow> bytes \<Rightarrow> bytes option" where
  "demo_contents w p = tab_find p (da_files w)"

lemma demo_fs_laws: "fs_laws demo_fs demo_contents"
  unfolding fs_laws_def demo_fs_def demo_contents_def
  by (auto simp: fun_eq_iff tab_find_erase tab_find_assign split: option.splits if_splits)

definition demo_runtime :: "demo_app runtime" where
  "demo_runtime =
     \<lparr>rt_get_bool = (\<lambda>c w. False), rt_set_bool = (\<lambda>c b w. w), rt_get_int = (\<lambda>c w. word_of_int (da_number w)),
      rt_set_int = (\<lambda>c i w. w\<lparr>da_number := uint i\<rparr>), rt_get_identity_prv = (\<lambda>w. None), rt_set_identity_prv = (\<lambda>k w. w),
      rt_get_allowed = (\<lambda>w. []), rt_set_allowed = (\<lambda>l w. w), rt_clear_provisioning = (\<lambda>w. (True, w)),
      rt_clear_storage = (\<lambda>w. w), rt_count = (\<lambda>c w. 0), rt_path_responses = (\<lambda>w. []), rt_announce_queues = (\<lambda>w. []),
      rt_hash = (\<lambda>c w. None), rt_heap_pool = (\<lambda>w. False), rt_psram_pool = (\<lambda>w. False), rt_neighbor_probing = False\<rparr>"

definition demo_env :: "demo_app penv" where
  "demo_env = \<lparr>pe_msgpack = demo_msgpack, pe_fs = demo_fs, pe_compress = (\<lambda>b. []), pe_use_fs = False,
     pe_runtime = demo_runtime\<rparr>"

definition demo_app0 :: demo_app where
  "demo_app0 = \<lparr>da_files = [], da_number = 0, da_rename = True\<rparr>"

definition demo_setter :: "demo_app setter" where
  "demo_setter v w = (Inr True, w\<lparr>da_number := as_int v\<rparr>)"

text \<open>A namespace 7 with a number that is applied at once, a password and a label.\<close>

definition demo_registration :: "demo_app pcommand list" where
  "demo_registration =
     [Register (Some [0x64]) 7,
      Reg_int (Some [0x6e]) 1 FF_LIVE_APPLY 0 (Some (0, 100)) (Some demo_setter)
        (Some da_number),
      Reg_bytes (Some [0x70]) 2 (FF_REBOOT_REQUIRED OR FF_SECRET) [] 8 None None,
      Reg_string (Some [0x6c]) 3 FF_REBOOT_REQUIRED None 8 None None, End_scope]"

definition demo_state :: "demo_app pcommand list \<Rightarrow> demo_app provisioner" where
  "demo_state cs = pv_run demo_env demo_app0 (demo_registration @ cs)"

lemma demo_state_ok: "pv_ok (demo_state cs)"
  unfolding demo_state_def by (rule pv_run_ok)

lemmas builder_defs = register_namespace_def add_namespace_def empty_registry_def new_provisioner_def new_namespace_def
  add_to_scope_def add_field_def base_field_def wrap_getter_def put_ns_def rg_update_def end_scope_def find_ns_def Let_def
  field_int_range_def field_bytes_def field_string_def no_constraint_def

lemmas demo_defs = demo_state_def pv_run_def demo_registration_def demo_env_def demo_app0_def builder_defs

text \<open>The namespace as registered, with the drafts \<open>d\<close>.\<close>

definition demo_field1 :: "demo_app pfield" where
  "demo_field1 = \<lparr>f_id = 1, f_name = [0x6e], f_type = Int_t, f_flags = FF_LIVE_APPLY,
     f_constraint = no_constraint\<lparr>c_has_range := True, c_imin := 0, c_imax := 100\<rparr>, f_default = Int_v 0,
     f_setter = Some demo_setter, f_getter = Some (\<lambda>w. Int_v (da_number w))\<rparr>"

definition demo_field2 :: "demo_app pfield" where
  "demo_field2 = \<lparr>f_id = 2, f_name = [0x70], f_type = Bytes_t, f_flags = 10,
     f_constraint = no_constraint\<lparr>c_max_len := 8\<rparr>, f_default = Bytes_v [], f_setter = None, f_getter = None\<rparr>"

definition demo_field3 :: "demo_app pfield" where
  "demo_field3 = \<lparr>f_id = 3, f_name = [0x6c], f_type = String_t, f_flags = FF_REBOOT_REQUIRED,
     f_constraint = no_constraint\<lparr>c_max_len := 8\<rparr>, f_default = String_v [], f_setter = None, f_getter = None\<rparr>"

definition demo_ns :: "(fid, pvalue) table \<Rightarrow> demo_app namespace" where
  "demo_ns d = \<lparr>ns_id = 7, ns_name = [0x64], ns_parent = 0, ns_fields = [demo_field1, demo_field2, demo_field3],
     ns_id_index = [(1, 0), (2, 1), (3, 2)], ns_name_index = [([0x6c], 2), ([0x6e], 0), ([0x70], 1)],
     ns_working = [(1, Int_v 0), (2, Bytes_v []), (3, String_v [])], ns_draft = d, ns_on_commit = None,
     ns_schema_hash = 0, ns_dirty = False\<rparr>"

definition demo_p :: "(fid, pvalue) table \<Rightarrow> demo_app provisioner" where
  "demo_p d = (new_provisioner demo_app0)
     \<lparr>pv_registry := \<lparr>rg_namespaces = [demo_ns d], rg_id_index = [(7, 0)], rg_name_index = [([0x64], 0)]\<rparr>\<rparr>"

lemma demo_state_Nil: "demo_state [] = demo_p []"
  by (simp add: demo_defs demo_p_def demo_ns_def demo_field1_def demo_field2_def demo_field3_def)

lemma demo_find:
  "find_ns 7 (pv_registry (demo_p d)) = Some 0" "pv_namespaces (demo_p d) ! 0 = demo_ns d"
  "pv_namespaces (demo_p d) = [demo_ns d]" "pv_world (demo_p d) = demo_app0"
  "find_field 1 (demo_ns d) = Some demo_field1" "find_field 2 (demo_ns d) = Some demo_field2"
  "find_field 3 (demo_ns d) = Some demo_field3" "ns_fields (demo_ns d) = [demo_field1, demo_field2, demo_field3]"
  "ns_draft (demo_ns d) = d" "draft k (demo_ns d) = tab_find k d" "ns_on_commit (demo_ns d) = None"
  "f_id demo_field1 = 1" "f_id demo_field2 = 2" "f_id demo_field3 = 3" "ns_id (demo_ns d) = 7"
  by (simp_all add: demo_p_def demo_ns_def new_provisioner_def find_ns_def find_field_def draft_def demo_field1_def
      demo_field2_def demo_field3_def)

lemma demo_flags:
  "has_flag demo_field1 x \<longleftrightarrow> 1 AND x \<noteq> 0" "has_flag demo_field2 x \<longleftrightarrow> 10 AND x \<noteq> 0"
  "has_flag demo_field3 x \<longleftrightarrow> 2 AND x \<noteq> 0"
  by (simp_all add: has_flag_def demo_field1_def demo_field2_def demo_field3_def)

lemma demo_p_drafts: "drafts_only (demo_p []) (demo_p d)" if "\<And>k v. tab_find k d = Some v \<Longrightarrow> draft_valid (demo_ns []) k v"
proof -
  have sh: "ns_shape (demo_ns d) = ns_shape (demo_ns [])" by (simp add: ns_shape_def demo_ns_def)
  have "ns_ok (demo_ns d)" if "ns_ok (demo_ns [])"
    using that \<open>\<And>k v. tab_find k d = Some v \<Longrightarrow> draft_valid (demo_ns []) k v\<close>
    by (intro ns_ok_values [OF that sh]) (simp_all add: demo_ns_def)
  then have "keeps (demo_ns []) (demo_ns d)" by (simp add: keeps_def sh)
  then show ?thesis
    unfolding drafts_only_def by (intro exI [of _ "[demo_ns d]"]) (simp add: demo_find, simp add: demo_p_def new_provisioner_def demo_ns_def)
qed

lemma demo_p_ok: "pv_ok (demo_p [])"
  using demo_state_ok [of "[]"] by (simp add: demo_state_Nil)

end
