(* ===== verification/Provision_Properties.thy ===== *)
theory Provision_Properties
  imports Provision_Demo
begin

text \<open>
  The properties of the configuration interface: what is stored has the declared type, a commit does what it
  promises, nothing takes effect before it, what is saved is loaded, and where the code departs from its
  intent.
\<close>

section \<open>Types and registration\<close>

lemma run_typed:
  assumes "i < length (pv_namespaces (pv_run E w cs))" and "ns = pv_namespaces (pv_run E w cs) ! i"
  shows "(draft k ns = Some v \<longrightarrow>
      (\<exists>f. find_field k ns = Some f \<and> \<not> has_flag f FF_READ_ONLY \<and> vtype_of v = f_type f \<and> validate f v)) \<and>
    (find_field k ns = Some f \<longrightarrow> working k ns = None_v \<or> vtype_of (working k ns) = f_type f) \<and>
    (find_field k ns = Some f \<longrightarrow> effective u k ns = None_v \<or> vtype_of (effective u k ns) = f_type f)"
proof -
  have ok: "ns_ok ns" using pv_okD(1) [OF pv_run_ok assms(1)] assms(2) by simp
  have d: "draft_valid ns k v" if "draft k ns = Some v" using ok that by (simp add: ns_ok_def draft_def)
  have u: "working k ns = None_v \<or> vtype_of (working k ns) = f_type f" if "find_field k ns = Some f"
    using ok that by (force simp: ns_ok_def working_def working_typed_def split: option.split)
  have e: "effective u k ns = None_v \<or> vtype_of (effective u k ns) = f_type f" if f: "find_field k ns = Some f"
  proof -
    have "field_ok f" using ok find_field_in [OF ok f] by (auto simp: ns_ok_def list_all_iff)
    then show ?thesis using u [OF f] f by (auto simp: effective_def field_ok_def split: option.split)
  qed
  show ?thesis using d u e by (auto simp: draft_valid_def dest: validate_type)
qed

text \<open>
  C15. Whatever an application registers and whatever direct calls and messages follow, in any order: every
  pending draft belongs to a registered field that is not read-only, has its declared type and satisfies its
  constraint; and the stored and the effective value of every field have the declared type, or are absent.
\<close>

theorem configuration_typed:
  assumes "i < length (pv_namespaces (pv_run E w cs))"
  shows "let ns = pv_namespaces (pv_run E w cs) ! i
    in (draft k ns = Some v \<longrightarrow>
         (\<exists>f. find_field k ns = Some f \<and> \<not> has_flag f FF_READ_ONLY \<and> vtype_of v = f_type f \<and> validate f v)) \<and>
       (find_field k ns = Some f \<longrightarrow> working k ns = None_v \<or> vtype_of (working k ns) = f_type f) \<and>
       (find_field k ns = Some f \<longrightarrow> effective u k ns = None_v \<or> vtype_of (effective u k ns) = f_type f)"
  unfolding Let_def using run_typed [OF assms refl] .

lemma demo_set_number: "demo_state [Set_field 7 1 (Int_v 5)] = demo_p [(1, Int_v 5)]"
proof -
  have "demo_state [Set_field 7 1 (Int_v 5)] = snd (set_field 7 1 (Int_v 5) (demo_state []))"
    by (simp add: demo_state_def pv_run_def)
  also have "\<dots> = demo_p [(1, Int_v 5)]"
    unfolding demo_state_Nil
    by (simp add: set_field_def demo_find set_draft_def demo_flags validate_def effective_def)
      (simp add: demo_p_def demo_ns_def put_ns_def rg_update_def new_provisioner_def demo_field1_def demo_app0_def)
  finally show ?thesis .
qed

theorem configuration_typed_witness:
  "\<exists>f. find_field 1 (demo_ns [(1, Int_v 5)]) = Some f \<and> validate f (Int_v 5) \<and> f_type f = Int_t"
  using configuration_typed [of 0 demo_env demo_app0 "demo_registration @ [Set_field 7 1 (Int_v 5)]" 1 "Int_v 5"
      demo_field1 demo_app0]
  by (simp add: demo_state_def [symmetric] demo_set_number demo_find Let_def)

text \<open>
  C32. Registration always returns: in every state that calls and messages can reach, the walk up the chain of
  parents in \<open>add_namespace\<close> ends, and so does \<open>begin\<close> with its built-in namespaces.
\<close>

theorem provisioning_returns:
  "(\<exists>p'. register_namespace name k (pv_run E w cs) = Some p') \<and>
   (\<exists>p'. begin_provisioning E rootdir (pv_run E w cs) = Some p')"
proof
  show "\<exists>p'. register_namespace name k (pv_run E w cs) = Some p'" by (rule register_returns [OF pv_run_ok])
  obtain p1 where "register_builtin_namespaces (pe_runtime E) (pv_run E w cs) = Some p1"
    using builtins_return [OF pv_run_ok, of "pe_runtime E"] by blast
  then show "\<exists>p'. begin_provisioning E rootdir (pv_run E w cs) = Some p'" by (simp add: begin_provisioning_def Let_def)
qed

section \<open>Drafts and commits\<close>

lemma shape_draft: "ns_shape (ns\<lparr>ns_draft := d\<rparr>) = ns_shape ns"
  by (simp add: ns_shape_def)

lemma save_ns_view:
  assumes "i < length (pv_namespaces p)"
  shows "ns_abs (pv_namespaces (snd (save_ns E i p)) ! i) = ns_abs (pv_namespaces p ! i) \<and>
    (\<forall>j. j \<noteq> i \<longrightarrow> pv_namespaces (snd (save_ns E i p)) ! j = pv_namespaces p ! j)"
proof -
  have "ns_abs (mark_clean ns) = ns_abs ns" for ns :: "'a namespace"
    by (simp add: ns_abs_def draft_def working_def mark_clean_def)
  then show ?thesis
    using assms
    by (auto simp: save_ns_def save_namespace_def save_namespace_force_def Let_def
        split: option.splits prod.splits if_splits bool.splits sum.splits)
qed

lemma commit_do_one_refines:
  assumes "pv_ok p" and "i < length (pv_namespaces p)" and "commit_do_one E i p = (Inr ok, p')"
  shows "ns_abs (pv_namespaces p' ! i) = spec_commit (is_command (pv_namespaces p ! i))
      (ns_abs (fst (run_hook (pv_namespaces p ! i) (pv_world p)))) \<and>
    (\<forall>j. j \<noteq> i \<longrightarrow> pv_namespaces p' ! j = pv_namespaces p ! j)"
proof -
  let ?ns = "pv_namespaces p ! i"
  have nok: "ns_ok ?ns" by (rule pv_okD(1) [OF assms(1,2)])
  obtain n1 w1 where h: "run_hook ?ns (pv_world p) = (n1, w1)" by (metis surj_pair)
  note n1 = ns_ok_hook [OF nok h]
  obtain os n2 w2 where c: "commit_ids (draft_ids n1) [] n1 w1 = (Inr os, n2, w2)"
    using assms(3) h by (auto simp: commit_do_one_def commit_namespace_def split: sum.splits prod.splits)
  have cmd: "is_command n1 = is_command ?ns"
    using n1 find_field_shape [of n1 ?ns] by (auto simp: is_command_def fun_eq_iff)
  have n2: "ns_abs n2 = spec_commit (is_command ?ns) (ns_abs n1)"
    using commit_all_refines(1) [OF _ c] n1 cmd by simp
  let ?p = "put_ns i n2 w2 p"
  have "pv_namespaces p' = pv_namespaces (snd (save_ns E i ?p))"
    using assms(3) h c by (auto simp: commit_do_one_def commit_namespace_def split: prod.splits if_splits)
  then show ?thesis using save_ns_view [of i ?p E] assms(2) n2 h by simp
qed

text \<open>
  C16. A commit refines its specification on two maps, the drafts and the stored values: every draft the hook
  leaves becomes the stored value of its field, unless the field is a command, no draft remains, whatever the
  setters answer, and no other namespace changes.
\<close>

theorem commit_refines:
  assumes "pv_ok p" and "n \<noteq> 0" and "find_ns n (pv_registry p) = Some i" and "commit E n p = (Inr ok, p')"
  shows "ns_abs (pv_namespaces p' ! i) = spec_commit (is_command (pv_namespaces p ! i))
      (ns_abs (fst (run_hook (pv_namespaces p ! i) (pv_world p)))) \<and>
    (\<forall>j. j \<noteq> i \<longrightarrow> pv_namespaces p' ! j = pv_namespaces p ! j)"
  using assms pv_okD(2) [OF assms(1,3)] by (intro commit_do_one_refines) (simp_all add: commit_def)

lemma demo_commit: "commit demo_env 7 (demo_p [(1, Int_v 5)]) =
    (Inr True, (demo_p [])\<lparr>pv_registry := \<lparr>rg_namespaces =
       [(demo_ns [])\<lparr>ns_working := [(1, Int_v 5), (2, Bytes_v []), (3, String_v [])], ns_dirty := True\<rparr>],
       rg_id_index = [(7, 0)], rg_name_index = [([0x64], 0)]\<rparr>, pv_world := demo_app0\<lparr>da_number := 5\<rparr>\<rparr>)"
  by (simp add: commit_def demo_find commit_do_one_def commit_namespace_def run_hook_def draft_ids_def has_draft_def
      commit_one_def demo_flags validate_def clear_draft_def tab_erase_def put_working_def call_setter_def)
    (simp add: call_setter_def demo_setter_def demo_field1_def no_constraint_def save_ns_def demo_p_def demo_ns_def new_provisioner_def
      put_ns_def rg_update_def demo_field2_def demo_field3_def)

lemma demo_p5_ok: "pv_ok (demo_p [(1, Int_v 5)])"
  using demo_state_ok [of "[Set_field 7 1 (Int_v 5)]"] by (simp add: demo_set_number)

theorem commit_refines_witness:
  "ns_abs (pv_namespaces (snd (commit demo_env 7 (demo_p [(1, Int_v 5)]))) ! 0) =
    spec_commit (is_command (demo_ns [(1, Int_v 5)])) (ns_abs (demo_ns [(1, Int_v 5)]))"
  using commit_refines [OF demo_p5_ok _ demo_find(1) demo_commit]
  by (simp add: demo_commit demo_find run_hook_def)

section \<open>Nothing takes effect before a commit\<close>

lemma effective_draft: "effective w k (ns\<lparr>ns_draft := d\<rparr>) = effective w k ns" "working k (ns\<lparr>ns_draft := d\<rparr>) = working k ns"
  by (auto simp: effective_def find_field_def working_def split: option.split)

lemma drafts_only_values:
  assumes "drafts_only p p'" and "pv_ok p"
  shows "field_of n k Working p' = field_of n k Working p"
proof (cases "find_ns n (pv_registry p)")
  case (Some i)
  then have "i < length (pv_namespaces p)" using pv_okD(2) [OF assms(2)] by blast
  then have "effective w k (pv_namespaces p' ! i) = effective w k (pv_namespaces p ! i)" for w
    by (subst drafts_only_ns [OF assms(1)]) (simp_all add: effective_draft)
  then show ?thesis using Some drafts_only_frame(1,5) [OF assms(1)] by (simp add: field_of_def)
qed (simp add: field_of_def drafts_only_frame(5) [OF assms(1)])

lemma dispatch_drafts_only:
  assumes "pv_ok p" and "op \<notin> {6, 8, 9}" and "dispatch E op sq up p = (r, p')"
  shows "drafts_only p p'"
  using assms(2,3) op_set_state_drafts [OF assms(1)] op_discard_drafts [OF assms(1)]
  by (auto simp: dispatch_def split: if_splits prod.splits)

text \<open>
  C29. Only Commit, FactoryReset and Reboot take effect: after any other operation, however malformed its
  payload, the application state, the reboot flag and the value of every field are what they were; in
  particular no setter has run and nothing was written to storage.
\<close>

theorem only_commit_takes_effect:
  assumes "pv_ok p" and "op \<notin> {6, 8, 9}" and "dispatch E op sq up p = (r, p')"
  shows "pv_world p' = pv_world p \<and> pv_needs_reboot p' = pv_needs_reboot p \<and>
    field_of n k Working p' = field_of n k Working p"
  using dispatch_drafts_only [OF assms] drafts_only_frame drafts_only_values [OF _ assms(1)] by blast

theorem only_commit_takes_effect_witness:
  "field_of 7 1 Working (snd (dispatch demo_env 5 3 (Some [MP_map 1, MP_uint 3, MP_map 1, MP_uint 7, MP_map 1, MP_uint 1,
     MP_uint 5]) (demo_p []))) = Int_v 0"
  using only_commit_takes_effect [OF demo_p_ok _ surjective_pairing, of 5 demo_env 3 "Some [MP_map 1, MP_uint 3, MP_map 1,
      MP_uint 7, MP_map 1, MP_uint 1, MP_uint 5]" 7 1]
  by (simp add: field_of_def demo_find effective_def demo_flags) (simp add: demo_field1_def demo_app0_def)

section \<open>Secrets\<close>

text \<open>
  Two states that differ at most in the values of secret fields and commands.  Which fields are
  public is read off the flag bits of the field, not off the test the report makes.
\<close>

definition public_field :: "'w pfield \<Rightarrow> bool" where
  "public_field f \<longleftrightarrow> f_flags f AND FF_SECRET = 0 \<and> f_flags f AND FF_WRITE_ONLY = 0"

lemma public_field_flags: "public_field f \<longleftrightarrow> \<not> has_flag f FF_SECRET \<and> \<not> has_flag f FF_WRITE_ONLY"
  by (simp add: public_field_def has_flag_def)

lemma readable_public: "readable f \<Longrightarrow> public_field f"
  by (simp add: public_field_flags readable_def)

definition same_public :: "'w provisioner \<Rightarrow> 'w provisioner \<Rightarrow> bool" where
  "same_public p q \<longleftrightarrow>
     list_all2 (\<lambda>a b. ns_id a = ns_id b \<and> ns_fields a = ns_fields b \<and>
         (\<forall>f \<in> set (ns_fields a). public_field f \<longrightarrow> base_state_value (pv_world p) a f = base_state_value (pv_world q) b f))
       (pv_namespaces p) (pv_namespaces q)"

lemma pack_fields_cong:
  assumes "\<And>f. f \<in> set fs \<Longrightarrow> keep f \<Longrightarrow> val f = val' f"
  shows "pack_fields keep val fs = pack_fields keep val' fs"
proof -
  have "filter (\<lambda>f. keep f \<and> \<not> is_none (val f)) fs = filter (\<lambda>f. keep f \<and> \<not> is_none (val' f)) fs"
    using assms by (intro filter_cong) auto
  moreover have "map (\<lambda>f. MP_uint (unat (f_id f)) # pack_value (val f)) (filter (\<lambda>f. keep f \<and> \<not> is_none (val' f)) fs) =
      map (\<lambda>f. MP_uint (unat (f_id f)) # pack_value (val' f)) (filter (\<lambda>f. keep f \<and> \<not> is_none (val' f)) fs)"
    using assms by (intro map_cong) auto
  ultimately show ?thesis by (simp only: pack_fields_def)
qed

lemma same_public_filter:
  "list_all2 R xs ys \<Longrightarrow> (\<And>x y. R x y \<Longrightarrow> P x = P y) \<Longrightarrow> list_all2 R (filter P xs) (filter P ys)"
  by (induction xs ys rule: list_all2_induct) auto

lemma same_public_values:
  assumes "list_all2 (\<lambda>a b. ns_id a = ns_id b \<and> ns_fields a = ns_fields b \<and>
      (\<forall>f \<in> set (ns_fields a). public_field f \<longrightarrow> base_state_value u a f = base_state_value w b f)) xs ys"
  shows "pack_ns_values u xs = pack_ns_values w ys"
proof -
  have "concat (map (\<lambda>ns. MP_uint (unat (ns_id ns)) # pack_fields readable (base_state_value u ns) (ns_fields ns)) xs) =
      concat (map (\<lambda>ns. MP_uint (unat (ns_id ns)) # pack_fields readable (base_state_value w ns) (ns_fields ns)) ys)"
    using assms by (induction xs ys rule: list_all2_induct) (auto intro!: pack_fields_cong dest: readable_public)
  then show ?thesis using list_all2_lengthD [OF assms] by (simp add: pack_ns_values_def)
qed

text \<open>
  C30. Secrets do not leave the device in a state report: a GetState that does not ask for drafts is answered
  with the same octets in two states that differ only in the values of secret fields and commands.
\<close>

theorem secrets_not_reported:
  assumes "same_public p q" and "\<not> rq_draft (parse_get_state (pe_msgpack E) up)"
  shows "op_get_state E sq up p = op_get_state E sq up q"
proof -
  let ?rq = "parse_get_state (pe_msgpack E) up"
  have "pack_ns_values (pv_world p) (scope_of ?rq p) = pack_ns_values (pv_world q) (scope_of ?rq q)"
    unfolding scope_of_def
    by (rule same_public_values, rule same_public_filter [OF assms(1) [unfolded same_public_def]]) auto
  then show ?thesis using assms(2) by (simp add: op_get_state_def pack_content_def Let_def)
qed

text \<open>The demonstration state with another password.\<close>

definition demo_q :: "bytes \<Rightarrow> demo_app provisioner" where
  "demo_q pw = (demo_p [])\<lparr>pv_registry := (pv_registry (demo_p []))\<lparr>rg_namespaces :=
     [put_working 2 (Bytes_v pw) (demo_ns [])]\<rparr>\<rparr>"

lemma demo_q_public: "same_public (demo_q a) (demo_q b)"
  by (simp add: same_public_def demo_q_def demo_find put_working_def public_field_flags demo_flags base_state_value_def)
    (auto simp: working_def tab_find_assign effective_def find_field_def demo_ns_def demo_p_def new_provisioner_def
      split: option.split)

theorem secrets_not_reported_witness:
  "op_get_state demo_env 1 None (demo_q [1, 2, 3]) = op_get_state demo_env 1 None (demo_q [4])"
  using secrets_not_reported [OF demo_q_public] by (simp add: parse_get_state_def parse_request_def empty_request_def)

lemma draft_items:
  assumes "ns \<in> set nss" and "f \<in> set (ns_fields ns)" and "draft (f_id f) ns = Some v"
  obtains pre post where "pack_ns_drafts nss = pre @ MP_uint (unat (f_id f)) # pack_value v @ post"
proof -
  let ?item = "\<lambda>ns f. case draft (f_id f) ns of None \<Rightarrow> [] | Some v \<Rightarrow> MP_uint (unat (f_id f)) # pack_value v"
  let ?body = "\<lambda>ns. MP_uint (unat (ns_id ns)) # MP_map (length (filter (\<lambda>f. has_draft (f_id f) ns) (ns_fields ns))) #
      concat (map (?item ns) (ns_fields ns))"
  obtain n1 n2 where n: "nss = n1 @ ns # n2" using assms(1) by (metis split_list)
  obtain f1 f2 where f: "ns_fields ns = f1 @ f # f2" using assms(2) by (metis split_list)
  have "?body ns = (MP_uint (unat (ns_id ns)) # MP_map (length (filter (\<lambda>f. has_draft (f_id f) ns) (ns_fields ns))) #
      concat (map (?item ns) f1)) @ MP_uint (unat (f_id f)) # pack_value v @ concat (map (?item ns) f2)"
    using assms(3) by (simp add: f)
  then have "pack_ns_drafts nss = (MP_map (length nss) # concat (map ?body n1) @ MP_uint (unat (ns_id ns)) #
      MP_map (length (filter (\<lambda>f. has_draft (f_id f) ns) (ns_fields ns))) # concat (map (?item ns) f1)) @
      MP_uint (unat (f_id f)) # pack_value v @ concat (map (?item ns) f2) @ concat (map ?body n2)"
    by (simp add: pack_ns_drafts_def n)
  then show ?thesis by (rule that)
qed

text \<open>
  But a secret that is being set leaves the device: while its new value is a draft, any GetState that asks
  for drafts and covers its namespace is answered with that value in the clear.
\<close>

lemma draft_of_secret_disclosed:
  assumes "rq_draft (parse_get_state (pe_msgpack E) up)" and "rq_prior (parse_get_state (pe_msgpack E) up) = None"
    and "ns \<in> set (scope_of (parse_get_state (pe_msgpack E) up) p)" and "f \<in> set (ns_fields ns)"
    and "has_flag f FF_SECRET" and "draft (f_id f) ns = Some v"
  shows "\<exists>pre post. op_get_state E sq up p =
    pack_response E 4 sq (rq_compress (parse_get_state (pe_msgpack E) up))
      (pre @ MP_uint (unat (f_id f)) # pack_value v @ post)"
proof -
  let ?rq = "parse_get_state (pe_msgpack E) up"
  let ?drafts = "filter has_any_draft (scope_of ?rq p)"
  have "has_any_draft ns" using assms(6) by (auto simp: has_any_draft_def draft_def)
  then have mem: "ns \<in> set ?drafts" using assms(3) by simp
  then have ne: "?drafts \<noteq> []" by (metis list.set(1) empty_iff)
  obtain pre post where "pack_ns_drafts ?drafts = pre @ MP_uint (unat (f_id f)) # pack_value v @ post"
    by (rule draft_items [OF mem assms(4,6)])
  then show ?thesis
    using assms(1,2) ne unfolding op_get_state_def pack_content_def Let_def
    by (simp add: append_assoc [symmetric] del: append_assoc) (metis append.assoc append_Cons)
qed

lemma demo_parse_drafts:
  "parse_get_state (pe_msgpack demo_env) (Some [MP_map 1, MP_uint 2, MP_bool True]) = empty_request\<lparr>rq_draft := True\<rparr>"
  by (simp add: parse_get_state_def parse_request_def mp_is_map_def mp_map_size_def read_uint_key_def mp_is_int_def
      read_flag_def mp_is_bool_def mp_bool_def)

section \<open>Setting fields over the wire\<close>

text \<open>The payload of a SetState request for namespace \<open>n\<close>, with the entries of its inner map.\<close>

definition set_payload :: "nid \<Rightarrow> nat \<Rightarrow> mp_item list \<Rightarrow> mp_item list" where
  "set_payload n j entries = [MP_map 1, MP_uint 3, MP_map 1, MP_uint (unat n), MP_map j] @ entries"

lemma mp_int_id: "mp_int M (MP_uint (unat (k :: 16 word)) # r) = (int (unat k), r)"
  by (rule mp_read_simps(3)) (rule less_trans [OF unsigned_less], simp)

lemma read_small_key: "read_uint_key M (MP_uint j # r) = (Some (word_of_nat j), r)" if "j < 2 ^ 63"
  using that by (simp add: read_uint_key_def mp_is_int_def)

lemma op_set_state_payload:
  assumes "find_ns n (pv_registry p) = Some i"
    and "set_fields (pe_msgpack E) n (Some i) j entries (empty_set_state\<lparr>st_saw := True, st_touched := [i]\<rparr>) p = (r, st, p')"
    and "st_saw st"
  shows "op_set_state E sq (Some (set_payload n j entries)) p =
    (pack_response E 5 sq (st_compress st) (set_response (pe_msgpack E) st p'), p')"
  using assms
  by (simp add: op_set_state_def set_payload_def mp_is_map_def mp_map_size_def set_entry_def read_small_key set_ns_def
      mp_is_int_def mp_int_id touch_def empty_set_state_def)

lemma set_one_value:
  assumes "find_field k (pv_namespaces p ! i) = Some f" and "\<not> has_flag f FF_READ_ONLY" and "validate f v"
    and "wire_ok M v"
  shows "set_one M n (Some i) (MP_uint (unat k) # pack_value v @ r) st p =
    (r, st\<lparr>st_applied := st_applied st + 1\<rparr>,
     put_ns i (snd (set_draft (pv_world p) k v (pv_namespaces p ! i))) (pv_world p) p)"
proof -
  have "fst (set_draft (pv_world p) k v (pv_namespaces p ! i))" using assms(1-3) by (simp add: set_draft_def)
  then show ?thesis
    using assms(1,2) unpack_pack_value [OF assms(4) validate_type [OF assms(3)]]
    by (cases "set_draft (pv_world p) k v (pv_namespaces p ! i)") (simp add: set_one_def mp_is_int_def mp_int_id)
qed

text \<open>
  An integer for a field of octets goes to another field: it is read as the next field id, and the field id
  behind it as the value, so that a write nobody asked for becomes a draft.
\<close>

lemma mismatch_redirects_write:
  fixes k2 :: fid
  assumes "find_field k1 (pv_namespaces p ! i) = Some f1" and "f_type f1 = Bytes_t"
    and "find_field k3 (pv_namespaces p ! i) = Some f3" and "\<not> has_flag f3 FF_READ_ONLY"
    and "validate f3 (Int_v (int (unat k2)))"
  shows "set_fields M n (Some i) 2 ([MP_uint (unat k1), MP_uint (unat k3), MP_uint (unat k2)] @ r) st p =
    (r, (report n k1 E_InvalidValue st)\<lparr>st_applied := st_applied st + 1\<rparr>,
     put_ns i (snd (set_draft (pv_world p) k3 (Int_v (int (unat k2))) (pv_namespaces p ! i))) (pv_world p) p)"
proof -
  have "uint k2 < 2 ^ 63" by (rule less_le_trans [OF uint_bounded]) simp
  moreover have "- (2 ^ 63) \<le> uint k2" by (rule order_trans [OF _ uint_ge_0]) simp
  ultimately have w: "wire_ok M (Int_v (int (unat k2)))" by (simp add: wire_ok_def)
  have v: "pack_value (Int_v (int (unat k2))) = [MP_uint (unat k2)]" by (simp add: pack_value_def mp_signed_def)
  have "set_one M n (Some i) ([MP_uint (unat k1), MP_uint (unat k3), MP_uint (unat k2)] @ r) st p =
      ([MP_uint (unat k3), MP_uint (unat k2)] @ r, report n k1 E_InvalidValue st, p)"
    using assms(1,2) by (simp add: set_one_def mp_is_int_def mp_int_id unpack_value_def mp_is_bin_def)
  then show ?thesis
    using set_one_value [OF assms(3-5) w, of n r "report n k1 E_InvalidValue st"] v
    by (simp add: numeral_2_eq_2 report_def)
qed

text \<open>
  C38. A text for a field that is not a string takes the next write with it: of two writes in one request, the
  first such a text, the first is reported as invalid, and the second, which would be applied if it stood
  alone, is neither applied nor reported.
\<close>

theorem mismatch_swallows_next_write:
  assumes "find_ns n (pv_registry p) = Some i" and "find_field k1 (pv_namespaces p ! i) = Some f1"
    and "f_type f1 \<noteq> String_t" and "find_field k2 (pv_namespaces p ! i) = Some f2"
    and "\<not> has_flag f2 FF_READ_ONLY" and "validate f2 v2" and "wire_ok (pe_msgpack E) v2"
  shows "op_set_state E sq (Some (set_payload n 2 ([MP_uint (unat k1), MP_str t, MP_uint (unat k2)] @ pack_value v2))) p =
      (pack_response E 5 sq False (set_response (pe_msgpack E)
        (empty_set_state\<lparr>st_saw := True, st_touched := [i], st_errors := [(n, k1, E_InvalidValue)]\<rparr>) p), p) \<and>
    st_applied (fst (snd (set_fields (pe_msgpack E) n (Some i) 1 (MP_uint (unat k2) # pack_value v2) empty_set_state p))) = 1"
proof
  have u: "unpack_value (pe_msgpack E) (f_type f1) (MP_str t # r) = (None, MP_str t # r)" for r
    using assms(3) by (cases "f_type f1")
      (simp_all add: unpack_value_def mp_is_bool_def mp_is_int_def mp_is_num_def mp_is_bin_def mp_is_array_def)
  have f: "set_fields (pe_msgpack E) n (Some i) 2 ([MP_uint (unat k1), MP_str t, MP_uint (unat k2)] @ pack_value v2) st p =
      (pack_value v2, report n k1 E_InvalidValue st, p)" for st
    using assms(2) u by (simp add: numeral_2_eq_2 set_one_def mp_is_int_def mp_int_id)
  show "op_set_state E sq (Some (set_payload n 2 ([MP_uint (unat k1), MP_str t, MP_uint (unat k2)] @ pack_value v2))) p =
      (pack_response E 5 sq False (set_response (pe_msgpack E)
        (empty_set_state\<lparr>st_saw := True, st_touched := [i], st_errors := [(n, k1, E_InvalidValue)]\<rparr>) p), p)"
    using op_set_state_payload [OF assms(1) f] by (simp add: report_def empty_set_state_def)
  show "st_applied (fst (snd (set_fields (pe_msgpack E) n (Some i) 1 (MP_uint (unat k2) # pack_value v2) empty_set_state p))) = 1"
    using set_one_value [OF assms(4-7), of n "[]" empty_set_state] by (simp add: empty_set_state_def)
qed

theorem mismatch_swallows_next_write_witness:
  "snd (op_set_state demo_env 1 (Some (set_payload 7 2 ([MP_uint (unat (1 :: fid)), MP_str [0x35], MP_uint (unat (3 :: fid))] @
     pack_value (String_v [0x61])))) (demo_p [])) = demo_p []"
  using mismatch_swallows_next_write [of 7 "demo_p []" 0 1 demo_field1 3 demo_field3 "String_v [0x61]" demo_env 1 "[0x35]"]
  by (simp add: demo_find demo_flags validate_def wire_ok_def) (simp add: demo_field1_def demo_field3_def no_constraint_def)

text \<open>The two requests of a client that changes one field: SetState, then Commit.\<close>

definition set_request :: "msgpack \<Rightarrow> nat \<Rightarrow> nid \<Rightarrow> fid \<Rightarrow> pvalue \<Rightarrow> bytes" where
  "set_request M s n k v =
     mp_pack M ([MP_array 3, MP_uint 5, MP_uint s] @ set_payload n 1 (MP_uint (unat k) # pack_value v))"

definition commit_request :: "msgpack \<Rightarrow> nat \<Rightarrow> nid \<Rightarrow> bytes" where
  "commit_request M s n = mp_pack M [MP_array 3, MP_uint 6, MP_uint s, MP_map 1, MP_uint 1, MP_array 1, MP_uint (unat n)]"

lemma handle_dispatch:
  assumes "pv_started p" and "mp_feed (pe_msgpack E) req = [MP_array 3, MP_uint opn, MP_uint s] @ payload"
    and "opn < 256" and "s < 2 ^ 63"
  shows "handle_message E req p = dispatch E (word_of_nat opn) (word_of_nat s) (Some payload) p"
  using assms by (simp add: handle_message_def mp_is_array_def mp_array_size_def mp_is_int_def)

lemma feed_set_request:
  assumes "msgpack_ok M" and "wire_ok M v" and "s < 2 ^ 63"
  shows "mp_feed M (set_request M s n k v) =
    [MP_array 3, MP_uint 5, MP_uint s] @ set_payload n 1 (MP_uint (unat k) # pack_value v)"
  unfolding set_request_def
  using assms mp_wf_pack_value [OF assms(2)] less_trans [OF unsigned_less [of n], of "2 ^ 64"] less_trans [OF unsigned_less [of k], of "2 ^ 64"]
  by (intro msgpack_okD(3)) (simp_all add: set_payload_def)

lemma feed_commit_request:
  assumes "msgpack_ok M" and "s < 2 ^ 63"
  shows "mp_feed M (commit_request M s n) = [MP_array 3, MP_uint 6, MP_uint s, MP_map 1, MP_uint 1, MP_array 1, MP_uint (unat n)]"
  unfolding commit_request_def
  using assms less_trans [OF unsigned_less [of n], of "2 ^ 64"] by (intro msgpack_okD(3)) simp_all

lemma op_commit_one_ns:
  assumes "find_ns n (pv_registry p) = Some i"
    and "commit_namespace (pv_namespaces p ! i) (pv_world p) = (Inr os, ns, w)" and "Applied_reboot \<notin> set os"
  shows "\<exists>r. op_commit E sq (Some [MP_map 1, MP_uint 1, MP_array 1, MP_uint (unat n)]) p =
    (Inr r, snd (save_ns E i (put_ns i ns w p)))"
proof -
  let ?up = "Some [MP_map 1, MP_uint 1, MP_array 1, MP_uint (unat n)]"
  have rq: "parse_commit (pe_msgpack E) ?up = empty_request\<lparr>rq_filter := [n], rq_has_filter := True\<rparr>"
    by (simp add: parse_commit_def parse_request_def mp_is_map_def mp_map_size_def read_small_key read_filter_def
        mp_is_array_def mp_array_size_def mp_is_int_def mp_int_id empty_request_def)
  have "selected True [n] p = [i]" using assms(1) by (simp add: selected_def List.map_filter_def)
  then show ?thesis
    using assms(2,3) by (simp add: op_commit_def rq [unfolded One_nat_def] empty_request_def op_commit_one_def Let_def set_reboot_flag_def)
qed

lemma find_filter: "List.find P xs = (case filter P xs of [] \<Rightarrow> None | x # _ \<Rightarrow> Some x)"
  by (induction xs) simp_all

lemma save_namespace_shape:
  "save_namespace M F dir ns w = (ok, ns', w') \<Longrightarrow> ns' = ns \<or> ns' = mark_clean ns"
  by (auto simp: save_namespace_def save_namespace_force_def Let_def split: if_splits prod.splits bool.splits sum.splits)

lemma save_ns_result:
  assumes "i < length (pv_namespaces p)"
  shows "\<exists>b. pv_namespaces (snd (save_ns E i p)) ! i = (if b then mark_clean (pv_namespaces p ! i) else pv_namespaces p ! i) \<and>
    find_ns n (pv_registry (snd (save_ns E i p))) = find_ns n (pv_registry p) \<and>
    (pv_world (snd (save_ns E i p)) = pv_world p \<or>
     (\<exists>dir. pv_world (snd (save_ns E i p)) =
        snd (snd (save_namespace (pe_msgpack E) (pe_fs E) dir (pv_namespaces p ! i) (pv_world p)))))"
proof (cases "pv_storage p")
  case None
  then show ?thesis by (intro exI [of _ False]) (simp add: save_ns_def)
next
  case (Some dir)
  obtain ok ns w where sv: "save_namespace (pe_msgpack E) (pe_fs E) dir (pv_namespaces p ! i) (pv_world p) = (ok, ns, w)"
    by (metis prod_cases3)
  then have sn: "snd (save_ns E i p) = put_ns i ns w p" using Some by (simp add: save_ns_def)
  have "\<exists>b. ns = (if b then mark_clean (pv_namespaces p ! i) else pv_namespaces p ! i)"
    using save_namespace_shape [OF sv] by auto
  moreover have "w = snd (snd (save_namespace (pe_msgpack E) (pe_fs E) dir (pv_namespaces p ! i) (pv_world p)))"
    by (simp add: sv)
  ultimately show ?thesis using assms by (simp add: sn) blast
qed

lemma filter_one_id: "f \<in> set fs \<Longrightarrow> distinct (map f_id fs) \<Longrightarrow> filter (\<lambda>h. f_id h = f_id f) fs = [f]"
proof (induction fs)
  case (Cons a fs)
  show ?case
  proof (cases "a = f")
    case True
    then have "f_id f \<notin> f_id ` set fs" using Cons.prems by simp
    then have "filter (\<lambda>h. f_id h = f_id f) fs = []" unfolding filter_empty_conv by (metis imageI)
    with True show ?thesis by simp
  next
    case False
    then have f: "f \<in> set fs" using Cons.prems(1) by simp
    then have "f_id a \<noteq> f_id f" using Cons.prems(2) by (metis distinct.simps(2) image_eqI list.set_map list.simps(9))
    with f Cons show ?thesis by simp
  qed
qed simp

text \<open>Committing one draft, or none where the value is that of the runtime already.\<close>

lemma commit_one_value:
  assumes fid: "f_id f = k" "f \<in> set (ns_fields ns)" "distinct (map f_id (ns_fields ns))"
    and n: "ns_on_commit ns = None" and f: "find_field k ns = Some f" "has_flag f FF_LIVE_APPLY" "\<not> has_flag f FF_READ_ONLY"
      "\<not> has_flag f FF_WRITE_ONLY" "\<not> has_flag f FF_REBOOT_REQUIRED" "validate f v"
    and n1: "n1 = ns\<lparr>ns_draft := (if g w = v then [] else [(k, v)])\<rparr>"
    and s: "f_setter f = Some s" "f_getter f = Some g" "\<And>w. fst (s v w) = Inr True \<and> g (snd (s v w)) = v"
  shows "\<exists>os n2 w2. commit_namespace n1 w = (Inr os, n2, w2) \<and> Applied_reboot \<notin> set os \<and>
    find_field k n2 = Some f \<and> ns_draft n2 = [] \<and> g w2 = v"
proof -
  have one: "filter (\<lambda>h. f_id h = k) (ns_fields ns) = [f]" using filter_one_id [OF fid(2,3)] fid(1) by simp
  have ff: "find_field k (ns\<lparr>ns_draft := d\<rparr>) = Some f" for d by (rule trans [OF find_field_shape [OF shape_draft] f(1)])
  show ?thesis
  proof (cases "g w = v")
    case True
    then have "commit_namespace n1 w = (Inr [], n1, w)" "find_field k n1 = Some f" "ns_draft n1 = []"
      using n ff [of "[]"] by (simp_all add: n1 commit_namespace_def run_hook_def draft_ids_def has_draft_def)
    then show ?thesis using True by (metis empty_iff empty_set)
  next
    case False
    then have d: "draft_ids n1 = [k]" using one fid(1) by (simp add: n1 draft_ids_def has_draft_def if_distrib cong: if_cong)
    let ?n2 = "put_working k v (clear_draft k n1)"
    have "ns_shape ?n2 = ns_shape ns" by (simp add: n1 shape_draft)
    then have "find_field k ?n2 = Some f" using f(1) find_field_shape by metis
    moreover have "commit_namespace n1 w = (Inr [Applied_live], ?n2, snd (s v w))"
      using d n ff [of "[(k, v)]"] f s(1) s(3) [of w] False
      by (cases "s v w") (simp add: commit_namespace_def run_hook_def n1 commit_one_def draft_def call_setter_def)
    moreover have "ns_draft ?n2 = []" using False by (simp add: n1 put_working_def clear_draft_def tab_erase_def)
    ultimately show ?thesis using s(3) [of w] by fastforce
  qed
qed

text \<open>
  C18. A client can set a field: after a SetState and a Commit for one field of a namespace without drafts
  and without a commit hook, the field reads as the value that was sent, and no draft is left.  The field is
  readable, writable and applied at once, the value is valid and survives the wire, the setter accepts it,
  the getter reads it back, and saving the namespace does not touch what the getter reads.  (A setter that
  narrows its argument breaks the last but one condition, see \<open>persist_interval_wraps\<close>.)
\<close>

theorem set_and_commit:
  assumes M: "msgpack_ok (pe_msgpack E)" and ok: "pv_ok p" "pv_started p"
    and n: "find_ns n (pv_registry p) = Some i" "ns_draft (pv_namespaces p ! i) = []" "ns_on_commit (pv_namespaces p ! i) = None"
    and f: "find_field k (pv_namespaces p ! i) = Some f" "has_flag f FF_LIVE_APPLY" "\<not> has_flag f FF_READ_ONLY"
      "\<not> has_flag f FF_WRITE_ONLY" "\<not> has_flag f FF_REBOOT_REQUIRED" "validate f v" "wire_ok (pe_msgpack E) v"
    and s: "f_setter f = Some s" "f_getter f = Some g" "\<And>w. fst (s v w) = Inr True \<and> g (snd (s v w)) = v"
    and save: "\<And>dir ns w. g (snd (snd (save_namespace (pe_msgpack E) (pe_fs E) dir ns w))) = g w"
    and seqs: "s1 < 2 ^ 63" "s2 < 2 ^ 63"
  shows "\<exists>r1 p1 r2 p2. handle_message E (set_request (pe_msgpack E) s1 n k v) p = (Inr r1, p1) \<and>
    handle_message E (commit_request (pe_msgpack E) s2 n) p1 = (Inr r2, p2) \<and>
    field_of n k Working p2 = v \<and> field_of n k Draft p2 = None_v"
proof -
  let ?M = "pe_msgpack E" and ?ns = "pv_namespaces p ! i" and ?w = "pv_world p"
  have i: "i < length (pv_namespaces p)" using pv_okD(2) [OF ok(1) n(1)] by simp
  let ?n1 = "snd (set_draft ?w k v ?ns)"
  let ?p1 = "put_ns i ?n1 ?w p"
  have "\<exists>r. op_set_state E (word_of_nat s1) (Some (set_payload n 1 (MP_uint (unat k) # pack_value v))) p = (r, ?p1)"
    using op_set_state_payload [OF n(1), of E 1] set_one_value [OF f(1,3,6,7), of n "[]"]
    by (simp add: empty_set_state_def)
  then obtain r1 where h1: "handle_message E (set_request ?M s1 n k v) p = (Inr r1, ?p1)"
    using handle_dispatch [OF ok(2) feed_set_request [OF M f(7) seqs(1)] _ seqs(1)] by (auto simp: dispatch_def)
  have n1: "?n1 = ?ns\<lparr>ns_draft := (if g ?w = v then [] else [(k, v)])\<rparr>"
    using f n(2) s(2) by (simp add: set_draft_def effective_def tab_erase_def)
  have fid: "f_id f = k" "f \<in> set (ns_fields ?ns)" "distinct (map f_id (ns_fields ?ns))"
    using find_field_in [OF pv_okD(1) [OF ok(1) i] f(1)] distinct_field_ids [OF pv_okD(1) [OF ok(1) i]] by simp_all
  obtain os n2 w2 where c: "commit_namespace ?n1 ?w = (Inr os, n2, w2)" "Applied_reboot \<notin> set os"
      "find_field k n2 = Some f" "ns_draft n2 = []" "g w2 = v"
    using commit_one_value [OF fid n(3) f(1-6) n1 s] by metis
  let ?p2 = "snd (save_ns E i (put_ns i n2 w2 ?p1))"
  obtain r2 where r2: "op_commit E (word_of_nat s2) (Some [MP_map 1, MP_uint 1, MP_array 1, MP_uint (unat n)]) ?p1 = (Inr r2, ?p2)"
    using op_commit_one_ns [of n ?p1 i os n2 w2 E] n(1) c(1,2) i by auto
  have h2: "handle_message E (commit_request ?M s2 n) ?p1 = (Inr r2, ?p2)"
    using handle_dispatch [of ?p1, OF _ _ _ seqs(2), of E "commit_request ?M s2 n" 6] feed_commit_request [OF M seqs(2)] ok(2) r2
    by (simp add: dispatch_def)
  let ?q = "put_ns i n2 w2 ?p1"
  have q: "pv_namespaces ?q ! i = n2" "i < length (pv_namespaces ?q)" "find_ns n (pv_registry ?q) = Some i" "pv_world ?q = w2"
    using i n(1) by simp_all
  obtain b where b: "pv_namespaces ?p2 ! i = (if b then mark_clean n2 else n2)" "find_ns n (pv_registry ?p2) = Some i"
      "g (pv_world ?p2) = g w2"
    using save_ns_result [OF q(2), of E] q save by (metis (no_types, lifting))
  have "find_field k (mark_clean n2) = Some f" "draft k (mark_clean n2) = draft k n2" "draft k n2 = None"
    using c(3,4) find_field_shape [of "mark_clean n2" n2] by (simp_all, simp_all add: draft_def mark_clean_def)
  then have "field_of n k Working ?p2 = v \<and> field_of n k Draft ?p2 = None_v"
    using b c(3,5) f(4) s(2) by (cases b) (simp_all add: field_of_def effective_def)
  with h1 h2 show ?thesis by blast
qed

definition demo_r :: "demo_app provisioner" where
  "demo_r = (demo_p [])\<lparr>pv_started := True\<rparr>"

lemma demo_save_number: "da_number (snd (snd (save_namespace M demo_fs dir ns w))) = da_number w"
  by (auto simp: save_namespace_def save_namespace_force_def ensure_directory_def os_defs replace_file_def demo_fs_def Let_def
      split: if_splits)

lemma demo_r_simps:
  "pv_ok demo_r" "pv_started demo_r" "find_ns 7 (pv_registry demo_r) = Some 0" "pv_namespaces demo_r ! 0 = demo_ns []"
  "msgpack_ok (pe_msgpack demo_env)"
  using demo_p_ok demo_msgpack_ok by (simp_all add: demo_r_def demo_find demo_env_def)

theorem set_and_commit_witness:
  "\<exists>r1 p1 r2 p2. handle_message demo_env (set_request (pe_msgpack demo_env) 1 7 1 (Int_v 5)) demo_r = (Inr r1, p1) \<and>
    handle_message demo_env (commit_request (pe_msgpack demo_env) 2 7) p1 = (Inr r2, p2) \<and>
    field_of 7 1 Working p2 = Int_v 5 \<and> field_of 7 1 Draft p2 = None_v"
  by (rule set_and_commit [where i = 0 and f = demo_field1 and s = demo_setter and g = "\<lambda>w. Int_v (da_number w)"])
    (simp_all add: demo_r_simps demo_find demo_flags wire_ok_def demo_setter_def demo_save_number demo_env_def
       demo_msgpack_ok,
     simp_all add: demo_field1_def validate_def no_constraint_def)

section \<open>Storage\<close>

text \<open>
  C27. What is saved is loaded: after a save that reports success, loading the file into a freshly registered
  namespace with the same fields restores every persistent value that satisfies its constraint, and the
  namespace is clean; the other files are as they were.  All the values saved must survive the packing: their
  lengths fit MessagePack, doubles are representable, and no string holds a NUL octet.
\<close>

theorem storage_roundtrip:
  assumes "msgpack_ok M" and "fs_laws F C" and "fs_registered F w" and "fs_is_directory F dir w"
    and "ns_ok ns" and "ns_ok ns0" and "ns_shape ns0 = ns_shape ns"
    and "list_all (\<lambda>f. wire_ok M (persist_value w ns f)) (saved_fields w ns)" and "length (ns_fields ns) < 2 ^ 32"
    and "save_namespace_force M F dir ns w = (True, ns', w')" and "f \<in> set (saved_fields w ns)"
    and "validate f (persist_value w ns f)" and "path \<noteq> file_path dir ns" and "path \<noteq> tmp_path dir ns"
  shows "\<exists>ns1. load_namespace M F dir ns0 w' = (True, ns1, w') \<and> \<not> ns_dirty ns1 \<and>
    working (f_id f) ns1 = persist_value w ns f \<and> C w' path = C w path"
proof -
  obtain ns1 where l: "load_namespace M F dir ns0 w' = (True, ns1, w')" "\<not> ns_dirty ns1"
      "\<And>k. working k ns1 = (case List.find (\<lambda>f. f_id f = k) (saved_fields w ns) of
         None \<Rightarrow> working k ns0
       | Some f \<Rightarrow> if validate f (persist_value w ns f) then persist_value w ns f else working k ns0)"
    by (rule save_load_values [OF assms(1-10)]) blast
  have "distinct (map f_id (saved_fields w ns))"
    unfolding saved_fields_def by (rule distinct_map_filter [OF distinct_field_ids [OF assms(5)]])
  then have "filter (\<lambda>h. f_id h = f_id f) (saved_fields w ns) = [f]" by (rule filter_one_id [OF assms(11)])
  then have "List.find (\<lambda>h. f_id h = f_id f) (saved_fields w ns) = Some f"
    by (simp add: find_filter)
  then show ?thesis using l assms(12-14) save_writes(3) [OF assms(2-4,10)] by auto
qed

lemma demo_save_ok:
  "da_rename w \<Longrightarrow> \<exists>w'. save_namespace_force M demo_fs dir ns w = (True, mark_clean ns, w')"
  using tmp_not_final [of dir ns]
  by (simp add: save_namespace_force_def ensure_directory_def os_defs replace_file_def Let_def demo_fs_def)

definition demo_labelled :: "demo_app namespace" where
  "demo_labelled = put_working 3 (String_v [0x61, 0x62]) (demo_ns [])"

lemma demo_labelled:
  "ns_ok (demo_ns [])" "ns_ok demo_labelled" "ns_shape (demo_ns []) = ns_shape demo_labelled"
  "saved_fields demo_app0 demo_labelled = [demo_field1, demo_field2, demo_field3]"
  "persist_value demo_app0 demo_labelled demo_field1 = Int_v 0" "persist_value demo_app0 demo_labelled demo_field2 = Bytes_v []"
  "persist_value demo_app0 demo_labelled demo_field3 = String_v [0x61, 0x62]" "ns_fields demo_labelled = [demo_field1, demo_field2, demo_field3]"
proof -
  show ok: "ns_ok (demo_ns [])" using pv_okD(1) [OF demo_p_ok, of 0] by (simp add: demo_find)
  have "working_typed (demo_ns []) 3 (String_v [0x61, 0x62])" by (simp add: working_typed_def demo_find) (simp add: demo_field3_def)
  with ok show "ns_ok demo_labelled" by (simp add: demo_labelled_def inv_intros)
  show "ns_shape (demo_ns []) = ns_shape demo_labelled" by (simp add: demo_labelled_def)
  show f: "ns_fields demo_labelled = [demo_field1, demo_field2, demo_field3]"
    by (simp add: demo_labelled_def put_working_def demo_ns_def)
  have find: "find_field 1 demo_labelled = Some demo_field1"
    using find_field_shape [of demo_labelled "demo_ns []"] by (simp add: demo_labelled_def demo_find)
  have g: "f_getter demo_field1 = Some (\<lambda>w. Int_v (da_number w))" "da_number demo_app0 = 0"
    by (simp_all add: demo_field1_def demo_app0_def)
  show p: "persist_value demo_app0 demo_labelled demo_field1 = Int_v 0" "persist_value demo_app0 demo_labelled demo_field2 = Bytes_v []"
    "persist_value demo_app0 demo_labelled demo_field3 = String_v [0x61, 0x62]"
    by (simp_all add: persist_value_def demo_flags demo_find effective_def find g)
      (simp_all add: working_def demo_labelled_def put_working_def demo_ns_def)
  show "saved_fields demo_app0 demo_labelled = [demo_field1, demo_field2, demo_field3]"
    by (simp add: saved_fields_def f p not_persisted_def demo_flags)
qed

theorem storage_roundtrip_witness:
  "\<exists>ns' w' ns1. save_namespace_force demo_msgpack demo_fs [0x63] demo_labelled demo_app0 = (True, ns', w') \<and>
    load_namespace demo_msgpack demo_fs [0x63] (demo_ns []) w' = (True, ns1, w') \<and> working 3 ns1 = String_v [0x61, 0x62]"
proof -
  obtain w' where s: "save_namespace_force demo_msgpack demo_fs [0x63] demo_labelled demo_app0 = (True, mark_clean demo_labelled, w')"
    using demo_save_ok [of demo_app0 demo_msgpack "[0x63]" demo_labelled] by (simp add: demo_app0_def) blast
  have v: "validate demo_field3 (String_v [0x61, 0x62])" by (simp add: validate_def demo_field3_def no_constraint_def)
  have d: "fs_registered demo_fs demo_app0" "fs_is_directory demo_fs [0x63] demo_app0" by (simp_all add: demo_fs_def)
  have p: "[] \<noteq> file_path [0x63] demo_labelled" "[] \<noteq> tmp_path [0x63] demo_labelled"
    by (simp_all add: file_path_def tmp_path_def)
  obtain ns1 where "load_namespace demo_msgpack demo_fs [0x63] (demo_ns []) w' = (True, ns1, w')"
      "working (f_id demo_field3) ns1 = persist_value demo_app0 demo_labelled demo_field3"
    using storage_roundtrip [OF demo_msgpack_ok demo_fs_laws d demo_labelled(2,1,3) _ _ s _ _ p, of demo_field3] v
    by (auto simp: demo_labelled wire_ok_def)
  then show ?thesis using s by (simp add: demo_find demo_labelled)
qed

text \<open>
  The fallback of \<open>save_namespace_force\<close> can lose the configuration: where the file system refuses to
  rename, the old file is removed before the second attempt and the new one after it, so a failed save
  leaves no file at all.
\<close>

lemma failed_save_loses_file:
  assumes "fs_laws F C" and "fs_registered F w" and "fs_is_directory F dir w" and "C w (file_path dir ns) = Some old"
    and "\<And>p d u. fst (fs_write F p d u) = length d" and "\<And>p u. fst (fs_remove F p u)"
    and "\<And>p q d. \<not> fst (fs_rename F p q (snd (fs_write F p d w)))"
    and "\<And>p q d. \<not> fst (fs_rename F p q (snd (fs_remove F q (snd (fs_rename F p q (snd (fs_write F p d w)))))))"
  shows "\<exists>w'. save_namespace_force M F dir ns w = (False, ns, w') \<and>
    C w' (file_path dir ns) = None \<and> C w' (tmp_path dir ns) = None"
proof -
  let ?enc = "mp_pack M (pack_namespace_working w ns)" and ?t = "tmp_path dir ns" and ?f = "file_path dir ns"
  obtain w1 where w1: "fs_write F ?t ?enc w = (length ?enc, w1)" using assms(5) by (metis prod.collapse)
  note l1 = fs_lawsD(4,5) [OF assms(1,2) w1]
  obtain w2 where w2: "fs_rename F ?t ?f w1 = (False, w2)" using assms(7) [of ?t ?f ?enc] w1 by (metis (full_types) prod.collapse snd_conv)
  note l2 = fs_lawsD(8,9) [OF assms(1) l1(1) w2]
  obtain w3 where w3: "fs_remove F ?f w2 = (True, w3)" using assms(6) by (metis (full_types) prod.collapse)
  note l3 = fs_lawsD(6,7) [OF assms(1) l2(1) w3]
  obtain w4 where w4: "fs_rename F ?t ?f w3 = (False, w4)"
    using assms(8) [of ?t ?f ?enc] w1 w2 w3 by (metis (full_types) prod.collapse snd_conv)
  note l4 = fs_lawsD(8,9) [OF assms(1) l3(1) w4]
  obtain w5 where w5: "fs_remove F ?t w4 = (True, w5)" using assms(6) by (metis (full_types) prod.collapse)
  note l5 = fs_lawsD(6,7) [OF assms(1) l4(1) w5]
  have "save_namespace_force M F dir ns w = (False, ns, w5)"
    using assms(2,3) w1 w2 w3 w4 w5 l1 l2 l3 l4
    by (simp add: save_namespace_force_def ensure_directory_def os_defs replace_file_def Let_def)
  then show ?thesis using l2 l3 l4 l5 by auto
qed

definition demo_stuck :: demo_app where
  "demo_stuck = \<lparr>da_files = [(file_path [0x63] (demo_ns []), [0x80])], da_number = 0, da_rename = False\<rparr>"

section \<open>Start\<close>

text \<open>The setter of a field does not touch what \<open>g\<close> reads.\<close>

definition leaves :: "'w getter \<Rightarrow> 'w pfield \<Rightarrow> bool" where
  "leaves g f \<longleftrightarrow> (\<forall>s v u. f_setter f = Some s \<longrightarrow> g (snd (s v u)) = g u)"

lemma apply_field_getter:
  assumes "f_getter f = Some g" and "f_setter f = Some s" and "\<not> has_flag f FF_READ_ONLY" and "\<not> has_flag f FF_WRITE_ONLY"
    and "\<And>u. g (snd (s (working (f_id f) ns) u)) = working (f_id f) ns" and "working (f_id f) ns \<noteq> None_v"
  shows "g (apply_field ns f w) = working (f_id f) ns"
  using assms by (simp add: apply_field_def Let_def)

lemma apply_field_other: "leaves g h \<Longrightarrow> g (apply_field ns h w) = g w"
  by (simp add: apply_field_def Let_def leaves_def split: option.split)

lemma apply_fields_other: "list_all (leaves g) fs \<Longrightarrow> g (fold (apply_field ns) fs w) = g w"
  by (induction fs arbitrary: w) (simp_all add: apply_field_other)

lemma apply_namespaces_other:
  "list_all (\<lambda>m. list_all (leaves g) (ns_fields m)) nss \<Longrightarrow> g (fold (\<lambda>ns. fold (apply_field ns) (ns_fields ns)) nss w) = g w"
  by (induction nss arbitrary: w) (simp_all add: apply_fields_other)

text \<open>
  The setter is called when the program does not have the stored value, also for a stored value that is the
  declared default of the field: the integration guide and the README speak of values that differ from the default.
\<close>

lemma stored_default_applied:
  assumes "f_getter f = Some g" and "f_setter f = Some s" and "\<not> has_flag f FF_READ_ONLY" and "\<not> has_flag f FF_WRITE_ONLY"
    and "working (f_id f) ns = f_default f" and "\<not> is_none (f_default f)"
  shows "apply_field ns f w = (if same_value (f_default f) (g w) then w else snd (s (f_default f) w))"
  using assms by (simp add: apply_field_def)

text \<open>
  C31. A stored value reaches the program at start: when a value was loaded for a field that is readable and
  writable and has a setter and a getter, \<open>begin\<close> leaves the program with the stored value, provided that the
  getter reads back what the setter was given and the setters of the fields after it do not touch it; fields
  that require a reboot are applied as well, and so is a stored value that equals the declared default.
\<close>

theorem stored_value_applied:
  assumes "pv_namespaces p = as @ ns # bs" and "ns_fields ns = fs @ f # hs"
    and "f_getter f = Some g" and "f_setter f = Some s" and "\<not> has_flag f FF_READ_ONLY" and "\<not> has_flag f FF_WRITE_ONLY"
    and "working (f_id f) ns \<noteq> None_v" and "\<And>u. g (snd (s (working (f_id f) ns) u)) = working (f_id f) ns"
    and "list_all (\<lambda>m. list_all (leaves g) (ns_fields m)) bs" and "list_all (leaves g) hs"
  shows "g (pv_world (apply_loaded_to_runtime p)) = working (f_id f) ns"
  using assms(1,2) apply_namespaces_other [OF assms(9)] apply_fields_other [OF assms(10)] apply_field_getter [OF assms(3-6,8,7)]
  by (simp add: apply_loaded_to_runtime_def)

theorem stored_value_applied_witness:
  "Int_v (da_number (pv_world (apply_loaded_to_runtime ((demo_p [])\<lparr>pv_registry := (pv_registry (demo_p []))\<lparr>rg_namespaces :=
     [put_working 1 (Int_v 9) (demo_ns [])]\<rparr>\<rparr>)))) = Int_v 9"
proof -
  let ?ns = "put_working 1 (Int_v 9) (demo_ns [])"
  let ?p = "(demo_p [])\<lparr>pv_registry := (pv_registry (demo_p []))\<lparr>rg_namespaces := [?ns]\<rparr>\<rparr>"
  have w: "working 1 ?ns = Int_v 9" by (simp add: working_def put_working_def tab_find_assign)
  have f: "ns_fields ?ns = [] @ demo_field1 # [demo_field2, demo_field3]" by (simp add: put_working_def demo_ns_def)
  have l: "list_all (leaves (\<lambda>w. Int_v (da_number w))) [demo_field2, demo_field3]"
    by (simp add: leaves_def) (simp add: demo_field2_def demo_field3_def)
  have s: "f_getter demo_field1 = Some (\<lambda>w. Int_v (da_number w))" "f_setter demo_field1 = Some demo_setter"
    by (simp_all add: demo_field1_def)
  have "(\<lambda>w. Int_v (da_number w)) (pv_world (apply_loaded_to_runtime ?p)) = working (f_id demo_field1) ?ns"
    by (rule stored_value_applied [OF _ f s _ _ _ _ _ l, of _ "[]" "[]"]) (simp_all add: demo_find w demo_flags demo_setter_def)
  then show ?thesis by (simp add: demo_find w)
qed

section \<open>A built-in field\<close>

definition cfg_int_record :: "'w runtime \<Rightarrow> string \<Rightarrow> fid \<Rightarrow> cfg_int \<Rightarrow> int \<Rightarrow> int \<Rightarrow> 'w \<Rightarrow> 'w pfield" where
  "cfg_int_record T name k c imin imax w =
     (base_field (nm name) k Int_t FF_LIVE_APPLY (Int_v (uint (rt_get_int T c w)))
       (Some (\<lambda>v w. (Inr True, rt_set_int T c (word_of_int (as_int v)) w))) (wrap_getter Int_v (Some (\<lambda>w. uint (rt_get_int T c w)))))
       \<lparr>f_constraint := no_constraint\<lparr>c_has_range := True, c_imin := imin, c_imax := imax\<rparr>\<rparr>"

lemma general_config_interval:
  "\<exists>p'. general_config T (new_provisioner w) = Some p' \<and> find_ns 1 (pv_registry p') = Some 0 \<and>
    ns_on_commit (pv_namespaces p' ! 0) = None \<and> ns_draft (pv_namespaces p' ! 0) = [] \<and> pv_storage p' = None \<and>
    find_field 6 (pv_namespaces p' ! 0) = Some (cfg_int_record T ''Persist Interval'' 6 Persist_interval 30 86400 w)"
  by (simp add: general_config_def unless_registered_def opens_def adds_def builder_defs cfg_bool_field_def cfg_int_field_def
      identity_field_def allowed_field_def field_bool_def field_bytes_list_def command_void_def nm_def ascii_def of_char_def
      find_field_def cfg_int_record_def)

text \<open>
  The range of the persist interval is wider than its variable: a value from 65536 to 86400 is accepted
  and committed without an error, is stored as it is, and the program runs with its remainder modulo 65536;
  an interval of 65536 seconds becomes 0.
\<close>

lemma persist_interval_wraps:
  assumes law: "\<And>x u. rt_get_int T Persist_interval (rt_set_int T Persist_interval x u) = x"
    and v: "2 ^ 16 \<le> v" "v \<le> 86400" and p: "general_config T (new_provisioner w) = Some p"
  shows "\<exists>p1 p2. set_field 1 6 (Int_v v) p = (True, p1) \<and> commit E 1 p1 = (Inr True, p2) \<and>
    working 6 (pv_namespaces p2 ! 0) = Int_v v \<and> field_of 1 6 Working p2 = Int_v (v mod 2 ^ 16)"
proof -
  let ?ns = "pv_namespaces p ! 0" and ?w = "pv_world p"
  let ?f = "cfg_int_record T ''Persist Interval'' 6 Persist_interval 30 86400 w"
  let ?s = "\<lambda>v w. (Inr True, rt_set_int T Persist_interval (word_of_int (as_int v)) w)"
  have g: "find_ns 1 (pv_registry p) = Some 0" "ns_on_commit ?ns = None" "ns_draft ?ns = []" "pv_storage p = None"
      "find_field 6 ?ns = Some ?f"
    using general_config_interval [of T w] p by auto
  have ok: "pv_ok p"
    using p sound_configs(1) [of T] pv_ok_new [of w] unfolding sound_step_def by (metis option.inject)
  have f: "f_setter ?f = Some ?s" "f_getter ?f = Some (\<lambda>w. Int_v (uint (rt_get_int T Persist_interval w)))" "f_id ?f = 6"
      "validate ?f (Int_v v)" "has_flag ?f x \<longleftrightarrow> 1 AND x \<noteq> 0" for x
    using v by (simp_all add: cfg_int_record_def base_field_def wrap_getter_def validate_def has_flag_def)
  have len: "0 < length (pv_namespaces p)" using pv_okD(2) [OF ok g(1)] by simp
  have neq: "Int_v (uint (rt_get_int T Persist_interval ?w)) \<noteq> Int_v v"
    using unsigned_less [of "rt_get_int T Persist_interval ?w", where ?'a = int] v(1) by auto
  let ?n1 = "?ns\<lparr>ns_draft := [(6, Int_v v)]\<rparr>"
  let ?p1 = "put_ns 0 ?n1 ?w p"
  have "set_draft ?w 6 (Int_v v) ?ns = (True, ?n1)" using g f neq by (simp add: set_draft_def effective_def)
  then have s1: "set_field 1 6 (Int_v v) p = (True, ?p1)" using g(1) by (simp add: set_field_def)
  have ff: "find_field 6 (?ns\<lparr>ns_draft := d\<rparr>) = Some ?f" for d
    by (rule trans [OF find_field_shape [OF shape_draft] g(5)])
  let ?n2 = "put_working 6 (Int_v v) (clear_draft 6 ?n1)" and ?w2 = "rt_set_int T Persist_interval (word_of_int v) ?w"
  have mem: "?f \<in> set (ns_fields ?ns)" "distinct (map f_id (ns_fields ?ns))"
    using find_field_in [OF pv_okD(1) [OF ok len] g(5)] distinct_field_ids [OF pv_okD(1) [OF ok len]] by simp_all
  have ids: "draft_ids ?n1 = [6]" using filter_one_id [OF mem] f(3) by (simp add: draft_ids_def has_draft_def if_distrib cong: if_cong)
  have "commit_namespace ?n1 ?w = (Inr [Applied_live], ?n2, ?w2)"
    using ids g(2) ff f by (simp add: commit_namespace_def run_hook_def commit_one_def draft_def call_setter_def)
  then have s2: "commit E 1 ?p1 = (Inr True, put_ns 0 ?n2 ?w2 ?p1)"
    using g(1,4) len by (simp add: commit_def commit_do_one_def save_ns_def)
  have "find_field 6 ?n2 = Some ?f" using g(5) find_field_shape [of ?n2 ?ns] by (simp add: shape_draft)
  then have "working 6 (pv_namespaces (put_ns 0 ?n2 ?w2 ?p1) ! 0) = Int_v v \<and>
      field_of 1 6 Working (put_ns 0 ?n2 ?w2 ?p1) = Int_v (v mod 2 ^ 16)"
    using g(1) len f law by (simp add: field_of_def effective_def working_def put_working_def tab_find_assign uint_word_of_int)
  with s1 s2 show ?thesis by blast
qed

end
