(* ===== verification/Blackholes.thy ===== *)
theory Blackholes
  imports Path_Store Std_Map Provision_Demo
begin

text \<open>
  The blackhole list in the file system (\<open>persist_blackhole\<close>, \<open>reload_blackhole\<close> of \<open>Transport.cpp\<close>) and on
  the wire (\<open>blackhole_list_handler\<close>).  The list is the table \<open>_blackholed_identities\<close>; \<open>Path_Store\<close> has
  its other uses, on the map the table stands for.  The file system and the MessagePack library are
  parameters; a read of an object of another type answers false.
\<close>

section \<open>The file\<close>

type_synonym blackhole_table = "(bytes, blackhole_entry) table"

definition blackhole_path :: "bytes \<Rightarrow> bytes" where
  "blackhole_path storagepath = storagepath @ ascii ''/blackhole_local''"

definition local_entries :: "bytes \<Rightarrow> blackhole_table \<Rightarrow> blackhole_table" where
  "local_entries own bl = filter (\<lambda>(h, e). bh_source e = own) bl"

definition pack_entry :: "bytes \<times> blackhole_entry \<Rightarrow> mp_item list" where
  "pack_entry x =
     (case x of (h, e) \<Rightarrow>
        [MP_bin h, MP_array 3, MP_bin (bh_source e), MP_float64 (bh_until e), MP_str (ascii (bh_reason e))])"

definition pack_blackhole :: "bytes \<Rightarrow> blackhole_table \<Rightarrow> mp_item list" where
  "pack_blackhole own bl = (let l = local_entries own bl in MP_map (length l) # concat (map pack_entry l))"

text \<open>A short write and an exception are logged only.\<close>

definition persist_blackhole :: "msgpack \<Rightarrow> 'w fsys \<Rightarrow> bytes \<Rightarrow> bytes \<Rightarrow> blackhole_table \<Rightarrow> 'w \<Rightarrow> 'w" where
  "persist_blackhole M F dir own bl w = snd (write_file F (blackhole_path dir) (mp_pack M (pack_blackhole own bl)) w)"

text \<open>
  The loop over the entries: whether it came to the end, and the table.  An expired entry is left out; one
  that is already in the table stays.  What an array has beyond three elements is not skipped.
\<close>

definition of_ascii :: "bytes \<Rightarrow> string" where
  "of_ascii s = map (char_of \<circ> unat) s"

definition read_until :: "mp_item \<Rightarrow> real option" where
  "read_until x = (case x of MP_float64 t \<Rightarrow> Some t | MP_float32 t \<Rightarrow> Some t | _ \<Rightarrow> None)"

definition read_entry :: "mp_item list \<Rightarrow> ((bytes \<times> blackhole_entry) \<times> mp_item list) option" where
  "read_entry s =
     (case s of
        MP_bin h # MP_array n # MP_bin source # t # MP_str reason # r \<Rightarrow>
          if n < 3 then None
          else map_option (\<lambda>until. ((h, \<lparr>bh_source = source, bh_until = until, bh_reason = of_ascii reason\<rparr>), r)) (read_until t)
      | _ \<Rightarrow> None)"

definition expired :: "real \<Rightarrow> blackhole_entry \<Rightarrow> bool" where
  "expired now e \<longleftrightarrow> bh_until e > 0 \<and> now > bh_until e"

fun read_blackholes :: "real \<Rightarrow> nat \<Rightarrow> mp_item list \<Rightarrow> blackhole_table \<Rightarrow> bool \<times> blackhole_table" where
  "read_blackholes now 0 s bl = (True, bl)"
| "read_blackholes now (Suc n) s bl =
     (case read_entry s of
        None \<Rightarrow> (False, bl)
      | Some ((h, e), r) \<Rightarrow> read_blackholes now n r (if expired now e then bl else tab_insert h e bl))"

text \<open>\<open>True\<close>: the paths of the blackholed identities are removed next.  The file functions may throw.\<close>

definition load_blackhole :: "msgpack \<Rightarrow> 'w fsys \<Rightarrow> bytes \<Rightarrow> real \<Rightarrow> blackhole_table \<Rightarrow> 'w \<Rightarrow> (bool \<times> blackhole_table) result" where
  "load_blackhole M F dir now bl w =
     res_bind (file_exists F (blackhole_path dir) w) (\<lambda>there.
       if \<not> there then Inr (False, bl)
       else
         res_bind (read_file F (blackhole_path dir) w) (\<lambda>dat.
           if dat = [] then Inr (False, bl)
           else
             (case mp_feed M dat of
                MP_map n # r \<Rightarrow> Inr (read_blackholes now n r bl)
              | _ \<Rightarrow> Inr (False, bl))))"

definition reload_blackhole ::
  "msgpack \<Rightarrow> 'w fsys \<Rightarrow> bytes \<Rightarrow> real \<Rightarrow> (bytes \<Rightarrow> 'k \<Rightarrow> (identity option \<times> 'k) result) \<Rightarrow> 's path_store \<Rightarrow> bytes list \<Rightarrow>
     blackhole_table \<Rightarrow> 's \<Rightarrow> 'k \<Rightarrow> 'w \<Rightarrow> (blackhole_table \<times> 's \<times> 'k) result" where
  "reload_blackhole M F dir now rec ops keys bl s ks w =
     res_bind (load_blackhole M F dir now bl w) (\<lambda>(complete, bl').
       if complete then
         res_bind (remove_blackholed_paths rec ops keys (\<lambda>h. tab_find h bl') s ks) (\<lambda>(s', ks'). Inr (bl', s', ks'))
       else Inr (bl', s, ks))"

text \<open>\<open>blackhole_identity\<close> and \<open>unblackhole_identity\<close> on the table, with their writes.\<close>

definition block_identity ::
  "msgpack \<Rightarrow> 'w fsys \<Rightarrow> bytes \<Rightarrow> (bytes \<Rightarrow> 'k \<Rightarrow> (identity option \<times> 'k) result) \<Rightarrow> 's path_store \<Rightarrow> bytes list \<Rightarrow>
     bytes \<Rightarrow> bytes \<Rightarrow> real \<Rightarrow> string \<Rightarrow> blackhole_table \<Rightarrow> 's \<Rightarrow> 'k \<Rightarrow> 'w \<Rightarrow>
     (bool \<times> blackhole_table \<times> 's \<times> 'k) result \<times> 'w" where
  "block_identity M F dir rec ops keys own h until reason bl s ks w =
     (if tab_find h bl \<noteq> None then (Inr (False, bl, s, ks), w)
      else
        let bl' = tab_insert h \<lparr>bh_source = own, bh_until = until, bh_reason = reason\<rparr> bl
        in (res_bind (remove_blackholed_paths rec ops keys (\<lambda>k. tab_find k bl') s ks) (\<lambda>(s', ks'). Inr (True, bl', s', ks')),
            persist_blackhole M F dir own bl' w))"

definition unblock_identity :: "msgpack \<Rightarrow> 'w fsys \<Rightarrow> bytes \<Rightarrow> bytes \<Rightarrow> bytes \<Rightarrow> blackhole_table \<Rightarrow> 'w \<Rightarrow> bool \<times> blackhole_table \<times> 'w" where
  "unblock_identity M F dir own h bl w =
     (if tab_find h bl = None then (False, bl, w)
      else let bl' = tab_erase h bl in (True, bl', persist_blackhole M F dir own bl' w))"

section \<open>The list on the wire\<close>

definition pack_listed :: "bytes \<times> blackhole_entry \<Rightarrow> mp_item list" where
  "pack_listed x =
     (case x of (h, e) \<Rightarrow>
        [MP_bin h, MP_map 3, MP_str (ascii ''source''), MP_bin (bh_source e), MP_str (ascii ''until''), MP_float64 (bh_until e),
         MP_str (ascii ''reason''), MP_str (ascii (bh_reason e))])"

definition blackhole_list_handler :: "msgpack \<Rightarrow> blackhole_table \<Rightarrow> bytes" where
  "blackhole_list_handler M bl = mp_pack M (MP_map (length bl) # concat (map pack_listed bl))"

section \<open>Lemmas\<close>

text \<open>On the map the table stands for, the operations are those of \<open>Path_Store\<close>.\<close>

lemma block_identity_map:
  "fst (block_identity M F dir rec ops keys own h until reason bl s ks w) = Inr (b, bl', s', ks') \<Longrightarrow>
   blackhole_identity rec ops keys own h until reason (\<lambda>k. tab_find k bl) s ks = Inr (b, (\<lambda>k. tab_find k bl'), s', ks')"
proof -
  have "(\<lambda>k. tab_find k (tab_insert h e bl)) = (\<lambda>k. tab_find k bl)(h \<mapsto> e)" if "tab_find h bl = None" for e
    using that by (auto simp: tab.lookup_ins)
  then show "fst (block_identity M F dir rec ops keys own h until reason bl s ks w) = Inr (b, bl', s', ks') \<Longrightarrow>
      blackhole_identity rec ops keys own h until reason (\<lambda>k. tab_find k bl) s ks = Inr (b, (\<lambda>k. tab_find k bl'), s', ks')"
    by (auto simp: block_identity_def blackhole_identity_def is_blackholed_def Let_def res_bind_eq_Inr split: if_splits)
qed

lemma unblock_identity_map:
  "unblackhole_identity h (\<lambda>k. tab_find k bl) =
     (case unblock_identity M F dir own h bl w of (b, bl', w') \<Rightarrow> (b, (\<lambda>k. tab_find k bl')))"
  by (auto simp: unblackhole_identity_def unblock_identity_def is_blackholed_def tab_find_erase Let_def)

lemma of_ascii_ascii [simp]: "of_ascii (ascii s) = s"
  by (induction s) (simp_all add: of_ascii_def ascii_def)

lemma tab_insert_last:
  assumes "tab_ok (m @ [(k, v)])"
  shows "tab_insert k v m = m @ [(k, v)]"
proof -
  have "k \<notin> fst ` set m" and le: "\<forall>x \<in> fst ` set m. x \<le> k" using assms by (auto simp: tab_ok_def sorted_append)
  then have "tab_assign k v m = m @ [(k, v)]"
    by (induction m) (auto simp: not_less order.order_iff_strict)
  then show ?thesis using \<open>k \<notin> fst ` set m\<close> by (simp add: tab_insert_def tab_find_None)
qed

lemma tab_ok_append: "tab_ok (xs @ ys) \<Longrightarrow> tab_ok xs"
  by (simp add: tab_ok_def sorted_append)

lemma tab_ok_filter: "tab_ok m \<Longrightarrow> tab_ok (filter P m)"
  by (simp add: tab_ok_def distinct_map_filter sorted_filter)

lemma read_entry_pack [simp]: "read_entry (pack_entry (h, e) @ r) = Some ((h, e), r)"
  by (simp add: read_entry_def pack_entry_def read_until_def)

lemma read_blackholes_pack:
  assumes "tab_ok (acc @ filter (\<lambda>(h, e). \<not> expired now e) l)"
  shows "read_blackholes now (length l) (concat (map pack_entry l) @ r) acc = (True, acc @ filter (\<lambda>(h, e). \<not> expired now e) l)"
  using assms
proof (induction l arbitrary: acc)
  case (Cons x l)
  obtain h e where x: "x = (h, e)" by (cases x)
  show ?case
  proof (cases "expired now e")
    case True
    then show ?thesis using Cons x by simp
  next
    case False
    then have ok: "tab_ok ((acc @ [(h, e)]) @ filter (\<lambda>(h, e). \<not> expired now e) l)" using Cons.prems x by simp
    from Cons.IH [OF ok] show ?thesis using False x tab_insert_last [OF tab_ok_append [OF ok]] by simp
  qed
qed simp

section \<open>Properties\<close>

text \<open>What an entry needs to be encoded.\<close>

definition storable :: "msgpack \<Rightarrow> blackhole_table \<Rightarrow> bool" where
  "storable M bl \<longleftrightarrow> length bl < 2 ^ 32 \<and> list_all (\<lambda>(h, e). length h < 2 ^ 32 \<and> length (bh_source e) < 2 ^ 32 \<and>
     mp_double M (bh_until e) \<and> length (bh_reason e) < 2 ^ 32) bl"

lemma pack_blackhole_wf:
  assumes "storable M bl"
  shows "list_all (mp_wf (mp_double M)) (pack_blackhole own bl)"
proof -
  let ?l = "local_entries own bl"
  have "length ?l < 2 ^ 32"
    using assms le_less_trans [OF length_filter_le] by (auto simp: storable_def local_entries_def)
  moreover have "list_all (mp_wf (mp_double M)) (pack_entry x)" if "x \<in> set ?l" for x
    using assms that by (auto simp: storable_def local_entries_def pack_entry_def list_all_iff ascii_def)
  ultimately show ?thesis by (auto simp: pack_blackhole_def Let_def list_all_iff)
qed

text \<open>
  C33. A restart keeps the blackhole list: what a node wrote is loaded again, entry for entry and with all their
  parts, except for those of other sources, which belong to other files, and for those that expired.
\<close>

theorem blackholes_reloaded:
  assumes "fs_laws F C" and "fs_registered F w" and "msgpack_ok M" and "tab_ok bl" and "storable M bl"
    and "fst (fs_write F (blackhole_path dir) (mp_pack M (pack_blackhole own bl)) w) = length (mp_pack M (pack_blackhole own bl))"
  shows "load_blackhole M F dir now [] (persist_blackhole M F dir own bl w) =
    Inr (True, filter (\<lambda>(h, e). bh_source e = own \<and> \<not> expired now e) bl)"
proof -
  let ?items = "pack_blackhole own bl" and ?l = "local_entries own bl"
  let ?dat = "mp_pack M ?items" and ?w = "persist_blackhole M F dir own bl w"
  have wr: "fs_write F (blackhole_path dir) ?dat w = (length ?dat, ?w)"
    using assms(2,6) by (auto simp: persist_blackhole_def write_file_def split: prod.split)
  note w' = fs_lawsD(4,5) [OF assms(1,2) wr]
  note f = fs_lawsD(1-3) [OF assms(1) w'(1), of "blackhole_path dir"]
  have c: "C ?w (blackhole_path dir) = Some ?dat" using w'(2) by simp
  have ne: "length ?dat \<noteq> 0" using msgpack_okD(2) [OF assms(3), of ?items] by (simp add: pack_blackhole_def Let_def)
  have "mp_feed M ?dat = ?items" by (rule msgpack_okD(3) [OF assms(3) pack_blackhole_wf [OF assms(5)]])
  moreover have "tab_ok (filter (\<lambda>(h, e). \<not> expired now e) ?l)"
    using assms(4) by (simp add: local_entries_def tab_ok_filter)
  then have "read_blackholes now (length ?l) (concat (map pack_entry ?l)) [] = (True, filter (\<lambda>(h, e). \<not> expired now e) ?l)"
    using read_blackholes_pack [of "[]" now ?l "[]"] by simp
  moreover have "filter (\<lambda>(h, e). \<not> expired now e) ?l = filter (\<lambda>(h, e). bh_source e = own \<and> \<not> expired now e) bl"
    by (auto simp: local_entries_def conj_commute intro!: filter_cong)
  ultimately show ?thesis
    using w'(1) f c ne by (simp add: load_blackhole_def file_exists_def read_file_def Let_def pack_blackhole_def)
qed

text \<open>Three entries: a permanent one, one from another source and one that expires.\<close>

definition demo_blackholes :: blackhole_table where
  "demo_blackholes =
     [([1], \<lparr>bh_source = [9], bh_until = 0, bh_reason = ''spam''\<rparr>), ([2], \<lparr>bh_source = [8], bh_until = 0, bh_reason = []\<rparr>),
      ([3], \<lparr>bh_source = [9], bh_until = 5, bh_reason = []\<rparr>)]"

theorem blackholes_reloaded_witness:
  "load_blackhole demo_msgpack demo_fs [] 6 [] (persist_blackhole demo_msgpack demo_fs [] [9] demo_blackholes demo_app0) =
    Inr (True, [([1], \<lparr>bh_source = [9], bh_until = 0, bh_reason = ''spam''\<rparr>)])"
proof -
  have "load_blackhole demo_msgpack demo_fs [] 6 [] (persist_blackhole demo_msgpack demo_fs [] [9] demo_blackholes demo_app0) =
      Inr (True, filter (\<lambda>(h, e). bh_source e = [9] \<and> \<not> expired 6 e) demo_blackholes)"
  proof (rule blackholes_reloaded [OF demo_fs_laws _ demo_msgpack_ok])
    show "tab_ok demo_blackholes" by (simp add: tab_ok_def demo_blackholes_def)
    show "storable demo_msgpack demo_blackholes" by (simp add: storable_def demo_blackholes_def demo_msgpack_def)
  qed (simp_all add: demo_fs_def)
  then show ?thesis by (simp add: demo_blackholes_def expired_def)
qed

end
