(* ===== verification/Traffic.thy ===== *)
theory Traffic
  imports Prelude
begin

text \<open>
  The traffic counters of the interfaces (\<open>Interface.h\<close>, \<open>Interface.cpp\<close>) and \<open>Transport::count_traffic\<close>,
  which adds what passed since its last call to the totals of the node.  The octet counters are \<open>size_t\<close>, a
  word of unknown width, and wrap; the totals have 64 bits.
\<close>

section \<open>Counters\<close>

record counters =
  ct_child :: bool
  ct_rx :: int
  ct_tx :: int
  ct_rxbytes :: int
  ct_txbytes :: int
  ct_counted_ts :: real
  ct_counted_rxb :: int
  ct_counted_txb :: int
  ct_rx_speed :: real
  ct_tx_speed :: real

definition new_counters :: "bool \<Rightarrow> counters" where
  "new_counters child =
     \<lparr>ct_child = child, ct_rx = 0, ct_tx = 0, ct_rxbytes = 0, ct_txbytes = 0, ct_counted_ts = 0, ct_counted_rxb = 0,
      ct_counted_txb = 0, ct_rx_speed = 0, ct_tx_speed = 0\<rparr>"

definition count_incoming :: "nat \<Rightarrow> bytes \<Rightarrow> counters \<Rightarrow> counters" where
  "count_incoming w dat i =
     i\<lparr>ct_rx := (ct_rx i + 1) mod 2 ^ w, ct_rxbytes := (ct_rxbytes i + int (length dat)) mod 2 ^ w\<rparr>"

definition handle_outgoing :: "nat \<Rightarrow> bytes \<Rightarrow> counters \<Rightarrow> counters" where
  "handle_outgoing w dat i =
     i\<lparr>ct_tx := (ct_tx i + 1) mod 2 ^ w, ct_txbytes := (ct_txbytes i + int (length dat)) mod 2 ^ w\<rparr>"

text \<open>The totals; \<open>tr_ifs\<close> are the registered interfaces in order.\<close>

record traffic =
  tr_ifs :: "counters list"
  tr_rxb :: "64 word"
  tr_txb :: "64 word"
  tr_speed_rx :: real
  tr_speed_tx :: real

text \<open>One round of the loop of \<open>count_traffic\<close>: the interface and what it adds to the sums.\<close>

definition bit_rate :: "int \<Rightarrow> real \<Rightarrow> real" where
  "bit_rate d t = (if t > 0 then real_of_int d * 8 / t else 0)"

definition count_interface :: "nat \<Rightarrow> real \<Rightarrow> counters \<Rightarrow> counters \<times> 64 word \<times> 64 word \<times> real \<times> real" where
  "count_interface w now i =
     (if ct_child i then (i, 0, 0, 0, 0)
      else
        let rx_diff = (ct_rxbytes i - ct_counted_rxb i) mod 2 ^ w; tx_diff = (ct_txbytes i - ct_counted_txb i) mod 2 ^ w;
            t = now - ct_counted_ts i;
            j = i\<lparr>ct_counted_ts := now, ct_counted_rxb := ct_rxbytes i, ct_counted_txb := ct_txbytes i\<rparr>
        in if ct_counted_ts i \<noteq> 0
           then (j\<lparr>ct_rx_speed := bit_rate rx_diff t, ct_tx_speed := bit_rate tx_diff t\<rparr>,
                 word_of_int rx_diff, word_of_int tx_diff, bit_rate rx_diff t, bit_rate tx_diff t)
           else (j, 0, 0, 0, 0))"

definition count_step :: "nat \<Rightarrow> real \<Rightarrow> counters \<Rightarrow> traffic \<Rightarrow> traffic" where
  "count_step w now i t =
     (case count_interface w now i of (j, rxb, txb, rxs, txs) \<Rightarrow>
        t\<lparr>tr_ifs := tr_ifs t @ [j], tr_rxb := tr_rxb t + rxb, tr_txb := tr_txb t + txb,
          tr_speed_rx := tr_speed_rx t + rxs, tr_speed_tx := tr_speed_tx t + txs\<rparr>)"

text \<open>The clock is read once for every interface.\<close>

fun count_list :: "nat \<Rightarrow> (nat \<Rightarrow> real) \<Rightarrow> counters list \<Rightarrow> traffic \<Rightarrow> traffic" where
  "count_list w clock [] t = t"
| "count_list w clock (i # is) t = count_list w (\<lambda>k. clock (k + 1)) is (count_step w (clock 0) i t)"

definition count_traffic :: "nat \<Rightarrow> (nat \<Rightarrow> real) \<Rightarrow> traffic \<Rightarrow> traffic" where
  "count_traffic w clock t = count_list w clock (tr_ifs t) (t\<lparr>tr_ifs := [], tr_speed_rx := 0, tr_speed_tx := 0\<rparr>)"

section \<open>Packets between two counts\<close>

text \<open>\<open>In k dat\<close>: the \<open>k\<close>-th interface receives a packet; \<open>Out k dat\<close>: it sends one.\<close>

datatype passage = In nat bytes | Out nat bytes

fun pass :: "nat \<Rightarrow> passage \<Rightarrow> traffic \<Rightarrow> traffic" where
  "pass w (In k dat) t = (if k < length (tr_ifs t) then t\<lparr>tr_ifs := (tr_ifs t)[k := count_incoming w dat (tr_ifs t ! k)]\<rparr> else t)"
| "pass w (Out k dat) t = (if k < length (tr_ifs t) then t\<lparr>tr_ifs := (tr_ifs t)[k := handle_outgoing w dat (tr_ifs t ! k)]\<rparr> else t)"

text \<open>What interface \<open>k\<close> receives and sends in a sequence of passages.\<close>

fun received :: "nat \<Rightarrow> passage list \<Rightarrow> nat" where
  "received k [] = 0"
| "received k (In j dat # ps) = (if j = k then length dat else 0) + received k ps"
| "received k (Out j dat # ps) = received k ps"

fun sent :: "nat \<Rightarrow> passage list \<Rightarrow> nat" where
  "sent k [] = 0"
| "sent k (In j dat # ps) = sent k ps"
| "sent k (Out j dat # ps) = (if j = k then length dat else 0) + sent k ps"

text \<open>The interfaces that count were counted before, and nothing passed since.\<close>

definition settled :: "traffic \<Rightarrow> bool" where
  "settled t \<longleftrightarrow> list_all (\<lambda>i. ct_child i \<or>
     ct_counted_ts i \<noteq> 0 \<and> ct_counted_rxb i = ct_rxbytes i \<and> ct_counted_txb i = ct_txbytes i) (tr_ifs t)"

text \<open>What passed on the interfaces that have no parent.\<close>

definition own_ifs :: "traffic \<Rightarrow> nat list" where
  "own_ifs t = filter (\<lambda>k. \<not> ct_child (tr_ifs t ! k)) [0..<length (tr_ifs t)]"

section \<open>Lemmas\<close>

lemma pass_frame [simp]:
  "length (tr_ifs (pass w p t)) = length (tr_ifs t)" "tr_rxb (pass w p t) = tr_rxb t" "tr_txb (pass w p t) = tr_txb t"
  by (cases p; simp)+

lemma fold_pass_frame [simp]:
  "length (tr_ifs (fold (pass w) ps t)) = length (tr_ifs t)" "tr_rxb (fold (pass w) ps t) = tr_rxb t"
  "tr_txb (fold (pass w) ps t) = tr_txb t"
  by (induction ps arbitrary: t) simp_all

lemma received_Cons: "received k (p # ps) = received k [p] + received k ps"
  and sent_Cons: "sent k (p # ps) = sent k [p] + sent k ps"
  by (cases p; simp)+

text \<open>The state of an interface relative to an earlier one: only the octet counters moved.\<close>

definition moved :: "nat \<Rightarrow> nat \<Rightarrow> nat \<Rightarrow> counters \<Rightarrow> counters \<Rightarrow> bool" where
  "moved w m n i j \<longleftrightarrow> ct_child j = ct_child i \<and> ct_counted_ts j = ct_counted_ts i \<and>
     ct_counted_rxb j = ct_counted_rxb i \<and> ct_counted_txb j = ct_counted_txb i \<and>
     ct_rxbytes j mod 2 ^ w = (ct_rxbytes i + int m) mod 2 ^ w \<and> ct_txbytes j mod 2 ^ w = (ct_txbytes i + int n) mod 2 ^ w"

lemma moved_trans:
  assumes "moved w m n i j" and "moved w m' n' j k"
  shows "moved w (m + m') (n + n') i k"
proof -
  have t: "(c :: int) mod M = (a + int x + int y) mod M" if "b mod M = (a + int x) mod M" "c mod M = (b + int y) mod M" for a b c M x y
    using that by (metis mod_add_left_eq)
  show ?thesis using assms by (auto simp: moved_def add.assoc [symmetric] intro!: t)
qed

lemma pass_moved:
  "k < length (tr_ifs t) \<Longrightarrow> moved w (received k [p]) (sent k [p]) (tr_ifs t ! k) (tr_ifs (pass w p t) ! k)"
  by (cases p) (simp_all add: moved_def nth_list_update count_incoming_def handle_outgoing_def)

lemma fold_pass_moved:
  "k < length (tr_ifs t) \<Longrightarrow> moved w (received k ps) (sent k ps) (tr_ifs t ! k) (tr_ifs (fold (pass w) ps t) ! k)"
proof (induction ps arbitrary: t)
  case (Cons p ps)
  have "moved w (received k ps) (sent k ps) (tr_ifs (pass w p t) ! k) (tr_ifs (fold (pass w) ps (pass w p t)) ! k)"
    using Cons by simp
  with pass_moved [OF Cons.prems, of w p] show ?case
    unfolding received_Cons [of k p ps] sent_Cons [of k p ps] by (simp add: moved_trans)
qed (simp add: moved_def)

lemma count_list_eq:
  "tr_ifs (count_list w clock is t) = tr_ifs t @ map (\<lambda>k. fst (count_interface w (clock k) (is ! k))) [0..<length is]"
  "tr_rxb (count_list w clock is t) = tr_rxb t + (\<Sum>k\<leftarrow>[0..<length is]. fst (snd (count_interface w (clock k) (is ! k))))"
  "tr_txb (count_list w clock is t) = tr_txb t + (\<Sum>k\<leftarrow>[0..<length is]. fst (snd (snd (count_interface w (clock k) (is ! k)))))"
proof (induction "is" arbitrary: clock t)
  case (Cons i "is")
  have r: "map f [0..<length (i # is)] = f 0 # map (\<lambda>k. f (Suc k)) [0..<length is]" for f :: "nat \<Rightarrow> 'z"
    by (simp add: upt_conv_Cons map_Suc_upt [symmetric] comp_def del: upt_Suc)
  have s: "tr_ifs (count_step w c i t) = tr_ifs t @ [fst (count_interface w c i)]"
    "tr_rxb (count_step w c i t) = tr_rxb t + fst (snd (count_interface w c i))"
    "tr_txb (count_step w c i t) = tr_txb t + fst (snd (snd (count_interface w c i)))" for c t
    by (cases "count_interface w c i"; simp add: count_step_def)+
  { case 1 show ?case unfolding r by (simp add: Cons s) }
  { case 2 show ?case unfolding r by (simp add: Cons s) }
  { case 3 show ?case unfolding r by (simp add: Cons s) }
qed simp_all

text \<open>One interface that was settled: what it adds is what moved, when that fits the counter.\<close>

lemma count_moved:
  assumes "moved w m n i j" and "\<not> ct_child i" and "ct_counted_ts i \<noteq> 0"
    and "ct_counted_rxb i = ct_rxbytes i" and "ct_counted_txb i = ct_txbytes i" and "m < 2 ^ w" and "n < 2 ^ w"
  shows "fst (snd (count_interface w now j)) = word_of_nat m" and "fst (snd (snd (count_interface w now j))) = word_of_nat n"
proof -
  have d: "(b - a) mod 2 ^ w = int x" if "b mod 2 ^ w = (a + int x) mod 2 ^ w" "x < 2 ^ w" for a b :: int and x :: nat
  proof -
    have "(b - a) mod 2 ^ w = (a + int x - a) mod 2 ^ w" using that(1) by (metis mod_diff_left_eq)
    then show ?thesis using that(2) by (simp add: mod_pos_pos_trivial)
  qed
  show "fst (snd (count_interface w now j)) = word_of_nat m" "fst (snd (snd (count_interface w now j))) = word_of_nat n"
    using assms by (simp_all add: moved_def count_interface_def d Let_def)
qed

lemma count_child [simp]: "ct_child i \<Longrightarrow> count_interface w now i = (i, 0, 0, 0, 0)"
  by (simp add: count_interface_def)

lemma sum_list_own:
  assumes "\<And>k. k < n \<Longrightarrow> f k = (if P k then word_of_nat (g k) else (0::64 word))"
  shows "(\<Sum>k\<leftarrow>[0..<n]. f k) = word_of_nat (\<Sum>k\<leftarrow>filter P [0..<n]. g k)"
  using assms by (induction n) simp_all

lemma settled_counted:
  assumes "clock k \<noteq> 0"
  shows "ct_child (fst (count_interface w (clock k) j)) \<or>
    ct_counted_ts (fst (count_interface w (clock k) j)) \<noteq> 0 \<and>
    ct_counted_rxb (fst (count_interface w (clock k) j)) = ct_rxbytes (fst (count_interface w (clock k) j)) \<and>
    ct_counted_txb (fst (count_interface w (clock k) j)) = ct_txbytes (fst (count_interface w (clock k) j))"
  using assms by (simp add: count_interface_def Let_def)

section \<open>Properties\<close>

text \<open>
  C35. The totals are exact: whatever passes over the interfaces between two calls of \<open>count_traffic\<close>, in any
  order, the second adds exactly the octets that the interfaces without a parent received and sent, although
  their counters wrap, as long as no more than a whole turn of a counter passes between the calls; and the
  state is again one where everything is counted.
\<close>

theorem traffic_counted:
  assumes "settled t" and "list_all (\<lambda>k. received k ps < 2 ^ w \<and> sent k ps < 2 ^ w) (own_ifs t)"
    and "\<And>k. clock k \<noteq> 0"
  shows "tr_rxb (count_traffic w clock (fold (pass w) ps t)) = tr_rxb t + word_of_nat (\<Sum>k\<leftarrow>own_ifs t. received k ps) \<and>
    tr_txb (count_traffic w clock (fold (pass w) ps t)) = tr_txb t + word_of_nat (\<Sum>k\<leftarrow>own_ifs t. sent k ps) \<and>
    settled (count_traffic w clock (fold (pass w) ps t))"
proof -
  let ?n = "length (tr_ifs t)" and ?t = "fold (pass w) ps t"
  let ?own = "\<lambda>k. \<not> ct_child (tr_ifs t ! k)" and ?c = "\<lambda>k. count_interface w (clock k) (tr_ifs ?t ! k)"
  have mv: "moved w (received k ps) (sent k ps) (tr_ifs t ! k) (tr_ifs ?t ! k)" if "k < ?n" for k
    using fold_pass_moved that .
  have own: "fst (snd (?c k)) = word_of_nat (received k ps) \<and> fst (snd (snd (?c k))) = word_of_nat (sent k ps)"
    if k: "k < ?n" "?own k" for k
  proof -
    have "received k ps < 2 ^ w \<and> sent k ps < 2 ^ w" using assms(2) k by (simp add: own_ifs_def list_all_iff)
    moreover have "ct_counted_ts (tr_ifs t ! k) \<noteq> 0 \<and> ct_counted_rxb (tr_ifs t ! k) = ct_rxbytes (tr_ifs t ! k) \<and>
        ct_counted_txb (tr_ifs t ! k) = ct_txbytes (tr_ifs t ! k)"
      using assms(1) k by (auto simp: settled_def list_all_length)
    ultimately show ?thesis using count_moved [OF mv] k by simp
  qed
  have child: "?c k = (tr_ifs ?t ! k, 0, 0, 0, 0)" if "k < ?n" "\<not> ?own k" for k
    using mv that by (simp add: moved_def)
  have "(\<Sum>k\<leftarrow>[0..<?n]. fst (snd (?c k))) = word_of_nat (\<Sum>k\<leftarrow>own_ifs t. received k ps)"
    unfolding own_ifs_def by (rule sum_list_own) (use own child in simp)
  moreover have "(\<Sum>k\<leftarrow>[0..<?n]. fst (snd (snd (?c k)))) = word_of_nat (\<Sum>k\<leftarrow>own_ifs t. sent k ps)"
    unfolding own_ifs_def by (rule sum_list_own) (use own child in simp)
  moreover have "settled (count_traffic w clock ?t)"
    unfolding settled_def count_traffic_def count_list_eq by (auto simp: list_all_iff settled_counted assms(3))
  ultimately show ?thesis by (simp add: count_traffic_def count_list_eq)
qed

text \<open>A counter of 8 bits at 250 that receives 10 octets.\<close>

definition demo_traffic :: traffic where
  "demo_traffic = \<lparr>tr_ifs = [(new_counters False)\<lparr>ct_rxbytes := 250, ct_counted_rxb := 250, ct_counted_ts := 1\<rparr>],
     tr_rxb = 5, tr_txb = 0, tr_speed_rx = 0, tr_speed_tx = 0\<rparr>"

theorem traffic_counted_witness:
  "tr_rxb (count_traffic 8 (\<lambda>_. 2) (fold (pass 8) [In 0 (replicate 10 7)] demo_traffic)) = 15"
  using traffic_counted [of demo_traffic "[In 0 (replicate 10 7)]" 8 "\<lambda>_. 2"]
  by (simp add: demo_traffic_def settled_def own_ifs_def new_counters_def)

end
