(* ===== verification/Management.thy ===== *)
theory Management
  imports Path_Requests Traffic Link_Resources Provision_Demo
begin

text \<open>
  Remote management (\<open>Transport.cpp\<close>): the handlers of the requests \<open>/status\<close>, \<open>/path\<close> and \<open>/provision\<close> that a
  node answers over links to its management destination, and who may call them.  The first two report the
  interfaces and the path table, the third hands its octets to the configuration service.
\<close>

section \<open>Status\<close>

text \<open>\<open>si_rssi\<close>, \<open>si_snr\<close> and \<open>si_q\<close> are \<open>None\<close> where the code has a NaN; \<open>si_queue\<close> is the length of the announce queue.\<close>

record status_interface =
  si_string :: bytes
  si_name :: bytes
  si_hash :: bytes
  si_online :: bool
  si_mode :: iface_mode
  si_bitrate :: nat
  si_counters :: counters
  si_rssi :: "real option"
  si_snr :: "real option"
  si_q :: "real option"
  si_queue :: nat

fun mode_code :: "iface_mode \<Rightarrow> nat" where
  "mode_code MODE_NONE = 0"
| "mode_code MODE_FULL = 1"
| "mode_code MODE_POINT_TO_POINT = 4"
| "mode_code MODE_ACCESS_POINT = 8"
| "mode_code MODE_ROAMING = 16"
| "mode_code MODE_BOUNDARY = 32"
| "mode_code MODE_GATEWAY = 64"

definition include_link_count :: "bytes \<Rightarrow> bool" where
  "include_link_count dat =
     (case dat of
        [] \<Rightarrow> False
      | b0 # r \<Rightarrow>
          if b0 AND 0xF0 \<noteq> 0x90 then False
          else if b0 AND 0x0F = 0 then False
          else (case r of [] \<Rightarrow> False | b1 # _ \<Rightarrow> b1 = 0xC3))"

text \<open>The octets before the first \<open>[\<close>, or all.\<close>

definition type_name :: "bytes \<Rightarrow> bytes" where
  "type_name s = takeWhile (\<lambda>c. c \<noteq> 0x5B) s"

definition mp_text :: "string \<Rightarrow> mp_item" where
  "mp_text s = MP_str (ascii s)"

definition quality :: "real option \<Rightarrow> mp_item" where
  "quality x = (case x of None \<Rightarrow> MP_nil | Some r \<Rightarrow> MP_float64 r)"

definition pack_interface :: "status_interface \<Rightarrow> mp_item list" where
  "pack_interface i =
     (let c = si_counters i
      in [MP_map 18,
          mp_text ''name'', MP_str (si_string i),
          mp_text ''short_name'', MP_str (si_name i),
          mp_text ''hash'', MP_bin (si_hash i),
          mp_text ''type'', MP_str (type_name (si_string i)),
          mp_text ''status'', MP_bool (si_online i),
          mp_text ''mode'', MP_uint (mode_code (si_mode i)),
          mp_text ''clients'', MP_nil,
          mp_text ''bitrate'', if si_bitrate i > 0 then MP_uint (si_bitrate i) else MP_nil,
          mp_text ''rx'', MP_uint (nat (ct_rx c)),
          mp_text ''rxb'', MP_uint (nat (ct_rxbytes c)),
          mp_text ''tx'', MP_uint (nat (ct_tx c)),
          mp_text ''txb'', MP_uint (nat (ct_txbytes c)),
          mp_text ''rxs'', MP_float64 (ct_rx_speed c),
          mp_text ''txs'', MP_float64 (ct_tx_speed c),
          mp_text ''rssi'', quality (si_rssi i),
          mp_text ''snr'', quality (si_snr i),
          mp_text ''q'', quality (si_q i),
          mp_text ''announce_queue'', MP_uint (si_queue i mod 2 ^ 32)])"

text \<open>The interfaces and the totals, \<open>rx\<close> and \<open>tx\<close> summed up over the interfaces.\<close>

definition pack_totals :: "status_interface list \<Rightarrow> traffic \<Rightarrow> mp_item list" where
  "pack_totals is t =
     [mp_text ''rx'', MP_uint ((\<Sum>i\<leftarrow>is. nat (ct_rx (si_counters i))) mod 2 ^ 64),
      mp_text ''rxb'', MP_uint (unat (tr_rxb t)),
      mp_text ''tx'', MP_uint ((\<Sum>i\<leftarrow>is. nat (ct_tx (si_counters i))) mod 2 ^ 64),
      mp_text ''txb'', MP_uint (unat (tr_txb t)),
      mp_text ''rxs'', MP_float64 (tr_speed_rx t),
      mp_text ''txs'', MP_float64 (tr_speed_tx t)]"

definition stats_payload :: "status_interface list \<Rightarrow> traffic \<Rightarrow> mp_item list" where
  "stats_payload is t =
     [MP_map 7, mp_text ''interfaces'', MP_array (length is)] @ concat (map pack_interface is) @ pack_totals is t"

definition remote_status_handler :: "msgpack \<Rightarrow> status_interface list \<Rightarrow> traffic \<Rightarrow> nat \<Rightarrow> bytes \<Rightarrow> bytes" where
  "remote_status_handler M is t links dat =
     (let counted = include_link_count dat
      in mp_pack M [MP_array (if counted then 2 else 1)] @ mp_pack M (stats_payload is t) @
         (if counted then mp_pack M [MP_uint (links mod 2 ^ 32)] else []))"

section \<open>Paths\<close>

record path_query =
  pq_command :: bytes
  pq_hash :: bytes
  pq_max_hops :: "nat option"

text \<open>The optional elements; \<open>None\<close> in the first component is a malformed request.\<close>

definition query_hash :: "msgpack \<Rightarrow> nat \<Rightarrow> mp_item list \<Rightarrow> (bytes \<times> mp_item list) option" where
  "query_hash M n s =
     (if n < 2 then Some ([], s)
      else
        (case s of
           MP_nil # r \<Rightarrow> Some ([], r)
         | MP_bin h # r \<Rightarrow> Some (h, r)
         | _ \<Rightarrow> None))"

definition query_hops :: "msgpack \<Rightarrow> nat \<Rightarrow> mp_item list \<Rightarrow> nat option option" where
  "query_hops M n s =
     (if n < 3 then Some None
      else
        (case s of
           MP_nil # r \<Rightarrow> Some None
         | _ \<Rightarrow> if mp_is_int s then Some (Some (fst (mp_uint M 32 s))) else None))"

definition parse_path_query :: "msgpack \<Rightarrow> bytes \<Rightarrow> path_query option" where
  "parse_path_query M dat =
     (if dat = [] then None
      else
        (case mp_feed M dat of
           MP_array n # MP_str c # s \<Rightarrow>
             if n < 1 then None
             else
               (case query_hash M n s of
                  None \<Rightarrow> None
                | Some (h, r) \<Rightarrow>
                    (case query_hops M n r of
                       None \<Rightarrow> None
                     | Some m \<Rightarrow> Some \<lparr>pq_command = c, pq_hash = h, pq_max_hops = m\<rparr>))
         | _ \<Rightarrow> None))"

text \<open>\<open>iname\<close> gives the text of an interface.\<close>

definition pack_path_entry :: "(nat \<Rightarrow> bytes) \<Rightarrow> bytes \<times> path_entry \<Rightarrow> mp_item list" where
  "pack_path_entry iname x =
     (case x of (h, e) \<Rightarrow>
        [MP_map 6, mp_text ''hash'', MP_bin h, mp_text ''timestamp'', MP_float64 (pe_timestamp e),
         mp_text ''via'', MP_bin (pe_received_from e), mp_text ''hops'', MP_uint (unat (pe_hops e)),
         mp_text ''expires'', MP_float64 (pe_expires e),
         mp_text ''interface'', MP_str (case pe_receiving_interface e of None \<Rightarrow> [] | Some i \<Rightarrow> iname i)])"

definition pack_rate_entry :: "bytes \<times> rate_entry \<Rightarrow> mp_item list" where
  "pack_rate_entry x =
     (case x of (h, e) \<Rightarrow>
        [MP_map 5, mp_text ''hash'', MP_bin h, mp_text ''last'', MP_float64 (rt_last e),
         mp_text ''rate_violations'', MP_uint (nat \<lfloor>rt_rate_violations e\<rfloor> mod 2 ^ 32),
         mp_text ''blocked_until'', MP_float64 (rt_blocked_until e),
         mp_text ''timestamps'', MP_array (length (rt_timestamps e))] @ map MP_float64 (rt_timestamps e))"

abbreviation MAX_REPORTED_PATHS :: nat where "MAX_REPORTED_PATHS \<equiv> 100"

definition reports :: "path_query \<Rightarrow> path_states \<Rightarrow> bytes \<times> path_entry \<Rightarrow> bool" where
  "reports q states x =
     (case x of (h, e) \<Rightarrow>
        (pq_hash q = [] \<or> h = pq_hash q) \<and>
        (case pq_max_hops q of None \<Rightarrow> True | Some m \<Rightarrow> unat (pe_hops e) \<le> m) \<and> \<not> path_is_unresponsive states h)"

text \<open>The two passes over the path table, each with its own counter and its own end.\<close>

fun count_paths :: "('a \<Rightarrow> bool) \<Rightarrow> 'a list \<Rightarrow> nat \<Rightarrow> nat" where
  "count_paths P [] n = n"
| "count_paths P (x # xs) n =
     (if \<not> P x then count_paths P xs n
      else if n + 1 \<ge> MAX_REPORTED_PATHS then n + 1
      else count_paths P xs (n + 1))"

fun pack_paths :: "('a \<Rightarrow> bool) \<Rightarrow> ('a \<Rightarrow> mp_item list) \<Rightarrow> 'a list \<Rightarrow> nat \<Rightarrow> mp_item list" where
  "pack_paths P f [] n = []"
| "pack_paths P f (x # xs) n =
     (if \<not> P x then pack_paths P f xs n
      else if n + 1 \<ge> MAX_REPORTED_PATHS then f x
      else f x @ pack_paths P f xs (n + 1))"

text \<open>
  The answer: \<open>get\<close> looks up one path, \<open>entries\<close> is what the store enumerates.  With a hash the limit on the
  hops is not looked at.
\<close>

definition path_table_answer ::
  "(nat \<Rightarrow> bytes) \<Rightarrow> (bytes \<Rightarrow> path_entry option) \<Rightarrow> (bytes \<times> path_entry) list \<Rightarrow> path_states \<Rightarrow> path_query \<Rightarrow> mp_item list" where
  "path_table_answer iname get entries states q =
     (if pq_hash q \<noteq> [] then
        (case get (pq_hash q) of
           Some e \<Rightarrow>
             if \<not> path_is_unresponsive states (pq_hash q)
             then MP_array 1 # pack_path_entry iname (pq_hash q, e) else [MP_array 0]
         | None \<Rightarrow> [MP_array 0])
      else
        MP_array (count_paths (reports q states) entries 0) # pack_paths (reports q states) (pack_path_entry iname) entries 0)"

definition rate_table_answer :: "(bytes, rate_entry) table \<Rightarrow> path_query \<Rightarrow> mp_item list" where
  "rate_table_answer rates q =
     (let l = filter (\<lambda>(h, e). pq_hash q = [] \<or> h = pq_hash q) rates
      in MP_array (length l) # concat (map pack_rate_entry l))"

definition remote_path_handler ::
  "msgpack \<Rightarrow> (nat \<Rightarrow> bytes) \<Rightarrow> (bytes \<Rightarrow> path_entry option) \<Rightarrow> (bytes \<times> path_entry) list \<Rightarrow> path_states \<Rightarrow>
     (bytes, rate_entry) table \<Rightarrow> bytes \<Rightarrow> bytes" where
  "remote_path_handler M iname get entries states rates dat =
     (case parse_path_query M dat of
        None \<Rightarrow> []
      | Some q \<Rightarrow>
          if pq_command q = ascii ''table'' then mp_pack M (path_table_answer iname get entries states q)
          else if pq_command q = ascii ''rates'' then mp_pack M (rate_table_answer rates q)
          else [])"

section \<open>Who may call\<close>

text \<open>
  The management destination as \<open>start\<close> sets it up: each handler answers to the identities of the list.  The
  generator of \<open>/provision\<close> sees the state \<open>p\<close> of the configuration service at the time of the call.
\<close>

definition provision_generator :: "'w penv \<Rightarrow> 'w provisioner \<Rightarrow> response_generator" where
  "provision_generator E p path dat rid lid remote t = (case fst (handle_message E dat p) of Inl e \<Rightarrow> [] | Inr b \<Rightarrow> b)"

definition register_management ::
  "crypto_lib \<Rightarrow> bytes set \<Rightarrow> response_generator \<Rightarrow> response_generator \<Rightarrow> response_generator \<Rightarrow>
     'l destination \<Rightarrow> 'l destination result" where
  "register_management lib allowed status path provision d =
     res_bind (register_request_handler lib (ascii ''/status'') (Some status) ALLOW_LIST allowed True d) (\<lambda>d1.
     res_bind (register_request_handler lib (ascii ''/path'') (Some path) ALLOW_LIST allowed True d1) (\<lambda>d2.
       register_request_handler lib (ascii ''/provision'') (Some provision) ALLOW_LIST allowed True d2))"

text \<open>
  A request to a handler of the destination: its answer, and the configuration service after it.  Only
  \<open>/provision\<close> touches the service; when it throws there is no answer.
\<close>

definition management_request ::
  "'w penv \<Rightarrow> (bytes \<Rightarrow> request_handler option) \<Rightarrow> bytes \<Rightarrow> resource_request \<Rightarrow> link \<Rightarrow> 'w provisioner \<Rightarrow>
     bytes option result \<times> 'w provisioner" where
  "management_request E handlers rid q l p =
     (case handlers (rq_path_hash q) of
        Some h \<Rightarrow>
          if l_status l = LACTIVE \<and> request_allowed h (l_remote_identity l) \<and> rh_path h = ascii ''/provision''
          then
            (case handle_message E (rq_request_data q) p of
               (Inl e, p') \<Rightarrow> (Inl e, p')
             | (Inr b, p') \<Rightarrow> (Inr (if b \<noteq> [] then Some b else None), p'))
          else (handle_request handlers rid (rq_requested_at q) (rq_path_hash q) (rq_request_data q) l, p)
      | None \<Rightarrow> (Inr None, p))"

fun serve_event :: "'w penv \<Rightarrow> (bytes \<Rightarrow> request_handler option) \<Rightarrow> link \<Rightarrow> link_event \<Rightarrow> 'w provisioner \<Rightarrow> 'w provisioner" where
  "serve_event E handlers l (Request_input rid pt) p =
     (case unpack_request_envelope (pe_msgpack E) pt of
        None \<Rightarrow> p
      | Some q \<Rightarrow> snd (management_request E handlers rid q l p))"
| "serve_event E handlers l ev p = p"

text \<open>
  One end of an incoming link to the management destination, with the configuration service: packets arrive,
  among them requests and identifications; a request that was sent as a resource is complete
  (\<open>managed_large\<close>: any request at any time); the link sends, proves and closes.
\<close>

inductive managed_step ::
  "crypto_lib \<Rightarrow> 'w penv \<Rightarrow> (bytes \<Rightarrow> request_handler option) \<Rightarrow> link \<times> 'w provisioner \<Rightarrow> link \<times> 'w provisioner \<Rightarrow> bool"
  for lib E handlers where
  managed_packet: "link_receive lib unpack_rtt prove now iface pkt l = Inr (l', evs) \<Longrightarrow>
     managed_step lib E handlers (l, p) (l', fold (serve_event E handlers l') evs p)"
| managed_large: "managed_step lib E handlers (l, p) (l, snd (management_request E handlers rid q l p))"
| managed_send: "link_send lib now iv ka ty ctx dat l = Inr (l', evs) \<Longrightarrow> managed_step lib E handlers (l, p) (l', p)"
| managed_prove: "prove_packet lib now pkt l = Inr (l', evs) \<Longrightarrow> managed_step lib E handlers (l, p) (l', p)"
| managed_close: "teardown lib now iv l = Inr (l', evs) \<Longrightarrow> managed_step lib E handlers (l, p) (l', p)"

inductive managed_run ::
  "crypto_lib \<Rightarrow> 'w penv \<Rightarrow> (bytes \<Rightarrow> request_handler option) \<Rightarrow> link \<times> 'w provisioner \<Rightarrow> link \<times> 'w provisioner \<Rightarrow> bool"
  for lib E handlers where
  managed_here: "managed_run lib E handlers x x"
| managed_more: "managed_run lib E handlers x y \<Longrightarrow> managed_step lib E handlers y z \<Longrightarrow> managed_run lib E handlers x z"

inductive_cases managed_stepE: "managed_step lib E handlers (l, p) z"

section \<open>Lemmas\<close>

subsection \<open>Reports\<close>

lemma count_paths_eq: "n < 100 \<Longrightarrow> count_paths P xs n = n + length (take (100 - n) (filter P xs))"
proof (induction xs arbitrary: n)
  case (Cons x xs)
  show ?case
  proof (cases "P x \<and> n + 1 < 100")
    case True
    then have "100 - n = Suc (100 - (n + 1))" by arith
    then show ?thesis using True Cons.IH [of "n + 1"] by simp
  next
    case False
    then show ?thesis using Cons by (cases "n = 99") auto
  qed
qed simp

lemma pack_paths_eq: "n < 100 \<Longrightarrow> pack_paths P f xs n = concat (map f (take (100 - n) (filter P xs)))"
proof (induction xs arbitrary: n)
  case (Cons x xs)
  show ?case
  proof (cases "P x \<and> n + 1 < 100")
    case True
    then have "100 - n = Suc (100 - (n + 1))" by arith
    then show ?thesis using True Cons.IH [of "n + 1"] by simp
  next
    case False
    then show ?thesis using Cons by (cases "n = 99") auto
  qed
qed simp

text \<open>Every report, whatever is in it, is one MessagePack object, so that it can stand in the envelope of a response.\<close>

definition atom :: "mp_item \<Rightarrow> bool" where
  "atom x \<longleftrightarrow> (case x of MP_map _ \<Rightarrow> False | MP_array _ \<Rightarrow> False | _ \<Rightarrow> True)"

lemma skip_atoms: "list_all atom xs \<Longrightarrow> skip_values (length xs + k) (xs @ r) = skip_values k r"
  by (induction xs) (auto simp: atom_def split: mp_item.splits)

lemma skip_map:
  assumes "list_all atom xs" and "length xs = 2 * n"
  shows "skip_values (Suc k) (MP_map n # xs @ r) = skip_values k r"
  using skip_atoms [OF assms(1), of k r] assms(2) by simp

lemma skip_objects:
  assumes "\<And>x k r. skip_values (Suc k) (f x @ r) = skip_values k r"
  shows "skip_values (length l + k) (concat (map f l) @ r) = skip_values k r"
proof (induction l)
  case (Cons x l)
  then show ?case using assms [of "length l + k" x "concat (map f l) @ r"] by simp
qed simp

lemma skip_pack_interface: "skip_values (Suc k) (pack_interface i @ r) = skip_values k r"
proof -
  let ?xs = "tl (pack_interface i)"
  have "pack_interface i = MP_map 18 # ?xs" by (simp add: pack_interface_def Let_def)
  moreover have "list_all atom ?xs" "length ?xs = 2 * 18"
    by (simp_all add: pack_interface_def Let_def atom_def mp_text_def quality_def split: option.split)
  ultimately show ?thesis using skip_map [of ?xs 18 k r] by (metis append_Cons)
qed

lemma skip_path_entry: "skip_values (Suc k) (pack_path_entry iname x @ r) = skip_values k r"
proof -
  let ?xs = "tl (pack_path_entry iname x)"
  have "pack_path_entry iname x = MP_map 6 # ?xs" by (simp add: pack_path_entry_def case_prod_beta)
  moreover have "list_all atom ?xs" "length ?xs = 2 * 6"
    by (simp_all add: pack_path_entry_def case_prod_beta atom_def mp_text_def)
  ultimately show ?thesis using skip_map [of ?xs 6 k r] by (metis append_Cons)
qed

lemma skip_rate_entry: "skip_values (Suc k) (pack_rate_entry x @ r) = skip_values k r"
proof -
  obtain h e where x: "x = (h, e)" by fastforce
  let ?ts = "map MP_float64 (rt_timestamps e)"
  have "list_all atom ?ts" by (simp add: list_all_iff atom_def)
  then have ts: "skip_values (length (rt_timestamps e) + k) (?ts @ r) = skip_values k r" using skip_atoms [of ?ts k r] by simp
  let ?xs = "[mp_text ''hash'', MP_bin h, mp_text ''last'', MP_float64 (rt_last e), mp_text ''rate_violations'',
      MP_uint (nat \<lfloor>rt_rate_violations e\<rfloor> mod 2 ^ 32), mp_text ''blocked_until'', MP_float64 (rt_blocked_until e),
      mp_text ''timestamps'']"
  have "pack_rate_entry x = MP_map 5 # ?xs @ MP_array (length (rt_timestamps e)) # ?ts" by (simp add: x pack_rate_entry_def)
  moreover have a: "list_all atom ?xs" and n: "2 * 5 + k = length ?xs + Suc k" by (simp_all add: atom_def mp_text_def)
  have "skip_values (Suc k) (MP_map 5 # ?xs @ s) = skip_values (Suc k) s" for s
    by (simp only: skip_values.simps(4) n skip_atoms [OF a])
  ultimately show ?thesis using ts by (simp only: append_Cons append_assoc skip_values.simps(3))
qed

text \<open>Exactly one object: read together with what follows it, it leaves what follows it.\<close>

definition one_object :: "mp_item list \<Rightarrow> bool" where
  "one_object xs \<longleftrightarrow> (\<forall>k r. skip_values (Suc k) (xs @ r) = skip_values k r)"

lemma one_objectI: "(\<And>k r. skip_values (Suc k) (xs @ r) = skip_values k r) \<Longrightarrow> one_object xs"
  by (simp add: one_object_def)

lemma one_object_rest: "one_object xs \<Longrightarrow> skip_values 1 (xs @ r) = r"
  by (simp add: one_object_def)

lemma one_object_list:
  assumes "\<And>x. one_object (f x)"
  shows "one_object (MP_array (length l) # concat (map f l))"
  using skip_objects [where f = f and l = l] assms by (auto simp: one_object_def intro!: one_objectI)

lemma skip_stats: "skip_values (Suc k) (stats_payload is t @ r) = skip_values k r"
proof -
  let ?tail = "pack_totals is t"
  have i: "skip_values (length is + j) (concat (map pack_interface is) @ s) = skip_values j s" for j s
    by (rule skip_objects) (rule skip_pack_interface)
  have "list_all atom ?tail" "length ?tail = 12" by (simp_all add: pack_totals_def atom_def mp_text_def)
  then have t: "skip_values (12 + k) (?tail @ r) = skip_values k r" using skip_atoms [of ?tail k r] by simp
  have "skip_values (Suc k) (stats_payload is t @ r) = skip_values (14 + k) (mp_text ''interfaces'' # MP_array (length is) #
      concat (map pack_interface is) @ ?tail @ r)"
    by (simp add: stats_payload_def)
  also have "\<dots> = skip_values (length is + (12 + k)) (concat (map pack_interface is) @ ?tail @ r)"
    using skip_values.simps(3,4) by (simp add: mp_text_def eval_nat_numeral)
  finally show ?thesis using i t by simp
qed

subsection \<open>Identified links\<close>

text \<open>What the operations of an incoming link leave alone.\<close>

definition same_peer :: "link \<Rightarrow> link \<Rightarrow> bool" where
  "same_peer l l' \<longleftrightarrow> l_initiator l' = l_initiator l \<and> l_link_id l' = l_link_id l \<and> l_remote_identity l' = l_remote_identity l"

lemma same_peer_trans: "same_peer l l' \<Longrightarrow> same_peer l' l'' \<Longrightarrow> same_peer l l''"
  by (simp add: same_peer_def)

lemma same_peer_simps [simp]:
  "same_peer l (with_token l)" "same_peer l (had_outbound now ka l)" "same_peer l l"
  by (simp_all add: same_peer_def with_token_def had_outbound_def Let_def split: sum.split)

lemma link_send_peer: "link_send lib now iv ka ty ctx dat l = Inr (l', evs) \<Longrightarrow> same_peer l l'"
proof -
  have "same_peer l (had_outbound now ka (with_token l))" by (rule same_peer_trans [OF same_peer_simps(1,2)])
  then show "link_send lib now iv ka ty ctx dat l = Inr (l', evs) \<Longrightarrow> same_peer l l'"
    by (auto simp: link_send_def res_bind_eq_Inr)
qed

lemma link_decrypt_peer: "link_decrypt lib l c = Inr (pt, l') \<Longrightarrow> same_peer l l'"
  by (auto simp: same_peer_def link_decrypt_def split: if_splits sum.splits)

text \<open>The remote identity of a link, where it has one, signed the id of the link.\<close>

definition signed_link :: "crypto_lib \<Rightarrow> bytes \<Rightarrow> identity \<Rightarrow> bool" where
  "signed_link lib lid i \<longleftrightarrow> (\<exists>pub sig. length pub = KEYSIZE div 8 \<and> i = load_public_key lib pub new_identity \<and>
     identity_validate lib i sig (lid @ pub) = Inr True)"

definition identified :: "crypto_lib \<Rightarrow> bytes \<Rightarrow> link \<Rightarrow> bool" where
  "identified lib lid l \<longleftrightarrow> \<not> l_initiator l \<and> l_link_id l = lid \<and> (\<forall>i. l_remote_identity l = Some i \<longrightarrow> signed_link lib lid i)"

lemma identified_peer: "identified lib lid l \<Longrightarrow> same_peer l l' \<Longrightarrow> identified lib lid l'"
  by (simp add: identified_def same_peer_def)

lemma identified_identify:
  assumes "identified lib lid l" and "receive_identify lib p l = Inr (l', evs)"
  shows "identified lib lid l'"
proof -
  obtain pt l1 where d: "link_decrypt lib l (p_data p) = Inr (pt, l1)"
    using assms(2) by (auto simp: receive_identify_def res_bind_eq_Inr)
  note id1 = identified_peer [OF assms(1) link_decrypt_peer [OF d]]
  show ?thesis
  proof (cases "pt \<noteq> [] \<and> \<not> l_initiator l1 \<and> length pt = KEYSIZE div 8 + SIGLENGTH div 8")
    case True
    let ?pub = "left pt (KEYSIZE div 8)"
    let ?i = "load_public_key lib ?pub new_identity"
    obtain ok where v: "identity_validate lib ?i (mid pt (KEYSIZE div 8) (SIGLENGTH div 8)) (l_link_id l1 @ ?pub) = Inr ok"
      and l': "l' = (if ok then l1\<lparr>l_remote_identity := Some ?i\<rparr> else l1)"
      using assms(2) d True by (auto simp: receive_identify_def Let_def res_bind_eq_Inr split: if_splits)
    have len: "length ?pub = KEYSIZE div 8" using True by (simp add: left_eq)
    have "signed_link lib lid ?i" if ok
      unfolding signed_link_def
      by (rule exI [of _ ?pub], rule exI [of _ "mid pt (KEYSIZE div 8) (SIGLENGTH div 8)"])
        (use v that id1 len in \<open>simp add: identified_def\<close>)
    then show ?thesis using l' id1 by (simp add: identified_def)
  next
    case False
    then have "l' = l1" using assms(2) d by (auto simp: receive_identify_def)
    then show ?thesis using id1 by simp
  qed
qed

lemma receive_data_cases:
  assumes "receive_data lib ur prove now p l = Inr (l', evs)" and "p_context p \<noteq> LINKIDENTIFY"
  shows "same_peer l l'"
proof -
  have d: "same_peer l l'" if "decrypt_input lib p ev l = Inr (l', evs)" for ev
    using that by (auto simp: decrypt_input_def res_bind_eq_Inr dest: link_decrypt_peer)
  have r: "same_peer l l'" if "rtt_packet lib ur now p l = Inr (l', evs)"
    using that by (auto simp: rtt_packet_def res_bind_eq_Inr same_peer_def dest!: link_decrypt_peer split: if_splits)
  have t: "same_peer l l'" if "teardown_packet lib p l = Inr (l', evs)"
    using that by (auto simp: teardown_packet_def link_closed_def res_bind_eq_Inr same_peer_def dest!: link_decrypt_peer split: if_splits)
  show ?thesis using assms
    by (auto simp: receive_data_def res_bind_eq_Inr dest: d r t link_send_peer split: if_splits)
qed

lemma identified_receive:
  assumes "identified lib lid l" and "link_receive lib ur prove now iface p l = Inr (l', evs)"
  shows "identified lib lid l'"
proof -
  let ?l1 = "l\<lparr>l_last_inbound := now, l_last_data := (if p_context p \<noteq> KEEPALIVE then now else l_last_data l),
      l_rx := (l_rx l + 1) mod 2 ^ 16, l_rxbytes := (l_rxbytes l + length (p_data p)) mod 2 ^ 16,
      l_status := (if l_status l = STALE then LACTIVE else l_status l)\<rparr>"
  have l1: "identified lib lid ?l1" using assms(1) by (simp add: identified_def)
  have "l' = l \<or> l' = ?l1 \<or> receive_data lib ur prove now p ?l1 = Inr (l', evs)"
    using assms(2) unfolding link_receive_def Let_def by (auto split: if_splits)
  then show ?thesis
  proof (elim disjE)
    assume r: "receive_data lib ur prove now p ?l1 = Inr (l', evs)"
    show ?thesis
    proof (cases "p_context p = LINKIDENTIFY")
      case True
      then have "receive_identify lib p ?l1 = Inr (l', evs)" using r by (simp add: receive_data_def)
      then show ?thesis by (rule identified_identify [OF l1])
    next
      case False
      then show ?thesis by (rule identified_peer [OF l1 receive_data_cases [OF r]])
    qed
  qed (use assms(1) l1 in simp_all)
qed

lemma link_closed_peer: "same_peer l (fst (link_closed (l\<lparr>l_status := st, l_teardown_reason := r\<rparr>)))"
  by (simp add: link_closed_def same_peer_def)

lemma identified_teardown:
  assumes "identified lib lid l" and "teardown lib now iv l = Inr (l', evs)"
  shows "identified lib lid l'"
proof -
  let ?out = "if l_status l \<noteq> PENDING \<and> l_status l \<noteq> CLOSED then link_send lib now iv False DATA LINKCLOSE (l_link_id l) l
      else Inr (l, [])"
  obtain l1 e1 where out: "?out = Inr (l1, e1)" using assms(2) unfolding teardown_def by (cases ?out) auto
  have l': "l' = fst (link_closed (l1\<lparr>l_status := CLOSED,
      l_teardown_reason := (if l_initiator l1 then INITIATOR_CLOSED else DESTINATION_CLOSED)\<rparr>))"
    using assms(2) out unfolding teardown_def by (simp add: Let_def case_prod_beta)
  have "same_peer l l1" using out by (cases "l_status l \<noteq> PENDING \<and> l_status l \<noteq> CLOSED") (auto dest: link_send_peer)
  then show ?thesis unfolding l' by (intro identified_peer [OF assms(1)] same_peer_trans [OF _ link_closed_peer])
qed

lemma identified_prove: "identified lib lid l \<Longrightarrow> prove_packet lib now p l = Inr (l', evs) \<Longrightarrow> identified lib lid l'"
  by (auto simp: prove_packet_def res_bind_eq_Inr intro: identified_peer dest!: link_send_peer)

subsection \<open>Handlers\<close>

text \<open>Every handler answers to a list of identities, and it is this one.\<close>

definition listed :: "bytes set \<Rightarrow> (bytes \<Rightarrow> request_handler option) \<Rightarrow> bool" where
  "listed allowed handlers \<longleftrightarrow> (\<forall>k h. handlers k = Some h \<longrightarrow> rh_allow h = ALLOW_LIST \<and> rh_allowed_list h = allowed)"

lemma listed_register:
  assumes "listed allowed (d_request_handlers d)" and "register_request_handler lib path g ALLOW_LIST allowed ac d = Inr d'"
  shows "listed allowed (d_request_handlers d')"
  using assms by (auto simp: register_request_handler_def listed_def map_insert_def split: if_splits option.splits)

lemma listed_management:
  assumes "d_request_handlers d = Map.empty" and "register_management lib allowed status path provision d = Inr d'"
  shows "listed allowed (d_request_handlers d')"
proof -
  have "listed allowed (d_request_handlers d)" using assms(1) by (simp add: listed_def)
  with assms(2) show ?thesis unfolding register_management_def res_bind_eq_Inr by (blast intro: listed_register)
qed

text \<open>Without an identity of the list nothing is handed to the configuration service.\<close>

lemma management_request_state:
  assumes "listed allowed handlers" and "snd (management_request E handlers rid q l p) \<noteq> p"
  shows "\<exists>i. l_remote_identity l = Some i \<and> i_hash i \<in> allowed"
proof -
  obtain h where h: "handlers (rq_path_hash q) = Some h" "request_allowed h (l_remote_identity l)"
    using assms(2) by (auto simp: management_request_def split: option.splits if_splits)
  then have "rh_allow h = ALLOW_LIST" "rh_allowed_list h = allowed" using assms(1) by (auto simp: listed_def)
  then show ?thesis using h(2) by (auto simp: request_allowed_def split: option.splits)
qed

lemma serve_event_state:
  "listed allowed handlers \<Longrightarrow> serve_event E handlers l ev p \<noteq> p \<Longrightarrow> \<exists>i. l_remote_identity l = Some i \<and> i_hash i \<in> allowed"
  by (cases ev) (auto dest: management_request_state split: option.splits)

lemma serve_events_state:
  assumes "listed allowed handlers" and "fold (serve_event E handlers l) evs p \<noteq> p"
  shows "\<exists>i. l_remote_identity l = Some i \<and> i_hash i \<in> allowed"
  using assms(2)
proof (induction evs arbitrary: p)
  case (Cons ev evs)
  then show ?case using serve_event_state [OF assms(1), of E l ev p] by (cases "serve_event E handlers l ev p = p") auto
qed simp

text \<open>The answer to a request is that of \<open>handle_request\<close>, with the generator of the current state.\<close>

lemma management_request_answer:
  assumes "handlers (rq_path_hash q) = Some h" and "rh_path h = ascii ''/provision'' \<longrightarrow> rh_response_generator h = Some (provision_generator E p)"
    and "management_request E handlers rid q l p = (Inr b, p')"
  shows "handle_request handlers rid (rq_requested_at q) (rq_path_hash q) (rq_request_data q) l = Inr b"
  using assms by (auto simp: management_request_def handle_request_def provision_generator_def split: if_splits prod.splits sum.splits)

subsection \<open>An example\<close>

text \<open>An incoming link on which an administrator identifies, and a configuration with a draft to discard.\<close>

definition demo_link :: "token \<Rightarrow> link" where
  "demo_link t = new_link_data\<lparr>l_initiator := False, l_status := LACTIVE, l_link_id := replicate 16 1, l_token := Some t\<rparr>"

definition demo_admin :: identity where
  "demo_admin = load_public_key demo_lib (replicate 64 0) new_identity"

definition demo_generator :: response_generator where
  "demo_generator path dat rid lid remote t = []"

definition demo_started :: "demo_app provisioner" where
  "demo_started = (demo_p [(1, Int_v 5)])\<lparr>pv_started := True\<rparr>"

lemma demo_verify: "ed25519_verify demo_lib (demo_tag 64 (k @ m)) k m = True"
  by (simp add: demo_lib_def)

lemma demo_identifies:
  assumes t: "new_token (replicate 64 1) MODE_AES = Inr t"
  shows "\<exists>p l'. link_receive demo_lib (\<lambda>_. 0) False 1 None p (demo_link t) = Inr (l', [Remote_identified]) \<and>
    l_status l' = LACTIVE \<and> l_remote_identity l' = Some demo_admin"
proof -
  let ?pub = "replicate 64 0 :: bytes"
  let ?sig = "demo_tag 64 (drop 32 ?pub @ replicate 16 1 @ ?pub)"
  obtain ct where ct: "token_decrypt demo_lib t ct = Inr (?pub @ ?sig)"
    using token_encrypt_decrypt [OF demo_lib_ok _ t, of "replicate 16 0" "?pub @ ?sig"] by auto
  have len: "length ?sig = 64" by (simp add: demo_tag_def)
  have v: "identity_validate demo_lib (load_public_key demo_lib ?pub new_identity) ?sig (replicate 16 1 @ ?pub) = Inr True"
    using identity_validate_loaded [of ?pub ?sig demo_lib new_identity] len demo_verify by (simp only: length_replicate)
  have parts: "left (?pub @ ?sig) 64 = ?pub" "mid (?pub @ ?sig) 64 64 = ?sig"
    using len by (simp_all add: bytes_simps)
  show ?thesis
    using v parts len ct
    by (intro exI [of _ "new_object\<lparr>p_context := LINKIDENTIFY, p_data := ct\<rparr>"])
      (simp add: link_receive_def receive_data_def receive_identify_def link_decrypt_def link_token_def demo_link_def
        new_link_data_def new_object_def demo_admin_def Let_def)
qed

lemma demo_changes:
  "snd (handle_message demo_env (mp_pack demo_msgpack [MP_array 1, MP_uint 7]) demo_started) \<noteq> demo_started"
proof -
  have feed: "mp_feed demo_msgpack (mp_pack demo_msgpack [MP_array 1, MP_uint 7]) = [MP_array 1, MP_uint 7]"
    by (intro msgpack_okD(3) [OF demo_msgpack_ok]) simp_all
  have "pe_msgpack demo_env = demo_msgpack" "pv_started demo_started" by (simp_all add: demo_env_def demo_started_def)
  then have "snd (handle_message demo_env (mp_pack demo_msgpack [MP_array 1, MP_uint 7]) demo_started) =
      snd (op_discard demo_env 0 None demo_started)"
    using feed by (simp add: handle_message_def dispatch_def Let_def mp_is_array_def mp_array_size_def mp_is_int_def mp_int_def
        case_prod_beta)
  also have "ns_draft (pv_namespaces \<dots> ! 0) = []"
    by (simp add: op_discard_def selected_def count_and_clear_def demo_started_def demo_find clear_drafts_def)
  finally show ?thesis by (auto simp: demo_started_def demo_find)
qed

lemma demo_text_hash: "m \<noteq> [] \<Longrightarrow> truncated_hash demo_lib m = replicate 16 (word_of_nat (length m) XOR hd m)"
  by (cases m) (simp_all add: truncated_hash_def full_hash_def sha256_def demo_lib_def demo_tag_def left_eq)

section \<open>Properties\<close>

text \<open>
  C25. The configuration of a node changes over a link only for its administrators: whatever packets arrive on an
  incoming link to the management destination, in any order, if the state of the configuration service is not
  what it was, then somebody has signed the id of this link with the key of an identity of the list of
  administrators.
\<close>

theorem management_authorised:
  assumes "d_request_handlers d = Map.empty" and "register_management lib allowed status path provision d = Inr d'"
    and "\<not> l_initiator l" and "l_remote_identity l = None"
    and "managed_run lib E (d_request_handlers d') (l, p) (l', p')" and "p' \<noteq> p"
  shows "\<exists>i. i_hash i \<in> allowed \<and> signed_link lib (l_link_id l) i"
proof -
  let ?hs = "d_request_handlers d'" and ?lid = "l_link_id l"
  note hs = listed_management [OF assms(1,2)]
  have use: "\<exists>i. i_hash i \<in> allowed \<and> signed_link lib ?lid i"
    if "identified lib ?lid m" "\<exists>i. l_remote_identity m = Some i \<and> i_hash i \<in> allowed" for m
    using that by (auto simp: identified_def)
  have "identified lib ?lid (fst z) \<and> (snd z \<noteq> p \<longrightarrow> (\<exists>i. i_hash i \<in> allowed \<and> signed_link lib ?lid i))"
    if "managed_run lib E ?hs (l, p) z" for z
    using that
  proof (induction "(l, p)" z rule: managed_run.induct)
    case managed_here
    then show ?case using assms(3,4) by (simp add: identified_def)
  next
    case (managed_more y z)
    obtain m q where y: "y = (m, q)" by (cases y)
    have m: "identified lib ?lid m" using managed_more y by simp
    from managed_more(3) show ?case unfolding y
    proof (cases rule: managed_step.cases)
      case (managed_packet ur prove now iface pkt l1 evs)
      then have "link_receive lib ur prove now iface pkt m = Inr (l1, evs)" by simp
      note l1 = identified_receive [OF m this]
      show ?thesis using managed_packet l1 serve_events_state [OF hs, of E l1 evs q] use [OF l1] managed_more(2) y by auto
    next
      case (managed_large rid rq)
      then show ?thesis using m management_request_state [OF hs, of E rid rq m q] use [OF m] managed_more(2) y by auto
    qed (use m managed_more(2) y in \<open>auto intro: identified_peer identified_prove identified_teardown dest: link_send_peer\<close>)
  qed
  then show ?thesis using assms(5,6) by force
qed

theorem management_authorised_witness:
  "\<exists>t d0 d l p. register_management demo_lib {i_hash demo_admin} demo_generator demo_generator
      (provision_generator demo_env demo_started) d0 = Inr (d :: nat destination) \<and>
    managed_run demo_lib demo_env (d_request_handlers d) (demo_link t, demo_started) (l, p) \<and> p \<noteq> demo_started \<and>
    (\<exists>i. i_hash i \<in> {i_hash demo_admin} \<and> signed_link demo_lib (l_link_id (demo_link t)) i)"
proof -
  obtain t where t: "new_token (replicate 64 1) MODE_AES = Inr t" using new_token_64 [of "replicate 64 1"] by auto
  let ?adm = "{i_hash demo_admin}" and ?gen = "provision_generator demo_env demo_started"
  let ?k = "truncated_hash demo_lib (ascii ''/provision'')"
  let ?h = "\<lparr>rh_path = ascii ''/provision'', rh_response_generator = Some ?gen, rh_allow = ALLOW_LIST, rh_allowed_list = ?adm,
      rh_auto_compress = True\<rparr>"
  define d0 :: "nat destination" where "d0 = undefined\<lparr>d_request_handlers := Map.empty\<rparr>"
  obtain d where d: "register_management demo_lib ?adm demo_generator demo_generator ?gen d0 = Inr d"
      "d_request_handlers d ?k = Some ?h"
    by (simp add: register_management_def register_request_handler_def d0_def map_insert_def demo_text_hash ascii_def)
  obtain pkt l where l: "link_receive demo_lib (\<lambda>_. 0) False 1 None pkt (demo_link t) = Inr (l, [Remote_identified])"
      "l_status l = LACTIVE" "l_remote_identity l = Some demo_admin"
    using demo_identifies [OF t] by blast
  let ?q = "\<lparr>rq_requested_at = 0, rq_path_hash = ?k, rq_request_data = mp_pack demo_msgpack [MP_array 1, MP_uint 7]\<rparr>"
  let ?p = "snd (management_request demo_env (d_request_handlers d) [] ?q l demo_started)"
  have "?p \<noteq> demo_started"
    using demo_changes d(2) l(2,3) by (auto simp: management_request_def request_allowed_def split: prod.split sum.split)
  moreover have "managed_step demo_lib demo_env (d_request_handlers d) (demo_link t, demo_started) (l, demo_started)"
    using managed_packet [OF l(1), of demo_env "d_request_handlers d" demo_started] by simp
  then have "managed_run demo_lib demo_env (d_request_handlers d) (demo_link t, demo_started) (l, ?p)"
    by (blast intro: managed_run.intros managed_large)
  moreover have "d_request_handlers d0 = Map.empty" "\<not> l_initiator (demo_link t)" "l_remote_identity (demo_link t) = None"
    by (simp_all add: d0_def demo_link_def new_link_data_def)
  ultimately show ?thesis using management_authorised [OF _ d(1), of "demo_link t" demo_env demo_started l ?p] d(1) by metis
qed

text \<open>What the two handlers answer, before it is packed.\<close>

lemma one_object_paths: "one_object (path_table_answer iname get entries states q)"
proof (cases "pq_hash q = []")
  case True
  then show ?thesis
    using one_object_list [where f = "pack_path_entry iname" and l = "take 100 (filter (reports q states) entries)"]
    by (simp add: path_table_answer_def count_paths_eq pack_paths_eq one_objectI skip_path_entry)
next
  case False
  have "one_object (MP_array 1 # pack_path_entry iname x)" "one_object [MP_array 0]" for x
    by (rule one_objectI; simp add: skip_path_entry)+
  with False show ?thesis by (simp add: path_table_answer_def split: option.split)
qed

lemma one_object_rates: "one_object (rate_table_answer rates q)"
  unfolding rate_table_answer_def Let_def by (intro one_object_list one_objectI skip_rate_entry)

definition status_answer :: "status_interface list \<Rightarrow> traffic \<Rightarrow> nat \<Rightarrow> bool \<Rightarrow> mp_item list" where
  "status_answer is t links counted =
     MP_array (if counted then 2 else 1) # stats_payload is t @ (if counted then [MP_uint (links mod 2 ^ 32)] else [])"

lemma remote_status_packs:
  assumes "msgpack_ok M"
  shows "remote_status_handler M is t links dat = mp_pack M (status_answer is t links (include_link_count dat))"
proof -
  have "mp_pack M (MP_array n # stats_payload is t @ xs) = mp_pack M [MP_array n] @ mp_pack M (stats_payload is t) @ mp_pack M xs" for n xs
    using msgpack_okD(1) [OF assms, of "[MP_array n]" "stats_payload is t @ xs"] msgpack_okD(1) [OF assms, of "stats_payload is t" xs]
    by simp
  from this [of 1 "[]"] this [of 2 "[MP_uint (links mod 2 ^ 32)]"] show ?thesis
    using msgpack_okD(1) [OF assms, of "[]" "[]"] by (simp add: remote_status_handler_def status_answer_def Let_def)
qed

lemma one_object_status: "one_object (status_answer is t links counted)"
  using skip_stats by (auto intro!: one_objectI simp: status_answer_def)

lemma demo_path_query:
  "parse_path_query demo_msgpack (mp_pack demo_msgpack [MP_array 1, MP_str (ascii ''table'')])
     = Some \<lparr>pq_command = ascii ''table'', pq_hash = [], pq_max_hops = None\<rparr>"
proof -
  let ?xs = "[MP_array 1, MP_str (ascii ''table'')]"
  have "mp_feed demo_msgpack (mp_pack demo_msgpack ?xs) = ?xs"
    by (intro msgpack_okD(3) [OF demo_msgpack_ok]) (simp_all add: ascii_def)
  moreover have "mp_pack demo_msgpack ?xs \<noteq> []" by (simp add: demo_msgpack_def)
  ultimately show ?thesis by (simp add: parse_path_query_def query_hash_def query_hops_def)
qed

text \<open>
  C37. The answer to a request for the path table is one list: the two passes over the table, each with a
  counter and an end of its own, agree, and report the first hundred paths that are not marked unresponsive
  and within the limit of hops.  Every answer of \<open>/path\<close>, to whatever request and of whatever tables, is
  empty or exactly one MessagePack object, and every answer of \<open>/status\<close>, envelope included, is one object:
  the lengths that they announce are those of what follows, so that an answer read together with further
  objects leaves exactly these.  (A comment in the handler calls the listing of all paths a no-op; the code
  lists them.)
\<close>

theorem paths_reported:
  assumes "msgpack_ok M"
  shows "(parse_path_query M dat = Some \<lparr>pq_command = ascii ''table'', pq_hash = [], pq_max_hops = m\<rparr> \<longrightarrow>
      remote_path_handler M iname get entries states rates dat =
        (let l = take MAX_REPORTED_PATHS (filter (\<lambda>(h, e). (case m of None \<Rightarrow> True | Some k \<Rightarrow> unat (pe_hops e) \<le> k) \<and>
             \<not> path_is_unresponsive states h) entries)
         in mp_pack M (MP_array (length l) # concat (map (pack_path_entry iname) l)))) \<and>
    (remote_path_handler M iname get entries states rates dat = [] \<or>
      (\<exists>xs. remote_path_handler M iname get entries states rates dat = mp_pack M xs \<and> (\<forall>r. skip_values 1 (xs @ r) = r))) \<and>
    (\<exists>xs. remote_status_handler M is t links dat = mp_pack M xs \<and> (\<forall>r. skip_values 1 (xs @ r) = r))"
proof (intro conjI impI)
  let ?q = "\<lparr>pq_command = ascii ''table'', pq_hash = [], pq_max_hops = m\<rparr>"
  have r: "reports ?q states = (\<lambda>(h, e). (case m of None \<Rightarrow> True | Some k \<Rightarrow> unat (pe_hops e) \<le> k) \<and> \<not> path_is_unresponsive states h)"
    by (auto simp: reports_def fun_eq_iff)
  assume "parse_path_query M dat = Some ?q"
  then show "remote_path_handler M iname get entries states rates dat =
        (let l = take MAX_REPORTED_PATHS (filter (\<lambda>(h, e). (case m of None \<Rightarrow> True | Some k \<Rightarrow> unat (pe_hops e) \<le> k) \<and>
             \<not> path_is_unresponsive states h) entries)
         in mp_pack M (MP_array (length l) # concat (map (pack_path_entry iname) l)))"
    by (simp add: remote_path_handler_def path_table_answer_def count_paths_eq pack_paths_eq r Let_def)
next
  show "remote_path_handler M iname get entries states rates dat = [] \<or>
      (\<exists>xs. remote_path_handler M iname get entries states rates dat = mp_pack M xs \<and> (\<forall>r. skip_values 1 (xs @ r) = r))"
    using one_object_rest [OF one_object_paths] one_object_rest [OF one_object_rates]
    unfolding remote_path_handler_def by (auto split: option.split)
next
  show "\<exists>xs. remote_status_handler M is t links dat = mp_pack M xs \<and> (\<forall>r. skip_values 1 (xs @ r) = r)"
    using remote_status_packs [OF assms] one_object_rest [OF one_object_status] by blast
qed

definition demo_reported :: path_entry where
  "demo_reported = \<lparr>pe_timestamp = 1, pe_received_from = [9], pe_hops = 2, pe_expires = 100, pe_random_blobs = [],
     pe_receiving_interface = Some 0, pe_announce_packet = None\<rparr>"

theorem paths_reported_witness:
  "remote_path_handler demo_msgpack (\<lambda>_. []) Map.empty [([1], demo_reported), ([2], demo_reported)]
      (Map.empty([2] \<mapsto> STATE_UNRESPONSIVE)) [] (mp_pack demo_msgpack [MP_array 1, MP_str (ascii ''table'')]) =
    mp_pack demo_msgpack (MP_array 1 # pack_path_entry (\<lambda>_. []) ([1], demo_reported))"
  using paths_reported [OF demo_msgpack_ok, of "mp_pack demo_msgpack [MP_array 1, MP_str (ascii ''table'')]" None "\<lambda>_. []" Map.empty
      "[([1], demo_reported), ([2], demo_reported)]" "Map.empty([2] \<mapsto> STATE_UNRESPONSIVE)" "[]"] demo_path_query
  by (simp add: path_is_unresponsive_def)

end
