(* ===== verification/Lifecycle.thy ===== *)
theory Lifecycle
  imports Transport_State Resource Destination
begin

text \<open>
  The tables of \<open>Transport\<close> as the rest of the program fills and empties them: registration of destinations
  and links, activation of a link, shutdown (\<open>Transport.cpp\<close>); the timers of \<open>Reticulum\<close> that save and clean
  (\<open>Reticulum.cpp\<close>); the clocks of a link (\<open>Link.cpp\<close>) and the progress of a transfer (\<open>Resource.cpp\<close>).
\<close>

section \<open>Destinations\<close>

text \<open>\<open>True\<close>: the destination is announced now, as the node is connected to a shared instance.\<close>

definition register_destination ::
  "('s, 'k, 'h) tenv \<Rightarrow> bytes destination \<Rightarrow> ('s, 'k, 'h) transport \<Rightarrow>
     (bytes destination \<times> ('s, 'k, 'h) transport \<times> bool) result" where
  "register_destination E d t =
     (let d1 = d\<lparr>d_mtu := MTU\<rparr>
      in if d_direction d1 = IN then
           if tab_find (d_hash d1) (t_destinations t) \<noteq> None then Inl Runtime_error
           else Inr (d1, t\<lparr>t_destinations := tab_insert (d_hash d1) d1 (t_destinations t)\<rparr>,
                     te_shared_instance E \<and> d_type d1 = SINGLE)
         else Inr (d1, t, False))"

definition deregister_destination :: "bytes destination \<Rightarrow> ('s, 'k, 'h) transport \<Rightarrow> ('s, 'k, 'h) transport" where
  "deregister_destination d t =
     (if tab_find (d_hash d) (t_destinations t) \<noteq> None
      then t\<lparr>t_destinations := tab_erase (d_hash d) (t_destinations t)\<rparr> else t)"

definition find_destination_from_hash :: "bytes \<Rightarrow> ('s, 'k, 'h) transport \<Rightarrow> bytes destination option" where
  "find_destination_from_hash h t = tab_find h (t_destinations t)"

section \<open>Links\<close>

text \<open>
  A link is registered once, when its object is made.  A pending link is named by its place \<open>k\<close> in the list,
  which stands for the handle of the object: \<open>l\<close> is the state of the object when \<open>activate_link\<close> is called.
  The handle of an object that is not pending is beyond the list.
\<close>

definition register_link :: "link \<Rightarrow> ('s, 'k, 'h) transport \<Rightarrow> ('s, 'k, 'h) transport" where
  "register_link l t =
     (if l_initiator l then t\<lparr>t_pending_links := t_pending_links t @ [l]\<rparr>
      else t\<lparr>t_active_links := t_active_links t @ [l]\<rparr>)"

definition activate_link :: "nat \<Rightarrow> link \<Rightarrow> ('s, 'k, 'h) transport \<Rightarrow> ('s, 'k, 'h) transport result" where
  "activate_link k l t =
     (if k < length (t_pending_links t) then
        if l_status l \<noteq> LACTIVE then Inl Runtime_error
        else Inr (t\<lparr>t_pending_links := take k (t_pending_links t) @ drop (Suc k) (t_pending_links t),
                    t_active_links := t_active_links t @ [l]\<rparr>)
      else Inr t)"

section \<open>Shutdown\<close>

datatype life_event = Of_link bytes link_event | Detach nat | Persist | Clean

text \<open>One link: an exception of \<open>teardown\<close> is logged, the link stays as it is.\<close>

definition close_link :: "crypto_lib \<Rightarrow> real \<Rightarrow> bytes \<Rightarrow> link \<Rightarrow> (link \<times> life_event list) result" where
  "close_link lib now iv l =
     try_catch (map_sum id (\<lambda>(l', evs). (l', map (Of_link (l_link_id l)) evs)) (teardown lib now iv l)) (\<lambda>e. Inr (l, []))"

fun close_links :: "crypto_lib \<Rightarrow> real \<Rightarrow> (nat \<Rightarrow> bytes) \<Rightarrow> link list \<Rightarrow> (link list \<times> life_event list) result" where
  "close_links lib now iv [] = Inr ([], [])"
| "close_links lib now iv (l # ls) =
     res_bind (close_link lib now (iv 0) l) (\<lambda>(l', evs).
     res_bind (close_links lib now (\<lambda>k. iv (k + 1)) ls) (\<lambda>(ls', evs'). Inr (l' # ls', evs @ evs')))"

definition detach_interfaces ::
  "crypto_lib \<Rightarrow> real \<Rightarrow> (nat \<Rightarrow> bytes) \<Rightarrow> ('s, 'k, 'h) transport \<Rightarrow> (('s, 'k, 'h) transport \<times> life_event list) result" where
  "detach_interfaces lib now iv t =
     res_bind (close_links lib now iv (t_active_links t)) (\<lambda>(as, e1).
     res_bind (close_links lib now (\<lambda>k. iv (length (t_active_links t) + k)) (t_pending_links t)) (\<lambda>(ps, e2).
       Inr (t\<lparr>t_active_links := as, t_pending_links := ps\<rparr>, e1 @ e2 @ map Detach (if_ids (t_ifs t)))))"

definition exit_handler ::
  "('s, 'k, 'h) tenv \<Rightarrow> real \<Rightarrow> (nat \<Rightarrow> bytes) \<Rightarrow> ('s, 'k, 'h) transport \<Rightarrow> (('s, 'k, 'h) transport \<times> life_event list) result" where
  "exit_handler E now iv t =
     res_bind (detach_interfaces (te_lib E) now iv t) (\<lambda>(t', evs).
       Inr (t', (if te_shared_instance E then [] else [Persist]) @ evs))"

section \<open>The timers of \<open>Reticulum\<close>\<close>

text \<open>The intervals are 16 bit numbers of seconds.  Two readings of the clock in one call are arguments of their own.\<close>

record node_timers =
  nt_last_data_persist :: real
  nt_last_cache_clean :: real
  nt_jobs_last_run :: real
  nt_persist_interval :: "16 word"
  nt_clean_interval :: "16 word"

definition persist_data :: "real \<Rightarrow> node_timers \<Rightarrow> node_timers \<times> life_event list" where
  "persist_data now n = (n\<lparr>nt_last_data_persist := now\<rparr>, [Persist])"

definition clean_caches :: "real \<Rightarrow> node_timers \<Rightarrow> node_timers \<times> life_event list" where
  "clean_caches now n = (n\<lparr>nt_last_cache_clean := now\<rparr>, [Clean])"

abbreviation GRACIOUS_PERSIST_INTERVAL :: real where "GRACIOUS_PERSIST_INTERVAL \<equiv> 300"
abbreviation JOB_INTERVAL :: real where "JOB_INTERVAL \<equiv> 60"

definition should_persist_data :: "real \<Rightarrow> node_timers \<Rightarrow> node_timers \<times> life_event list" where
  "should_persist_data now n =
     (if now > nt_last_data_persist n + GRACIOUS_PERSIST_INTERVAL then persist_data now n else (n, []))"

definition node_jobs :: "real \<Rightarrow> real \<Rightarrow> node_timers \<Rightarrow> node_timers \<times> life_event list" where
  "node_jobs now done_at n =
     (let (n1, e1) = (if now > nt_last_cache_clean n + real (unat (nt_clean_interval n)) then clean_caches done_at n else (n, []));
          (n2, e2) = (if now > nt_last_data_persist n1 + real (unat (nt_persist_interval n1)) then persist_data done_at n1 else (n1, []))
      in (n2\<lparr>nt_jobs_last_run := done_at\<rparr>, e1 @ e2))"

definition node_loop :: "bool \<Rightarrow> real \<Rightarrow> real \<Rightarrow> node_timers \<Rightarrow> node_timers \<times> life_event list" where
  "node_loop shared now done_at n =
     (if \<not> shared \<and> now > nt_jobs_last_run n + JOB_INTERVAL then node_jobs now done_at n else (n, []))"

section \<open>What a link and a transfer report\<close>

definition get_mtu :: "link \<Rightarrow> nat" where
  "get_mtu l = (if l_status l = LACTIVE then l_mtu l else 0)"

definition get_mdu :: "link \<Rightarrow> nat" where
  "get_mdu l = (if l_status l = LACTIVE then l_mdu l else 0)"

definition get_age :: "real \<Rightarrow> link \<Rightarrow> real" where
  "get_age now l = (if l_activated_at l \<noteq> 0 then now - l_activated_at l else 0)"

definition no_inbound_for :: "real \<Rightarrow> link \<Rightarrow> real" where
  "no_inbound_for now l = now - max (l_last_inbound l) (l_activated_at l)"

definition no_outbound_for :: "real \<Rightarrow> link \<Rightarrow> real" where
  "no_outbound_for now l = now - l_last_outbound l"

definition no_data_for :: "real \<Rightarrow> link \<Rightarrow> real" where
  "no_data_for now l = now - l_last_data l"

definition inactive_for :: "real \<Rightarrow> link \<Rightarrow> real" where
  "inactive_for now l = min (no_inbound_for now l) (no_outbound_for now l)"

text \<open>\<open>done\<close> parts of this segment have passed; the SDU of a transfer is not 0 (the code divides by it).\<close>

abbreviation MAX_EFFICIENT_SIZE :: nat where "MAX_EFFICIENT_SIZE \<equiv> 16 * 1024 * 1024 - 1"

definition max_parts_per_segment :: "resource \<Rightarrow> nat" where
  "max_parts_per_segment r = (MAX_EFFICIENT_SIZE + r_sdu r - 1) div r_sdu r"

definition parts_done :: "resource \<Rightarrow> nat" where
  "parts_done r = (if r_initiator r then r_sent_parts r else r_received_count r)"

definition progress_of :: "resource \<Rightarrow> real \<times> real" where
  "progress_of r =
     (if \<not> r_split r then (real (parts_done r), real (r_total_parts r))
      else
        let before = nat ((int (r_segment_index r) - 1) mod 2 ^ 16);
            m = max_parts_per_segment r;
            factor = (if r_total_parts r < m then real m / real (r_total_parts r) else 1)
        in (real before * real m + real (parts_done r) * factor, real (r_total_segments r) * real m))"

definition get_progress :: "resource \<Rightarrow> real" where
  "get_progress r =
     (if r_status r = R_COMPLETE \<and> r_segment_index r = r_total_segments r then 1
      else case progress_of r of (processed, all) \<Rightarrow> if all \<le> 0 then 0 else min 1 (processed / all))"

definition get_segment_progress :: "resource \<Rightarrow> real" where
  "get_segment_progress r =
     (if r_status r = R_COMPLETE \<and> r_segment_index r = r_total_segments r then 1
      else if r_total_parts r = 0 then 0 else min 1 (real (parts_done r) / real (r_total_parts r)))"

section \<open>Lemmas\<close>

subsection \<open>Registration\<close>

lemma registered_found:
  assumes "tab_ok (t_destinations t)" and "register_destination E d t = Inr (d', t', b)" and "d_direction d = IN"
  shows "find_destination_from_hash h t' = (if h = d_hash d then Some d' else find_destination_from_hash h t)"
    and "tab_ok (t_destinations t')" and "\<exists>e. register_destination E d t' = Inl e"
  using assms by (auto simp: register_destination_def find_destination_from_hash_def tab_lookup tab_inv Let_def split: if_splits)

lemma deregistered_gone:
  assumes "tab_ok (t_destinations t)"
  shows "find_destination_from_hash h (deregister_destination d t) =
    (if h = d_hash d then None else find_destination_from_hash h t)"
  using assms by (auto simp: deregister_destination_def find_destination_from_hash_def tab_find_erase)

lemma activate_link_moves:
  assumes "activate_link k l t = Inr t'" and "k < length (t_pending_links t)"
  shows "l_status l = LACTIVE" and "t_active_links t' = t_active_links t @ [l]"
    and "length (t_pending_links t') + 1 = length (t_pending_links t)"
    and "set (t_pending_links t') \<subseteq> set (t_pending_links t)"
  using assms by (auto simp: activate_link_def dest: in_set_takeD in_set_dropD split: if_splits)

subsection \<open>Shutdown\<close>

text \<open>Every link is closed with its keys, or its \<open>teardown\<close> threw; nothing is detached in between.\<close>

definition shut :: "crypto_lib \<Rightarrow> real \<Rightarrow> link \<Rightarrow> link \<Rightarrow> bool" where
  "shut lib now l l' \<longleftrightarrow>
     (l_status l' = CLOSED \<and> l_prv l' = None \<and> l_shared_key l' = [] \<and> l_derived_key l' = []) \<or>
     (l' = l \<and> (\<exists>iv e. teardown lib now iv l = Inl e))"

lemma close_link_shut:
  assumes "close_link lib now iv l = Inr (l', evs)"
  shows "shut lib now l l' \<and> Detach n \<notin> set evs"
proof (cases "teardown lib now iv l")
  case (Inl e)
  then have "l' = l" "evs = []" using assms by (auto simp: close_link_def try_catch_def split: if_splits)
  then show ?thesis using Inl by (auto simp: shut_def)
next
  case (Inr x)
  obtain m es where x: "x = (m, es)" by fastforce
  obtain l1 where "m = fst (link_closed (l1\<lparr>l_status := CLOSED,
      l_teardown_reason := (if l_initiator l1 then INITIATOR_CLOSED else DESTINATION_CLOSED)\<rparr>))"
    using Inr unfolding x teardown_def Let_def case_prod_beta res_bind_eq_Inr by auto
  then have "l_status m = CLOSED \<and> l_prv m = None \<and> l_shared_key m = [] \<and> l_derived_key m = []"
    by (simp add: link_closed_def)
  moreover have "l' = m" "evs = map (Of_link (l_link_id l)) es" using assms Inr x by (simp_all add: close_link_def)
  ultimately show ?thesis by (auto simp: shut_def)
qed

lemma close_links_shut:
  "close_links lib now iv ls = Inr (ls', evs) \<Longrightarrow> list_all2 (shut lib now) ls ls' \<and> Detach n \<notin> set evs"
proof (induction ls arbitrary: iv ls' evs)
  case (Cons l ls)
  then obtain l1 e1 ls1 e2 where s: "close_link lib now (iv 0) l = Inr (l1, e1)"
      "close_links lib now (\<lambda>k. iv (k + 1)) ls = Inr (ls1, e2)" "ls' = l1 # ls1" "evs = e1 @ e2"
    by (auto simp: res_bind_eq_Inr)
  show ?case using close_link_shut [OF s(1)] Cons.IH [OF s(2)] s(3,4) by simp
qed simp

lemma node_shut_down:
  assumes "detach_interfaces lib now iv t = Inr (t', evs)"
  shows "list_all2 (shut lib now) (t_active_links t @ t_pending_links t) (t_active_links t' @ t_pending_links t')"
    and "\<exists>out. evs = out @ map Detach (if_ids (t_ifs t)) \<and> (\<forall>n. Detach n \<notin> set out)"
proof -
  obtain as e1 ps e2 iv' where s: "close_links lib now iv (t_active_links t) = Inr (as, e1)"
      "close_links lib now iv' (t_pending_links t) = Inr (ps, e2)"
      "t' = t\<lparr>t_active_links := as, t_pending_links := ps\<rparr>" "evs = (e1 @ e2) @ map Detach (if_ids (t_ifs t))"
    using assms by (auto simp: detach_interfaces_def res_bind_eq_Inr)
  note c = close_links_shut [OF s(1)] close_links_shut [OF s(2)]
  show "list_all2 (shut lib now) (t_active_links t @ t_pending_links t) (t_active_links t' @ t_pending_links t')"
    using c s(3) by (simp add: list_all2_appendI)
  show "\<exists>out. evs = out @ map Detach (if_ids (t_ifs t)) \<and> (\<forall>n. Detach n \<notin> set out)"
    using c s(4) by auto
qed

subsection \<open>Saving\<close>

text \<open>Calls of \<open>loop\<close>, each with the time at which it begins and ends.\<close>

definition run_loops :: "(real \<times> real) list \<Rightarrow> node_timers \<Rightarrow> node_timers" where
  "run_loops cs n = fold (\<lambda>(now, done_at) n. fst (node_loop False now done_at n)) cs n"

definition saved_in_time :: "real \<Rightarrow> node_timers \<Rightarrow> bool" where
  "saved_in_time e n \<longleftrightarrow> nt_jobs_last_run n \<le> nt_last_data_persist n + real (unat (nt_persist_interval n)) + e"

lemma node_loop_saves:
  assumes "saved_in_time e n" and "now \<le> done_at" and "done_at \<le> now + e"
  shows "saved_in_time e (fst (node_loop False now done_at n))"
    and "now \<le> nt_last_data_persist (fst (node_loop False now done_at n)) +
      real (unat (nt_persist_interval (fst (node_loop False now done_at n)))) + 60 + e"
    and "nt_persist_interval (fst (node_loop False now done_at n)) = nt_persist_interval n"
proof -
  let ?I = "real (unat (nt_persist_interval n))"
  have "0 \<le> ?I" by (rule of_nat_0_le_iff)
  then show "saved_in_time e (fst (node_loop False now done_at n))"
    and "now \<le> nt_last_data_persist (fst (node_loop False now done_at n)) +
      real (unat (nt_persist_interval (fst (node_loop False now done_at n)))) + 60 + e"
    and "nt_persist_interval (fst (node_loop False now done_at n)) = nt_persist_interval n"
    using assms
    by (auto simp: saved_in_time_def node_loop_def node_jobs_def persist_data_def clean_caches_def Let_def
        simp del: of_nat_unat split: if_splits)
qed

lemma data_saved_regularly:
  assumes "saved_in_time e n" and "list_all (\<lambda>(now, done_at). now \<le> done_at \<and> done_at \<le> now + e) (cs @ [c])"
  shows "fst c \<le> nt_last_data_persist (run_loops (cs @ [c]) n) + real (unat (nt_persist_interval n)) + 60 + e"
proof -
  have "saved_in_time e (run_loops cs n) \<and> nt_persist_interval (run_loops cs n) = nt_persist_interval n"
    using assms
  proof (induction cs arbitrary: n)
    case (Cons d cs)
    obtain a b where d: "d = (a, b)" by fastforce
    note s = node_loop_saves [OF Cons.prems(1), of a b]
    show ?case using Cons.IH [of "fst (node_loop False a b n)"] Cons.prems s by (simp add: d run_loops_def)
  qed (simp add: run_loops_def)
  moreover obtain a b where c: "c = (a, b)" by fastforce
  ultimately show ?thesis
    using node_loop_saves [of e "run_loops cs n" a b] assms(2) by (simp add: run_loops_def)
qed

subsection \<open>Progress\<close>

lemma progress_bounded: "0 \<le> get_progress r" "get_progress r \<le> 1" "0 \<le> get_segment_progress r" "get_segment_progress r \<le> 1"
  by (auto simp: get_progress_def progress_of_def get_segment_progress_def Let_def split: prod.split)

lemma progress_complete:
  assumes "\<not> r_split r" and "r_total_parts r > 0"
  shows "get_progress r = 1 \<longleftrightarrow> (r_status r = R_COMPLETE \<and> r_segment_index r = r_total_segments r) \<or> r_total_parts r \<le> parts_done r"
  using assms by (auto simp: get_progress_def progress_of_def min_def field_simps)

end
