(* ===== verification/Spec2Isabelle.thy ===== *)
theory Spec2Isabelle
  imports Cow_Bytes Jobs Resource_Delivery Provision_Properties Blackholes Management Lifecycle
begin

text \<open>
  microReticulum is an implementation of the Reticulum network stack for microcontrollers.  A node owns
  identities (key pairs) and destinations (named endpoints of an identity), announces its destinations,
  learns paths from the announces of others, sends encrypted packets, opens links with forward secrecy
  and relays what is not addressed to it.  All paths below are relative to
  \<open>src/src/microReticulum\<close>.

  \<^bold>\<open>Parts and theories.\<close>  Every theory models the file its text names; a definition has the name of the
  function it translates, and a record field that of the member, with a prefix per class.

  \<^item> \<open>Prelude\<close>: octets and byte strings (lists of 8 bit words), exceptions as values, the collections of
    rewrite rules, the locales \<open>invariant_machine\<close> and \<open>simulation\<close> for step functions on states.
  \<^item> \<open>Byte_String\<close>, \<open>Cow_Bytes\<close>: class \<open>Bytes\<close> (\<open>Bytes.h\<close>, \<open>Bytes.cpp\<close>).  The first has the functions on
    contents, the second the shared buffers: an explicit store of cells, objects that point into it, and
    a refinement to independent values.
  \<^item> \<open>Generational_Set\<close>: \<open>Utilities/GenerationalSet.h\<close>, the bounded set of the duplicate filters, with the
    locale \<open>duplicate_filter\<close> that says what a filter promises.
  \<^item> \<open>Block_Cipher\<close>, \<open>Token\<close>: the directory \<open>Cryptography\<close>: padding, CBC, AES wrappers, HMAC, HKDF, hashes,
    \<open>Token\<close> and \<open>Fernet\<close>.  The primitives of the Crypto library are fields of the record \<open>crypto_lib\<close>.
  \<^item> \<open>Packet\<close>: packet headers, \<open>pack\<close>, \<open>unpack\<close>, the packet hash (\<open>Packet.cpp\<close>).
  \<^item> \<open>Typed_Store\<close>, \<open>Std_Map\<close>: the interface of the \<open>microStore\<close> package as a record of operations with
    documented laws, and \<open>std::map\<close> as a sorted association list (locale \<open>table_laws\<close>).
  \<^item> \<open>Identity\<close>, \<open>Destination\<close>: \<open>Identity.cpp\<close> with the store of known destinations, \<open>Destination.cpp\<close> with
    announces, delivery and request handlers.
  \<^item> \<open>Link\<close>: \<open>Link.cpp\<close>: requests, proofs, the handshake, traffic, keepalive and teardown of a link; the
    runs of a link are an inductive relation.
  \<^item> \<open>Path_Store\<close>: path entries and their codec (\<open>Persistence/DestinationEntry.cpp\<close>), path queries, interfaces
    and blackholes.
  \<^item> \<open>Receipts\<close>: \<open>PacketReceipt\<close>, proofs of delivery, timeouts.
  \<^item> \<open>Transport_State\<close>, \<open>Announces\<close>, \<open>Path_Requests\<close>, \<open>Outbound\<close>, \<open>Inbound\<close>, \<open>Neighbors\<close>, \<open>Jobs\<close>: class
    \<open>Transport\<close>.  Its static members are the record \<open>transport\<close>; \<open>tenv\<close> holds what stays fixed (library,
    stores, configuration, drivers); each handler takes the time and the state and returns the new
    state with a list of events (transmissions, deliveries, callbacks).
  \<^item> \<open>Msgpack\<close>: the MessagePack library as a record of operations with the law \<open>msgpack_ok\<close>, and a codec
    that satisfies it.
  \<^item> \<open>Resource\<close>, \<open>Resource_Ops\<close>: \<open>Resource.cpp\<close>: advertisements, and every operation of a transfer on the
    record \<open>resource\<close> (\<open>ResourceData.h\<close>).  \<open>Link_Resources\<close>: the parts of \<open>Link.cpp\<close> that deal with
    requests, responses and resources; the record \<open>link_end\<close> is one end of a link with its tables.
  \<^item> \<open>Resource_Receiver\<close>, \<open>Resource_Initiator\<close>, \<open>Resource_Transfer\<close>, \<open>Link_Transfer\<close>, \<open>Resource_Delivery\<close>: the
    invariant of the receiver, what the initiator answers to each request, the rounds of a transfer, the
    same on two complete ends of a link, and the properties of transfers.
  \<^item> \<open>Crc\<close>: \<open>Utilities/Crc.cpp\<close>.
  \<^item> \<open>Provision_Values\<close>, \<open>Provision_Namespace\<close>, \<open>Provision_Storage\<close>, \<open>Provision_Builder\<close>,
    \<open>Provision_Builtin\<close>, \<open>Provisioner\<close>, \<open>Provision_Messages\<close>: the directory \<open>Provisioning\<close>: typed values and
    fields with their codec (\<open>Value.h\<close>, \<open>Field.cpp\<close>, \<open>Codec.cpp\<close>), namespaces with stored values and drafts
    and their registry (\<open>Namespace.cpp\<close>, \<open>Registry.cpp\<close>), the files (\<open>Storage.cpp\<close>), the builder and
    the built-in namespaces, the singleton (record \<open>provisioner\<close>) and the message interface.
    \<open>Provision_Wire\<close>, \<open>Provision_Demo\<close>, \<open>Provision_Properties\<close>: what messages preserve, a closed example
    and the properties.
  \<^item> \<open>Traffic\<close>: the counters of the interfaces (\<open>Interface.cpp\<close>) at the width of \<open>size_t\<close>, and
    \<open>Transport::count_traffic\<close>.
  \<^item> \<open>Blackholes\<close>: the file of the blocked identities and its request handler (\<open>Transport.cpp\<close>).
  \<^item> \<open>Management\<close>: the destination for remote management (\<open>Transport.cpp\<close>): the handlers \<open>/status\<close>,
    \<open>/path\<close> and \<open>/provision\<close>, and their composition with an incoming link and the configuration service.
  \<^item> \<open>Lifecycle\<close>: registration of destinations and links, activation, shutdown (\<open>Transport.cpp\<close>), the timers
    that save and clean (\<open>Reticulum.cpp\<close>), the clocks of a link and the progress of a transfer.

  \<^bold>\<open>How they interact.\<close>  \<open>Inbound.inbound\<close> is called by an interface with raw octets.  It unpacks them
  (\<open>Packet\<close>), asks the filter (\<open>Generational_Set\<close>), relays by the path table (\<open>Path_Store\<close>) and the link
  table, hands announces to \<open>Announces\<close> and \<open>Identity\<close>, data to \<open>Destination\<close> and proofs to \<open>Receipts\<close>.
  \<open>Outbound.outbound\<close> sends packets made by \<open>Destination\<close>, \<open>Link\<close>, \<open>Path_Requests\<close> and \<open>Neighbors\<close>.
  \<open>Jobs.transport_loop\<close> runs the timed passes over all tables.
  A link hands packets with a resource context to \<open>Link_Resources.end_receive\<close>, which finds the transfer
  and runs the operation of \<open>Resource_Ops\<close> on it.  \<open>Provision_Messages.handle_message\<close> is called with the
  octets of a request; it writes drafts, and a commit runs the setters of the fields on the state of the
  application and saves through \<open>Provision_Storage\<close>.

  \<^bold>\<open>What the lemmas show.\<close>  Round trips: packets, tokens, encryption to an identity, path entries, announces
  and deliveries between a sender and a receiver.  Authenticity: tokens, announces, links and receipts are
  accepted only with the right signature or code.  Refinement: shared byte buffers behave as values
  and the two ends of a link agree.  Relaying: a packet passes any number of nodes unchanged but for the
  hop count, its proof finds the way back, no copy is relayed twice (but for the contexts that the
  duplicate filter passes).  Bounds and culling: MTU, MDU,
  bounded sets and tables.  Termination: \<open>outbound\<close> and \<open>jobs\<close> return, or the condition under which they
  do not; the registration of namespaces returns.  Transfers: a resource sent over an active link of the
  standard MTU arrives within a number of rounds computed from its parts; over a larger MTU its parts are cut.  Configuration: values stay typed, a commit refines an
  operation on two maps, nothing takes effect before it, what is saved is loaded and applied; over a link
  only an identified administrator changes anything.  Reports: the answers of \<open>/status\<close> and \<open>/path\<close> are one MessagePack object, or empty; a state
  report does not depend on secret values.  Each property names the conditions it has.
  The properties of kind error show where the code departs from what it means to do.

  \<^bold>\<open>Numbers and loops.\<close>  Fields of a fixed width that are computed with (hop counts, flags, ids of the
  configuration) are words and wrap, or numbers with the wrap-around written out (the timeout of a receipt, the counters of an interface).  Times are real numbers.  Lengths and
  table limits are natural numbers.  No model uses fuel: loops over data are structural or have a
  measure.  Two loops may not end and are partial functions whose value \<open>None\<close> is a call that never
  returns: \<open>await_jobs\<close>, the waiting loop of \<open>outbound\<close>, and \<open>parent_walk\<close>, the walk up the chain of parent
  namespaces.

  \<^bold>\<open>Undefined behaviour.\<close>  Where the code would dereference an empty object or index a vector beyond its
  end, the model returns the error \<open>Undefined_behaviour\<close>; the conversion of a negative MDU is \<open>undefined\<close>.
  Two corners are given the value that follows in practice: a buffer appended to itself (\<open>Cow_Bytes\<close>) and the
  addition to the size limit of a set, which would wrap at \<open>SIZE_MAX\<close> (\<open>Generational_Set\<close>).

  \<^bold>\<open>Parameters.\<close>  Code outside the repository is an argument: the primitives of the Crypto library with
  their correctness laws (\<open>crypto_ok\<close>), the stores (\<open>store_ok\<close>), the drivers of the
  interfaces, the MessagePack library (\<open>msgpack_ok\<close>), the file system adapter (\<open>fs_laws\<close>), the compressor, the
  accessors the built-in namespaces read and write (\<open>runtime\<close>), the callbacks of the application.  Witness
  theorems instantiate them with concrete functions.

  \<^bold>\<open>Not modelled.\<close>  Vendored C code (\<open>Utilities/heatshrink\<close>, \<open>Utilities/tlsf\<close>); logging, allocators and clock
  (\<open>Log\<close>, \<open>Utilities/Memory\<close>, \<open>Utilities/OS\<close> but for its file wrappers), which only call the platform; the
  persistence templates (\<open>Utilities/Persistence.h\<close>), which are written against absent libraries;
  \<open>Channel.cpp\<close>, which has no body; the construction and wiring of the
  objects at start (\<open>Reticulum::start\<close>, \<open>Transport::start\<close>, \<open>main.cpp\<close>).
  In \<open>Transport.cpp\<close>: tunnels (the table is never filled), clients of a shared instance (no such interface
  exists), saving of tables to files and the dump of tables.  In
  \<open>Provisioning\<close>: floats that are not numbers or not finite, setters and hooks that call back into the
  provisioner, and the metrics of one board (ESP32).
\<close>

end
